(* ===== verification/Prelude.thy ===== *)
theory Prelude
  imports Complex_Main "HOL-Library.AList" "HOL-Library.Word" "HOL-Library.Char_ord"
    "HOL-Library.List_Lexorder" "HOL-Library.Sublist"
begin

text \<open>
  Shared vocabulary of the development: C++ exceptions as a sum type, 32 and 64 bit integers,
  the table model of \<open>std::unordered_map\<close> (an association list whose keys are distinct and
  whose order stands for the unspecified iteration order), the set model of
  \<open>std::unordered_set\<close>, reachability for step relations, and the two generic interfaces
  (keyed store, inductive invariant) that the components interpret.
\<close>

section \<open>Fact collections\<close>

named_theorems table_simps \<open>lookups in updated tables\<close>
named_theorems inv_intros \<open>preservation facts of the component invariants\<close>

section \<open>Machine integers\<close>

type_synonym u32 = "32 word"
type_synonym u64 = "64 word"

text \<open>Conversion of a 64 bit value to \<open>int\<close>: the value modulo \<open>2^32\<close>, read as two's complement.\<close>

definition to_int32 :: "int \<Rightarrow> int" where
  "to_int32 i = (i + 2147483648) mod 4294967296 - 2147483648"

abbreviation INT_MAX :: int where
  "INT_MAX \<equiv> 2147483647"

lemma to_int32_range: "- 2147483648 \<le> to_int32 i \<and> to_int32 i \<le> INT_MAX"
  unfolding to_int32_def by (auto simp: algebra_simps)

lemma to_int32_id: "- 2147483648 \<le> i \<Longrightarrow> i \<le> INT_MAX \<Longrightarrow> to_int32 i = i"
  unfolding to_int32_def by simp

section \<open>Exceptions\<close>

text \<open>What the code throws: every \<open>throw\<close> and every exception of the JSON library is a value.\<close>

datatype exn =
    Runtime_Error string
  | Socket_Exception string
  | Type_Error string

fun what :: "exn \<Rightarrow> string" where
  "what (Runtime_Error s) = s"
| "what (Socket_Exception s) = s"
| "what (Type_Error s) = s"

type_synonym 'a res = "exn + 'a"

fun rbind :: "'a res \<Rightarrow> ('a \<Rightarrow> 'b res) \<Rightarrow> 'b res" where
  "rbind (Inl e) f = Inl e"
| "rbind (Inr a) f = f a"

lemma rbind_Inr_conv: "rbind m f = Inr b \<longleftrightarrow> (\<exists>a. m = Inr a \<and> f a = Inr b)"
  by (cases m) auto

lemma rbind_split: "P (rbind m f) \<longleftrightarrow> (\<forall>e. m = Inl e \<longrightarrow> P (Inl e)) \<and> (\<forall>a. m = Inr a \<longrightarrow> P (f a))"
  by (cases m) auto

section \<open>Tables\<close>

type_synonym ('k, 'v) table = "('k \<times> 'v) list"

abbreviation tget :: "('k, 'v) table \<Rightarrow> 'k \<Rightarrow> 'v option" where
  "tget m k \<equiv> map_of m k"

abbreviation tput :: "'k \<Rightarrow> 'v \<Rightarrow> ('k, 'v) table \<Rightarrow> ('k, 'v) table" where
  "tput k v m \<equiv> AList.update k v m"

abbreviation tdel :: "'k \<Rightarrow> ('k, 'v) table \<Rightarrow> ('k, 'v) table" where
  "tdel k m \<equiv> AList.delete k m"

abbreviation tkeys :: "('k, 'v) table \<Rightarrow> 'k list" where
  "tkeys m \<equiv> map fst m"

definition table_ok :: "('k, 'v) table \<Rightarrow> bool" where
  "table_ok m \<longleftrightarrow> distinct (tkeys m)"

text \<open>Rewriting the value of a present key in place, the way \<open>it->second.field = x\<close> does.\<close>

definition tmodify :: "'k \<Rightarrow> ('v \<Rightarrow> 'v) \<Rightarrow> ('k, 'v) table \<Rightarrow> ('k, 'v) table" where
  "tmodify k f m = (case tget m k of None \<Rightarrow> m | Some v \<Rightarrow> tput k (f v) m)"

lemma tget_tput [simp, table_simps]: "tget (tput k v m) j = (if j = k then Some v else tget m j)"
  by (simp add: update_conv')

lemma tget_tdel [simp, table_simps]: "tget (tdel k m) j = (if j = k then None else tget m j)"
  by (simp add: delete_conv')

lemma tget_tmodify [simp, table_simps]:
  "tget (tmodify k f m) j = (if j = k then map_option f (tget m j) else tget m j)"
  by (auto simp: tmodify_def split: option.splits)

lemma table_ok_Nil [simp]: "table_ok []"
  by (simp add: table_ok_def)

lemma table_ok_tput [simp, intro]: "table_ok m \<Longrightarrow> table_ok (tput k v m)"
  by (simp add: table_ok_def distinct_update)

lemma table_ok_tdel [simp, intro]: "table_ok m \<Longrightarrow> table_ok (tdel k m)"
  by (simp add: table_ok_def distinct_delete)

lemma table_ok_tmodify [simp, intro]: "table_ok m \<Longrightarrow> table_ok (tmodify k f m)"
  by (auto simp: tmodify_def split: option.splits)

lemma set_tkeys: "set (tkeys m) = dom (tget m)"
  by (simp add: dom_map_of_conv_image_fst)

lemma in_table_tget: "table_ok m \<Longrightarrow> (k, v) \<in> set m \<longleftrightarrow> tget m k = Some v"
  by (simp add: table_ok_def)

lemma table_ok_filter [simp, intro]: "table_ok m \<Longrightarrow> table_ok (filter P m)"
  by (simp add: table_ok_def distinct_map_filter)

lemma tget_filter:
  "table_ok m \<Longrightarrow> tget (filter P m) k =
     (case tget m k of None \<Rightarrow> None | Some v \<Rightarrow> if P (k, v) then Some v else None)"
proof (induction m)
  case (Cons a m)
  then have ok: "table_ok m" and "fst a \<notin> set (tkeys m)"
    by (auto simp: table_ok_def)
  then have "tget m (fst a) = None"
    by (simp add: map_of_eq_None_iff)
  with Cons.IH [OF ok] show ?case
    by (cases a) (auto split: option.splits)
qed simp

section \<open>Sets with an iteration order\<close>

type_synonym 'a uset = "'a list"

abbreviation uinsert :: "'a \<Rightarrow> 'a uset \<Rightarrow> 'a uset" where
  "uinsert x xs \<equiv> List.insert x xs"

abbreviation uerase :: "'a \<Rightarrow> 'a uset \<Rightarrow> 'a uset" where
  "uerase x xs \<equiv> removeAll x xs"

section \<open>Interfaces shared by the components\<close>

text \<open>A keyed store: what every component relies on of its maps.\<close>

locale keyed_store =
  fixes get :: "'m \<Rightarrow> 'k \<Rightarrow> 'v option"
    and put :: "'k \<Rightarrow> 'v \<Rightarrow> 'm \<Rightarrow> 'm"
    and del :: "'k \<Rightarrow> 'm \<Rightarrow> 'm"
  assumes get_put: "get (put k v m) j = (if j = k then Some v else get m j)"
    and get_del: "get (del k m) j = (if j = k then None else get m j)"
begin

lemma get_fold_del: "get (fold del ks m) j = (if j \<in> set ks then None else get m j)"
  by (induction ks arbitrary: m) (auto simp: get_del)

lemma get_put_same: "get (put k v m) k = Some v"
  by (simp add: get_put)

lemma del_put_get: "get (del k (put k v m)) j = get (del k m) j"
  by (simp add: get_put get_del)

lemma put_put_get: "get (put k v (put k w m)) j = get (put k v m) j"
  by (simp add: get_put)

end

interpretation tbl: keyed_store tget tput tdel
  by unfold_locales simp_all

text \<open>Reachable states of a step relation, and invariants that every step keeps.\<close>

inductive reach :: "('s \<Rightarrow> bool) \<Rightarrow> ('s \<Rightarrow> 's \<Rightarrow> bool) \<Rightarrow> 's \<Rightarrow> bool"
  for init :: "'s \<Rightarrow> bool" and step :: "'s \<Rightarrow> 's \<Rightarrow> bool" where
  reach_init: "init s \<Longrightarrow> reach init step s"
| reach_step: "reach init step s \<Longrightarrow> step s t \<Longrightarrow> reach init step t"

locale inductive_invariant =
  fixes init :: "'s \<Rightarrow> bool"
    and step :: "'s \<Rightarrow> 's \<Rightarrow> bool"
    and inv :: "'s \<Rightarrow> bool"
  assumes init_inv: "init s \<Longrightarrow> inv s"
    and step_inv: "inv s \<Longrightarrow> step s t \<Longrightarrow> inv t"
begin

lemma reach_inv: "reach init step s \<Longrightarrow> inv s"
  by (induction rule: reach.induct) (auto intro: init_inv step_inv)

end

end
