(* ===== verification/Cxx_Strings.thy ===== *)
theory Cxx_Strings
  imports Prelude
begin

text \<open>
  The part of the C++ string library the code uses (a \<open>std::string\<close> is a list of bytes), and
  \<^verbatim>\<open>utils/string_utils.hpp\<close>: character classes of the C locale, \<open>find\<close>, \<open>rfind\<close>,
  \<open>std::to_string\<close> and \<open>std::stoi\<close>, trimming, splitting, joining and replacing.
  The searches are proved to return the first (last) occurrence, printing and reading of
  numbers are proved inverse, and the trimming loops are characterised.
\<close>

section \<open>Character classes\<close>

definition isspace :: "char \<Rightarrow> bool" where
  "isspace c \<longleftrightarrow> of_char c = (32::nat) \<or> (9 \<le> (of_char c :: nat) \<and> (of_char c :: nat) \<le> 13)"

definition isdigit :: "char \<Rightarrow> bool" where
  "isdigit c \<longleftrightarrow> 48 \<le> (of_char c :: nat) \<and> (of_char c :: nat) \<le> 57"

definition isalpha :: "char \<Rightarrow> bool" where
  "isalpha c \<longleftrightarrow> 65 \<le> (of_char c :: nat) \<and> (of_char c :: nat) \<le> 90
     \<or> 97 \<le> (of_char c :: nat) \<and> (of_char c :: nat) \<le> 122"

definition isalnum :: "char \<Rightarrow> bool" where
  "isalnum c \<longleftrightarrow> isalpha c \<or> isdigit c"

definition tolower :: "char \<Rightarrow> char" where
  "tolower c = (if 65 \<le> (of_char c :: nat) \<and> (of_char c :: nat) \<le> 90
     then char_of ((of_char c :: nat) + 32) else c)"

definition toupper :: "char \<Rightarrow> char" where
  "toupper c = (if 97 \<le> (of_char c :: nat) \<and> (of_char c :: nat) \<le> 122
     then char_of ((of_char c :: nat) - 32) else c)"

abbreviation newline :: char where
  "newline \<equiv> CHR 0x0A"

section \<open>Searching\<close>

fun find_at :: "string \<Rightarrow> string \<Rightarrow> nat \<Rightarrow> nat option" where
  "find_at pat [] i = (if pat = [] then Some i else None)"
| "find_at pat (c # cs) i = (if prefix pat (c # cs) then Some i else find_at pat cs (Suc i))"

text \<open>\<open>s.find(pat, pos)\<close>; \<open>None\<close> is \<open>npos\<close>.\<close>

definition str_find :: "string \<Rightarrow> string \<Rightarrow> nat \<Rightarrow> nat option" where
  "str_find s pat pos = (if pos \<le> length s then find_at pat (drop pos s) pos else None)"

text \<open>\<open>s.rfind(pat)\<close>.\<close>

fun str_rfind :: "string \<Rightarrow> string \<Rightarrow> nat option" where
  "str_rfind [] pat = (if pat = [] then Some 0 else None)"
| "str_rfind (c # cs) pat =
     (case str_rfind cs pat of Some i \<Rightarrow> Some (Suc i)
      | None \<Rightarrow> if prefix pat (c # cs) then Some 0 else None)"

definition str_contains :: "string \<Rightarrow> string \<Rightarrow> bool" where
  "str_contains s pat \<longleftrightarrow> str_find s pat 0 \<noteq> None"

definition occurs_at :: "string \<Rightarrow> string \<Rightarrow> nat \<Rightarrow> bool" where
  "occurs_at s pat i \<longleftrightarrow> i \<le> length s \<and> prefix pat (drop i s)"

lemma find_at_Some:
  "find_at pat s i = Some j \<longleftrightarrow>
     i \<le> j \<and> occurs_at s pat (j - i) \<and> (\<forall>k<j - i. \<not> occurs_at s pat k)"
proof (induction s arbitrary: i)
  case Nil
  then show ?case by (auto simp: occurs_at_def)
next
  case (Cons c cs)
  show ?case
  proof (cases "prefix pat (c # cs)")
    case True
    then have "occurs_at (c # cs) pat 0" by (simp add: occurs_at_def)
    with True show ?thesis by auto (metis diff_is_0_eq gr0I le_antisym)
  next
    case False
    have shift: "occurs_at (c # cs) pat (Suc n) = occurs_at cs pat n" for n
      by (simp add: occurs_at_def)
    have zero: "\<not> occurs_at (c # cs) pat 0"
      using False by (simp add: occurs_at_def)
    have "find_at pat (c # cs) i = Some j \<longleftrightarrow>
        Suc i \<le> j \<and> occurs_at cs pat (j - Suc i) \<and> (\<forall>k<j - Suc i. \<not> occurs_at cs pat k)"
      using False Cons.IH by simp
    also have "\<dots> \<longleftrightarrow> i \<le> j \<and> occurs_at (c # cs) pat (j - i)
        \<and> (\<forall>k<j - i. \<not> occurs_at (c # cs) pat k)"
    proof (cases "Suc i \<le> j")
      case True
      then have ji: "j - i = Suc (j - Suc i)" by simp
      show ?thesis
        using True unfolding ji by (auto simp: shift zero less_Suc_eq_0_disj)
    next
      case False
      then have "\<not> (i \<le> j \<and> occurs_at (c # cs) pat (j - i))"
        using zero by (cases "i = j") auto
      with False show ?thesis by blast
    qed
    finally show ?thesis .
  qed
qed

lemma find_at_None: "find_at pat s i = None \<longleftrightarrow> (\<forall>k. \<not> occurs_at s pat k)"
proof (induction s arbitrary: i)
  case Nil
  then show ?case by (auto simp: occurs_at_def)
next
  case (Cons c cs)
  have "(\<forall>k. \<not> occurs_at (c # cs) pat k) \<longleftrightarrow> \<not> prefix pat (c # cs) \<and> (\<forall>k. \<not> occurs_at cs pat k)"
    by (metis occurs_at_def Suc_le_mono drop0 drop_Suc_Cons length_Cons not0_implies_Suc zero_le)
  with Cons.IH show ?case by simp
qed

text \<open>\<open>find\<close> returns the first occurrence at or after \<open>pos\<close>.\<close>

lemma str_find_Some:
  "str_find s pat pos = Some j \<longleftrightarrow>
     pos \<le> j \<and> occurs_at s pat j \<and> (\<forall>k. pos \<le> k \<and> k < j \<longrightarrow> \<not> occurs_at s pat k)"
proof (cases "pos \<le> length s")
  case True
  have shift: "occurs_at (drop pos s) pat n = occurs_at s pat (pos + n)" for n
    using True by (auto simp: occurs_at_def add.commute)
  show ?thesis
    using True
    by (auto simp: str_find_def find_at_Some shift)
      (metis add_diff_inverse_nat diff_less_mono leD le_add_diff_inverse)
next
  case False
  then show ?thesis by (auto simp: str_find_def occurs_at_def)
qed

lemma str_find_None:
  "str_find s pat pos = None \<longleftrightarrow> (\<forall>k\<ge>pos. \<not> occurs_at s pat k)"
proof (cases "pos \<le> length s")
  case True
  have shift: "occurs_at (drop pos s) pat n = occurs_at s pat (pos + n)" for n
    using True by (auto simp: occurs_at_def add.commute)
  show ?thesis
    using True by (auto simp: str_find_def find_at_None shift) (metis le_iff_add)
next
  case False
  then show ?thesis by (auto simp: str_find_def occurs_at_def)
qed

lemma str_rfind_None: "str_rfind s pat = None \<longleftrightarrow> (\<forall>k. \<not> occurs_at s pat k)"
proof (induction s)
  case Nil
  then show ?case by (auto simp: occurs_at_def)
next
  case (Cons c cs)
  have "(\<forall>k. \<not> occurs_at (c # cs) pat k) \<longleftrightarrow> \<not> prefix pat (c # cs) \<and> (\<forall>k. \<not> occurs_at cs pat k)"
    by (metis occurs_at_def Suc_le_mono drop0 drop_Suc_Cons length_Cons not0_implies_Suc zero_le)
  with Cons.IH show ?case by (auto split: option.splits)
qed

text \<open>\<open>rfind\<close> returns the last occurrence.\<close>

lemma str_rfind_Some:
  "str_rfind s pat = Some j \<longleftrightarrow> occurs_at s pat j \<and> (\<forall>k>j. \<not> occurs_at s pat k)"
proof (induction s arbitrary: j)
  case Nil
  then show ?case by (auto simp: occurs_at_def)
next
  case (Cons c cs)
  have shift: "occurs_at (c # cs) pat (Suc n) = occurs_at cs pat n" for n
    by (simp add: occurs_at_def)
  show ?case
  proof (cases "str_rfind cs pat")
    case None
    then have no: "\<not> occurs_at cs pat k" for k by (simp add: str_rfind_None)
    have only0: "occurs_at (c # cs) pat k \<longleftrightarrow> k = 0 \<and> prefix pat (c # cs)" for k
      using no by (cases k) (auto simp: shift occurs_at_def [of _ _ 0])
    show ?thesis
      unfolding only0 using None by auto
  next
    case (Some i)
    with Cons.IH have i: "occurs_at cs pat i" "\<forall>k>i. \<not> occurs_at cs pat k" by auto
    show ?thesis
    proof (cases j)
      case 0
      with Some i show ?thesis by (auto simp: shift intro!: exI [of _ "Suc i"])
    next
      case (Suc n)
      have "(\<forall>k>Suc n. \<not> occurs_at (c # cs) pat k) \<longleftrightarrow> (\<forall>k>n. \<not> occurs_at cs pat k)"
        by (metis Suc_less_eq less_imp_Suc_add shift)
      with Suc Some Cons.IH [of n] show ?thesis by (auto simp: shift)
    qed
  qed
qed

lemma str_contains_iff: "str_contains s pat \<longleftrightarrow> sublist pat s"
proof
  assume "str_contains s pat"
  then obtain j where "occurs_at s pat j"
    by (auto simp: str_contains_def str_find_Some)
  then obtain b where "drop j s = pat @ b" by (auto simp: occurs_at_def prefix_def)
  then have "s = take j s @ pat @ b" by (metis append_take_drop_id)
  then show "sublist pat s" unfolding sublist_def by blast
next
  assume "sublist pat s"
  then obtain a b where s: "s = a @ pat @ b" by (auto simp: sublist_def)
  then have "occurs_at s pat (length a)" by (simp add: occurs_at_def)
  then show "str_contains s pat"
    unfolding str_contains_def by (auto simp: str_find_None)
qed

section \<open>Numbers as text\<close>

text \<open>\<open>std::to_string\<close>.\<close>

fun nat_digits :: "nat \<Rightarrow> string" where
  "nat_digits n = (if n < 10 then [char_of (48 + n)]
     else nat_digits (n div 10) @ [char_of (48 + n mod 10)])"

declare nat_digits.simps [simp del]

definition to_string_int :: "int \<Rightarrow> string" where
  "to_string_int i = (if i < 0 then CHR ''-'' # nat_digits (nat (- i)) else nat_digits (nat i))"

fun digits_value :: "nat \<Rightarrow> string \<Rightarrow> nat" where
  "digits_value acc [] = acc"
| "digits_value acc (c # cs) =
     (if isdigit c then digits_value (10 * acc + (of_char c - 48)) cs else acc)"

fun skip_space :: "string \<Rightarrow> string" where
  "skip_space [] = []"
| "skip_space (c # cs) = (if isspace c then skip_space cs else c # cs)"

text \<open>\<open>std::stoi\<close>: leading white space, an optional sign, at least one digit; what follows the
  digits is ignored; a value outside \<open>int\<close> is \<open>std::out_of_range\<close>.\<close>

definition parse_number :: "int \<Rightarrow> int \<Rightarrow> string \<Rightarrow> string \<Rightarrow> int res" where
  "parse_number lo hi name s =
     (let t = skip_space s;
          neg = (t \<noteq> [] \<and> hd t = CHR ''-'');
          u = (if t \<noteq> [] \<and> (hd t = CHR ''-'' \<or> hd t = CHR ''+'') then tl t else t)
      in if u = [] \<or> \<not> isdigit (hd u) then Inl (Runtime_Error name)
         else let v = (if neg then - int (digits_value 0 u) else int (digits_value 0 u))
              in if v < lo \<or> v > hi then Inl (Runtime_Error name)
                 else Inr v)"

definition stoi :: "string \<Rightarrow> int res" where
  "stoi s = parse_number (- 2147483648) INT_MAX ''stoi'' s"

text \<open>\<open>std::stol\<close>, where \<open>long\<close> has 64 bits.\<close>

definition stol :: "string \<Rightarrow> int res" where
  "stol s = parse_number (- 9223372036854775808) 9223372036854775807 ''stol'' s"

lemma of_char_digit: "d < 10 \<Longrightarrow> of_char (char_of (48 + d) :: char) = (48 + d :: nat)"
  by (simp add: of_char_of)

lemma isdigit_digit: "d < (10::nat) \<Longrightarrow> isdigit (char_of (48 + d))"
  by (simp add: isdigit_def of_char_digit)

lemma nat_digits_isdigit: "list_all isdigit (nat_digits n)"
proof (induction n rule: nat_digits.induct)
  case (1 n)
  then show ?case
    by (subst nat_digits.simps) (auto simp: isdigit_digit)
qed

lemma nat_digits_neq_Nil [simp]: "nat_digits n \<noteq> []"
  by (subst nat_digits.simps) simp

lemma digits_value_append:
  "list_all isdigit s \<Longrightarrow> digits_value acc (s @ t) = digits_value (digits_value acc s) t"
  by (induction s arbitrary: acc) auto

lemma digits_value_nat_digits: "digits_value 0 (nat_digits n) = n"
proof (induction n rule: nat_digits.induct)
  case (1 n)
  show ?case
  proof (cases "n < 10")
    case True
    then show ?thesis
      by (subst nat_digits.simps) (simp add: isdigit_digit of_char_digit)
  next
    case False
    with "1" have "digits_value 0 (nat_digits (n div 10)) = n div 10" by simp
    with False show ?thesis
      by (subst nat_digits.simps)
        (simp add: digits_value_append nat_digits_isdigit isdigit_digit of_char_digit)
  qed
qed

lemma isdigit_not_space: "isdigit c \<Longrightarrow> \<not> isspace c"
  by (auto simp: isdigit_def isspace_def)

lemma isdigit_not_sign: "isdigit c \<Longrightarrow> c \<noteq> CHR ''-'' \<and> c \<noteq> CHR ''+''"
  by (auto simp: isdigit_def)

lemma hd_nat_digits: "isdigit (hd (nat_digits n))"
  using nat_digits_isdigit [of n] by (cases "nat_digits n") auto

lemma nat_digits_inj: "nat_digits m = nat_digits n \<longleftrightarrow> m = n"
  by (metis digits_value_nat_digits)

text \<open>Reading back what was printed.\<close>

lemma parse_number_digits:
  assumes "list_all isdigit ds" and "ds \<noteq> []" and "lo \<le> 0" and "int (digits_value 0 ds) \<le> hi"
  shows "parse_number lo hi name ds = Inr (int (digits_value 0 ds))"
proof -
  have d: "isdigit (hd ds)" using assms by (cases ds) auto
  have "skip_space ds = ds"
    using d assms(2) by (cases ds) (auto simp: isdigit_not_space)
  with d assms isdigit_not_sign [OF d] show ?thesis
    by (simp add: parse_number_def Let_def)
qed

lemma parse_number_nat_digits:
  "lo \<le> 0 \<Longrightarrow> int n \<le> hi \<Longrightarrow> parse_number lo hi name (nat_digits n) = Inr (int n)"
  using parse_number_digits [OF nat_digits_isdigit nat_digits_neq_Nil] by (simp add: digits_value_nat_digits)

lemma stoi_nat_digits: "int n \<le> INT_MAX \<Longrightarrow> stoi (nat_digits n) = Inr (int n)"
  by (simp add: stoi_def parse_number_nat_digits)

lemma stol_nat_digits: "int n \<le> 9223372036854775807 \<Longrightarrow> stol (nat_digits n) = Inr (int n)"
  by (simp add: stol_def parse_number_nat_digits)

section \<open>utils/string\_utils.hpp\<close>

fun ltrim :: "string \<Rightarrow> string" where
  "ltrim [] = []"
| "ltrim (c # cs) = (if isspace c then ltrim cs else c # cs)"

fun rtrim_end :: "string \<Rightarrow> nat \<Rightarrow> nat" where
  "rtrim_end s 0 = 0"
| "rtrim_end s (Suc e) = (if isspace (s ! e) then rtrim_end s e else Suc e)"

definition rtrim :: "string \<Rightarrow> string" where
  "rtrim s = take (rtrim_end s (length s)) s"

definition trim :: "string \<Rightarrow> string" where
  "trim s = rtrim (ltrim s)"

text \<open>The \<open>std::getline\<close> loop: a line ends at the delimiter or at the end of the text; nothing is
  read from an empty rest.\<close>

fun split_on :: "char \<Rightarrow> string \<Rightarrow> string \<Rightarrow> string list" where
  "split_on d [] cur = [cur]"
| "split_on d (c # cs) cur =
     (if c = d then cur # (if cs = [] then [] else split_on d cs []) else split_on d cs (cur @ [c]))"

definition split :: "string \<Rightarrow> char \<Rightarrow> string list" where
  "split s d = (if s = [] then [] else split_on d s [])"

fun join :: "string list \<Rightarrow> string \<Rightarrow> string" where
  "join [] d = []"
| "join [x] d = x"
| "join (x # y # zs) d = x @ d @ join (y # zs) d"

function replace_from :: "string \<Rightarrow> string \<Rightarrow> string \<Rightarrow> nat \<Rightarrow> string" where
  "replace_from s frm rep pos =
     (if frm = [] then s
      else case str_find s frm pos of
             None \<Rightarrow> s
           | Some p \<Rightarrow> replace_from (take p s @ rep @ drop (p + length frm) s) frm rep
                         (p + length rep))"
  by pat_completeness auto
termination
proof (relation "measure (\<lambda>(s, frm, rep, pos). length s - pos)", goal_cases)
  case 1
  show ?case by simp
next
  case (2 s frm rep pos p)
  then have p: "pos \<le> p" "prefix frm (drop p s)" "p \<le> length s"
    by (auto simp: str_find_Some occurs_at_def)
  then have "length frm \<le> length s - p" using prefix_length_le by fastforce
  with 2 p show ?case by (cases frm) auto
qed

declare replace_from.simps [simp del]

definition replace_all :: "string \<Rightarrow> string \<Rightarrow> string \<Rightarrow> string" where
  "replace_all s frm rep = (if frm = [] then s else replace_from s frm rep 0)"

definition to_lower :: "string \<Rightarrow> string" where
  "to_lower s = map tolower s"

definition to_upper :: "string \<Rightarrow> string" where
  "to_upper s = map toupper s"

definition starts_with :: "string \<Rightarrow> string \<Rightarrow> bool" where
  "starts_with s p \<longleftrightarrow> length s \<ge> length p \<and> take (length p) s = p"

definition ends_with :: "string \<Rightarrow> string \<Rightarrow> bool" where
  "ends_with s p \<longleftrightarrow> length s \<ge> length p \<and> drop (length s - length p) s = p"

lemma ltrim_dropWhile: "ltrim s = dropWhile isspace s"
  by (induction s) auto

lemma rtrim_end_le: "rtrim_end s e \<le> e"
  by (induction e) (auto simp: le_SucI)

lemma rtrim_end_last: "rtrim_end s e > 0 \<Longrightarrow> \<not> isspace (s ! (rtrim_end s e - 1))"
  by (induction e) auto

lemma rtrim_end_space: "rtrim_end s e \<le> k \<Longrightarrow> k < e \<Longrightarrow> isspace (s ! k)"
  by (induction e) (auto simp: less_Suc_eq split: if_splits)

lemma ltrim_decomp: "\<exists>u. s = u @ ltrim s \<and> list_all isspace u"
proof (intro exI conjI)
  show "s = takeWhile isspace s @ ltrim s" by (simp add: ltrim_dropWhile)
  show "list_all isspace (takeWhile isspace s)" by (auto simp: list_all_iff dest: set_takeWhileD)
qed

lemma rtrim_decomp: "\<exists>v. s = rtrim s @ v \<and> list_all isspace v"
proof (intro exI conjI)
  show "s = rtrim s @ drop (rtrim_end s (length s)) s" by (simp add: rtrim_def)
  show "list_all isspace (drop (rtrim_end s (length s)) s)"
    using rtrim_end_space [of s "length s"] by (auto simp: list_all_length)
qed

lemma rtrim_last: "rtrim s \<noteq> [] \<Longrightarrow> \<not> isspace (last (rtrim s))"
proof -
  assume ne: "rtrim s \<noteq> []"
  let ?e = "rtrim_end s (length s)"
  have e: "?e \<le> length s" by (rule rtrim_end_le)
  from ne have pos: "0 < ?e" by (auto simp: rtrim_def)
  have "last (rtrim s) = s ! (?e - 1)"
    using e pos ne by (simp add: rtrim_def last_conv_nth)
  then show ?thesis using rtrim_end_last [OF pos] by simp
qed

lemma ltrim_hd: "ltrim s \<noteq> [] \<Longrightarrow> \<not> isspace (hd (ltrim s))"
  by (simp add: ltrim_dropWhile hd_dropWhile)

lemma rtrim_hd: "rtrim s \<noteq> [] \<Longrightarrow> hd (rtrim s) = hd s"
  by (metis append_Nil hd_append2 rtrim_decomp)

section \<open>Reference definitions and their agreement with the loops\<close>

text \<open>Left to right replacement, written over the text itself instead of over positions.\<close>

function replace_ref :: "string \<Rightarrow> string \<Rightarrow> string \<Rightarrow> string" where
  "replace_ref s frm rep =
     (if s = [] \<or> frm = [] then s
      else if prefix frm s then rep @ replace_ref (drop (length frm) s) frm rep
      else hd s # replace_ref (tl s) frm rep)"
  by pat_completeness auto
termination
  by (relation "measure (\<lambda>(s, frm, rep). length s)") auto

declare replace_ref.simps [simp del]

lemma replace_ref_Nil [simp]: "replace_ref [] frm rep = []"
  by (simp add: replace_ref.simps)

lemma replace_ref_hit:
  "frm \<noteq> [] \<Longrightarrow> prefix frm s \<Longrightarrow> replace_ref s frm rep = rep @ replace_ref (drop (length frm) s) frm rep"
  by (subst replace_ref.simps) auto

lemma replace_ref_miss:
  "frm \<noteq> [] \<Longrightarrow> \<not> prefix frm (c # cs) \<Longrightarrow> replace_ref (c # cs) frm rep = c # replace_ref cs frm rep"
  by (subst replace_ref.simps) simp

lemma replace_ref_find_None:
  "frm \<noteq> [] \<Longrightarrow> find_at frm s i = None \<Longrightarrow> replace_ref s frm rep = s"
  by (induction s arbitrary: i) (auto simp: replace_ref_miss split: if_splits)

lemma find_at_ge: "find_at pat s i = Some j \<Longrightarrow> i \<le> j"
  by (simp add: find_at_Some)

lemma replace_ref_find_Some:
  "frm \<noteq> [] \<Longrightarrow> find_at frm s i = Some j \<Longrightarrow>
     replace_ref s frm rep = take (j - i) s @ rep @ replace_ref (drop (j - i + length frm) s) frm rep"
proof (induction s arbitrary: i)
  case Nil
  then show ?case by simp
next
  case (Cons c cs)
  show ?case
  proof (cases "prefix frm (c # cs)")
    case True
    with Cons.prems show ?thesis by (simp add: replace_ref_hit)
  next
    case False
    with Cons.prems have f: "find_at frm cs (Suc i) = Some j" by simp
    then have "j - i = Suc (j - Suc i)" using find_at_ge [OF f] by simp
    with Cons.IH [OF Cons.prems(1) f] False Cons.prems(1) show ?thesis
      by (simp add: replace_ref_miss)
  qed
qed

lemma replace_from_ref:
  "frm \<noteq> [] \<Longrightarrow> pos \<le> length s \<Longrightarrow>
     replace_from s frm rep pos = take pos s @ replace_ref (drop pos s) frm rep"
proof (induction s frm rep pos rule: replace_from.induct)
  case (1 s frm rep pos)
  show ?case
  proof (cases "str_find s frm pos")
    case None
    then have "find_at frm (drop pos s) pos = None"
      using "1.prems" by (simp add: str_find_def)
    with None "1.prems" show ?thesis
      by (simp add: replace_from.simps [of s] replace_ref_find_None)
  next
    case (Some p)
    then have f: "find_at frm (drop pos s) pos = Some p"
      using "1.prems" by (simp add: str_find_def)
    have pp: "pos \<le> p" "prefix frm (drop p s)"
      using Some by (auto simp: str_find_Some occurs_at_def)
    have len: "p + length frm \<le> length s"
      using pp "1.prems"(1) prefix_length_le [OF pp(2)] by (cases frm) auto
    let ?s' = "take p s @ rep @ drop (p + length frm) s"
    have "replace_from s frm rep pos = replace_from ?s' frm rep (p + length rep)"
      using Some "1.prems" by (simp add: replace_from.simps [of s])
    also have "\<dots> = take (p + length rep) ?s' @ replace_ref (drop (p + length rep) ?s') frm rep"
      using "1.IH" [OF "1.prems"(1) Some] "1.prems"(1) len by simp
    also have "\<dots> = take p s @ rep @ replace_ref (drop (p + length frm) s) frm rep"
      using len by simp
    also have "\<dots> = take pos s @ replace_ref (drop pos s) frm rep"
    proof -
      have "take p s = take pos s @ take (p - pos) (drop pos s)"
        using pp(1) by (metis le_add_diff_inverse take_add)
      moreover have "drop (p - pos + length frm) (drop pos s) = drop (p + length frm) s"
        using pp(1) by (simp add: add.commute add.left_commute)
      ultimately show ?thesis
        using replace_ref_find_Some [OF "1.prems"(1) f] by simp
    qed
    finally show ?thesis .
  qed
qed

lemma split_on_no_delim:
  "d \<notin> set x \<Longrightarrow> split_on d (x @ y) cur = split_on d y (cur @ x)"
  by (induction x arbitrary: cur) auto

lemma join_eq_Nil: "join items d = [] \<Longrightarrow> items = [] \<or> last items = []"
  by (induction items d rule: join.induct) auto

lemma split_on_join:
  "items \<noteq> [] \<Longrightarrow> last items \<noteq> [] \<Longrightarrow> \<forall>x\<in>set items. d \<notin> set x \<Longrightarrow>
     split_on d (join items [d]) cur = (cur @ hd items) # tl items"
proof (induction items "[d]" arbitrary: cur rule: join.induct)
  case (2 x)
  then show ?case using split_on_no_delim [of d x "[]"] by simp
next
  case (3 x y zs)
  then have "join (y # zs) [d] \<noteq> []"
    using join_eq_Nil by fastforce
  with 3 show ?case by (simp add: split_on_no_delim)
qed simp

section \<open>Properties\<close>

text \<open>\<open>trim\<close> removes exactly the white space around a text: what it removes on either side is
  white space, and what remains starts and ends with other characters.
\<close>

theorem trim_spec:
  "\<exists>u v. s = u @ trim s @ v \<and> list_all isspace u \<and> list_all isspace v
     \<and> (trim s = [] \<or> isspace (hd (trim s)) = False \<and> isspace (last (trim s)) = False)"
proof -
  obtain u where u: "s = u @ ltrim s" "list_all isspace u" using ltrim_decomp by blast
  obtain v where v: "ltrim s = trim s @ v" "list_all isspace v"
    unfolding trim_def using rtrim_decomp by blast
  have "trim s \<noteq> [] \<Longrightarrow> \<not> isspace (hd (trim s)) \<and> \<not> isspace (last (trim s))"
    unfolding trim_def by (metis ltrim_hd rtrim_hd rtrim_last append_is_Nil_conv rtrim_decomp)
  with u v show ?thesis by metis
qed

text \<open>The position based \<open>replace_all\<close> loop, which rewrites the text in place and continues behind
  each replacement, computes left to right replacement of the non-overlapping occurrences, and
  it terminates (a replacement that contains the pattern is not scanned again).
\<close>

theorem replace_all_correct: "replace_all s frm rep = replace_ref s frm rep"
  by (simp add: replace_all_def replace_from_ref replace_ref.simps [of s "[]"])

text \<open>Splitting undoes joining: for a delimiter that occurs in no item, \<open>split\<close> returns the joined
  items, provided the last item is not empty (a trailing empty item is lost by \<open>std::getline\<close>).
\<close>

theorem split_join:
  "items \<noteq> [] \<Longrightarrow> last items \<noteq> [] \<Longrightarrow> \<forall>x\<in>set items. d \<notin> set x \<Longrightarrow>
     split (join items [d]) d = items"
  using join_eq_Nil [of items "[d]"] by (auto simp: split_def split_on_join)

theorem split_join_witness:
  "split (join [''a'', [], ''bc''] '','') CHR '','' = [''a'', [], ''bc'']"
  by (rule split_join) auto

end
