(* ===== verification/Json.thy ===== *)
theory Json
  imports Cxx_Strings
begin

text \<open>
  JSON values as the code handles them (\<^verbatim>\<open>nlohmann::json\<close>): an object is a table sorted by
  key, as the library's \<open>std::map\<close> is; \<open>value(key, default)\<close>, \<open>contains\<close> and the conversions
  \<open>get<T>()\<close> raise the library's type errors as values. Floating point numbers are rationals.
  Text to value and back (\<open>parse\<close>, \<open>dump\<close>) are parameters of the components that use them.
\<close>

section \<open>Values\<close>

datatype json =
    JNull
  | JBool bool
  | JInt int
  | JFloat rat
  | JString string
  | JArray "json list"
  | JObject "(string \<times> json) list"

section \<open>Objects\<close>

abbreviation oget :: "(string \<times> 'v) list \<Rightarrow> string \<Rightarrow> 'v option" where
  "oget m k \<equiv> map_of m k"

fun oput :: "string \<Rightarrow> 'v \<Rightarrow> (string \<times> 'v) list \<Rightarrow> (string \<times> 'v) list" where
  "oput k v [] = [(k, v)]"
| "oput k v ((k', v') # m) =
     (if k = k' then (k, v) # m
      else if k < k' then (k, v) # (k', v') # m
      else (k', v') # oput k v m)"

fun odel :: "string \<Rightarrow> (string \<times> 'v) list \<Rightarrow> (string \<times> 'v) list" where
  "odel k [] = []"
| "odel k ((k', v') # m) = (if k = k' then odel k m else (k', v') # odel k m)"

lemma oget_oput [simp, table_simps]: "oget (oput k v m) j = (if j = k then Some v else oget m j)"
  by (induction m) auto

lemma oget_odel [simp, table_simps]: "oget (odel k m) j = (if j = k then None else oget m j)"
  by (induction m) auto

interpretation obj: keyed_store oget oput odel
  by unfold_locales simp_all

lemma set_keys_oput: "fst ` set (oput k v m) = insert k (fst ` set m)"
  by (induction k v m rule: oput.induct) (simp_all add: insert_commute)

lemma sorted_oput:
  "sorted_wrt (<) (map fst m) \<Longrightarrow> sorted_wrt (<) (map fst (oput k v m))"
proof (induction m)
  case (Cons a m)
  obtain k' v' where a: "a = (k', v')" by (cases a)
  have tail: "\<forall>y\<in>fst ` set m. k' < y" and s: "sorted_wrt (<) (map fst m)"
    using Cons.prems by (auto simp: a)
  show ?case
  proof (cases "k \<le> k'")
    case True
    with Cons.prems tail show ?thesis
      by (auto simp: a order.order_iff_strict)
  next
    case False
    have "\<forall>y\<in>fst ` set (oput k v m). k' < y"
      using tail False by (auto simp: set_keys_oput)
    with False Cons.IH [OF s] show ?thesis by (auto simp: a)
  qed
qed simp

text \<open>An object written as a brace list of pairs.\<close>

definition jobj :: "(string \<times> json) list \<Rightarrow> json" where
  "jobj kvs = JObject (foldr (\<lambda>(k, v). oput k v) kvs [])"

lemma oget_foldr_oput: "oget (foldr (\<lambda>(k, v). oput k v) kvs []) k = map_of kvs k"
  by (induction kvs) auto

fun is_object :: "json \<Rightarrow> bool" where
  "is_object (JObject _) = True"
| "is_object _ = False"

fun is_array :: "json \<Rightarrow> bool" where
  "is_array (JArray _) = True"
| "is_array _ = False"

fun is_string :: "json \<Rightarrow> bool" where
  "is_string (JString _) = True"
| "is_string _ = False"

fun is_number_integer :: "json \<Rightarrow> bool" where
  "is_number_integer (JInt _) = True"
| "is_number_integer _ = False"

fun type_name :: "json \<Rightarrow> string" where
  "type_name JNull = ''null''"
| "type_name (JBool _) = ''boolean''"
| "type_name (JInt _) = ''number''"
| "type_name (JFloat _) = ''number''"
| "type_name (JString _) = ''string''"
| "type_name (JArray _) = ''array''"
| "type_name (JObject _) = ''object''"

text \<open>The member with a given key, when the value is an object that has it.\<close>

fun jget :: "json \<Rightarrow> string \<Rightarrow> json option" where
  "jget (JObject m) k = oget m k"
| "jget _ k = None"

definition jcontains :: "json \<Rightarrow> string \<Rightarrow> bool" where
  "jcontains j k \<longleftrightarrow> jget j k \<noteq> None"

lemma jget_jobj [simp]: "jget (jobj kvs) k = map_of kvs k"
  by (simp add: jobj_def oget_foldr_oput)

lemma is_object_jobj [simp]: "is_object (jobj kvs)"
  by (simp add: jobj_def)

section \<open>Conversions\<close>

definition type_error_302 :: "string \<Rightarrow> json \<Rightarrow> exn" where
  "type_error_302 want j =
     Type_Error (''[json.exception.type_error.302] type must be '' @ want @ '', but is '' @ type_name j)"

fun as_string :: "json \<Rightarrow> string res" where
  "as_string (JString s) = Inr s"
| "as_string j = Inl (type_error_302 ''string'' j)"

fun as_bool :: "json \<Rightarrow> bool res" where
  "as_bool (JBool b) = Inr b"
| "as_bool j = Inl (type_error_302 ''boolean'' j)"

definition trunc_rat :: "rat \<Rightarrow> int" where
  "trunc_rat r = (if r < 0 then - \<lfloor>- r\<rfloor> else \<lfloor>r\<rfloor>)"

text \<open>\<open>get<int>()\<close> takes any number and booleans; a wider number is converted to 32 bits.\<close>

fun as_int :: "json \<Rightarrow> int res" where
  "as_int (JInt i) = Inr (to_int32 i)"
| "as_int (JFloat r) = Inr (to_int32 (trunc_rat r))"
| "as_int (JBool b) = Inr (if b then 1 else 0)"
| "as_int j = Inl (type_error_302 ''number'' j)"

fun as_double :: "json \<Rightarrow> rat res" where
  "as_double (JInt i) = Inr (of_int i)"
| "as_double (JFloat r) = Inr r"
| "as_double j = Inl (type_error_302 ''number'' j)"

fun as_json :: "json \<Rightarrow> json res" where
  "as_json j = Inr j"

text \<open>\<open>j.value(key, default)\<close>.\<close>

fun jvalue :: "(json \<Rightarrow> 'a res) \<Rightarrow> json \<Rightarrow> string \<Rightarrow> 'a \<Rightarrow> 'a res" where
  "jvalue conv (JObject m) k d = (case oget m k of None \<Rightarrow> Inr d | Some v \<Rightarrow> conv v)"
| "jvalue conv j k d =
     Inl (Type_Error (''[json.exception.type_error.306] cannot use value() with '' @ type_name j))"

lemma jvalue_object:
  "is_object j \<Longrightarrow> jvalue conv j k d = (case jget j k of None \<Rightarrow> Inr d | Some v \<Rightarrow> conv v)"
  by (cases j) auto

lemma jvalue_jobj [simp]:
  "jvalue conv (jobj kvs) k d = (case map_of kvs k of None \<Rightarrow> Inr d | Some v \<Rightarrow> conv v)"
  by (simp add: jvalue_object)

text \<open>\<open>j[key] = v\<close>: \<open>null\<close> becomes an object, any other non-object is a type error.\<close>

fun jset :: "string \<Rightarrow> json \<Rightarrow> json \<Rightarrow> json res" where
  "jset k v (JObject m) = Inr (JObject (oput k v m))"
| "jset k v JNull = Inr (JObject [(k, v)])"
| "jset k v j =
     Inl (Type_Error (''[json.exception.type_error.305] cannot use operator[] with a string argument with '' @ type_name j))"

text \<open>Iterating over any JSON value: array elements, object values, nothing for null, else the value.\<close>

fun json_items :: "json \<Rightarrow> json list" where
  "json_items (JArray xs) = xs"
| "json_items (JObject m) = map snd m"
| "json_items JNull = []"
| "json_items j = [j]"

lemma as_string_Inr: "as_string j = Inr s \<longleftrightarrow> j = JString s"
  by (cases j) auto

lemma as_int_range: "as_int j = Inr i \<Longrightarrow> - 2147483648 \<le> i \<and> i \<le> INT_MAX"
  by (cases j) (use to_int32_range in \<open>auto split: if_splits\<close>)

end
