(* ===== verification/Process_Registry.thy ===== *)
theory Process_Registry
  imports Json
begin

text \<open>
  \<^verbatim>\<open>core/process_registry.hpp\<close> and \<^verbatim>\<open>core/process_registry.cpp\<close>: the supervisor's
  authoritative store of processes and process trees. The state is a record with the four tables
  and the two counters of the class; every public operation is a function on it. An operation
  that reads the system clock takes the time as an argument. An operation that holds the registry
  mutex for its whole body is one atomic step; the two lock-free ones (\<open>update_heartbeat\<close> and
  \<open>mark_process_killed\<close>) are split into their stores in \<^verbatim>\<open>Registry_Machine\<close>. The
  well-formedness invariant ties the tree index and the children index to the process table; every
  operation preserves it.
\<close>

section \<open>Data\<close>

datatype process_status =
  STARTING | RUNNING | WAITING_LLM | WAITING_EXEC | FINISHED | ERROR | KILLED

datatype tree_status = T_ACTIVE | T_COMPLETED | T_FAILED | T_KILLED

record process_info =
  p_pid :: int
  p_os_pid :: int
  p_parent_pid :: int
  p_tree_id :: string
  p_role :: string
  p_trace_id :: string
  p_status :: process_status
  p_memory_mb :: rat
  p_last_heartbeat_ms :: u64
  p_alive :: bool
  p_termination_time_ms :: u64

record process_info_snapshot =
  s_pid :: int
  s_os_pid :: int
  s_tree_id :: string
  s_parent_pid :: int
  s_role :: string
  s_status :: process_status
  s_memory_mb :: rat

record tree_info =
  t_tree_id :: string
  t_root_pid :: int
  t_created_at_ms :: u64
  t_status :: tree_status
  t_llm_request_count :: int

record watchdog_entry =
  w_pid :: int
  w_os_pid :: int
  w_tree_id :: string
  w_parent_pid :: int
  w_trace_id :: string
  w_last_heartbeat_ms :: u64
  w_tree_created_at_ms :: u64
  w_memory_mb :: rat
  w_status :: process_status
  w_alive :: bool

record registry =
  process_table :: "(int, process_info) table"
  tree_table :: "(string, tree_info) table"
  tree_process_index :: "(string, int uset) table"
  process_children :: "(int, int uset) table"
  process_counter :: u64
  tree_counter :: u64

definition ProcessRegistry :: registry where
  "ProcessRegistry = \<lparr>process_table = [], tree_table = [], tree_process_index = [],
     process_children = [], process_counter = 1000, tree_counter = 1\<rparr>"

text \<open>The result of a registration: the error text with the tree id, or the new process.\<close>

datatype register_result = Reg_Error string string | Reg_Ok process_info string

section \<open>Tables of sets\<close>

definition members :: "('k, 'a uset) table \<Rightarrow> 'k \<Rightarrow> 'a uset" where
  "members idx k = (case tget idx k of None \<Rightarrow> [] | Some s \<Rightarrow> s)"

definition index_insert :: "'k \<Rightarrow> 'a \<Rightarrow> ('k, 'a uset) table \<Rightarrow> ('k, 'a uset) table" where
  "index_insert k x idx = tput k (uinsert x (members idx k)) idx"

definition index_erase :: "'k \<Rightarrow> 'a \<Rightarrow> ('k, 'a uset) table \<Rightarrow> ('k, 'a uset) table" where
  "index_erase k x idx =
     (case tget idx k of None \<Rightarrow> idx
      | Some s \<Rightarrow> (let s' = uerase x s in if s' = [] then tdel k idx else tput k s' idx))"

section \<open>Trees\<close>

definition create_tree_locked :: "registry \<Rightarrow> u64 \<Rightarrow> string \<Rightarrow> string \<times> registry" where
  "create_tree_locked r now explicit_id =
     (let (tree_id, r1) =
            (if explicit_id \<noteq> [] then (explicit_id, r)
             else (''TREE_'' @ nat_digits (unat (tree_counter r)),
                   r\<lparr>tree_counter := tree_counter r + 1\<rparr>));
          fresh = \<lparr>t_tree_id = tree_id, t_root_pid = -1, t_created_at_ms = now,
                   t_status = T_ACTIVE, t_llm_request_count = 0\<rparr>
      in (tree_id, r1\<lparr>tree_table := tput tree_id fresh (tree_table r1)\<rparr>))"

definition create_tree :: "registry \<Rightarrow> u64 \<Rightarrow> string \<Rightarrow> string \<times> registry" where
  "create_tree r now explicit_id = create_tree_locked r now explicit_id"

section \<open>Registration\<close>

definition on_process_registered_unlocked :: "process_info \<Rightarrow> registry \<Rightarrow> registry" where
  "on_process_registered_unlocked p r =
     (let r1 = r\<lparr>tree_process_index := index_insert (p_tree_id p) (p_pid p) (tree_process_index r)\<rparr>
      in if p_parent_pid p > 0
         then r1\<lparr>process_children := index_insert (p_parent_pid p) (p_pid p) (process_children r1)\<rparr>
         else r1)"

definition make_process ::
  "int \<Rightarrow> int \<Rightarrow> int \<Rightarrow> string \<Rightarrow> string \<Rightarrow> string \<Rightarrow> process_status \<Rightarrow> rat \<Rightarrow> u64 \<Rightarrow> process_info" where
  "make_process pid os_pid parent_pid tree_id role trace_id st mem now =
     \<lparr>p_pid = pid, p_os_pid = os_pid, p_parent_pid = parent_pid, p_tree_id = tree_id,
      p_role = role, p_trace_id = trace_id, p_status = st, p_memory_mb = mem,
      p_last_heartbeat_ms = now, p_alive = True, p_termination_time_ms = 0\<rparr>"

text \<open>Where the new process goes: an error, or the tree, whether it is the tree's root, and the
  registry after a tree was created for it.\<close>

definition resolve_tree ::
  "registry \<Rightarrow> u64 \<Rightarrow> string \<Rightarrow> bool \<Rightarrow> (string \<times> string) + (string \<times> bool \<times> registry)" where
  "resolve_tree r now tree_id is_system_handler =
     (if is_system_handler then Inr (''TREE_HANDLER'', True, r)
      else if tree_id = [] then
        (let (tid, r') = create_tree_locked r now [] in Inr (tid, True, r'))
      else case tget (tree_table r) tree_id of
             None \<Rightarrow> Inl (''tree not found'', tree_id)
           | Some t \<Rightarrow> if t_status t \<noteq> T_ACTIVE then Inl (''tree is not active'', tree_id)
                       else Inr (tree_id, False, r))"

definition register_process ::
  "registry \<Rightarrow> u64 \<Rightarrow> int \<Rightarrow> string \<Rightarrow> int \<Rightarrow> string \<Rightarrow> string \<Rightarrow> process_status \<Rightarrow> rat \<Rightarrow> bool
     \<Rightarrow> register_result \<times> registry" where
  "register_process r now os_pid tree_id parent_pid role trace_id initial_status
      initial_memory_mb is_system_handler =
     (let pid_candidate = process_counter r;
          r0 = r\<lparr>process_counter := pid_candidate + 1\<rparr>
      in if uint pid_candidate > INT_MAX then (Reg_Error ''pid space exhausted'' [], r0)
         else case resolve_tree r0 now tree_id is_system_handler of
           Inl (err, tid) \<Rightarrow> (Reg_Error err tid, r0)
         | Inr (final_tree_id, is_tree_root, r1) \<Rightarrow>
             (let pid = uint pid_candidate;
                  p = make_process pid os_pid parent_pid final_tree_id role trace_id
                        initial_status initial_memory_mb now;
                  r2 = r1\<lparr>process_table := tput pid p (process_table r1)\<rparr>;
                  r3 = on_process_registered_unlocked p r2;
                  r4 = (if is_tree_root
                        then r3\<lparr>tree_table := tmodify final_tree_id (\<lambda>t. t\<lparr>t_root_pid := pid\<rparr>)
                                               (tree_table r3)\<rparr>
                        else r3)
              in (Reg_Ok p final_tree_id, r4)))"

section \<open>Lookups\<close>

definition get_process :: "registry \<Rightarrow> int \<Rightarrow> process_info option" where
  "get_process r pid = tget (process_table r) pid"

definition get_process_children :: "registry \<Rightarrow> int \<Rightarrow> int list" where
  "get_process_children r pid = members (process_children r) pid"

definition get_process_snapshot :: "registry \<Rightarrow> process_info_snapshot list" where
  "get_process_snapshot r =
     map (\<lambda>(pid, p). \<lparr>s_pid = pid, s_os_pid = p_os_pid p, s_tree_id = p_tree_id p,
            s_parent_pid = p_parent_pid p, s_role = p_role p, s_status = p_status p,
            s_memory_mb = p_memory_mb p\<rparr>) (process_table r)"

text \<open>\<open>found\<close>, status, root pid and request count.\<close>

definition get_tree_status :: "registry \<Rightarrow> string \<Rightarrow> bool \<times> tree_status \<times> int \<times> int" where
  "get_tree_status r tree_id =
     (case tget (tree_table r) tree_id of
        None \<Rightarrow> (False, T_FAILED, -1, 0)
      | Some t \<Rightarrow> (True, t_status t, t_root_pid t, t_llm_request_count t))"

definition get_tree_llm_request_count :: "registry \<Rightarrow> string \<Rightarrow> int" where
  "get_tree_llm_request_count r tree_id =
     (case tget (tree_table r) tree_id of None \<Rightarrow> 0 | Some t \<Rightarrow> t_llm_request_count t)"

definition get_tree_processes :: "registry \<Rightarrow> string \<Rightarrow> int list" where
  "get_tree_processes r tree_id = members (tree_process_index r) tree_id"

definition get_tree_process_count :: "registry \<Rightarrow> string \<Rightarrow> nat" where
  "get_tree_process_count r tree_id =
     (case tget (tree_process_index r) tree_id of None \<Rightarrow> 0 | Some s \<Rightarrow> length s)"

definition compute_tree_memory_mb :: "registry \<Rightarrow> string \<Rightarrow> rat" where
  "compute_tree_memory_mb r tree_id =
     fold (\<lambda>pid total. case tget (process_table r) pid of
             None \<Rightarrow> total | Some p \<Rightarrow> total + p_memory_mb p)
       (members (tree_process_index r) tree_id) 0"

definition snapshot_for_watchdog :: "registry \<Rightarrow> watchdog_entry list" where
  "snapshot_for_watchdog r =
     map (\<lambda>(pid, p). \<lparr>w_pid = pid, w_os_pid = p_os_pid p, w_tree_id = p_tree_id p,
            w_parent_pid = p_parent_pid p, w_trace_id = p_trace_id p,
            w_last_heartbeat_ms = p_last_heartbeat_ms p,
            w_tree_created_at_ms =
              (case tget (tree_table r) (p_tree_id p) of None \<Rightarrow> 0 | Some t \<Rightarrow> t_created_at_ms t),
            w_memory_mb = p_memory_mb p, w_status = p_status p, w_alive = True\<rparr>)
       (filter (\<lambda>(pid, p). p_alive p) (process_table r))"

definition get_all_tree_ids :: "registry \<Rightarrow> string list" where
  "get_all_tree_ids r = tkeys (tree_table r)"

definition get_all_tree_ids_with_created_at :: "registry \<Rightarrow> (string \<times> u64) list" where
  "get_all_tree_ids_with_created_at r = map (\<lambda>(i, t). (i, t_created_at_ms t)) (tree_table r)"

definition get_all_pids :: "registry \<Rightarrow> int list" where
  "get_all_pids r = tkeys (process_table r)"

section \<open>Updates\<close>

text \<open>The atomic stores of a heartbeat, and the guarded update.\<close>

definition heartbeat_stores ::
  "registry \<Rightarrow> int \<Rightarrow> process_status \<Rightarrow> rat \<Rightarrow> u64 \<Rightarrow> registry" where
  "heartbeat_stores r pid st mem now =
     r\<lparr>process_table := tmodify pid
         (\<lambda>p. p\<lparr>p_status := st, p_memory_mb := mem, p_last_heartbeat_ms := now\<rparr>)
         (process_table r)\<rparr>"

definition update_heartbeat ::
  "registry \<Rightarrow> int \<Rightarrow> process_status \<Rightarrow> rat \<Rightarrow> u64 \<Rightarrow> registry" where
  "update_heartbeat r pid st mem now =
     (case get_process r pid of
        None \<Rightarrow> r
      | Some p \<Rightarrow> if \<not> p_alive p then r else heartbeat_stores r pid st mem now)"

definition live_in :: "(int, process_info) table \<Rightarrow> int \<Rightarrow> bool" where
  "live_in pt pid \<longleftrightarrow> (case tget pt pid of None \<Rightarrow> False | Some p \<Rightarrow> p_alive p)"

definition kill_tree :: "registry \<Rightarrow> string \<Rightarrow> int list \<times> registry" where
  "kill_tree r tree_id =
     (let pids = filter (live_in (process_table r)) (members (tree_process_index r) tree_id)
      in (pids, r\<lparr>tree_table := tmodify tree_id (\<lambda>t. t\<lparr>t_status := T_KILLED\<rparr>) (tree_table r),
                  process_table :=
                    fold (\<lambda>pid. tmodify pid (\<lambda>p. p\<lparr>p_status := KILLED\<rparr>)) pids (process_table r)\<rparr>))"

definition mark_process_killed :: "registry \<Rightarrow> int \<Rightarrow> registry" where
  "mark_process_killed r pid =
     (case get_process r pid of
        None \<Rightarrow> r
      | Some p \<Rightarrow> r\<lparr>process_table := tmodify pid (\<lambda>p. p\<lparr>p_status := KILLED, p_alive := False\<rparr>)
                                        (process_table r)\<rparr>)"

text \<open>The index clean-up that \<open>terminate_process\<close> performs, also present as a helper of its own.\<close>

definition on_process_terminal_unlocked :: "int \<Rightarrow> registry \<Rightarrow> registry" where
  "on_process_terminal_unlocked pid r =
     (case tget (process_table r) pid of
        None \<Rightarrow> r
      | Some p \<Rightarrow>
          r\<lparr>tree_process_index := index_erase (p_tree_id p) pid (tree_process_index r),
            process_children :=
              tdel pid (if p_parent_pid p > 0
                        then index_erase (p_parent_pid p) pid (process_children r)
                        else process_children r)\<rparr>)"

definition terminate_process :: "registry \<Rightarrow> u64 \<Rightarrow> int \<Rightarrow> registry" where
  "terminate_process r now pid =
     (case tget (process_table r) pid of
        None \<Rightarrow> r
      | Some p \<Rightarrow>
          if \<not> p_alive p then r
          else
            (let r1 = on_process_terminal_unlocked pid r
             in r1\<lparr>process_table :=
                     tmodify pid (\<lambda>p. p\<lparr>p_alive := False, p_termination_time_ms := now\<rparr>)
                       (process_table r1)\<rparr>))"

definition increment_llm_request :: "registry \<Rightarrow> string \<Rightarrow> registry" where
  "increment_llm_request r tree_id =
     r\<lparr>tree_table := tmodify tree_id
         (\<lambda>t. t\<lparr>t_llm_request_count := to_int32 (t_llm_request_count t + 1)\<rparr>) (tree_table r)\<rparr>"

definition expired :: "u64 \<Rightarrow> u64 \<Rightarrow> process_info \<Rightarrow> bool" where
  "expired now_ms retention_ms p \<longleftrightarrow>
     \<not> p_alive p \<and> p_termination_time_ms p > 0 \<and> now_ms - p_termination_time_ms p > retention_ms"

definition cleanup_historical_processes :: "registry \<Rightarrow> u64 \<Rightarrow> u64 \<Rightarrow> registry" where
  "cleanup_historical_processes r now_ms retention_ms =
     r\<lparr>process_table := filter (\<lambda>(pid, p). \<not> expired now_ms retention_ms p) (process_table r)\<rparr>"

definition terminal_process_status :: "process_status \<Rightarrow> bool" where
  "terminal_process_status s \<longleftrightarrow> s = FINISHED \<or> s = KILLED \<or> s = ERROR"

definition mark_tree_completed_if_done :: "registry \<Rightarrow> string \<Rightarrow> bool \<times> registry" where
  "mark_tree_completed_if_done r tree_id =
     (case tget (tree_table r) tree_id of
        None \<Rightarrow> (False, r)
      | Some t \<Rightarrow>
          if tree_id = ''TREE_HANDLER'' then (False, r)
          else if t_status t = T_COMPLETED \<or> t_status t = T_FAILED \<or> t_status t = T_KILLED
          then (False, r)
          else if members (tree_process_index r) tree_id \<noteq> [] then (False, r)
          else if list_ex (\<lambda>(pid, p). p_tree_id p = tree_id \<and>
                    \<not> terminal_process_status (p_status p)) (process_table r)
          then (False, r)
          else (True, r\<lparr>tree_table := tmodify tree_id (\<lambda>t. t\<lparr>t_status := T_COMPLETED\<rparr>)
                                        (tree_table r)\<rparr>))"

definition mark_tree_failed :: "registry \<Rightarrow> string \<Rightarrow> registry" where
  "mark_tree_failed r tree_id =
     (case tget (tree_table r) tree_id of
        None \<Rightarrow> r
      | Some t \<Rightarrow>
          if t_status t \<noteq> T_KILLED \<and> t_status t \<noteq> T_COMPLETED \<and> t_status t \<noteq> T_FAILED
          then r\<lparr>tree_table := tmodify tree_id (\<lambda>t. t\<lparr>t_status := T_FAILED\<rparr>) (tree_table r)\<rparr>
          else r)"

section \<open>Well-formedness\<close>

definition sets_ok :: "('k, 'a uset) table \<Rightarrow> bool" where
  "sets_ok idx \<longleftrightarrow> table_ok idx \<and> (\<forall>k s. tget idx k = Some s \<longrightarrow> s \<noteq> [] \<and> distinct s)"

definition pids_ok :: "u64 \<Rightarrow> (int, process_info) table \<Rightarrow> bool" where
  "pids_ok cnt pt \<longleftrightarrow> table_ok pt \<and> 1000 \<le> uint cnt \<and>
     (\<forall>pid p. tget pt pid = Some p \<longrightarrow> p_pid p = pid \<and> 1000 \<le> pid \<and> pid < uint cnt)"

text \<open>Every indexed process exists, belongs to that tree and has no termination time yet.\<close>

definition index_sound :: "(int, process_info) table \<Rightarrow> (string, int uset) table \<Rightarrow> bool" where
  "index_sound pt idx \<longleftrightarrow>
     (\<forall>t pid. pid \<in> set (members idx t) \<longrightarrow>
        (\<exists>p. tget pt pid = Some p \<and> p_tree_id p = t \<and> p_termination_time_ms p = 0))"

text \<open>Every live process is indexed under its tree.\<close>

definition index_complete :: "(int, process_info) table \<Rightarrow> (string, int uset) table \<Rightarrow> bool" where
  "index_complete pt idx \<longleftrightarrow>
     (\<forall>pid p. tget pt pid = Some p \<longrightarrow> p_alive p \<longrightarrow> pid \<in> set (members idx (p_tree_id p)))"

definition children_sound :: "(int, process_info) table \<Rightarrow> (int, int uset) table \<Rightarrow> bool" where
  "children_sound pt ch \<longleftrightarrow>
     (\<forall>q c. c \<in> set (members ch q) \<longrightarrow>
        0 < q \<and> (\<exists>p. tget pt c = Some p \<and> p_parent_pid p = q \<and> p_termination_time_ms p = 0))"

definition trees_ok :: "(string, tree_info) table \<Rightarrow> bool" where
  "trees_ok tt \<longleftrightarrow> table_ok tt \<and> (\<forall>k t. tget tt k = Some t \<longrightarrow> t_tree_id t = k)"

definition registry_wf :: "registry \<Rightarrow> bool" where
  "registry_wf r \<longleftrightarrow>
     pids_ok (process_counter r) (process_table r) \<and>
     sets_ok (tree_process_index r) \<and> sets_ok (process_children r) \<and>
     index_sound (process_table r) (tree_process_index r) \<and>
     index_complete (process_table r) (tree_process_index r) \<and>
     children_sound (process_table r) (process_children r) \<and>
     trees_ok (tree_table r)"

subsection \<open>Tables of sets\<close>

lemma members_insert [simp]:
  "members (index_insert k x idx) j = (if j = k then uinsert x (members idx k) else members idx j)"
  by (simp add: members_def index_insert_def)

lemma members_erase [simp]:
  "members (index_erase k x idx) j = (if j = k then uerase x (members idx k) else members idx j)"
  by (auto simp: members_def index_erase_def Let_def split: option.splits)

lemma members_tdel [simp]: "members (tdel k idx) j = (if j = k then [] else members idx j)"
  by (simp add: members_def)

lemma members_Nil [simp]: "members [] k = []"
  by (simp add: members_def)

lemma sets_ok_insert [intro]: "sets_ok idx \<Longrightarrow> sets_ok (index_insert k x idx)"
  by (auto simp: sets_ok_def index_insert_def members_def insert_Nil
      split: option.splits if_splits) (metis insert_not_empty list.set(1) set_insert)+

lemma sets_ok_erase [intro]: "sets_ok idx \<Longrightarrow> sets_ok (index_erase k x idx)"
  by (auto simp: sets_ok_def index_erase_def Let_def distinct_removeAll
      split: option.splits if_splits)

lemma sets_ok_tdel [intro]: "sets_ok idx \<Longrightarrow> sets_ok (tdel k idx)"
  by (auto simp: sets_ok_def split: if_splits)

lemma members_distinct: "sets_ok idx \<Longrightarrow> distinct (members idx k)"
  by (auto simp: sets_ok_def members_def split: option.splits)

subsection \<open>Telemetry updates\<close>

text \<open>An update that keeps the structural fields and revives nobody keeps the index facts.\<close>

definition telemetry_upd :: "(int, process_info) table \<Rightarrow> (int, process_info) table \<Rightarrow> bool" where
  "telemetry_upd pt pt' \<longleftrightarrow>
     (\<forall>pid. rel_option (\<lambda>p p'. p_pid p' = p_pid p \<and> p_tree_id p' = p_tree_id p \<and>
        p_parent_pid p' = p_parent_pid p \<and> p_termination_time_ms p' = p_termination_time_ms p \<and>
        (p_alive p' \<longrightarrow> p_alive p)) (tget pt pid) (tget pt' pid))"

lemma telemetry_upd_refl: "telemetry_upd pt pt"
  by (auto simp: telemetry_upd_def intro: option.rel_refl)

lemma telemetry_upd_trans:
  assumes "telemetry_upd a b" and "telemetry_upd b c"
  shows "telemetry_upd a c"
  unfolding telemetry_upd_def
proof
  fix pid
  show "rel_option (\<lambda>p p'. p_pid p' = p_pid p \<and> p_tree_id p' = p_tree_id p \<and>
        p_parent_pid p' = p_parent_pid p \<and> p_termination_time_ms p' = p_termination_time_ms p \<and>
        (p_alive p' \<longrightarrow> p_alive p)) (tget a pid) (tget c pid)"
    using assms [unfolded telemetry_upd_def, THEN spec [of _ pid]]
    by (cases "tget a pid"; cases "tget b pid"; cases "tget c pid") auto
qed

lemma telemetry_upd_tmodify:
  assumes "\<And>p. tget pt pid = Some p \<Longrightarrow> p_pid (f p) = p_pid p \<and> p_tree_id (f p) = p_tree_id p \<and>
     p_parent_pid (f p) = p_parent_pid p \<and>
     p_termination_time_ms (f p) = p_termination_time_ms p \<and> (p_alive (f p) \<longrightarrow> p_alive p)"
  shows "telemetry_upd pt (tmodify pid f pt)"
  unfolding telemetry_upd_def
proof
  fix q
  show "rel_option (\<lambda>p p'. p_pid p' = p_pid p \<and> p_tree_id p' = p_tree_id p \<and>
        p_parent_pid p' = p_parent_pid p \<and> p_termination_time_ms p' = p_termination_time_ms p \<and>
        (p_alive p' \<longrightarrow> p_alive p)) (tget pt q) (tget (tmodify pid f pt) q)"
    using assms by (cases "tget pt q") auto
qed

lemma telemetry_upd_Some:
  assumes "telemetry_upd pt pt'" and "tget pt' pid = Some p'"
  obtains p where "tget pt pid = Some p" "p_pid p' = p_pid p" "p_tree_id p' = p_tree_id p"
    "p_parent_pid p' = p_parent_pid p" "p_termination_time_ms p' = p_termination_time_ms p"
    "p_alive p' \<longrightarrow> p_alive p"
  using assms(1) [unfolded telemetry_upd_def, THEN spec [of _ pid]] assms(2) that
  by (cases "tget pt pid") auto

lemma telemetry_upd_Some':
  assumes "telemetry_upd pt pt'" and "tget pt pid = Some p"
  obtains p' where "tget pt' pid = Some p'" "p_tree_id p' = p_tree_id p"
    "p_parent_pid p' = p_parent_pid p" "p_termination_time_ms p' = p_termination_time_ms p"
  using assms(1) [unfolded telemetry_upd_def, THEN spec [of _ pid]] assms(2) that
  by (cases "tget pt' pid") auto

lemma telemetry_wf:
  assumes wf: "registry_wf r" and upd: "telemetry_upd (process_table r) pt'"
    and ok: "table_ok pt'" and trees: "trees_ok tt'"
  shows "registry_wf (r\<lparr>tree_table := tt', process_table := pt'\<rparr>)"
proof -
  have "pids_ok (process_counter r) pt'"
    using wf upd ok unfolding registry_wf_def pids_ok_def by (metis telemetry_upd_Some)
  moreover have "index_sound pt' (tree_process_index r)"
    using wf upd unfolding registry_wf_def index_sound_def by (metis telemetry_upd_Some')
  moreover have "index_complete pt' (tree_process_index r)"
    using wf upd unfolding registry_wf_def index_complete_def by (metis telemetry_upd_Some)
  moreover have "children_sound pt' (process_children r)"
    using wf upd unfolding registry_wf_def children_sound_def by (metis telemetry_upd_Some')
  ultimately show ?thesis using wf trees by (simp add: registry_wf_def)
qed

lemma telemetry_wf1:
  assumes "registry_wf r" and "telemetry_upd (process_table r) pt'" and "table_ok pt'"
  shows "registry_wf (r\<lparr>process_table := pt'\<rparr>)"
proof -
  have "trees_ok (tree_table r)" using assms(1) by (simp add: registry_wf_def)
  then show ?thesis using telemetry_wf [OF assms, of "tree_table r"] by (cases r) simp
qed

lemma trees_ok_tput: "trees_ok tt \<Longrightarrow> t_tree_id t = k \<Longrightarrow> trees_ok (tput k t tt)"
  by (auto simp: trees_ok_def split: if_splits)

lemma trees_ok_tmodify:
  "trees_ok tt \<Longrightarrow> (\<And>t. t_tree_id (f t) = t_tree_id t) \<Longrightarrow> trees_ok (tmodify k f tt)"
  by (auto simp: trees_ok_def split: if_splits)

lemma wf_trees: "registry_wf r \<Longrightarrow> trees_ok tt \<Longrightarrow> registry_wf (r\<lparr>tree_table := tt\<rparr>)"
  by (simp add: registry_wf_def)

lemma wf_tree_counter: "registry_wf r \<Longrightarrow> registry_wf (r\<lparr>tree_counter := c\<rparr>)"
  by (simp add: registry_wf_def)

lemma wf_tablesD:
  assumes "registry_wf r"
  shows "table_ok (process_table r)" "trees_ok (tree_table r)"
  using assms by (auto simp: registry_wf_def pids_ok_def)

section \<open>Every operation preserves well-formedness\<close>

lemma wf_init [inv_intros]: "registry_wf ProcessRegistry"
  by (simp add: registry_wf_def ProcessRegistry_def pids_ok_def sets_ok_def index_sound_def
      index_complete_def children_sound_def trees_ok_def)

lemma wf_create_tree_locked [inv_intros]:
  "registry_wf r \<Longrightarrow> registry_wf (snd (create_tree_locked r now eid))"
  by (auto simp: create_tree_locked_def Let_def
      intro!: wf_trees wf_tree_counter trees_ok_tput wf_tablesD)

lemma create_tree_locked_frame:
  "create_tree_locked r now eid = (tid, r') \<Longrightarrow>
     process_table r' = process_table r \<and> tree_process_index r' = tree_process_index r \<and>
     process_children r' = process_children r \<and> process_counter r' = process_counter r \<and>
     tget (tree_table r') tid = Some \<lparr>t_tree_id = tid, t_root_pid = -1, t_created_at_ms = now,
       t_status = T_ACTIVE, t_llm_request_count = 0\<rparr> \<and>
     (\<forall>k. k \<noteq> tid \<longrightarrow> tget (tree_table r') k = tget (tree_table r) k)"
  by (auto simp: create_tree_locked_def Let_def split: if_splits)

lemma wf_heartbeat_stores [inv_intros]:
  "registry_wf r \<Longrightarrow> registry_wf (heartbeat_stores r pid st mem now)"
  unfolding heartbeat_stores_def
  by (auto intro!: telemetry_wf1 telemetry_upd_tmodify table_ok_tmodify dest: wf_tablesD)

lemma wf_update_heartbeat [inv_intros]:
  "registry_wf r \<Longrightarrow> registry_wf (update_heartbeat r pid st mem now)"
  by (auto simp: update_heartbeat_def split: option.splits intro: wf_heartbeat_stores)

lemma telemetry_upd_fold:
  assumes "\<And>p. p_pid (f p) = p_pid p \<and> p_tree_id (f p) = p_tree_id p \<and>
     p_parent_pid (f p) = p_parent_pid p \<and> p_termination_time_ms (f p) = p_termination_time_ms p \<and>
     p_alive (f p) = p_alive p"
  shows "telemetry_upd pt (fold (\<lambda>pid. tmodify pid f) pids pt)"
proof (induction pids arbitrary: pt)
  case Nil
  show ?case by (simp add: telemetry_upd_refl)
next
  case (Cons pid pids)
  have "telemetry_upd pt (tmodify pid f pt)"
    by (rule telemetry_upd_tmodify) (simp add: assms)
  then show ?case using Cons.IH by (auto intro: telemetry_upd_trans)
qed

lemma table_ok_fold_tmodify: "table_ok pt \<Longrightarrow> table_ok (fold (\<lambda>k. tmodify k f) ks pt)"
  by (induction ks arbitrary: pt) auto

lemma wf_kill_tree [inv_intros]: "registry_wf r \<Longrightarrow> registry_wf (snd (kill_tree r t))"
proof -
  assume wf: "registry_wf r"
  let ?pids = "filter (live_in (process_table r)) (members (tree_process_index r) t)"
  let ?pt = "fold (\<lambda>pid. tmodify pid (\<lambda>p. p\<lparr>p_status := KILLED\<rparr>)) ?pids (process_table r)"
  have "telemetry_upd (process_table r) ?pt" by (rule telemetry_upd_fold) simp
  moreover have "table_ok ?pt" using wf by (auto intro: table_ok_fold_tmodify dest: wf_tablesD)
  moreover have "trees_ok (tmodify t (\<lambda>t. t\<lparr>t_status := T_KILLED\<rparr>) (tree_table r))"
    using wf by (auto intro: trees_ok_tmodify dest: wf_tablesD)
  ultimately show ?thesis
    using telemetry_wf [OF wf] by (simp add: kill_tree_def Let_def)
qed

lemma wf_mark_process_killed [inv_intros]:
  "registry_wf r \<Longrightarrow> registry_wf (mark_process_killed r pid)"
  unfolding mark_process_killed_def
  by (auto split: option.splits
      intro!: telemetry_wf1 telemetry_upd_tmodify
        table_ok_tmodify dest: wf_tablesD)

lemma wf_increment_llm_request [inv_intros]:
  "registry_wf r \<Longrightarrow> registry_wf (increment_llm_request r t)"
  by (auto simp: increment_llm_request_def intro!: wf_trees trees_ok_tmodify dest: wf_tablesD)

lemma wf_mark_tree_failed [inv_intros]: "registry_wf r \<Longrightarrow> registry_wf (mark_tree_failed r t)"
  by (auto simp: mark_tree_failed_def split: option.splits
      intro!: wf_trees trees_ok_tmodify dest: wf_tablesD)

lemma wf_mark_tree_completed [inv_intros]:
  "registry_wf r \<Longrightarrow> registry_wf (snd (mark_tree_completed_if_done r t))"
  by (auto simp: mark_tree_completed_if_done_def split: option.splits
      intro!: wf_trees trees_ok_tmodify dest: wf_tablesD)

lemma wf_cleanup [inv_intros]:
  assumes wf: "registry_wf r"
  shows "registry_wf (cleanup_historical_processes r now ret)"
proof -
  let ?pt = "filter (\<lambda>(pid, p). \<not> expired now ret p) (process_table r)"
  have ok: "table_ok (process_table r)" using wf by (rule wf_tablesD)
  have get: "tget ?pt pid = (case tget (process_table r) pid of None \<Rightarrow> None
      | Some p \<Rightarrow> if expired now ret p then None else Some p)" for pid
    by (simp add: tget_filter [OF ok] split: option.splits)
  have keep: "p_termination_time_ms p = 0 \<Longrightarrow> \<not> expired now ret p" for p
    by (simp add: expired_def)
  have "pids_ok (process_counter r) ?pt"
    using wf ok by (auto simp: registry_wf_def pids_ok_def get split: option.splits if_splits)
  moreover have "index_sound ?pt (tree_process_index r)"
    using wf unfolding registry_wf_def index_sound_def by (fastforce simp: get keep)
  moreover have "index_complete ?pt (tree_process_index r)"
    using wf unfolding registry_wf_def index_complete_def
    by (auto simp: get split: option.splits if_splits)
  moreover have "children_sound ?pt (process_children r)"
    using wf unfolding registry_wf_def children_sound_def by (fastforce simp: get keep)
  ultimately show ?thesis
    using wf by (simp add: registry_wf_def cleanup_historical_processes_def)
qed

lemma wf_terminate_process [inv_intros]:
  assumes wf: "registry_wf r"
  shows "registry_wf (terminate_process r now pid)"
proof (cases "tget (process_table r) pid")
  case None
  then show ?thesis using wf by (simp add: terminate_process_def)
next
  case (Some p)
  show ?thesis
  proof (cases "p_alive p")
    case False
    then show ?thesis using wf Some by (simp add: terminate_process_def)
  next
    case True
    let ?idx = "index_erase (p_tree_id p) pid (tree_process_index r)"
    let ?ch = "tdel pid (if p_parent_pid p > 0
        then index_erase (p_parent_pid p) pid (process_children r) else process_children r)"
    let ?pt = "tmodify pid (\<lambda>p. p\<lparr>p_alive := False, p_termination_time_ms := now\<rparr>) (process_table r)"
    have eq: "terminate_process r now pid = r\<lparr>tree_process_index := ?idx,
        process_children := ?ch, process_table := ?pt\<rparr>"
      using Some True
      by (simp add: terminate_process_def on_process_terminal_unlocked_def Let_def)
    have "pids_ok (process_counter r) ?pt"
      using wf by (auto simp: registry_wf_def pids_ok_def split: if_splits)
    moreover have "index_sound ?pt ?idx"
      using wf Some unfolding registry_wf_def index_sound_def
      by (auto split: if_splits) (metis option.inject)+
    moreover have "index_complete ?pt ?idx"
      using wf Some unfolding registry_wf_def index_complete_def
      by (auto split: if_splits) metis
    moreover have "children_sound ?pt ?ch"
      using wf Some unfolding registry_wf_def children_sound_def
      by (auto split: if_splits) (metis option.inject)+
    ultimately show ?thesis
      using wf unfolding eq by (auto simp: registry_wf_def)
  qed
qed

lemma wf_counter:
  "registry_wf r \<Longrightarrow> uint (process_counter r) \<le> uint c \<Longrightarrow> registry_wf (r\<lparr>process_counter := c\<rparr>)"
  by (fastforce simp: registry_wf_def pids_ok_def)

lemma uint_succ_64: "uint (c :: u64) < 2 ^ 64 - 1 \<Longrightarrow> uint (c + 1) = uint c + 1"
  by (simp add: uint_plus_if_size word_size)

lemma wf_add_process:
  assumes wf: "registry_wf r" and fresh: "tget (process_table r) (p_pid p) = None"
    and lo: "1000 \<le> p_pid p" and hi: "p_pid p < uint (process_counter r)"
    and zero: "p_termination_time_ms p = 0"
  shows "registry_wf (on_process_registered_unlocked p
           (r\<lparr>process_table := tput (p_pid p) p (process_table r)\<rparr>))"
proof -
  let ?pt = "tput (p_pid p) p (process_table r)"
  let ?idx = "index_insert (p_tree_id p) (p_pid p) (tree_process_index r)"
  have old: "tget (process_table r) q = Some x \<Longrightarrow> q \<noteq> p_pid p" for q x
    using fresh by auto
  have sound: "index_sound ?pt ?idx"
    using wf zero unfolding registry_wf_def index_sound_def by (auto split: if_splits) (metis old)+
  have complete: "index_complete ?pt ?idx"
    using wf unfolding registry_wf_def index_complete_def by (auto split: if_splits) metis
  have ch: "children_sound ?pt (process_children r)"
    using wf unfolding registry_wf_def children_sound_def by (auto split: if_splits) (metis old)+
  have ch': "0 < p_parent_pid p \<Longrightarrow>
      children_sound ?pt (index_insert (p_parent_pid p) (p_pid p) (process_children r))"
    using ch zero unfolding children_sound_def by (auto split: if_splits)
  have pids: "pids_ok (process_counter r) ?pt"
    using wf lo hi by (auto simp: registry_wf_def pids_ok_def split: if_splits)
  have sets: "sets_ok ?idx" "sets_ok (process_children r)" "trees_ok (tree_table r)"
    using wf by (auto simp: registry_wf_def)
  then have "sets_ok (index_insert (p_parent_pid p) (p_pid p) (process_children r))"
    by (blast intro: sets_ok_insert)
  with sound complete ch ch' pids sets show ?thesis
    by (simp add: registry_wf_def on_process_registered_unlocked_def Let_def)
qed

lemma resolve_tree_Inr:
  assumes "resolve_tree r now tree_id h = Inr (tid, rt, r')"
  shows "process_table r' = process_table r \<and> tree_process_index r' = tree_process_index r \<and>
    process_children r' = process_children r \<and> process_counter r' = process_counter r \<and>
    (registry_wf r \<longrightarrow> registry_wf r')"
proof -
  have "registry_wf r \<Longrightarrow> create_tree_locked r now [] = (tid, r') \<Longrightarrow> registry_wf r'"
    by (metis snd_conv wf_create_tree_locked)
  with assms show ?thesis
    by (auto simp: resolve_tree_def split: if_splits option.splits prod.splits
        dest!: create_tree_locked_frame)
qed

lemma counter_not_in_table:
  "registry_wf r \<Longrightarrow> tget (process_table r) (uint (process_counter r)) = None"
  by (cases "tget (process_table r) (uint (process_counter r))")
    (auto simp: registry_wf_def pids_ok_def)

lemma wf_register_process [inv_intros]:
  assumes wf: "registry_wf r" and nowrap: "uint (process_counter r) < 2 ^ 64 - 1"
  shows "registry_wf (snd (register_process r now os tid par role trace st mem h))"
proof -
  let ?r0 = "r\<lparr>process_counter := process_counter r + 1\<rparr>"
  have wf0: "registry_wf ?r0" using wf uint_succ_64 [OF nowrap] by (auto intro: wf_counter)
  show ?thesis
  proof (cases "uint (process_counter r) > INT_MAX")
    case True
    with wf0 show ?thesis by (simp add: register_process_def Let_def)
  next
    case small: False
    show ?thesis
    proof (cases "resolve_tree ?r0 now tid h")
      case (Inl e)
      with wf0 small show ?thesis by (cases e) (simp add: register_process_def Let_def)
    next
      case (Inr x)
      obtain ft rt r1 where x: "x = (ft, rt, r1)" by (cases x)
      note frame = resolve_tree_Inr [OF Inr [unfolded x]]
      let ?p = "make_process (uint (process_counter r)) os par ft role trace st mem now"
      have "registry_wf (on_process_registered_unlocked ?p
          (r1\<lparr>process_table := tput (p_pid ?p) ?p (process_table r1)\<rparr>))"
      proof (rule wf_add_process)
        show "registry_wf r1" using frame wf0 by blast
        show "tget (process_table r1) (p_pid ?p) = None"
          using frame counter_not_in_table [OF wf] by (simp add: make_process_def)
        show "1000 \<le> p_pid ?p" using wf by (simp add: registry_wf_def pids_ok_def make_process_def)
        show "p_pid ?p < uint (process_counter r1)"
          using frame uint_succ_64 [OF nowrap] by (simp add: make_process_def)
        show "p_termination_time_ms ?p = 0" by (simp add: make_process_def)
      qed
      then have wf3: "registry_wf (on_process_registered_unlocked ?p
          (r1\<lparr>process_table := tput (uint (process_counter r)) ?p (process_table r1)\<rparr>))"
        by (simp add: make_process_def)
      then show ?thesis
        using small Inr x
        by (auto simp: register_process_def Let_def intro!: wf_trees trees_ok_tmodify
            dest: wf_tablesD(2))
    qed
  qed
qed

end
