(* ===== verification/Registry_Machine.thy ===== *)
theory Registry_Machine
  imports Process_Registry
begin

text \<open>
  The process registry as a state machine. A step is one atomic action of a thread: an operation
  that holds the registry mutex, or one store of a lock-free operation. Well-formedness holds in
  every reachable state, pids are handed out in strictly increasing order and never reused, tree
  ids never collide, a tree's status only moves forward, and the tree index refines the abstract
  map from live pids to trees. The second store of \<open>mark_process_killed\<close> is what the refinement
  excludes.
\<close>

section \<open>Steps\<close>

text \<open>The second store of \<open>mark_process_killed\<close>, which no lock orders against the first.\<close>

definition store_dead :: "registry \<Rightarrow> int \<Rightarrow> registry" where
  "store_dead r pid =
     r\<lparr>process_table := tmodify pid (\<lambda>p. p\<lparr>p_alive := False\<rparr>) (process_table r)\<rparr>"

text \<open>A step yields the pid it hands out, if it hands out one. The core steps are all but the
  second store of \<open>mark_process_killed\<close>. The heartbeat rule stands for any
  of the stores of a heartbeat whose liveness check passed earlier, and for the first store of
  \<open>mark_process_killed\<close>; values that a store leaves alone are the current ones. The handler tree
  is the only one that is created by name.\<close>

inductive core_step :: "registry \<Rightarrow> int option \<Rightarrow> registry \<Rightarrow> bool" where
  st_register: "uint (process_counter r) < 2 ^ 64 - 1 \<Longrightarrow> uint (tree_counter r) < 2 ^ 64 - 1 \<Longrightarrow>
     register_process r now os tid par role trace st mem h = (res, r') \<Longrightarrow>
     core_step r (case res of Reg_Ok p t \<Rightarrow> Some (p_pid p) | Reg_Error e t \<Rightarrow> None) r'"
| st_create_handler: "core_step r None (snd (create_tree r now ''TREE_HANDLER''))"
| st_heartbeat: "core_step r None (heartbeat_stores r pid st mem now)"
| st_kill_tree: "core_step r None (snd (kill_tree r tid))"
| st_terminate: "core_step r None (terminate_process r now pid)"
| st_llm_request: "core_step r None (increment_llm_request r tid)"
| st_cleanup: "core_step r None (cleanup_historical_processes r now ret)"
| st_completed: "core_step r None (snd (mark_tree_completed_if_done r tid))"
| st_failed: "core_step r None (mark_tree_failed r tid)"

inductive reg_step :: "registry \<Rightarrow> int option \<Rightarrow> registry \<Rightarrow> bool" where
  st_core: "core_step r out r' \<Longrightarrow> reg_step r out r'"
| st_store_dead: "reg_step r None (store_dead r pid)"

definition reg_init :: "registry \<Rightarrow> bool" where
  "reg_init r \<longleftrightarrow> r = ProcessRegistry"

definition reg_moves :: "registry \<Rightarrow> registry \<Rightarrow> bool" where
  "reg_moves r r' \<longleftrightarrow> (\<exists>out. reg_step r out r')"

text \<open>Runs, with the pids they hand out in order.\<close>

inductive reg_run :: "registry \<Rightarrow> int list \<Rightarrow> registry \<Rightarrow> bool" where
  run_refl: "reg_run r [] r"
| run_step: "reg_run r pids r' \<Longrightarrow> reg_step r' out r'' \<Longrightarrow>
     reg_run r (pids @ (case out of None \<Rightarrow> [] | Some pid \<Rightarrow> [pid])) r''"


section \<open>Well-formedness of every reachable state\<close>

lemma wf_store_dead [inv_intros]: "registry_wf r \<Longrightarrow> registry_wf (store_dead r pid)"
  unfolding store_dead_def
  by (auto intro!: telemetry_wf1 telemetry_upd_tmodify table_ok_tmodify dest: wf_tablesD)

lemma wf_create_tree [inv_intros]: "registry_wf r \<Longrightarrow> registry_wf (snd (create_tree r now eid))"
  by (simp add: create_tree_def wf_create_tree_locked)

lemma wf_core_step: "core_step r out r' \<Longrightarrow> registry_wf r \<Longrightarrow> registry_wf r'"
proof (induction rule: core_step.induct)
  case (st_register r now os tid par role trace st mem h res r')
  then show ?case
    using wf_register_process [of r now os tid par role trace st mem h] by simp
qed (simp_all add: inv_intros)

lemma wf_reg_step: "reg_step r out r' \<Longrightarrow> registry_wf r \<Longrightarrow> registry_wf r'"
  by (induction rule: reg_step.induct) (auto intro: wf_core_step wf_store_dead)

interpretation reg_wf: inductive_invariant reg_init reg_moves registry_wf
  by unfold_locales (auto simp: reg_init_def reg_moves_def wf_init intro: wf_reg_step)

section \<open>Registration\<close>

lemma register_process_cases:
  obtains (exhausted) "uint (process_counter r) > INT_MAX"
      "register_process r now os tid par role trace st mem h =
         (Reg_Error ''pid space exhausted'' [], r\<lparr>process_counter := process_counter r + 1\<rparr>)"
  | (refused) e t where
      "resolve_tree (r\<lparr>process_counter := process_counter r + 1\<rparr>) now tid h = Inl (e, t)"
      "register_process r now os tid par role trace st mem h =
         (Reg_Error e t, r\<lparr>process_counter := process_counter r + 1\<rparr>)"
  | (added) t rt r1 p r3 where
      "uint (process_counter r) \<le> INT_MAX"
      "resolve_tree (r\<lparr>process_counter := process_counter r + 1\<rparr>) now tid h = Inr (t, rt, r1)"
      "p = make_process (uint (process_counter r)) os par t role trace st mem now"
      "r3 = on_process_registered_unlocked p
              (r1\<lparr>process_table := tput (uint (process_counter r)) p (process_table r1)\<rparr>)"
      "register_process r now os tid par role trace st mem h =
         (Reg_Ok p t, if rt then r3\<lparr>tree_table := tmodify t
            (\<lambda>x. x\<lparr>t_root_pid := uint (process_counter r)\<rparr>) (tree_table r3)\<rparr> else r3)"
proof -
  let ?r0 = "r\<lparr>process_counter := process_counter r + 1\<rparr>"
  consider (a) "uint (process_counter r) > INT_MAX" | (b) "uint (process_counter r) \<le> INT_MAX"
    by linarith
  then show thesis
  proof cases
    case a
    then show thesis by (intro exhausted) (simp_all add: register_process_def Let_def)
  next
    case b
    show thesis
    proof (cases "resolve_tree ?r0 now tid h")
      case (Inl x)
      with b show thesis
        by (intro refused [of "fst x" "snd x"]) (auto simp: register_process_def Let_def split: prod.splits)
    next
      case (Inr x)
      obtain t rt r1 where "x = (t, rt, r1)" by (cases x)
      with Inr b show thesis
        by (intro added [OF b _ refl refl]) (auto simp: register_process_def Let_def)
    qed
  qed
qed

lemma on_process_registered_frame [simp]:
  "process_table (on_process_registered_unlocked p r) = process_table r"
  "tree_table (on_process_registered_unlocked p r) = tree_table r"
  "process_counter (on_process_registered_unlocked p r) = process_counter r"
  "tree_counter (on_process_registered_unlocked p r) = tree_counter r"
  "tree_process_index (on_process_registered_unlocked p r) =
     index_insert (p_tree_id p) (p_pid p) (tree_process_index r)"
  "process_children (on_process_registered_unlocked p r) =
     (if p_parent_pid p > 0 then index_insert (p_parent_pid p) (p_pid p) (process_children r)
      else process_children r)"
  by (simp_all add: on_process_registered_unlocked_def Let_def)

lemma resolve_tree_target:
  assumes "resolve_tree r now tid h = Inr (t, rt, r')"
  shows "if h then t = ''TREE_HANDLER'' \<and> rt \<and> r' = r
         else if tid = [] then rt \<and> create_tree_locked r now [] = (t, r')
         else t = tid \<and> \<not> rt \<and> r' = r \<and> (\<exists>x. tget (tree_table r) tid = Some x \<and> t_status x = T_ACTIVE)"
  using assms by (auto simp: resolve_tree_def split: if_splits option.splits prod.splits)

lemma resolve_tree_refusal:
  assumes "resolve_tree r now tid h = Inl (e, t)"
  shows "\<not> h \<and> tid \<noteq> [] \<and> t = tid \<and>
    (case tget (tree_table r) tid of None \<Rightarrow> e = ''tree not found''
     | Some x \<Rightarrow> t_status x \<noteq> T_ACTIVE \<and> e = ''tree is not active'')"
  using assms by (auto simp: resolve_tree_def split: if_splits option.splits prod.splits)

text \<open>What a successful registration does to every table.\<close>

lemma register_process_added:
  assumes "register_process r now os tid par role trace st mem h = (Reg_Ok p t, r')"
  shows "p = make_process (uint (process_counter r)) os par t role trace st mem now \<and>
    uint (process_counter r) \<le> INT_MAX \<and>
    process_table r' = tput (uint (process_counter r)) p (process_table r) \<and>
    process_counter r' = process_counter r + 1 \<and>
    tree_process_index r' = index_insert t (uint (process_counter r)) (tree_process_index r) \<and>
    process_children r' = (if par > 0
      then index_insert par (uint (process_counter r)) (process_children r) else process_children r)"
  using assms
proof (cases rule: register_process_cases [of r now os tid par role trace st mem h])
  case (added t' rt r1 p' r3)
  note frame = resolve_tree_Inr [OF added(2)]
  from added(5) assms have "p' = p" "t' = t"
    and r': "r' = (if rt then r3\<lparr>tree_table := tmodify t
            (\<lambda>x. x\<lparr>t_root_pid := uint (process_counter r)\<rparr>) (tree_table r3)\<rparr> else r3)"
    by auto
  with added(1,3,4) frame show ?thesis by (auto simp: make_process_def)
qed auto

section \<open>Pids\<close>

lemma cleanup_counter [simp]:
  "process_counter (cleanup_historical_processes r now ret) = process_counter r"
  by (simp add: cleanup_historical_processes_def)

lemma core_step_counter:
  "core_step r out r' \<Longrightarrow>
     uint (process_counter r) \<le> uint (process_counter r') \<and>
     (\<forall>pid. out = Some pid \<longrightarrow> pid = uint (process_counter r) \<and> pid \<le> INT_MAX \<and>
        pid < uint (process_counter r'))"
proof (induction rule: core_step.induct)
  case (st_register r now os tid par role trace st mem h res r')
  have succ: "uint (process_counter r + 1) = uint (process_counter r) + 1"
    using st_register(1) by (rule uint_succ_64)
  show ?case
  proof (cases res)
    case (Reg_Ok p t)
    with st_register(3) have "p = make_process (uint (process_counter r)) os par t role trace st mem now"
      "uint (process_counter r) \<le> INT_MAX" "process_counter r' = process_counter r + 1"
      by (auto dest: register_process_added)
    with succ Reg_Ok show ?thesis by (simp add: make_process_def)
  next
    case (Reg_Error e t)
    with st_register(3) have "r' = r\<lparr>process_counter := process_counter r + 1\<rparr>"
      by (cases rule: register_process_cases [of r now os tid par role trace st mem h]) auto
    with succ Reg_Error show ?thesis by simp
  qed
qed (auto simp: create_tree_def create_tree_locked_def heartbeat_stores_def kill_tree_def Let_def
      terminate_process_def on_process_terminal_unlocked_def
      increment_llm_request_def mark_tree_completed_if_done_def mark_tree_failed_def
      split: option.splits)

lemma reg_step_counter:
  "reg_step r out r' \<Longrightarrow>
     uint (process_counter r) \<le> uint (process_counter r') \<and>
     (\<forall>pid. out = Some pid \<longrightarrow> pid = uint (process_counter r) \<and> pid \<le> INT_MAX \<and>
        pid < uint (process_counter r'))"
  by (induction rule: reg_step.induct) (simp_all add: core_step_counter store_dead_def)

lemma reg_run_pids:
  "reg_run r pids r' \<Longrightarrow>
     sorted_wrt (<) pids \<and> uint (process_counter r) \<le> uint (process_counter r') \<and>
     (\<forall>pid\<in>set pids. uint (process_counter r) \<le> pid \<and> pid \<le> INT_MAX \<and>
        pid < uint (process_counter r'))"
proof (induction rule: reg_run.induct)
  case (run_step r pids r' out r'')
  from reg_step_counter [OF run_step(2)] run_step(3) show ?case
    by (cases out) (auto simp: sorted_wrt_append)
qed simp

section \<open>Trees\<close>

definition tree_ids_ok :: "registry \<Rightarrow> bool" where
  "tree_ids_ok r \<longleftrightarrow> (\<forall>k x. tget (tree_table r) k = Some x \<longrightarrow>
     k = ''TREE_HANDLER'' \<or> (\<exists>n < unat (tree_counter r). k = ''TREE_'' @ nat_digits n))"

lemma nat_digits_not_HANDLER: "''HANDLER'' \<noteq> nat_digits n"
proof
  assume eq: "''HANDLER'' = nat_digits n"
  have "isdigit (hd ''HANDLER'')" unfolding eq by (rule hd_nat_digits)
  then show False by (simp add: isdigit_def)
qed

lemma tree_id_fresh:
  assumes "tree_ids_ok r"
  shows "tget (tree_table r) (''TREE_'' @ nat_digits (unat (tree_counter r))) = None"
proof (rule ccontr)
  assume "\<not> ?thesis"
  with assms have "''TREE_'' @ nat_digits (unat (tree_counter r)) = ''TREE_HANDLER'' \<or>
      (\<exists>n < unat (tree_counter r). nat_digits (unat (tree_counter r)) = nat_digits n)"
    by (auto simp: tree_ids_ok_def)
  then show False using nat_digits_not_HANDLER [symmetric] by (auto simp: nat_digits_inj)
qed

lemma unat_succ_64: "uint (c :: u64) < 2 ^ 64 - 1 \<Longrightarrow> unat (c + 1) = unat c + 1"
  by (metis uint_succ_64 uint_nat of_nat_eq_iff of_nat_add of_nat_1)

lemma create_tree_locked_auto:
  "create_tree_locked r now [] = (t, r') \<Longrightarrow>
     t = ''TREE_'' @ nat_digits (unat (tree_counter r)) \<and> tree_counter r' = tree_counter r + 1"
  by (auto simp: create_tree_locked_def Let_def)

text \<open>Where the tree table of a registration comes from.\<close>

lemma register_process_trees:
  assumes "register_process r now os tid par role trace st mem h = (res, r')"
  shows "(tree_counter r' = tree_counter r \<and>
      (\<forall>k. rel_option (\<lambda>x y. t_status y = t_status x \<and> t_created_at_ms y = t_created_at_ms x \<and>
              t_llm_request_count y = t_llm_request_count x)
           (tget (tree_table r) k) (tget (tree_table r') k))) \<or>
    (tree_counter r' = tree_counter r + 1 \<and> \<not> h \<and> tid = [] \<and>
      tget (tree_table r') (''TREE_'' @ nat_digits (unat (tree_counter r))) =
        Some \<lparr>t_tree_id = ''TREE_'' @ nat_digits (unat (tree_counter r)),
          t_root_pid = uint (process_counter r), t_created_at_ms = now, t_status = T_ACTIVE,
          t_llm_request_count = 0\<rparr> \<and>
      (\<forall>k. k \<noteq> ''TREE_'' @ nat_digits (unat (tree_counter r)) \<longrightarrow>
         tget (tree_table r') k = tget (tree_table r) k))"
proof (cases rule: register_process_cases [of r now os tid par role trace st mem h])
  case (added t rt r1 p r3)
  note target = resolve_tree_target [OF added(2)]
  from added(4) have trees3: "tree_table r3 = tree_table r1" "tree_counter r3 = tree_counter r1"
    by simp_all
  show ?thesis
  proof (cases "\<not> h \<and> tid = []")
    case True
    with target have cr: "create_tree_locked (r\<lparr>process_counter := process_counter r + 1\<rparr>) now [] = (t, r1)"
      and rt by auto
    from create_tree_locked_auto [OF cr] create_tree_locked_frame [OF cr] \<open>rt\<close> trees3 added(5) assms True
    show ?thesis by auto
  next
    case False
    with target have "r1 = r\<lparr>process_counter := process_counter r + 1\<rparr>" by (auto split: if_splits)
    with trees3 added(5) assms show ?thesis
      by (auto intro: option.rel_refl simp: option.rel_map rel_option_reflI)
  qed
qed (use assms in \<open>auto intro: option.rel_refl\<close>)

text \<open>Steps other than a registration and the creation of the handler tree only rewrite fields of
  present trees, and never move a status backwards.\<close>

fun status_rank :: "tree_status \<Rightarrow> nat" where
  "status_rank T_ACTIVE = 0"
| "status_rank T_COMPLETED = 1"
| "status_rank T_FAILED = 1"
| "status_rank T_KILLED = 2"

definition tree_forward :: "tree_info \<Rightarrow> tree_info \<Rightarrow> bool" where
  "tree_forward x y \<longleftrightarrow> t_created_at_ms y = t_created_at_ms x \<and>
     (t_status y = t_status x \<or> status_rank (t_status x) < status_rank (t_status y))"

lemma tree_forward_refl [simp]: "tree_forward x x"
  by (simp add: tree_forward_def)

definition trees_forward :: "registry \<Rightarrow> registry \<Rightarrow> bool" where
  "trees_forward r r' \<longleftrightarrow>
     (\<forall>k. rel_option tree_forward (tget (tree_table r) k) (tget (tree_table r') k))"

lemma trees_forward_tmodify:
  assumes "tree_table r' = tmodify t f (tree_table r)"
    and "\<And>x. tget (tree_table r) t = Some x \<Longrightarrow> tree_forward x (f x)"
  shows "trees_forward r r'"
  unfolding trees_forward_def
proof
  fix k
  show "rel_option tree_forward (tget (tree_table r) k) (tget (tree_table r') k)"
    using assms by (cases "tget (tree_table r) k") auto
qed

lemma trees_forward_same: "tree_table r' = tree_table r \<Longrightarrow> trees_forward r r'"
  by (simp add: trees_forward_def option.rel_refl)

lemma terminate_process_trees [simp]:
  "tree_table (terminate_process r now pid) = tree_table r"
  "tree_counter (terminate_process r now pid) = tree_counter r"
  by (auto simp: terminate_process_def on_process_terminal_unlocked_def Let_def split: option.splits)

lemma status_rank_killed: "status_rank s \<le> 2" "s \<noteq> T_KILLED \<longleftrightarrow> status_rank s < 2"
  by (cases s; simp)+

lemma kill_tree_forward: "trees_forward r (snd (kill_tree r t))"
  by (rule trees_forward_tmodify [of _ t "\<lambda>x. x\<lparr>t_status := T_KILLED\<rparr>"])
    (auto simp: kill_tree_def Let_def tree_forward_def status_rank_killed(2) [symmetric])

lemma completed_forward: "trees_forward r (snd (mark_tree_completed_if_done r t))"
proof (cases "fst (mark_tree_completed_if_done r t)")
  case True
  then have "tree_table (snd (mark_tree_completed_if_done r t)) =
      tmodify t (\<lambda>x. x\<lparr>t_status := T_COMPLETED\<rparr>) (tree_table r)"
    and "\<And>x. tget (tree_table r) t = Some x \<Longrightarrow> t_status x = T_ACTIVE"
    by (auto simp: mark_tree_completed_if_done_def split: option.splits if_splits)
      (metis tree_status.exhaust)
  then show ?thesis by (auto simp: tree_forward_def intro: trees_forward_tmodify)
next
  case False
  then show ?thesis
    by (intro trees_forward_same)
      (auto simp: mark_tree_completed_if_done_def split: option.splits if_splits)
qed

lemma failed_forward: "trees_forward r (mark_tree_failed r t)"
proof (cases "\<exists>x. tget (tree_table r) t = Some x \<and> t_status x = T_ACTIVE")
  case True
  then show ?thesis
    by (intro trees_forward_tmodify [of _ t "\<lambda>x. x\<lparr>t_status := T_FAILED\<rparr>"])
      (auto simp: mark_tree_failed_def tree_forward_def)
next
  case False
  then have "mark_tree_failed r t = r"
    by (auto simp: mark_tree_failed_def split: option.splits) (metis tree_status.exhaust)
  then show ?thesis by (simp add: trees_forward_same)
qed

lemma llm_forward: "trees_forward r (increment_llm_request r t)"
  by (rule trees_forward_tmodify [of _ t]) (auto simp: increment_llm_request_def tree_forward_def)

lemmas forward_intros = kill_tree_forward completed_forward failed_forward llm_forward

lemma trees_forward_keys: "trees_forward r r' \<Longrightarrow> tget (tree_table r') k = Some y \<Longrightarrow>
    \<exists>x. tget (tree_table r) k = Some x"
  unfolding trees_forward_def by (drule spec [of _ k]) (auto simp: option_rel_Some2)

lemma tree_ids_ok_forward:
  "tree_ids_ok r \<Longrightarrow> trees_forward r r' \<Longrightarrow> tree_counter r' = tree_counter r \<Longrightarrow> tree_ids_ok r'"
proof -
  assume ok: "tree_ids_ok r" and fwd: "trees_forward r r'" and cnt: "tree_counter r' = tree_counter r"
  show "tree_ids_ok r'"
    unfolding tree_ids_ok_def cnt
  proof (intro allI impI)
    fix k y
    assume "tget (tree_table r') k = Some y"
    then obtain x where "tget (tree_table r) k = Some x" using trees_forward_keys [OF fwd] by blast
    with ok show "k = ''TREE_HANDLER'' \<or> (\<exists>n < unat (tree_counter r). k = ''TREE_'' @ nat_digits n)"
      by (simp only: tree_ids_ok_def)
  qed
qed

lemma counter_frame:
  "tree_counter (snd (kill_tree r t)) = tree_counter r"
  "tree_counter (snd (mark_tree_completed_if_done r t)) = tree_counter r"
  "tree_counter (mark_tree_failed r t) = tree_counter r"
  "tree_counter (increment_llm_request r t) = tree_counter r"
  "tree_counter (heartbeat_stores r pid st mem now) = tree_counter r"
  "tree_counter (cleanup_historical_processes r now ret) = tree_counter r"
  "tree_table (heartbeat_stores r pid st mem now) = tree_table r"
  "tree_table (cleanup_historical_processes r now ret) = tree_table r"
  by (auto simp: kill_tree_def mark_tree_completed_if_done_def mark_tree_failed_def
      increment_llm_request_def heartbeat_stores_def cleanup_historical_processes_def Let_def
      split: option.splits)

lemma register_process_forward:
  assumes "register_process r now os tid par role trace st mem h = (res, r')"
    and "tree_ids_ok r" and "tget (tree_table r) k = Some x"
  shows "\<exists>y. tget (tree_table r') k = Some y \<and> tree_forward x y"
proof -
  have "k \<noteq> ''TREE_'' @ nat_digits (unat (tree_counter r))"
    using tree_id_fresh [OF assms(2)] assms(3) by auto
  with register_process_trees [OF assms(1)] assms(3) show ?thesis
    by (auto simp: tree_forward_def option_rel_Some1 dest!: spec [of _ k])
qed

lemma register_process_tree_ids:
  assumes reg: "register_process r now os tid par role trace st mem h = (res, r')"
    and ok: "tree_ids_ok r" and nowrap: "uint (tree_counter r) < 2 ^ 64 - 1"
  shows "tree_ids_ok r'"
  using register_process_trees [OF reg]
proof (elim disjE conjE)
  assume "tree_counter r' = tree_counter r"
    and "\<forall>k. rel_option (\<lambda>x y. t_status y = t_status x \<and> t_created_at_ms y = t_created_at_ms x \<and>
              t_llm_request_count y = t_llm_request_count x)
           (tget (tree_table r) k) (tget (tree_table r') k)"
  then have "tget (tree_table r') k = Some y \<Longrightarrow> \<exists>x. tget (tree_table r) k = Some x" for k y
    by (auto simp: option_rel_Some2 dest!: spec [of _ k])
  with ok \<open>tree_counter r' = tree_counter r\<close> show ?thesis unfolding tree_ids_ok_def by metis
next
  assume "tree_counter r' = tree_counter r + 1"
    and "\<forall>k. k \<noteq> ''TREE_'' @ nat_digits (unat (tree_counter r)) \<longrightarrow>
         tget (tree_table r') k = tget (tree_table r) k"
  with ok unat_succ_64 [OF nowrap] show ?thesis
    unfolding tree_ids_ok_def by (metis Suc_eq_plus1 less_Suc_eq)
qed

lemma core_step_tree_ids: "core_step r out r' \<Longrightarrow> tree_ids_ok r \<Longrightarrow> tree_ids_ok r'"
proof (induction rule: core_step.induct)
  case (st_create_handler r now)
  then show ?case
    by (auto simp: create_tree_def create_tree_locked_def tree_ids_ok_def Let_def split: if_splits)
qed (blast intro: register_process_tree_ids tree_ids_ok_forward forward_intros trees_forward_same
      counter_frame terminate_process_trees)+

lemma reg_step_tree_ids: "reg_step r out r' \<Longrightarrow> tree_ids_ok r \<Longrightarrow> tree_ids_ok r'"
proof (induction rule: reg_step.induct)
  case (st_store_dead r pid)
  then show ?case by (simp add: store_dead_def tree_ids_ok_def)
qed (rule core_step_tree_ids)

interpretation reg_ids: inductive_invariant reg_init reg_moves tree_ids_ok
proof unfold_locales
  show "reg_init r \<Longrightarrow> tree_ids_ok r" for r
    by (simp add: reg_init_def ProcessRegistry_def tree_ids_ok_def)
  show "tree_ids_ok r \<Longrightarrow> reg_moves r r' \<Longrightarrow> tree_ids_ok r'" for r r'
    by (auto simp: reg_moves_def intro: reg_step_tree_ids)
qed

lemma core_step_forward:
  "core_step r out r' \<Longrightarrow> tree_ids_ok r \<Longrightarrow> k \<noteq> ''TREE_HANDLER'' \<Longrightarrow>
     tget (tree_table r) k = Some x \<Longrightarrow> \<exists>y. tget (tree_table r') k = Some y \<and> tree_forward x y"
proof (induction rule: core_step.induct)
  case (st_register r now os tid par role trace st mem h res r')
  then show ?case by (blast intro: register_process_forward)
next
  case (st_create_handler r now)
  then show ?case by (auto simp: create_tree_def create_tree_locked_def Let_def)
next
  case (st_kill_tree r tid)
  then show ?case using kill_tree_forward by (metis trees_forward_def option_rel_Some1)
next
  case (st_completed r tid)
  then show ?case using completed_forward by (metis trees_forward_def option_rel_Some1)
next
  case (st_failed r tid)
  then show ?case using failed_forward by (metis trees_forward_def option_rel_Some1)
next
  case (st_llm_request r tid)
  then show ?case using llm_forward by (metis trees_forward_def option_rel_Some1)
qed (simp_all add: counter_frame)

section \<open>The live processes\<close>

text \<open>The abstract contract: a map from live pids to trees, to which a registration adds a pid that
  was not there, and from which a termination removes one.\<close>

definition live_map :: "registry \<Rightarrow> int \<Rightarrow> string option" where
  "live_map r pid =
     (case tget (process_table r) pid of
        None \<Rightarrow> None | Some p \<Rightarrow> if p_alive p then Some (p_tree_id p) else None)"

inductive live_step :: "(int \<Rightarrow> string option) \<Rightarrow> int option \<Rightarrow> (int \<Rightarrow> string option) \<Rightarrow> bool" where
  lv_add: "m pid = None \<Longrightarrow> live_step m (Some pid) (m(pid \<mapsto> t))"
| lv_remove: "live_step m None (m(pid := None))"
| lv_stutter: "live_step m None m"

inductive_simps live_step_Some: "live_step m (Some pid) m'"

lemma live_map_cong: "process_table r' = process_table r \<Longrightarrow> live_map r' = live_map r"
  by (simp add: live_map_def fun_eq_iff)

lemma live_map_tmodify:
  assumes "\<And>p. p_alive (f p) = p_alive p \<and> p_tree_id (f p) = p_tree_id p"
  shows "live_map (r\<lparr>process_table := tmodify pid f (process_table r)\<rparr>) = live_map r"
  using assms by (auto simp: live_map_def fun_eq_iff split: option.splits)

lemma live_map_heartbeat [simp]: "live_map (heartbeat_stores r pid st mem now) = live_map r"
  unfolding heartbeat_stores_def by (rule live_map_tmodify) simp

lemma tget_fold_tmodify:
  assumes "\<And>p. f (f p) = f p"
  shows "tget (fold (\<lambda>k. tmodify k f) ks m) j =
    (if j \<in> set ks then map_option f (tget m j) else tget m j)"
  using assms by (induction ks arbitrary: m) (auto simp: option.map_comp comp_def)

lemma live_map_kill_tree [simp]: "live_map (snd (kill_tree r t)) = live_map r"
  by (auto simp: live_map_def kill_tree_def Let_def fun_eq_iff tget_fold_tmodify split: option.splits)

lemma live_map_store_dead [simp]: "live_map (store_dead r pid) = (live_map r)(pid := None)"
  by (auto simp: live_map_def store_dead_def fun_eq_iff split: option.splits)

lemma live_map_terminate [simp]:
  "live_map (terminate_process r now pid) = (live_map r)(pid := None)"
  by (auto simp: live_map_def terminate_process_def on_process_terminal_unlocked_def Let_def
      fun_eq_iff split: option.splits)

lemma live_map_cleanup [simp]:
  "registry_wf r \<Longrightarrow> live_map (cleanup_historical_processes r now ret) = live_map r"
  by (auto simp: live_map_def cleanup_historical_processes_def fun_eq_iff
      tget_filter [OF wf_tablesD(1)] expired_def split: option.splits)

lemma live_map_frame [simp]:
  "live_map (snd (mark_tree_completed_if_done r t)) = live_map r"
  "live_map (mark_tree_failed r t) = live_map r"
  "live_map (increment_llm_request r t) = live_map r"
  "live_map (snd (create_tree r now eid)) = live_map r"
  by (rule live_map_cong; auto simp: mark_tree_completed_if_done_def mark_tree_failed_def
      increment_llm_request_def create_tree_def create_tree_locked_def Let_def
      split: option.splits)+

lemma live_map_register:
  assumes "register_process r now os tid par role trace st mem h = (res, r')"
  shows "live_map r' = (case res of Reg_Error e t \<Rightarrow> live_map r
    | Reg_Ok p t \<Rightarrow> (live_map r)(p_pid p \<mapsto> t))"
proof (cases res)
  case (Reg_Ok p t)
  with register_process_added [of r now os tid par role trace st mem h p t r'] assms show ?thesis
    by (auto simp: live_map_def make_process_def fun_eq_iff)
next
  case (Reg_Error e t)
  with assms show ?thesis
    by (cases rule: register_process_cases [of r now os tid par role trace st mem h])
      (auto intro: live_map_cong)
qed

lemma core_step_live:
  "core_step r out r' \<Longrightarrow> registry_wf r \<Longrightarrow> live_step (live_map r) out (live_map r')"
proof (induction rule: core_step.induct)
  case (st_register r now os tid par role trace st mem h res r')
  have "live_map r (uint (process_counter r)) = None"
    using counter_not_in_table [OF st_register(4)] by (simp add: live_map_def)
  with live_map_register [OF st_register(3)] show ?case
  proof (cases res)
    case (Reg_Ok p t)
    with st_register(3) have "p_pid p = uint (process_counter r)"
      by (auto dest: register_process_added simp: make_process_def)
    with Reg_Ok live_map_register [OF st_register(3)]
      \<open>live_map r (uint (process_counter r)) = None\<close>
      lv_add [of "live_map r" "p_pid p" t]
    show ?thesis by (simp add: fun_upd_def)
  qed (auto intro: lv_stutter)
qed (auto intro: lv_remove lv_stutter)

text \<open>The index lists exactly the live processes.\<close>

definition index_exact :: "registry \<Rightarrow> bool" where
  "index_exact r \<longleftrightarrow> (\<forall>t pid. pid \<in> set (get_tree_processes r t) \<longleftrightarrow> live_map r pid = Some t)"

lemma index_exact_unchanged:
  "index_exact r \<Longrightarrow> live_map r' = live_map r \<Longrightarrow> tree_process_index r' = tree_process_index r \<Longrightarrow>
     index_exact r'"
  by (simp add: index_exact_def get_tree_processes_def)

lemma index_frame:
  "tree_process_index (snd (create_tree r now eid)) = tree_process_index r"
  "tree_process_index (heartbeat_stores r pid st mem now) = tree_process_index r"
  "tree_process_index (snd (kill_tree r t)) = tree_process_index r"
  "tree_process_index (increment_llm_request r t) = tree_process_index r"
  "tree_process_index (cleanup_historical_processes r now ret) = tree_process_index r"
  "tree_process_index (snd (mark_tree_completed_if_done r t)) = tree_process_index r"
  "tree_process_index (mark_tree_failed r t) = tree_process_index r"
  by (auto simp: create_tree_def create_tree_locked_def heartbeat_stores_def kill_tree_def Let_def
      increment_llm_request_def cleanup_historical_processes_def mark_tree_completed_if_done_def
      mark_tree_failed_def split: option.splits)

lemma index_exact_terminate:
  assumes "index_exact r"
  shows "index_exact (terminate_process r now pid)"
proof (cases "live_map r pid")
  case None
  then have "terminate_process r now pid = r"
    by (auto simp: live_map_def terminate_process_def split: option.splits if_splits)
  with assms show ?thesis by simp
next
  case (Some t)
  then obtain p where p: "tget (process_table r) pid = Some p" "p_alive p" "p_tree_id p = t"
    by (auto simp: live_map_def split: option.splits if_splits)
  then have "tree_process_index (terminate_process r now pid) =
      index_erase t pid (tree_process_index r)"
    by (simp add: terminate_process_def on_process_terminal_unlocked_def Let_def)
  with assms Some show ?thesis by (auto simp: index_exact_def get_tree_processes_def)
qed

lemma index_exact_register:
  assumes "index_exact r" and "registry_wf r"
    and reg: "register_process r now os tid par role trace st mem h = (res, r')"
  shows "index_exact r'"
proof (cases res)
  case (Reg_Ok p t)
  have "live_map r (uint (process_counter r)) = None"
    using counter_not_in_table [OF assms(2)] by (simp add: live_map_def)
  with assms(1) Reg_Ok live_map_register [OF reg]
    register_process_added [of r now os tid par role trace st mem h p t r'] reg
  show ?thesis
    by (auto simp: index_exact_def get_tree_processes_def make_process_def split: if_splits)
next
  case (Reg_Error e t)
  with reg live_map_register [OF reg] assms(1) show ?thesis
    by (cases rule: register_process_cases [of r now os tid par role trace st mem h])
      (auto intro: index_exact_unchanged)
qed

lemma core_step_index_exact:
  "core_step r out r' \<Longrightarrow> registry_wf r \<Longrightarrow> index_exact r \<Longrightarrow> index_exact r'"
proof (induction rule: core_step.induct)
  case (st_register r now os tid par role trace st mem h res r')
  then show ?case by (blast intro: index_exact_register)
next
  case (st_terminate r now pid)
  then show ?case by (blast intro: index_exact_terminate)
qed (auto intro: index_exact_unchanged simp: index_frame)

lemma register_process_tree_id:
  assumes "register_process r now os tid par role trace st mem h = (Reg_Ok p t, r')"
  shows "if h then t = ''TREE_HANDLER''
         else if tid = [] then t = ''TREE_'' @ nat_digits (unat (tree_counter r))
         else t = tid \<and> (\<exists>rt n. get_tree_status r tid = (True, T_ACTIVE, rt, n))"
  using assms
proof (cases rule: register_process_cases [of r now os tid par role trace st mem h])
  case (added t' rt r1 p' r3)
  with assms resolve_tree_target [OF added(2)] show ?thesis
    by (auto simp: get_tree_status_def dest: create_tree_locked_auto split: if_splits)
qed auto

text \<open>The tree that a root without a tree id gets.\<close>

lemma register_process_new_tree:
  assumes "register_process r now os [] par role trace st mem False = (Reg_Ok p t, r')"
  shows "tget (tree_table r') t = Some \<lparr>t_tree_id = t, t_root_pid = p_pid p,
      t_created_at_ms = now, t_status = T_ACTIVE, t_llm_request_count = 0\<rparr>"
    and "k \<noteq> t \<Longrightarrow> tget (tree_table r') k = tget (tree_table r) k"
proof -
  let ?r0 = "r\<lparr>process_counter := process_counter r + 1\<rparr>"
  have pid: "p_pid p = uint (process_counter r)"
    using register_process_added [OF assms] by (simp add: make_process_def)
  obtain r1 where cr: "create_tree_locked ?r0 now [] = (t, r1)"
    and r': "tree_table r' = tmodify t (\<lambda>x. x\<lparr>t_root_pid := uint (process_counter r)\<rparr>) (tree_table r1)"
    using assms
  proof (cases rule: register_process_cases [of r now os "[]" par role trace st mem False])
    case (added t' rt r1 p' r3)
    with assms resolve_tree_target [OF added(2)] show ?thesis by (intro that) auto
  qed auto
  from create_tree_locked_frame [OF cr] pid
  show "tget (tree_table r') t = Some \<lparr>t_tree_id = t, t_root_pid = p_pid p,
      t_created_at_ms = now, t_status = T_ACTIVE, t_llm_request_count = 0\<rparr>"
    unfolding r' by simp
  from create_tree_locked_frame [OF cr]
  show "k \<noteq> t \<Longrightarrow> tget (tree_table r') k = tget (tree_table r) k"
    unfolding r' by simp
qed

interpretation reg_exact: inductive_invariant reg_init "\<lambda>r r'. \<exists>out. core_step r out r'"
  "\<lambda>r. registry_wf r \<and> index_exact r"
proof unfold_locales
  show "reg_init r \<Longrightarrow> registry_wf r \<and> index_exact r" for r
    using wf_init by (simp add: reg_init_def index_exact_def get_tree_processes_def live_map_def
        ProcessRegistry_def)
qed (auto intro: wf_core_step core_step_index_exact)

section \<open>A concrete registry\<close>

text \<open>The state after a first worker asked for a tree of its own.\<close>

definition demo_process :: process_info where
  "demo_process = make_process 1000 42 (-1) ''TREE_1'' ''worker'' ''t'' STARTING 0 7"

definition demo_registry :: registry where
  "demo_registry = \<lparr>process_table = [(1000, demo_process)],
     tree_table = [(''TREE_1'', \<lparr>t_tree_id = ''TREE_1'', t_root_pid = 1000, t_created_at_ms = 7,
        t_status = T_ACTIVE, t_llm_request_count = 0\<rparr>)],
     tree_process_index = [(''TREE_1'', [1000])], process_children = [],
     process_counter = 1001, tree_counter = 2\<rparr>"

lemma nat_digits_one: "nat_digits (Suc 0) = ''1''"
  by (simp add: nat_digits.simps [of "Suc 0"]) code_simp

lemma demo_register:
  "register_process ProcessRegistry 7 42 [] (-1) ''worker'' ''t'' STARTING 0 False =
     (Reg_Ok demo_process ''TREE_1'', demo_registry)"
  by (simp add: register_process_def resolve_tree_def create_tree_locked_def make_process_def Let_def
      ProcessRegistry_def demo_process_def demo_registry_def on_process_registered_unlocked_def
      index_insert_def members_def tmodify_def nat_digits_one)

lemma demo_step: "core_step ProcessRegistry (Some 1000) demo_registry"
  using st_register [OF _ _ demo_register]
  by (simp add: ProcessRegistry_def demo_process_def make_process_def)

lemma demo_reach_init: "reach reg_init reg_moves ProcessRegistry"
  by (rule reach_init) (simp add: reg_init_def)

lemma demo_reach: "reach reg_init reg_moves demo_registry"
  using demo_step by (intro reach_step [OF demo_reach_init]) (auto simp: reg_moves_def intro: st_core)

lemma demo_wf: "registry_wf demo_registry"
  by (rule reg_wf.reach_inv [OF demo_reach])

section \<open>Properties\<close>

text \<open>C1: in every reachable state of the registry, whatever interleaving of locked operations and
  lock-free stores led to it, the tables are well formed: every pid is its process's own, at least
  1000 and below the counter; index sets are non-empty and duplicate-free; every indexed pid is a
  process of that tree without a termination time; every live process is in its tree's index;
  every recorded child names that parent; every tree is stored under its own id.\<close>

theorem registry_always_wf:
  assumes "reach reg_init reg_moves r"
  shows "registry_wf r"
  using assms by (rule reg_wf.reach_inv)

theorem registry_always_wf_witness: "registry_wf demo_registry"
  by (rule registry_always_wf [OF demo_reach])

text \<open>a successful registration hands out a pid nobody has, stores exactly the new live
  process under it, adds it to the index of one tree and to its parent's children, and leaves every
  other process, tree index and children set alone; the tree is the handler tree, a tree created
  for it, or the requested tree, which is then known and active.\<close>

theorem register_process_correct:
  assumes "registry_wf r"
    and "register_process r now os tid par role trace st mem h = (Reg_Ok p t, r')"
  shows "get_process r (p_pid p) = None \<and> get_process r' (p_pid p) = Some p \<and>
    p = make_process (uint (process_counter r)) os par t role trace st mem now \<and>
    (\<forall>q. q \<noteq> p_pid p \<longrightarrow> get_process r' q = get_process r q) \<and>
    (\<forall>k. set (get_tree_processes r' k) =
           set (get_tree_processes r k) \<union> (if k = t then {p_pid p} else {})) \<and>
    (\<forall>q. set (get_process_children r' q) =
           set (get_process_children r q) \<union> (if 0 < par \<and> q = par then {p_pid p} else {})) \<and>
    (if h then t = ''TREE_HANDLER''
     else if tid = [] then t = ''TREE_'' @ nat_digits (unat (tree_counter r))
     else t = tid \<and> (\<exists>rt n. get_tree_status r tid = (True, T_ACTIVE, rt, n)))"
proof -
  note added = register_process_added [OF assms(2)]
  then have pid: "p_pid p = uint (process_counter r)" by (simp add: make_process_def)
  have "get_process r (p_pid p) = None"
    using counter_not_in_table [OF assms(1)] pid by (simp add: get_process_def)
  moreover have "get_process r' (p_pid p) = Some p" using added pid by (simp add: get_process_def)
  moreover have "\<forall>q. q \<noteq> p_pid p \<longrightarrow> get_process r' q = get_process r q"
    using added pid by (simp add: get_process_def)
  moreover have "\<forall>k. set (get_tree_processes r' k) =
      set (get_tree_processes r k) \<union> (if k = t then {p_pid p} else {})"
    using added pid by (auto simp: get_tree_processes_def)
  moreover have "\<forall>q. set (get_process_children r' q) =
      set (get_process_children r q) \<union> (if 0 < par \<and> q = par then {p_pid p} else {})"
    using added pid by (auto simp: get_process_children_def)
  ultimately show ?thesis
    using added register_process_tree_id [OF assms(2)] by blast
qed

theorem register_process_correct_witness:
  "get_process ProcessRegistry 1000 = None \<and> get_process demo_registry 1000 = Some demo_process"
  using register_process_correct [OF wf_init demo_register]
  by (simp add: demo_process_def make_process_def)

text \<open>a refused registration changes nothing but the pid counter, and says why: the 32 bit pid
  space is used up, the requested tree does not exist, or it is no longer active.\<close>

theorem register_process_refused:
  assumes "register_process r now os tid par role trace st mem h = (Reg_Error e t, r')"
  shows "r' = r\<lparr>process_counter := process_counter r + 1\<rparr> \<and>
    (INT_MAX < uint (process_counter r) \<and> e = ''pid space exhausted'' \<or>
     \<not> h \<and> tid \<noteq> [] \<and> t = tid \<and>
       (case tget (tree_table r) tid of None \<Rightarrow> e = ''tree not found''
        | Some x \<Rightarrow> t_status x \<noteq> T_ACTIVE \<and> e = ''tree is not active''))"
  using assms
proof (cases rule: register_process_cases [of r now os tid par role trace st mem h])
  case (refused e' t')
  with assms resolve_tree_refusal [OF refused(1)] show ?thesis by auto
qed auto

theorem register_process_refused_witness:
  "snd (register_process demo_registry 9 43 ''TREE_7'' 1000 ''tool'' ''t'' RUNNING 0 False) =
     demo_registry\<lparr>process_counter := process_counter demo_registry + 1\<rparr>"
proof -
  let ?x = "register_process demo_registry 9 43 ''TREE_7'' 1000 ''tool'' ''t'' RUNNING 0 False"
  have "?x = (Reg_Error ''tree not found'' ''TREE_7'', snd ?x)"
    by (simp add: register_process_def resolve_tree_def Let_def demo_registry_def)
  then show ?thesis by (rule register_process_refused [THEN conjunct1])
qed

text \<open>over any run of the registry the pids handed out are strictly increasing, so none is ever
  reused, and every one is a positive 32 bit integer of at least 1000.\<close>

theorem pids_never_reused:
  assumes "reg_run ProcessRegistry pids r"
  shows "sorted_wrt (<) pids \<and> (\<forall>pid\<in>set pids. 1000 \<le> pid \<and> pid \<le> INT_MAX)"
  using reg_run_pids [OF assms] by (auto simp: ProcessRegistry_def)

theorem pids_never_reused_witness: "sorted_wrt (<) [1000 :: int]"
proof -
  have "reg_run ProcessRegistry ([] @ (case Some 1000 of None \<Rightarrow> [] | Some pid \<Rightarrow> [pid])) demo_registry"
    by (rule run_step [OF run_refl st_core [OF demo_step]])
  then have "reg_run ProcessRegistry [1000] demo_registry" by simp
  then show ?thesis by (rule pids_never_reused [THEN conjunct1])
qed

text \<open>a process registered without a tree gets one that did not exist before, active, with the
  process as its root and no requests counted, and every existing tree stays as it was.\<close>

theorem new_tree_is_fresh:
  assumes "reach reg_init reg_moves r"
    and "register_process r now os [] par role trace st mem False = (Reg_Ok p t, r')"
  shows "tget (tree_table r) t = None \<and> get_tree_status r' t = (True, T_ACTIVE, p_pid p, 0) \<and>
    (\<forall>k. k \<noteq> t \<longrightarrow> tget (tree_table r') k = tget (tree_table r) k)"
proof -
  have "t = ''TREE_'' @ nat_digits (unat (tree_counter r))"
    using register_process_tree_id [OF assms(2)] by simp
  then have "tget (tree_table r) t = None"
    using tree_id_fresh [OF reg_ids.reach_inv [OF assms(1)]] by simp
  with register_process_new_tree [OF assms(2)] show ?thesis by (simp add: get_tree_status_def)
qed

theorem new_tree_is_fresh_witness:
  "get_tree_status demo_registry ''TREE_1'' = (True, T_ACTIVE, p_pid demo_process, 0)"
  using new_tree_is_fresh [OF demo_reach_init demo_register] by blast

text \<open>no step removes a tree other than the handler's, changes its creation time, or moves its
  status anywhere but forward in the order active, completed or failed, killed.\<close>

theorem tree_status_forward:
  assumes "reach reg_init reg_moves r" and "reg_step r out r'"
    and "k \<noteq> ''TREE_HANDLER''" and "tget (tree_table r) k = Some x"
  shows "\<exists>y. tget (tree_table r') k = Some y \<and> t_created_at_ms y = t_created_at_ms x \<and>
    (t_status y = t_status x \<or> status_rank (t_status x) < status_rank (t_status y))"
  using assms(2)
proof cases
  case st_core
  with core_step_forward [OF _ reg_ids.reach_inv [OF assms(1)] assms(3,4)] show ?thesis
    by (simp add: tree_forward_def)
qed (use assms(4) in \<open>simp add: store_dead_def\<close>)

theorem tree_status_forward_witness:
  "\<exists>y. tget (tree_table (snd (kill_tree demo_registry ''TREE_1''))) ''TREE_1'' = Some y \<and>
     t_created_at_ms y = 7 \<and> (t_status y = T_ACTIVE \<or> 0 < status_rank (t_status y))"
  using tree_status_forward [OF demo_reach st_core [OF st_kill_tree [of demo_registry "''TREE_1''"]],
      of "''TREE_1''"]
  by (simp add: demo_registry_def)



text \<open>C3: in a run that does not use the unlocked \<open>alive\<close> store, the processes listed for a tree
  are exactly its live processes, and their number is the tree's process count.\<close>

theorem tree_processes_exact:
  assumes "reach reg_init (\<lambda>r r'. \<exists>out. core_step r out r') r"
  shows "set (get_tree_processes r t) = {pid. live_map r pid = Some t} \<and>
    get_tree_process_count r t = card {pid. live_map r pid = Some t}"
proof -
  have inv: "registry_wf r \<and> index_exact r" using assms by (rule reg_exact.reach_inv)
  then have "set (get_tree_processes r t) = {pid. live_map r pid = Some t}"
    by (auto simp: index_exact_def)
  moreover have "get_tree_process_count r t = length (get_tree_processes r t)"
    by (simp add: get_tree_process_count_def get_tree_processes_def members_def split: option.splits)
  moreover have "distinct (get_tree_processes r t)"
    using inv by (simp add: get_tree_processes_def registry_wf_def members_distinct)
  ultimately show ?thesis by (metis distinct_card)
qed

theorem tree_processes_exact_witness:
  "set (get_tree_processes demo_registry ''TREE_1'') = {pid. live_map demo_registry pid = Some ''TREE_1''}"
proof -
  have "reach reg_init (\<lambda>r r'. \<exists>out. core_step r out r') demo_registry"
    using demo_step by (intro reach_step [OF reach_init]) (auto simp: reg_init_def)
  then show ?thesis by (rule tree_processes_exact [THEN conjunct1])
qed

end
