(* ===== verification/Termination_Engine.thy ===== *)
theory Termination_Engine
  imports Registry_Machine
begin

text \<open>
  \<^verbatim>\<open>core/termination_engine.hpp\<close> and \<^verbatim>\<open>core/termination_engine.cpp\<close>: the termination engine,
  which marks processes killed, notifies the bus and signals the operating system, and the
  watchdog engine, which decides from a registry snapshot whom to terminate. System calls and bus
  messages are an ordered list of effects; the result of \<open>kill(2)\<close> and the clock readings are
  arguments. The registry is used through an interface (\<open>process_directory\<close>) that only says which
  processes are live after each call.
\<close>

section \<open>The termination engine\<close>

record termination_target =
  tt_velix_pid :: int
  tt_os_pid :: int
  tt_tree_id :: string
  tt_trace_id :: string
  tt_parent_pid :: int

datatype effect =
    Bus_Message json
  | Os_Kill int int
  | Sleep_Ms int
  | Spawn_Handler string "string list"

definition kTerminateSignal :: int where
  "kTerminateSignal = 15"

definition kForcekillSignal :: int where
  "kForcekillSignal = 9"

definition ESRCH :: int where
  "ESRCH = 3"

text \<open>\<open>os_kill pid sig\<close> is \<open>None\<close> when the call succeeds and the value of \<open>errno\<close> otherwise.\<close>

definition send_signal_to_os_process ::
  "(int \<Rightarrow> int \<Rightarrow> int option) \<Rightarrow> int \<Rightarrow> int \<Rightarrow> bool \<times> effect list" where
  "send_signal_to_os_process os_kill os_pid signo =
     (if os_pid \<le> 0 then (False, [])
      else (case os_kill os_pid signo of
              Some errno \<Rightarrow> errno = ESRCH
            | None \<Rightarrow> True,
            [Os_Kill os_pid signo]))"

definition child_terminated_message :: "termination_target \<Rightarrow> string \<Rightarrow> json" where
  "child_terminated_message target reason =
     jobj [(''message_type'', JString ''CHILD_TERMINATED''),
           (''source_pid'', JInt 0),
           (''target_pid'', JInt (tt_parent_pid target)),
           (''trace_id'', JString (tt_trace_id target)),
           (''payload'',
            jobj [(''status'', JString ''error''),
                  (''error'', JString ''child_terminated''),
                  (''reason'', JString reason),
                  (''pid'', JInt (tt_velix_pid target))])]"

text \<open>Best effort: whether the bus can be reached changes nothing else.\<close>

definition notify_bus_child_terminated :: "termination_target \<Rightarrow> string \<Rightarrow> effect list" where
  "notify_bus_child_terminated target reason =
     (if tt_trace_id target = [] \<or> tt_parent_pid target \<le> 0 then []
      else [Bus_Message (child_terminated_message target reason)])"

text \<open>One pass of the loop; \<open>clock pid\<close> is the time at which \<open>pid\<close> is finally terminated.\<close>

definition kill_one ::
  "(int \<Rightarrow> int \<Rightarrow> int option) \<Rightarrow> (int \<Rightarrow> u64) \<Rightarrow> string \<Rightarrow> int \<Rightarrow> termination_target
     \<Rightarrow> effect list \<times> registry \<Rightarrow> effect list \<times> registry" where
  "kill_one os_kill clock reason grace target acc =
     (let (effs, r) = acc;
          r1 = mark_process_killed r (tt_velix_pid target);
          e1 = notify_bus_child_terminated target reason;
          e2 = (if tt_os_pid target > 0
                then snd (send_signal_to_os_process os_kill (tt_os_pid target) kTerminateSignal)
                else []);
          e3 = [Sleep_Ms grace];
          e4 = (if tt_os_pid target > 0
                then snd (send_signal_to_os_process os_kill (tt_os_pid target) kForcekillSignal)
                else []);
          r2 = terminate_process r1 (clock (tt_velix_pid target)) (tt_velix_pid target)
      in (effs @ e1 @ e2 @ e3 @ e4, r2))"

definition kill_processes ::
  "(int \<Rightarrow> int \<Rightarrow> int option) \<Rightarrow> (int \<Rightarrow> u64) \<Rightarrow> termination_target list \<Rightarrow> string \<Rightarrow> int
     \<Rightarrow> registry \<Rightarrow> effect list \<times> registry" where
  "kill_processes os_kill clock targets reason grace r =
     fold (kill_one os_kill clock reason grace) targets ([], r)"

section \<open>The watchdog engine\<close>

record watchdog_config =
  wc_heartbeat_timeout_sec :: int
  wc_max_tree_runtime_sec :: int
  wc_max_memory_per_tree_mb :: rat
  wc_max_llm_requests_per_tree :: int
  wc_watchdog_interval_ms :: int
  wc_terminate_grace_ms :: int
  wc_exempt_system_tree_limits :: bool

definition default_watchdog_config :: watchdog_config where
  "default_watchdog_config =
     \<lparr>wc_heartbeat_timeout_sec = 15, wc_max_tree_runtime_sec = 3600,
      wc_max_memory_per_tree_mb = 2048, wc_max_llm_requests_per_tree = 1000,
      wc_watchdog_interval_ms = 1000, wc_terminate_grace_ms = 1500,
      wc_exempt_system_tree_limits = True\<rparr>"

definition should_exempt_tree :: "watchdog_config \<Rightarrow> string \<Rightarrow> bool" where
  "should_exempt_tree cfg tree_id \<longleftrightarrow> tree_id = ''TREE_HANDLER''"

definition is_heartbeat_timeout :: "watchdog_config \<Rightarrow> watchdog_entry \<Rightarrow> u64 \<Rightarrow> bool" where
  "is_heartbeat_timeout cfg e now_ms \<longleftrightarrow>
     (let elapsed_ms = now_ms - w_last_heartbeat_ms e;
          timeout_ms = of_int (wc_heartbeat_timeout_sec cfg) * 1000
      in elapsed_ms > timeout_ms)"

definition is_tree_runtime_exceeded :: "watchdog_config \<Rightarrow> string \<Rightarrow> u64 \<Rightarrow> u64 \<Rightarrow> bool" where
  "is_tree_runtime_exceeded cfg tree_id tree_created_ms now_ms \<longleftrightarrow>
     (if wc_max_tree_runtime_sec cfg \<le> 0 then False
      else if should_exempt_tree cfg tree_id then False
      else now_ms - tree_created_ms > of_int (wc_max_tree_runtime_sec cfg) * 1000)"

definition is_tree_memory_exceeded :: "watchdog_config \<Rightarrow> registry \<Rightarrow> string \<Rightarrow> bool" where
  "is_tree_memory_exceeded cfg r tree_id \<longleftrightarrow>
     (if wc_max_memory_per_tree_mb cfg \<le> 0 then False
      else if should_exempt_tree cfg tree_id then False
      else compute_tree_memory_mb r tree_id > wc_max_memory_per_tree_mb cfg)"

definition is_tree_llm_limit_exceeded :: "watchdog_config \<Rightarrow> registry \<Rightarrow> string \<Rightarrow> bool" where
  "is_tree_llm_limit_exceeded cfg r tree_id \<longleftrightarrow>
     (if wc_max_llm_requests_per_tree cfg \<le> 0 then False
      else if should_exempt_tree cfg tree_id then False
      else if \<not> fst (get_tree_status r tree_id) then False
      else False)"

definition has_failure :: "watchdog_config \<Rightarrow> registry \<Rightarrow> u64 \<Rightarrow> watchdog_entry \<Rightarrow> bool" where
  "has_failure cfg r now_ms e \<longleftrightarrow>
     is_heartbeat_timeout cfg e now_ms \<or> is_tree_memory_exceeded cfg r (w_tree_id e) \<or>
     is_tree_llm_limit_exceeded cfg r (w_tree_id e)"

text \<open>\<open>pids_by_tree\<close> and \<open>failed_trees\<close>.\<close>

definition analyze_entry ::
  "watchdog_config \<Rightarrow> registry \<Rightarrow> u64 \<Rightarrow> watchdog_entry
     \<Rightarrow> (string, int list) table \<times> string uset \<Rightarrow> (string, int list) table \<times> string uset" where
  "analyze_entry cfg r now_ms e acc =
     (let (pids_by_tree, failed_trees) = acc
      in if has_failure cfg r now_ms e
         then (tput (w_tree_id e) (members pids_by_tree (w_tree_id e) @ [w_pid e]) pids_by_tree,
               uinsert (w_tree_id e) failed_trees)
         else (pids_by_tree, failed_trees))"

definition analyze_snapshot ::
  "watchdog_config \<Rightarrow> registry \<Rightarrow> u64 \<Rightarrow> watchdog_entry list
     \<Rightarrow> (string, int list) table \<times> string uset" where
  "analyze_snapshot cfg r now_ms snapshot = fold (analyze_entry cfg r now_ms) snapshot ([], [])"

text \<open>The targets of a list of pids, looked up again: only processes still alive.\<close>

definition live_target :: "registry \<Rightarrow> string \<Rightarrow> int \<Rightarrow> termination_target list" where
  "live_target r tree_id pid =
     (case get_process r pid of
        None \<Rightarrow> []
      | Some p \<Rightarrow> if p_alive p
                  then [\<lparr>tt_velix_pid = pid, tt_os_pid = p_os_pid p, tt_tree_id = tree_id,
                         tt_trace_id = p_trace_id p, tt_parent_pid = p_parent_pid p\<rparr>]
                  else [])"

definition live_targets :: "registry \<Rightarrow> string \<Rightarrow> int list \<Rightarrow> termination_target list" where
  "live_targets r tree_id pids = concat (map (live_target r tree_id) pids)"

definition build_targets :: "registry \<Rightarrow> (string, int list) table \<Rightarrow> termination_target list" where
  "build_targets r pids_by_tree =
     concat (map (\<lambda>(tree_id, pids). live_targets r tree_id pids) pids_by_tree)"

text \<open>One pass of the loop, after the sleep.\<close>

definition watchdog_iteration ::
  "watchdog_config \<Rightarrow> (int \<Rightarrow> int \<Rightarrow> int option) \<Rightarrow> (int \<Rightarrow> u64) \<Rightarrow> u64 \<Rightarrow> registry
     \<Rightarrow> effect list \<times> registry" where
  "watchdog_iteration cfg os_kill clock now_ms r =
     (let snapshot = snapshot_for_watchdog r;
          (pids_by_tree, failed_trees) = analyze_snapshot cfg r now_ms snapshot;
          r1 = fold (\<lambda>t r. mark_tree_failed r t) failed_trees r;
          targets = build_targets r1 pids_by_tree;
          (effs, r2) = (if targets \<noteq> []
                        then kill_processes os_kill clock targets ''watchdog_policy''
                               (wc_terminate_grace_ms cfg) r1
                        else ([], r1));
          r3 = fold (\<lambda>t r. snd (mark_tree_completed_if_done r t)) (get_all_tree_ids r2) r2
      in (effs, r3))"

section \<open>What the engine relies on\<close>

text \<open>The directory of processes as its clients see it: after a kill mark or a termination, exactly
  that process is no longer live.\<close>

locale process_directory =
  fixes live :: "'s \<Rightarrow> int \<Rightarrow> 't option"
    and mark_dead :: "int \<Rightarrow> 's \<Rightarrow> 's"
    and finish :: "'n \<Rightarrow> int \<Rightarrow> 's \<Rightarrow> 's"
    and ok :: "'s \<Rightarrow> bool"
  assumes live_mark: "live (mark_dead pid s) q = (if q = pid then None else live s q)"
    and live_finish: "live (finish now pid s) q = (if q = pid then None else live s q)"
    and ok_mark: "ok s \<Longrightarrow> ok (mark_dead pid s)"
    and ok_finish: "ok s \<Longrightarrow> ok (finish now pid s)"
begin

lemma live_sweep:
  "live (fold (\<lambda>pid s. finish (clock pid) pid (mark_dead pid s)) pids s) q =
     (if q \<in> set pids then None else live s q)"
  by (induction pids arbitrary: s) (auto simp: live_mark live_finish)

lemma ok_sweep: "ok s \<Longrightarrow> ok (fold (\<lambda>pid s. finish (clock pid) pid (mark_dead pid s)) pids s)"
  by (induction pids arbitrary: s) (auto simp: ok_mark ok_finish)

end

lemma live_map_mark_process_killed [simp]:
  "live_map (mark_process_killed r pid) = (live_map r)(pid := None)"
  by (auto simp: live_map_def mark_process_killed_def get_process_def fun_eq_iff split: option.splits)

interpretation dir: process_directory live_map "\<lambda>pid r. mark_process_killed r pid"
  "\<lambda>now pid r. terminate_process r now pid" registry_wf
  by unfold_locales (simp_all add: wf_mark_process_killed wf_terminate_process)

section \<open>Killing processes\<close>

definition target_effects :: "string \<Rightarrow> int \<Rightarrow> termination_target \<Rightarrow> effect list" where
  "target_effects reason grace target =
     notify_bus_child_terminated target reason @
     (if tt_os_pid target > 0 then [Os_Kill (tt_os_pid target) kTerminateSignal] else []) @
     [Sleep_Ms grace] @
     (if tt_os_pid target > 0 then [Os_Kill (tt_os_pid target) kForcekillSignal] else [])"

lemma kill_one_eq:
  "kill_one os_kill clock reason grace target (effs, r) =
     (effs @ target_effects reason grace target,
      terminate_process (mark_process_killed r (tt_velix_pid target)) (clock (tt_velix_pid target))
        (tt_velix_pid target))"
  by (simp add: kill_one_def target_effects_def send_signal_to_os_process_def Let_def)

lemma fold_kill_one:
  "fold (kill_one os_kill clock reason grace) targets (effs, r) =
     (effs @ concat (map (target_effects reason grace) targets),
      fold (\<lambda>pid r. terminate_process (mark_process_killed r pid) (clock pid) pid)
        (map tt_velix_pid targets) r)"
  by (induction targets arbitrary: effs r) (simp_all add: kill_one_eq)

lemma kill_processes_eq:
  "kill_processes os_kill clock targets reason grace r =
     (concat (map (target_effects reason grace) targets),
      fold (\<lambda>pid r. terminate_process (mark_process_killed r pid) (clock pid) pid)
        (map tt_velix_pid targets) r)"
  by (simp add: kill_processes_def fold_kill_one)

lemma live_kill_processes:
  "live_map (snd (kill_processes os_kill clock targets reason grace r)) q =
     (if q \<in> tt_velix_pid ` set targets then None else live_map r q)"
  by (simp add: kill_processes_eq dir.live_sweep)

lemma wf_kill_processes [inv_intros]:
  "registry_wf r \<Longrightarrow> registry_wf (snd (kill_processes os_kill clock targets reason grace r))"
  by (simp add: kill_processes_eq dir.ok_sweep)

lemma terminate_after_mark: "terminate_process (mark_process_killed r pid) now pid = mark_process_killed r pid"
  by (auto simp: terminate_process_def mark_process_killed_def get_process_def split: option.splits)

lemma kill_processes_registry:
  "snd (kill_processes os_kill clock targets reason grace r) =
     fold (\<lambda>pid r. mark_process_killed r pid) (map tt_velix_pid targets) r"
  by (simp add: kill_processes_eq terminate_after_mark)

lemma kill_processes_frame:
  "tree_table (snd (kill_processes os_kill clock targets reason grace r)) = tree_table r"
  "tree_process_index (snd (kill_processes os_kill clock targets reason grace r)) = tree_process_index r"
  "process_counter (snd (kill_processes os_kill clock targets reason grace r)) = process_counter r"
proof -
  have "tree_table (fold (\<lambda>pid r. mark_process_killed r pid) pids r) = tree_table r \<and>
      tree_process_index (fold (\<lambda>pid r. mark_process_killed r pid) pids r) = tree_process_index r \<and>
      process_counter (fold (\<lambda>pid r. mark_process_killed r pid) pids r) = process_counter r" for pids
    by (induction pids arbitrary: r) (auto simp: mark_process_killed_def split: option.splits)
  then show "tree_table (snd (kill_processes os_kill clock targets reason grace r)) = tree_table r"
    "tree_process_index (snd (kill_processes os_kill clock targets reason grace r)) = tree_process_index r"
    "process_counter (snd (kill_processes os_kill clock targets reason grace r)) = process_counter r"
    unfolding kill_processes_registry by blast+
qed

section \<open>Processes that are never cleaned up\<close>

text \<open>A process that is dead, has no termination time and is still indexed.\<close>

definition stranded :: "int \<Rightarrow> string \<Rightarrow> registry \<Rightarrow> bool" where
  "stranded pid t r \<longleftrightarrow>
     (\<exists>p. tget (process_table r) pid = Some p \<and> \<not> p_alive p \<and> p_termination_time_ms p = 0 \<and>
        p_tree_id p = t) \<and> pid \<in> set (get_tree_processes r t)"

lemma stranded_telemetry:
  "stranded pid t r \<Longrightarrow> telemetry_upd (process_table r) (process_table r') \<Longrightarrow>
     tree_process_index r' = tree_process_index r \<Longrightarrow> stranded pid t r'"
  unfolding stranded_def get_tree_processes_def telemetry_upd_def
  by (auto simp: option_rel_Some1 dest!: spec [of _ pid])

lemma telemetry_steps:
  "telemetry_upd (process_table r) (process_table (heartbeat_stores r q st mem now))"
  "telemetry_upd (process_table r) (process_table (store_dead r q))"
  "telemetry_upd (process_table r) (process_table (mark_process_killed r q))"
  "telemetry_upd (process_table r) (process_table (snd (kill_tree r u)))"
  by (auto simp: heartbeat_stores_def store_dead_def mark_process_killed_def kill_tree_def Let_def
      intro!: telemetry_upd_tmodify telemetry_upd_fold telemetry_upd_refl split: option.splits)

lemma process_table_frame:
  "process_table (snd (create_tree r now eid)) = process_table r"
  "process_table (increment_llm_request r u) = process_table r"
  "process_table (snd (mark_tree_completed_if_done r u)) = process_table r"
  "process_table (mark_tree_failed r u) = process_table r"
  by (auto simp: create_tree_def create_tree_locked_def increment_llm_request_def Let_def
      mark_tree_completed_if_done_def mark_tree_failed_def split: option.splits)

lemma stranded_frame:
  "stranded pid t (snd (create_tree r now eid)) = stranded pid t r"
  "stranded pid t (increment_llm_request r u) = stranded pid t r"
  "stranded pid t (snd (mark_tree_completed_if_done r u)) = stranded pid t r"
  "stranded pid t (mark_tree_failed r u) = stranded pid t r"
  by (simp_all add: stranded_def get_tree_processes_def process_table_frame index_frame)

lemma stranded_terminate: "stranded pid t r \<Longrightarrow> stranded pid t (terminate_process r now q)"
  by (auto simp: stranded_def terminate_process_def on_process_terminal_unlocked_def Let_def
      get_tree_processes_def split: option.splits)

lemma stranded_cleanup:
  "registry_wf r \<Longrightarrow> stranded pid t r \<Longrightarrow> stranded pid t (cleanup_historical_processes r now ret)"
  by (auto simp: stranded_def cleanup_historical_processes_def get_tree_processes_def
      tget_filter [OF wf_tablesD(1)] expired_def)

lemma stranded_register:
  assumes wf: "registry_wf r" and st: "stranded pid t r"
    and reg: "register_process r now os tid par role trace st mem h = (res, r')"
  shows "stranded pid t r'"
proof (cases res)
  case (Reg_Ok p t')
  with st counter_not_in_table [OF wf]
    register_process_added [of r now os tid par role trace st mem h p t' r'] reg
  show ?thesis by (auto simp: stranded_def get_tree_processes_def)
next
  case (Reg_Error e t')
  with reg st show ?thesis
    by (cases rule: register_process_cases [of r now os tid par role trace st mem h])
      (auto simp: stranded_def get_tree_processes_def)
qed

lemma stranded_step: "reg_step r out r' \<Longrightarrow> registry_wf r \<Longrightarrow> stranded pid t r \<Longrightarrow> stranded pid t r'"
proof (induction rule: reg_step.induct)
  case (st_store_dead r q)
  show ?case by (rule stranded_telemetry [OF st_store_dead(2) telemetry_steps(2)]) (simp add: store_dead_def)
next
  case (st_core r out r')
  then show ?case
  proof (induction rule: core_step.induct)
    case (st_register r now os tid par role trace st mem h res r')
    then show ?case by (blast intro: stranded_register)
  qed (auto intro: stranded_telemetry telemetry_steps stranded_terminate stranded_cleanup
      simp: index_frame stranded_frame)
qed

lemma stranded_run:
  "reg_run r pids r' \<Longrightarrow> registry_wf r \<Longrightarrow> stranded pid t r \<Longrightarrow> registry_wf r' \<and> stranded pid t r'"
  by (induction rule: reg_run.induct) (auto intro: wf_reg_step stranded_step)

lemma kill_strands:
  assumes "registry_wf r" and "live_map r (tt_velix_pid target) = Some t"
    and "target \<in> set targets"
  shows "stranded (tt_velix_pid target) t (snd (kill_processes os_kill clock targets reason grace r))"
proof -
  let ?pid = "tt_velix_pid target"
  let ?k = "snd (kill_processes os_kill clock targets reason grace r)"
  obtain p where p: "tget (process_table r) ?pid = Some p" "p_alive p" "p_tree_id p = t"
    using assms(2) by (auto simp: live_map_def split: option.splits if_splits)
  then have idx: "?pid \<in> set (get_tree_processes r t)"
    using assms(1) by (auto simp: registry_wf_def index_complete_def get_tree_processes_def)
  then have "p_termination_time_ms p = 0"
    using assms(1) p unfolding registry_wf_def index_sound_def get_tree_processes_def
    by (metis option.inject)
  have upd: "telemetry_upd (process_table r) (process_table ?k)"
  proof -
    have "telemetry_upd (process_table s) (process_table (fold (\<lambda>pid r. mark_process_killed r pid) ps s))"
      for ps s
      by (induction ps arbitrary: s)
        (auto intro: telemetry_upd_refl telemetry_upd_trans telemetry_steps(3))
    then show ?thesis unfolding kill_processes_registry .
  qed
  obtain p' where p': "tget (process_table ?k) ?pid = Some p'" "p_tree_id p' = t"
    "p_termination_time_ms p' = 0"
    using telemetry_upd_Some' [OF upd p(1)] p \<open>p_termination_time_ms p = 0\<close> by metis
  have "live_map ?k ?pid = None"
    using assms(3) by (simp add: live_kill_processes)
  then have "\<not> p_alive p'" using p' by (auto simp: live_map_def split: if_splits)
  with p' idx show ?thesis
    by (auto simp: stranded_def get_tree_processes_def kill_processes_frame)
qed

section \<open>Timeouts\<close>

lemma uint_diff_64: "uint b \<le> uint a \<Longrightarrow> uint (a - b :: u64) = uint a - uint b"
  by (simp add: uint_sub_if')

lemma uint_diff_wrap_64: "uint a < uint b \<Longrightarrow> uint (a - b :: u64) = uint a - uint b + 2 ^ 64"
  by (simp add: uint_sub_if' word_size)

lemma uint_seconds_ms:
  assumes "0 \<le> s" and "s \<le> INT_MAX"
  shows "uint (of_int s * 1000 :: u64) = s * 1000"
proof -
  have "(of_int s * 1000 :: u64) = word_of_int (s * 1000)" by simp
  moreover have "uint (word_of_int (s * 1000) :: u64) = s * 1000"
    by (subst uint_word_of_int) (use assms in simp)
  ultimately show ?thesis by metis
qed

lemma seconds_ms_less:
  assumes "0 \<le> s" and "s \<le> INT_MAX"
  shows "(of_int s * 1000 :: u64) < d \<longleftrightarrow> s * 1000 < uint d"
  by (simp only: word_less_def uint_seconds_ms [OF assms])

section \<open>The watchdog's choice\<close>

lemma analyze_entries:
  assumes "fold (analyze_entry cfg r now) snapshot (m0, f0) = (m, f)" and "table_ok m0"
  shows "table_ok m \<and> set (members m t) = set (members m0 t) \<union>
    {w_pid e |e. e \<in> set snapshot \<and> has_failure cfg r now e \<and> w_tree_id e = t}"
  using assms
proof (induction snapshot arbitrary: m0 f0)
  case (Cons e es)
  then show ?case
    by (cases "has_failure cfg r now e") (auto simp: members_def analyze_entry_def)
qed simp

lemma members_in_table: "x \<in> set (members m t) \<longleftrightarrow> (\<exists>s. tget m t = Some s \<and> x \<in> set s)"
  by (cases "tget m t") (auto simp: members_def)

lemma fold_mark_failed_frame:
  "process_table (fold (\<lambda>t r. mark_tree_failed r t) ts r) = process_table r"
  by (induction ts arbitrary: r) (simp_all add: process_table_frame)

lemma fold_mark_completed_frame:
  "process_table (fold (\<lambda>t r. snd (mark_tree_completed_if_done r t)) ts r) = process_table r"
  by (induction ts arbitrary: r) (simp_all add: process_table_frame)

lemma live_fold_completed [simp]:
  "live_map (fold (\<lambda>t r. snd (mark_tree_completed_if_done r t)) ts r) = live_map r"
  by (rule live_map_cong) (rule fold_mark_completed_frame)

lemma kill_processes_Nil [simp]: "kill_processes os_kill clock [] reason grace r = ([], r)"
  by (simp add: kill_processes_def)

lemma pid_in_live_targets:
  "pid \<in> tt_velix_pid ` set (live_targets r t pids) \<longleftrightarrow> pid \<in> set pids \<and> live_map r pid \<noteq> None"
proof -
  have one: "pid \<in> tt_velix_pid ` set (live_target r t q) \<longleftrightarrow> pid = q \<and> live_map r q \<noteq> None" for q
    by (auto simp: live_target_def live_map_def get_process_def split: option.splits)
  have "tt_velix_pid ` set (live_targets r t pids) = (\<Union>q\<in>set pids. tt_velix_pid ` set (live_target r t q))"
    by (auto simp: live_targets_def)
  then show ?thesis using one by auto
qed

definition watchdog_entry_of :: "registry \<Rightarrow> int \<Rightarrow> process_info \<Rightarrow> watchdog_entry" where
  "watchdog_entry_of r pid p =
     \<lparr>w_pid = pid, w_os_pid = p_os_pid p, w_tree_id = p_tree_id p,
      w_parent_pid = p_parent_pid p, w_trace_id = p_trace_id p,
      w_last_heartbeat_ms = p_last_heartbeat_ms p,
      w_tree_created_at_ms =
        (case tget (tree_table r) (p_tree_id p) of None \<Rightarrow> 0 | Some t \<Rightarrow> t_created_at_ms t),
      w_memory_mb = p_memory_mb p, w_status = p_status p, w_alive = True\<rparr>"

lemma watchdog_entry_of_simps [simp]:
  "w_pid (watchdog_entry_of r pid p) = pid"
  "w_os_pid (watchdog_entry_of r pid p) = p_os_pid p"
  "w_tree_id (watchdog_entry_of r pid p) = p_tree_id p"
  "w_last_heartbeat_ms (watchdog_entry_of r pid p) = p_last_heartbeat_ms p"
  by (simp_all add: watchdog_entry_of_def)

lemma snapshot_iff:
  assumes "registry_wf r"
  shows "e \<in> set (snapshot_for_watchdog r) \<longleftrightarrow>
    (\<exists>pid p. tget (process_table r) pid = Some p \<and> p_alive p \<and> e = watchdog_entry_of r pid p)"
  using in_table_tget [OF wf_tablesD(1) [OF assms]]
  by (fastforce simp: snapshot_for_watchdog_def watchdog_entry_of_def)

lemma watchdog_targets:
  assumes wf: "registry_wf r"
    and an: "analyze_snapshot cfg r now (snapshot_for_watchdog r) = (m, f)"
    and same: "live_map r1 = live_map r"
  shows "pid \<in> tt_velix_pid ` set (build_targets r1 m) \<longleftrightarrow>
    (\<exists>p. tget (process_table r) pid = Some p \<and> p_alive p \<and>
         has_failure cfg r now (watchdog_entry_of r pid p))"
proof -
  note an' = analyze_entries [OF an [unfolded analyze_snapshot_def] table_ok_Nil]
  have keys: "table_ok m" using an' by blast
  have mem: "q \<in> set (members m t) \<longleftrightarrow>
      (\<exists>p. tget (process_table r) q = Some p \<and> p_alive p \<and> p_tree_id p = t \<and>
         has_failure cfg r now (watchdog_entry_of r q p))" for q t
    using an' [of t]
    by (auto simp: snapshot_iff [OF wf]) (metis watchdog_entry_of_simps(1,3))
  have "pid \<in> tt_velix_pid ` set (build_targets r1 m) \<longleftrightarrow>
      (\<exists>t pids. (t, pids) \<in> set m \<and> pid \<in> tt_velix_pid ` set (live_targets r1 t pids))"
    by (force simp: build_targets_def)
  also have "\<dots> \<longleftrightarrow> (\<exists>t. pid \<in> set (members m t)) \<and> live_map r pid \<noteq> None"
    unfolding pid_in_live_targets same members_in_table in_table_tget [OF keys] by blast
  finally show ?thesis
    by (auto simp: mem) (auto simp: live_map_def)
qed

lemma watchdog_iteration_live:
  assumes wf: "registry_wf r"
  shows "live_map (snd (watchdog_iteration cfg os_kill clock now r)) pid =
    (case tget (process_table r) pid of
       None \<Rightarrow> None
     | Some p \<Rightarrow> if p_alive p \<and> \<not> has_failure cfg r now (watchdog_entry_of r pid p)
                 then Some (p_tree_id p) else None)"
proof -
  obtain m f where an: "analyze_snapshot cfg r now (snapshot_for_watchdog r) = (m, f)"
    by (cases "analyze_snapshot cfg r now (snapshot_for_watchdog r)")
  let ?r1 = "fold (\<lambda>t r. mark_tree_failed r t) f r"
  let ?ts = "build_targets ?r1 m"
  have same: "live_map ?r1 = live_map r" by (rule live_map_cong) (rule fold_mark_failed_frame)
  have "live_map (snd (watchdog_iteration cfg os_kill clock now r)) pid =
      live_map (snd (kill_processes os_kill clock ?ts ''watchdog_policy'' (wc_terminate_grace_ms cfg) ?r1)) pid"
    by (cases "?ts = []")
      (simp_all add: watchdog_iteration_def an Let_def case_prod_unfold)
  also have "\<dots> = (if pid \<in> tt_velix_pid ` set ?ts then None else live_map r pid)"
    by (simp add: live_kill_processes same)
  finally show ?thesis
    unfolding watchdog_targets [OF wf an same] by (auto simp: live_map_def split: option.splits)
qed

section \<open>Properties\<close>

text \<open>killing a list of processes leaves none of them live, leaves every other process live or
  dead as it was, keeps the registry well formed, and performs for each target in order the bus
  notification (when it has a trace and a parent), the terminate signal, the grace period and the
  kill signal (signals only for a positive OS pid).\<close>

theorem kill_processes_correct:
  assumes "registry_wf r"
    and "kill_processes os_kill clock targets reason grace r = (effs, r')"
  shows "registry_wf r' \<and>
    (\<forall>q. live_map r' q = (if q \<in> tt_velix_pid ` set targets then None else live_map r q)) \<and>
    effs = concat (map (\<lambda>t.
      (if tt_trace_id t \<noteq> [] \<and> 0 < tt_parent_pid t
       then [Bus_Message (child_terminated_message t reason)] else []) @
      (if 0 < tt_os_pid t then [Os_Kill (tt_os_pid t) 15] else []) @ [Sleep_Ms grace] @
      (if 0 < tt_os_pid t then [Os_Kill (tt_os_pid t) 9] else [])) targets)"
proof -
  have r': "r' = snd (kill_processes os_kill clock targets reason grace r)"
    and effs: "effs = concat (map (target_effects reason grace) targets)"
    using assms(2) by (simp_all add: kill_processes_eq)
  have "target_effects reason grace = (\<lambda>t.
      (if tt_trace_id t \<noteq> [] \<and> 0 < tt_parent_pid t
       then [Bus_Message (child_terminated_message t reason)] else []) @
      (if 0 < tt_os_pid t then [Os_Kill (tt_os_pid t) 15] else []) @ [Sleep_Ms grace] @
      (if 0 < tt_os_pid t then [Os_Kill (tt_os_pid t) 9] else []))"
    by (auto simp: target_effects_def notify_bus_child_terminated_def kTerminateSignal_def
        kForcekillSignal_def fun_eq_iff)
  with effs show ?thesis
    unfolding r' using wf_kill_processes [OF assms(1)] by (simp add: live_kill_processes)
qed

definition demo_target :: termination_target where
  "demo_target = \<lparr>tt_velix_pid = 1000, tt_os_pid = 42, tt_tree_id = ''TREE_1'', tt_trace_id = ''t'',
     tt_parent_pid = -1\<rparr>"

theorem kill_processes_correct_witness:
  "live_map (snd (kill_processes (\<lambda>_ _. None) (\<lambda>_. 9) [demo_target] ''x'' 10 demo_registry)) 1000 = None"
  using kill_processes_correct
    [OF demo_wf surjective_pairing, of "\<lambda>_ _. None" "\<lambda>_. 9" "[demo_target]" "''x''" 10]
  by (simp add: demo_target_def)

text \<open>a live process that the engine kills is stranded for good: in every later state, whatever
  the registry is asked to do, its record is still in the process table with no termination time,
  its pid is still listed in its tree's index, and its tree is never marked completed. (The kill
  mark clears the flag that \<open>terminate_process\<close> tests, so the removal it is meant to do never
  happens.)\<close>

theorem killed_process_is_never_removed:
  assumes "registry_wf r" and "live_map r (tt_velix_pid target) = Some t"
    and "target \<in> set targets"
    and "reg_run (snd (kill_processes os_kill clock targets reason grace r)) pids r'"
  shows "(\<exists>p. get_process r' (tt_velix_pid target) = Some p \<and> p_termination_time_ms p = 0) \<and>
    tt_velix_pid target \<in> set (get_tree_processes r' t) \<and>
    fst (mark_tree_completed_if_done r' t) = False"
proof -
  let ?pid = "tt_velix_pid target"
  have "stranded ?pid t (snd (kill_processes os_kill clock targets reason grace r))"
    using assms(1-3) by (rule kill_strands)
  with stranded_run [OF assms(4) wf_kill_processes [OF assms(1)]] have st: "stranded ?pid t r'"
    by blast
  then show ?thesis
    by (auto simp: stranded_def get_process_def get_tree_processes_def
        mark_tree_completed_if_done_def split: option.splits)
qed

theorem killed_process_is_never_removed_witness:
  "1000 \<in> set (get_tree_processes
     (snd (kill_processes (\<lambda>_ _. None) (\<lambda>_. 9) [demo_target] ''x'' 10 demo_registry)) ''TREE_1'')"
proof -
  have "live_map demo_registry (tt_velix_pid demo_target) = Some ''TREE_1''"
    by (simp add: live_map_def demo_registry_def demo_target_def demo_process_def make_process_def)
  from killed_process_is_never_removed [OF demo_wf this _ run_refl, of "[demo_target]"]
  show ?thesis by (simp add: demo_target_def)
qed

text \<open>a heartbeat counts as timed out, when it is not later than the watchdog's clock reading,
  exactly if more than the configured number of seconds passed since it; a heartbeat later than the
  reading always counts as timed out, because the unsigned difference wraps around.\<close>

theorem heartbeat_timeout_exact:
  assumes "0 \<le> wc_heartbeat_timeout_sec cfg" and "wc_heartbeat_timeout_sec cfg \<le> INT_MAX"
    and "uint (w_last_heartbeat_ms e) < 2 ^ 63"
  shows "is_heartbeat_timeout cfg e now \<longleftrightarrow>
    uint now - uint (w_last_heartbeat_ms e) > wc_heartbeat_timeout_sec cfg * 1000 \<or>
    uint now < uint (w_last_heartbeat_ms e)"
proof -
  let ?last = "w_last_heartbeat_ms e"
  have iff: "is_heartbeat_timeout cfg e now \<longleftrightarrow>
      wc_heartbeat_timeout_sec cfg * 1000 < uint (now - ?last)"
    unfolding is_heartbeat_timeout_def Let_def by (rule seconds_ms_less [OF assms(1,2)])
  show ?thesis
  proof (cases "uint ?last \<le> uint now")
    case True
    with iff uint_diff_64 show ?thesis by auto
  next
    case False
    then have wrap: "uint (now - ?last) = uint now - uint ?last + 2 ^ 64"
      by (intro uint_diff_wrap_64) simp
    have "(2 :: int) ^ 64 = 2 ^ 63 + 2 ^ 63" "INT_MAX * 1000 < (2 :: int) ^ 63" by simp_all
    with assms uint_ge_0 [of now] wrap
    have "wc_heartbeat_timeout_sec cfg * 1000 < uint (now - ?last)" by linarith
    with iff False show ?thesis by linarith
  qed
qed

theorem heartbeat_timeout_exact_witness:
  "is_heartbeat_timeout default_watchdog_config
     (watchdog_entry_of demo_registry 1000 (demo_process\<lparr>p_last_heartbeat_ms := 20001\<rparr>)) 20000"
proof -
  let ?e = "watchdog_entry_of demo_registry 1000 (demo_process\<lparr>p_last_heartbeat_ms := 20001\<rparr>)"
  have "uint (w_last_heartbeat_ms ?e) = 20001" by simp
  then show ?thesis
    using heartbeat_timeout_exact [of default_watchdog_config ?e 20000]
    by (simp add: default_watchdog_config_def)
qed

text \<open>one pass of the watchdog engine kills exactly the live processes whose snapshot entry
  shows a failure (heartbeat timeout, or a tree over its memory limit), and no process becomes
  live.\<close>

theorem watchdog_kills_exactly_failures:
  assumes "registry_wf r"
  shows "live_map (snd (watchdog_iteration cfg os_kill clock now r)) pid = Some t \<longleftrightarrow>
    (\<exists>p. get_process r pid = Some p \<and> p_alive p \<and> p_tree_id p = t \<and>
       \<not> is_heartbeat_timeout cfg (watchdog_entry_of r pid p) now \<and>
       (t = ''TREE_HANDLER'' \<or> wc_max_memory_per_tree_mb cfg \<le> 0 \<or>
        compute_tree_memory_mb r t \<le> wc_max_memory_per_tree_mb cfg))"
  by (auto simp: watchdog_iteration_live [OF assms] get_process_def has_failure_def
      is_tree_memory_exceeded_def is_tree_llm_limit_exceeded_def should_exempt_tree_def not_less
      split: option.splits if_splits)

theorem watchdog_kills_exactly_failures_witness:
  "live_map (snd (watchdog_iteration default_watchdog_config (\<lambda>_ _. None) (\<lambda>_. 9) 100 demo_registry))
     1000 = Some ''TREE_1''"
  unfolding watchdog_kills_exactly_failures [OF demo_wf]
  by (simp add: get_process_def demo_registry_def demo_process_def make_process_def
      is_heartbeat_timeout_def Let_def default_watchdog_config_def compute_tree_memory_mb_def
      members_def)

end
