(* ===== verification/Supervisor.thy ===== *)
theory Supervisor
  imports Termination_Engine
begin

text \<open>
  \<^verbatim>\<open>core/supervisor.cpp\<close>: configuration, validation and dispatch of the messages that
  processes send to the supervisor, the watchdog pass that enforces heartbeats and tree limits,
  the conversation time-to-live sweep, and the restart of the handler process. The state is a
  record with the registry and the service's own fields. Every handler returns its reply or the
  exception it raises, the effects it has outside the process, and the new state. The clock
  readings and the results of \<open>kill\<close>, \<open>waitpid\<close> and \<open>fork\<close> are arguments. The POSIX branch of
  the source is modelled.
\<close>

section \<open>Configuration\<close>

definition ends_with_exe_case_insensitive :: "string \<Rightarrow> bool" where
  "ends_with_exe_case_insensitive v =
     (if length v < 4 then False
      else let start = length v - 4
           in tolower (v ! start) = CHR ''.'' \<and> tolower (v ! (start + 1)) = CHR ''e'' \<and>
              tolower (v ! (start + 2)) = CHR ''x'' \<and> tolower (v ! (start + 3)) = CHR ''e'')"

definition looks_like_path :: "string \<Rightarrow> bool" where
  "looks_like_path v =
     (if v = [] then False
      else prefix ''./'' v \<or> prefix ''../'' v \<or> prefix ''/'' v \<or> CHR ''/'' \<in> set v \<or>
           CHR 0x5C \<in> set v)"

definition normalize_binary_path_for_platform :: "string \<Rightarrow> string" where
  "normalize_binary_path_for_platform p =
     (if \<not> looks_like_path p then p
      else if ends_with_exe_case_insensitive p then take (length p - 4) p
      else p)"

record supervisor_config =
  c_heartbeat_timeout_sec :: int
  c_watchdog_interval_ms :: int
  c_terminate_grace_ms :: int
  c_max_client_threads :: int
  c_max_message_bytes :: u64
  c_require_auth_token :: bool
  c_auth_token :: string
  c_exempt_system_tree_limits :: bool
  c_max_processes_per_tree :: int
  c_max_tree_runtime_sec :: int
  c_max_memory_per_tree_mb :: rat
  c_max_llm_requests_per_tree :: int
  c_conversation_enabled :: bool
  c_max_active_process_convos_per_pid :: int
  c_process_convo_ttl_sec :: int
  c_handler_binary :: string
  c_handler_args :: "string list"
  c_handler_auto_restart :: bool
  c_handler_restart_delay_ms :: int

definition SupervisorConfig :: supervisor_config where
  "SupervisorConfig =
     \<lparr>c_heartbeat_timeout_sec = 15, c_watchdog_interval_ms = 1000, c_terminate_grace_ms = 1500,
      c_max_client_threads = 256, c_max_message_bytes = 1048576, c_require_auth_token = False,
      c_auth_token = [], c_exempt_system_tree_limits = True, c_max_processes_per_tree = 64,
      c_max_tree_runtime_sec = 3600, c_max_memory_per_tree_mb = 2048,
      c_max_llm_requests_per_tree = 1000, c_conversation_enabled = True,
      c_max_active_process_convos_per_pid = 100, c_process_convo_ttl_sec = 86400,
      c_handler_binary = [], c_handler_args = [], c_handler_auto_restart = True,
      c_handler_restart_delay_ms = 2000\<rparr>"

text \<open>\<open>get<std::size_t>()\<close>.\<close>

fun as_size :: "json \<Rightarrow> u64 res" where
  "as_size (JInt i) = Inr (word_of_int i)"
| "as_size (JFloat r) = Inr (word_of_int (trunc_rat r))"
| "as_size j = Inl (type_error_302 ''number'' j)"

text \<open>\<open>config.field = j.value(key, config.field)\<close>.\<close>

definition cfg_field ::
  "(json \<Rightarrow> 'a res) \<Rightarrow> json res \<Rightarrow> string \<Rightarrow> (supervisor_config \<Rightarrow> 'a)
     \<Rightarrow> ('a \<Rightarrow> supervisor_config \<Rightarrow> supervisor_config) \<Rightarrow> supervisor_config \<Rightarrow> supervisor_config res" where
  "cfg_field conv j key get upd c =
     rbind j (\<lambda>ob. rbind (jvalue conv ob key (get c)) (\<lambda>v. Inr (upd v c)))"

definition handler_args_step :: "json res \<Rightarrow> supervisor_config \<Rightarrow> supervisor_config res" where
  "handler_args_step j c =
     rbind j (\<lambda>h. case jget h ''args'' of
        Some (JArray xs) \<Rightarrow>
          Inr (c\<lparr>c_handler_args := c_handler_args c @
             concat (map (\<lambda>a. case a of JString s \<Rightarrow> [s] | _ \<Rightarrow> []) xs)\<rparr>)
      | _ \<Rightarrow> Inr c)"

text \<open>The assignments of \<open>load_supervisor_config\<close> in order.\<close>

definition config_steps :: "json \<Rightarrow> (supervisor_config \<Rightarrow> supervisor_config res) list" where
  "config_steps cfg =
     (let top = Inr cfg;
          limits = jvalue as_json cfg ''limits'' (jobj []);
          convo = jvalue as_json cfg ''conversation'' (jobj []);
          hcfg = jvalue as_json cfg ''handler'' (jobj [])
      in [cfg_field as_int top ''heartbeat_timeout_sec'' c_heartbeat_timeout_sec
            (\<lambda>v c. c\<lparr>c_heartbeat_timeout_sec := v\<rparr>),
          cfg_field as_int top ''watchdog_interval_ms'' c_watchdog_interval_ms
            (\<lambda>v c. c\<lparr>c_watchdog_interval_ms := v\<rparr>),
          cfg_field as_int top ''terminate_grace_ms'' c_terminate_grace_ms
            (\<lambda>v c. c\<lparr>c_terminate_grace_ms := v\<rparr>),
          cfg_field as_int top ''max_client_threads'' c_max_client_threads
            (\<lambda>v c. c\<lparr>c_max_client_threads := v\<rparr>),
          cfg_field as_size top ''max_message_bytes'' c_max_message_bytes
            (\<lambda>v c. c\<lparr>c_max_message_bytes := v\<rparr>),
          cfg_field as_bool top ''require_auth_token'' c_require_auth_token
            (\<lambda>v c. c\<lparr>c_require_auth_token := v\<rparr>),
          cfg_field as_string top ''auth_token'' c_auth_token (\<lambda>v c. c\<lparr>c_auth_token := v\<rparr>),
          cfg_field as_bool top ''exempt_system_tree_limits'' c_exempt_system_tree_limits
            (\<lambda>v c. c\<lparr>c_exempt_system_tree_limits := v\<rparr>),
          cfg_field as_int limits ''max_processes_per_tree'' c_max_processes_per_tree
            (\<lambda>v c. c\<lparr>c_max_processes_per_tree := v\<rparr>),
          cfg_field as_int limits ''max_tree_runtime_sec'' c_max_tree_runtime_sec
            (\<lambda>v c. c\<lparr>c_max_tree_runtime_sec := v\<rparr>),
          cfg_field as_double limits ''max_memory_per_tree_mb'' c_max_memory_per_tree_mb
            (\<lambda>v c. c\<lparr>c_max_memory_per_tree_mb := v\<rparr>),
          cfg_field as_int limits ''max_llm_requests_per_tree'' c_max_llm_requests_per_tree
            (\<lambda>v c. c\<lparr>c_max_llm_requests_per_tree := v\<rparr>),
          cfg_field as_bool convo ''enabled'' c_conversation_enabled
            (\<lambda>v c. c\<lparr>c_conversation_enabled := v\<rparr>),
          cfg_field as_int convo ''max_active_process_convos_per_pid''
            c_max_active_process_convos_per_pid
            (\<lambda>v c. c\<lparr>c_max_active_process_convos_per_pid := v\<rparr>),
          cfg_field as_int convo ''process_convo_ttl_sec'' c_process_convo_ttl_sec
            (\<lambda>v c. c\<lparr>c_process_convo_ttl_sec := v\<rparr>),
          cfg_field as_string hcfg ''binary'' c_handler_binary
            (\<lambda>v c. c\<lparr>c_handler_binary := normalize_binary_path_for_platform v\<rparr>),
          cfg_field as_bool hcfg ''auto_restart'' c_handler_auto_restart
            (\<lambda>v c. c\<lparr>c_handler_auto_restart := v\<rparr>),
          cfg_field as_int hcfg ''restart_delay_ms'' c_handler_restart_delay_ms
            (\<lambda>v c. c\<lparr>c_handler_restart_delay_ms := v\<rparr>),
          handler_args_step hcfg])"

text \<open>An exception ends the assignments; what was assigned before it stays.\<close>

fun run_config_steps ::
  "(supervisor_config \<Rightarrow> supervisor_config res) list \<Rightarrow> supervisor_config \<Rightarrow> supervisor_config" where
  "run_config_steps [] c = c"
| "run_config_steps (f # fs) c =
     (case f c of Inl e \<Rightarrow> c | Inr c' \<Rightarrow> run_config_steps fs c')"

text \<open>The file: absent, not JSON, or its value.\<close>

definition load_supervisor_config :: "json res option \<Rightarrow> supervisor_config" where
  "load_supervisor_config file =
     (case file of
        None \<Rightarrow> SupervisorConfig
      | Some (Inl e) \<Rightarrow> SupervisorConfig
      | Some (Inr cfg) \<Rightarrow> run_config_steps (config_steps cfg) SupervisorConfig)"

section \<open>Status texts\<close>

fun to_string :: "process_status \<Rightarrow> string" where
  "to_string STARTING = ''STARTING''"
| "to_string RUNNING = ''RUNNING''"
| "to_string WAITING_LLM = ''WAITING_LLM''"
| "to_string WAITING_EXEC = ''WAITING_EXEC''"
| "to_string FINISHED = ''FINISHED''"
| "to_string ERROR = ''ERROR''"
| "to_string KILLED = ''KILLED''"

fun to_string_tree :: "tree_status \<Rightarrow> string" where
  "to_string_tree T_ACTIVE = ''ACTIVE''"
| "to_string_tree T_COMPLETED = ''COMPLETED''"
| "to_string_tree T_FAILED = ''FAILED''"
| "to_string_tree T_KILLED = ''KILLED''"

definition parse_process_status :: "string \<Rightarrow> process_status" where
  "parse_process_status s =
     (if s = ''STARTING'' then STARTING
      else if s = ''RUNNING'' then RUNNING
      else if s = ''WAITING_LLM'' then WAITING_LLM
      else if s = ''WAITING_EXEC'' then WAITING_EXEC
      else if s = ''FINISHED'' then FINISHED
      else if s = ''KILLED'' then KILLED
      else ERROR)"

definition is_valid_process_status_text :: "string \<Rightarrow> bool" where
  "is_valid_process_status_text s \<longleftrightarrow>
     s = ''STARTING'' \<or> s = ''RUNNING'' \<or> s = ''WAITING_LLM'' \<or> s = ''WAITING_EXEC'' \<or>
     s = ''FINISHED'' \<or> s = ''ERROR'' \<or> s = ''KILLED''"

definition is_terminal_status :: "process_status \<Rightarrow> bool" where
  "is_terminal_status s \<longleftrightarrow> s = FINISHED \<or> s = KILLED \<or> s = ERROR"

definition is_limit_enabled :: "int \<Rightarrow> bool" where
  "is_limit_enabled v \<longleftrightarrow> v > 0"

definition is_expected_disconnect_error :: "string \<Rightarrow> bool" where
  "is_expected_disconnect_error err \<longleftrightarrow>
     str_contains err ''Broken pipe'' \<or> str_contains err ''connection closed'' \<or>
     str_contains err ''Connection reset'' \<or> str_contains err ''errno 32'' \<or>
     str_contains err ''errno 104''"

section \<open>State\<close>

record conv_metadata =
  m_convo_id :: string
  m_user_id :: string
  m_creator_pid :: int
  m_created_at_ms :: u64

record supervisor =
  config :: supervisor_config
  reg :: registry
  process_convos :: "(int, string uset) table"
  convo_metadata :: "(string, conv_metadata) table"
  running :: bool
  handler_os_pid :: int
  handler_velix_pid :: int
  handler_needs_restart :: bool
  handler_dead_since :: int

definition SupervisorService :: "supervisor_config \<Rightarrow> u64 \<Rightarrow> supervisor" where
  "SupervisorService cfg now =
     \<lparr>config = cfg, reg = snd (create_tree ProcessRegistry now ''TREE_HANDLER''),
      process_convos = [], convo_metadata = [], running = False, handler_os_pid = -1,
      handler_velix_pid = -1, handler_needs_restart = False, handler_dead_since = 0\<rparr>"

text \<open>The outside world: the result of \<open>kill\<close>, the clock when a pid is terminated, whether
  \<open>waitpid(.., WNOHANG)\<close> returns 0, and the result of \<open>fork\<close>.\<close>

record os_env =
  oe_kill :: "int \<Rightarrow> int \<Rightarrow> int option"
  oe_clock :: "int \<Rightarrow> u64"
  oe_wait_running :: "int \<Rightarrow> bool"
  oe_fork :: int

type_synonym reply = "json res \<times> effect list \<times> supervisor"

definition hbind :: "'a res \<Rightarrow> supervisor \<Rightarrow> ('a \<Rightarrow> reply) \<Rightarrow> reply" where
  "hbind m s f = (case m of Inl e \<Rightarrow> (Inl e, [], s) | Inr a \<Rightarrow> f a)"

definition error_fields :: "string \<Rightarrow> (string \<times> json) list \<Rightarrow> json" where
  "error_fields err extra = jobj ([(''status'', JString ''error''), (''error'', JString err)] @ extra)"

definition refuse :: "supervisor \<Rightarrow> string \<Rightarrow> reply" where
  "refuse s err = (Inr (error_fields err []), [], s)"

section \<open>Validation\<close>

text \<open>\<open>None\<close> when the message is accepted, otherwise the text of the refusal.\<close>

definition validate_auth :: "supervisor_config \<Rightarrow> json \<Rightarrow> string option res" where
  "validate_auth cfg message =
     (if \<not> c_require_auth_token cfg then Inr None
      else rbind (jvalue as_json message ''metadata'' (jobj [])) (\<lambda>metadata.
           rbind (jvalue as_string metadata ''auth_token'' []) (\<lambda>token.
             if token = [] \<or> token \<noteq> c_auth_token cfg then Inr (Some ''auth failed'')
             else Inr None)))"

definition allowed_types :: "string list" where
  "allowed_types = [''REGISTER_PID'', ''HEARTBEAT'', ''LLM_REQUEST'', ''TREE_STATUS'', ''TREE_KILL'']"

text \<open>\<open>message.contains(key) && is_number_integer() && get<int>() > 0\<close>.\<close>

definition positive_int_field :: "json \<Rightarrow> string \<Rightarrow> bool" where
  "positive_int_field message key =
     (case jget message key of Some (JInt i) \<Rightarrow> to_int32 i > 0 | _ \<Rightarrow> False)"

definition validate_message_shape :: "json \<Rightarrow> string option res" where
  "validate_message_shape message =
     (if \<not> is_object message then Inr (Some ''message must be a JSON object'')
      else case jget message ''message_type'' of
        Some (JString message_type) \<Rightarrow>
          (if message_type \<notin> set allowed_types
           then Inr (Some (''unsupported message_type: '' @ message_type))
           else if message_type = ''HEARTBEAT'' \<and> \<not> positive_int_field message ''pid''
           then Inr (Some (message_type @ '' requires positive integer pid''))
           else if message_type = ''REGISTER_PID'' then
             rbind (jvalue as_json message ''payload'' (jobj [])) (\<lambda>payload.
             rbind (jvalue as_string payload ''register_intent'' []) (\<lambda>register_intent.
             rbind (jvalue as_string payload ''role'' ''unknown'') (\<lambda>role.
               if register_intent = ''JOIN_PARENT_TREE'' \<and> role \<noteq> ''handler'' \<and>
                  \<not> positive_int_field message ''source_pid''
               then Inr (Some ''REGISTER_PID JOIN_PARENT_TREE requires source_pid'')
               else Inr None)))
           else Inr None)
      | _ \<Rightarrow> Inr (Some ''missing or invalid message_type''))"

definition build_process_json :: "process_info \<Rightarrow> json" where
  "build_process_json p =
     jobj [(''pid'', JInt (p_pid p)), (''os_pid'', JInt (p_os_pid p)),
           (''tree_id'', JString (p_tree_id p)), (''parent_pid'', JInt (p_parent_pid p)),
           (''role'', JString (p_role p)), (''status'', JString (to_string (p_status p)))]"

definition build_tree_json :: "string \<Rightarrow> tree_status \<Rightarrow> int \<Rightarrow> json" where
  "build_tree_json tree_id st root_pid =
     jobj [(''tree_id'', JString tree_id), (''status'', JString (to_string_tree st)),
           (''root_pid'', JInt root_pid)]"

section \<open>Message handlers\<close>

text \<open>Where a process that registers goes: a refusal, or the tree id to pass on, the parent pid, and
  whether it is a tree root.\<close>

definition choose_tree ::
  "supervisor \<Rightarrow> string \<Rightarrow> string \<Rightarrow> int \<Rightarrow> int \<Rightarrow> json + (string \<times> int \<times> bool)" where
  "choose_tree s role register_intent source_pid os_pid =
     (let handler_tree_empty = (get_tree_processes (reg s) ''TREE_HANDLER'' = [])
      in if role = ''handler'' \<and> handler_tree_empty then
           (if handler_os_pid s > 0 \<and> os_pid \<noteq> handler_os_pid s
            then Inl (error_fields ''handler_os_pid_mismatch''
                        [(''expected_os_pid'', JInt (handler_os_pid s)),
                         (''actual_os_pid'', JInt os_pid)])
            else Inr (''TREE_HANDLER'', -1, True))
         else if role = ''handler'' then Inl (error_fields ''handler_role_reserved_for_bootstrap'' [])
         else if register_intent = ''NEW_TREE'' then Inr ([], source_pid, True)
         else if source_pid \<le> 0
         then Inl (error_fields ''JOIN_PARENT_TREE requires valid source_pid'' [])
         else case get_process (reg s) source_pid of
             None \<Rightarrow> Inl (error_fields ''source_pid not registered'' [(''source_pid'', JInt source_pid)])
           | Some parent \<Rightarrow>
               if is_terminal_status (p_status parent)
               then Inl (error_fields ''source_pid is not active'' [(''source_pid'', JInt source_pid)])
               else Inr (p_tree_id parent, source_pid, False))"

definition register_and_reply ::
  "supervisor \<Rightarrow> u64 \<Rightarrow> string \<Rightarrow> string \<Rightarrow> int \<Rightarrow> string \<Rightarrow> int \<Rightarrow> bool \<Rightarrow> string
     \<Rightarrow> process_status \<Rightarrow> rat \<Rightarrow> reply" where
  "register_and_reply s now role register_intent os_pid tree_id source_pid is_tree_root trace_id
      st memory_mb =
     (case register_process (reg s) now os_pid tree_id source_pid role trace_id st memory_mb
             (role = ''handler'') of
        (Reg_Error err tid, r) \<Rightarrow> refuse (s\<lparr>reg := r\<rparr>) err
      | (Reg_Ok p tid, r) \<Rightarrow>
          (let s1 = s\<lparr>reg := r\<rparr>;
               s2 = (if role = ''handler''
                     then s1\<lparr>handler_velix_pid := p_pid p, handler_needs_restart := False,
                             handler_dead_since := 0\<rparr>
                     else s1)
           in (Inr (jobj [(''status'', JString ''ok''), (''tree_id'', JString tid),
                          (''register_intent'', JString register_intent),
                          (''is_root'', JBool is_tree_root),
                          (''is_handler'', JBool (role = ''handler'')),
                          (''process'', build_process_json p)]), [], s2)))"

definition handle_register_pid :: "supervisor \<Rightarrow> u64 \<Rightarrow> json \<Rightarrow> reply" where
  "handle_register_pid s now message =
     hbind (jvalue as_json message ''payload'' (jobj [])) s (\<lambda>payload.
     hbind (jvalue as_string payload ''register_intent'' []) s (\<lambda>register_intent.
     hbind (jvalue as_string payload ''role'' ''unknown'') s (\<lambda>role.
     hbind (jvalue as_int message ''source_pid'' (-1)) s (\<lambda>source_pid.
     hbind (jvalue as_int payload ''os_pid'' (-1)) s (\<lambda>os_pid.
     hbind (jvalue as_string payload ''status'' ''STARTING'') s (\<lambda>status_text.
       if \<not> is_valid_process_status_text status_text
       then (Inr (error_fields ''invalid process status in REGISTER_PID''
                    [(''status_value'', JString status_text)]), [], s)
       else hbind (jvalue as_double payload ''memory_mb'' 0) s (\<lambda>memory_mb.
         if os_pid \<le> 0 then refuse s ''REGISTER_PID requires payload.os_pid''
         else if register_intent \<noteq> ''NEW_TREE'' \<and> register_intent \<noteq> ''JOIN_PARENT_TREE''
         then refuse s ''REGISTER_PID requires register_intent = NEW_TREE or JOIN_PARENT_TREE''
         else case choose_tree s role register_intent source_pid os_pid of
             Inl err \<Rightarrow> (Inr err, [], s)
           | Inr (tree_id, parent_pid, is_tree_root) \<Rightarrow>
               hbind (jvalue as_string payload ''trace_id'' []) s (\<lambda>trace_id.
                 register_and_reply s now role register_intent os_pid tree_id parent_pid
                   is_tree_root trace_id (parse_process_status status_text) memory_mb))))))))"

definition handle_heartbeat :: "supervisor \<Rightarrow> os_env \<Rightarrow> u64 \<Rightarrow> json \<Rightarrow> reply" where
  "handle_heartbeat s env now message =
     hbind (jvalue as_int message ''pid'' (-1)) s (\<lambda>pid.
       if pid \<le> 0 then refuse s ''HEARTBEAT requires valid pid''
       else
         hbind (jvalue as_json message ''payload'' (jobj [])) s (\<lambda>payload.
         hbind (jvalue as_string payload ''status'' []) s (\<lambda>status_text.
         hbind (jvalue as_double payload ''memory_mb'' (-1)) s (\<lambda>memory_mb.
           case get_process (reg s) pid of
             None \<Rightarrow> refuse s ''pid not registered''
           | Some p \<Rightarrow>
               if status_text \<noteq> [] \<and> \<not> is_valid_process_status_text status_text
               then (Inr (error_fields ''invalid process status in HEARTBEAT''
                            [(''status_value'', JString status_text)]), [], s)
               else
                 (let new_status = (if status_text \<noteq> [] then parse_process_status status_text
                                    else p_status p);
                      r1 = update_heartbeat (reg s) pid new_status memory_mb now;
                      r2 = (if \<not> is_terminal_status (p_status p) \<and> is_terminal_status new_status
                            then terminate_process r1 (oe_clock env pid) pid else r1)
                  in (Inr (jobj [(''status'', JString ''ok''), (''pid'', JInt pid)]), [],
                      s\<lparr>reg := r2\<rparr>))))))"

definition handle_llm_request :: "supervisor \<Rightarrow> json \<Rightarrow> reply" where
  "handle_llm_request s message =
     hbind (jvalue as_string message ''mode'' []) s (\<lambda>mode.
     hbind (jvalue as_string message ''tree_id'' []) s (\<lambda>tree_id.
     hbind (jvalue as_string message ''convo_id'' []) s (\<lambda>convo_id.
     hbind (jvalue as_string message ''user_id'' []) s (\<lambda>user_id.
     hbind (jvalue as_int message ''source_pid'' (-1)) s (\<lambda>source_pid.
       if mode \<noteq> ''simple'' \<and> mode \<noteq> ''conversation'' \<and> mode \<noteq> ''user_conversation''
       then refuse s ''unsupported LLM mode''
       else if \<not> c_conversation_enabled (config s) \<and> mode \<noteq> ''simple''
       then refuse s ''conversation mode is disabled''
       else if source_pid \<le> 0 then refuse s ''LLM_REQUEST requires valid source_pid''
       else case get_process (reg s) source_pid of
           None \<Rightarrow> refuse s ''LLM_REQUEST source_pid not registered''
         | Some p \<Rightarrow>
             if mode = ''simple'' \<and> (convo_id \<noteq> [] \<or> user_id \<noteq> [])
             then refuse s ''simple mode requires empty convo_id and user_id''
             else if mode = ''conversation'' \<and> user_id \<noteq> []
             then refuse s ''conversation mode requires empty user_id''
             else if mode = ''user_conversation'' \<and> p_role p \<noteq> ''handler''
             then refuse s ''user_conversation only allowed for handler process''
             else if mode = ''user_conversation'' \<and> user_id = []
             then refuse s ''user_conversation requires user_id''
             else (Inr (jobj [(''status'', JString ''ok''),
                              (''is_handler'', JBool (p_role p = ''handler''))]), [],
                   s\<lparr>reg := increment_llm_request (reg s) (p_tree_id p)\<rparr>))))))"

text \<open>\<open>payload.value("tree_id", message.value("tree_id", ""))\<close>: both are read.\<close>

definition tree_id_field :: "json \<Rightarrow> string res" where
  "tree_id_field message =
     rbind (jvalue as_json message ''payload'' (jobj [])) (\<lambda>payload.
     rbind (jvalue as_string message ''tree_id'' []) (\<lambda>outer.
       jvalue as_string payload ''tree_id'' outer))"

definition handle_tree_status :: "supervisor \<Rightarrow> json \<Rightarrow> reply" where
  "handle_tree_status s message =
     hbind (tree_id_field message) s (\<lambda>tree_id.
       if tree_id = [] then
         (let trees = concat (map (\<lambda>tid.
                case get_tree_status (reg s) tid of
                  (found, st, root_pid, n) \<Rightarrow>
                    if found then [build_tree_json tid st root_pid] else [])
                (get_all_tree_ids (reg s)))
          in (Inr (jobj [(''status'', JString ''ok''), (''trees'', JArray trees)]), [], s))
       else case get_tree_status (reg s) tree_id of
           (found, st, root_pid, n) \<Rightarrow>
             if \<not> found then refuse s ''tree not found''
             else
               (let processes = concat (map (\<lambda>pid.
                      case get_process (reg s) pid of None \<Rightarrow> [] | Some p \<Rightarrow> [build_process_json p])
                      (get_tree_processes (reg s) tree_id))
                in (Inr (jobj [(''status'', JString ''ok''),
                               (''tree'', build_tree_json tree_id st root_pid),
                               (''processes'', JArray processes)]), [], s)))"

text \<open>Marking a tree killed and killing its live processes, shared by \<open>handle_tree_kill\<close> and the
  limit checks of the watchdog.\<close>

definition kill_tree_processes ::
  "supervisor_config \<Rightarrow> os_env \<Rightarrow> string \<Rightarrow> string \<Rightarrow> registry \<Rightarrow> effect list \<times> registry" where
  "kill_tree_processes cfg env reason tree_id r =
     (case kill_tree r tree_id of
        (pids, r1) \<Rightarrow>
          if pids = [] then ([], r1)
          else kill_processes (oe_kill env) (oe_clock env) (live_targets r1 tree_id pids) reason
                 (c_terminate_grace_ms cfg) r1)"

definition handle_tree_kill :: "supervisor \<Rightarrow> os_env \<Rightarrow> json \<Rightarrow> reply" where
  "handle_tree_kill s env message =
     hbind (tree_id_field message) s (\<lambda>tree_id.
     hbind (jvalue as_int message ''source_pid'' (-1)) s (\<lambda>source_pid.
       if tree_id = [] then refuse s ''TREE_KILL requires tree_id''
       else case kill_tree_processes (config s) env ''tree_kill'' tree_id (reg s) of
           (effs, r) \<Rightarrow>
             (Inr (jobj [(''status'', JString ''ok''), (''tree_id'', JString tree_id),
                         (''tree_status'', JString ''KILLED'')]), effs, s\<lparr>reg := r\<rparr>)))"

definition handle_message :: "supervisor \<Rightarrow> os_env \<Rightarrow> u64 \<Rightarrow> json \<Rightarrow> reply" where
  "handle_message s env now message =
     hbind (validate_message_shape message) s (\<lambda>shape.
       case shape of
         Some err \<Rightarrow> refuse s err
       | None \<Rightarrow>
           hbind (validate_auth (config s) message) s (\<lambda>auth.
             case auth of
               Some err \<Rightarrow> refuse s err
             | None \<Rightarrow>
                 hbind (jvalue as_string message ''message_type'' []) s (\<lambda>message_type.
                   if message_type = ''REGISTER_PID'' then handle_register_pid s now message
                   else if message_type = ''HEARTBEAT'' then handle_heartbeat s env now message
                   else if message_type = ''LLM_REQUEST'' then handle_llm_request s message
                   else if message_type = ''TREE_STATUS'' then handle_tree_status s message
                   else if message_type = ''TREE_KILL'' then handle_tree_kill s env message
                   else refuse s (''unsupported message_type: '' @ message_type))))"

text \<open>One connection: the request that was received (or the error of receiving it), and the result
  of each send. The replies that were sent, in order, come with the effects.\<close>

definition handle_client ::
  "supervisor \<Rightarrow> os_env \<Rightarrow> u64 \<Rightarrow> json res \<Rightarrow> (json \<Rightarrow> exn option) \<Rightarrow> json list \<times> effect list \<times> supervisor" where
  "handle_client s env now received send_json =
     (let failed = (\<lambda>err. if is_expected_disconnect_error err then []
                          else [error_fields err []])
      in case received of
           Inl e \<Rightarrow> (failed (what e), [], s)
         | Inr request \<Rightarrow>
             (case handle_message s env now request of
                (Inl e, effs, s') \<Rightarrow> (failed (what e), effs, s')
              | (Inr response, effs, s') \<Rightarrow>
                  (case send_json response of
                     None \<Rightarrow> ([response], effs, s')
                   | Some e \<Rightarrow> (response # failed (what e), effs, s'))))"

section \<open>Lemmas\<close>

lemma parse_to_string [simp]: "parse_process_status (to_string st) = st"
  by (cases st) (simp_all add: parse_process_status_def)

lemma valid_status_text: "is_valid_process_status_text text \<longleftrightarrow> (\<exists>st. text = to_string st)"
proof
  assume "is_valid_process_status_text text"
  then show "\<exists>st. text = to_string st"
    unfolding is_valid_process_status_text_def by (metis to_string.simps)
next
  assume "\<exists>st. text = to_string st"
  then obtain st where "text = to_string st" by blast
  then show "is_valid_process_status_text text"
    by (cases st) (simp_all add: is_valid_process_status_text_def)
qed

lemma hbind_Inl [simp]: "hbind (Inl e) s f = (Inl e, [], s)"
  by (simp add: hbind_def)

lemma hbind_Inr [simp]: "hbind (Inr a) s f = f a"
  by (simp add: hbind_def)

lemma status_error_fields [simp]: "jget (error_fields err extra) ''status'' = Some (JString ''error'')"
  by (simp add: error_fields_def)

text \<open>A predicate that every step of a handler built from \<open>hbind\<close> has when its leaves have it.\<close>

lemma hbind_pred:
  assumes "\<And>e. P (Inl e, [], s)" and "\<And>a. m = Inr a \<Longrightarrow> P (f a)"
  shows "P (hbind m s f)"
  using assms by (cases m) simp_all

definition is_error_reply :: "json res \<Rightarrow> bool" where
  "is_error_reply res \<longleftrightarrow>
     (case res of Inl e \<Rightarrow> True | Inr j \<Rightarrow> jget j ''status'' = Some (JString ''error''))"

text \<open>An error reply has no effect beyond the pid counter.\<close>

definition harmless :: "supervisor \<Rightarrow> reply \<Rightarrow> bool" where
  "harmless s rep \<longleftrightarrow>
     (is_error_reply (fst rep) \<longrightarrow> fst (snd rep) = [] \<and>
        (\<exists>c. snd (snd rep) = s\<lparr>reg := (reg s)\<lparr>process_counter := c\<rparr>\<rparr>))"

lemma harmless_same [simp]: "harmless s (res, [], s)"
  by (auto simp: harmless_def intro!: exI [of _ "process_counter (reg s)"])

lemma harmless_refuse [simp]: "harmless s (refuse s err)"
  by (simp add: refuse_def)

lemma harmless_ok: "jget j ''status'' = Some (JString ''ok'') \<Longrightarrow> harmless s (Inr j, effs, s')"
  by (simp add: harmless_def is_error_reply_def)

lemma harmless_hbind: "(\<And>a. m = Inr a \<Longrightarrow> harmless s (f a)) \<Longrightarrow> harmless s (hbind m s f)"
  by (rule hbind_pred) simp_all

lemma register_process_error_state:
  "register_process r now os tid par role trace st mem h = (Reg_Error e t, r') \<Longrightarrow>
     r' = r\<lparr>process_counter := process_counter r + 1\<rparr>"
  by (cases rule: register_process_cases [of r now os tid par role trace st mem h]) auto

lemma harmless_register_and_reply:
  "harmless s (register_and_reply s now role intent os tid src is_root trace st mem)"
proof -
  obtain res r where reg: "register_process (reg s) now os tid src role trace st mem (role = ''handler'') = (res, r)"
    by fastforce
  show ?thesis
  proof (cases res)
    case (Reg_Error e t)
    then have "r = (reg s)\<lparr>process_counter := process_counter (reg s) + 1\<rparr>"
      using reg register_process_error_state by blast
    then show ?thesis
      using reg Reg_Error
      by (auto simp: register_and_reply_def refuse_def harmless_def
          intro!: exI [of _ "process_counter (reg s) + 1"])
  next
    case (Reg_Ok p t)
    then show ?thesis
      using reg by (auto simp: register_and_reply_def Let_def intro!: harmless_ok)
  qed
qed

lemma harmless_register: "harmless s (handle_register_pid s now message)"
  unfolding handle_register_pid_def
  by (intro harmless_hbind)
    (auto intro!: harmless_hbind harmless_register_and_reply split: sum.splits)

lemma harmless_heartbeat: "harmless s (handle_heartbeat s env now message)"
  unfolding handle_heartbeat_def
  by (intro harmless_hbind)
    (auto intro!: harmless_hbind harmless_ok simp: Let_def split: option.splits)

lemma harmless_llm: "harmless s (handle_llm_request s message)"
  unfolding handle_llm_request_def
  by (intro harmless_hbind) (auto intro!: harmless_ok split: option.splits)

lemma harmless_status: "harmless s (handle_tree_status s message)"
  unfolding handle_tree_status_def
  by (intro harmless_hbind) (auto intro!: harmless_ok simp: Let_def split: prod.splits)

lemma harmless_kill: "harmless s (handle_tree_kill s env message)"
  unfolding handle_tree_kill_def
  by (intro harmless_hbind) (auto intro!: harmless_ok split: prod.splits)

lemma harmless_message: "harmless s (handle_message s env now message)"
  unfolding handle_message_def
  by (rule harmless_hbind, auto split: option.splits intro!: harmless_hbind harmless_register
      harmless_heartbeat harmless_llm harmless_status harmless_kill)

text \<open>Every message keeps the registry well formed.\<close>

definition keeps_wf :: "supervisor \<Rightarrow> reply \<Rightarrow> bool" where
  "keeps_wf s rep \<longleftrightarrow> (registry_wf (reg s) \<longrightarrow> registry_wf (reg (snd (snd rep))))"

lemma keeps_wf_same [simp]: "keeps_wf s (res, effs, s)"
  by (simp add: keeps_wf_def)

lemma keeps_wf_refuse [simp]: "keeps_wf s (refuse s err)"
  by (simp add: refuse_def)

lemma keeps_wf_hbind: "(\<And>a. m = Inr a \<Longrightarrow> keeps_wf s (f a)) \<Longrightarrow> keeps_wf s (hbind m s f)"
  by (rule hbind_pred) simp_all

lemma keeps_wf_register_and_reply:
  assumes "uint (process_counter (reg s)) < 2 ^ 64 - 1"
  shows "keeps_wf s (register_and_reply s now role intent os tid src is_root trace st mem)"
  using wf_register_process [OF _ assms, of now os tid src role trace st mem "role = ''handler''"]
  by (auto simp: keeps_wf_def register_and_reply_def refuse_def Let_def
      split: prod.splits register_result.splits)

lemma wf_kill_tree_processes [inv_intros]:
  "registry_wf r \<Longrightarrow> registry_wf (snd (kill_tree_processes cfg env reason t r))"
  using wf_kill_tree [of r t]
  by (auto simp: kill_tree_processes_def intro: wf_kill_processes split: prod.splits)

lemma keeps_wf_message:
  assumes "uint (process_counter (reg s)) < 2 ^ 64 - 1"
  shows "keeps_wf s (handle_message s env now message)"
proof -
  have "keeps_wf s (handle_register_pid s now message)"
    unfolding handle_register_pid_def
    by (intro keeps_wf_hbind)
      (auto intro!: keeps_wf_hbind keeps_wf_register_and_reply assms split: sum.splits)
  moreover have "keeps_wf s (handle_heartbeat s env now message)"
    unfolding handle_heartbeat_def
    by (intro keeps_wf_hbind)
      (auto intro!: keeps_wf_hbind wf_terminate_process wf_update_heartbeat
        simp: Let_def keeps_wf_def [of s "(a, b, c)" for a b c] split: option.splits)
  moreover have "keeps_wf s (handle_llm_request s message)"
    unfolding handle_llm_request_def
    by (intro keeps_wf_hbind)
      (auto intro!: wf_increment_llm_request simp: keeps_wf_def [of s "(a, b, c)" for a b c]
        split: option.splits)
  moreover have "keeps_wf s (handle_tree_status s message)"
    unfolding handle_tree_status_def
    by (intro keeps_wf_hbind) (auto simp: Let_def split: prod.splits)
  moreover have "keeps_wf s (handle_tree_kill s env message)"
    unfolding handle_tree_kill_def
    by (intro keeps_wf_hbind)
      (auto simp: keeps_wf_def [of s "(a, b, c)" for a b c] split: prod.splits,
        metis snd_conv wf_kill_tree_processes)
  ultimately show ?thesis
    unfolding handle_message_def
    by (intro keeps_wf_hbind) (auto split: option.splits intro!: keeps_wf_hbind)
qed

lemma validate_auth_None:
  assumes "validate_auth cfg message = Inr None" and "c_require_auth_token cfg"
  shows "c_auth_token cfg \<noteq> [] \<and> (\<exists>metadata. jget message ''metadata'' = Some metadata \<and>
    jget metadata ''auth_token'' = Some (JString (c_auth_token cfg)))"
proof -
  obtain metadata token where m: "jvalue as_json message ''metadata'' (jobj []) = Inr metadata"
    and t: "jvalue as_string metadata ''auth_token'' [] = Inr token"
    and tok: "token \<noteq> []" "token = c_auth_token cfg"
    using assms by (auto simp: validate_auth_def rbind_Inr_conv split: if_splits)
  have inner: "jget metadata ''auth_token'' = Some (JString token)"
    using t tok by (cases metadata) (auto simp: as_string_Inr split: option.splits)
  have "jget message ''metadata'' = Some metadata"
    using m inner by (cases message) (auto split: option.splits)
  with inner tok show ?thesis by blast
qed

lemma choose_tree_handler:
  assumes "choose_tree s ''handler'' intent src os = Inr (t, par, rt)"
  shows "get_tree_processes (reg s) ''TREE_HANDLER'' = [] \<and>
    (handler_os_pid s > 0 \<longrightarrow> os = handler_os_pid s) \<and> t = ''TREE_HANDLER'' \<and> par = -1"
  using assms by (auto simp: choose_tree_def Let_def split: if_splits)

section \<open>Properties\<close>

text \<open>the texts of the process states and the states correspond one to one: reading back what is
  printed gives the state, and a text passes the validity check exactly if it is the print of a
  state, which reading and printing then reproduce.\<close>

theorem process_status_roundtrip:
  "parse_process_status (to_string st) = st \<and>
   is_valid_process_status_text text = (\<exists>st. text = to_string st) \<and>
   (if is_valid_process_status_text text then to_string (parse_process_status text) = text
    else parse_process_status text = ERROR)"
proof -
  have "\<not> is_valid_process_status_text text \<Longrightarrow> parse_process_status text = ERROR"
    by (simp add: is_valid_process_status_text_def parse_process_status_def)
  then show ?thesis by (auto simp: valid_status_text)
qed

text \<open>C14: a message that is answered with an error, or that makes the handler throw, has no effect
  outside the supervisor and leaves its whole state as it was, except that a registration the
  registry refused has used up a pid.\<close>

theorem error_reply_changes_nothing:
  assumes "handle_message s env now message = (res, effs, s')" and "is_error_reply res"
  shows "effs = [] \<and> (\<exists>c. s' = s\<lparr>reg := (reg s)\<lparr>process_counter := c\<rparr>\<rparr>)"
  using harmless_message [of s env now message] assms by (simp add: harmless_def)

definition demo_supervisor :: supervisor where
  "demo_supervisor = SupervisorService (SupervisorConfig\<lparr>c_require_auth_token := True,
     c_auth_token := ''k''\<rparr>) 5"

definition demo_env :: os_env where
  "demo_env = \<lparr>oe_kill = (\<lambda>_ _. None), oe_clock = (\<lambda>_. 9), oe_wait_running = (\<lambda>_. False), oe_fork = 77\<rparr>"

lemma demo_unauthenticated:
  "handle_message demo_supervisor demo_env 7 (jobj [(''message_type'', JString ''TREE_KILL'')]) =
     refuse demo_supervisor ''auth failed''"
  by (simp add: handle_message_def validate_message_shape_def validate_auth_def allowed_types_def
      demo_supervisor_def SupervisorService_def)

theorem error_reply_changes_nothing_witness:
  "\<exists>c. snd (snd (handle_message demo_supervisor demo_env 7 (jobj [(''message_type'', JString ''TREE_KILL'')]))) =
     demo_supervisor\<lparr>reg := (reg demo_supervisor)\<lparr>process_counter := c\<rparr>\<rparr>"
  using error_reply_changes_nothing [OF demo_unauthenticated [unfolded refuse_def]]
  by (simp add: demo_unauthenticated refuse_def is_error_reply_def)

text \<open>C25: when a token is required, a message whose metadata does not carry exactly the configured,
  non-empty token gets an error and changes nothing.\<close>

theorem unauthenticated_message_rejected:
  assumes "c_require_auth_token (config s)"
    and "\<forall>metadata. jget message ''metadata'' = Some metadata \<longrightarrow>
      jget metadata ''auth_token'' \<noteq> Some (JString (c_auth_token (config s))) \<or>
      c_auth_token (config s) = []"
    and "handle_message s env now message = (res, effs, s')"
  shows "is_error_reply res \<and> effs = [] \<and> s' = s"
proof -
  have no: "validate_auth (config s) message \<noteq> Inr None"
    using validate_auth_None [of "config s" message] assms(1,2) by blast
  have bad: "(res, effs, s') = (Inl e, [], s) \<or> (res, effs, s') = refuse s err \<Longrightarrow> ?thesis" for e err
    by (auto simp: refuse_def is_error_reply_def)
  show ?thesis
  proof (cases "validate_message_shape message")
    case (Inl e)
    with assms(3) show ?thesis by (intro bad [of e]) (simp add: handle_message_def)
  next
    case (Inr shape)
    show ?thesis
    proof (cases shape)
      case (Some err)
      with Inr assms(3) show ?thesis by (intro bad [of _ err]) (simp add: handle_message_def)
    next
      case None
      show ?thesis
      proof (cases "validate_auth (config s) message")
        case (Inl e)
        with None Inr assms(3) show ?thesis
          by (intro bad [of e]) (simp add: handle_message_def)
      next
        case auth: (Inr v)
        with no obtain err where "v = Some err" by (cases v) auto
        with auth None Inr assms(3) show ?thesis
          by (intro bad [of _ err]) (simp add: handle_message_def)
      qed
    qed
  qed
qed

lemma demo_requires_token: "c_require_auth_token (config demo_supervisor)"
  by (simp add: demo_supervisor_def SupervisorService_def)

theorem unauthenticated_message_rejected_witness:
  "snd (snd (handle_message demo_supervisor demo_env 7 (jobj [(''message_type'', JString ''TREE_KILL'')]))) =
     demo_supervisor"
  using unauthenticated_message_rejected [OF demo_requires_token _ demo_unauthenticated [unfolded refuse_def]]
  by (simp add: demo_unauthenticated refuse_def)

text \<open>whatever message arrives, valid or not, the registry stays well formed.\<close>

theorem handle_message_keeps_registry:
  assumes "registry_wf (reg s)" and "uint (process_counter (reg s)) < 2 ^ 64 - 1"
    and "handle_message s env now message = (res, effs, s')"
  shows "registry_wf (reg s')"
  using keeps_wf_message [OF assms(2), of env now message] assms(1,3) by (simp add: keeps_wf_def)

theorem handle_message_keeps_registry_witness: "registry_wf (reg demo_supervisor)"
proof (rule handle_message_keeps_registry [OF _ _ demo_unauthenticated [unfolded refuse_def]])
  show "registry_wf (reg demo_supervisor)"
    by (simp add: demo_supervisor_def SupervisorService_def wf_create_tree wf_init)
  show "uint (process_counter (reg demo_supervisor)) < 2 ^ 64 - 1"
    by (simp add: demo_supervisor_def SupervisorService_def create_tree_def create_tree_locked_def
        ProcessRegistry_def)
qed

subsection \<open>The handler\<close>

definition handler_reply_ok :: "supervisor \<Rightarrow> reply \<Rightarrow> bool" where
  "handler_reply_ok s rep \<longleftrightarrow>
     (\<forall>resp. fst rep = Inr resp \<longrightarrow> jget resp ''is_handler'' = Some (JBool True) \<longrightarrow>
        get_tree_processes (reg s) ''TREE_HANDLER'' = [] \<and>
        get_tree_processes (reg (snd (snd rep))) ''TREE_HANDLER'' = [handler_velix_pid (snd (snd rep))] \<and>
        (\<exists>p. get_process (reg (snd (snd rep))) (handler_velix_pid (snd (snd rep))) = Some p \<and>
           p_alive p \<and> p_role p = ''handler'' \<and>
           (handler_os_pid s > 0 \<longrightarrow> p_os_pid p = handler_os_pid s)))"

lemma handler_reply_error [simp]:
  "jget j ''is_handler'' \<noteq> Some (JBool True) \<Longrightarrow> handler_reply_ok s (Inr j, effs, s')"
  by (simp add: handler_reply_ok_def)

lemma handler_reply_refuse [simp]: "handler_reply_ok s (refuse s' err)"
  by (simp add: refuse_def error_fields_def)

lemma handler_reply_hbind:
  "(\<And>a. m = Inr a \<Longrightarrow> handler_reply_ok s (f a)) \<Longrightarrow> handler_reply_ok s (hbind m s' f)"
  by (rule hbind_pred) (simp_all add: handler_reply_ok_def)

lemma choose_tree_Inl: "choose_tree s role intent src os = Inl j \<Longrightarrow> jget j ''is_handler'' = None"
  by (auto simp: choose_tree_def error_fields_def Let_def split: if_splits option.splits)

lemma handler_reply_register_and_reply:
  assumes ch: "choose_tree s role intent src os = Inr (t, par, rt)"
  shows "handler_reply_ok s (register_and_reply s now role intent os t par rt trace st mem)"
proof -
  obtain res r where reg: "register_process (reg s) now os t par role trace st mem (role = ''handler'') = (res, r)"
    by fastforce
  show ?thesis
  proof (cases "res")
    case (Reg_Error e t')
    with reg show ?thesis by (simp add: register_and_reply_def)
  next
    case (Reg_Ok p t')
    show ?thesis
    proof (cases "role = ''handler''")
      case False
      with reg Reg_Ok show ?thesis by (simp add: register_and_reply_def Let_def)
    next
      case True
      note reg' = reg [unfolded Reg_Ok True]
      have "t' = ''TREE_HANDLER''" using register_process_tree_id [OF reg'] by simp
      moreover note choose_tree_handler [OF ch [unfolded True]] register_process_added [OF reg']
      ultimately show ?thesis
        using reg Reg_Ok True
        by (auto simp: handler_reply_ok_def register_and_reply_def Let_def make_process_def
            get_tree_processes_def get_process_def members_def index_insert_def List.insert_def)
    qed
  qed
qed


definition demo_handler_message :: json where
  "demo_handler_message = jobj [(''message_type'', JString ''REGISTER_PID''),
     (''payload'', jobj [(''register_intent'', JString ''NEW_TREE''), (''role'', JString ''handler''),
        (''os_pid'', JInt 50)])]"


subsection \<open>Heartbeats\<close>

definition heartbeat_message :: "int \<Rightarrow> process_status \<Rightarrow> rat option \<Rightarrow> json" where
  "heartbeat_message pid st mem =
     jobj [(''message_type'', JString ''HEARTBEAT''), (''pid'', JInt pid),
           (''payload'', jobj ((''status'', JString (to_string st)) #
              (case mem of None \<Rightarrow> [] | Some m \<Rightarrow> [(''memory_mb'', JFloat m)])))]"

text \<open>a heartbeat of a live process is answered \<open>ok\<close>, records the status, the memory (minus one
  when it reports none) and the time, and terminates the process exactly if the reported status is
  terminal and the previous one was not; no other process is touched.\<close>

theorem heartbeat_effect:
  assumes "get_process (reg s) pid = Some p" and "p_alive p" and "0 < pid" and "pid \<le> INT_MAX"
    and "handle_heartbeat s env now (heartbeat_message pid st mem) = (res, effs, s')"
  shows "res = Inr (jobj [(''status'', JString ''ok''), (''pid'', JInt pid)]) \<and> effs = [] \<and>
    (\<exists>p'. get_process (reg s') pid = Some p' \<and> p_status p' = st \<and>
       p_memory_mb p' = (case mem of None \<Rightarrow> -1 | Some m \<Rightarrow> m) \<and> p_last_heartbeat_ms p' = now) \<and>
    live_map (reg s') =
      (if is_terminal_status st \<and> \<not> is_terminal_status (p_status p)
       then (live_map (reg s))(pid := None) else live_map (reg s)) \<and>
    (\<forall>q. q \<noteq> pid \<longrightarrow> get_process (reg s') q = get_process (reg s) q)"
proof -
  let ?m = "case mem of None \<Rightarrow> -1 | Some m \<Rightarrow> m"
  let ?r1 = "heartbeat_stores (reg s) pid st ?m now"
  let ?r2 = "if is_terminal_status st \<and> \<not> is_terminal_status (p_status p)
    then terminate_process ?r1 (oe_clock env pid) pid else ?r1"
  have ne: "to_string st \<noteq> []" by (cases st) simp_all
  have valid: "is_valid_process_status_text (to_string st)" by (auto simp: valid_status_text)
  have "handle_heartbeat s env now (heartbeat_message pid st mem) =
      (Inr (jobj [(''status'', JString ''ok''), (''pid'', JInt pid)]), [], s\<lparr>reg := ?r2\<rparr>)"
    using assms(1-4) ne valid
    by (auto simp: handle_heartbeat_def heartbeat_message_def to_int32_id update_heartbeat_def Let_def
        split: option.splits)
  then have eq: "res = Inr (jobj [(''status'', JString ''ok''), (''pid'', JInt pid)])" "effs = []"
    "s' = s\<lparr>reg := ?r2\<rparr>"
    using assms(5) by simp_all
  have "\<exists>p'. get_process ?r2 pid = Some p' \<and> p_status p' = st \<and> p_memory_mb p' = ?m \<and>
      p_last_heartbeat_ms p' = now"
    and "\<forall>q. q \<noteq> pid \<longrightarrow> get_process ?r2 q = get_process (reg s) q"
    using assms(1,2)
    by (auto simp: get_process_def heartbeat_stores_def terminate_process_def Let_def
        on_process_terminal_unlocked_def split: option.splits)
  then show ?thesis by (simp add: eq)
qed

theorem heartbeat_effect_witness:
  "live_map (reg (snd (snd (handle_heartbeat (demo_supervisor\<lparr>reg := demo_registry\<rparr>) demo_env 12
     (heartbeat_message 1000 FINISHED None))))) = (live_map demo_registry)(1000 := None)"
proof -
  let ?s = "demo_supervisor\<lparr>reg := demo_registry\<rparr>"
  have p: "get_process (reg ?s) 1000 = Some demo_process"
    by (simp add: get_process_def demo_registry_def)
  have alive: "p_alive demo_process" "p_status demo_process = STARTING"
    by (simp_all add: demo_process_def make_process_def)
  obtain res effs s' where eq: "handle_heartbeat ?s demo_env 12 (heartbeat_message 1000 FINISHED None) = (res, effs, s')"
    by (rule prod_cases3)
  from heartbeat_effect [OF p alive(1) _ _ eq] eq alive(2) show ?thesis
    by (simp add: is_terminal_status_def)
qed

end
