(* ===== verification/Supervisor_Watchdog.thy ===== *)
theory Supervisor_Watchdog
  imports Supervisor
begin

text \<open>
  The background half of \<^verbatim>\<open>core/supervisor.cpp\<close>: the pass of the watchdog loop (clean-up of old
  records, heartbeat timeouts, tree limits, completion, expiry of conversations, restart of the
  handler), the spawning of the handler and the shutdown. The pass is proved to kill exactly the
  processes that violate a limit.
\<close>

section \<open>Spawning the handler\<close>

definition spawn_handler_process :: "os_env \<Rightarrow> supervisor \<Rightarrow> effect list \<times> supervisor" where
  "spawn_handler_process env s =
     (if c_handler_binary (config s) = [] then ([], s)
      else
        (let prev = handler_os_pid s;
             (e1, s1) =
               (if prev > 0
                then (if oe_kill env prev kTerminateSignal = None
                      then [Os_Kill prev kTerminateSignal, Sleep_Ms 500] @
                           (if oe_wait_running env prev then [Os_Kill prev kForcekillSignal] else [])
                      else [Os_Kill prev kTerminateSignal],
                      s\<lparr>handler_os_pid := -1\<rparr>)
                else ([], s));
             pid = oe_fork env
         in if pid < 0 then (e1, s1)
            else (e1 @ [Spawn_Handler (c_handler_binary (config s)) (c_handler_args (config s))],
                  s1\<lparr>handler_os_pid := pid\<rparr>)))"

section \<open>The watchdog pass\<close>

definition entry_target :: "watchdog_entry \<Rightarrow> termination_target" where
  "entry_target e =
     \<lparr>tt_velix_pid = w_pid e, tt_os_pid = w_os_pid e, tt_tree_id = w_tree_id e,
      tt_trace_id = w_trace_id e, tt_parent_pid = w_parent_pid e\<rparr>"

definition heartbeat_stale :: "supervisor_config \<Rightarrow> u64 \<Rightarrow> watchdog_entry \<Rightarrow> bool" where
  "heartbeat_stale cfg now_ms e \<longleftrightarrow>
     now_ms - w_last_heartbeat_ms e > of_int (c_heartbeat_timeout_sec cfg) * 1000"

definition check_heartbeats ::
  "supervisor_config \<Rightarrow> os_env \<Rightarrow> u64 \<Rightarrow> registry \<Rightarrow> effect list \<times> registry" where
  "check_heartbeats cfg env now_ms r =
     (let targets = map entry_target (filter (heartbeat_stale cfg now_ms) (snapshot_for_watchdog r))
      in if targets \<noteq> []
         then kill_processes (oe_kill env) (oe_clock env) targets ''heartbeat_timeout''
                (c_terminate_grace_ms cfg) r
         else ([], r))"

definition runtime_exceeded :: "supervisor_config \<Rightarrow> u64 \<Rightarrow> u64 \<Rightarrow> bool" where
  "runtime_exceeded cfg now_ms created_at_ms \<longleftrightarrow>
     (now_ms - created_at_ms) div 1000 > of_int (c_max_tree_runtime_sec cfg)"

definition memory_exceeded :: "supervisor_config \<Rightarrow> registry \<Rightarrow> string \<Rightarrow> bool" where
  "memory_exceeded cfg r tree_id \<longleftrightarrow> compute_tree_memory_mb r tree_id > c_max_memory_per_tree_mb cfg"

definition llm_exceeded :: "supervisor_config \<Rightarrow> registry \<Rightarrow> string \<Rightarrow> bool" where
  "llm_exceeded cfg r tree_id \<longleftrightarrow>
     (case get_tree_status r tree_id of
        (found, st, root_pid, llm_request_count) \<Rightarrow>
          found \<and> is_limit_enabled (c_max_llm_requests_per_tree cfg) \<and>
          llm_request_count > c_max_llm_requests_per_tree cfg)"

text \<open>One guarded kill: when the limit is exceeded, kill the tree for that reason.\<close>

definition enforce ::
  "supervisor_config \<Rightarrow> os_env \<Rightarrow> string \<Rightarrow> string \<Rightarrow> (registry \<Rightarrow> bool)
     \<Rightarrow> effect list \<times> registry \<Rightarrow> effect list \<times> registry" where
  "enforce cfg env reason tree_id exceeded acc =
     (let (effs, r) = acc
      in if exceeded r
         then (case kill_tree_processes cfg env reason tree_id r of (e, r') \<Rightarrow> (effs @ e, r'))
         else (effs, r))"

definition check_tree ::
  "supervisor_config \<Rightarrow> os_env \<Rightarrow> u64 \<Rightarrow> string \<times> u64 \<Rightarrow> effect list \<times> registry
     \<Rightarrow> effect list \<times> registry" where
  "check_tree cfg env now_ms tree acc =
     (case tree of (tree_id, created_at_ms) \<Rightarrow>
        if tree_id = ''TREE_HANDLER'' then acc
        else
          enforce cfg env ''tree_llm_limit'' tree_id (\<lambda>r. llm_exceeded cfg r tree_id)
           (enforce cfg env ''tree_memory_limit'' tree_id (\<lambda>r. memory_exceeded cfg r tree_id)
             (enforce cfg env ''tree_runtime_limit'' tree_id
                (\<lambda>r. runtime_exceeded cfg now_ms created_at_ms) acc)))"

definition convo_expired :: "supervisor_config \<Rightarrow> u64 \<Rightarrow> conv_metadata \<Rightarrow> bool" where
  "convo_expired cfg now_ms m \<longleftrightarrow>
     (now_ms - m_created_at_ms m) div 1000 > of_int (c_process_convo_ttl_sec cfg)"

definition expire_convos :: "u64 \<Rightarrow> supervisor \<Rightarrow> supervisor" where
  "expire_convos now_ms s =
     (let expired_convos = map fst (filter (\<lambda>(cid, m). convo_expired (config s) now_ms m) (convo_metadata s))
      in fold (\<lambda>cid s. s\<lparr>convo_metadata := tdel cid (convo_metadata s),
                         process_convos := map (\<lambda>(pid, cs). (pid, uerase cid cs)) (process_convos s)\<rparr>)
           expired_convos s)"

text \<open>Restart of the handler; \<open>steady\<close> is the reading of the steady clock in milliseconds.\<close>

definition monitor_handler :: "os_env \<Rightarrow> int \<Rightarrow> supervisor \<Rightarrow> effect list \<times> supervisor" where
  "monitor_handler env steady s =
     (if c_handler_auto_restart (config s) \<and> c_handler_binary (config s) \<noteq> []
      then
        (let hvpid = handler_velix_pid s;
             handler_alive =
               (if hvpid > 0
                then (case get_process (reg s) hvpid of None \<Rightarrow> False | Some p \<Rightarrow> p_alive p)
                else False)
         in if \<not> handler_alive
            then (if \<not> handler_needs_restart s
                  then ([], s\<lparr>handler_needs_restart := True, handler_dead_since := steady\<rparr>)
                  else if steady - handler_dead_since s \<ge> c_handler_restart_delay_ms (config s)
                  then (case spawn_handler_process env s of
                          (e, s') \<Rightarrow> (e, s'\<lparr>handler_needs_restart := False\<rparr>))
                  else ([], s))
            else ([], s\<lparr>handler_needs_restart := False\<rparr>))
      else ([], s))"

text \<open>The part of the pass that works on the registry.\<close>

definition enforce_limits ::
  "supervisor_config \<Rightarrow> os_env \<Rightarrow> u64 \<Rightarrow> registry \<Rightarrow> effect list \<times> registry" where
  "enforce_limits cfg env now_ms r =
     (let r0 = cleanup_historical_processes r now_ms 60000;
          (e1, r1) = check_heartbeats cfg env now_ms r0;
          trees = get_all_tree_ids_with_created_at r1;
          (e2, r2) = fold (check_tree cfg env now_ms) trees (e1, r1);
          r3 = fold (\<lambda>(tree_id, created) r. snd (mark_tree_completed_if_done r tree_id)) trees r2
      in (e2, r3))"

definition watchdog_pass :: "os_env \<Rightarrow> u64 \<Rightarrow> int \<Rightarrow> supervisor \<Rightarrow> effect list \<times> supervisor" where
  "watchdog_pass env now_ms steady s =
     (let (e1, r1) = enforce_limits (config s) env now_ms (reg s);
          s1 = expire_convos now_ms (s\<lparr>reg := r1\<rparr>);
          (e2, s2) = monitor_handler env steady s1
      in (e1 @ e2, s2))"

text \<open>The loop: passes until \<open>running\<close> is cleared, which the schedule says before each pass.\<close>

fun watchdog_loop :: "(os_env \<times> u64 \<times> int) list \<Rightarrow> supervisor \<Rightarrow> effect list \<times> supervisor" where
  "watchdog_loop [] s = ([], s)"
| "watchdog_loop ((env, now, steady) # rest) s =
     (if \<not> running s then ([], s)
      else case watchdog_pass env now steady s of
        (e1, s1) \<Rightarrow> (case watchdog_loop rest s1 of (e2, s2) \<Rightarrow> (e1 @ e2, s2)))"

section \<open>Shutdown\<close>

definition stop :: "os_env \<Rightarrow> supervisor \<Rightarrow> effect list \<times> supervisor" where
  "stop env s =
     (if \<not> running s then ([], s)
      else
        (let targets = map entry_target (snapshot_for_watchdog (reg s));
             s1 = s\<lparr>running := False\<rparr>
         in if targets \<noteq> []
            then (case kill_processes (oe_kill env) (oe_clock env) targets ''supervisor_shutdown''
                         (c_terminate_grace_ms (config s)) (reg s) of
                    (effs, r) \<Rightarrow> (effs, s1\<lparr>reg := r\<rparr>))
            else ([], s1)))"

section \<open>Lemmas\<close>

lemma entry_target_pid [simp]: "tt_velix_pid (entry_target e) = w_pid e"
  by (simp add: entry_target_def)

lemma check_heartbeats_eq:
  "check_heartbeats cfg env now r =
     kill_processes (oe_kill env) (oe_clock env)
       (map entry_target (filter (heartbeat_stale cfg now) (snapshot_for_watchdog r)))
       ''heartbeat_timeout'' (c_terminate_grace_ms cfg) r"
  by (simp add: check_heartbeats_def Let_def)

lemma kill_tree_processes_eq:
  "kill_tree_processes cfg env reason t r =
     kill_processes (oe_kill env) (oe_clock env)
       (live_targets (snd (kill_tree r t)) t (fst (kill_tree r t))) reason
       (c_terminate_grace_ms cfg) (snd (kill_tree r t))"
  by (simp add: kill_tree_processes_def live_targets_def split: prod.splits)

lemma live_kill_tree_processes:
  assumes "registry_wf r"
  shows "live_map (snd (kill_tree_processes cfg env reason t r)) q =
    (if live_map r q = Some t then None else live_map r q)"
proof -
  have "q \<in> set (fst (kill_tree r t)) \<and> live_map r q \<noteq> None \<longleftrightarrow> live_map r q = Some t"
    using assms unfolding registry_wf_def index_sound_def index_complete_def
    by (fastforce simp: kill_tree_def Let_def live_in_def live_map_def split: option.splits if_splits)
  then show ?thesis
    by (auto simp: kill_tree_processes_eq live_kill_processes pid_in_live_targets)
qed

subsection \<open>Kills do not change what the limits are measured on\<close>

definition same_measures :: "registry \<Rightarrow> registry \<Rightarrow> bool" where
  "same_measures r r' \<longleftrightarrow>
     (\<forall>t. compute_tree_memory_mb r' t = compute_tree_memory_mb r t) \<and>
     (\<forall>t. map_option (\<lambda>x. (t_llm_request_count x, t_created_at_ms x)) (tget (tree_table r') t) =
          map_option (\<lambda>x. (t_llm_request_count x, t_created_at_ms x)) (tget (tree_table r) t))"

lemma same_measures_refl [simp]: "same_measures r r"
  by (simp add: same_measures_def)

lemma same_measures_trans: "same_measures a b \<Longrightarrow> same_measures b c \<Longrightarrow> same_measures a c"
  by (simp add: same_measures_def)

lemma memory_cong:
  assumes "\<And>pid. pid \<in> set (members (tree_process_index r) t) \<Longrightarrow>
      map_option p_memory_mb (tget (process_table r') pid) = map_option p_memory_mb (tget (process_table r) pid)"
    and "tree_process_index r' = tree_process_index r"
  shows "compute_tree_memory_mb r' t = compute_tree_memory_mb r t"
proof -
  have "pid \<in> set (members (tree_process_index r) t) \<Longrightarrow>
      (case tget (process_table r') pid of None \<Rightarrow> total | Some p \<Rightarrow> total + p_memory_mb p) =
      (case tget (process_table r) pid of None \<Rightarrow> total | Some p \<Rightarrow> total + p_memory_mb p)" for pid total
    using assms(1) [of pid] by (auto split: option.splits)
  then show ?thesis
    unfolding compute_tree_memory_mb_def assms(2) by (intro fold_cong) (auto simp: fun_eq_iff)
qed

lemma same_measures_mark: "same_measures r (mark_process_killed r pid)"
  unfolding same_measures_def
  by (auto simp: mark_process_killed_def option.map_comp comp_def split: option.splits
      intro!: memory_cong)

lemma same_measures_kill_processes:
  "same_measures r (snd (kill_processes os_kill clock targets reason grace r))"
proof -
  have "same_measures r (fold (\<lambda>pid r. mark_process_killed r pid) pids r)" for pids
    by (induction pids arbitrary: r) (auto intro: same_measures_trans same_measures_mark)
  then show ?thesis by (simp add: kill_processes_registry)
qed

lemma same_measures_kill_tree: "same_measures r (snd (kill_tree r t))"
  unfolding same_measures_def
  by (auto simp: kill_tree_def Let_def option.map_comp comp_def tget_fold_tmodify
      intro!: memory_cong)

lemma same_measures_kill_tree_processes:
  "same_measures r (snd (kill_tree_processes cfg env reason t r))"
  unfolding kill_tree_processes_eq
  by (rule same_measures_trans [OF same_measures_kill_tree same_measures_kill_processes])

lemma same_measures_cleanup:
  assumes "registry_wf r"
  shows "same_measures r (cleanup_historical_processes r now ret)"
proof -
  have "p_termination_time_ms p = 0"
    if "pid \<in> set (members (tree_process_index r) t)" "tget (process_table r) pid = Some p" for t pid p
    using assms that unfolding registry_wf_def index_sound_def by (metis option.inject)
  then show ?thesis
    unfolding same_measures_def cleanup_historical_processes_def
    by (auto intro!: memory_cong simp: tget_filter [OF wf_tablesD(1) [OF assms]] expired_def
        split: option.splits)
qed

lemma same_measures_exceeded:
  assumes "same_measures r r'"
  shows "memory_exceeded cfg r' t = memory_exceeded cfg r t" "llm_exceeded cfg r' t = llm_exceeded cfg r t"
proof -
  show "memory_exceeded cfg r' t = memory_exceeded cfg r t"
    using assms by (simp add: same_measures_def memory_exceeded_def)
  have "map_option (\<lambda>x. (t_llm_request_count x, t_created_at_ms x)) (tget (tree_table r') t) =
          map_option (\<lambda>x. (t_llm_request_count x, t_created_at_ms x)) (tget (tree_table r) t)"
    using assms by (simp add: same_measures_def)
  then show "llm_exceeded cfg r' t = llm_exceeded cfg r t"
    by (auto simp: llm_exceeded_def get_tree_status_def split: option.splits)
qed

subsection \<open>The pass over the trees\<close>

definition tree_violation :: "supervisor_config \<Rightarrow> u64 \<Rightarrow> registry \<Rightarrow> string \<Rightarrow> u64 \<Rightarrow> bool" where
  "tree_violation cfg now r t created \<longleftrightarrow>
     t \<noteq> ''TREE_HANDLER'' \<and>
     (runtime_exceeded cfg now created \<or> memory_exceeded cfg r t \<or> llm_exceeded cfg r t)"

lemma tree_violation_cong: "same_measures r r' \<Longrightarrow> tree_violation cfg now r' t c = tree_violation cfg now r t c"
  by (simp add: tree_violation_def same_measures_exceeded)

lemma enforce_facts:
  assumes "registry_wf r"
  shows "registry_wf (snd (enforce cfg env reason t over (effs, r))) \<and>
    same_measures r (snd (enforce cfg env reason t over (effs, r))) \<and>
    live_map (snd (enforce cfg env reason t over (effs, r))) q =
      (if over r \<and> live_map r q = Some t then None else live_map r q)"
  using assms wf_kill_tree_processes [OF assms, of cfg env reason t]
    same_measures_kill_tree_processes [of r cfg env reason t]
    live_kill_tree_processes [OF assms, of cfg env reason t q]
  by (auto simp: enforce_def split: prod.splits)

lemma check_tree_facts:
  assumes wf: "registry_wf r"
  shows "registry_wf (snd (check_tree cfg env now (t, c) (effs, r))) \<and>
    same_measures r (snd (check_tree cfg env now (t, c) (effs, r))) \<and>
    live_map (snd (check_tree cfg env now (t, c) (effs, r))) q =
      (if tree_violation cfg now r t c \<and> live_map r q = Some t then None else live_map r q)"
proof (cases "t = ''TREE_HANDLER''")
  case True
  then show ?thesis using wf by (simp add: check_tree_def tree_violation_def)
next
  case False
  obtain e1 r1 where 1: "enforce cfg env ''tree_runtime_limit'' t (\<lambda>r. runtime_exceeded cfg now c) (effs, r) = (e1, r1)"
    by fastforce
  obtain e2 r2 where 2: "enforce cfg env ''tree_memory_limit'' t (\<lambda>r. memory_exceeded cfg r t) (e1, r1) = (e2, r2)"
    by fastforce
  obtain e3 r3 where 3: "enforce cfg env ''tree_llm_limit'' t (\<lambda>r. llm_exceeded cfg r t) (e2, r2) = (e3, r3)"
    by fastforce
  note f1 = enforce_facts [OF wf, of cfg env "''tree_runtime_limit''" t "\<lambda>r. runtime_exceeded cfg now c" effs, unfolded 1 snd_conv]
  have wf1: "registry_wf r1" and m1: "same_measures r r1" using f1 by blast+
  note f2 = enforce_facts [OF wf1, of cfg env "''tree_memory_limit''" t "\<lambda>r. memory_exceeded cfg r t" e1, unfolded 2 snd_conv]
  have wf2: "registry_wf r2" and m2: "same_measures r1 r2" using f2 by blast+
  note f3 = enforce_facts [OF wf2, of cfg env "''tree_llm_limit''" t "\<lambda>r. llm_exceeded cfg r t" e2, unfolded 3 snd_conv]
  have "snd (check_tree cfg env now (t, c) (effs, r)) = r3"
    using False by (simp add: check_tree_def 1 2 3)
  moreover have "registry_wf r3" using f3 by blast
  moreover have "same_measures r r3" using f1 f2 f3 by (blast intro: same_measures_trans)
  moreover have "live_map r3 q = (if tree_violation cfg now r t c \<and> live_map r q = Some t then None else live_map r q)"
    using f1 [of q] f2 [of q] f3 [of q] False m1 m2 same_measures_trans [OF m1 m2]
    by (auto simp: tree_violation_def same_measures_exceeded)
  ultimately show ?thesis by blast
qed

lemma check_trees_facts:
  assumes "registry_wf r"
  shows "registry_wf (snd (fold (check_tree cfg env now) trees (effs, r))) \<and>
    same_measures r (snd (fold (check_tree cfg env now) trees (effs, r))) \<and>
    live_map (snd (fold (check_tree cfg env now) trees (effs, r))) q =
      (if \<exists>t c. (t, c) \<in> set trees \<and> live_map r q = Some t \<and> tree_violation cfg now r t c
       then None else live_map r q)"
  using assms
proof (induction trees arbitrary: effs r)
  case (Cons tc trees)
  obtain t c where tc: "tc = (t, c)" by (cases tc)
  obtain e1 r1 where 1: "check_tree cfg env now (t, c) (effs, r) = (e1, r1)" by fastforce
  note f1 = check_tree_facts [OF Cons.prems, of cfg env now t c effs, unfolded 1 snd_conv]
  have "registry_wf r1" and m: "same_measures r r1" using f1 by blast+
  note f2 = Cons.IH [OF \<open>registry_wf r1\<close>, of e1]
  have "fold (check_tree cfg env now) (tc # trees) (effs, r) = fold (check_tree cfg env now) trees (e1, r1)"
    by (simp add: tc 1)
  moreover have "live_map (snd (fold (check_tree cfg env now) trees (e1, r1))) q =
      (if \<exists>t' c'. (t', c') \<in> set (tc # trees) \<and> live_map r q = Some t' \<and> tree_violation cfg now r t' c'
       then None else live_map r q)"
  proof (cases "tree_violation cfg now r t c \<and> live_map r q = Some t")
    case True
    with f1 have "live_map r1 q = None" by simp
    with f2 True show ?thesis by (auto simp: tc)
  next
    case False
    with f1 have "live_map r1 q = live_map r q" by simp
    with f2 False show ?thesis unfolding tree_violation_cong [OF m] by (auto simp: tc)
  qed
  ultimately show ?case using f2 same_measures_trans [OF m] by simp
qed simp

lemma live_fold_completed_pairs [simp]:
  "live_map (fold (\<lambda>(t, c) r. snd (mark_tree_completed_if_done r t)) trees r) = live_map r"
  by (induction trees arbitrary: r) (auto simp: case_prod_unfold)

lemma wf_fold_completed_pairs:
  "registry_wf r \<Longrightarrow> registry_wf (fold (\<lambda>(t, c) r. snd (mark_tree_completed_if_done r t)) trees r)"
  by (induction trees arbitrary: r) (auto simp: case_prod_unfold intro: wf_mark_tree_completed)

lemma heartbeat_targets:
  assumes "registry_wf r"
  shows "q \<in> tt_velix_pid ` set (map entry_target (filter (heartbeat_stale cfg now) (snapshot_for_watchdog r))) \<longleftrightarrow>
    (\<exists>p. tget (process_table r) q = Some p \<and> p_alive p \<and> heartbeat_stale cfg now (watchdog_entry_of r q p))"
  by (auto simp: snapshot_iff [OF assms] image_iff) (metis watchdog_entry_of_simps(1))

lemma enforce_limits_facts:
  assumes wf: "registry_wf r"
  shows "registry_wf (snd (enforce_limits cfg env now r)) \<and>
    live_map (snd (enforce_limits cfg env now r)) q =
      (case tget (process_table r) q of
         None \<Rightarrow> None
       | Some p \<Rightarrow>
           if p_alive p \<and> \<not> heartbeat_stale cfg now (watchdog_entry_of r q p) \<and>
              (\<forall>x. tget (tree_table r) (p_tree_id p) = Some x \<longrightarrow>
                 \<not> tree_violation cfg now r (p_tree_id p) (t_created_at_ms x))
           then Some (p_tree_id p) else None)"
proof -
  define r0 where "r0 = cleanup_historical_processes r now 60000"
  obtain e1 r1 where 1: "check_heartbeats cfg env now r0 = (e1, r1)" by fastforce
  let ?trees = "get_all_tree_ids_with_created_at r1"
  let ?r2 = "snd (fold (check_tree cfg env now) ?trees (e1, r1))"
  have wf0: "registry_wf r0" unfolding r0_def using wf by (rule wf_cleanup)
  have r1: "r1 = snd (check_heartbeats cfg env now r0)" by (simp add: 1)
  have wf1: "registry_wf r1" unfolding r1 check_heartbeats_eq using wf0 by (rule wf_kill_processes)
  have m: "same_measures r r1"
    unfolding r1 check_heartbeats_eq r0_def
    by (rule same_measures_trans [OF same_measures_cleanup [OF wf] same_measures_kill_processes])
  have tt: "tree_table r1 = tree_table r"
    unfolding r1 check_heartbeats_eq r0_def
    by (simp add: kill_processes_frame cleanup_historical_processes_def)
  have live0: "tget (process_table r0) q = Some p \<and> p_alive p \<longleftrightarrow> tget (process_table r) q = Some p \<and> p_alive p" for p
    unfolding r0_def cleanup_historical_processes_def
    by (auto simp: tget_filter [OF wf_tablesD(1) [OF wf]] expired_def split: option.splits)
  have ent: "watchdog_entry_of r0 q p = watchdog_entry_of r q p" for p
    by (simp add: r0_def watchdog_entry_of_def cleanup_historical_processes_def)
  have trees: "(t, c) \<in> set ?trees \<longleftrightarrow> (\<exists>x. tget (tree_table r) t = Some x \<and> c = t_created_at_ms x)" for t c
    using in_table_tget [of "tree_table r"] wf
    by (fastforce simp: get_all_tree_ids_with_created_at_def tt registry_wf_def trees_ok_def)
  have live1: "live_map r1 q =
      (if \<exists>p. tget (process_table r) q = Some p \<and> p_alive p \<and> heartbeat_stale cfg now (watchdog_entry_of r q p)
       then None else live_map r q)"
  proof -
    have "live_map r0 q = live_map r q" unfolding r0_def using wf by simp
    then show ?thesis
      unfolding r1 check_heartbeats_eq live_kill_processes heartbeat_targets [OF wf0]
      using live0 ent by auto
  qed
  have fin: "snd (enforce_limits cfg env now r) =
      fold (\<lambda>(t, c) r. snd (mark_tree_completed_if_done r t)) ?trees ?r2"
    by (simp add: enforce_limits_def Let_def r0_def [symmetric] 1 split: prod.splits)
  note f = check_trees_facts [OF wf1, of cfg env now ?trees e1]
  have wf2: "registry_wf ?r2" using f by blast
  have live2: "live_map (snd (enforce_limits cfg env now r)) q =
      (if \<exists>t x. tget (tree_table r) t = Some x \<and> live_map r1 q = Some t \<and>
            tree_violation cfg now r t (t_created_at_ms x)
       then None else live_map r1 q)"
    unfolding fin live_fold_completed_pairs using f [of q]
    by (auto simp: trees tree_violation_cong [OF m])
  have "registry_wf (snd (enforce_limits cfg env now r))"
    unfolding fin using wf2 by (rule wf_fold_completed_pairs)
  moreover note live2 live1
  ultimately show ?thesis
    by (cases "tget (process_table r) q") (auto simp: live_map_def [of r])
qed

subsection \<open>The rest of the pass\<close>

lemma expire_fold_frame:
  "reg (fold (\<lambda>cid s. s\<lparr>convo_metadata := tdel cid (convo_metadata s),
       process_convos := map (\<lambda>(pid, cs). (pid, uerase cid cs)) (process_convos s)\<rparr>) cids s) = reg s"
  "convo_metadata (fold (\<lambda>cid s. s\<lparr>convo_metadata := tdel cid (convo_metadata s),
       process_convos := map (\<lambda>(pid, cs). (pid, uerase cid cs)) (process_convos s)\<rparr>) cids s) =
     fold tdel cids (convo_metadata s)"
  "process_convos (fold (\<lambda>cid s. s\<lparr>convo_metadata := tdel cid (convo_metadata s),
       process_convos := map (\<lambda>(pid, cs). (pid, uerase cid cs)) (process_convos s)\<rparr>) cids s) =
     map (\<lambda>(pid, cs). (pid, filter (\<lambda>c. c \<notin> set cids) cs)) (process_convos s)"
proof (induction cids arbitrary: s)
  case (Cons c cids)
  case 3
  from Cons(3) show ?case
    by (auto simp: case_prod_unfold removeAll_filter_not_eq intro: filter_cong)
qed (auto simp: case_prod_unfold)

lemma expire_convos_reg [simp]: "reg (expire_convos now s) = reg s"
  by (simp add: expire_convos_def Let_def expire_fold_frame)

lemma spawn_reg [simp]: "reg (snd (spawn_handler_process env s)) = reg s"
  by (simp add: spawn_handler_process_def Let_def split: prod.splits)

lemma monitor_reg [simp]: "reg (snd (monitor_handler env steady s)) = reg s"
  by (simp add: monitor_handler_def Let_def case_prod_unfold)

lemma watchdog_pass_reg: "reg (snd (watchdog_pass env now steady s)) = snd (enforce_limits (config s) env now (reg s))"
  using monitor_reg by (simp add: watchdog_pass_def Let_def case_prod_unfold)

lemma expired_convo_ids:
  "table_ok (convo_metadata s) \<Longrightarrow>
     cid \<in> set (map fst (filter (\<lambda>(cid, m). convo_expired (config s) now m) (convo_metadata s))) \<longleftrightarrow>
     (\<exists>m. tget (convo_metadata s) cid = Some m \<and> convo_expired (config s) now m)"
  using in_table_tget [of "convo_metadata s" cid] by force

section \<open>Properties\<close>

text \<open>C13: a pass of the supervisor's watchdog kills exactly the violators. A process is live after it,
  in tree \<open>t\<close>, if and only if it was live in \<open>t\<close> before, its heartbeat was not stale, and, unless
  \<open>t\<close> is the handler tree, \<open>t\<close> was within its run time, memory and LLM request limits, all measured
  on the state before the pass; and the registry stays well formed.\<close>

theorem watchdog_pass_exact:
  assumes "registry_wf (reg s)"
    and "watchdog_pass env now steady s = (effs, s')"
  shows "registry_wf (reg s') \<and>
    (live_map (reg s') q = Some t \<longleftrightarrow>
      (\<exists>p. get_process (reg s) q = Some p \<and> p_alive p \<and> p_tree_id p = t \<and>
         \<not> heartbeat_stale (config s) now (watchdog_entry_of (reg s) q p) \<and>
         (t = ''TREE_HANDLER'' \<or>
          (\<forall>x. tget (tree_table (reg s)) t = Some x \<longrightarrow>
             \<not> runtime_exceeded (config s) now (t_created_at_ms x) \<and>
             \<not> memory_exceeded (config s) (reg s) t \<and> \<not> llm_exceeded (config s) (reg s) t))))"
proof -
  have "reg s' = snd (enforce_limits (config s) env now (reg s))"
    using watchdog_pass_reg [of env now steady s] assms(2) by simp
  with enforce_limits_facts [OF assms(1), of "config s" env now q] show ?thesis
    by (auto simp: get_process_def tree_violation_def split: option.splits if_splits)
qed

definition demo_running :: supervisor where
  "demo_running = (SupervisorService (SupervisorConfig\<lparr>c_handler_binary := ''h''\<rparr>) 5)\<lparr>reg := demo_registry,
     running := True, handler_needs_restart := True,
     convo_metadata := [(''c'', \<lparr>m_convo_id = ''c'', m_user_id = [], m_creator_pid = 1000, m_created_at_ms = 1\<rparr>)]\<rparr>"

lemma demo_running_simps [simp]:
  "reg demo_running = demo_registry" "running demo_running"
  "config demo_running = SupervisorConfig\<lparr>c_handler_binary := ''h''\<rparr>"
  "handler_needs_restart demo_running" "handler_velix_pid demo_running = -1"
  "handler_dead_since demo_running = 0" "handler_os_pid demo_running = -1"
  "convo_metadata demo_running = [(''c'', \<lparr>m_convo_id = ''c'', m_user_id = [], m_creator_pid = 1000, m_created_at_ms = 1\<rparr>)]"
  by (simp_all add: demo_running_def SupervisorService_def)

theorem watchdog_pass_exact_witness:
  "live_map (reg (snd (watchdog_pass demo_env 100 1 demo_running))) 1000 = Some ''TREE_1''"
proof -
  obtain effs s' where eq: "watchdog_pass demo_env 100 1 demo_running = (effs, s')" by fastforce
  from watchdog_pass_exact [OF _ eq, of 1000 "''TREE_1''"] demo_wf eq show ?thesis
    by (simp add: get_process_def demo_registry_def demo_process_def make_process_def
        heartbeat_stale_def runtime_exceeded_def memory_exceeded_def llm_exceeded_def
        SupervisorConfig_def compute_tree_memory_mb_def members_def get_tree_status_def)
qed

text \<open>stopping a running supervisor leaves no process live.\<close>

theorem stop_kills_everyone:
  assumes "registry_wf (reg s)" and "running s" and "stop env s = (effs, s')"
  shows "live_map (reg s') q = None \<and> running s' = False"
proof -
  let ?targets = "map entry_target (snapshot_for_watchdog (reg s))"
  have eq: "reg s' = snd (kill_processes (oe_kill env) (oe_clock env) ?targets ''supervisor_shutdown''
      (c_terminate_grace_ms (config s)) (reg s))" "running s' = False"
    using assms(2,3) by (cases "snapshot_for_watchdog (reg s) = []"; auto simp: stop_def Let_def split: prod.splits)+
  have "q \<in> tt_velix_pid ` set ?targets \<or> live_map (reg s) q = None"
  proof (cases "live_map (reg s) q")
    case (Some t)
    then obtain p where "tget (process_table (reg s)) q = Some p" "p_alive p"
      by (auto simp: live_map_def split: option.splits if_splits)
    then have "watchdog_entry_of (reg s) q p \<in> set (snapshot_for_watchdog (reg s))"
      by (auto simp: snapshot_iff [OF assms(1)])
    then show ?thesis by (force simp: image_iff)
  qed simp
  then show ?thesis by (auto simp: eq live_kill_processes)
qed

theorem stop_kills_everyone_witness:
  "live_map demo_registry 1000 \<noteq> None \<and> live_map (reg (snd (stop demo_env demo_running))) 1000 = None"
proof -
  obtain effs s' where eq: "stop demo_env demo_running = (effs, s')" by fastforce
  from stop_kills_everyone [OF _ _ eq, of 1000] demo_wf eq show ?thesis
    by (simp add: live_map_def demo_registry_def demo_process_def make_process_def)
qed

text \<open>the conversation sweep removes exactly the conversations that are older than the time to
  live, from the metadata and from every process's set.\<close>

theorem expire_convos_exact:
  assumes "table_ok (convo_metadata s)"
  shows "(tget (convo_metadata (expire_convos now s)) cid =
      (case tget (convo_metadata s) cid of None \<Rightarrow> None
       | Some m \<Rightarrow> if convo_expired (config s) now m then None else Some m)) \<and>
    process_convos (expire_convos now s) =
      map (\<lambda>(pid, cs). (pid, filter (\<lambda>c. \<not> (\<exists>m. tget (convo_metadata s) c = Some m \<and>
        convo_expired (config s) now m)) cs)) (process_convos s)"
  using expired_convo_ids [OF assms, of _ now]
  by (auto simp: expire_convos_def Let_def expire_fold_frame tbl.get_fold_del split: option.splits)

theorem expire_convos_exact_witness:
  "tget (convo_metadata (expire_convos 90000000 demo_running)) ''c'' = None"
  using expire_convos_exact [of demo_running 90000000 "''c''"]
  by (simp add: table_ok_def convo_expired_def SupervisorConfig_def)

text \<open>the handler is spawned by the watchdog only when restarting is configured, the monitored
  process is not live, a previous pass already found it dead, and the configured delay has passed
  since; the pass then clears the flag.\<close>

theorem handler_restart_guarded:
  assumes "monitor_handler env steady s = (effs, s')" and "Spawn_Handler b args \<in> set effs"
  shows "c_handler_auto_restart (config s) \<and> b = c_handler_binary (config s) \<and> b \<noteq> [] \<and>
    args = c_handler_args (config s) \<and>
    (handler_velix_pid s \<le> 0 \<or> live_map (reg s) (handler_velix_pid s) = None) \<and>
    handler_needs_restart s \<and> handler_needs_restart s' = False \<and>
    c_handler_restart_delay_ms (config s) \<le> steady - handler_dead_since s \<and>
    handler_os_pid s' = oe_fork env"
proof -
  have spawn: "spawn_handler_process env s = (e, s1) \<Longrightarrow> Spawn_Handler b args \<in> set e \<Longrightarrow>
      b = c_handler_binary (config s) \<and> b \<noteq> [] \<and> args = c_handler_args (config s) \<and>
      handler_os_pid s1 = oe_fork env" for e s1
    by (auto simp: spawn_handler_process_def Let_def split: if_splits prod.splits)
  with assms show ?thesis
    by (auto simp: monitor_handler_def Let_def live_map_def get_process_def
        split: if_splits prod.splits option.splits)
qed

theorem handler_restart_guarded_witness:
  "handler_os_pid (snd (monitor_handler demo_env 5000 demo_running)) = 77"
proof -
  obtain effs s' where eq: "monitor_handler demo_env 5000 demo_running = (effs, s')" by fastforce
  then have "Spawn_Handler ''h'' [] \<in> set effs"
    by (auto simp: monitor_handler_def Let_def spawn_handler_process_def demo_env_def
        SupervisorConfig_def)
  from handler_restart_guarded [OF eq this] eq show ?thesis by (simp add: demo_env_def)
qed

text \<open>once the watchdog has killed a process of the handler tree for a missed heartbeat, no
  registration of a handler is ever accepted again, in any later state of the registry: the
  replacement that the restart logic spawns can never register.\<close>

theorem killed_handler_blocks_restart:
  assumes "registry_wf r" and "get_process r pid = Some p" and "p_alive p"
    and "p_tree_id p = ''TREE_HANDLER''" and "heartbeat_stale cfg now (watchdog_entry_of r pid p)"
    and "reg_run (snd (check_heartbeats cfg env now r)) pids (reg s)"
  shows "choose_tree s ''handler'' intent src os =
    Inl (error_fields ''handler_role_reserved_for_bootstrap'' [])"
proof -
  let ?ts = "map entry_target (filter (heartbeat_stale cfg now) (snapshot_for_watchdog r))"
  have "pid \<in> tt_velix_pid ` set ?ts"
    unfolding heartbeat_targets [OF assms(1)] using assms(2-5) by (auto simp: get_process_def)
  then obtain target where t: "target \<in> set ?ts" "tt_velix_pid target = pid" by blast
  have "live_map r (tt_velix_pid target) = Some ''TREE_HANDLER''"
    using assms(2-4) t(2) by (simp add: live_map_def get_process_def)
  from kill_strands [OF assms(1) this t(1)]
  have "stranded pid ''TREE_HANDLER'' (snd (check_heartbeats cfg env now r))"
    unfolding check_heartbeats_eq t(2) by blast
  moreover have "registry_wf (snd (check_heartbeats cfg env now r))"
    unfolding check_heartbeats_eq using assms(1) by (rule wf_kill_processes)
  ultimately have "stranded pid ''TREE_HANDLER'' (reg s)" using stranded_run [OF assms(6)] by blast
  then show ?thesis by (auto simp: choose_tree_def Let_def stranded_def)
qed

definition demo_handler_registry :: registry where
  "demo_handler_registry = snd (register_process ProcessRegistry 7 50 [] (-1) ''handler'' [] RUNNING 0 True)"

theorem killed_handler_blocks_restart_witness:
  "choose_tree (demo_running\<lparr>reg := snd (check_heartbeats SupervisorConfig demo_env 90000 demo_handler_registry)\<rparr>)
     ''handler'' ''NEW_TREE'' (-1) 51 = Inl (error_fields ''handler_role_reserved_for_bootstrap'' [])"
proof (rule killed_handler_blocks_restart [where p = "make_process 1000 50 (-1) ''TREE_HANDLER'' ''handler'' [] RUNNING 0 7"
      and r = demo_handler_registry and pid = 1000 and cfg = SupervisorConfig and now = 90000 and env = demo_env])
  show "registry_wf demo_handler_registry"
    unfolding demo_handler_registry_def
    by (rule wf_register_process [OF wf_init]) (simp add: ProcessRegistry_def)
  show "get_process demo_handler_registry 1000 =
      Some (make_process 1000 50 (-1) ''TREE_HANDLER'' ''handler'' [] RUNNING 0 7)"
    by (simp add: demo_handler_registry_def register_process_def resolve_tree_def Let_def
        ProcessRegistry_def on_process_registered_unlocked_def get_process_def)
  show "reg_run (snd (check_heartbeats SupervisorConfig demo_env 90000 demo_handler_registry)) []
     (reg (demo_running\<lparr>reg := snd (check_heartbeats SupervisorConfig demo_env 90000 demo_handler_registry)\<rparr>))"
    by (simp add: run_refl)
qed (simp_all add: make_process_def heartbeat_stale_def SupervisorConfig_def)

end
