(* ===== verification/Framing.thy ===== *)
theory Framing
  imports Json
begin

unbundle bit_operations_syntax

text \<open>
  \<^verbatim>\<open>communication/asio_framing.hpp\<close>, \<^verbatim>\<open>communication/recv.cpp\<close> and
  \<^verbatim>\<open>communication/send.cpp\<close>: messages on the wire are a four byte big endian length followed by
  that many bytes. The blocking side reads and writes through a socket whose partial transfers,
  failures and time-outs are given by a schedule, so that the theorems hold for every way the
  kernel may split the stream. Parsing of JSON text is a parameter.
\<close>

type_synonym byte = "8 word"

section \<open>Length header\<close>

definition decode_frame_length :: "byte list \<Rightarrow> u32" where
  "decode_frame_length header =
     push_bit 24 (ucast (header ! 0)) OR push_bit 16 (ucast (header ! 1)) OR
     push_bit 8 (ucast (header ! 2)) OR ucast (header ! 3)"

definition encode_frame_length :: "u32 \<Rightarrow> byte list" where
  "encode_frame_length len =
     [ucast (drop_bit 24 len AND 0xff), ucast (drop_bit 16 len AND 0xff),
      ucast (drop_bit 8 len AND 0xff), ucast (len AND 0xff)]"

definition make_frame :: "byte list \<Rightarrow> byte list" where
  "make_frame payload = encode_frame_length (of_nat (length payload)) @ payload"

lemma length_encode_frame_length [simp]: "length (encode_frame_length len) = 4"
  by (simp add: encode_frame_length_def)

lemma low_byte: "(ucast (x AND 0xff) :: byte) = ucast (x :: u32)"
proof -
  have ff: "(0xff :: u32) = mask 8" by (simp add: mask_eq_exp_minus_1)
  show ?thesis unfolding ff by (rule bit_word_eqI) (simp add: bit_simps)
qed

lemma byte_bit_high: "8 \<le> n \<Longrightarrow> \<not> bit (b :: byte) n"
  using bit_imp_le_length [of b n] by auto

lemma decode_encode_frame_length [simp]: "decode_frame_length (encode_frame_length len) = len"
proof (rule bit_word_eqI)
  fix n
  assume "n < LENGTH(32)"
  then consider "n < 8" | "8 \<le> n" "n < 16" | "16 \<le> n" "n < 24" | "24 \<le> n" "n < 32"
    by fastforce
  then show "bit (decode_frame_length (encode_frame_length len)) n = bit len n"
    by cases (auto simp: decode_frame_length_def encode_frame_length_def low_byte bit_simps)
qed

lemma encode_decode_frame_length:
  "encode_frame_length (decode_frame_length [a, b, c, d]) = [a, b, c, d]"
  unfolding decode_frame_length_def encode_frame_length_def low_byte
  by (auto intro!: bit_word_eqI simp: bit_simps byte_bit_high)

section \<open>Reading a frame\<close>

datatype frame_error = Stream_Error | Message_Size

text \<open>\<open>asio::async_read\<close> of a fixed number of bytes: it completes with exactly that many, or with an
  error when the stream ends first.\<close>

definition read_exact :: "nat \<Rightarrow> byte list \<Rightarrow> (byte list \<times> byte list) option" where
  "read_exact n stream = (if length stream < n then None else Some (take n stream, drop n stream))"

definition async_read_frame :: "u32 \<Rightarrow> byte list \<Rightarrow> frame_error + byte list \<times> byte list" where
  "async_read_frame max_message_bytes stream =
     (case read_exact 4 stream of
        None \<Rightarrow> Inl Stream_Error
      | Some (header, rest) \<Rightarrow>
          (let len = decode_frame_length header
           in if len = 0 \<or> len > max_message_bytes then Inl Message_Size
              else case read_exact (unat len) rest of
                     None \<Rightarrow> Inl Stream_Error
                   | Some (payload, rest') \<Rightarrow> Inr (payload, rest')))"

section \<open>The blocking side\<close>

text \<open>A socket: the bytes that the peer sends before it closes, and what the next calls of \<open>recv\<close>
  do: fail, or hand over at most the given number of bytes (at least one). When the schedule is
  used up, a call hands over all it can.\<close>

record rx_socket =
  rx :: "byte list"
  rx_sched :: "nat option list"

datatype recv_result = Recv_Error | Received "byte list"

definition sock_recv :: "rx_socket \<Rightarrow> nat \<Rightarrow> recv_result \<times> rx_socket" where
  "sock_recv s n =
     (case rx_sched s of
        [] \<Rightarrow> (Received (take n (rx s)), s\<lparr>rx := drop n (rx s)\<rparr>)
      | None # sched \<Rightarrow> (Recv_Error, s\<lparr>rx_sched := sched\<rparr>)
      | Some k # sched \<Rightarrow>
          (let m = min n (max 1 k)
           in (Received (take m (rx s)), s\<lparr>rx := drop m (rx s), rx_sched := sched\<rparr>)))"

lemma sock_recv_split:
  "sock_recv s n = (Received bs, s') \<Longrightarrow> rx s = bs @ rx s' \<and> length bs \<le> n"
  by (auto simp: sock_recv_def Let_def split: list.splits option.splits)

lemma sock_recv_empty:
  "sock_recv s n = (Received [], s') \<Longrightarrow> 0 < n \<Longrightarrow> rx s = []"
  by (auto simp: sock_recv_def Let_def min_def max_def split: list.splits option.splits if_splits)

function recv_all :: "rx_socket \<Rightarrow> nat \<Rightarrow> (byte list \<times> rx_socket) res" where
  "recv_all s len =
     (if len = 0 then Inr ([], s)
      else case sock_recv s len of
        (Recv_Error, s') \<Rightarrow> Inl (Socket_Exception ''recv failed'')
      | (Received bs, s') \<Rightarrow>
          (if bs = [] then Inl (Socket_Exception ''connection closed'')
           else rbind (recv_all s' (len - length bs)) (\<lambda>(more, s''). Inr (bs @ more, s''))))"
  by pat_completeness auto
termination
  by (relation "measure (\<lambda>(s, len). len)") (auto simp: neq_Nil_conv)

declare recv_all.simps [simp del]

definition kChunkSize :: nat where
  "kChunkSize = 65536"

function recv_chunks :: "rx_socket \<Rightarrow> nat \<Rightarrow> nat \<Rightarrow> (byte list \<times> rx_socket) res" where
  "recv_chunks s offset len =
     (if \<not> offset < len then Inr ([], s)
      else
        (let to_read = min kChunkSize (len - offset)
         in rbind (recv_all s to_read) (\<lambda>(bs, s').
              rbind (recv_chunks s' (offset + to_read) len) (\<lambda>(more, s''). Inr (bs @ more, s'')))))"
  by pat_completeness auto
termination
  by (relation "measure (\<lambda>(s, offset, len). len - offset)") (auto simp: kChunkSize_def)

declare recv_chunks.simps [simp del]

definition recv_raw :: "u32 \<Rightarrow> bool \<Rightarrow> rx_socket \<Rightarrow> (byte list \<times> rx_socket) res" where
  "recv_raw max_size is_open s =
     (if \<not> is_open then Inl (Socket_Exception ''socket not open'')
      else rbind (recv_all s 4) (\<lambda>(net_len, s').
        let len = decode_frame_length net_len
        in if len = 0 \<or> len > max_size then Inl (Socket_Exception ''invalid message size'')
           else recv_chunks s' 0 (unat len)))"

definition recv_json_parsed ::
  "(byte list \<Rightarrow> json res) \<Rightarrow> u32 \<Rightarrow> bool \<Rightarrow> rx_socket \<Rightarrow> (json \<times> rx_socket) res" where
  "recv_json_parsed parse max_size is_open s =
     rbind (recv_raw max_size is_open s) (\<lambda>(raw, s').
       case parse raw of
         Inl e \<Rightarrow> Inl (Socket_Exception (''Invalid JSON: '' @ what e))
       | Inr j \<Rightarrow> Inr (j, s'))"

text \<open>What a call of \<open>send\<close> does: accept some bytes (at least one), report that it would block at a
  time and with a result of the following \<open>select\<close>, report a closed peer, or fail. When the
  schedule is used up the rest is accepted.\<close>

datatype send_event = Sent nat | Would_Block int int | Send_Zero | Send_Error

fun send_all :: "int \<Rightarrow> send_event list \<Rightarrow> byte list \<Rightarrow> unit res \<times> byte list \<times> send_event list" where
  "send_all deadline sched [] = (Inr (), [], sched)"
| "send_all deadline [] data = (Inr (), data, [])"
| "send_all deadline (Sent k # sched) data =
     (let m = max 1 k
      in case send_all deadline sched (drop m data) of
           (r, out, sched') \<Rightarrow> (r, take m data @ out, sched'))"
| "send_all deadline (Would_Block now sel # sched) data =
     (if now \<ge> deadline then (Inl (Socket_Exception ''send timeout''), [], sched)
      else if sel \<ge> 0 then send_all deadline sched data
      else (Inl (Socket_Exception ''select failed: ''), [], sched))"
| "send_all deadline (Send_Zero # sched) data =
     (Inl (Socket_Exception ''send returned 0 (connection closed)''), [], sched)"
| "send_all deadline (Send_Error # sched) data = (Inl (Socket_Exception ''send failed''), [], sched)"

text \<open>The result and the bytes that went out.\<close>

definition send_json ::
  "(byte list \<Rightarrow> json res) \<Rightarrow> int \<Rightarrow> bool \<Rightarrow> send_event list \<Rightarrow> byte list \<Rightarrow> unit res \<times> byte list" where
  "send_json parse deadline is_open sched text =
     (if \<not> is_open then (Inl (Socket_Exception ''socket not open''), [])
      else case parse text of
        Inl e \<Rightarrow> (Inl (Socket_Exception (''Invalid JSON: '' @ what e)), [])
      | Inr _ \<Rightarrow>
          (case send_all deadline sched (encode_frame_length (of_nat (length text))) of
             (Inl e, out, sched') \<Rightarrow> (Inl e, out)
           | (Inr _, out, sched') \<Rightarrow>
               if text = [] then (Inr (), out)
               else case send_all deadline sched' text of (r, out', _) \<Rightarrow> (r, out @ out')))"

section \<open>Reading returns a prefix of the stream\<close>

lemma recv_all_Inr:
  "recv_all s n = Inr (bs, s') \<Longrightarrow> rx s = bs @ rx s' \<and> length bs = n"
proof (induction s n arbitrary: bs s' rule: recv_all.induct)
  case (1 s len)
  show ?case
  proof (cases "len = 0")
    case True
    with 1(2) show ?thesis by (simp add: recv_all.simps)
  next
    case False
    with 1(2) obtain a s1 more where r: "sock_recv s len = (Received a, s1)" "a \<noteq> []"
      and rec: "recv_all s1 (len - length a) = Inr (more, s')" "bs = a @ more"
      by (auto simp: recv_all.simps [of s] rbind_Inr_conv split: recv_result.splits if_splits prod.splits)
    from 1(1) [OF False r(1) [symmetric] refl r(2) rec(1)] sock_recv_split [OF r(1)] rec(2)
    show ?thesis by auto
  qed
qed

lemma recv_chunks_Inr:
  "recv_chunks s offset len = Inr (bs, s') \<Longrightarrow> rx s = bs @ rx s' \<and> length bs = len - offset"
proof (induction s offset len arbitrary: bs s' rule: recv_chunks.induct)
  case (1 s offset len)
  show ?case
  proof (cases "offset < len")
    case False
    with 1(2) show ?thesis by (simp add: recv_chunks.simps)
  next
    case True
    let ?n = "min kChunkSize (len - offset)"
    from True 1(2) obtain a s1 more where r: "recv_all s ?n = Inr (a, s1)"
      and rec: "recv_chunks s1 (offset + ?n) len = Inr (more, s')" "bs = a @ more"
      by (auto simp: recv_chunks.simps [of s] Let_def rbind_Inr_conv)
    from True have "\<not> \<not> offset < len" by simp
    from 1(1) [OF this refl rec(1)] recv_all_Inr [OF r] rec(2) True
    show ?thesis by auto
  qed
qed

lemma recv_raw_Inr:
  assumes "recv_raw max_size is_open s = Inr (msg, s')"
  shows "is_open \<and> rx s = encode_frame_length (of_nat (length msg)) @ msg @ rx s' \<and>
    0 < length msg \<and> length msg \<le> unat max_size"
proof -
  obtain h s1 where h: "recv_all s 4 = Inr (h, s1)"
    and len: "decode_frame_length h \<noteq> 0" "decode_frame_length h \<le> max_size"
    and body: "recv_chunks s1 0 (unat (decode_frame_length h)) = Inr (msg, s')" and is_open
    using assms by (auto simp: recv_raw_def Let_def rbind_Inr_conv not_less split: if_splits)
  have "length h = 4" using recv_all_Inr [OF h] by simp
  then obtain a b c d where h4: "h = [a, b, c, d]"
    by (auto simp: length_Suc_conv numeral_eq_Suc)
  have m: "length msg = unat (decode_frame_length h)"
    using recv_chunks_Inr [OF body] by simp
  then have "encode_frame_length (of_nat (length msg)) = h"
    unfolding m h4 by (simp add: encode_decode_frame_length)
  moreover have "0 < length msg" using len(1) m by (simp add: unat_gt_0)
  moreover have "length msg \<le> unat max_size" using len(2) m by (simp add: word_le_nat_alt)
  ultimately show ?thesis
    using recv_all_Inr [OF h] recv_chunks_Inr [OF body] \<open>is_open\<close> by simp
qed

section \<open>Reading succeeds on every schedule without failures\<close>

definition no_failure :: "rx_socket \<Rightarrow> bool" where
  "no_failure s \<longleftrightarrow> None \<notin> set (rx_sched s)"

lemma sock_recv_ok:
  assumes "no_failure s" and "0 < n" and "rx s \<noteq> []"
  obtains bs s' where "sock_recv s n = (Received bs, s')" "bs \<noteq> []" "rx s = bs @ rx s'"
    "length bs \<le> n" "no_failure s'"
proof (cases "rx_sched s")
  case Nil
  show ?thesis
    by (rule that [of "take n (rx s)" "s\<lparr>rx := drop n (rx s)\<rparr>"])
      (use Nil assms in \<open>auto simp: sock_recv_def no_failure_def\<close>)
next
  case (Cons o' sched)
  with assms(1) obtain k where k: "o' = Some k" by (cases o') (auto simp: no_failure_def)
  let ?m = "min n (max 1 k)"
  show ?thesis
    by (rule that [of "take ?m (rx s)" "s\<lparr>rx := drop ?m (rx s), rx_sched := sched\<rparr>"])
      (use Cons k assms in \<open>auto simp: sock_recv_def no_failure_def Let_def\<close>)
qed

lemma recv_all_ok:
  "no_failure s \<Longrightarrow> n \<le> length (rx s) \<Longrightarrow>
     \<exists>s'. recv_all s n = Inr (take n (rx s), s') \<and> rx s' = drop n (rx s) \<and> no_failure s'"
proof (induction s n rule: recv_all.induct)
  case (1 s len)
  show ?case
  proof (cases "len = 0")
    case True
    then show ?thesis using 1(2) by (simp add: recv_all.simps)
  next
    case False
    with 1(3) have "rx s \<noteq> []" by auto
    with False 1(2) obtain bs s1 where r: "sock_recv s len = (Received bs, s1)" "bs \<noteq> []"
      "rx s = bs @ rx s1" "length bs \<le> len" "no_failure s1"
      using sock_recv_ok [of s len] by blast
    have "len - length bs \<le> length (rx s1)" using 1(3) r(3) by simp
    from 1(1) [OF False r(1) [symmetric] refl r(2,5) this] r 1(3) False show ?thesis
      by (auto simp: recv_all.simps [of s])
  qed
qed

lemma recv_chunks_ok:
  "no_failure s \<Longrightarrow> len - offset \<le> length (rx s) \<Longrightarrow>
     \<exists>s'. recv_chunks s offset len = Inr (take (len - offset) (rx s), s') \<and>
        rx s' = drop (len - offset) (rx s) \<and> no_failure s'"
proof (induction s offset len rule: recv_chunks.induct)
  case (1 s offset len)
  show ?case
  proof (cases "offset < len")
    case False
    then show ?thesis using 1(2) by (simp add: recv_chunks.simps)
  next
    case True
    let ?n = "min kChunkSize (len - offset)"
    have "?n \<le> length (rx s)" using 1(3) by simp
    with 1(2) obtain s1 where r: "recv_all s ?n = Inr (take ?n (rx s), s1)" "rx s1 = drop ?n (rx s)"
      "no_failure s1"
      using recv_all_ok by blast
    have le: "len - (offset + ?n) \<le> length (rx s1)" using 1(3) r(2) by simp
    from True have "\<not> \<not> offset < len" by simp
    from 1(1) [OF this refl r(3) le] obtain s2 where
      s2: "recv_chunks s1 (offset + ?n) len = Inr (take (len - (offset + ?n)) (rx s1), s2)"
      "rx s2 = drop (len - (offset + ?n)) (rx s1)" "no_failure s2"
      by blast
    have sum: "len - offset = ?n + (len - (offset + ?n))" using True by auto
    then have "take (len - offset) (rx s) = take ?n (rx s) @ take (len - (offset + ?n)) (rx s1)"
      unfolding r(2) by (metis take_add)
    moreover have "drop (len - offset) (rx s) = rx s2"
      unfolding s2(2) r(2) using sum by (metis drop_drop add.commute)
    ultimately show ?thesis
      using True r(1) s2 by (auto simp: recv_chunks.simps [of s] Let_def)
  qed
qed

lemma unat_of_nat_le:
  assumes "n \<le> unat (m :: u32)"
  shows "unat (of_nat n :: u32) = n"
proof -
  have "unat m < 2 ^ LENGTH(32)" by (rule unsigned_less)
  with assms show ?thesis by (simp add: unat_of_nat)
qed

lemma recv_raw_frame:
  assumes "no_failure s" and "rx s = make_frame msg @ rest" and "msg \<noteq> []"
    and "length msg \<le> unat max_size"
  shows "\<exists>s'. recv_raw max_size True s = Inr (msg, s') \<and> rx s' = rest \<and> no_failure s'"
proof -
  let ?len = "of_nat (length msg) :: u32"
  have un: "unat ?len = length msg"
    using assms(4) by (rule unat_of_nat_le)
  obtain s1 where s1: "recv_all s 4 = Inr (encode_frame_length ?len, s1)" "rx s1 = msg @ rest"
    "no_failure s1"
    using recv_all_ok [OF assms(1), of 4] assms(2) by (auto simp: make_frame_def)
  have "?len \<noteq> 0" using un assms(3) by auto
  moreover have "\<not> ?len > max_size" using un assms(4) by (simp add: not_less word_le_nat_alt)
  ultimately show ?thesis
    using recv_chunks_ok [OF s1(3), of "length msg" 0] s1 un
    by (auto simp: recv_raw_def Let_def)
qed

section \<open>Streams of frames\<close>

fun read_many :: "('s \<Rightarrow> ('p \<times> 's) option) \<Rightarrow> nat \<Rightarrow> 's \<Rightarrow> ('p list \<times> 's) option" where
  "read_many decode 0 s = Some ([], s)"
| "read_many decode (Suc n) s =
     (case decode s of
        None \<Rightarrow> None
      | Some (p, s') \<Rightarrow> map_option (\<lambda>(ps, s''). (p # ps, s'')) (read_many decode n s'))"

text \<open>What the services rely on of the framing: a frame that was put on a stream is read back, and
  the rest of the stream is left for the next read.\<close>

locale frame_codec =
  fixes encode :: "'p \<Rightarrow> byte list"
    and decode :: "'s \<Rightarrow> ('p \<times> 's) option"
    and content :: "'s \<Rightarrow> byte list"
    and valid :: "'p \<Rightarrow> bool"
    and good :: "'s \<Rightarrow> bool"
  assumes decode_encode: "valid p \<Longrightarrow> good s \<Longrightarrow> content s = encode p @ rest \<Longrightarrow>
      \<exists>s'. decode s = Some (p, s') \<and> content s' = rest \<and> good s'"
begin

lemma read_many_frames:
  "\<forall>p\<in>set ps. valid p \<Longrightarrow> good s \<Longrightarrow> content s = concat (map encode ps) @ rest \<Longrightarrow>
     \<exists>s'. read_many decode (length ps) s = Some (ps, s') \<and> content s' = rest \<and> good s'"
proof (induction ps arbitrary: s)
  case (Cons p ps)
  then have "content s = encode p @ (concat (map encode ps) @ rest)" and "valid p" by simp_all
  with Cons.prems(2) decode_encode obtain s' where
    "decode s = Some (p, s')" "content s' = concat (map encode ps) @ rest" "good s'"
    by blast
  with Cons.IH [of s'] Cons.prems(1) show ?case by auto
qed simp

end

definition recv_raw_opt :: "u32 \<Rightarrow> rx_socket \<Rightarrow> (byte list \<times> rx_socket) option" where
  "recv_raw_opt max_size s = (case recv_raw max_size True s of Inl e \<Rightarrow> None | Inr x \<Rightarrow> Some x)"

definition async_read_opt :: "u32 \<Rightarrow> byte list \<Rightarrow> (byte list \<times> byte list) option" where
  "async_read_opt max_size s = (case async_read_frame max_size s of Inl e \<Rightarrow> None | Inr x \<Rightarrow> Some x)"

definition sendable :: "u32 \<Rightarrow> byte list \<Rightarrow> bool" where
  "sendable max_size msg \<longleftrightarrow> msg \<noteq> [] \<and> length msg \<le> unat max_size"

lemma async_read_frame_ok:
  assumes "sendable max_size msg"
  shows "async_read_frame max_size (make_frame msg @ rest) = Inr (msg, rest)"
proof -
  let ?len = "of_nat (length msg) :: u32"
  have le: "length msg \<le> unat max_size" and ne: "msg \<noteq> []"
    using assms by (simp_all add: sendable_def)
  have un: "unat ?len = length msg"
    using le by (rule unat_of_nat_le)
  have "?len \<noteq> 0" using un ne by auto
  moreover have "\<not> ?len > max_size" using un le by (simp add: not_less word_le_nat_alt)
  ultimately show ?thesis
    using un by (simp add: async_read_frame_def read_exact_def make_frame_def Let_def)
qed

interpretation blocking: frame_codec make_frame "recv_raw_opt max_size" rx "sendable max_size" no_failure
  for max_size
proof
  fix p s rest
  assume "sendable max_size p" "no_failure s" "rx s = make_frame p @ rest"
  then show "\<exists>s'. recv_raw_opt max_size s = Some (p, s') \<and> rx s' = rest \<and> no_failure s'"
    using recv_raw_frame [of s p rest max_size] by (auto simp: recv_raw_opt_def sendable_def)
qed

interpretation async: frame_codec make_frame "async_read_opt max_size" "\<lambda>s. s" "sendable max_size" "\<lambda>s. True"
  for max_size
  by unfold_locales (simp add: async_read_opt_def async_read_frame_ok)

section \<open>Sending\<close>

lemma send_all_prefix:
  "send_all deadline sched data = (r, out, sched') \<Longrightarrow>
     prefix out data \<and> (r = Inr () \<longleftrightarrow> out = data)"
proof (induction deadline sched data arbitrary: r out sched' rule: send_all.induct)
  case (3 deadline k sched d ds)
  let ?m = "max 1 k"
  obtain r' out' sc where rec: "send_all deadline sched (drop ?m (d # ds)) = (r', out', sc)"
    by (rule prod_cases3)
  with 3(2) have eq: "r = r'" "out = take ?m (d # ds) @ out'" by (simp_all add: Let_def)
  from 3(1) [OF refl rec] have "prefix out' (drop ?m (d # ds))" "r' = Inr () \<longleftrightarrow> out' = drop ?m (d # ds)"
    by blast+
  then show ?case unfolding eq
    by (metis append_take_drop_id same_append_eq same_prefix_prefix)
qed (auto split: if_splits)

lemma send_json_out:
  assumes "send_json parse deadline is_open sched msg = (r, out)"
  shows "prefix out (make_frame msg) \<and> (r = Inr () \<longrightarrow> out = make_frame msg)"
proof (cases "is_open")
  case False
  with assms show ?thesis by (auto simp: send_json_def)
next
  case True
  show ?thesis
  proof (cases "parse msg")
    case (Inl e)
    with True assms show ?thesis by (auto simp: send_json_def)
  next
    case (Inr j)
    obtain r1 out1 sc1 where 1: "send_all deadline sched (encode_frame_length (of_nat (length msg))) = (r1, out1, sc1)"
      by (rule prod_cases3)
    obtain r2 out2 sc2 where 2: "send_all deadline sc1 msg = (r2, out2, sc2)" by (rule prod_cases3)
    show ?thesis
      using True Inr assms 1 2 send_all_prefix [OF 1] send_all_prefix [OF 2]
      by (cases r1) (auto simp: send_json_def make_frame_def split: if_splits)
  qed
qed

section \<open>Properties\<close>

text \<open>C10: frames survive any splitting of the stream. When the peer sent a sequence of messages, each
  non-empty and within the size limit, the blocking reader returns exactly these messages in order
  and leaves the rest of the stream untouched, however the kernel splits the bytes over the calls
  of \<open>recv\<close>; the asynchronous reader does the same.\<close>

theorem frames_read_back:
  assumes "\<forall>p\<in>set msgs. sendable max_size p"
    and "no_failure s" and "rx s = concat (map make_frame msgs) @ rest"
  shows "(\<exists>s'. read_many (recv_raw_opt max_size) (length msgs) s = Some (msgs, s') \<and> rx s' = rest) \<and>
    read_many (async_read_opt max_size) (length msgs) (concat (map make_frame msgs) @ rest) =
      Some (msgs, rest)"
  using blocking.read_many_frames [OF assms] async.read_many_frames [OF assms(1), of _ rest] by auto

theorem frames_read_back_witness:
  "read_many (async_read_opt 10) (length [[7], [8, 9 :: byte]]) (concat (map make_frame [[7], [8, 9]]) @ [1]) =
     Some ([[7], [8, 9]], [1])"
proof -
  have "\<forall>p\<in>set [[7], [8, 9 :: byte]]. sendable 10 p" by (simp add: sendable_def)
  moreover have "no_failure \<lparr>rx = concat (map make_frame [[7], [8, 9]]) @ [1], rx_sched = [Some 1, Some 3]\<rparr>"
    by (simp add: no_failure_def)
  ultimately show ?thesis by (rule frames_read_back [THEN conjunct2]) simp
qed

text \<open>a message that the reader accepts is never longer than the configured maximum and never
  empty, and the bytes consumed are exactly its frame, also when calls fail later.\<close>

theorem recv_raw_exact:
  assumes "recv_raw max_size is_open s = Inr (msg, s')"
  shows "rx s = make_frame msg @ rx s' \<and> 0 < length msg \<and> length msg \<le> unat max_size \<and> is_open"
  using recv_raw_Inr [OF assms] by (simp add: make_frame_def)

theorem recv_raw_exact_witness:
  "\<exists>s'. recv_raw 10 True \<lparr>rx = make_frame [7] @ [1], rx_sched = [Some 1]\<rparr> = Inr ([7], s') \<and>
     make_frame [7] @ [1] = make_frame [7] @ rx s'"
proof -
  let ?s = "\<lparr>rx = make_frame [7] @ [1], rx_sched = [Some 1]\<rparr>"
  obtain s' where ok: "recv_raw 10 True ?s = Inr ([7], s')"
    using recv_raw_frame [of ?s "[7]" "[1]" 10] by (auto simp: no_failure_def)
  from recv_raw_exact [OF ok] ok show ?thesis by auto
qed

text \<open>what a sender puts on the wire is always a prefix of the frame of its message, whatever the
  schedule of partial sends, blocking and failures; it is the whole frame when sending succeeds,
  and then the receiver reads the message back.\<close>

theorem send_then_recv:
  assumes "send_json parse deadline is_open sched msg = (r, out)"
  shows "prefix out (make_frame msg) \<and>
    (r = Inr () \<longrightarrow> sendable max_size msg \<longrightarrow> no_failure s \<longrightarrow> rx s = out @ rest \<longrightarrow>
       (\<exists>s'. recv_raw max_size True s = Inr (msg, s') \<and> rx s' = rest))"
  using send_json_out [OF assms] recv_raw_frame [of s msg rest max_size]
  by (auto simp: sendable_def)

theorem send_then_recv_witness:
  "\<exists>s'. recv_raw 10 True \<lparr>rx = snd (send_json (\<lambda>_. Inr JNull) 5 True [Sent 2, Would_Block 1 0, Sent 1] [7, 8]) @ [1],
      rx_sched = [Some 1]\<rparr> = Inr ([7, 8], s') \<and> rx s' = [1]"
proof -
  let ?p = "\<lambda>_ :: byte list. Inr JNull :: json res"
  let ?x = "send_json ?p 5 True [Sent 2, Would_Block 1 0, Sent 1] [7, 8]"
  have ok: "fst ?x = Inr ()"
    by (simp add: send_json_def encode_frame_length_def Let_def)
  show ?thesis
    using send_then_recv [of ?p 5 True "[Sent 2, Would_Block 1 0, Sent 1]" "[7, 8]" "Inr ()" "snd ?x" 10
        "\<lparr>rx = snd ?x @ [1], rx_sched = [Some 1]\<rparr>" "[1]"] ok
    by (simp add: prod_eq_iff no_failure_def sendable_def)
qed

end
