(* ===== verification/Bus.thy ===== *)
theory Bus
  imports Framing Termination_Engine
begin

text \<open>
  \<^verbatim>\<open>core/bus.cpp\<close>: the message bus. A session is a connection with its registration and its write
  queue; the service maps pids to sessions and trees to root pids, relays messages and forwards
  heartbeats. \<open>enqueue_json\<close> and \<open>close\<close> post work to the session's strand, which runs it in order;
  completions of asynchronous writes run on the strand between that work. JSON text is produced and
  read by the parameters \<open>dump\<close> and \<open>parse\<close>. The reply of the supervisor to a forwarded heartbeat is
  an argument.
\<close>

section \<open>State\<close>

datatype strand_task = Enqueue "byte list" | Close

text \<open>\<open>ws_log\<close> and \<open>ws_sent\<close> record the frames that entered the queue and those written completely;
  \<open>ws_writing\<close> is the frames whose writes have been started and have not completed; \<open>ws_undefined\<close> is set when \<open>pop_front\<close> is
  called on an empty queue.\<close>

record bus_session =
  ws_strand :: "strand_task list"
  ws_queue :: "byte list list"
  ws_writing :: "byte list list"
  ws_sent :: "byte list list"
  ws_log :: "byte list list"
  ws_undefined :: bool
  ws_closed :: bool
  registered_pid :: int
  registered_tree_id :: string
  registered_tree_root :: bool

definition BusSession :: bus_session where
  "BusSession = \<lparr>ws_strand = [], ws_queue = [], ws_writing = [], ws_sent = [], ws_log = [],
     ws_undefined = False, ws_closed = False, registered_pid = -1, registered_tree_id = [],
     registered_tree_root = False\<rparr>"

text \<open>\<open>crashed\<close> is set when an exception leaves a completion handler: nothing on the I/O thread
  catches it.\<close>

record bus =
  sessions :: "(nat, bus_session) table"
  pid_sessions :: "(int, nat) table"
  tree_root_pid_map :: "(string, int) table"
  crashed :: bool

section \<open>A session's writer\<close>

definition write_next :: "bus_session \<Rightarrow> bus_session" where
  "write_next s =
     (if ws_queue s = [] \<or> ws_closed s then s else s\<lparr>ws_writing := ws_writing s @ [hd (ws_queue s)]\<rparr>)"

definition run_enqueue :: "byte list \<Rightarrow> bus_session \<Rightarrow> bus_session" where
  "run_enqueue frame s =
     (let write_in_progress = (ws_queue s \<noteq> []);
          s1 = s\<lparr>ws_queue := ws_queue s @ [frame], ws_log := ws_log s @ [frame]\<rparr>
      in if \<not> write_in_progress then write_next s1 else s1)"

text \<open>\<open>close_on_strand\<close> without the call to the service.\<close>

definition close_session :: "bus_session \<Rightarrow> bus_session" where
  "close_session s = (if ws_closed s then s else s\<lparr>ws_closed := True, ws_queue := []\<rparr>)"

definition on_write_complete :: "bool \<Rightarrow> bus_session \<Rightarrow> bus_session" where
  "on_write_complete ok s =
     (let s1 = s\<lparr>ws_writing := tl (ws_writing s),
                 ws_sent := ws_sent s @ (if ok then take 1 (ws_writing s) else [])\<rparr>
      in if \<not> ok then close_session s1
         else if ws_queue s1 = [] then s1\<lparr>ws_undefined := True\<rparr>
         else write_next (s1\<lparr>ws_queue := tl (ws_queue s1)\<rparr>))"

section \<open>The service\<close>

definition post_task :: "nat \<Rightarrow> strand_task \<Rightarrow> bus \<Rightarrow> bus" where
  "post_task sid task b =
     b\<lparr>sessions := tmodify sid (\<lambda>s. s\<lparr>ws_strand := ws_strand s @ [task]\<rparr>) (sessions b)\<rparr>"

definition enqueue_json :: "nat \<Rightarrow> byte list \<Rightarrow> bus \<Rightarrow> bus" where
  "enqueue_json sid payload b = post_task sid (Enqueue (make_frame payload)) b"

definition unregister_session :: "nat \<Rightarrow> int \<Rightarrow> string \<Rightarrow> bus \<Rightarrow> bus" where
  "unregister_session sid pid tree_id b =
     (if pid \<le> 0 then b
      else
        (let b1 = (if tget (pid_sessions b) pid = Some sid
                   then b\<lparr>pid_sessions := tdel pid (pid_sessions b)\<rparr> else b)
         in if tree_id \<noteq> [] \<and> tget (tree_root_pid_map b1) tree_id = Some pid
            then b1\<lparr>tree_root_pid_map := tdel tree_id (tree_root_pid_map b1)\<rparr> else b1))"

definition close_on_strand :: "nat \<Rightarrow> bus \<Rightarrow> bus" where
  "close_on_strand sid b =
     (case tget (sessions b) sid of
        None \<Rightarrow> b
      | Some s \<Rightarrow>
          if ws_closed s then b
          else unregister_session sid (registered_pid s) (registered_tree_id s)
                 (b\<lparr>sessions := tmodify sid close_session (sessions b)\<rparr>))"

text \<open>An exception inside leaves the updates made before it in place.\<close>

definition register_session :: "(json \<Rightarrow> byte list) \<Rightarrow> nat \<Rightarrow> json \<Rightarrow> bus \<Rightarrow> exn option \<times> bus" where
  "register_session dump sid msg b =
     (case jvalue as_int msg ''pid'' (-1) of
        Inl e \<Rightarrow> (Some e, b)
      | Inr pid \<Rightarrow>
          if pid \<le> 0 then (None, b)
          else
            (let b1 = b\<lparr>pid_sessions := tput pid sid (pid_sessions b)\<rparr>
             in case jvalue as_string msg ''tree_id'' [] of
                  Inl e \<Rightarrow> (Some e, b1)
                | Inr tree_id \<Rightarrow>
                    (case jvalue as_bool msg ''is_root'' False of
                       Inl e \<Rightarrow> (Some e, b1)
                     | Inr is_root \<Rightarrow>
                         (let b2 = (if is_root \<and> tree_id \<noteq> []
                                    then b1\<lparr>tree_root_pid_map := tput tree_id pid (tree_root_pid_map b1)\<rparr>
                                    else b1)
                          in (None, enqueue_json sid (dump (jobj [(''status'', JString ''ok'')])) b2)))))"

definition resolve_target_pid :: "bus \<Rightarrow> json \<Rightarrow> int \<Rightarrow> int res" where
  "resolve_target_pid b msg requested_target_pid =
     (if requested_target_pid \<noteq> -1 then Inr requested_target_pid
      else case tget (tree_root_pid_map b) ''TREE_HANDLER'' of
          Some pid \<Rightarrow> Inr pid
        | None \<Rightarrow>
            rbind (jvalue as_string msg ''tree_id'' []) (\<lambda>tree_id.
              Inr (case tget (tree_root_pid_map b) tree_id of Some pid \<Rightarrow> pid | None \<Rightarrow> -1)))"

definition relay_message :: "(json \<Rightarrow> byte list) \<Rightarrow> int \<Rightarrow> int \<Rightarrow> json \<Rightarrow> bus \<Rightarrow> exn option \<times> bus" where
  "relay_message dump source_pid target_pid msg b =
     (case tget (pid_sessions b) target_pid of
        None \<Rightarrow> (None, b)
      | Some target \<Rightarrow>
          (case rbind (jset ''message_type'' (JString ''IPM_PUSH'') msg)
                  (jset ''source_pid'' (JInt source_pid)) of
             Inl e \<Rightarrow> (Some e, b)
           | Inr push_msg \<Rightarrow> (None, enqueue_json target (dump push_msg) b)))"

definition supervisor_unreachable :: json where
  "supervisor_unreachable =
     jobj [(''status'', JString ''error''), (''error'', JString ''supervisor_unreachable'')]"

text \<open>The supervisor's reply frame, or \<open>None\<close> when connecting, writing or reading fails. The log line
  of the failure reads the \<open>pid\<close> field first, inside the completion handler.\<close>

definition forward_heartbeat_to_supervisor ::
  "(json \<Rightarrow> byte list) \<Rightarrow> (json \<Rightarrow> byte list option) \<Rightarrow> nat \<Rightarrow> json \<Rightarrow> bus \<Rightarrow> bus" where
  "forward_heartbeat_to_supervisor dump supv sid heartbeat b =
     (case supv heartbeat of
        Some payload \<Rightarrow> enqueue_json sid payload b
      | None \<Rightarrow> (case jvalue as_int heartbeat ''pid'' (-1) of
                   Inl e \<Rightarrow> b\<lparr>crashed := True\<rparr>
                 | Inr pid \<Rightarrow> enqueue_json sid (dump supervisor_unreachable) b))"

definition session_pid :: "bus \<Rightarrow> nat \<Rightarrow> int" where
  "session_pid b sid = (case tget (sessions b) sid of Some s \<Rightarrow> registered_pid s | None \<Rightarrow> -1)"

definition handle_message_bus ::
  "(json \<Rightarrow> byte list) \<Rightarrow> (json \<Rightarrow> byte list option) \<Rightarrow> nat \<Rightarrow> json \<Rightarrow> bus \<Rightarrow> exn option \<times> bus" where
  "handle_message_bus dump supv sid msg b =
     (case jvalue as_string msg ''message_type'' [] of
        Inl e \<Rightarrow> (Some e, b)
      | Inr msg_type \<Rightarrow>
          if msg_type = ''BUS_REGISTER'' then register_session dump sid msg b
          else if msg_type = ''IPM_RELAY'' then
            (case jvalue as_int msg ''target_pid'' (-1) of
               Inl e \<Rightarrow> (Some e, b)
             | Inr requested \<Rightarrow>
                 (case resolve_target_pid b msg requested of
                    Inl e \<Rightarrow> (Some e, b)
                  | Inr target_pid \<Rightarrow>
                      if target_pid > 0 then relay_message dump (session_pid b sid) target_pid msg b
                      else (None, b)))
          else if msg_type = ''HEARTBEAT'' then (None, forward_heartbeat_to_supervisor dump supv sid msg b)
          else (None, b))"

text \<open>The registration fields of the session are assigned one after the other; an exception between
  the assignments keeps the earlier ones.\<close>

definition record_registration :: "nat \<Rightarrow> json \<Rightarrow> bus \<Rightarrow> exn option \<times> bus" where
  "record_registration sid msg b =
     (case jvalue as_int msg ''pid'' (-1) of
        Inl e \<Rightarrow> (Some e, b)
      | Inr pid \<Rightarrow>
          (let b1 = b\<lparr>sessions := tmodify sid (\<lambda>s. s\<lparr>registered_pid := pid\<rparr>) (sessions b)\<rparr>
           in case jvalue as_string msg ''tree_id'' [] of
                Inl e \<Rightarrow> (Some e, b1)
              | Inr tree_id \<Rightarrow>
                  (let b2 = b1\<lparr>sessions := tmodify sid (\<lambda>s. s\<lparr>registered_tree_id := tree_id\<rparr>) (sessions b1)\<rparr>
                   in case jvalue as_bool msg ''is_root'' False of
                        Inl e \<Rightarrow> (Some e, b2)
                      | Inr is_root \<Rightarrow>
                          (None, b2\<lparr>sessions := tmodify sid (\<lambda>s. s\<lparr>registered_tree_root := is_root\<rparr>)
                                                  (sessions b2)\<rparr>))))"

definition handle_payload ::
  "(json \<Rightarrow> byte list) \<Rightarrow> (byte list \<Rightarrow> json res) \<Rightarrow> (json \<Rightarrow> byte list option) \<Rightarrow> nat \<Rightarrow> byte list
     \<Rightarrow> bus \<Rightarrow> bus" where
  "handle_payload dump parse supv sid payload b =
     (case parse payload of
        Inl e \<Rightarrow> close_on_strand sid b
      | Inr msg \<Rightarrow>
          (case jvalue as_string msg ''message_type'' [] of
             Inl e \<Rightarrow> close_on_strand sid b
           | Inr msg_type \<Rightarrow>
               (case (if msg_type = ''BUS_REGISTER'' then record_registration sid msg b else (None, b)) of
                  (Some e, b1) \<Rightarrow> close_on_strand sid b1
                | (None, b1) \<Rightarrow>
                    (case handle_message_bus dump supv sid msg b1 of
                       (Some e, b2) \<Rightarrow> close_on_strand sid b2
                     | (None, b2) \<Rightarrow> b2))))"

text \<open>Running the next task of a strand, the completion of a write, the end of the stream, and the
  arrival of a connection.\<close>

definition run_strand :: "nat \<Rightarrow> bus \<Rightarrow> bus" where
  "run_strand sid b =
     (case tget (sessions b) sid of
        None \<Rightarrow> b
      | Some s \<Rightarrow>
          (case ws_strand s of
             [] \<Rightarrow> b
           | task # rest \<Rightarrow>
               (let b1 = b\<lparr>sessions := tmodify sid (\<lambda>s. s\<lparr>ws_strand := rest\<rparr>) (sessions b)\<rparr>
                in case task of
                     Enqueue frame \<Rightarrow> b1\<lparr>sessions := tmodify sid (run_enqueue frame) (sessions b1)\<rparr>
                   | Close \<Rightarrow> close_on_strand sid b1)))"

definition write_done :: "nat \<Rightarrow> bool \<Rightarrow> bus \<Rightarrow> bus" where
  "write_done sid ok b =
     (if ok then b\<lparr>sessions := tmodify sid (on_write_complete True) (sessions b)\<rparr>
      else close_on_strand sid (b\<lparr>sessions := tmodify sid (\<lambda>s. s\<lparr>ws_writing := tl (ws_writing s)\<rparr>) (sessions b)\<rparr>))"

definition accept_connection :: "nat \<Rightarrow> bus \<Rightarrow> bus" where
  "accept_connection sid b = b\<lparr>sessions := tput sid BusSession (sessions b)\<rparr>"

definition stop_bus :: "bus \<Rightarrow> bus" where
  "stop_bus b =
     fold (\<lambda>(pid, sid) b. post_task sid Close b) (pid_sessions b)
       (b\<lparr>pid_sessions := [], tree_root_pid_map := []\<rparr>)"

section \<open>The writer as a state machine\<close>

text \<open>What can happen to the writer of one session: a frame is queued, the write in progress
  completes or fails, or the session is closed. A completion that was already on its way may still
  report success after the session was closed.\<close>

inductive writer_step :: "bus_session \<Rightarrow> bus_session \<Rightarrow> bool" where
  wr_enqueue: "writer_step s (run_enqueue frame s)"
| wr_complete: "ws_writing s \<noteq> [] \<Longrightarrow> writer_step s (on_write_complete ok s)"
| wr_close: "writer_step s (close_session s)"

definition writer_init :: "bus_session \<Rightarrow> bool" where
  "writer_init s \<longleftrightarrow> s = BusSession"

text \<open>Everything written is, in order, what was queued; while the session is open nothing is lost, a
  write is in progress exactly if the queue is not empty, and it is the head of the queue.\<close>

definition writer_ok :: "bus_session \<Rightarrow> bool" where
  "writer_ok s \<longleftrightarrow> prefix (ws_sent s @ ws_writing s) (ws_log s) \<and> length (ws_writing s) \<le> 1 \<and>
     (\<not> ws_closed s \<longrightarrow> \<not> ws_undefined s \<and> ws_sent s @ ws_queue s = ws_log s \<and>
        ws_writing s = take 1 (ws_queue s))"

lemma writer_ok_enqueue: "writer_ok s \<Longrightarrow> writer_ok (run_enqueue f s)"
  by (cases "ws_queue s"; cases "ws_writing s"; cases "ws_closed s")
    (auto simp: writer_ok_def run_enqueue_def write_next_def Let_def)

lemma writer_ok_complete: "writer_ok s \<Longrightarrow> ws_writing s \<noteq> [] \<Longrightarrow> writer_ok (on_write_complete ok s)"
  by (cases "ws_queue s"; cases "ws_closed s"; cases "tl (ws_queue s)"; cases "ws_writing s")
    (auto simp: writer_ok_def on_write_complete_def write_next_def close_session_def
      Let_def prefix_def append_eq_Cons_conv)

lemma writer_ok_close: "writer_ok s \<Longrightarrow> writer_ok (close_session s)"
  by (auto simp: writer_ok_def close_session_def)

interpretation writer: inductive_invariant writer_init writer_step writer_ok
proof unfold_locales
  show "writer_init s \<Longrightarrow> writer_ok s" for s
    by (simp add: writer_init_def BusSession_def writer_ok_def)
  show "writer_ok s \<Longrightarrow> writer_step s t \<Longrightarrow> writer_ok t" for s t
    by (auto elim!: writer_step.cases intro: writer_ok_enqueue writer_ok_complete writer_ok_close)
qed

section \<open>Properties\<close>

text \<open>C11: the frames written to a connection are, in order, a prefix of the frames queued for it;
  at most one write is in progress, always of the oldest frame not yet written; and while the
  connection is open, queued and written frames together are exactly those accepted.\<close>

theorem writes_in_order:
  assumes "reach writer_init writer_step s"
  shows "prefix (ws_sent s @ ws_writing s) (ws_log s) \<and> length (ws_writing s) \<le> 1 \<and>
    (if ws_closed s then True
     else ws_sent s @ ws_queue s = ws_log s \<and> ws_writing s = take 1 (ws_queue s) \<and> ws_undefined s = False)"
  using writer.reach_inv [OF assms] by (simp add: writer_ok_def)

lemma demo_enqueued: "reach writer_init writer_step (run_enqueue [7] BusSession)"
  by (rule reach_step [where s = BusSession], rule reach_init)
    (simp_all add: writer_init_def wr_enqueue)

definition demo_written :: bus_session where
  "demo_written = on_write_complete True (run_enqueue [8] (run_enqueue [7] BusSession))"

theorem writes_in_order_witness: "prefix (ws_sent demo_written @ ws_writing demo_written) [[7], [8]]"
proof -
  have "reach writer_init writer_step (run_enqueue [8] (run_enqueue [7] BusSession))"
    by (rule reach_step [OF demo_enqueued wr_enqueue])
  moreover have "ws_writing (run_enqueue [8] (run_enqueue [7] BusSession)) \<noteq> []"
    by (simp add: run_enqueue_def write_next_def BusSession_def)
  ultimately have "reach writer_init writer_step demo_written"
    unfolding demo_written_def by (blast intro: reach_step wr_complete)
  from writes_in_order [OF this, THEN conjunct1] show ?thesis
    by (simp add: demo_written_def on_write_complete_def run_enqueue_def write_next_def
        BusSession_def Let_def)
qed

text \<open>C12: a relayed message goes to the session registered for its target pid and to no other; it
  carries the pid under which the sender's own session registered, whatever source the sender
  claims, and every other field unchanged.\<close>

theorem relay_is_not_spoofable:
  assumes "jget msg ''message_type'' = Some (JString ''IPM_RELAY'')"
    and "jget msg ''target_pid'' = Some (JInt target)" and "0 < target" and "target \<le> INT_MAX"
    and "handle_message_bus dump supv sid msg b = (err, b')"
  shows "err = None \<and>
    (case tget (pid_sessions b) target of
       None \<Rightarrow> b' = b
     | Some tsid \<Rightarrow>
         \<exists>push. b' = enqueue_json tsid (dump push) b \<and>
           jget push ''source_pid'' = Some (JInt (session_pid b sid)) \<and>
           jget push ''message_type'' = Some (JString ''IPM_PUSH'') \<and>
           (\<forall>k. k \<noteq> ''source_pid'' \<longrightarrow> k \<noteq> ''message_type'' \<longrightarrow> jget push k = jget msg k))"
proof -
  obtain m where m: "msg = JObject m" using assms(1) by (cases msg) auto
  have "handle_message_bus dump supv sid msg b = relay_message dump (session_pid b sid) target msg b"
    using assms(1-4)
    by (simp add: m handle_message_bus_def resolve_target_pid_def to_int32_id)
  with assms(5) show ?thesis
    by (auto simp: relay_message_def m split: option.splits)
qed

theorem relay_is_not_spoofable_witness:
  "let b = \<lparr>sessions = [(0, BusSession\<lparr>registered_pid := 1000\<rparr>), (1, BusSession)],
            pid_sessions = [(1001, 1)], tree_root_pid_map = [], crashed = False\<rparr>;
       msg = jobj [(''message_type'', JString ''IPM_RELAY''), (''target_pid'', JInt 1001),
                   (''source_pid'', JInt 1)]
   in \<exists>push. snd (handle_message_bus (\<lambda>_. []) (\<lambda>_. None) 0 msg b) = enqueue_json 1 [] b \<and>
        jget push ''source_pid'' = Some (JInt 1000)"
proof -
  let ?b = "\<lparr>sessions = [(0, BusSession\<lparr>registered_pid := 1000\<rparr>), (1, BusSession)],
            pid_sessions = [(1001, 1)], tree_root_pid_map = [], crashed = False\<rparr>"
  let ?msg = "jobj [(''message_type'', JString ''IPM_RELAY''), (''target_pid'', JInt 1001),
                   (''source_pid'', JInt 1)]"
  obtain err b' where eq: "handle_message_bus (\<lambda>_. []) (\<lambda>_. None) 0 ?msg ?b = (err, b')" by fastforce
  show ?thesis
    using relay_is_not_spoofable [OF _ _ _ _ eq, of 1001] eq
    by (auto simp: session_pid_def)
qed

text \<open>the notification that the termination engine sends when it kills a child is of a type the
  bus does not know: the bus drops it without any effect, so no parent ever learns of it.\<close>

theorem child_terminated_is_dropped:
  "handle_message_bus dump supv sid (child_terminated_message target reason) b = (None, b)"
  by (simp add: handle_message_bus_def child_terminated_message_def)

text \<open>A write that completed just before the session was closed makes the session remove the head of
  an empty queue.\<close>

lemma late_completion_undefined:
  "\<exists>s. reach writer_init writer_step s \<and> ws_undefined s"
proof -
  let ?a = "run_enqueue [7] BusSession"
  let ?c = "close_session ?a"
  have "reach writer_init writer_step ?c"
    by (rule reach_step [OF demo_enqueued wr_close])
  moreover have "ws_writing ?c \<noteq> []" "ws_queue ?c = []"
    by (simp_all add: run_enqueue_def write_next_def close_session_def BusSession_def)
  ultimately have "reach writer_init writer_step (on_write_complete True ?c)"
    and "ws_undefined (on_write_complete True ?c)"
    by (blast intro: reach_step wr_complete) (simp add: on_write_complete_def Let_def \<open>ws_queue ?c = []\<close>)
  then show ?thesis by blast
qed

text \<open>A heartbeat with a malformed pid, forwarded while the supervisor cannot be reached, ends the
  bus.\<close>

lemma malformed_heartbeat_crashes:
  "crashed (snd (handle_message_bus dump (\<lambda>_. None) sid
     (jobj [(''message_type'', JString ''HEARTBEAT''), (''pid'', JString ''x'')]) b))"
  by (simp add: handle_message_bus_def forward_heartbeat_to_supervisor_def)

text \<open>Closing a session removes the pid it registered last; a pid it registered before is still
  routed to the closed session.\<close>

lemma close_unregisters_last_pid:
  assumes "tget (sessions b) sid = Some s" and "\<not> ws_closed s" and "0 < registered_pid s"
  shows "tget (pid_sessions (close_on_strand sid b)) (registered_pid s) \<noteq> Some sid"
    and "q \<noteq> registered_pid s \<Longrightarrow> tget (pid_sessions (close_on_strand sid b)) q = tget (pid_sessions b) q"
  using assms by (auto simp: close_on_strand_def unregister_session_def Let_def)

end
