(* ===== verification/Session_Ids.thy ===== *)
theory Session_Ids
  imports Json
begin

text \<open>
  The names of \<^verbatim>\<open>llm/session_manager.cpp\<close>: validation of super user names, session ids of the
  form \<open>{super_user}_s{N}\<close>, their decomposition, the allocation of the next id, the ordering of
  session ids, and the token estimates. A session id decomposes into exactly the name and number
  it was built from, a valid super user name is never itself a session id, and the next id differs
  from every id in use.
\<close>

section \<open>Names and session ids\<close>

text \<open>The test on what follows the last \<open>_s\<close>, written out in \<open>validate_super_user_name\<close> and again
  in \<open>extract_super_user\<close>.\<close>

definition numeric_tail :: "string \<Rightarrow> nat \<Rightarrow> bool" where
  "numeric_tail s pos \<longleftrightarrow> pos + 2 < length s \<and> list_all isdigit (drop (pos + 2) s)"

definition validate_super_user_name :: "string \<Rightarrow> unit res" where
  "validate_super_user_name super_user =
     (if super_user = [] then Inl (Runtime_Error ''super_user name must not be empty'')
      else if (case str_rfind super_user ''_s'' of None \<Rightarrow> False | Some pos \<Rightarrow> numeric_tail super_user pos)
      then Inl (Runtime_Error ''super_user name must not match reserved pattern: *_s{number}'')
      else if \<not> list_all (\<lambda>c. isalnum c \<or> c = CHR ''-'' \<or> c = CHR ''_'') super_user
      then Inl (Runtime_Error ''super_user name must be alphanumeric (hyphens and underscores allowed)'')
      else Inr ())"

definition extract_super_user :: "string \<Rightarrow> string" where
  "extract_super_user session_id =
     (case str_rfind session_id ''_s'' of
        None \<Rightarrow> session_id
      | Some pos \<Rightarrow> if numeric_tail session_id pos then take pos session_id else session_id)"

definition is_session_id :: "string \<Rightarrow> bool" where
  "is_session_id s \<longleftrightarrow> extract_super_user s \<noteq> s"

record session_target =
  st_is_session_id :: bool
  st_super_user :: string
  st_session_id :: string

definition resolve_target :: "string \<Rightarrow> session_target" where
  "resolve_target user_id =
     \<lparr>st_is_session_id = is_session_id user_id,
      st_super_user = (if is_session_id user_id then extract_super_user user_id else user_id),
      st_session_id = (if is_session_id user_id then user_id else [])\<rparr>"

text \<open>The id that \<open>next_session_id\<close> builds: \<open>super_user + "_s" + std::to_string(n)\<close>.\<close>

definition session_id_of :: "string \<Rightarrow> nat \<Rightarrow> string" where
  "session_id_of super_user n = super_user @ ''_s'' @ nat_digits n"

section \<open>Token estimates\<close>

definition estimate_tokens :: "string \<Rightarrow> nat" where
  "estimate_tokens txt = max 1 (length txt div 3)"

text \<open>The loop over the messages from the newest to the oldest.\<close>

fun request_tokens_from :: "json list \<Rightarrow> nat \<Rightarrow> nat res" where
  "request_tokens_from [] acc = Inr acc"
| "request_tokens_from (m # ms) acc =
     (if \<not> is_object m then request_tokens_from ms acc
      else rbind (jvalue as_string m ''role'' []) (\<lambda>role.
        if role = ''assistant'' then Inr acc
        else case jget m ''content'' of
            Some (JString s) \<Rightarrow>
              request_tokens_from ms
                (if role = ''user'' \<or> role = ''tool'' then acc + estimate_tokens s else acc)
          | _ \<Rightarrow> request_tokens_from ms acc))"

definition estimate_request_tokens :: "json \<Rightarrow> nat res" where
  "estimate_request_tokens msgs =
     (case msgs of JArray ms \<Rightarrow> request_tokens_from (rev ms) 0 | _ \<Rightarrow> Inr 0)"

section \<open>Numbering\<close>

text \<open>\<open>std::stoi(sid.substr(pos + 2))\<close>, inside the loop's \<open>try\<close>.\<close>

definition session_number :: "string \<Rightarrow> int option" where
  "session_number sid =
     (case str_rfind sid ''_s'' of
        None \<Rightarrow> None
      | Some pos \<Rightarrow> (case stoi (drop (pos + 2) sid) of Inl _ \<Rightarrow> None | Inr n \<Rightarrow> Some n))"

fun max_session_number :: "string list \<Rightarrow> int \<Rightarrow> int" where
  "max_session_number [] max_n = max_n"
| "max_session_number (sid # sids) max_n =
     max_session_number sids
       (case session_number sid of None \<Rightarrow> max_n | Some n \<Rightarrow> if n > max_n then n else max_n)"

text \<open>\<open>next_session_id\<close> on the result of \<open>list_sessions\<close>. The addition is on \<open>int\<close>; at
  \<open>INT_MAX\<close> it overflows, which is undefined.\<close>

definition next_session_id :: "string \<Rightarrow> string list \<Rightarrow> string option" where
  "next_session_id super_user sessions =
     (let max_n = max_session_number sessions 0
      in if max_n = INT_MAX then None
         else Some (super_user @ ''_s'' @ to_string_int (max_n + 1)))"

text \<open>The comparator of \<open>list_sessions\<close>: one \<open>try\<close> around both conversions, so that a failing
  first conversion leaves both numbers \<open>0\<close>.\<close>

definition session_less :: "string \<Rightarrow> string \<Rightarrow> bool" where
  "session_less a b =
     (let na = (case str_rfind a ''_s'' of None \<Rightarrow> Inr 0 | Some p \<Rightarrow> stoi (drop (p + 2) a));
          (x, y) = (case na of
              Inl _ \<Rightarrow> (0, 0)
            | Inr n \<Rightarrow> (n, case str_rfind b ''_s'' of
                           None \<Rightarrow> 0
                         | Some p \<Rightarrow> (case stoi (drop (p + 2) b) of Inl _ \<Rightarrow> 0 | Inr m \<Rightarrow> m)))
      in if x \<noteq> y then x < y else a < b)"

section \<open>Decomposition\<close>

lemma digit_neq_sep: "isdigit c \<Longrightarrow> c \<noteq> CHR ''_'' \<and> c \<noteq> CHR ''s''"
  by (auto simp: isdigit_def)

lemma occurs_at_append_digits:
  assumes "list_all isdigit ds" and "occurs_at (su @ ''_s'' @ ds) ''_s'' k"
  shows "k \<le> length su"
proof (rule ccontr)
  assume "\<not> k \<le> length su"
  then obtain j where k: "k = length su + Suc j"
    by (metis less_imp_Suc_add not_le add_Suc_right)
  have "prefix ''_s'' (drop j (CHR ''s'' # ds))"
    using assms(2) by (simp add: occurs_at_def k)
  then obtain r where r: "drop j (CHR ''s'' # ds) = ''_s'' @ r"
    by (auto simp: prefix_def)
  show False
  proof (cases j)
    case 0
    with r show False by simp
  next
    case (Suc i)
    with r have "CHR ''_'' \<in> set (drop i ds)" by simp
    then have "CHR ''_'' \<in> set ds" using set_drop_subset by fast
    with assms(1) show False using digit_neq_sep by (auto simp: list_all_iff)
  qed
qed

lemma rfind_session_id:
  assumes "list_all isdigit ds"
  shows "str_rfind (su @ ''_s'' @ ds) ''_s'' = Some (length su)"
proof -
  have "occurs_at (su @ ''_s'' @ ds) ''_s'' (length su)"
    by (simp add: occurs_at_def)
  moreover have "\<not> occurs_at (su @ ''_s'' @ ds) ''_s'' k" if "k > length su" for k
    using occurs_at_append_digits [OF assms] that by fastforce
  ultimately show ?thesis by (simp add: str_rfind_Some)
qed

lemma extract_session_id [simp]: "extract_super_user (session_id_of su n) = su"
  by (simp add: extract_super_user_def session_id_of_def rfind_session_id [OF nat_digits_isdigit, simplified]
      numeric_tail_def nat_digits_isdigit)

lemma is_session_id_of [simp]: "is_session_id (session_id_of su n)"
  unfolding is_session_id_def extract_session_id by (simp add: session_id_of_def)

lemma session_id_neq_Nil [simp]: "session_id_of su n \<noteq> []"
  by (simp add: session_id_of_def)

lemma session_id_inj: "session_id_of su m = session_id_of tu n \<longleftrightarrow> su = tu \<and> m = n"
proof
  assume eq: "session_id_of su m = session_id_of tu n"
  then have "su = tu" by (metis extract_session_id)
  with eq show "su = tu \<and> m = n" by (simp add: session_id_of_def nat_digits_inj)
qed simp

lemma valid_name_not_session_id:
  "validate_super_user_name su = Inr () \<Longrightarrow> \<not> is_session_id su"
  by (auto simp: validate_super_user_name_def is_session_id_def extract_super_user_def
      split: if_splits option.splits)

text \<open>Every session id is a name, \<open>_s\<close> and digits.\<close>

lemma is_session_id_decomp:
  assumes "is_session_id s"
  obtains ds where "s = extract_super_user s @ ''_s'' @ ds" and "ds \<noteq> []" and "list_all isdigit ds"
proof -
  from assms obtain p where p: "str_rfind s ''_s'' = Some p" and num: "numeric_tail s p"
    and ex: "extract_super_user s = take p s"
    by (auto simp: is_session_id_def extract_super_user_def split: option.splits if_splits)
  from p have "occurs_at s ''_s'' p" by (simp add: str_rfind_Some)
  then obtain r where r: "drop p s = ''_s'' @ r" by (auto simp: occurs_at_def prefix_def)
  then have "drop (p + 2) s = r" by (metis add.commute append_eq_conv_conj drop_drop length_Cons list.size(3) numeral_2_eq_2)
  with num r have "r \<noteq> []" "list_all isdigit r" by (auto simp: numeric_tail_def)
  moreover have "s = extract_super_user s @ ''_s'' @ r"
    unfolding ex using r by (metis append_take_drop_id)
  ultimately show thesis using that by blast
qed

section \<open>Freshness\<close>

lemma max_session_number_ge: "max_n \<le> max_session_number sids max_n"
proof (induction sids arbitrary: max_n)
  case (Cons sid sids)
  show ?case
    using Cons.IH [of "case session_number sid of None \<Rightarrow> max_n | Some n \<Rightarrow> if n > max_n then n else max_n"]
    by (auto split: option.splits if_splits)
qed simp

lemma max_session_number_bound:
  "sid \<in> set sids \<Longrightarrow> session_number sid = Some n \<Longrightarrow> n \<le> max_session_number sids max_n"
proof (induction sids arbitrary: max_n)
  case (Cons a sids)
  show ?case
  proof (cases "sid = a")
    case True
    let ?m = "if n > max_n then n else max_n"
    have "n \<le> ?m" by simp
    also have "?m \<le> max_session_number sids ?m" by (rule max_session_number_ge)
    also have "\<dots> = max_session_number (a # sids) max_n" using True Cons.prems(2) by simp
    finally show ?thesis .
  next
    case False
    with Cons show ?thesis by auto
  qed
qed simp

lemma stoi_le_INT_MAX: "stoi s = Inr n \<Longrightarrow> n \<le> INT_MAX"
  by (auto simp: stoi_def parse_number_def Let_def split: if_splits)

lemma max_session_number_le:
  "max_n \<le> INT_MAX \<Longrightarrow> max_session_number sids max_n \<le> INT_MAX"
proof (induction sids arbitrary: max_n)
  case (Cons a sids)
  have "(case session_number a of None \<Rightarrow> max_n | Some n \<Rightarrow> if n > max_n then n else max_n) \<le> INT_MAX"
    using Cons.prems stoi_le_INT_MAX by (auto simp: session_number_def split: option.splits sum.splits)
  then show ?case using Cons.IH by simp
qed simp

lemma session_number_session_id:
  "int n \<le> INT_MAX \<Longrightarrow> session_number (session_id_of su n) = Some (int n)"
  by (simp add: session_number_def session_id_of_def rfind_session_id [OF nat_digits_isdigit, simplified]
      stoi_nat_digits)

lemma next_session_id_eq:
  assumes "next_session_id su sessions = Some sid"
  obtains n where "sid = session_id_of su n" and "int n = max_session_number sessions 0 + 1"
    and "int n \<le> INT_MAX"
proof
  let ?m = "max_session_number sessions 0"
  have "0 \<le> ?m" "?m \<le> INT_MAX" by (simp_all add: max_session_number_ge max_session_number_le)
  moreover have "?m \<noteq> INT_MAX" and sid: "sid = su @ ''_s'' @ to_string_int (?m + 1)"
    using assms by (auto simp: next_session_id_def Let_def split: if_splits)
  ultimately show "int (nat (?m + 1)) = ?m + 1" "int (nat (?m + 1)) \<le> INT_MAX" by simp_all
  show "sid = session_id_of su (nat (?m + 1))"
    using \<open>0 \<le> ?m\<close> by (simp add: sid session_id_of_def to_string_int_def)
qed

lemma next_session_id_fresh:
  assumes "next_session_id su sessions = Some sid"
  shows "sid \<notin> set sessions"
proof
  assume "sid \<in> set sessions"
  obtain n where n: "sid = session_id_of su n" "int n = max_session_number sessions 0 + 1"
    "int n \<le> INT_MAX"
    using assms by (rule next_session_id_eq)
  from \<open>sid \<in> set sessions\<close> have "int n \<le> max_session_number sessions 0"
    using n session_number_session_id by (blast intro: max_session_number_bound)
  with n(2) show False by simp
qed

text \<open>The comparator orders the sessions of one user by number.\<close>

lemma session_less_ids:
  "int m \<le> INT_MAX \<Longrightarrow> int n \<le> INT_MAX \<Longrightarrow>
     session_less (session_id_of su m) (session_id_of su n) \<longleftrightarrow> m < n"
  by (auto simp: session_less_def session_id_of_def rfind_session_id [OF nat_digits_isdigit, simplified]
      stoi_nat_digits)

text \<open>On arbitrary ids it is not transitive: an id without a number is compared by its text when it
  stands on the left, and as number \<open>0\<close> on the right.\<close>

lemma session_less_not_transitive:
  "session_less ''m_sx'' ''z_s1'' \<and> session_less ''z_s1'' ''a_s2'' \<and> \<not> session_less ''m_sx'' ''a_s2''"
  by code_simp

text \<open>Session ids name their user and number. The id built from a super user and a number is
  recognised as a session id, decomposes into exactly that super user and number, and differs from
  the id of any other user or number; a name that passes validation is never taken for a session
  id, so that a target resolves to the user itself.\<close>

theorem session_id_decomposes:
  assumes "validate_super_user_name su = Inr ()" and "int n \<le> INT_MAX"
  shows "resolve_target (session_id_of su n)
         = \<lparr>st_is_session_id = True, st_super_user = su, st_session_id = session_id_of su n\<rparr>
     \<and> resolve_target su = \<lparr>st_is_session_id = False, st_super_user = su, st_session_id = []\<rparr>
     \<and> session_number (session_id_of su n) = Some (int n)
     \<and> (\<forall>tu m. session_id_of tu m = session_id_of su n \<longleftrightarrow> tu = su \<and> m = n)"
  using valid_name_not_session_id [OF assms(1)] session_number_session_id [OF assms(2)]
  by (simp add: resolve_target_def session_id_inj)

lemma session_id_decomposes_witness:
  "resolve_target (session_id_of ''terminal_vivek'' 12)
   = \<lparr>st_is_session_id = True, st_super_user = ''terminal_vivek'', st_session_id = ''terminal_vivek_s12''\<rparr>"
proof -
  have "validate_super_user_name ''terminal_vivek'' = Inr ()" by code_simp
  then have target: "resolve_target (session_id_of ''terminal_vivek'' 12)
      = \<lparr>st_is_session_id = True, st_super_user = ''terminal_vivek'',
         st_session_id = session_id_of ''terminal_vivek'' 12\<rparr>"
    using session_id_decomposes [of "''terminal_vivek''" 12] by simp
  have eq: "session_id_of ''terminal_vivek'' 12 = ''terminal_vivek_s12''" by code_simp
  show ?thesis using target unfolding eq .
qed

end
