(* ===== verification/Json_Storage.thy ===== *)
theory Json_Storage
  imports Session_Ids
begin

text \<open>
  \<^verbatim>\<open>llm/storage/json_storage_provider.cpp\<close>, the default storage back end, over a model of the
  part of \<open>std::filesystem\<close> it uses. A path is its list of components (names are single
  components: they hold no slash and are not a dot entry), a file holds a JSON value or text that
  does not parse, and writing fails where the parent directory is missing. Conversations and index
  entries are read back as they were written, the snapshot loops end at the first free number, and
  a deleted session that was the last of its user is listed again.
\<close>

section \<open>Files and directories\<close>

type_synonym path = "string list"

record fsys =
  fs_dirs :: "path list"
  fs_files :: "(path, json option) table"

definition fs_exists :: "fsys \<Rightarrow> path \<Rightarrow> bool" where
  "fs_exists fs p \<longleftrightarrow> p \<in> set (fs_dirs fs) \<or> tget (fs_files fs) p \<noteq> None"

definition is_directory :: "fsys \<Rightarrow> path \<Rightarrow> bool" where
  "is_directory fs p \<longleftrightarrow> p \<in> set (fs_dirs fs)"

text \<open>\<open>create_directories\<close>: the directory and its ancestors; a file in the way is an error.\<close>

definition create_directories :: "path \<Rightarrow> fsys \<Rightarrow> fsys res" where
  "create_directories p fs =
     (if \<exists>q\<in>set (prefixes p). tget (fs_files fs) q \<noteq> None
      then Inl (Runtime_Error ''filesystem error: cannot create directories'')
      else Inr (fs\<lparr>fs_dirs := fold uinsert (prefixes p) (fs_dirs fs)\<rparr>))"

text \<open>Opening an \<open>std::ofstream\<close> and writing one value.\<close>

definition write_file :: "path \<Rightarrow> json \<Rightarrow> fsys \<Rightarrow> bool \<times> fsys" where
  "write_file p j fs =
     (if p = [] \<or> butlast p \<notin> set (fs_dirs fs) \<or> p \<in> set (fs_dirs fs) then (False, fs)
      else (True, fs\<lparr>fs_files := tput p (Some j) (fs_files fs)\<rparr>))"

text \<open>\<open>fs::remove\<close>: a file or an empty directory.\<close>

definition dir_children :: "fsys \<Rightarrow> path \<Rightarrow> path list" where
  "dir_children fs p = filter (\<lambda>q. q \<noteq> [] \<and> butlast q = p) (fs_dirs fs @ tkeys (fs_files fs))"

definition fs_remove :: "path \<Rightarrow> fsys \<Rightarrow> fsys res" where
  "fs_remove p fs =
     (if tget (fs_files fs) p \<noteq> None then Inr (fs\<lparr>fs_files := tdel p (fs_files fs)\<rparr>)
      else if p \<in> set (fs_dirs fs) \<and> dir_children fs p \<noteq> []
      then Inl (Runtime_Error ''filesystem error: cannot remove'')
      else Inr (fs\<lparr>fs_dirs := uerase p (fs_dirs fs)\<rparr>))"

definition remove_all :: "path \<Rightarrow> fsys \<Rightarrow> fsys" where
  "remove_all p fs =
     fs\<lparr>fs_dirs := filter (\<lambda>q. \<not> prefix p q) (fs_dirs fs),
        fs_files := filter (\<lambda>(q, _). \<not> prefix p q) (fs_files fs)\<rparr>"

text \<open>The names of the subdirectories, as \<open>directory_iterator\<close> with \<open>is_directory\<close> yields them.\<close>

definition subdirs :: "fsys \<Rightarrow> path \<Rightarrow> string list" where
  "subdirs fs p = map last (filter (\<lambda>q. q \<noteq> [] \<and> butlast q = p) (fs_dirs fs))"

section \<open>Paths\<close>

definition session_index_path :: "path \<Rightarrow> path" where
  "session_index_path root_dir = root_dir @ [''session_index.json'']"

definition snapshot_path :: "path \<Rightarrow> string \<Rightarrow> nat \<Rightarrow> path" where
  "snapshot_path root_dir session_id n =
     root_dir @ [''users'', extract_super_user session_id, session_id,
       session_id @ ''_h'' @ nat_digits n @ ''.json'']"

definition user_convo_path :: "path \<Rightarrow> string \<Rightarrow> path" where
  "user_convo_path root_dir session_id =
     root_dir @ [''users'', extract_super_user session_id, session_id, session_id @ ''.json'']"

definition process_convo_path :: "path \<Rightarrow> int \<Rightarrow> string \<Rightarrow> path" where
  "process_convo_path root_dir creator_pid convo_id =
     root_dir @ [''procs'', to_string_int creator_pid, convo_id, convo_id @ ''.json'']"

text \<open>The empty path stands for the empty string the code returns.\<close>

definition infer_convo_path :: "path \<Rightarrow> string \<Rightarrow> int \<Rightarrow> path" where
  "infer_convo_path root_dir convo_id creator_pid_hint =
     (if is_session_id convo_id then user_convo_path root_dir convo_id
      else if creator_pid_hint > 0 then process_convo_path root_dir creator_pid_hint convo_id
      else if length convo_id > 5 \<and> prefix ''proc_'' convo_id
      then (let rest = drop 5 convo_id
            in case str_find rest ''_'' 0 of
                 None \<Rightarrow> []
               | Some sep \<Rightarrow>
                   (case stoi (take sep rest) of
                      Inl _ \<Rightarrow> []
                    | Inr creator_pid \<Rightarrow> process_convo_path root_dir creator_pid convo_id))
      else [])"

section \<open>Conversations\<close>

definition upsert_conversation :: "path \<Rightarrow> json \<Rightarrow> fsys \<Rightarrow> bool \<times> fsys" where
  "upsert_conversation root_dir conversation fs =
     (case rbind (jvalue as_string conversation ''convo_id'' []) (\<lambda>convo_id.
           rbind (jvalue as_int conversation ''creator_pid'' (-1)) (\<lambda>creator_pid.
             if convo_id = [] then Inr (False, fs)
             else let p = (if creator_pid > 0 then process_convo_path root_dir creator_pid convo_id
                           else user_convo_path root_dir convo_id)
                  in rbind (create_directories (butlast p) fs) (\<lambda>fs'. Inr (write_file p conversation fs'))))
      of Inl _ \<Rightarrow> (False, fs) | Inr r \<Rightarrow> r)"

definition get_conversation :: "path \<Rightarrow> string \<Rightarrow> fsys \<Rightarrow> json option" where
  "get_conversation root_dir convo_id fs =
     (let p = infer_convo_path root_dir convo_id (-1)
      in if p = [] \<or> \<not> fs_exists fs p then None
         else case tget (fs_files fs) p of None \<Rightarrow> None | Some contents \<Rightarrow> contents)"

definition delete_conversation :: "path \<Rightarrow> string \<Rightarrow> int \<Rightarrow> fsys \<Rightarrow> bool \<times> fsys" where
  "delete_conversation root_dir convo_id creator_pid_hint fs =
     (let p = infer_convo_path root_dir convo_id creator_pid_hint
      in if p = [] then (False, fs)
         else if fs_exists fs p
         then (case fs_remove p fs of Inl _ \<Rightarrow> (False, fs) | Inr fs' \<Rightarrow> (True, fs'))
         else (True, fs))"

definition delete_all_proc_convos :: "path \<Rightarrow> int \<Rightarrow> fsys \<Rightarrow> fsys" where
  "delete_all_proc_convos root_dir creator_pid fs =
     (let pid_dir = root_dir @ [''procs'', to_string_int creator_pid]
      in if fs_exists fs pid_dir then remove_all pid_dir fs else fs)"

definition list_proc_convo_ids :: "path \<Rightarrow> int \<Rightarrow> fsys \<Rightarrow> string list" where
  "list_proc_convo_ids root_dir creator_pid fs =
     (let pid_dir = root_dir @ [''procs'', to_string_int creator_pid]
      in if fs_exists fs pid_dir then subdirs fs pid_dir else [])"

definition list_proc_creator_pids :: "path \<Rightarrow> fsys \<Rightarrow> int list" where
  "list_proc_creator_pids root_dir fs =
     (let proc_root = root_dir @ [''procs'']
      in if \<not> fs_exists fs proc_root \<or> \<not> is_directory fs proc_root then []
         else List.map_filter (\<lambda>s. case stoi s of Inl _ \<Rightarrow> None | Inr n \<Rightarrow> Some n)
                (subdirs fs proc_root))"

section \<open>The session index\<close>

text \<open>\<open>if (!idx.contains("users") || !idx["users"].is_object()) idx["users"] = json::object()\<close>.\<close>

definition ensure_users :: "json \<Rightarrow> json res" where
  "ensure_users idx =
     (case jget idx ''users'' of
        Some (JObject us) \<Rightarrow> Inr idx
      | _ \<Rightarrow> jset ''users'' (JObject []) idx)"

fun load_index_from :: "fsys \<Rightarrow> path list \<Rightarrow> json" where
  "load_index_from fs [] = JObject [(''users'', JObject [])]"
| "load_index_from fs (p # ps) =
     (if \<not> fs_exists fs p then load_index_from fs ps
      else case tget (fs_files fs) p of
             Some (Some idx) \<Rightarrow>
               (case ensure_users idx of Inl _ \<Rightarrow> load_index_from fs ps | Inr idx' \<Rightarrow> idx')
           | _ \<Rightarrow> load_index_from fs ps)"

definition load_index_unlocked :: "path \<Rightarrow> fsys \<Rightarrow> json" where
  "load_index_unlocked root_dir fs =
     load_index_from fs [session_index_path root_dir, butlast root_dir @ [''session_index.json'']]"

definition save_index_unlocked :: "path \<Rightarrow> json \<Rightarrow> fsys \<Rightarrow> bool \<times> fsys" where
  "save_index_unlocked root_dir idx fs =
     (case create_directories (butlast (session_index_path root_dir)) fs of
        Inl _ \<Rightarrow> (False, fs)
      | Inr fs' \<Rightarrow> write_file (session_index_path root_dir) idx fs')"

text \<open>\<open>idx["users"]\<close> and the array of one user, as the operations below read and assign them.\<close>

definition users_of :: "json \<Rightarrow> (string \<times> json) list" where
  "users_of idx = (case jget idx ''users'' of Some (JObject us) \<Rightarrow> us | _ \<Rightarrow> [])"

fun set_users :: "(string \<times> json) list \<Rightarrow> json \<Rightarrow> json" where
  "set_users us (JObject m) = JObject (oput ''users'' (JObject us) m)"
| "set_users us j = j"

definition user_entries :: "json \<Rightarrow> string \<Rightarrow> json list option" where
  "user_entries idx super_user =
     (case oget (users_of idx) super_user of Some (JArray es) \<Rightarrow> Some es | _ \<Rightarrow> None)"

abbreviation index_entry :: "string \<Rightarrow> string \<Rightarrow> json" where
  "index_entry sid title \<equiv> jobj [(''session_id'', JString sid), (''title'', JString title)]"

text \<open>The loop over the entries: the first entry of the session is replaced, otherwise one is
  appended. \<open>entry["title"] = title\<close> is only reached on an object.\<close>

fun upsert_entries :: "string \<Rightarrow> string \<Rightarrow> json list \<Rightarrow> json list res" where
  "upsert_entries sid title [] = Inr [index_entry sid title]"
| "upsert_entries sid title (e # es) =
     (let next_entry = rbind (upsert_entries sid title es) (\<lambda>es'. Inr (e # es'))
      in case e of
           JObject m \<Rightarrow>
             rbind (jvalue as_string e ''session_id'' []) (\<lambda>s.
               if s = sid then Inr (JObject (oput ''title'' (JString title) m) # es) else next_entry)
         | JString s \<Rightarrow> if s = sid then Inr (index_entry sid title # es) else next_entry
         | _ \<Rightarrow> next_entry)"

fun filter_entries :: "string \<Rightarrow> json list \<Rightarrow> (bool \<times> json list) res" where
  "filter_entries sid [] = Inr (False, [])"
| "filter_entries sid (e # es) =
     rbind (case e of JObject m \<Rightarrow> jvalue as_string e ''session_id'' [] | JString s \<Rightarrow> Inr s | _ \<Rightarrow> Inr [])
       (\<lambda>s. rbind (filter_entries sid es) (\<lambda>(existed, filtered).
          Inr (if s = sid then (True, filtered) else (existed, e # filtered))))"

definition upsert_super_user :: "path \<Rightarrow> string \<Rightarrow> fsys \<Rightarrow> bool \<times> fsys" where
  "upsert_super_user root_dir super_user fs =
     (case create_directories (root_dir @ [''users'', super_user]) fs of
        Inl _ \<Rightarrow> (False, fs)
      | Inr fs1 \<Rightarrow>
          (case create_directories (butlast root_dir @ [''agentfiles'', super_user]) fs1 of
             Inl _ \<Rightarrow> (False, fs1)
           | Inr fs2 \<Rightarrow>
               (let idx = load_index_unlocked root_dir fs2;
                    us = users_of idx
                in save_index_unlocked root_dir
                     (case user_entries idx super_user of
                        Some es \<Rightarrow> idx
                      | None \<Rightarrow> set_users (oput super_user (JArray []) us) idx) fs2)))"

definition upsert_session_index_entry ::
    "path \<Rightarrow> string \<Rightarrow> string \<Rightarrow> string \<Rightarrow> fsys \<Rightarrow> bool \<times> fsys" where
  "upsert_session_index_entry root_dir super_user session_id title fs =
     (let idx = load_index_unlocked root_dir fs;
          es = (case user_entries idx super_user of Some es \<Rightarrow> es | None \<Rightarrow> [])
      in case upsert_entries session_id title es of
           Inl _ \<Rightarrow> (False, fs)
         | Inr es' \<Rightarrow>
             save_index_unlocked root_dir
               (set_users (oput super_user (JArray es') (users_of idx)) idx) fs)"

definition delete_session_index_entry ::
    "path \<Rightarrow> string \<Rightarrow> string \<Rightarrow> fsys \<Rightarrow> bool \<times> fsys" where
  "delete_session_index_entry root_dir super_user session_id fs =
     (let idx = load_index_unlocked root_dir fs
      in case user_entries idx super_user of
           None \<Rightarrow> (False, fs)
         | Some es \<Rightarrow>
             (case filter_entries session_id es of
                Inl _ \<Rightarrow> (False, fs)
              | Inr (existed, filtered) \<Rightarrow>
                  (existed,
                   snd (save_index_unlocked root_dir
                     (set_users (oput super_user (JArray filtered) (users_of idx)) idx) fs))))"

definition list_index_entries_from_fs :: "path \<Rightarrow> string \<Rightarrow> fsys \<Rightarrow> json list" where
  "list_index_entries_from_fs root_dir super_user fs =
     (let user_root = root_dir @ [''users'', super_user]
      in if \<not> fs_exists fs user_root \<or> \<not> is_directory fs user_root then []
         else map (\<lambda>sid. index_entry sid []) (filter (\<lambda>sid. sid \<noteq> []) (subdirs fs user_root)))"

text \<open>An entry as it is returned: an object as it is, a bare string with an empty title.\<close>

fun listed_entry :: "json \<Rightarrow> json option" where
  "listed_entry (JObject m) = Some (JObject m)"
| "listed_entry (JString s) = Some (index_entry s [])"
| "listed_entry _ = None"

definition list_session_index_entries :: "path \<Rightarrow> string \<Rightarrow> fsys \<Rightarrow> json list" where
  "list_session_index_entries root_dir super_user fs =
     (case user_entries (load_index_unlocked root_dir fs) super_user of
        None \<Rightarrow> list_index_entries_from_fs root_dir super_user fs
      | Some es \<Rightarrow>
          (let out = List.map_filter listed_entry es
           in if out = [] then list_index_entries_from_fs root_dir super_user fs else out))"

definition list_super_users :: "path \<Rightarrow> fsys \<Rightarrow> string list" where
  "list_super_users root_dir fs =
     (let users_root = root_dir @ [''users'']
      in remdups_adj (sort (map fst (users_of (load_index_unlocked root_dir fs))
           @ (if fs_exists fs users_root \<and> is_directory fs users_root then subdirs fs users_root else []))))"

section \<open>Snapshots\<close>

text \<open>\<open>while (fs::exists(path(n))) ++n\<close>. Each round finds another entry, so as many rounds as the
  file system has entries are enough.\<close>

fun first_free :: "(nat \<Rightarrow> bool) \<Rightarrow> nat \<Rightarrow> nat \<Rightarrow> nat" where
  "first_free used n 0 = n"
| "first_free used n (Suc fuel) = (if used n then first_free used (Suc n) fuel else n)"

definition fs_size :: "fsys \<Rightarrow> nat" where
  "fs_size fs = length (fs_dirs fs) + length (fs_files fs)"

definition append_snapshot :: "path \<Rightarrow> string \<Rightarrow> json \<Rightarrow> fsys \<Rightarrow> bool \<times> fsys" where
  "append_snapshot root_dir session_id snapshot fs =
     (let n = first_free (\<lambda>n. fs_exists fs (snapshot_path root_dir session_id n)) 1 (fs_size fs);
          p = snapshot_path root_dir session_id n
      in case create_directories (butlast p) fs of
           Inl _ \<Rightarrow> (False, fs)
         | Inr fs' \<Rightarrow> write_file p snapshot fs')"

definition snapshot_count :: "path \<Rightarrow> string \<Rightarrow> fsys \<Rightarrow> nat" where
  "snapshot_count root_dir session_id fs =
     first_free (\<lambda>n. fs_exists fs (snapshot_path root_dir session_id (n + 1))) 0 (fs_size fs)"

text \<open>The removal loop; an error of \<open>fs::remove\<close> ends it after the removals made so far.\<close>

fun remove_snapshots :: "path \<Rightarrow> string \<Rightarrow> nat \<Rightarrow> nat \<Rightarrow> bool \<Rightarrow> fsys \<Rightarrow> bool res \<times> fsys" where
  "remove_snapshots root_dir session_id n 0 deleted fs = (Inr deleted, fs)"
| "remove_snapshots root_dir session_id n (Suc fuel) deleted fs =
     (if \<not> fs_exists fs (snapshot_path root_dir session_id n) then (Inr deleted, fs)
      else case fs_remove (snapshot_path root_dir session_id n) fs of
             Inl e \<Rightarrow> (Inl e, fs)
           | Inr fs' \<Rightarrow> remove_snapshots root_dir session_id (Suc n) fuel True fs')"

definition delete_snapshots :: "path \<Rightarrow> string \<Rightarrow> fsys \<Rightarrow> bool res \<times> fsys" where
  "delete_snapshots root_dir session_id fs =
     remove_snapshots root_dir session_id 1 (Suc (fs_size fs)) False fs"

definition delete_session_snapshots_internal :: "path \<Rightarrow> string \<Rightarrow> fsys \<Rightarrow> unit res \<times> fsys" where
  "delete_session_snapshots_internal root_dir session_id fs =
     (case remove_snapshots root_dir session_id 1 (Suc (fs_size fs)) False fs of
        (Inl e, fs') \<Rightarrow> (Inl e, fs')
      | (Inr _, fs') \<Rightarrow> (Inr (), fs'))"

fun delete_snapshots_of :: "path \<Rightarrow> string list \<Rightarrow> bool \<Rightarrow> fsys \<Rightarrow> bool \<times> fsys" where
  "delete_snapshots_of root_dir [] deleted fs = (deleted, fs)"
| "delete_snapshots_of root_dir (sid # sids) deleted fs =
     (case delete_session_snapshots_internal root_dir sid fs of
        (Inl _, fs') \<Rightarrow> (deleted, fs')
      | (Inr _, fs') \<Rightarrow> delete_snapshots_of root_dir sids True fs')"

definition delete_snapshots_for_super_user :: "path \<Rightarrow> string \<Rightarrow> fsys \<Rightarrow> bool \<times> fsys" where
  "delete_snapshots_for_super_user root_dir super_user fs =
     (let user_root = root_dir @ [''users'', super_user]
      in if \<not> fs_exists fs user_root \<or> \<not> is_directory fs user_root then (False, fs)
         else delete_snapshots_of root_dir (subdirs fs user_root) False fs)"

definition delete_super_user :: "path \<Rightarrow> string \<Rightarrow> fsys \<Rightarrow> bool \<times> fsys" where
  "delete_super_user root_dir super_user fs =
     (let idx = load_index_unlocked root_dir fs;
          existed1 = (oget (users_of idx) super_user \<noteq> None);
          fs1 = snd (save_index_unlocked root_dir
                  (if existed1 then set_users (odel super_user (users_of idx)) idx else idx) fs);
          user_root = root_dir @ [''users'', super_user];
          (existed2, fs2) = (if fs_exists fs1 user_root then (True, remove_all user_root fs1)
                             else (existed1, fs1));
          agent_root = butlast root_dir @ [''agentfiles'', super_user];
          (existed3, fs3) = (if fs_exists fs2 agent_root then (True, remove_all agent_root fs2)
                             else (existed2, fs2))
      in if \<not> fs_exists fs3 user_root \<or> \<not> is_directory fs3 user_root then (existed3, fs3)
         else delete_snapshots_of root_dir (subdirs fs3 user_root) existed3 fs3)"

section \<open>Files written and read back\<close>

text \<open>\<open>SessionIO::generate_process_convo_id\<close> for a random number \<open>r\<close>.\<close>

definition process_convo_id :: "nat \<Rightarrow> nat \<Rightarrow> string" where
  "process_convo_id creator_pid r = ''proc_'' @ nat_digits creator_pid @ ''_'' @ nat_digits r"

lemma create_directories_files:
  "create_directories p fs = Inr fs' \<Longrightarrow> fs_files fs' = fs_files fs"
  by (auto simp: create_directories_def split: if_splits)

lemma set_fold_uinsert: "set (fold uinsert xs ys) = set xs \<union> set ys"
  by (induction xs arbitrary: ys) auto

lemma create_directories_dirs:
  "create_directories p fs = Inr fs' \<Longrightarrow> set (fs_dirs fs') = set (prefixes p) \<union> set (fs_dirs fs)"
  by (auto simp: create_directories_def set_fold_uinsert split: if_splits)

lemma write_file_True:
  "write_file p j fs = (True, fs') \<Longrightarrow>
     tget (fs_files fs') p = Some (Some j) \<and> fs_dirs fs' = fs_dirs fs
     \<and> (\<forall>q. q \<noteq> p \<longrightarrow> tget (fs_files fs') q = tget (fs_files fs) q)"
  by (auto simp: write_file_def split: if_splits)

lemma digits_no_sep: "list_all isdigit ds \<Longrightarrow> CHR ''_'' \<notin> set ds \<and> CHR ''s'' \<notin> set ds"
  using digit_neq_sep by (auto simp: list_all_iff)

lemma rfind_no_s: "CHR ''s'' \<notin> set s \<Longrightarrow> str_rfind s ''_s'' = None"
proof -
  assume "CHR ''s'' \<notin> set s"
  moreover have "CHR ''s'' \<in> set s" if "occurs_at s ''_s'' k" for k
    using that by (auto simp: occurs_at_def prefix_def dest: arg_cong [where f = set])
      (metis in_set_dropD list.set_intros(1) list.set_intros(2))
  ultimately show ?thesis by (auto simp: str_rfind_None)
qed

lemma process_convo_id_not_session: "\<not> is_session_id (process_convo_id n r)"
proof -
  have "CHR ''s'' \<notin> set (process_convo_id n r)"
    using digits_no_sep [OF nat_digits_isdigit] by (simp add: process_convo_id_def)
  then show ?thesis
    by (simp add: is_session_id_def extract_super_user_def rfind_no_s)
qed

lemma find_sep_digits:
  assumes "list_all isdigit ds"
  shows "str_find (ds @ ''_'' @ rest) ''_'' 0 = Some (length ds)"
proof -
  have "\<not> occurs_at (ds @ ''_'' @ rest) ''_'' k" if "k < length ds" for k
  proof
    assume "occurs_at (ds @ ''_'' @ rest) ''_'' k"
    with that have "CHR ''_'' = ds ! k"
      by (auto simp: occurs_at_def prefix_def Cons_nth_drop_Suc [symmetric] nth_append
          dest!: arg_cong [where f = hd])
    with that assms show False using digits_no_sep nth_mem by metis
  qed
  moreover have "occurs_at (ds @ ''_'' @ rest) ''_'' (length ds)" by (simp add: occurs_at_def)
  ultimately show ?thesis by (simp add: str_find_Some)
qed

lemma infer_process_convo_path:
  assumes "int n \<le> INT_MAX"
  shows "infer_convo_path root_dir (process_convo_id n r) (-1)
       = process_convo_path root_dir (int n) (process_convo_id n r)"
proof -
  have "str_find (nat_digits n @ ''_'' @ nat_digits r) ''_'' 0 = Some (length (nat_digits n))"
    by (rule find_sep_digits [OF nat_digits_isdigit])
  moreover have "drop 5 (process_convo_id n r) = nat_digits n @ ''_'' @ nat_digits r"
    by (simp add: process_convo_id_def)
  moreover have "length (process_convo_id n r) > 5" "prefix ''proc_'' (process_convo_id n r)"
    by (simp_all add: process_convo_id_def)
  ultimately show ?thesis
    using assms process_convo_id_not_session
    by (simp add: infer_convo_path_def Let_def stoi_nat_digits)
qed

lemma infer_convo_path_last:
  "infer_convo_path root_dir cid h \<noteq> [] \<Longrightarrow> last (infer_convo_path root_dir cid h) = cid @ ''.json''"
  by (auto simp: infer_convo_path_def user_convo_path_def process_convo_path_def Let_def
      split: if_splits option.splits sum.splits)

lemma get_conversation_file:
  "get_conversation root_dir cid fs =
     (let p = infer_convo_path root_dir cid (-1)
      in if p = [] then None else case tget (fs_files fs) p of None \<Rightarrow> None | Some c \<Rightarrow> c)"
  by (auto simp: get_conversation_def Let_def fs_exists_def split: option.splits)

lemma upsert_conversation_True:
  assumes "upsert_conversation root_dir j fs = (True, fs')"
    and "jget j ''convo_id'' = Some (JString cid)"
    and "jvalue as_int j ''creator_pid'' (-1) = Inr pid"
    and p: "p = (if pid > 0 then process_convo_path root_dir pid cid else user_convo_path root_dir cid)"
  shows "tget (fs_files fs') p = Some (Some j)
     \<and> (\<forall>q. q \<noteq> p \<longrightarrow> tget (fs_files fs') q = tget (fs_files fs) q)"
proof -
  have "is_object j" using assms(2) by (cases j) auto
  then have "jvalue as_string j ''convo_id'' [] = Inr cid"
    using assms(2) by (simp add: jvalue_object)
  then obtain fs1 where "create_directories (butlast p) fs = Inr fs1"
    and "write_file p j fs1 = (True, fs')"
    using assms by (auto simp: upsert_conversation_def Let_def split: sum.splits if_splits
        simp: rbind_Inr_conv)
  then show ?thesis using write_file_True create_directories_files by metis
qed

lemma upsert_then_get:
  assumes "upsert_conversation root_dir j fs = (True, fs')"
    and "jget j ''convo_id'' = Some (JString cid)"
    and "jvalue as_int j ''creator_pid'' (-1) = Inr pid"
    and "pid \<le> 0 \<and> is_session_id cid
         \<or> (\<exists>n r. pid = int n \<and> 0 < n \<and> cid = process_convo_id n r)"
  shows "get_conversation root_dir cid fs' = Some j
     \<and> (\<forall>other. other \<noteq> cid \<longrightarrow> get_conversation root_dir other fs' = get_conversation root_dir other fs)"
proof -
  define p where "p = (if pid > 0 then process_convo_path root_dir pid cid else user_convo_path root_dir cid)"
  have "is_object j" using assms(2) by (cases j) auto
  then have "pid \<le> INT_MAX"
    using assms(3) as_int_range by (auto simp: jvalue_object split: option.splits)
  have user: "infer_convo_path root_dir cid (-1) = user_convo_path root_dir cid" if "is_session_id cid"
    using that by (simp add: infer_convo_path_def)
  have infer: "infer_convo_path root_dir cid (-1) = p"
    using assms(4) \<open>pid \<le> INT_MAX\<close> user by (auto simp: p_def infer_process_convo_path)
  have files: "tget (fs_files fs') p = Some (Some j)"
    and keep: "\<forall>q. q \<noteq> p \<longrightarrow> tget (fs_files fs') q = tget (fs_files fs) q"
    using upsert_conversation_True [OF assms(1-3) p_def] by auto
  have "p \<noteq> []" by (simp add: p_def process_convo_path_def user_convo_path_def)
  with infer files have "get_conversation root_dir cid fs' = Some j"
    by (simp add: get_conversation_file)
  moreover have "get_conversation root_dir other fs' = get_conversation root_dir other fs"
    if "other \<noteq> cid" for other
  proof (cases "infer_convo_path root_dir other (-1) = []")
    case False
    then have "infer_convo_path root_dir other (-1) \<noteq> p"
      using infer_convo_path_last infer \<open>p \<noteq> []\<close> that by (metis append_same_eq)
    with keep show ?thesis by (simp add: get_conversation_file Let_def)
  qed (simp add: get_conversation_file)
  ultimately show ?thesis by blast
qed

text \<open>A stored conversation is read back. When the JSON back end accepts a conversation, of a
  user session or of a process with an id of the generated form, looking up its id returns exactly
  that conversation, and every other conversation id reads as before.\<close>

theorem conversation_roundtrip:
  assumes "upsert_conversation root_dir j fs = (True, fs')"
    and "jget j ''convo_id'' = Some (JString cid)"
    and "jvalue as_int j ''creator_pid'' (-1) = Inr pid"
    and "pid \<le> 0 \<and> is_session_id cid
         \<or> (\<exists>n r. pid = int n \<and> 0 < n \<and> cid = process_convo_id n r)"
  shows "get_conversation root_dir cid fs' = Some j
     \<and> (\<forall>other. other \<noteq> cid \<longrightarrow> get_conversation root_dir other fs' = get_conversation root_dir other fs)"
  by (rule upsert_then_get [OF assms])

definition demo_fs :: fsys where
  "demo_fs = \<lparr>fs_dirs = [[], [''memory''], [''memory'', ''sessions'']], fs_files = []\<rparr>"

abbreviation demo_root :: path where
  "demo_root \<equiv> [''memory'', ''sessions'']"

definition demo_convo :: json where
  "demo_convo = JObject [(''convo_id'', JString ''ana_s1''), (''messages'', JArray [])]"

lemma conversation_roundtrip_witness:
  "get_conversation demo_root ''ana_s1'' (snd (upsert_conversation demo_root demo_convo demo_fs)) = Some demo_convo
   \<and> get_conversation demo_root ''ana_s2'' (snd (upsert_conversation demo_root demo_convo demo_fs)) = None"
proof -
  have up: "upsert_conversation demo_root demo_convo demo_fs
      = (True, snd (upsert_conversation demo_root demo_convo demo_fs))"
    and "jget demo_convo ''convo_id'' = Some (JString ''ana_s1'')"
    and "jvalue as_int demo_convo ''creator_pid'' (-1) = Inr (-1)"
    and "is_session_id ''ana_s1''"
    and "get_conversation demo_root ''ana_s2'' demo_fs = None"
    and "''ana_s2'' \<noteq> ''ana_s1''"
    by code_simp+
  then show ?thesis
    using conversation_roundtrip [OF up, of "''ana_s1''" "-1"] by simp
qed

section \<open>The index after an update\<close>

lemma ensure_users_shape:
  "ensure_users idx = Inr idx' \<Longrightarrow> \<exists>m us. idx' = JObject m \<and> oget m ''users'' = Some (JObject us)"
  by (cases idx) (auto simp: ensure_users_def split: option.splits json.splits)

lemma load_index_shape:
  "\<exists>m us. load_index_unlocked root_dir fs = JObject m \<and> oget m ''users'' = Some (JObject us)"
proof -
  have "\<exists>m us. load_index_from fs ps = JObject m \<and> oget m ''users'' = Some (JObject us)" for ps
    by (induction ps) (auto split: option.splits sum.splits dest!: ensure_users_shape)
  then show ?thesis unfolding load_index_unlocked_def by blast
qed

lemma users_of_set_users [simp]: "is_object idx \<Longrightarrow> users_of (set_users us idx) = us"
  by (cases idx) (auto simp: users_of_def)

lemma ensure_users_set_users [simp]:
  "is_object idx \<Longrightarrow> ensure_users (set_users us idx) = Inr (set_users us idx)"
  by (cases idx) (auto simp: ensure_users_def)

lemma is_object_load_index [simp]: "is_object (load_index_unlocked root_dir fs)"
  using load_index_shape [of root_dir fs] by auto

lemma load_saved_index:
  assumes "save_index_unlocked root_dir idx fs = (True, fs')" and "ensure_users idx = Inr idx"
  shows "load_index_unlocked root_dir fs' = idx"
proof -
  have "tget (fs_files fs') (session_index_path root_dir) = Some (Some idx)"
    using assms(1) write_file_True by (auto simp: save_index_unlocked_def split: sum.splits)
  then show ?thesis using assms(2) by (simp add: load_index_unlocked_def fs_exists_def)
qed

text \<open>What an entry contributes to the index: the id it is found under.\<close>

definition entry_sid :: "json \<Rightarrow> string option" where
  "entry_sid e = (case e of
      JObject m \<Rightarrow> (case jvalue as_string e ''session_id'' [] of Inl _ \<Rightarrow> None | Inr s \<Rightarrow> Some s)
    | JString s \<Rightarrow> Some s
    | _ \<Rightarrow> None)"

definition index_ids :: "path \<Rightarrow> fsys \<Rightarrow> string \<Rightarrow> string list" where
  "index_ids root_dir fs super_user =
     (case user_entries (load_index_unlocked root_dir fs) super_user of
        None \<Rightarrow> [] | Some es \<Rightarrow> List.map_filter entry_sid es)"

lemma entry_sid_index_entry [simp]: "entry_sid (index_entry sid t) = Some sid"
  by (simp add: entry_sid_def jobj_def)

lemma entry_sid_simps [simp]:
  "entry_sid JNull = None" "entry_sid (JBool b) = None" "entry_sid (JInt i) = None"
  "entry_sid (JFloat r) = None" "entry_sid (JArray es) = None" "entry_sid (JString s) = Some s"
  by (simp_all add: entry_sid_def)

lemma entry_sid_object:
  "entry_sid (JObject m) = (case jvalue as_string (JObject m) ''session_id'' [] of
      Inl _ \<Rightarrow> None | Inr s \<Rightarrow> Some s)"
  by (simp add: entry_sid_def)

lemma entry_sid_set_title [simp]:
  "entry_sid (JObject (oput ''title'' v m)) = entry_sid (JObject m)"
  by (simp add: entry_sid_object)

lemma entry_sid_Inr:
  "jvalue as_string (JObject m) ''session_id'' [] = Inr s \<Longrightarrow> entry_sid (JObject m) = Some s"
  by (simp add: entry_sid_object)

lemma map_filter_Cons:
  "List.map_filter f (x # xs) = (case f x of None \<Rightarrow> List.map_filter f xs | Some y \<Rightarrow> y # List.map_filter f xs)"
  by (simp add: map_filter_simps)

lemma upsert_entries_ids:
  "upsert_entries sid t es = Inr es' \<Longrightarrow>
     List.map_filter entry_sid es' =
       (if sid \<in> set (List.map_filter entry_sid es) then List.map_filter entry_sid es
        else List.map_filter entry_sid es @ [sid])"
proof (induction es arbitrary: es')
  case Nil
  then show ?case by (auto simp: map_filter_simps)
next
  case (Cons e es)
  then show ?case
    by (cases e) (auto simp: map_filter_Cons Let_def rbind_Inr_conv simp del: jvalue.simps
        dest!: entry_sid_Inr split: if_splits)
qed

lemma filter_entries_ids:
  "filter_entries sid es = Inr (existed, es') \<Longrightarrow> sid \<noteq> [] \<Longrightarrow>
     List.map_filter entry_sid es' = filter (\<lambda>s. s \<noteq> sid) (List.map_filter entry_sid es)
     \<and> (existed \<longleftrightarrow> sid \<in> set (List.map_filter entry_sid es))"
proof (induction es arbitrary: existed es')
  case (Cons e es)
  then show ?case
    by (cases e) (auto simp: map_filter_Cons rbind_Inr_conv simp del: jvalue.simps
        dest!: entry_sid_Inr split: if_splits)
qed (simp add: map_filter_simps)

lemma user_entries_set_users:
  "is_object idx \<Longrightarrow> user_entries (set_users (oput u (JArray es) (users_of idx)) idx) v
     = (if v = u then Some es else user_entries idx v)"
  by (simp add: user_entries_def)

lemma index_ids_saved:
  assumes "save_index_unlocked root_dir
      (set_users (oput u (JArray es) (users_of (load_index_unlocked root_dir fs)))
        (load_index_unlocked root_dir fs)) fs = (True, fs')"
  shows "index_ids root_dir fs' v
     = (if v = u then List.map_filter entry_sid es else index_ids root_dir fs v)"
  using load_saved_index [OF assms] by (simp add: index_ids_def user_entries_set_users)

text \<open>Where the index was written once it can be written again.\<close>

lemma save_index_again:
  assumes "save_index_unlocked root_dir i fs = (True, fs1)"
  shows "fst (save_index_unlocked root_dir j fs1)"
proof -
  let ?p = "root_dir @ [''session_index.json'']"
  obtain fs0 where cr: "create_directories root_dir fs = Inr fs0" and w: "write_file ?p i fs0 = (True, fs1)"
    using assms by (auto simp: save_index_unlocked_def session_index_path_def split: sum.splits)
  have dirs: "set (fs_dirs fs1) = set (prefixes root_dir) \<union> set (fs_dirs fs)"
    using create_directories_dirs [OF cr] write_file_True [OF w] by simp
  have free: "?p \<notin> set (fs_dirs fs1)"
    using w write_file_True [OF w] by (auto simp: write_file_def split: if_splits)
  have "tget (fs_files fs1) q = None" if "q \<in> set (prefixes root_dir)" for q
  proof -
    have "q \<noteq> ?p" using that by (auto dest: prefix_length_le)
    then have "tget (fs_files fs1) q = tget (fs_files fs0) q" using write_file_True [OF w] by blast
    also have "\<dots> = tget (fs_files fs) q" using create_directories_files [OF cr] by simp
    also have "\<dots> = None" using cr that by (auto simp: create_directories_def split: if_splits)
    finally show ?thesis .
  qed
  then have "create_directories root_dir fs1 = Inr (fs1\<lparr>fs_dirs := fold uinsert (prefixes root_dir) (fs_dirs fs1)\<rparr>)"
    by (auto simp: create_directories_def)
  then show ?thesis
    using dirs free by (auto simp: save_index_unlocked_def session_index_path_def write_file_def set_fold_uinsert)
qed

text \<open>The session index as a keyed store. A successful upsert keeps the order of the user's
  session ids and appends the id exactly when it was not there, so that no id is ever listed twice
  or lost, and leaves the sessions of every other user alone. A successful deletion removes exactly
  that id and reports whether it was there.\<close>

theorem session_index_exact:
  assumes "upsert_session_index_entry root_dir su sid title fs = (True, fs1)"
    and "delete_session_index_entry root_dir tu tid fs1 = (True, fs2)" and "tid \<noteq> []"
  shows "index_ids root_dir fs1 su =
           (if sid \<in> set (index_ids root_dir fs su) then index_ids root_dir fs su
            else index_ids root_dir fs su @ [sid])
     \<and> (\<forall>v. v \<noteq> su \<longrightarrow> index_ids root_dir fs1 v = index_ids root_dir fs v)
     \<and> tid \<in> set (index_ids root_dir fs1 tu)
     \<and> index_ids root_dir fs2 tu = filter (\<lambda>s. s \<noteq> tid) (index_ids root_dir fs1 tu)
     \<and> (\<forall>v. v \<noteq> tu \<longrightarrow> index_ids root_dir fs2 v = index_ids root_dir fs1 v)"
proof -
  let ?idx = "load_index_unlocked root_dir fs"
  let ?es = "case user_entries ?idx su of Some es \<Rightarrow> es | None \<Rightarrow> []"
  obtain es' where up: "upsert_entries sid title ?es = Inr es'"
    and save: "save_index_unlocked root_dir (set_users (oput su (JArray es') (users_of ?idx)) ?idx) fs = (True, fs1)"
    using assms(1) by (auto simp: upsert_session_index_entry_def Let_def split: sum.splits)
  have "List.map_filter entry_sid ?es = index_ids root_dir fs su"
    by (auto simp: index_ids_def map_filter_simps split: option.splits)
  with upsert_entries_ids [OF up] index_ids_saved [OF save]
  have upsert: "index_ids root_dir fs1 su =
           (if sid \<in> set (index_ids root_dir fs su) then index_ids root_dir fs su
            else index_ids root_dir fs su @ [sid])"
    and others: "\<forall>v. v \<noteq> su \<longrightarrow> index_ids root_dir fs1 v = index_ids root_dir fs v"
    by simp_all
  let ?idx1 = "load_index_unlocked root_dir fs1"
  obtain es1 filtered where es1: "user_entries ?idx1 tu = Some es1"
    and filt: "filter_entries tid es1 = Inr (True, filtered)"
    and fs2: "fs2 = snd (save_index_unlocked root_dir
        (set_users (oput tu (JArray filtered) (users_of ?idx1)) ?idx1) fs1)"
    using assms(2) by (auto simp: delete_session_index_entry_def Let_def split: option.splits sum.splits)
  have "save_index_unlocked root_dir
        (set_users (oput tu (JArray filtered) (users_of ?idx1)) ?idx1) fs1 = (True, fs2)"
    using save_index_again [OF save] by (simp add: fs2 prod_eq_iff)
  from index_ids_saved [OF this] filter_entries_ids [OF filt assms(3)] es1
  have "index_ids root_dir fs2 tu = filter (\<lambda>s. s \<noteq> tid) (index_ids root_dir fs1 tu)"
    "tid \<in> set (index_ids root_dir fs1 tu)"
    "\<forall>v. v \<noteq> tu \<longrightarrow> index_ids root_dir fs2 v = index_ids root_dir fs1 v"
    by (simp_all add: index_ids_def)
  with upsert others show ?thesis by blast
qed

definition demo_indexed :: fsys where
  "demo_indexed = snd (upsert_session_index_entry demo_root ''ana'' ''ana_s1'' ''first'' demo_fs)"

lemma session_index_exact_witness:
  "index_ids demo_root (snd (upsert_session_index_entry demo_root ''ana'' ''ana_s2'' ''two'' demo_indexed)) ''ana''
     = [''ana_s1'', ''ana_s2'']
   \<and> index_ids demo_root (snd (delete_session_index_entry demo_root ''ana'' ''ana_s1''
       (snd (upsert_session_index_entry demo_root ''ana'' ''ana_s2'' ''two'' demo_indexed)))) ''ana''
     = [''ana_s2'']"
proof -
  let ?fs1 = "snd (upsert_session_index_entry demo_root ''ana'' ''ana_s2'' ''two'' demo_indexed)"
  let ?fs2 = "snd (delete_session_index_entry demo_root ''ana'' ''ana_s1'' ?fs1)"
  have up: "upsert_session_index_entry demo_root ''ana'' ''ana_s2'' ''two'' demo_indexed = (True, ?fs1)"
    and del: "delete_session_index_entry demo_root ''ana'' ''ana_s1'' ?fs1 = (True, ?fs2)"
    and ids: "index_ids demo_root demo_indexed ''ana'' = [''ana_s1'']"
    by code_simp+
  show ?thesis
    using session_index_exact [OF up del] ids by simp
qed

section \<open>Snapshot numbering\<close>

lemma first_free_spec:
  assumes "finite {k. used k}" and "card {k. used k \<and> n \<le> k} \<le> fuel"
  shows "n \<le> first_free used n fuel \<and> \<not> used (first_free used n fuel)
     \<and> (\<forall>k. n \<le> k \<and> k < first_free used n fuel \<longrightarrow> used k)"
  using assms(2)
proof (induction fuel arbitrary: n)
  case 0
  have "finite {k. used k \<and> n \<le> k}" by (rule finite_subset [OF _ assms(1)]) blast
  with 0 have "{k. used k \<and> n \<le> k} = {}" by simp
  then show ?case by auto
next
  case (Suc fuel)
  show ?case
  proof (cases "used n")
    case True
    have "{k. used k \<and> n \<le> k} = insert n {k. used k \<and> Suc n \<le> k}"
      using True by (auto simp: Suc_le_eq le_less)
    moreover have "finite {k. used k \<and> Suc n \<le> k}" by (rule finite_subset [OF _ assms(1)]) blast
    ultimately have "card {k. used k \<and> Suc n \<le> k} \<le> fuel" using Suc.prems by simp
    from Suc.IH [OF this] True show ?thesis
      by (auto simp: Suc_le_eq) (metis le_neq_implies_less)
  qed auto
qed

lemma fs_exists_set: "{p. fs_exists fs p} = set (fs_dirs fs) \<union> set (tkeys (fs_files fs))"
  by (auto simp: fs_exists_def map_of_eq_None_iff image_iff)

text \<open>Numbered names in use are at most as many as the file system has entries.\<close>

lemma numbered_paths_bounded:
  fixes f :: "nat \<Rightarrow> path"
  assumes "inj f"
  shows "finite {k. fs_exists fs (f k)} \<and> card {k. fs_exists fs (f k) \<and> n \<le> k} \<le> fs_size fs"
proof
  let ?E = "set (fs_dirs fs) \<union> set (tkeys (fs_files fs))"
  have sub: "f ` {k. fs_exists fs (f k)} \<subseteq> ?E"
    using fs_exists_set [of fs] by blast
  then have fin: "finite (f ` {k. fs_exists fs (f k)})" by (rule finite_subset) simp
  then show fin': "finite {k. fs_exists fs (f k)}"
    by (rule finite_imageD) (rule inj_on_subset [OF assms], simp)
  have "card {k. fs_exists fs (f k) \<and> n \<le> k} \<le> card {k. fs_exists fs (f k)}"
    by (rule card_mono [OF fin']) blast
  also have "\<dots> = card (f ` {k. fs_exists fs (f k)})"
    by (rule card_image [symmetric]) (rule inj_on_subset [OF assms], simp)
  also have "\<dots> \<le> card ?E" by (rule card_mono [OF _ sub]) simp
  also have "\<dots> \<le> card (set (fs_dirs fs)) + card (set (tkeys (fs_files fs)))" by (rule card_Un_le)
  also have "\<dots> \<le> fs_size fs"
    unfolding fs_size_def by (metis add_mono card_length length_map)
  finally show "card {k. fs_exists fs (f k) \<and> n \<le> k} \<le> fs_size fs" .
qed

lemma inj_snapshot_path: "inj (\<lambda>n. snapshot_path root_dir sid n)"
  by (rule injI) (simp add: snapshot_path_def nat_digits_inj)

lemma inj_snapshot_path_Suc: "inj (\<lambda>n. snapshot_path root_dir sid (n + 1))"
  by (rule injI) (simp add: snapshot_path_def nat_digits_inj)

lemma snapshot_count_spec:
  "\<not> fs_exists fs (snapshot_path root_dir sid (Suc (snapshot_count root_dir sid fs)))
   \<and> (\<forall>k. 1 \<le> k \<and> k \<le> snapshot_count root_dir sid fs \<longrightarrow> fs_exists fs (snapshot_path root_dir sid k))"
proof -
  have "finite {k. fs_exists fs (snapshot_path root_dir sid (k + 1))}"
    and "card {k. fs_exists fs (snapshot_path root_dir sid (k + 1)) \<and> 0 \<le> k} \<le> fs_size fs"
    using numbered_paths_bounded [OF inj_snapshot_path_Suc, of fs root_dir sid 0] by auto
  from first_free_spec [OF this] show ?thesis
    unfolding snapshot_count_def [symmetric] by (auto simp: Suc_le_eq) (metis Suc_pred less_le_trans less_imp_le lessI)
qed

lemma snapshot_count_unique:
  assumes "\<not> fs_exists fs (snapshot_path root_dir sid (Suc c))"
    and "\<forall>k. 1 \<le> k \<and> k \<le> c \<longrightarrow> fs_exists fs (snapshot_path root_dir sid k)"
  shows "snapshot_count root_dir sid fs = c"
  using snapshot_count_spec [of fs root_dir sid] assms
  by (metis Suc_le_eq le_add1 linorder_neqE_nat plus_1_eq_Suc)

lemma append_snapshot_number:
  "first_free (\<lambda>n. fs_exists fs (snapshot_path root_dir sid n)) 1 (fs_size fs)
     = Suc (snapshot_count root_dir sid fs)"
proof -
  let ?n = "first_free (\<lambda>n. fs_exists fs (snapshot_path root_dir sid n)) 1 (fs_size fs)"
  have "finite {k. fs_exists fs (snapshot_path root_dir sid k)}"
    and "card {k. fs_exists fs (snapshot_path root_dir sid k) \<and> 1 \<le> k} \<le> fs_size fs"
    using numbered_paths_bounded [OF inj_snapshot_path, of fs root_dir sid 1] by auto
  from first_free_spec [OF this] have n: "1 \<le> ?n" "\<not> fs_exists fs (snapshot_path root_dir sid ?n)"
    "\<forall>k. 1 \<le> k \<and> k < ?n \<longrightarrow> fs_exists fs (snapshot_path root_dir sid k)" by auto
  then have "Suc (?n - 1) = ?n" by simp
  with n have "snapshot_count root_dir sid fs = ?n - 1"
    by (intro snapshot_count_unique) (simp, metis Suc_le_eq Suc_le_mono)
  with \<open>Suc (?n - 1) = ?n\<close> show ?thesis by simp
qed

lemma append_snapshot_file:
  assumes "append_snapshot root_dir sid snap fs = (True, fs')"
    and "c = snapshot_count root_dir sid fs"
  shows "(\<forall>k. 1 \<le> k \<and> k \<le> c \<longrightarrow> fs_exists fs (snapshot_path root_dir sid k))
     \<and> \<not> fs_exists fs (snapshot_path root_dir sid (Suc c))
     \<and> tget (fs_files fs') (snapshot_path root_dir sid (Suc c)) = Some (Some snap)
     \<and> (\<forall>q. q \<noteq> snapshot_path root_dir sid (Suc c) \<longrightarrow> tget (fs_files fs') q = tget (fs_files fs) q)
     \<and> c < snapshot_count root_dir sid fs'"
proof -
  let ?p = "snapshot_path root_dir sid (Suc c)"
  obtain fs1 where cr: "create_directories (butlast ?p) fs = Inr fs1" and w: "write_file ?p snap fs1 = (True, fs')"
    using assms by (auto simp: append_snapshot_def append_snapshot_number [simplified] Let_def split: sum.splits)
  note spec = snapshot_count_spec [of fs root_dir sid, folded assms(2)]
  have new: "tget (fs_files fs') ?p = Some (Some snap)"
    and keep: "\<forall>q. q \<noteq> ?p \<longrightarrow> tget (fs_files fs') q = tget (fs_files fs) q"
    using write_file_True [OF w] create_directories_files [OF cr] by auto
  have mono: "fs_exists fs' q" if "fs_exists fs q" for q
    using that write_file_True [OF w] create_directories_dirs [OF cr] keep new
    by (cases "q = ?p") (auto simp: fs_exists_def)
  have "fs_exists fs' (snapshot_path root_dir sid k)" if "1 \<le> k" "k \<le> Suc c" for k
    using that spec mono new by (cases "k = Suc c") (auto simp: fs_exists_def)
  then have "c < snapshot_count root_dir sid fs'"
    using snapshot_count_spec [of fs' root_dir sid] by (metis Suc_le_mono le_add1 not_less plus_1_eq_Suc)
  with spec new keep show ?thesis by blast
qed

text \<open>Snapshots are never overwritten. The count is the length of the unbroken run of snapshot
  files from number one, the loop that finds it ends within the size of the file system, an append
  writes exactly the first missing number, which then counts, and no other file changes.\<close>

theorem append_snapshot_correct:
  assumes "append_snapshot root_dir sid snap fs = (True, fs')"
    and "c = snapshot_count root_dir sid fs"
  shows "(\<forall>k. 1 \<le> k \<and> k \<le> c \<longrightarrow> fs_exists fs (snapshot_path root_dir sid k))
     \<and> \<not> fs_exists fs (snapshot_path root_dir sid (Suc c))
     \<and> tget (fs_files fs') (snapshot_path root_dir sid (Suc c)) = Some (Some snap)
     \<and> (\<forall>q. q \<noteq> snapshot_path root_dir sid (Suc c) \<longrightarrow> tget (fs_files fs') q = tget (fs_files fs) q)
     \<and> c < snapshot_count root_dir sid fs'"
  by (rule append_snapshot_file [OF assms])

lemma append_snapshot_correct_witness:
  "snapshot_count demo_root ''ana_s1'' demo_fs = 0
   \<and> 0 < snapshot_count demo_root ''ana_s1'' (snd (append_snapshot demo_root ''ana_s1'' JNull demo_fs))"
proof -
  have ap: "append_snapshot demo_root ''ana_s1'' JNull demo_fs
      = (True, snd (append_snapshot demo_root ''ana_s1'' JNull demo_fs))"
    and c: "snapshot_count demo_root ''ana_s1'' demo_fs = 0"
    by code_simp+
  show ?thesis using append_snapshot_correct [OF ap refl] c by simp
qed

end
