(* ===== verification/Session_Manager.thy ===== *)
theory Session_Manager
  imports Json_Storage
begin

text \<open>
  \<^verbatim>\<open>llm/session_manager.cpp\<close>: the session index, allocation, listing and deletion of sessions.
  \<open>storage_provider_\<close> is a table of operations over the world (the file system and the state of a
  data base), as the C++ object is reached through its virtual functions; without one the manager
  keeps its own index file. The JSON back end is one instance. What the manager relies on of a back
  end is the interface \<open>session_store\<close>; in it a new session is fresh, listed, and displaces no other.
\<close>

section \<open>Storage providers\<close>

type_synonym 'd world = "fsys \<times> 'd"

record 'd istorage =
  sp_upsert_super_user :: "string \<Rightarrow> 'd world \<Rightarrow> bool \<times> 'd world"
  sp_delete_super_user :: "string \<Rightarrow> 'd world \<Rightarrow> bool \<times> 'd world"
  sp_list_super_users :: "'d world \<Rightarrow> string list"
  sp_upsert_session_index_entry :: "string \<Rightarrow> string \<Rightarrow> string \<Rightarrow> 'd world \<Rightarrow> bool \<times> 'd world"
  sp_delete_session_index_entry :: "string \<Rightarrow> string \<Rightarrow> 'd world \<Rightarrow> bool \<times> 'd world"
  sp_list_session_index_entries :: "string \<Rightarrow> 'd world \<Rightarrow> json list"
  sp_append_snapshot :: "string \<Rightarrow> json \<Rightarrow> 'd world \<Rightarrow> bool \<times> 'd world"
  sp_snapshot_count :: "string \<Rightarrow> 'd world \<Rightarrow> nat"
  sp_delete_snapshots :: "string \<Rightarrow> 'd world \<Rightarrow> bool res \<times> 'd world"
  sp_upsert_conversation :: "json \<Rightarrow> 'd world \<Rightarrow> bool \<times> 'd world"
  sp_get_conversation :: "string \<Rightarrow> 'd world \<Rightarrow> json option"
  sp_delete_conversation :: "string \<Rightarrow> int \<Rightarrow> 'd world \<Rightarrow> bool \<times> 'd world"
  sp_delete_all_proc_convos :: "int \<Rightarrow> 'd world \<Rightarrow> 'd world"
  sp_list_proc_convo_ids :: "int \<Rightarrow> 'd world \<Rightarrow> string list"
  sp_list_proc_creator_pids :: "'d world \<Rightarrow> int list"

text \<open>A file operation as an operation on the world.\<close>

definition on_fs :: "(fsys \<Rightarrow> 'a \<times> fsys) \<Rightarrow> 'd world \<Rightarrow> 'a \<times> 'd world" where
  "on_fs f w = (case f (fst w) of (a, fs) \<Rightarrow> (a, (fs, snd w)))"

definition json_provider :: "path \<Rightarrow> 'd istorage" where
  "json_provider root_dir =
     \<lparr>sp_upsert_super_user = (\<lambda>su. on_fs (upsert_super_user root_dir su)),
      sp_delete_super_user = (\<lambda>su. on_fs (delete_super_user root_dir su)),
      sp_list_super_users = (\<lambda>w. list_super_users root_dir (fst w)),
      sp_upsert_session_index_entry = (\<lambda>su sid title. on_fs (upsert_session_index_entry root_dir su sid title)),
      sp_delete_session_index_entry = (\<lambda>su sid. on_fs (delete_session_index_entry root_dir su sid)),
      sp_list_session_index_entries = (\<lambda>su w. list_session_index_entries root_dir su (fst w)),
      sp_append_snapshot = (\<lambda>sid snap. on_fs (append_snapshot root_dir sid snap)),
      sp_snapshot_count = (\<lambda>sid w. snapshot_count root_dir sid (fst w)),
      sp_delete_snapshots = (\<lambda>sid. on_fs (delete_snapshots root_dir sid)),
      sp_upsert_conversation = (\<lambda>j. on_fs (upsert_conversation root_dir j)),
      sp_get_conversation = (\<lambda>sid w. get_conversation root_dir sid (fst w)),
      sp_delete_conversation = (\<lambda>sid hint. on_fs (delete_conversation root_dir sid hint)),
      sp_delete_all_proc_convos = (\<lambda>pid w. (delete_all_proc_convos root_dir pid (fst w), snd w)),
      sp_list_proc_convo_ids = (\<lambda>pid w. list_proc_convo_ids root_dir pid (fst w)),
      sp_list_proc_creator_pids = (\<lambda>w. list_proc_creator_pids root_dir (fst w))\<rparr>"

record 'd session_manager =
  storage_root :: path
  storage_provider :: "'d istorage option"

section \<open>Paths\<close>

definition session_dir :: "'d session_manager \<Rightarrow> string \<Rightarrow> path" where
  "session_dir M session_id =
     (let user_dir = storage_root M @ [''sessions'', ''users'', extract_super_user session_id, session_id]
      in if prefix ''proc_'' session_id
         then (let rest = drop 5 session_id
               in case str_find rest ''_'' 0 of
                    Some sep \<Rightarrow> storage_root M @ [''sessions'', ''procs'', take sep rest, session_id]
                  | None \<Rightarrow> user_dir)
         else user_dir)"

definition live_convo_path :: "'d session_manager \<Rightarrow> string \<Rightarrow> path" where
  "live_convo_path M session_id = session_dir M session_id @ [session_id @ ''.json'']"

definition history_snapshot_path :: "'d session_manager \<Rightarrow> string \<Rightarrow> nat \<Rightarrow> path" where
  "history_snapshot_path M session_id n =
     session_dir M session_id @ [session_id @ ''_h'' @ nat_digits n @ ''.json'']"

definition index_path :: "'d session_manager \<Rightarrow> path" where
  "index_path M = storage_root M @ [''sessions'', ''session_index.json'']"

section \<open>The index\<close>

abbreviation empty_index :: json where
  "empty_index \<equiv> JObject [(''users'', JObject [])]"

text \<open>The index file as every function reads it: a missing or unparsable file is the empty index.\<close>

definition read_index_file :: "'d session_manager \<Rightarrow> fsys \<Rightarrow> json" where
  "read_index_file M fs =
     (case tget (fs_files fs) (index_path M) of Some (Some j) \<Rightarrow> j | _ \<Rightarrow> empty_index)"

definition load_index :: "'d session_manager \<Rightarrow> 'd world \<Rightarrow> json" where
  "load_index M w =
     (case storage_provider M of
        Some S \<Rightarrow>
          JObject [(''users'', JObject (fold
            (\<lambda>su us. oput su (JArray (sp_list_session_index_entries S su w)) us)
            (sp_list_super_users S w) []))]
      | None \<Rightarrow> read_index_file M (fst w))"

text \<open>The file branch of \<open>save_index\<close>, which every caller below takes: with a provider they return
  before they reach it.\<close>

definition save_index :: "'d session_manager \<Rightarrow> json \<Rightarrow> fsys \<Rightarrow> unit res \<times> fsys" where
  "save_index M idx fs =
     (case create_directories (butlast (index_path M)) fs of
        Inl e \<Rightarrow> (Inl e, fs)
      | Inr fs' \<Rightarrow> (Inr (), snd (write_file (index_path M) idx fs')))"

text \<open>The loop of \<open>index_upsert_session\<close>: an empty title leaves the title of an entry alone.\<close>

fun session_upsert_entries :: "string \<Rightarrow> string \<Rightarrow> json list \<Rightarrow> json list res" where
  "session_upsert_entries sid title [] = Inr [index_entry sid title]"
| "session_upsert_entries sid title (e # es) =
     (let next_entry = rbind (session_upsert_entries sid title es) (\<lambda>es'. Inr (e # es'))
      in case e of
           JObject m \<Rightarrow>
             rbind (jvalue as_string e ''session_id'' []) (\<lambda>s.
               if s = sid
               then Inr ((if title \<noteq> [] then JObject (oput ''title'' (JString title) m) else e) # es)
               else next_entry)
         | JString s \<Rightarrow> if s = sid then Inr (index_entry sid title # es) else next_entry
         | _ \<Rightarrow> next_entry)"

definition index_upsert_session ::
    "'d session_manager \<Rightarrow> string \<Rightarrow> string \<Rightarrow> string \<Rightarrow> 'd world \<Rightarrow> unit res \<times> 'd world" where
  "index_upsert_session M super_user session_id title w =
     (case storage_provider M of
        Some S \<Rightarrow>
          (let w1 = snd (sp_upsert_super_user S super_user w);
               w2 = snd (sp_upsert_session_index_entry S super_user session_id title w1)
           in (Inr (), w2))
      | None \<Rightarrow>
          (case rbind (ensure_users (read_index_file M (fst w))) (\<lambda>idx.
                  rbind (session_upsert_entries session_id title
                          (case user_entries idx super_user of Some es \<Rightarrow> es | None \<Rightarrow> []))
                    (\<lambda>es. Inr (set_users (oput super_user (JArray es) (users_of idx)) idx)))
           of Inl e \<Rightarrow> (Inl e, w)
            | Inr idx \<Rightarrow> on_fs (save_index M idx) w))"

section \<open>Listing\<close>

fun insert_by :: "('a \<Rightarrow> 'a \<Rightarrow> bool) \<Rightarrow> 'a \<Rightarrow> 'a list \<Rightarrow> 'a list" where
  "insert_by lt x [] = [x]"
| "insert_by lt x (y # ys) = (if lt y x then y # insert_by lt x ys else x # y # ys)"

text \<open>\<open>std::sort\<close> with a comparator: where the comparator is a strict order on the (distinct) ids the
  result is the only sorted one.\<close>

definition sort_by :: "('a \<Rightarrow> 'a \<Rightarrow> bool) \<Rightarrow> 'a list \<Rightarrow> 'a list" where
  "sort_by lt xs = foldr (insert_by lt) xs []"

fun provider_ids :: "json list \<Rightarrow> string list res" where
  "provider_ids [] = Inr []"
| "provider_ids (e # es) =
     (if \<not> is_object e then provider_ids es
      else rbind (jvalue as_string e ''session_id'' []) (\<lambda>sid.
             rbind (provider_ids es) (\<lambda>sids. Inr (if sid \<noteq> [] then sid # sids else sids))))"

fun index_file_ids :: "json list \<Rightarrow> string list res" where
  "index_file_ids [] = Inr []"
| "index_file_ids (JString s # es) = rbind (index_file_ids es) (\<lambda>sids. Inr (s # sids))"
| "index_file_ids (JObject m # es) =
     rbind (jvalue as_string (JObject m) ''session_id'' []) (\<lambda>sid.
       rbind (index_file_ids es) (\<lambda>sids. Inr (if sid \<noteq> [] then sid # sids else sids)))"
| "index_file_ids (_ # es) = index_file_ids es"

definition user_root :: "'d session_manager \<Rightarrow> string \<Rightarrow> path" where
  "user_root M super_user = storage_root M @ [''sessions'', ''users'', super_user]"

definition list_sessions :: "'d session_manager \<Rightarrow> string \<Rightarrow> 'd world \<Rightarrow> string list res" where
  "list_sessions M super_user w =
     (case storage_provider M of
        Some S \<Rightarrow>
          rbind (provider_ids (sp_list_session_index_entries S super_user w))
            (\<lambda>out. Inr (sort_by session_less out))
      | None \<Rightarrow>
          rbind (index_file_ids
              (case user_entries (load_index M w) super_user of Some es \<Rightarrow> es | None \<Rightarrow> []))
            (\<lambda>indexed.
              let dirs = (if is_directory (fst w) (user_root M super_user)
                          then filter (\<lambda>sid. extract_super_user sid = super_user \<and> is_session_id sid)
                                 (subdirs (fst w) (user_root M super_user))
                          else [])
              in Inr (sort_by session_less (remdups (indexed @ dirs)))))"

section \<open>Sessions\<close>

definition make_session ::
    "'d session_manager \<Rightarrow> string \<Rightarrow> string \<Rightarrow> string \<Rightarrow> 'd world \<Rightarrow> string res \<times> 'd world" where
  "make_session M super_user sid title w =
     (case create_directories (session_dir M sid) (fst w) of
        Inl e \<Rightarrow> (Inl e, w)
      | Inr fs \<Rightarrow>
          (case index_upsert_session M super_user sid title (fs, snd w) of
             (Inl e, w') \<Rightarrow> (Inl e, w')
           | (Inr _, w') \<Rightarrow> (Inr sid, w')))"

definition get_or_create_active_session ::
    "'d session_manager \<Rightarrow> string \<Rightarrow> 'd world \<Rightarrow> string res \<times> 'd world" where
  "get_or_create_active_session M super_user w =
     (case list_sessions M super_user w of
        Inl e \<Rightarrow> (Inl e, w)
      | Inr sessions \<Rightarrow>
          if sessions \<noteq> [] then (Inr (last sessions), w)
          else make_session M super_user (super_user @ ''_s1'') [] w)"

text \<open>\<open>None\<close> is the signed overflow of \<open>max_n + 1\<close>.\<close>

definition new_session ::
    "'d session_manager \<Rightarrow> string \<Rightarrow> string \<Rightarrow> 'd world \<Rightarrow> (string res \<times> 'd world) option" where
  "new_session M super_user title w =
     (case validate_super_user_name super_user of
        Inl e \<Rightarrow> Some (Inl e, w)
      | Inr _ \<Rightarrow>
          (case list_sessions M super_user w of
             Inl e \<Rightarrow> Some (Inl e, w)
           | Inr sessions \<Rightarrow>
               (case next_session_id super_user sessions of
                  None \<Rightarrow> None
                | Some sid \<Rightarrow> Some (make_session M super_user sid title w))))"

definition create_super_user :: "'d session_manager \<Rightarrow> string \<Rightarrow> 'd world \<Rightarrow> string res \<times> 'd world" where
  "create_super_user M super_user w =
     (case validate_super_user_name super_user of
        Inl e \<Rightarrow> (Inl e, w)
      | Inr _ \<Rightarrow>
          (case storage_provider M of
             Some S \<Rightarrow> (Inr super_user, snd (sp_upsert_super_user S super_user w))
           | None \<Rightarrow>
               (case create_directories (user_root M super_user) (fst w) of
                  Inl e \<Rightarrow> (Inl e, w)
                | Inr fs1 \<Rightarrow>
                    (case create_directories (storage_root M @ [''agentfiles'', super_user]) fs1 of
                       Inl e \<Rightarrow> (Inl e, (fs1, snd w))
                     | Inr fs2 \<Rightarrow>
                         (case ensure_users (read_index_file M fs2) of
                            Inl e \<Rightarrow> (Inl e, (fs2, snd w))
                          | Inr idx \<Rightarrow>
                              (let idx' = (if oget (users_of idx) super_user \<noteq> None then idx
                                           else set_users (oput super_user (JArray []) (users_of idx)) idx)
                               in case save_index M idx' fs2 of
                                    (Inl e, fs3) \<Rightarrow> (Inl e, (fs3, snd w))
                                  | (Inr _, fs3) \<Rightarrow> (Inr super_user, (fs3, snd w))))))))"

definition set_session_title ::
    "'d session_manager \<Rightarrow> string \<Rightarrow> string \<Rightarrow> 'd world \<Rightarrow> unit res \<times> 'd world" where
  "set_session_title M session_id new_title w =
     (if \<not> is_session_id session_id
      then (Inl (Runtime_Error ''set_session_title requires session_id''), w)
      else index_upsert_session M (extract_super_user session_id) session_id new_title w)"

text \<open>The loop of \<open>delete_session\<close> over the index file.\<close>

fun filter_session_entries :: "string \<Rightarrow> json list \<Rightarrow> (bool \<times> json list) res" where
  "filter_session_entries sid [] = Inr (False, [])"
| "filter_session_entries sid (e # es) =
     rbind (case e of
              JString s \<Rightarrow> Inr (s = sid)
            | JObject m \<Rightarrow> rbind (jvalue as_string e ''session_id'' []) (\<lambda>s. Inr (s = sid))
            | _ \<Rightarrow> Inr False)
       (\<lambda>hit. rbind (filter_session_entries sid es) (\<lambda>(existed, filtered).
          Inr (if hit then (True, filtered) else (existed, e # filtered))))"

definition delete_session :: "'d session_manager \<Rightarrow> string \<Rightarrow> 'd world \<Rightarrow> bool res \<times> 'd world" where
  "delete_session M session_id w =
     (if \<not> is_session_id session_id
      then (Inl (Runtime_Error ''delete_session requires session_id''), w)
      else
        let super_user = extract_super_user session_id
        in case storage_provider M of
             Some S \<Rightarrow>
               (let (existed_idx, w1) = sp_delete_session_index_entry S super_user session_id w;
                    (r, w2) = sp_delete_snapshots S session_id w1
                in case r of
                     Inl e \<Rightarrow> (Inl e, w2)
                   | Inr _ \<Rightarrow>
                       (let (deleted_convo, w3) = sp_delete_conversation S session_id (-1) w2
                        in (Inr (existed_idx \<or> deleted_convo), w3)))
           | None \<Rightarrow>
               (case rbind (ensure_users (read_index_file M (fst w))) (\<lambda>idx.
                       case user_entries idx super_user of
                         None \<Rightarrow> Inr (False, idx)
                       | Some es \<Rightarrow>
                           rbind (filter_session_entries session_id es) (\<lambda>(existed, filtered).
                             Inr (existed, set_users (oput super_user (JArray filtered) (users_of idx)) idx)))
                of Inl e \<Rightarrow> (Inl e, w)
                 | Inr (existed, idx) \<Rightarrow>
                     (case save_index M idx (fst w) of
                        (Inl e, fs) \<Rightarrow> (Inl e, (fs, snd w))
                      | (Inr _, fs) \<Rightarrow>
                          if fs_exists fs (session_dir M session_id)
                          then (Inr True, (remove_all (session_dir M session_id) fs, snd w))
                          else (Inr existed, (fs, snd w)))))"

text \<open>Without a provider the function locks \<open>index_mutex_\<close> and calls \<open>load_index\<close>, which locks it
  again; the mutex is not recursive. \<open>None\<close> is the call that does not come back.\<close>

definition sm_delete_super_user ::
    "'d session_manager \<Rightarrow> string \<Rightarrow> 'd world \<Rightarrow> (bool res \<times> 'd world) option" where
  "sm_delete_super_user M super_user w =
     (case validate_super_user_name super_user of
        Inl e \<Rightarrow> Some (Inl e, w)
      | Inr _ \<Rightarrow>
          (case storage_provider M of
             Some S \<Rightarrow> (case sp_delete_super_user S super_user w of (b, w') \<Rightarrow> Some (Inr b, w'))
           | None \<Rightarrow> None))"

section \<open>What the manager relies on of a provider\<close>

lemma set_insert_by: "set (insert_by lt x ys) = insert x (set ys)"
  by (induction ys) auto

lemma set_sort_by [simp]: "set (sort_by lt xs) = set xs"
  by (induction xs) (auto simp: sort_by_def set_insert_by)

locale session_store =
  fixes S :: "'d istorage"
    and ready :: "'d world \<Rightarrow> bool"
    and known :: "'d world \<Rightarrow> string \<Rightarrow> string list"
    and plain_dir :: "path \<Rightarrow> bool"
  assumes listed: "ready w \<Longrightarrow>
      \<exists>out. provider_ids (sp_list_session_index_entries S su w) = Inr out \<and> set (known w su) - {[]} \<subseteq> set out"
    and upsert_entry: "ready w \<Longrightarrow>
      \<exists>w'. sp_upsert_session_index_entry S su sid title w = (True, w') \<and> ready w'
         \<and> set (known w' su) = insert sid (set (known w su)) \<and> (\<forall>v. v \<noteq> su \<longrightarrow> known w' v = known w v)"
    and upsert_user: "ready w \<Longrightarrow>
      ready (snd (sp_upsert_super_user S su w)) \<and> known (snd (sp_upsert_super_user S su w)) = known w"
    and make_directory: "ready w \<Longrightarrow> plain_dir p \<Longrightarrow> create_directories p (fst w) = Inr fs \<Longrightarrow>
      ready (fs, snd w) \<and> known (fs, snd w) = known w"

begin

lemma list_sessions_ok:
  assumes "storage_provider M = Some S" and "ready w"
  shows "\<exists>ss. list_sessions M su w = Inr ss \<and> set (known w su) - {[]} \<subseteq> set ss"
  using listed [OF assms(2), of su] assms(1) by (auto simp: list_sessions_def)

lemma index_upsert_ok:
  assumes "storage_provider M = Some S" and "ready w"
  shows "\<exists>w'. index_upsert_session M su sid title w = (Inr (), w') \<and> ready w'
     \<and> set (known w' su) = insert sid (set (known w su)) \<and> (\<forall>v. v \<noteq> su \<longrightarrow> known w' v = known w v)"
proof -
  let ?w = "snd (sp_upsert_super_user S su w)"
  have r: "ready ?w" and k: "known ?w = known w" using upsert_user [OF assms(2)] by auto
  from upsert_entry [OF r, of su sid title] show ?thesis
    using assms(1) by (auto simp: index_upsert_session_def k)
qed

text \<open>A new session has an id that was not listed, is known and listed afterwards, and displaces
  no other.\<close>

lemma new_session_ok:
  assumes M: "storage_provider M = Some S" and w: "ready w"
    and valid: "validate_super_user_name su = Inr ()"
    and ss: "list_sessions M su w = Inr ss" and sid: "next_session_id su ss = Some sid"
    and mk: "create_directories (session_dir M sid) (fst w) = Inr fs" and pl: "plain_dir (session_dir M sid)"
  shows "\<exists>w' ss'. new_session M su title w = Some (Inr sid, w') \<and> ready w'
     \<and> extract_super_user sid = su \<and> is_session_id sid \<and> sid \<notin> set ss \<and> sid \<notin> set (known w su)
     \<and> set (known w' su) = insert sid (set (known w su)) \<and> (\<forall>v. v \<noteq> su \<longrightarrow> known w' v = known w v)
     \<and> list_sessions M su w' = Inr ss' \<and> sid \<in> set ss'"
proof -
  have d: "ready (fs, snd w)" and k: "known (fs, snd w) = known w"
    using make_directory [OF w pl mk] by auto
  from index_upsert_ok [OF M d, of su sid title] obtain w' where
    up: "index_upsert_session M su sid title (fs, snd w) = (Inr (), w')" and r: "ready w'"
    and ins: "set (known w' su) = insert sid (set (known w su))"
    and oth: "\<forall>v. v \<noteq> su \<longrightarrow> known w' v = known w v"
    by (auto simp: k)
  from sid obtain n where n: "sid = session_id_of su n" by (rule next_session_id_eq)
  then have ids: "extract_super_user sid = su" "is_session_id sid" "sid \<noteq> []"
    by simp_all
  from list_sessions_ok [OF M r] ins ids(3) obtain ss' where
    "list_sessions M su w' = Inr ss'" "sid \<in> set ss'" by blast
  moreover have "sid \<notin> set ss" by (rule next_session_id_fresh [OF sid])
  moreover from this have "sid \<notin> set (known w su)"
    using list_sessions_ok [OF M w, of su] ss ids(3) by auto
  moreover have "new_session M su title w = Some (Inr sid, w')"
    by (simp add: new_session_def make_session_def valid ss sid mk up)
  ultimately show ?thesis using r ids ins oth by blast
qed

end

section \<open>The JSON back end keeps the laws\<close>

definition entry_ok :: "json \<Rightarrow> bool" where
  "entry_ok e \<longleftrightarrow> (is_object e \<longrightarrow> entry_sid e \<noteq> None)"

definition index_readable :: "json \<Rightarrow> bool" where
  "index_readable idx \<longleftrightarrow>
     list_all (\<lambda>(u, v). case v of JArray es \<Rightarrow> list_all entry_ok es | _ \<Rightarrow> True) (users_of idx)"

text \<open>A directory tree the back end can work on: nothing blocks the index file, the back end's root
  is not the directory of the agent files, and the entries of the index have ids.\<close>

definition json_ready :: "path \<Rightarrow> fsys \<Rightarrow> bool" where
  "json_ready root_dir fs \<longleftrightarrow>
     list_all (\<lambda>q. tget (fs_files fs) q = None) (prefixes root_dir)
     \<and> session_index_path root_dir \<notin> set (fs_dirs fs)
     \<and> (root_dir = [] \<or> last root_dir \<noteq> ''agentfiles'')
     \<and> index_readable (load_index_unlocked root_dir fs)"

lemma load_index_files:
  assumes "fs_files fs' = fs_files fs"
  shows "load_index_unlocked root_dir fs' = load_index_unlocked root_dir fs"
proof -
  have "load_index_from fs' ps = load_index_from fs ps" for ps
    by (induction ps) (auto simp: fs_exists_def assms split: option.splits sum.splits)
  then show ?thesis by (simp only: load_index_unlocked_def)
qed

lemma set_oput_subset: "set (oput k v m) \<subseteq> insert (k, v) (set m)"
  by (induction k v m rule: oput.induct) auto

lemma index_readable_set:
  assumes "index_readable idx" and "list_all entry_ok es" and "is_object idx"
  shows "index_readable (set_users (oput u (JArray es) (users_of idx)) idx)"
  using assms set_oput_subset [of u "JArray es" "users_of idx"]
  by (fastforce simp: index_readable_def list_all_iff)

lemma index_readable_entries:
  "index_readable idx \<Longrightarrow> user_entries idx su = Some es \<Longrightarrow> list_all entry_ok es"
  by (auto simp: index_readable_def user_entries_def list_all_iff split: option.splits json.splits
      dest!: map_of_SomeD)

lemma entry_ok_index_entry [simp]: "entry_ok (index_entry sid t)"
  by (simp add: entry_ok_def)

lemma entry_ok_simps [simp]:
  "entry_ok JNull" "entry_ok (JBool b)" "entry_ok (JInt i)" "entry_ok (JFloat r)"
  "entry_ok (JArray es)" "entry_ok (JString s)"
  "entry_ok (JObject (oput ''title'' v m)) = entry_ok (JObject m)"
  by (simp_all add: entry_ok_def)

lemma entry_ok_jvalue:
  "entry_ok (JObject m) \<Longrightarrow> \<exists>s. jvalue as_string (JObject m) ''session_id'' [] = Inr s"
  by (auto simp: entry_ok_def entry_sid_object split: sum.splits)

lemma upsert_entries_ok:
  "list_all entry_ok es \<Longrightarrow> \<exists>es'. upsert_entries sid t es = Inr es' \<and> list_all entry_ok es'"
proof (induction es)
  case (Cons e es)
  then obtain es' where "upsert_entries sid t es = Inr es'" "list_all entry_ok es'" by auto
  moreover have "entry_ok e" using Cons.prems by simp
  moreover have "\<exists>s. jvalue as_string e ''session_id'' [] = Inr s" if "is_object e"
    using that \<open>entry_ok e\<close> entry_ok_jvalue by (cases e) simp_all
  ultimately show ?case
    using Cons.prems by (cases e) (auto simp: Let_def simp del: jvalue.simps)
qed simp

lemma provider_ids_ok:
  "list_all entry_ok es \<Longrightarrow> \<exists>out. provider_ids (List.map_filter listed_entry es) = Inr out
     \<and> set (List.map_filter entry_sid es) - {[]} \<subseteq> set out"
proof (induction es)
  case (Cons e es)
  then obtain out where "provider_ids (List.map_filter listed_entry es) = Inr out"
    "set (List.map_filter entry_sid es) - {[]} \<subseteq> set out" by auto
  moreover have "entry_ok e" using Cons.prems by simp
  moreover have "\<exists>s. jvalue as_string e ''session_id'' [] = Inr s \<and> entry_sid e = Some s" if "is_object e"
    using that \<open>entry_ok e\<close> entry_ok_jvalue entry_sid_Inr by (cases e) (simp_all, blast)
  ultimately show ?case
    by (cases e) (auto simp: map_filter_Cons simp del: jvalue.simps)
qed (simp add: map_filter_simps)

lemma provider_ids_dirs: "\<exists>out. provider_ids (list_index_entries_from_fs root_dir su fs) = Inr out"
proof -
  have "\<exists>out. provider_ids (map (\<lambda>sid. index_entry sid []) sids) = Inr out" for sids
    by (induction sids) auto
  then show ?thesis by (simp add: list_index_entries_from_fs_def Let_def)
qed

lemma index_ids_files:
  "fs_files fs' = fs_files fs \<Longrightarrow> index_ids root_dir fs' = index_ids root_dir fs"
  unfolding index_ids_def by (rule ext) (simp only: load_index_files [of fs' fs])

lemma json_listed:
  assumes "json_ready root_dir fs"
  shows "\<exists>out. provider_ids (list_session_index_entries root_dir su fs) = Inr out
     \<and> set (index_ids root_dir fs su) - {[]} \<subseteq> set out"
proof (cases "user_entries (load_index_unlocked root_dir fs) su")
  case None
  then have "list_session_index_entries root_dir su fs = list_index_entries_from_fs root_dir su fs"
    and "index_ids root_dir fs su = []"
    by (simp_all add: list_session_index_entries_def index_ids_def)
  with provider_ids_dirs [of root_dir su fs] show ?thesis by simp
next
  case (Some es)
  have "list_all entry_ok es"
    using assms Some index_readable_entries by (auto simp: json_ready_def)
  then obtain out where out: "provider_ids (List.map_filter listed_entry es) = Inr out"
    "set (List.map_filter entry_sid es) - {[]} \<subseteq> set out"
    using provider_ids_ok by blast
  have ids: "index_ids root_dir fs su = List.map_filter entry_sid es"
    using Some by (simp add: index_ids_def)
  show ?thesis
  proof (cases "List.map_filter listed_entry es = []")
    case True
    with out have none: "set (index_ids root_dir fs su) - {[]} \<subseteq> {}" by (simp add: ids)
    have "list_session_index_entries root_dir su fs = list_index_entries_from_fs root_dir su fs"
      using Some True by (simp add: list_session_index_entries_def)
    then show ?thesis using provider_ids_dirs [of root_dir su fs] none by auto
  next
    case False
    with Some have "list_session_index_entries root_dir su fs = List.map_filter listed_entry es"
      by (simp add: list_session_index_entries_def)
    with out show ?thesis by (simp add: ids)
  qed
qed

lemma json_ready_save:
  assumes "json_ready root_dir fs" and "ensure_users idx = Inr idx" and "index_readable idx"
  shows "\<exists>fs'. save_index_unlocked root_dir idx fs = (True, fs') \<and> json_ready root_dir fs'
     \<and> load_index_unlocked root_dir fs' = idx"
proof -
  let ?fs0 = "fs\<lparr>fs_dirs := fold uinsert (prefixes root_dir) (fs_dirs fs)\<rparr>"
  let ?p = "session_index_path root_dir"
  have cr: "create_directories root_dir fs = Inr ?fs0"
    using assms(1) by (auto simp: json_ready_def create_directories_def list_all_iff)
  have long: "\<not> prefix ?p root_dir" by (auto simp: session_index_path_def dest: prefix_length_le)
  have w: "write_file ?p idx ?fs0 = (True, ?fs0\<lparr>fs_files := tput ?p (Some idx) (fs_files fs)\<rparr>)"
    using assms(1) long by (auto simp: write_file_def json_ready_def session_index_path_def set_fold_uinsert)
  have save: "save_index_unlocked root_dir idx fs = (True, ?fs0\<lparr>fs_files := tput ?p (Some idx) (fs_files fs)\<rparr>)"
    using cr w by (simp add: save_index_unlocked_def session_index_path_def)
  moreover note load_saved_index [OF save assms(2)]
  moreover have "json_ready root_dir (?fs0\<lparr>fs_files := tput ?p (Some idx) (fs_files fs)\<rparr>)"
    unfolding json_ready_def calculation(2)
    using assms(1,3) long by (auto simp: json_ready_def list_all_iff set_fold_uinsert)
  ultimately show ?thesis by blast
qed

lemma json_upsert_entry:
  assumes "json_ready root_dir fs"
  shows "\<exists>fs'. upsert_session_index_entry root_dir su sid title fs = (True, fs') \<and> json_ready root_dir fs'
     \<and> set (index_ids root_dir fs' su) = insert sid (set (index_ids root_dir fs su))
     \<and> (\<forall>v. v \<noteq> su \<longrightarrow> index_ids root_dir fs' v = index_ids root_dir fs v)"
proof -
  let ?idx = "load_index_unlocked root_dir fs"
  let ?es = "case user_entries ?idx su of Some es \<Rightarrow> es | None \<Rightarrow> []"
  have rd: "index_readable ?idx" using assms by (simp add: json_ready_def)
  then have "list_all entry_ok ?es" by (auto dest: index_readable_entries split: option.splits)
  then obtain es' where es': "upsert_entries sid title ?es = Inr es'" "list_all entry_ok es'"
    using upsert_entries_ok by blast
  let ?new = "set_users (oput su (JArray es') (users_of ?idx)) ?idx"
  have "index_readable ?new" by (rule index_readable_set [OF rd es'(2)]) simp
  then obtain fs' where save: "save_index_unlocked root_dir ?new fs = (True, fs')" "json_ready root_dir fs'"
    using json_ready_save [OF assms, of ?new] by auto
  have "List.map_filter entry_sid ?es = index_ids root_dir fs su"
    by (auto simp: index_ids_def map_filter_simps split: option.splits)
  with upsert_entries_ids [OF es'(1)] index_ids_saved [OF save(1)] save es' show ?thesis
    by (auto simp: upsert_session_index_entry_def Let_def)
qed

lemma json_make_directory:
  assumes "json_ready root_dir fs" and "create_directories p fs = Inr fs'"
    and "\<not> prefix (session_index_path root_dir) p"
  shows "json_ready root_dir fs' \<and> index_ids root_dir fs' = index_ids root_dir fs"
proof
  note files = create_directories_files [OF assms(2)]
  show "index_ids root_dir fs' = index_ids root_dir fs" by (rule index_ids_files [OF files])
  show "json_ready root_dir fs'"
    using assms(1,3) create_directories_dirs [OF assms(2)]
    by (auto simp: json_ready_def load_index_files [OF files] files)
qed

lemma json_upsert_user:
  assumes "json_ready root_dir fs"
  shows "json_ready root_dir (snd (upsert_super_user root_dir su fs))
     \<and> index_ids root_dir (snd (upsert_super_user root_dir su fs)) = index_ids root_dir fs"
proof -
  have p1: "\<not> prefix (session_index_path root_dir) (root_dir @ [''users'', su])"
    by (simp add: session_index_path_def)
  have p2: "\<not> prefix (session_index_path root_dir) (butlast root_dir @ [''agentfiles'', su])"
  proof (cases root_dir rule: rev_cases)
    case (snoc ys y)
    then have "y \<noteq> ''agentfiles''" using assms by (simp add: json_ready_def)
    with snoc show ?thesis by (simp add: session_index_path_def)
  qed (simp add: session_index_path_def)
  show ?thesis
  proof (cases "create_directories (root_dir @ [''users'', su]) fs")
    case (Inl e)
    with assms show ?thesis by (simp add: upsert_super_user_def)
  next
    case (Inr fs1)
    note k1 = json_make_directory [OF assms Inr p1]
    show ?thesis
    proof (cases "create_directories (butlast root_dir @ [''agentfiles'', su]) fs1")
      case (Inl e)
      with \<open>create_directories (root_dir @ [''users'', su]) fs = Inr fs1\<close> k1 show ?thesis
        by (simp add: upsert_super_user_def)
    next
      case (Inr fs2)
      have k2: "json_ready root_dir fs2" "index_ids root_dir fs2 = index_ids root_dir fs"
        using json_make_directory [OF conjunct1 [OF k1] Inr p2] k1 by auto
      let ?idx = "load_index_unlocked root_dir fs2"
      define new where "new = (case user_entries ?idx su of Some es \<Rightarrow> ?idx
                       | None \<Rightarrow> set_users (oput su (JArray []) (users_of ?idx)) ?idx)"
      have rd: "index_readable ?idx" using k2 by (simp add: json_ready_def)
      have "index_readable new"
        using rd index_readable_set [OF rd, of "[]" su] by (auto simp: new_def split: option.splits)
      moreover have "ensure_users new = Inr new"
        using load_index_shape [of root_dir fs2]
        by (auto simp: new_def split: option.splits) (auto simp: ensure_users_def)
      ultimately obtain fs3 where s: "save_index_unlocked root_dir new fs2 = (True, fs3)"
        "json_ready root_dir fs3" "load_index_unlocked root_dir fs3 = new"
        using json_ready_save [OF k2(1)] by blast
      have "index_ids root_dir fs3 = index_ids root_dir fs2"
        by (rule ext) (auto simp: index_ids_def s(3) new_def user_entries_set_users map_filter_simps
            split: option.splits)
      with s k2 Inr \<open>create_directories (root_dir @ [''users'', su]) fs = Inr fs1\<close> show ?thesis
        by (simp add: upsert_super_user_def Let_def new_def)
    qed
  qed
qed

interpretation json_store: session_store "json_provider root_dir"
    "\<lambda>w. json_ready root_dir (fst w)" "\<lambda>w. index_ids root_dir (fst w)"
    "\<lambda>p. \<not> prefix (session_index_path root_dir) p"
  for root_dir
proof (unfold_locales, goal_cases)
  case (1 w su)
  then show ?case using json_listed by (simp add: json_provider_def)
next
  case (2 w su sid title)
  then obtain fs' where "upsert_session_index_entry root_dir su sid title (fst w) = (True, fs')"
     "json_ready root_dir fs'"
     "set (index_ids root_dir fs' su) = insert sid (set (index_ids root_dir (fst w) su))"
     "\<forall>v. v \<noteq> su \<longrightarrow> index_ids root_dir fs' v = index_ids root_dir (fst w) v"
    using json_upsert_entry by blast
  then show ?case by (simp add: json_provider_def on_fs_def)
next
  case (3 w su)
  then show ?case using json_upsert_user [of root_dir "fst w" su]
    by (auto simp: json_provider_def on_fs_def split: prod.splits)
next
  case (4 w p fs)
  then show ?case using json_make_directory by simp
qed

section \<open>Sessions through the JSON back end\<close>

abbreviation json_manager :: "path \<Rightarrow> path \<Rightarrow> 'd session_manager" where
  "json_manager root_dir json_root \<equiv>
     \<lparr>storage_root = root_dir, storage_provider = Some (json_provider json_root)\<rparr>"

text \<open>C34: A new session is new. With the JSON back end on a usable directory tree, \<open>new_session\<close>
  for a valid name returns an id of that user which was not listed before; afterwards it is in the
  index and in the listing, every session indexed before still is, no other user's sessions change,
  and the tree is usable again.\<close>

theorem new_session_fresh_and_listed:
  fixes M :: "'d session_manager"
  assumes "M = json_manager root_dir json_root"
    and "json_ready json_root (fst w)" and "validate_super_user_name su = Inr ()"
    and "list_sessions M su w = Inr ss" and "next_session_id su ss = Some sid"
    and "create_directories (session_dir M sid) (fst w) = Inr fs"
    and "\<not> prefix (session_index_path json_root) (session_dir M sid)"
  shows "\<exists>w' ss'. new_session M su title w = Some (Inr sid, w')
     \<and> json_ready json_root (fst w')
     \<and> extract_super_user sid = su \<and> sid \<notin> set ss
     \<and> set (index_ids json_root (fst w') su) = insert sid (set (index_ids json_root (fst w) su))
     \<and> (\<forall>v. v \<noteq> su \<longrightarrow> index_ids json_root (fst w') v = index_ids json_root (fst w) v)
     \<and> list_sessions M su w' = Inr ss' \<and> sid \<in> set ss'"
proof -
  have "storage_provider M = Some (json_provider json_root)" using assms(1) by simp
  from json_store.new_session_ok [OF this assms(2-7), of title] show ?thesis by blast
qed

lemma new_session_fresh_and_listed_witness:
  "\<exists>w' ss'. new_session (json_manager [''memory''] demo_root) ''ana'' [] (demo_indexed, ()) = Some (Inr ''ana_s2'', w')
     \<and> list_sessions (json_manager [''memory''] demo_root) ''ana'' w' = Inr ss' \<and> ''ana_s2'' \<in> set ss'"
proof -
  let ?M = "json_manager [''memory''] demo_root :: unit session_manager"
  let ?w = "(demo_indexed, ())"
  have "json_ready demo_root (fst ?w)" and "validate_super_user_name ''ana'' = Inr ()"
    and ss: "list_sessions ?M ''ana'' ?w = Inr [''ana_s1'']"
    and "next_session_id ''ana'' [''ana_s1''] = Some ''ana_s2''"
    and "\<not> prefix (session_index_path demo_root) (session_dir ?M ''ana_s2'')"
    by code_simp+
  moreover obtain fs where "create_directories (session_dir ?M ''ana_s2'') (fst ?w) = Inr fs"
  proof -
    have "\<not> (\<exists>q\<in>set (prefixes (session_dir ?M ''ana_s2'')). tget (fs_files demo_indexed) q \<noteq> None)"
      by code_simp
    then show thesis using that by (simp add: create_directories_def)
  qed
  ultimately show ?thesis
    using new_session_fresh_and_listed [of ?M "[''memory'']" demo_root ?w "''ana''" "[''ana_s1'']" "''ana_s2''" fs "[]"]
    by blast
qed

section \<open>The order of sessions\<close>

lemma insert_by_ids:
  assumes "int n \<le> INT_MAX" and "\<forall>m\<in>set ns. int m \<le> INT_MAX"
  shows "insert_by session_less (session_id_of su n) (map (session_id_of su) ns)
     = map (session_id_of su) (insort n ns)"
  using assms(2) by (induction ns) (auto simp: session_less_ids [OF _ assms(1)])

lemma sort_by_ids:
  "\<forall>m\<in>set ns. int m \<le> INT_MAX \<Longrightarrow>
     sort_by session_less (map (session_id_of su) ns) = map (session_id_of su) (sort ns)"
  unfolding sort_by_def by (induction ns) (simp_all add: insert_by_ids)

lemma sorted_le_last: "sorted xs \<Longrightarrow> x \<in> set xs \<Longrightarrow> x \<le> last xs" for x :: nat
  by (induction xs) (auto split: if_splits)

lemma last_sort: "ns \<noteq> [] \<Longrightarrow> last (sort ns) = Max (set ns)" for ns :: "nat list"
proof -
  assume "ns \<noteq> []"
  then have ne: "sort ns \<noteq> []" by (metis set_empty set_sort)
  have "sorted (sort ns)" by simp
  then have "x \<le> last (sort ns)" if "x \<in> set ns" for x
    using that ne sorted_le_last [of "sort ns" x] by simp
  moreover have "last (sort ns) \<in> set ns" using last_in_set [OF ne] by simp
  ultimately show ?thesis by (intro Max_eqI [symmetric]) auto
qed

text \<open>The active session is the latest one. When the back end lists sessions of the user with
  numbers in the range of \<open>int\<close>, in any order, \<open>list_sessions\<close> returns them in ascending order of
  their numbers (not of their text), and \<open>get_or_create_active_session\<close> returns the one with the
  highest number and changes nothing.\<close>

theorem active_session_is_latest:
  assumes "storage_provider M = Some S"
    and "provider_ids (sp_list_session_index_entries S su w) = Inr (map (session_id_of su) ns)"
    and "\<forall>m\<in>set ns. int m \<le> INT_MAX" and "ns \<noteq> []"
  shows "list_sessions M su w = Inr (map (session_id_of su) (sort ns))
     \<and> get_or_create_active_session M su w = (Inr (session_id_of su (Max (set ns))), w)"
proof -
  have l: "list_sessions M su w = Inr (map (session_id_of su) (sort ns))"
    using assms by (simp add: list_sessions_def sort_by_ids)
  have "sort ns \<noteq> []" using assms(4) by (metis set_empty set_sort)
  then have "last (map (session_id_of su) (sort ns)) = session_id_of su (Max (set ns))"
    using assms(4) by (simp add: last_map last_sort)
  with l \<open>sort ns \<noteq> []\<close> show ?thesis by (simp add: get_or_create_active_session_def)
qed

definition demo_unsorted :: fsys where
  "demo_unsorted = snd (upsert_session_index_entry demo_root ''ana'' (session_id_of ''ana'' 9) []
     (snd (upsert_session_index_entry demo_root ''ana'' (session_id_of ''ana'' 10) [] demo_fs)))"

lemma active_session_is_latest_witness:
  "get_or_create_active_session (json_manager [''memory''] demo_root) ''ana'' (demo_unsorted, ())
     = (Inr (session_id_of ''ana'' (Max (set [10, 9]))), (demo_unsorted, ()))"
proof -
  let ?M = "json_manager [''memory''] demo_root :: unit session_manager"
  have "provider_ids (sp_list_session_index_entries (json_provider demo_root) ''ana'' (demo_unsorted, ()))
      = Inr (map (session_id_of ''ana'') [10, 9])"
    by code_simp
  then show ?thesis
    using active_session_is_latest [of ?M "json_provider demo_root" "''ana''" "(demo_unsorted, ())" "[10, 9]"]
    by simp
qed

section \<open>A deleted session comes back\<close>

text \<open>The JSON back end deletes the index entry and the files of a session but not its directory,
  and lists the directories of a user whose index is empty: a user's only session is still listed,
  and still the active one, after it was deleted with success.\<close>

lemma deleted_session_is_listed_again:
  fixes M :: "unit session_manager"
  defines "M \<equiv> json_manager [''memory''] demo_root"
  shows "(case new_session M ''ana'' [] (demo_fs, ()) of
      Some (Inr sid, w) \<Rightarrow>
        (case delete_session M sid w of
           (Inr existed, w') \<Rightarrow> existed \<and> list_sessions M ''ana'' w' = Inr [sid]
             \<and> fst (get_or_create_active_session M ''ana'' w') = Inr sid
         | _ \<Rightarrow> False)
    | _ \<Rightarrow> False)"
  unfolding M_def by code_simp

end
