(* ===== verification/Compaction.thy ===== *)
theory Compaction
  imports Session_Manager
begin

text \<open>
  Context compaction: \<^verbatim>\<open>llm/compacter.cpp\<close> (configuration, retry loop, the split into older turns
  and a recent tail), \<open>SessionManager::compact\<close> with the seeded conversation it builds, the guard
  that decides, and the queue of the background worker as a step relation over its two critical
  sections. The answer of the language model, the clock and \<open>SessionIO\<close> are parameters; ratios of
  doubles are rationals.
\<close>

section \<open>llm/compacter.cpp\<close>

record compacter_config =
  cc_enabled :: bool
  cc_keep_recent_turns :: nat
  cc_summary_max_tokens :: nat
  cc_summary_temp :: rat
  cc_summary_top_p :: rat
  cc_scheduler_timeout_ms :: int
  cc_summary_retry_count :: int
  cc_summary_retry_backoff_ms :: int
  cc_summary_tree_id :: string
  cc_summary_source_pid :: int

definition default_compacter_config :: compacter_config where
  "default_compacter_config =
     \<lparr>cc_enabled = True, cc_keep_recent_turns = 16, cc_summary_max_tokens = 300,
      cc_summary_temp = 2 / 10, cc_summary_top_p = 9 / 10, cc_scheduler_timeout_ms = 30000,
      cc_summary_retry_count = 2, cc_summary_retry_backoff_ms = 250,
      cc_summary_tree_id = ''TREE_HANDLER'', cc_summary_source_pid = INT_MAX\<rparr>"

definition is_transient_summary_error :: "string \<Rightarrow> bool" where
  "is_transient_summary_error error_text \<longleftrightarrow>
     str_contains error_text ''Recv timeout''
     \<or> str_contains error_text ''Resource temporarily unavailable''
     \<or> str_contains error_text ''errno 11''
     \<or> str_contains error_text ''scheduler_request_deadline_exceeded''
     \<or> str_contains error_text ''deadline_exceeded''"

definition classify_summary_skip_reason :: "string \<Rightarrow> string" where
  "classify_summary_skip_reason error_text =
     (if is_transient_summary_error error_text then ''summary_queue_timeout''
      else if str_contains error_text ''Scheduler summarization failed:'' then ''summary_model_error''
      else ''summary_generation_failed'')"

text \<open>A configuration file: not found, not parsable, or a value.\<close>

datatype config_file = No_File | Unparsable | Parsed json

definition load_scheduler_wait_timeout_ms :: "config_file \<Rightarrow> int" where
  "load_scheduler_wait_timeout_ms model_file =
     (case model_file of
        Parsed model \<Rightarrow>
          (case jvalue as_int model ''request_timeout_ms'' 60000 of
             Inl _ \<Rightarrow> 65000 | Inr request_timeout_ms \<Rightarrow> request_timeout_ms + 5000)
      | _ \<Rightarrow> 65000)"

text \<open>\<open>get<std::size_t>()\<close>: a negative number is converted modulo \<open>2^64\<close>.\<close>

definition as_size :: "json \<Rightarrow> nat res" where
  "as_size j = (case j of
      JInt i \<Rightarrow> Inr (nat (i mod 2 ^ 64))
    | JFloat r \<Rightarrow> Inr (nat (trunc_rat r mod 2 ^ 64))
    | JBool b \<Rightarrow> Inr (if b then 1 else 0)
    | _ \<Rightarrow> Inl (type_error_302 ''number'' j))"

text \<open>One assignment \<open>cfg.field = j.value(key, cfg.field)\<close> in the \<open>try\<close> block: a type error ends the
  block with the assignments made before it.\<close>

definition assign_field ::
    "(json \<Rightarrow> 'a res) \<Rightarrow> json \<Rightarrow> string \<Rightarrow> ('c \<Rightarrow> 'a) \<Rightarrow> ('a \<Rightarrow> 'c \<Rightarrow> 'c) \<Rightarrow> bool \<times> 'c \<Rightarrow> bool \<times> 'c" where
  "assign_field conv j key get_field set_field st =
     (case st of (failed, cfg) \<Rightarrow>
        if failed then st
        else case jvalue conv j key (get_field cfg) of
               Inl _ \<Rightarrow> (True, cfg)
             | Inr v \<Rightarrow> (False, set_field v cfg))"

definition read_compacter_fields :: "json \<Rightarrow> compacter_config \<Rightarrow> compacter_config" where
  "read_compacter_fields j cfg = snd (fold (\<lambda>f st. f st)
     [assign_field as_bool j ''enabled'' cc_enabled (\<lambda>v c. c\<lparr>cc_enabled := v\<rparr>),
      assign_field as_size j ''keep_recent_turns'' cc_keep_recent_turns (\<lambda>v c. c\<lparr>cc_keep_recent_turns := v\<rparr>),
      assign_field as_size j ''summary_max_tokens'' cc_summary_max_tokens (\<lambda>v c. c\<lparr>cc_summary_max_tokens := v\<rparr>),
      assign_field as_double j ''summary_temp'' cc_summary_temp (\<lambda>v c. c\<lparr>cc_summary_temp := v\<rparr>),
      assign_field as_double j ''summary_top_p'' cc_summary_top_p (\<lambda>v c. c\<lparr>cc_summary_top_p := v\<rparr>),
      assign_field as_int j ''scheduler_timeout_ms'' cc_scheduler_timeout_ms (\<lambda>v c. c\<lparr>cc_scheduler_timeout_ms := v\<rparr>),
      assign_field as_int j ''summary_retry_count'' cc_summary_retry_count (\<lambda>v c. c\<lparr>cc_summary_retry_count := v\<rparr>),
      assign_field as_int j ''summary_retry_backoff_ms'' cc_summary_retry_backoff_ms
        (\<lambda>v c. c\<lparr>cc_summary_retry_backoff_ms := v\<rparr>),
      assign_field as_string j ''summary_tree_id'' cc_summary_tree_id (\<lambda>v c. c\<lparr>cc_summary_tree_id := v\<rparr>),
      assign_field as_int j ''summary_source_pid'' cc_summary_source_pid (\<lambda>v c. c\<lparr>cc_summary_source_pid := v\<rparr>)]
     (False, cfg))"

definition load_compacter_config :: "config_file \<Rightarrow> config_file \<Rightarrow> compacter_config" where
  "load_compacter_config file model_file =
     (if file = No_File then default_compacter_config
      else
        let cfg = (case file of Parsed j \<Rightarrow> read_compacter_fields j default_compacter_config
                              | _ \<Rightarrow> default_compacter_config);
            cfg1 = cfg\<lparr>cc_keep_recent_turns := (if cc_keep_recent_turns cfg = 0 then 1 else cc_keep_recent_turns cfg),
                       cc_summary_retry_count := (if cc_summary_retry_count cfg < 0 then 0 else cc_summary_retry_count cfg),
                       cc_summary_retry_backoff_ms :=
                         (if cc_summary_retry_backoff_ms cfg < 0 then 0 else cc_summary_retry_backoff_ms cfg)\<rparr>;
            aligned = load_scheduler_wait_timeout_ms model_file + 2000
        in if cc_scheduler_timeout_ms cfg1 < aligned
           then cfg1\<lparr>cc_scheduler_timeout_ms := aligned\<rparr> else cfg1)"

definition SUMMARY_PREFIX :: string where
  "SUMMARY_PREFIX =
     ''[CONTEXT COMPACTION] Earlier turns in this conversation were compacted '' @
     ''to save context space. The summary below describes work that was '' @
     ''already completed, and the current session state may still reflect '' @
     ''that work (for example, files may already be changed). Use the summary '' @
     ''and the current state to continue from where things left off, and '' @
     ''avoid repeating work:'' @ [newline, newline]"

text \<open>What \<open>request_llm_summary\<close> sends to be summarised: an earlier summary in the first turn is
  split off and the remaining turns are new.\<close>

definition summary_inputs :: "json list \<Rightarrow> (string \<times> json list) res" where
  "summary_inputs older_turns =
     (case older_turns of
        [] \<Rightarrow> Inr ([], [])
      | t # ts \<Rightarrow>
          if \<not> is_object t then Inr ([], older_turns)
          else rbind (jvalue as_string t ''content'' []) (\<lambda>first_content.
                 let previous = (if prefix SUMMARY_PREFIX first_content
                                 then drop (length SUMMARY_PREFIX) first_content else [])
                 in Inr (previous, if previous = [] then older_turns else ts)))"

fun serialize_turns_for_summary_prompt :: "json list \<Rightarrow> string res" where
  "serialize_turns_for_summary_prompt [] = Inr []"
| "serialize_turns_for_summary_prompt (t # ts) =
     (if \<not> is_object t then serialize_turns_for_summary_prompt ts
      else rbind (jvalue as_string t ''role'' ''unknown'') (\<lambda>role.
           rbind (jvalue as_string t ''content'' []) (\<lambda>content.
           rbind (serialize_turns_for_summary_prompt ts) (\<lambda>rest.
             if content = [] then Inr rest
             else Inr (''['' @ (case jget t ''timestamp'' of Some (JString s) \<Rightarrow> s | _ \<Rightarrow> ''unknown-time'')
                       @ ''] '' @ role @ '': '' @ content @ [newline] @ rest)))))"

text \<open>What the scheduler's response means.\<close>

definition summary_response :: "json \<Rightarrow> string res" where
  "summary_response response =
     rbind (jvalue as_string response ''status'' ''error'') (\<lambda>status.
       if status \<noteq> ''ok''
       then rbind (jvalue as_string response ''error'' ''unknown'') (\<lambda>err.
              Inl (Runtime_Error (''Scheduler summarization failed: '' @ err)))
       else rbind (jvalue as_string response ''response'' []) (\<lambda>summary.
              if summary = [] then Inl (Runtime_Error ''Scheduler summarization returned empty summary'')
              else Inr summary))"

text \<open>\<open>request_llm_summary\<close>: \<open>exchange\<close> is the connection to the scheduler, given what is to be
  summarised; it may fail or return a response.\<close>

definition request_llm_summary ::
    "(string \<Rightarrow> string \<Rightarrow> json res) \<Rightarrow> json list \<Rightarrow> string res" where
  "request_llm_summary exchange older_turns =
     rbind (summary_inputs older_turns) (\<lambda>(previous, turns).
       rbind (serialize_turns_for_summary_prompt turns) (\<lambda>content.
         rbind (exchange previous content) summary_response))"

text \<open>The attempts, numbered from \<open>attempt\<close>; \<open>request\<close> gives the outcome of each. The result is the
  summary (empty after a failure) and the last error.\<close>

fun summary_attempts :: "(nat \<Rightarrow> string res) \<Rightarrow> nat \<Rightarrow> nat \<Rightarrow> string \<Rightarrow> string \<times> string" where
  "summary_attempts request attempt 0 last_error = ([], last_error)"
| "summary_attempts request attempt (Suc left) last_error =
     (case request attempt of
        Inr s \<Rightarrow> (s, [])
      | Inl e \<Rightarrow>
          if \<not> is_transient_summary_error (what e) \<or> left = 0 then ([], what e)
          else summary_attempts request (Suc attempt) left (what e))"

fun copy_metadata_from_older :: "json list \<Rightarrow> (string \<times> json) list \<Rightarrow> (string \<times> json) list" where
  "copy_metadata_from_older [] m = m"
| "copy_metadata_from_older (t # ts) m =
     (if \<not> is_object t then copy_metadata_from_older ts m
      else
        let m1 = (case jget t ''timestamp'' of Some (JString s) \<Rightarrow> oput ''timestamp'' (JString s) m | _ \<Rightarrow> m)
        in (case jget t ''metadata'' of Some (JObject d) \<Rightarrow> oput ''metadata'' (JObject d) m1 | _ \<Rightarrow> m1))"

record compact_outcome =
  co_history :: json
  co_compacted :: bool
  co_summary :: string
  co_skip_reason :: string

abbreviation skipped :: "json \<Rightarrow> string \<Rightarrow> compact_outcome" where
  "skipped history reason \<equiv>
     \<lparr>co_history = history, co_compacted = False, co_summary = [], co_skip_reason = reason\<rparr>"

definition summary_message :: "string \<Rightarrow> json list \<Rightarrow> string \<Rightarrow> json" where
  "summary_message now older llm_summary =
     (let m = copy_metadata_from_older (rev older)
                [(''content'', JString (SUMMARY_PREFIX @ llm_summary)), (''role'', JString ''assistant'')]
      in JObject (if oget m ''timestamp'' = None then oput ''timestamp'' (JString now) m else m))"

definition compact_history_if_needed ::
    "compacter_config \<Rightarrow> string \<Rightarrow> (nat \<Rightarrow> json list \<Rightarrow> string res) \<Rightarrow> json \<Rightarrow> compact_outcome" where
  "compact_history_if_needed cfg now request history =
     (case history of
        JArray turns \<Rightarrow>
          if \<not> cc_enabled cfg then skipped history ''disabled''
          else if length turns \<le> (cc_keep_recent_turns cfg + 1) mod 2 ^ 64
          then skipped history ''below_preserve_limit''
          else
            let split_index = nat ((int (length turns) - int (cc_keep_recent_turns cfg)) mod 2 ^ 64);
                older = take split_index turns;
                recent = drop split_index turns;
                (llm_summary, last_error) =
                  summary_attempts (\<lambda>a. request a older) 1 (nat (cc_summary_retry_count cfg + 1)) []
            in if llm_summary = [] then skipped history (classify_summary_skip_reason last_error)
               else \<lparr>co_history = JArray (summary_message now older llm_summary # recent),
                     co_compacted = True, co_summary = llm_summary, co_skip_reason = []\<rparr>
      | _ \<Rightarrow> skipped (JArray []) ''invalid_history'')"

section \<open>Session information\<close>

record live_stats =
  ls_current_context_tokens :: nat
  ls_total_tokens_used :: nat
  ls_turn_count :: int
  ls_compacted :: bool
  ls_needs_compaction :: bool

record session_info =
  si_session_id :: string
  si_title :: string
  si_snapshot_count :: nat
  si_live_stats :: live_stats

definition no_stats :: live_stats where
  "no_stats = \<lparr>ls_current_context_tokens = 0, ls_total_tokens_used = 0, ls_turn_count = 0,
     ls_compacted = False, ls_needs_compaction = False\<rparr>"

text \<open>The four reads of the stored conversation; the flag tells that one of them raised.\<close>

definition read_live_stats :: "json \<Rightarrow> bool \<times> live_stats" where
  "read_live_stats convo = fold (\<lambda>f st. f st)
     [assign_field as_size convo ''current_context_tokens'' (\<lambda>_. 0) (\<lambda>v c. c\<lparr>ls_current_context_tokens := v\<rparr>),
      assign_field as_size convo ''total_tokens_used'' (\<lambda>_. 0) (\<lambda>v c. c\<lparr>ls_total_tokens_used := v\<rparr>),
      assign_field as_int convo ''turn_count'' (\<lambda>_. 0) (\<lambda>v c. c\<lparr>ls_turn_count := v\<rparr>),
      assign_field as_bool convo ''compacted'' (\<lambda>_. False) (\<lambda>v c. c\<lparr>ls_compacted := v\<rparr>)]
     (False, no_stats)"

fun entry_title :: "string \<Rightarrow> json list \<Rightarrow> string res" where
  "entry_title sid [] = Inr []"
| "entry_title sid (e # es) =
     (if \<not> is_object e then entry_title sid es
      else rbind (jvalue as_string e ''session_id'' []) (\<lambda>s.
             if s = sid then jvalue as_string e ''title'' [] else entry_title sid es))"

definition sm_snapshot_count :: "'d session_manager \<Rightarrow> string \<Rightarrow> 'd world \<Rightarrow> nat" where
  "sm_snapshot_count M session_id w =
     (case storage_provider M of
        Some S \<Rightarrow> sp_snapshot_count S session_id w
      | None \<Rightarrow> first_free (\<lambda>n. fs_exists (fst w) (history_snapshot_path M session_id (n + 1))) 0 (fs_size (fst w)))"

definition get_session_info ::
    "'d session_manager \<Rightarrow> string set \<Rightarrow> string \<Rightarrow> 'd world \<Rightarrow> session_info res" where
  "get_session_info M needing session_id w =
     rbind (entry_title session_id
         (case user_entries (load_index M w) (extract_super_user session_id) of Some es \<Rightarrow> es | None \<Rightarrow> []))
       (\<lambda>title.
         rbind (case storage_provider M of
                  Some S \<Rightarrow>
                    (case sp_get_conversation S session_id w of
                       Some (JObject m) \<Rightarrow>
                         (case read_live_stats (JObject m) of
                            (True, _) \<Rightarrow> Inl (Type_Error ''[json.exception.type_error.302]'')
                          | (False, st) \<Rightarrow> Inr st)
                     | _ \<Rightarrow> Inr no_stats)
                | None \<Rightarrow>
                    (case tget (fs_files (fst w)) (live_convo_path M session_id) of
                       Some (Some convo) \<Rightarrow> Inr (snd (read_live_stats convo))
                     | _ \<Rightarrow> Inr no_stats))
           (\<lambda>st. Inr \<lparr>si_session_id = session_id, si_title = title,
                      si_snapshot_count = sm_snapshot_count M session_id w,
                      si_live_stats = st\<lparr>ls_needs_compaction := session_id \<in> needing\<rparr>\<rparr>))"

text \<open>\<open>build_session_object\<close>: the percentage is truncated to one decimal.\<close>

definition build_session_object :: "session_info \<Rightarrow> nat \<Rightarrow> json" where
  "build_session_object info max_ctx =
     (let st = si_live_stats info;
          fill = (of_nat (ls_current_context_tokens st) / of_nat max_ctx * 100 :: rat)
      in jobj ([(''session_id'', JString (si_session_id info)), (''title'', JString (si_title info)),
                (''current_context_tokens'', JInt (int (ls_current_context_tokens st))),
                (''total_tokens_used'', JInt (int (ls_total_tokens_used st))),
                (''turn_count'', JInt (ls_turn_count st)),
                (''snapshot_count'', JInt (int (si_snapshot_count info))),
                (''compacted'', JBool (ls_compacted st)),
                (''needs_compaction'', JBool (ls_needs_compaction st))]
               @ (if max_ctx > 0
                  then [(''max_context_tokens'', JInt (int max_ctx)),
                        (''context_fill_pct'', JFloat (of_int (trunc_rat (fill * 10)) / 10))]
                  else [])))"

lemma build_session_object_fields:
  "jget (build_session_object info max_ctx) ''session_id'' = Some (JString (si_session_id info))
   \<and> (jget (build_session_object info max_ctx) ''context_fill_pct'' = None \<longleftrightarrow> max_ctx = 0)"
  by (simp add: build_session_object_def Let_def)

section \<open>SessionManager::compact\<close>

record session_compact_result =
  scr_session_id :: string
  scr_summary :: string
  scr_compacted :: bool
  scr_compact_reason :: string
  scr_tokens_before :: nat
  scr_tokens_after :: nat
  scr_compacted_conversation :: json

text \<open>\<open>save_snapshot\<close>; \<open>now_ms\<close> is the clock. Without a provider the number is the first one whose
  file is missing, and nothing is written when the session directory is missing.\<close>

definition next_snapshot_index :: "'d session_manager \<Rightarrow> string \<Rightarrow> 'd world \<Rightarrow> nat" where
  "next_snapshot_index M session_id w =
     (case storage_provider M of
        Some S \<Rightarrow> sp_snapshot_count S session_id w + 1
      | None \<Rightarrow> first_free (\<lambda>n. fs_exists (fst w) (history_snapshot_path M session_id n)) 1 (fs_size (fst w)))"

definition save_snapshot ::
    "'d session_manager \<Rightarrow> int \<Rightarrow> string \<Rightarrow> json \<Rightarrow> 'd world \<Rightarrow> 'd world" where
  "save_snapshot M now_ms session_id history w =
     (let n = next_snapshot_index M session_id w;
          snap = jobj [(''session_id'', JString session_id), (''snapshot_n'', JInt (int n)),
                       (''snapshot_ms'', JInt now_ms), (''messages'', history)]
      in case storage_provider M of
           Some S \<Rightarrow> snd (sp_append_snapshot S session_id snap w)
         | None \<Rightarrow> snd (on_fs (write_file (history_snapshot_path M session_id n) snap) w))"

definition content_tokens :: "json \<Rightarrow> nat res" where
  "content_tokens m = rbind (jvalue as_string m ''content'' []) (\<lambda>c. Inr (estimate_tokens c))"

fun sum_content_tokens :: "json list \<Rightarrow> nat res" where
  "sum_content_tokens [] = Inr 0"
| "sum_content_tokens (m # ms) =
     (if \<not> is_object m then sum_content_tokens ms
      else rbind (content_tokens m) (\<lambda>t. rbind (sum_content_tokens ms) (\<lambda>ts. Inr (t + ts))))"

fun count_real_turns :: "json list \<Rightarrow> nat res" where
  "count_real_turns [] = Inr 0"
| "count_real_turns (m # ms) =
     (if \<not> is_object m then count_real_turns ms
      else rbind (jvalue as_string m ''role'' []) (\<lambda>role.
             rbind (count_real_turns ms) (\<lambda>n.
               Inr (if role = ''user'' \<or> role = ''assistant'' then Suc n else n))))"

definition seed_messages :: "string \<Rightarrow> json list" where
  "seed_messages summary =
     [jobj [(''role'', JString ''user''), (''content'', JString ''retrieve previous session summary'')],
      jobj [(''role'', JString ''assistant''), (''content'', JString []),
        (''tool_calls'', JArray [jobj [(''id'', JString ''tc_summary_001''), (''type'', JString ''function''),
          (''function'', jobj [(''name'', JString ''session_summary_retrieve''),
            (''arguments'', JString (''{'' @ [CHR 0x22] @ ''query'' @ [CHR 0x22] @ '': '' @ [CHR 0x22]
               @ ''previous session summary'' @ [CHR 0x22] @ ''}''))])]])],
      jobj [(''role'', JString ''tool''), (''tool_call_id'', JString ''tc_summary_001''),
        (''content'', JString (''[PREVIOUS SESSION SUMMARY]'' @ [newline] @ summary))]]"

definition build_seeded_conversation :: "string \<Rightarrow> string \<Rightarrow> json list \<Rightarrow> json res" where
  "build_seeded_conversation session_id summary retained_recent =
     (let messages = seed_messages summary @ filter is_object retained_recent
      in rbind (sum_content_tokens messages) (\<lambda>seeded_tokens.
         rbind (count_real_turns messages) (\<lambda>real_turn_count.
           Inr (jobj [(''messages'', JArray messages), (''convo_id'', JString session_id),
                      (''compacted'', JBool True), (''turn_count'', JInt (int real_turn_count)),
                      (''current_context_tokens'', JInt (int seeded_tokens))]))))"

abbreviation marker :: string where
  "marker \<equiv> ''[CONTEXT COMPACTION]''"

text \<open>The recent tail without the synthetic summary, and the summary found in the marked turn.\<close>

fun retained_turns :: "json list \<Rightarrow> json list res" where
  "retained_turns [] = Inr []"
| "retained_turns (m # ms) =
     (if \<not> is_object m then retained_turns ms
      else rbind (jvalue as_string m ''content'' []) (\<lambda>content.
             rbind (retained_turns ms) (\<lambda>rest.
               Inr (if str_contains content marker then rest else m # rest))))"

fun marked_summary :: "json list \<Rightarrow> string res" where
  "marked_summary [] = Inr []"
| "marked_summary (m # ms) =
     (if \<not> is_object m then marked_summary ms
      else rbind (jvalue as_string m ''content'' []) (\<lambda>content.
             if str_contains content marker
             then Inr (case str_find content [newline] 0 of Some nl \<Rightarrow> drop (nl + 1) content | None \<Rightarrow> content)
             else marked_summary ms))"

definition fallback_summary :: string where
  "fallback_summary =
     ''(No summary available '' @ map char_of [226, 128, 148 :: nat] @ '' conversation was short or empty.)''"

definition drop_pending_user :: "bool \<Rightarrow> json list \<Rightarrow> json list res" where
  "drop_pending_user is_auto retained =
     (if is_auto \<and> retained \<noteq> [] \<and> is_object (last retained)
      then rbind (jvalue as_string (last retained) ''role'' []) (\<lambda>role.
             Inr (if role = ''user'' then butlast retained else retained))
      else Inr retained)"

text \<open>The steps after the compacter agreed (or there was no history).\<close>

definition finish_compact ::
    "'d session_manager \<Rightarrow> int \<Rightarrow> string \<Rightarrow> json list \<Rightarrow> bool \<Rightarrow> nat \<Rightarrow> bool \<Rightarrow> string \<Rightarrow> json list \<Rightarrow>
     'd world \<Rightarrow> session_compact_result res \<times> 'd world" where
  "finish_compact M now_ms session_id history is_auto tokens_before did_compact summary0 retained0 w =
     (let summary = (if summary0 = [] then fallback_summary else summary0);
          retained1 = (if retained0 = [] then filter is_object (drop (length history - 6) history) else retained0)
      in case drop_pending_user is_auto retained1 of
           Inl e \<Rightarrow> (Inl e, w)
         | Inr retained \<Rightarrow>
             (let w' = (if history \<noteq> [] then save_snapshot M now_ms session_id (JArray history) w else w)
              in case build_seeded_conversation session_id summary retained of
                   Inl e \<Rightarrow> (Inl e, w')
                 | Inr convo \<Rightarrow>
                     (Inr \<lparr>scr_session_id = session_id, scr_summary = summary, scr_compacted = did_compact,
                           scr_compact_reason = [], scr_tokens_before = tokens_before,
                           scr_tokens_after = estimate_tokens summary + (if is_auto then 60 else 50),
                           scr_compacted_conversation = convo\<rparr>, w')))"

text \<open>\<open>compact\<close> on a history that is an array, with the compacter as a parameter.\<close>

definition compact ::
    "'d session_manager \<Rightarrow> (json \<Rightarrow> compact_outcome) \<Rightarrow> int \<Rightarrow> string \<Rightarrow> json list \<Rightarrow> bool \<Rightarrow>
     'd world \<Rightarrow> session_compact_result res \<times> 'd world" where
  "compact M compacter now_ms session_id history is_auto w =
     (case sum_content_tokens history of
        Inl e \<Rightarrow> (Inl e, w)
      | Inr tokens_before \<Rightarrow>
          if history = [] then finish_compact M now_ms session_id history is_auto tokens_before False [] [] w
          else
            let cr = compacter (JArray history)
            in if \<not> co_compacted cr
               then (Inr \<lparr>scr_session_id = session_id, scr_summary = [], scr_compacted = False,
                          scr_compact_reason = (if co_skip_reason cr = [] then ''below_compaction_limit''
                                                else co_skip_reason cr),
                          scr_tokens_before = tokens_before, scr_tokens_after = tokens_before,
                          scr_compacted_conversation = JObject []\<rparr>, w)
               else case (case co_history cr of JArray ms \<Rightarrow> retained_turns ms | _ \<Rightarrow> Inr []) of
                      Inl e \<Rightarrow> (Inl e, w)
                    | Inr retained \<Rightarrow>
                        (case (if co_summary cr \<noteq> [] then Inr (co_summary cr)
                               else case co_history cr of JArray ms \<Rightarrow> marked_summary ms | _ \<Rightarrow> Inr []) of
                           Inl e \<Rightarrow> (Inl e, w)
                         | Inr summary \<Rightarrow>
                             finish_compact M now_ms session_id history is_auto tokens_before True summary retained w))"

section \<open>The guard\<close>

record context_usage =
  cu_session_tokens :: nat
  cu_system_prompt_tokens :: nat
  cu_tool_schema_tokens :: nat
  cu_request_tokens :: nat
  cu_total_context_tokens :: nat
  cu_max_context_tokens :: nat
  cu_context_fill_pct :: rat

text \<open>\<open>compute_context_usage\<close>: the live statistics, the prompt and the schemas are given. The
  additions are on 64 bits.\<close>

definition compute_context_usage ::
    "nat \<Rightarrow> string \<Rightarrow> string \<Rightarrow> json \<Rightarrow> nat \<Rightarrow> context_usage res" where
  "compute_context_usage session_tokens system_prompt tool_schemas request_messages max_context_tokens =
     rbind (estimate_request_tokens request_messages) (\<lambda>request_tokens.
       let total_tokens = (session_tokens + estimate_tokens system_prompt + estimate_tokens tool_schemas
                           + request_tokens) mod 2 ^ 64
       in Inr \<lparr>cu_session_tokens = session_tokens,
               cu_system_prompt_tokens = estimate_tokens system_prompt,
               cu_tool_schema_tokens = estimate_tokens tool_schemas,
               cu_request_tokens = request_tokens,
               cu_total_context_tokens = total_tokens,
               cu_max_context_tokens = max_context_tokens,
               cu_context_fill_pct =
                 (if max_context_tokens > 0 then of_nat total_tokens / of_nat max_context_tokens * 100 else 0)\<rparr>)"

definition fill_ratio :: "context_usage \<Rightarrow> rat" where
  "fill_ratio usage = of_nat (cu_total_context_tokens usage) / of_nat (cu_max_context_tokens usage)"

definition effective_threshold :: "rat \<Rightarrow> rat" where
  "effective_threshold t = (if t \<le> 0 then 70 / 100 else t)"

record conversation =
  cv_messages :: "json list"
  cv_turn_count :: int
  cv_current_context_tokens :: int
  cv_metadata :: "(string \<times> json) list"

record guard_result =
  gr_threshold_exceeded :: bool
  gr_compact_attempted :: bool
  gr_compacted :: bool
  gr_skip_reason :: string
  gr_tokens_before :: nat
  gr_tokens_after :: nat

abbreviation guard_skip :: "string \<Rightarrow> guard_result" where
  "guard_skip reason \<equiv>
     \<lparr>gr_threshold_exceeded = False, gr_compact_attempted = False, gr_compacted = False,
      gr_skip_reason = reason, gr_tokens_before = 0, gr_tokens_after = 0\<rparr>"

text \<open>The conversation that replaces the old one.\<close>

definition compacted_convo :: "conversation \<Rightarrow> json \<Rightarrow> conversation res" where
  "compacted_convo convo seeded =
     rbind (jvalue as_json seeded ''messages'' (JArray [])) (\<lambda>messages.
     rbind (jvalue as_int seeded ''turn_count'' (cv_turn_count convo)) (\<lambda>turn_count.
     rbind (case jget seeded ''current_context_tokens'' of
              None \<Rightarrow> Inr (cv_current_context_tokens convo)
            | Some v \<Rightarrow> rbind (as_size v) (\<lambda>n. Inr (int n))) (\<lambda>tokens.
       Inr (convo\<lparr>cv_messages := (case messages of JArray ms \<Rightarrow> filter is_object ms | _ \<Rightarrow> []),
                  cv_turn_count := turn_count, cv_current_context_tokens := tokens,
                  cv_metadata := oput ''needs_compaction'' (JBool False)
                                   (oput ''compacted'' (JBool True) (cv_metadata convo))\<rparr>))))"

text \<open>\<open>run_auto_compact_guard\<close>: the result, the conversation handed to \<open>persist_conversation\<close> when
  there is one, and the world. \<open>get_convo\<close> is \<open>SessionIO::get_conversation\<close>.\<close>

definition run_auto_compact_guard ::
    "'d session_manager \<Rightarrow> (json \<Rightarrow> compact_outcome) \<Rightarrow> int \<Rightarrow> (string \<Rightarrow> conversation) \<Rightarrow> string \<Rightarrow>
     context_usage \<Rightarrow> rat \<Rightarrow> 'd world \<Rightarrow> (guard_result \<times> conversation option) res \<times> 'd world" where
  "run_auto_compact_guard M compacter now_ms get_convo convo_id usage threshold w =
     (if convo_id = [] then (Inr (guard_skip ''missing_convo_id'', None), w)
      else if cu_max_context_tokens usage = 0 then (Inr (guard_skip ''unknown_context_limit'', None), w)
      else if fill_ratio usage < effective_threshold threshold
      then (Inr (guard_skip ''below_compaction_limit'', None), w)
      else
        let convo = get_convo convo_id
        in case compact M compacter now_ms convo_id (filter is_object (cv_messages convo)) True w of
             (Inl e, w') \<Rightarrow> (Inl e, w')
           | (Inr cr, w') \<Rightarrow>
               (let reason = (if \<not> scr_compacted cr \<and> scr_compact_reason cr = []
                              then ''below_compaction_limit'' else scr_compact_reason cr);
                    result = \<lparr>gr_threshold_exceeded = True, gr_compact_attempted = True,
                              gr_compacted = scr_compacted cr, gr_skip_reason = reason,
                              gr_tokens_before = scr_tokens_before cr, gr_tokens_after = scr_tokens_after cr\<rparr>
                in if scr_compacted cr \<and> scr_compacted_conversation cr \<noteq> JObject []
                   then (case compacted_convo convo (scr_compacted_conversation cr) of
                           Inl e \<Rightarrow> (Inl e, w')
                         | Inr c \<Rightarrow> (Inr (result, Some c), w'))
                   else (Inr (result, None), w')))"

section \<open>What compaction keeps\<close>

definition config_ok :: "compacter_config \<Rightarrow> bool" where
  "config_ok cfg \<longleftrightarrow> 0 < cc_keep_recent_turns cfg \<and> cc_keep_recent_turns cfg + 1 < 2 ^ 64
     \<and> 0 \<le> cc_summary_retry_count cfg"

lemma summary_attempts_success:
  "summary_attempts request a n err = (s, e) \<Longrightarrow> s \<noteq> [] \<Longrightarrow>
     \<exists>k<n. request (a + k) = Inr s
       \<and> (\<forall>j<k. \<exists>x. request (a + j) = Inl x \<and> is_transient_summary_error (what x))"
proof (induction request a n err rule: summary_attempts.induct)
  case (2 request attempt left last_error)
  show ?case
  proof (cases "request attempt")
    case (Inr x)
    with "2.prems" show ?thesis by (intro exI [of _ 0]) auto
  next
    case (Inl x)
    then have tr: "is_transient_summary_error (what x)" and "left \<noteq> 0"
      and "summary_attempts request (Suc attempt) left (what x) = (s, e)"
      using "2.prems" by (auto split: if_splits)
    with "2.IH" Inl "2.prems"(2) obtain k where k: "k < left" "request (Suc attempt + k) = Inr s"
      "\<forall>j<k. \<exists>x. request (Suc attempt + j) = Inl x \<and> is_transient_summary_error (what x)"
      by auto
    have "\<exists>x. request (attempt + j) = Inl x \<and> is_transient_summary_error (what x)" if "j < Suc k" for j
      using that Inl tr k(3) by (cases j) auto
    with k show ?thesis by (intro exI [of _ "Suc k"]) auto
  qed
qed simp

lemma summary_attempts_failure:
  "summary_attempts request a n err = ([], e) \<Longrightarrow> 0 < n \<Longrightarrow> \<forall>k. request k \<noteq> Inr [] \<Longrightarrow>
     \<exists>k<n. \<exists>x. request (a + k) = Inl x \<and> what x = e
       \<and> (\<forall>j<k. \<exists>y. request (a + j) = Inl y \<and> is_transient_summary_error (what y))
       \<and> (is_transient_summary_error e \<longrightarrow> Suc k = n)"
proof (induction request a n err rule: summary_attempts.induct)
  case (2 request attempt left last_error)
  obtain x where x: "request attempt = Inl x"
    using "2.prems" by (cases "request attempt") auto
  show ?case
  proof (cases "\<not> is_transient_summary_error (what x) \<or> left = 0")
    case True
    with x "2.prems" show ?thesis by (intro exI [of _ 0]) auto
  next
    case False
    with "2.IH" x "2.prems" obtain k where k: "k < left" "\<exists>x. request (Suc attempt + k) = Inl x \<and> what x = e"
      "\<forall>j<k. \<exists>y. request (Suc attempt + j) = Inl y \<and> is_transient_summary_error (what y)"
      "is_transient_summary_error e \<longrightarrow> Suc k = left"
      by auto
    have "\<exists>y. request (attempt + j) = Inl y \<and> is_transient_summary_error (what y)" if "j < Suc k" for j
      using that x False k(3) by (cases j) auto
    with k show ?thesis by (intro exI [of _ "Suc k"]) auto
  qed
qed simp

lemma compact_history_cases:
  assumes "config_ok cfg" and "cc_enabled cfg" and "length turns < 2 ^ 64"
  shows "compact_history_if_needed cfg now request (JArray turns) =
     (if length turns \<le> cc_keep_recent_turns cfg + 1 then skipped (JArray turns) ''below_preserve_limit''
      else let n = length turns - cc_keep_recent_turns cfg;
               (s, e) = summary_attempts (\<lambda>a. request a (take n turns)) 1
                          (Suc (nat (cc_summary_retry_count cfg))) []
           in if s = [] then skipped (JArray turns) (classify_summary_skip_reason e)
              else \<lparr>co_history = JArray (summary_message now (take n turns) s # drop n turns),
                    co_compacted = True, co_summary = s, co_skip_reason = []\<rparr>)"
proof -
  have "nat ((int (length turns) - int (cc_keep_recent_turns cfg)) mod 2 ^ 64)
      = length turns - cc_keep_recent_turns cfg" if "\<not> length turns \<le> cc_keep_recent_turns cfg + 1"
    using that assms(3) by (simp flip: of_nat_diff)
  moreover have "nat (cc_summary_retry_count cfg + 1) = Suc (nat (cc_summary_retry_count cfg))"
    using assms(1) by (simp add: config_ok_def nat_add_distrib)
  moreover have "(cc_keep_recent_turns cfg + 1) mod 2 ^ 64 = cc_keep_recent_turns cfg + 1"
    using assms(1) by (simp add: config_ok_def)
  ultimately show ?thesis
    using assms(2) by (simp add: compact_history_if_needed_def Let_def)
qed

lemma jget_copy_metadata:
  "k \<noteq> ''timestamp'' \<Longrightarrow> k \<noteq> ''metadata'' \<Longrightarrow> oget (copy_metadata_from_older ts m) k = oget m k"
  by (induction ts m rule: copy_metadata_from_older.induct)
    (auto simp: Let_def split: option.splits json.splits)

lemma jget_summary_message:
  "jget (summary_message now older s) ''content'' = Some (JString (SUMMARY_PREFIX @ s))"
  by (simp add: summary_message_def Let_def jget_copy_metadata)

text \<open>Compaction of a history. With a sane configuration, either the history is returned
  unchanged with a reason, or it becomes one message that carries the fixed prefix and the model's
  summary followed by exactly the last \<open>keep_recent_turns\<close> turns, which makes it strictly shorter;
  the summary is the answer of the first attempt that was not a transient failure, among at most
  \<open>summary_retry_count + 1\<close> attempts.\<close>

theorem compaction_exact:
  assumes "config_ok cfg" and "cc_enabled cfg" and "length turns < 2 ^ 64"
    and "r = compact_history_if_needed cfg now request (JArray turns)"
    and "n = length turns - cc_keep_recent_turns cfg"
  shows "(\<not> co_compacted r \<and> co_history r = JArray turns \<and> co_skip_reason r \<noteq> [])
     \<or> (\<exists>msg k. co_compacted r \<and> co_history r = JArray (msg # drop n turns)
          \<and> jget msg ''content'' = Some (JString (SUMMARY_PREFIX @ co_summary r)) \<and> co_summary r \<noteq> []
          \<and> length (msg # drop n turns) = Suc (cc_keep_recent_turns cfg)
          \<and> length (msg # drop n turns) < length turns
          \<and> k \<le> nat (cc_summary_retry_count cfg)
          \<and> request (Suc k) (take n turns) = Inr (co_summary r)
          \<and> (\<forall>j<k. \<exists>x. request (Suc j) (take n turns) = Inl x \<and> is_transient_summary_error (what x)))"
proof (cases "length turns \<le> cc_keep_recent_turns cfg + 1")
  case True
  then show ?thesis using compact_history_cases [OF assms(1-3), of now request] by (simp add: assms(4))
next
  case False
  obtain s e where att: "summary_attempts (\<lambda>a. request a (take n turns)) 1
      (Suc (nat (cc_summary_retry_count cfg))) [] = (s, e)"
    by (cases "summary_attempts (\<lambda>a. request a (take n turns)) 1 (Suc (nat (cc_summary_retry_count cfg))) []")
  have r: "r = (if s = [] then skipped (JArray turns) (classify_summary_skip_reason e)
      else \<lparr>co_history = JArray (summary_message now (take n turns) s # drop n turns),
            co_compacted = True, co_summary = s, co_skip_reason = []\<rparr>)"
    using compact_history_cases [OF assms(1-3), of now request] False att by (simp add: assms(4,5) Let_def)
  show ?thesis
  proof (cases "s = []")
    case True
    with r show ?thesis by (simp add: classify_summary_skip_reason_def)
  next
    case ne: False
    from summary_attempts_success [OF att ne] obtain k where k: "k < Suc (nat (cc_summary_retry_count cfg))"
      "request (1 + k) (take n turns) = Inr s"
      "\<forall>j<k. \<exists>x. request (1 + j) (take n turns) = Inl x \<and> is_transient_summary_error (what x)" by auto
    show ?thesis
      using False k
      by (intro disjI2 exI [of _ "summary_message now (take n turns) s"] exI [of _ k])
        (simp add: r ne assms(5) jget_summary_message)
  qed
qed

definition demo_turn :: "string \<Rightarrow> string \<Rightarrow> json" where
  "demo_turn role content = JObject [(''content'', JString content), (''role'', JString role)]"

definition demo_history :: "json list" where
  "demo_history = [demo_turn ''user'' ''a'', demo_turn ''assistant'' ''b'', demo_turn ''user'' ''c'',
     demo_turn ''assistant'' ''d'']"

definition demo_request :: "nat \<Rightarrow> json list \<Rightarrow> string res" where
  "demo_request attempt older =
     (if attempt = 1 then Inl (Socket_Exception ''Recv timeout'') else Inr ''sum'')"

definition demo_config :: compacter_config where
  "demo_config = default_compacter_config\<lparr>cc_keep_recent_turns := 2\<rparr>"

lemma demo_config_ok:
  "config_ok demo_config" "cc_enabled demo_config" "length demo_history < 2 ^ 64"
  "2 = length demo_history - cc_keep_recent_turns demo_config"
  by (simp_all add: config_ok_def demo_config_def default_compacter_config_def demo_history_def)

lemma demo_compacted:
  "co_compacted (compact_history_if_needed demo_config ''now'' demo_request (JArray demo_history))"
proof -
  have "is_transient_summary_error ''Recv timeout''" by code_simp
  then have "summary_attempts (\<lambda>a. demo_request a (take 2 demo_history)) 1 (Suc (nat 2)) [] = (''sum'', [])"
    by (simp add: demo_request_def numeral_2_eq_2)
  then show ?thesis
    using compact_history_cases [OF demo_config_ok(1-3), of "''now''" demo_request]
    by (simp add: demo_config_def default_compacter_config_def demo_history_def)
qed

lemma compaction_exact_witness:
  "\<exists>msg. co_history (compact_history_if_needed demo_config ''now'' demo_request (JArray demo_history))
     = JArray (msg # drop 2 demo_history)"
  using compaction_exact [OF demo_config_ok(1-3) refl demo_config_ok(4), of "''now''" demo_request]
    demo_compacted by blast

section \<open>What a compacted session holds\<close>

text \<open>A turn as the scheduler stores it: text and role are strings, and the text is not itself a
  compaction marker.\<close>

definition turn_ok :: "json \<Rightarrow> bool" where
  "turn_ok t \<longleftrightarrow> is_object t
     \<and> (case jget t ''content'' of Some (JString c) \<Rightarrow> \<not> str_contains c marker | _ \<Rightarrow> False)
     \<and> (case jget t ''role'' of Some (JString r) \<Rightarrow> True | _ \<Rightarrow> False)"

lemma turn_ok_values:
  assumes "turn_ok t"
  obtains c r where "is_object t" "jvalue as_string t ''content'' d = Inr c" "\<not> str_contains c marker"
    "jvalue as_string t ''role'' d = Inr r" "jget t ''role'' = Some (JString r)"
  using assms by (auto simp: turn_ok_def jvalue_object split: option.splits json.splits)

lemma sum_content_tokens_ok:
  "list_all turn_ok ts \<Longrightarrow> \<exists>n. sum_content_tokens ts = Inr n"
proof (induction ts)
  case (Cons t ts)
  then obtain n where "sum_content_tokens ts = Inr n" by auto
  moreover from Cons.prems have "turn_ok t" by simp
  then obtain c where "is_object t" "jvalue as_string t ''content'' [] = Inr c" by (rule turn_ok_values)
  ultimately show ?case by (simp add: content_tokens_def)
qed simp

lemma count_real_turns_ok:
  "list_all turn_ok ts \<Longrightarrow> \<exists>n. count_real_turns ts = Inr n"
proof (induction ts)
  case (Cons t ts)
  then obtain n where "count_real_turns ts = Inr n" by auto
  moreover from Cons.prems have "turn_ok t" by simp
  then obtain r where "is_object t" "jvalue as_string t ''role'' [] = Inr r" by (rule turn_ok_values)
  ultimately show ?case by simp
qed simp

lemma retained_turns_ok: "list_all turn_ok ts \<Longrightarrow> retained_turns ts = Inr ts"
proof (induction ts)
  case (Cons t ts)
  moreover from Cons.prems have "turn_ok t" by simp
  then obtain c where "is_object t" "jvalue as_string t ''content'' [] = Inr c" "\<not> str_contains c marker"
    by (rule turn_ok_values)
  ultimately show ?case by simp
qed simp

lemma filter_turn_ok: "list_all turn_ok ts \<Longrightarrow> filter is_object ts = ts"
  by (induction ts) (auto simp: turn_ok_def)

lemma list_all_take_drop:
  "list_all P xs \<Longrightarrow> list_all P (drop n xs)" "list_all P xs \<Longrightarrow> list_all P (butlast xs)"
  by (auto simp: list_all_iff dest: in_set_dropD in_set_butlastD)

lemma seed_tokens:
  "sum_content_tokens ts = Inr n \<Longrightarrow> \<exists>k. sum_content_tokens (seed_messages s @ ts) = Inr k"
  by (simp add: seed_messages_def content_tokens_def)

lemma seed_turns:
  "count_real_turns ts = Inr n \<Longrightarrow> count_real_turns (seed_messages s @ ts) = Inr (Suc (Suc n))"
  by (simp add: seed_messages_def)

lemma build_seeded_ok:
  assumes "list_all turn_ok ts"
  shows "\<exists>convo. build_seeded_conversation sid s ts = Inr convo
     \<and> jget convo ''messages'' = Some (JArray (seed_messages s @ ts))
     \<and> jget convo ''convo_id'' = Some (JString sid)"
proof -
  obtain n m where "sum_content_tokens ts = Inr n" "count_real_turns ts = Inr m"
    using assms sum_content_tokens_ok count_real_turns_ok by blast
  with seed_tokens seed_turns obtain k where "sum_content_tokens (seed_messages s @ ts) = Inr k"
    "count_real_turns (seed_messages s @ ts) = Inr (Suc (Suc m))" by blast
  then show ?thesis
    by (simp add: build_seeded_conversation_def Let_def filter_turn_ok [OF assms])
qed

lemma contains_marker_prefix: "str_contains (SUMMARY_PREFIX @ s) marker"
proof -
  have "take 20 SUMMARY_PREFIX = marker" by code_simp
  then have "SUMMARY_PREFIX = marker @ drop 20 SUMMARY_PREFIX" by (metis append_take_drop_id)
  then have "SUMMARY_PREFIX @ s = [] @ marker @ (drop 20 SUMMARY_PREFIX @ s)" by (metis append_Nil append_assoc)
  then show ?thesis unfolding str_contains_iff sublist_def by blast
qed

lemma retained_after_summary:
  assumes "list_all turn_ok ts"
  shows "retained_turns (summary_message now older s # ts) = Inr ts"
proof -
  have "is_object (summary_message now older s)" by (simp add: summary_message_def Let_def)
  moreover from this have "jvalue as_string (summary_message now older s) ''content'' [] = Inr (SUMMARY_PREFIX @ s)"
    by (simp add: jvalue_object jget_summary_message)
  ultimately show ?thesis
    using retained_turns_ok [OF assms] contains_marker_prefix by simp
qed

text \<open>The tail that stays: an automatic compaction leaves the pending user message out.\<close>

definition kept_tail :: "bool \<Rightarrow> json list \<Rightarrow> json list" where
  "kept_tail is_auto ts =
     (if is_auto \<and> ts \<noteq> [] \<and> jget (last ts) ''role'' = Some (JString ''user'') then butlast ts else ts)"

lemma drop_pending_user_ok:
  assumes "list_all turn_ok ts"
  shows "drop_pending_user is_auto ts = Inr (kept_tail is_auto ts)"
proof (cases "is_auto \<and> ts \<noteq> []")
  case True
  then have "turn_ok (last ts)" using assms by (auto simp: list_all_iff)
  then obtain r where "is_object (last ts)" "jvalue as_string (last ts) ''role'' [] = Inr r"
    "jget (last ts) ''role'' = Some (JString r)" by (rule turn_ok_values)
  with True show ?thesis by (simp add: drop_pending_user_def kept_tail_def)
next
  case False
  then show ?thesis by (auto simp: drop_pending_user_def kept_tail_def)
qed

lemma finish_compact_ok:
  assumes "list_all turn_ok retained" and "retained \<noteq> []" and "history \<noteq> []" and "s \<noteq> []"
  shows "\<exists>r. finish_compact M now_ms sid history is_auto tb True s retained w
       = (Inr r, save_snapshot M now_ms sid (JArray history) w)
     \<and> scr_compacted r \<and> scr_summary r = s
     \<and> jget (scr_compacted_conversation r) ''messages''
         = Some (JArray (seed_messages s @ kept_tail is_auto retained))"
proof -
  have "list_all turn_ok (kept_tail is_auto retained)"
    using assms(1) by (simp add: kept_tail_def list_all_take_drop)
  then obtain convo where "build_seeded_conversation sid s (kept_tail is_auto retained) = Inr convo"
    "jget convo ''messages'' = Some (JArray (seed_messages s @ kept_tail is_auto retained))"
    using build_seeded_ok by blast
  then show ?thesis
    using assms(2-4) by (simp add: finish_compact_def Let_def drop_pending_user_ok [OF assms(1)])
qed

text \<open>When the compacter summarises a well formed history,
  \<open>compact\<close> first stores the whole history as a snapshot, and the conversation it returns is the
  synthetic exchange that carries the summary followed by exactly the recent turns (an automatic
  compaction leaves out a pending user message at the end); when the compacter declines, nothing is
  stored and the reason is reported.\<close>

lemma compact_loses_nothing:
  assumes "list_all turn_ok turns" and "config_ok cfg" and "cc_enabled cfg" and "length turns < 2 ^ 64"
    and "turns \<noteq> []"
    and "cr = compact_history_if_needed cfg now request (JArray turns)"
    and "res = compact M (compact_history_if_needed cfg now request) now_ms sid turns is_auto w"
  shows "(co_compacted cr \<longrightarrow> (\<exists>r. res = (Inr r, save_snapshot M now_ms sid (JArray turns) w)
        \<and> scr_compacted r \<and> scr_summary r = co_summary cr
        \<and> jget (scr_compacted_conversation r) ''messages'' = Some (JArray (seed_messages (co_summary cr)
            @ kept_tail is_auto (drop (length turns - cc_keep_recent_turns cfg) turns)))))
     \<and> (\<not> co_compacted cr \<longrightarrow> (\<exists>r. res = (Inr r, w) \<and> \<not> scr_compacted r
        \<and> scr_compact_reason r \<noteq> [] \<and> scr_tokens_after r = scr_tokens_before r))"
proof -
  obtain tb where tb: "sum_content_tokens turns = Inr tb" using sum_content_tokens_ok [OF assms(1)] by blast
  let ?n = "length turns - cc_keep_recent_turns cfg"
  have skip: "\<exists>r. res = (Inr r, w) \<and> \<not> scr_compacted r \<and> scr_compact_reason r \<noteq> []
      \<and> scr_tokens_after r = scr_tokens_before r" if "\<not> co_compacted cr"
    using that assms(5) by (simp add: assms(7) compact_def tb Let_def flip: assms(6))
  have ok: "\<exists>r. res = (Inr r, save_snapshot M now_ms sid (JArray turns) w)
        \<and> scr_compacted r \<and> scr_summary r = co_summary cr
        \<and> jget (scr_compacted_conversation r) ''messages'' = Some (JArray (seed_messages (co_summary cr)
            @ kept_tail is_auto (drop ?n turns)))" if c: "co_compacted cr"
  proof -
    have len: "\<not> length turns \<le> cc_keep_recent_turns cfg + 1"
      using c compact_history_cases [OF assms(2-4), of now request] by (auto simp: assms(6))
    from c have hist: "co_history cr = JArray (summary_message now (take ?n turns) (co_summary cr) # drop ?n turns)"
      and ne: "co_summary cr \<noteq> []"
      using compact_history_cases [OF assms(2-4), of now request] len
      by (auto simp: assms(6) Let_def split: prod.splits if_splits)
    have rec_ok: "list_all turn_ok (drop ?n turns)" using assms(1) by (rule list_all_take_drop)
    have "drop ?n turns \<noteq> []" using len assms(2) by (auto simp: config_ok_def)
    from finish_compact_ok [OF rec_ok this assms(5) ne] show ?thesis
      using c ne assms(5)
      by (simp add: assms(7) compact_def tb Let_def hist retained_after_summary [OF rec_ok] flip: assms(6)
          del: retained_turns.simps)
  qed
  show ?thesis using skip ok by blast
qed

section \<open>The background queue\<close>

text \<open>
  \<open>CompactionQueue\<close> and the set \<open>sessions_needing_compaction_\<close>. A caller of
  \<open>enqueue_auto_compaction_if_needed\<close> marks the session under \<open>compaction_state_mutex_\<close> and then
  enqueues it under the queue's mutex; between the two it is pending. The worker takes an item, runs
  the guard, and then erases the session from each set under its own mutex.
\<close>

datatype 'u worker = Waiting | Running "string \<times> 'u" | Dequeued "string \<times> 'u" | Returned

record 'u compaction_queue =
  cq_queue :: "(string \<times> 'u) list"
  cq_queued :: "string set"
  cq_needing :: "string set"
  cq_pending :: "(string \<times> 'u) list"
  cq_stopping :: bool
  cq_worker :: "'u worker"

definition cq_init :: "'u compaction_queue \<Rightarrow> bool" where
  "cq_init q \<longleftrightarrow> cq_queue q = [] \<and> cq_queued q = {} \<and> cq_needing q = {} \<and> cq_pending q = []
     \<and> \<not> cq_stopping q \<and> cq_worker q = Waiting"

text \<open>\<open>CompactionQueue::enqueue\<close>.\<close>

definition cq_enqueue :: "string \<times> 'u \<Rightarrow> 'u compaction_queue \<Rightarrow> 'u compaction_queue" where
  "cq_enqueue item q =
     (if fst item = [] \<or> fst item \<in> cq_queued q then q
      else q\<lparr>cq_queued := insert (fst item) (cq_queued q), cq_queue := cq_queue q @ [item]\<rparr>)"

text \<open>The conditions of \<open>enqueue_auto_compaction_if_needed\<close> before it marks the session.\<close>

definition wants_compaction :: "string \<Rightarrow> context_usage \<Rightarrow> rat \<Rightarrow> bool" where
  "wants_compaction convo_id usage threshold \<longleftrightarrow>
     convo_id \<noteq> [] \<and> cu_max_context_tokens usage \<noteq> 0 \<and> \<not> fill_ratio usage < effective_threshold threshold"

inductive cq_step ::
    "(context_usage \<times> rat) compaction_queue \<Rightarrow> (context_usage \<times> rat) compaction_queue \<Rightarrow> bool" where
  cq_mark: "wants_compaction sid u t \<Longrightarrow>
     cq_step q (q\<lparr>cq_needing := insert sid (cq_needing q),
                  cq_pending := (sid, (u, effective_threshold t)) # cq_pending q\<rparr>)"
| cq_push: "cq_pending q = ps @ item # qs \<Longrightarrow>
     cq_step q (cq_enqueue item (q\<lparr>cq_pending := ps @ qs\<rparr>))"
| cq_take: "cq_worker q = Waiting \<Longrightarrow> cq_queue q = item # rest \<Longrightarrow>
     cq_step q (q\<lparr>cq_queue := rest, cq_worker := Running item\<rparr>)"
| cq_release: "cq_worker q = Running item \<Longrightarrow>
     cq_step q (q\<lparr>cq_queued := cq_queued q - {fst item}, cq_worker := Dequeued item\<rparr>)"
| cq_unmark: "cq_worker q = Dequeued item \<Longrightarrow>
     cq_step q (q\<lparr>cq_needing := cq_needing q - {fst item}, cq_worker := Waiting\<rparr>)"
| cq_stop: "cq_step q (q\<lparr>cq_stopping := True\<rparr>)"
| cq_return: "cq_worker q = Waiting \<Longrightarrow> cq_stopping q \<Longrightarrow> cq_queue q = [] \<Longrightarrow>
     cq_step q (q\<lparr>cq_worker := Returned\<rparr>)"

definition in_work :: "'u worker \<Rightarrow> string set" where
  "in_work wk = (case wk of Running item \<Rightarrow> {fst item} | _ \<Rightarrow> {})"

definition cq_inv :: "'u compaction_queue \<Rightarrow> bool" where
  "cq_inv q \<longleftrightarrow> distinct (map fst (cq_queue q))
     \<and> cq_queued q = set (map fst (cq_queue q)) \<union> in_work (cq_worker q)
     \<and> set (map fst (cq_queue q)) \<inter> in_work (cq_worker q) = {}"

interpretation cq: inductive_invariant cq_init cq_step cq_inv
proof
  fix q :: "(context_usage \<times> rat) compaction_queue"
  assume "cq_init q"
  then show "cq_inv q" by (simp add: cq_init_def cq_inv_def in_work_def)
next
  fix q q' :: "(context_usage \<times> rat) compaction_queue"
  assume "cq_inv q" and "cq_step q q'"
  from this(2,1) show "cq_inv q'"
    by cases (auto simp: cq_inv_def cq_enqueue_def in_work_def)
qed

text \<open>C35: The compaction queue. In every interleaving of callers and worker, no session is queued
  twice, a session that is being compacted is not queued at the same time, and \<open>queued_sessions_\<close>
  is exactly the queued sessions and the one in work: an enqueued session is neither lost nor
  compacted twice at once.\<close>

theorem compaction_queue_exact:
  assumes "reach cq_init cq_step q"
  shows "distinct (map fst (cq_queue q))
     \<and> cq_queued q = set (map fst (cq_queue q)) \<union> in_work (cq_worker q)
     \<and> (\<forall>item. cq_worker q = Running item \<longrightarrow> fst item \<notin> set (map fst (cq_queue q)))"
  using cq.reach_inv [OF assms] by (auto simp: cq_inv_def in_work_def)

definition full_usage :: context_usage where
  "full_usage = \<lparr>cu_session_tokens = 9, cu_system_prompt_tokens = 0, cu_tool_schema_tokens = 0,
     cu_request_tokens = 0, cu_total_context_tokens = 9, cu_max_context_tokens = 10, cu_context_fill_pct = 90\<rparr>"

lemma full_usage_wants: "wants_compaction ''ana_s1'' full_usage 0"
  by (simp add: wants_compaction_def full_usage_def fill_ratio_def effective_threshold_def)

abbreviation cq_item :: "string \<times> context_usage \<times> rat" where
  "cq_item \<equiv> (''ana_s1'', (full_usage, effective_threshold 0))"

text \<open>The state with the given mark, pending caller, queue and worker.\<close>

abbreviation cq_state ::
    "string set \<Rightarrow> (string \<times> context_usage \<times> rat) list \<Rightarrow> string set \<Rightarrow>
     (string \<times> context_usage \<times> rat) list \<Rightarrow> (context_usage \<times> rat) worker \<Rightarrow> (context_usage \<times> rat) compaction_queue" where
  "cq_state marks waiting queued items wk \<equiv>
     \<lparr>cq_queue = items, cq_queued = queued, cq_needing = marks, cq_pending = waiting, cq_stopping = False,
      cq_worker = wk\<rparr>"

lemma cq_state_mark:
  "cq_step (cq_state N P Q I wk) (cq_state (insert ''ana_s1'' N) (cq_item # P) Q I wk)"
  using cq_mark [OF full_usage_wants, of "cq_state N P Q I wk"] by simp

lemma cq_state_push:
  "''ana_s1'' \<notin> Q \<Longrightarrow>
     cq_step (cq_state N [cq_item] Q I wk) (cq_state N [] (insert ''ana_s1'' Q) (I @ [cq_item]) wk)"
  using cq_push [of "cq_state N [cq_item] Q I wk" "[]" cq_item "[]"] by (simp add: cq_enqueue_def)

lemma cq_reach_queued:
  "reach cq_init cq_step (cq_state {''ana_s1''} [] {''ana_s1''} [cq_item] Waiting)"
proof -
  have "reach cq_init cq_step (cq_state {} [] {} [] Waiting)" by (rule reach_init) (simp add: cq_init_def)
  then have "reach cq_init cq_step (cq_state {''ana_s1''} [cq_item] {} [] Waiting)"
    by (rule reach_step) (rule cq_state_mark)
  moreover have "cq_step (cq_state {''ana_s1''} [cq_item] {} [] Waiting)
      (cq_state {''ana_s1''} [] {''ana_s1''} [cq_item] Waiting)"
    using cq_state_push [where Q = "{}" and N = "{''ana_s1''}" and I = "[]" and wk = Waiting] by simp
  ultimately show ?thesis by (rule reach_step)
qed

lemma compaction_queue_exact_witness:
  "cq_queued (cq_state {''ana_s1''} [] {''ana_s1''} [cq_item] Waiting)
   = set (map fst [cq_item]) \<union> in_work (Waiting :: (context_usage \<times> rat) worker)"
  using compaction_queue_exact [OF cq_reach_queued] by simp

text \<open>The two sets are updated under different mutexes, so that the worker can erase the mark of a
  session that was enqueued again after its release: it is queued and
  \<open>session_needs_compaction\<close> answers no.\<close>

lemma compaction_mark_lost:
  "\<exists>q. reach cq_init cq_step q \<and> ''ana_s1'' \<in> set (map fst (cq_queue q)) \<and> ''ana_s1'' \<notin> cq_needing q"
proof (intro exI conjI)
  let ?n = "''ana_s1''"
  have "cq_step (cq_state {?n} [] {?n} [cq_item] Waiting) (cq_state {?n} [] {?n} [] (Running cq_item))"
    using cq_take [of "cq_state {?n} [] {?n} [cq_item] Waiting" cq_item "[]"] by simp
  with cq_reach_queued have "reach cq_init cq_step (cq_state {?n} [] {?n} [] (Running cq_item))"
    by (rule reach_step)
  moreover have "cq_step (cq_state {?n} [] {?n} [] (Running cq_item)) (cq_state {?n} [] {} [] (Dequeued cq_item))"
    using cq_release [of "cq_state {?n} [] {?n} [] (Running cq_item)" cq_item] by simp
  ultimately have "reach cq_init cq_step (cq_state {?n} [] {} [] (Dequeued cq_item))" by (rule reach_step)
  then have "reach cq_init cq_step (cq_state (insert ?n {?n}) [cq_item] {} [] (Dequeued cq_item))"
    by (rule reach_step) (rule cq_state_mark)
  moreover have "cq_step (cq_state (insert ?n {?n}) [cq_item] {} [] (Dequeued cq_item))
      (cq_state {?n} [] {?n} [cq_item] (Dequeued cq_item))"
    using cq_state_push [where Q = "{}" and N = "{?n}" and I = "[]" and wk = "Dequeued cq_item"] by simp
  ultimately have "reach cq_init cq_step (cq_state {?n} [] {?n} [cq_item] (Dequeued cq_item))"
    by (rule reach_step)
  moreover have "cq_step (cq_state {?n} [] {?n} [cq_item] (Dequeued cq_item)) (cq_state {} [] {?n} [cq_item] Waiting)"
    using cq_unmark [of "cq_state {?n} [] {?n} [cq_item] (Dequeued cq_item)" cq_item] by simp
  ultimately show "reach cq_init cq_step (cq_state {} [] {?n} [cq_item] Waiting)" by (rule reach_step)
qed simp_all

end
