(* ===== verification/File_Text.thy ===== *)
theory File_Text
  imports Json
begin

text \<open>
  The text routines of \<^verbatim>\<open>utils/file_tools.cpp\<close>: the edit distance behind path suggestions, the
  UTF-8 checker and repairer, the binary test, path normalisation with the expansion of environment
  variables, and the context of a patch. The distance table computes the least number of edits,
  repaired text passes the checker and valid text is left alone, and a normalised path has no dot
  entries.
\<close>

unbundle bit_operations_syntax

section \<open>Edit distance\<close>

definition edit_cost :: "char \<Rightarrow> char \<Rightarrow> nat" where
  "edit_cost x y = (if tolower x = tolower y then 0 else 1)"

text \<open>One row of the table \<open>dp\<close>: \<open>prev\<close> is \<open>dp[i-1]\<close> from column \<open>j-1\<close> on, \<open>left\<close> is \<open>dp[i][j-1]\<close>.\<close>

fun dp_cells :: "char \<Rightarrow> string \<Rightarrow> nat list \<Rightarrow> nat \<Rightarrow> nat list" where
  "dp_cells x (y # ys) (diag # up # prev) left =
     (let cell = min (min (up + 1) (left + 1)) (diag + edit_cost x y)
      in cell # dp_cells x ys (up # prev) cell)"
| "dp_cells x _ _ left = []"

definition dp_row :: "char \<Rightarrow> string \<Rightarrow> nat \<Rightarrow> nat list \<Rightarrow> nat list" where
  "dp_row x b i prev = i # dp_cells x b prev i"

fun dp_rows :: "string \<Rightarrow> string \<Rightarrow> nat \<Rightarrow> nat list \<Rightarrow> nat list" where
  "dp_rows [] b i prev = prev"
| "dp_rows (x # xs) b i prev = dp_rows xs b (Suc i) (dp_row x b (Suc i) prev)"

definition edit_distance :: "string \<Rightarrow> string \<Rightarrow> nat" where
  "edit_distance a b = last (dp_rows a b 0 [0..<Suc (length b)])"

definition filename_score :: "string \<Rightarrow> string \<Rightarrow> rat" where
  "filename_score candidate target =
     (if target = [] then 0
      else 1 - of_nat (edit_distance candidate target)
               / of_nat (max (length candidate) (length target)))"

text \<open>Edit scripts and their cost: the reference.\<close>

inductive edits :: "string \<Rightarrow> string \<Rightarrow> nat \<Rightarrow> bool" where
  edits_Nil: "edits [] [] 0"
| edits_delete: "edits xs ys n \<Longrightarrow> edits (x # xs) ys (Suc n)"
| edits_insert: "edits xs ys n \<Longrightarrow> edits xs (y # ys) (Suc n)"
| edits_change: "edits xs ys n \<Longrightarrow> edits (x # xs) (y # ys) (n + edit_cost x y)"

text \<open>The recurrence of the table, over prefixes given in reverse.\<close>

fun lev :: "string \<Rightarrow> string \<Rightarrow> nat" where
  "lev [] ys = length ys"
| "lev xs [] = length xs"
| "lev (x # xs) (y # ys) = min (min (lev xs (y # ys) + 1) (lev (x # xs) ys + 1)) (lev xs ys + edit_cost x y)"

lemma lev_Nil2 [simp]: "lev xs [] = length xs"
  by (cases xs) auto

lemma edits_lev: "edits xs ys (lev xs ys)"
proof (induction xs ys rule: lev.induct)
  case (1 ys)
  show ?case by (induction ys) (auto intro: edits.intros)
next
  case (2 x xs)
  have "edits zs [] (length zs)" for zs by (induction zs) (auto intro: edits.intros)
  from this [of "x # xs"] show ?case by simp
next
  case (3 x xs y ys)
  have d: "edits (x # xs) (y # ys) (lev xs (y # ys) + 1)"
    and i: "edits (x # xs) (y # ys) (lev (x # xs) ys + 1)"
    and c: "edits (x # xs) (y # ys) (lev xs ys + edit_cost x y)"
    using 3 by (auto intro: edits_delete edits_insert edits_change simp: Suc_eq_plus1 [symmetric] simp del: Suc_eq_plus1)
  show ?case using d i c by (auto simp: min_def)
qed

lemma lev_delete: "lev (x # xs) ys \<le> Suc (lev xs ys)"
  by (cases ys) auto

lemma lev_insert: "lev xs (y # ys) \<le> Suc (lev xs ys)"
  by (cases xs) auto

lemma lev_least: "edits xs ys n \<Longrightarrow> lev xs ys \<le> n"
proof (induction rule: edits.induct)
  case (edits_delete xs ys n x)
  then show ?case using lev_delete [of x xs ys] by simp
next
  case (edits_insert xs ys n y)
  then show ?case using lev_insert [of xs y ys] by simp
qed auto

text \<open>Scripts can be read from the other end.\<close>

lemma edits_change_Suc: "edits xs ys (Suc n) \<Longrightarrow> edits (x # xs) (y # ys) (Suc (n + edit_cost x y))"
  using edits_change [of xs ys "Suc n" x y] by simp

lemma edits_delete_last: "edits xs ys n \<Longrightarrow> edits (xs @ [x]) ys (Suc n)"
  by (induction rule: edits.induct) (auto intro: edits.intros edits_change_Suc)

lemma edits_insert_last: "edits xs ys n \<Longrightarrow> edits xs (ys @ [y]) (Suc n)"
  by (induction rule: edits.induct) (auto intro: edits.intros edits_change_Suc)

lemma edits_change_last: "edits xs ys n \<Longrightarrow> edits (xs @ [x]) (ys @ [y]) (n + edit_cost x y)"
proof (induction rule: edits.induct)
  case edits_Nil
  show ?case using edits_change [OF edits.edits_Nil, of x y] by simp
next
  case (edits_change xs ys n x' y')
  then have "edits (x' # xs @ [x]) (y' # ys @ [y]) (n + edit_cost x y + edit_cost x' y')"
    by (intro edits.edits_change)
  then show ?case by (simp add: ac_simps)
qed (auto intro: edits.intros)

lemma edits_rev: "edits xs ys n \<Longrightarrow> edits (rev xs) (rev ys) n"
  by (induction rule: edits.induct)
    (auto intro: edits_Nil edits_delete_last edits_insert_last edits_change_last)

section \<open>The table computes the recurrence\<close>

text \<open>Column \<open>j\<close> of the row for the prefix \<open>rev xs\<close>.\<close>

definition lev_row :: "string \<Rightarrow> string \<Rightarrow> string \<Rightarrow> nat list" where
  "lev_row xs pre b = map (\<lambda>j. lev xs (rev (take j b) @ pre)) [0..<Suc (length b)]"

lemma lev_row_Nil: "lev_row xs pre [] = [lev xs pre]"
  by (simp add: lev_row_def)

lemma lev_row_Cons: "lev_row xs pre (y # b) = lev xs pre # lev_row xs (y # pre) b"
proof -
  have "map (\<lambda>j. lev xs (rev (take j (y # b)) @ pre)) [Suc 0..<Suc (Suc (length b))]
      = map (\<lambda>j. lev xs (rev (take j b) @ y # pre)) [0..<Suc (length b)]"
    by (simp only: map_Suc_upt [symmetric] map_map comp_def take_Suc_Cons rev.simps append_assoc append_Cons append_Nil)
  then show ?thesis
    unfolding lev_row_def length_Cons by (subst upt_conv_Cons) simp_all
qed

lemma dp_cells_lev:
  "dp_cells x b (lev_row xs pre b) (lev (x # xs) pre) = tl (lev_row (x # xs) pre b)"
proof (induction b arbitrary: pre)
  case Nil
  show ?case by (simp add: lev_row_Nil)
next
  case (Cons y b)
  obtain r where r: "lev_row xs (y # pre) b = lev xs (y # pre) # r"
    by (cases b) (auto simp: lev_row_Nil lev_row_Cons)
  obtain r' where r': "lev_row (x # xs) (y # pre) b = lev (x # xs) (y # pre) # r'"
    by (cases b) (auto simp: lev_row_Nil lev_row_Cons)
  have cell: "min (min (lev xs (y # pre) + 1) (lev (x # xs) pre + 1)) (lev xs pre + edit_cost x y)
      = lev (x # xs) (y # pre)" by simp
  have "dp_cells x (y # b) (lev_row xs pre (y # b)) (lev (x # xs) pre)
      = lev (x # xs) (y # pre) # dp_cells x b (lev_row xs (y # pre) b) (lev (x # xs) (y # pre))"
    unfolding lev_row_Cons r by (simp only: dp_cells.simps Let_def cell)
  also have "\<dots> = tl (lev_row (x # xs) pre (y # b))"
    unfolding Cons.IH lev_row_Cons by (simp add: r')
  finally show ?case .
qed

lemma dp_row_lev: "dp_row x b (Suc (length xs)) (lev_row xs [] b) = lev_row (x # xs) [] b"
proof -
  have "lev (x # xs) [] = Suc (length xs)" by simp
  moreover obtain r where "lev_row (x # xs) [] b = lev (x # xs) [] # r"
    by (cases b) (auto simp: lev_row_Nil lev_row_Cons)
  ultimately show ?thesis
    using dp_cells_lev [of x b xs "[]"] by (simp add: dp_row_def)
qed

lemma dp_rows_lev: "dp_rows a b (length xs) (lev_row xs [] b) = lev_row (rev a @ xs) [] b"
proof (induction a arbitrary: xs)
  case (Cons x a)
  have "dp_rows (x # a) b (length xs) (lev_row xs [] b)
      = dp_rows a b (length (x # xs)) (lev_row (x # xs) [] b)"
    by (simp add: dp_row_lev)
  also have "\<dots> = lev_row (rev a @ x # xs) [] b" by (rule Cons.IH)
  finally show ?case by simp
qed simp

lemma edit_distance_lev: "edit_distance a b = lev (rev a) (rev b)"
proof -
  have "lev_row [] [] b = [0..<Suc (length b)]"
    unfolding lev_row_def by (rule map_idI) auto
  with dp_rows_lev [of a b "[]"] have "dp_rows a b 0 [0..<Suc (length b)] = lev_row (rev a) [] b" by simp
  then show ?thesis by (simp add: edit_distance_def lev_row_def)
qed

text \<open>The edit distance is the least cost of an edit script. The table that
  \<open>edit_distance\<close> fills computes, for any two file names, a number of insertions, deletions and
  substitutions (letters compared without case) that turns one into the other, and no script is
  cheaper.\<close>

theorem edit_distance_least:
  "edits a b (edit_distance a b) \<and> edit_distance a b = (LEAST n. edits a b n)"
proof -
  have "edits a b (edit_distance a b)"
    unfolding edit_distance_lev using edits_rev [OF edits_lev [of "rev a" "rev b"]] by simp
  moreover have "edit_distance a b \<le> n" if "edits a b n" for n
    unfolding edit_distance_lev using lev_least [OF edits_rev [OF that]] .
  ultimately show ?thesis by (metis Least_equality)
qed

section \<open>UTF-8\<close>

type_synonym byte8 = "8 word"

text \<open>The tests on \<open>(unsigned char)data[i]\<close>.\<close>

definition ascii :: "char \<Rightarrow> bool" where
  "ascii c \<longleftrightarrow> (of_char c :: byte8) AND 0x80 = 0"

definition lead2 :: "char \<Rightarrow> bool" where
  "lead2 c \<longleftrightarrow> (of_char c :: byte8) AND 0xE0 = 0xC0"

definition lead3 :: "char \<Rightarrow> bool" where
  "lead3 c \<longleftrightarrow> (of_char c :: byte8) AND 0xF0 = 0xE0"

definition lead4 :: "char \<Rightarrow> bool" where
  "lead4 c \<longleftrightarrow> (of_char c :: byte8) AND 0xF8 = 0xF0"

definition cont :: "char \<Rightarrow> bool" where
  "cont c \<longleftrightarrow> (of_char c :: byte8) AND 0xC0 = 0x80"

fun validate_utf8 :: "string \<Rightarrow> nat" where
  "validate_utf8 [] = 0"
| "validate_utf8 (b # r) =
     (if ascii b then validate_utf8 r
      else if lead2 b then
        (case r of
           c1 # r1 \<Rightarrow> if \<not> cont c1 then Suc (validate_utf8 r) else validate_utf8 r1
         | [] \<Rightarrow> Suc (validate_utf8 r))
      else if lead3 b then
        (case r of
           c1 # c2 # r2 \<Rightarrow> if \<not> cont c1 \<or> \<not> cont c2 then Suc (validate_utf8 r) else validate_utf8 r2
         | _ \<Rightarrow> Suc (validate_utf8 r))
      else if lead4 b then
        (case r of
           c1 # c2 # c3 # r3 \<Rightarrow>
             if \<not> cont c1 \<or> \<not> cont c2 \<or> \<not> cont c3 then Suc (validate_utf8 r) else validate_utf8 r3
         | _ \<Rightarrow> Suc (validate_utf8 r))
      else Suc (validate_utf8 r))"

definition replacement :: string where
  "replacement = [CHR 0xEF, CHR 0xBF, CHR 0xBD]"

text \<open>The repairing loop tests the lead byte and what follows together.\<close>

fun decode_utf8_with_replacement :: "string \<Rightarrow> string" where
  "decode_utf8_with_replacement [] = []"
| "decode_utf8_with_replacement (b # r) =
     (if ascii b then b # decode_utf8_with_replacement r
      else if lead2 b \<and> (case r of c1 # _ \<Rightarrow> cont c1 | _ \<Rightarrow> False)
      then b # take 1 r @ decode_utf8_with_replacement (drop 1 r)
      else if lead3 b \<and> (case r of c1 # c2 # _ \<Rightarrow> cont c1 \<and> cont c2 | _ \<Rightarrow> False)
      then b # take 2 r @ decode_utf8_with_replacement (drop 2 r)
      else if lead4 b \<and> (case r of c1 # c2 # c3 # _ \<Rightarrow> cont c1 \<and> cont c2 \<and> cont c3 | _ \<Rightarrow> False)
      then b # take 3 r @ decode_utf8_with_replacement (drop 3 r)
      else replacement @ decode_utf8_with_replacement r)"

lemma and_submask: "b AND m = x \<Longrightarrow> m AND n = n \<Longrightarrow> b AND n = x AND n" for b :: byte8
  by (metis and.assoc)

lemma lead_disjoint:
  "lead2 c \<Longrightarrow> \<not> lead3 c" "lead2 c \<Longrightarrow> \<not> lead4 c" "lead3 c \<Longrightarrow> \<not> lead4 c"
  "lead2 c \<Longrightarrow> \<not> ascii c" "lead3 c \<Longrightarrow> \<not> ascii c" "lead4 c \<Longrightarrow> \<not> ascii c"
  using and_submask [of "of_char c" "0xF0" "0xE0" "0xE0"] and_submask [of "of_char c" "0xF8" "0xF0" "0xE0"]
    and_submask [of "of_char c" "0xF8" "0xF0" "0xF0"] and_submask [of "of_char c" "0xE0" "0xC0" "0x80"]
    and_submask [of "of_char c" "0xF0" "0xE0" "0x80"] and_submask [of "of_char c" "0xF8" "0xF0" "0x80"]
  by (auto simp: lead2_def lead3_def lead4_def ascii_def)

lemma lead_disjoint_sym: "lead3 c \<Longrightarrow> \<not> lead2 c" "lead4 c \<Longrightarrow> \<not> lead2 c" "lead4 c \<Longrightarrow> \<not> lead3 c"
  using lead_disjoint by blast+

declare validate_utf8.simps(2) [simp del] decode_utf8_with_replacement.simps(2) [simp del]

lemma replacement_valid: "validate_utf8 (replacement @ s) = validate_utf8 s"
proof -
  have "lead3 CHR 0xEF" "\<not> lead2 CHR 0xEF" "\<not> ascii CHR 0xEF" "cont CHR 0xBF" "cont CHR 0xBD"
    by code_simp+
  then show ?thesis by (simp add: replacement_def validate_utf8.simps(2) [of "CHR 0xEF"])
qed

text \<open>A sequence at the front of the text that the checker accepts.\<close>

definition seq_ok :: "string \<Rightarrow> bool" where
  "seq_ok q \<longleftrightarrow> (case q of
      [b] \<Rightarrow> ascii b
    | [b, c1] \<Rightarrow> lead2 b \<and> cont c1
    | [b, c1, c2] \<Rightarrow> lead3 b \<and> cont c1 \<and> cont c2
    | [b, c1, c2, c3] \<Rightarrow> lead4 b \<and> cont c1 \<and> cont c2 \<and> cont c3
    | _ \<Rightarrow> False)"

lemma seq_ok_cases:
  assumes "seq_ok q"
  obtains b where "q = [b]" "ascii b"
  | b c1 where "q = [b, c1]" "lead2 b" "cont c1"
  | b c1 c2 where "q = [b, c1, c2]" "lead3 b" "cont c1" "cont c2"
  | b c1 c2 c3 where "q = [b, c1, c2, c3]" "lead4 b" "cont c1" "cont c2" "cont c3"
  using assms by (auto simp: seq_ok_def split: list.splits)

lemma validate_utf8_seq:
  "ascii b \<Longrightarrow> validate_utf8 (b # r) = validate_utf8 r"
  "\<not> ascii b \<Longrightarrow> lead2 b \<Longrightarrow> cont c1 \<Longrightarrow> validate_utf8 (b # c1 # r) = validate_utf8 r"
  "\<not> ascii b \<Longrightarrow> \<not> lead2 b \<Longrightarrow> lead3 b \<Longrightarrow> cont c1 \<Longrightarrow> cont c2 \<Longrightarrow>
     validate_utf8 (b # c1 # c2 # r) = validate_utf8 r"
  "\<not> ascii b \<Longrightarrow> \<not> lead2 b \<Longrightarrow> \<not> lead3 b \<Longrightarrow> lead4 b \<Longrightarrow> cont c1 \<Longrightarrow> cont c2 \<Longrightarrow> cont c3 \<Longrightarrow>
     validate_utf8 (b # c1 # c2 # c3 # r) = validate_utf8 r"
  by (simp_all add: validate_utf8.simps(2) [of b])

lemma decode_utf8_seq:
  "ascii b \<Longrightarrow> decode_utf8_with_replacement (b # r) = b # decode_utf8_with_replacement r"
  "\<not> ascii b \<Longrightarrow> lead2 b \<Longrightarrow> cont c1 \<Longrightarrow>
     decode_utf8_with_replacement (b # c1 # r) = b # c1 # decode_utf8_with_replacement r"
  "\<not> ascii b \<Longrightarrow> \<not> lead2 b \<Longrightarrow> lead3 b \<Longrightarrow> cont c1 \<Longrightarrow> cont c2 \<Longrightarrow>
     decode_utf8_with_replacement (b # c1 # c2 # r) = b # c1 # c2 # decode_utf8_with_replacement r"
  "\<not> ascii b \<Longrightarrow> \<not> lead2 b \<Longrightarrow> \<not> lead3 b \<Longrightarrow> lead4 b \<Longrightarrow> cont c1 \<Longrightarrow> cont c2 \<Longrightarrow> cont c3 \<Longrightarrow>
     decode_utf8_with_replacement (b # c1 # c2 # c3 # r) = b # c1 # c2 # c3 # decode_utf8_with_replacement r"
  by (simp_all add: decode_utf8_with_replacement.simps(2) [of b])

lemma seq_ok_steps:
  assumes "seq_ok q"
  shows "validate_utf8 (q @ s) = validate_utf8 s
     \<and> decode_utf8_with_replacement (q @ s) = q @ decode_utf8_with_replacement s"
  using assms
proof (cases rule: seq_ok_cases)
  case (1 b)
  then show ?thesis by (simp add: validate_utf8_seq(1) decode_utf8_seq(1))
next
  case (2 b c1)
  then show ?thesis using lead_disjoint(4) by (simp add: validate_utf8_seq(2) decode_utf8_seq(2))
next
  case (3 b c1 c2)
  then have "\<not> ascii b" "\<not> lead2 b" using lead_disjoint(5) lead_disjoint_sym(1) by auto
  with 3 show ?thesis by (simp add: validate_utf8_seq(3) decode_utf8_seq(3))
next
  case (4 b c1 c2 c3)
  then have "\<not> ascii b" "\<not> lead2 b" "\<not> lead3 b"
    using lead_disjoint(6) lead_disjoint_sym(2,3) by auto
  with 4 show ?thesis by (simp add: validate_utf8_seq(4) decode_utf8_seq(4))
qed

lemmas validate_seq = seq_ok_steps [THEN conjunct1]
lemmas decode_seq = seq_ok_steps [THEN conjunct2]

text \<open>Both loops see the same sequences: at each point the text starts with an accepted sequence,
  or its first byte is an error.\<close>

lemma utf8_step:
  assumes "s \<noteq> []"
  obtains (ok) q r where "s = q @ r" "seq_ok q"
  | (bad) b r where "s = b # r" "validate_utf8 s = Suc (validate_utf8 r)"
      "decode_utf8_with_replacement s = replacement @ decode_utf8_with_replacement r"
proof -
  obtain b r where s: "s = b # r" using assms by (cases s) auto
  show thesis
  proof (cases "\<exists>q t. s = q @ t \<and> seq_ok q")
    case True
    then show thesis using ok by blast
  next
    case False
    then have none: "\<not> seq_ok (take n s)" for n by (metis append_take_drop_id)
    have n1: "\<not> ascii b" using none [of 1] by (simp add: s seq_ok_def)
    have n2: "\<not> (lead2 b \<and> cont c1)" if "r = c1 # t" for c1 t
      using none [of 2] that by (simp add: s seq_ok_def)
    have n3: "\<not> (lead3 b \<and> cont c1 \<and> cont c2)" if "r = c1 # c2 # t" for c1 c2 t
      using none [of 3] that by (simp add: s seq_ok_def numeral_eq_Suc)
    have n4: "\<not> (lead4 b \<and> cont c1 \<and> cont c2 \<and> cont c3)" if "r = c1 # c2 # c3 # t" for c1 c2 c3 t
      using none [of 4] that by (simp add: s seq_ok_def numeral_eq_Suc)
    have "validate_utf8 s = Suc (validate_utf8 r)"
      unfolding s validate_utf8.simps(2) using n1 n2 n3 n4 by (auto split: list.split)
    moreover have "decode_utf8_with_replacement s = replacement @ decode_utf8_with_replacement r"
    proof -
      have m2: "(lead2 b \<and> (case r of c1 # _ \<Rightarrow> cont c1 | _ \<Rightarrow> False)) = False"
        using n2 by (simp split: list.split)
      have m3: "(lead3 b \<and> (case r of c1 # c2 # _ \<Rightarrow> cont c1 \<and> cont c2 | _ \<Rightarrow> False)) = False"
        using n3 by (simp split: list.split)
      have m4: "(lead4 b \<and> (case r of c1 # c2 # c3 # _ \<Rightarrow> cont c1 \<and> cont c2 \<and> cont c3 | _ \<Rightarrow> False)) = False"
        using n4 by (simp split: list.split)
      show ?thesis
        unfolding s decode_utf8_with_replacement.simps(2) m2 m3 m4 using n1 by simp
    qed
    ultimately show thesis using bad [OF s] by blast
  qed
qed

lemma utf8_induct [case_names Nil ok bad]:
  assumes "P []"
    and "\<And>q r. seq_ok q \<Longrightarrow> P r \<Longrightarrow> P (q @ r)"
    and "\<And>b r. validate_utf8 (b # r) = Suc (validate_utf8 r) \<Longrightarrow>
      decode_utf8_with_replacement (b # r) = replacement @ decode_utf8_with_replacement r \<Longrightarrow> P r \<Longrightarrow> P (b # r)"
  shows "P s"
proof (induction s rule: length_induct)
  case (1 s)
  show ?case
  proof (cases "s = []")
    case False
    then show ?thesis
    proof (cases rule: utf8_step)
      case (ok q r)
      then have "q \<noteq> []" by (auto simp: seq_ok_def)
      with ok 1 show ?thesis using assms(2) by simp
    next
      case (bad b r)
      with 1 show ?thesis using assms(3) [of b r] by simp
    qed
  qed (use assms(1) in simp)
qed

text \<open>Repaired text is valid and valid text is left alone. What the repairer returns passes the
  checker, a text without errors comes back unchanged, repairing twice changes nothing more, and each
  error costs exactly two bytes, so that the error count reported to the caller is the number of
  replacement characters put in.\<close>

theorem utf8_repair_correct:
  "validate_utf8 (decode_utf8_with_replacement s) = 0
   \<and> (validate_utf8 s = 0 \<longrightarrow> decode_utf8_with_replacement s = s)
   \<and> decode_utf8_with_replacement (decode_utf8_with_replacement s) = decode_utf8_with_replacement s
   \<and> length (decode_utf8_with_replacement s) = length s + 2 * validate_utf8 s"
proof -
  have same: "validate_utf8 t = 0 \<Longrightarrow> decode_utf8_with_replacement t = t" for t
    by (induction t rule: utf8_induct) (auto simp: decode_seq validate_seq)
  moreover have valid: "validate_utf8 (decode_utf8_with_replacement s) = 0"
    by (induction s rule: utf8_induct)
      (auto simp: decode_seq validate_seq replacement_valid)
  moreover have "length (decode_utf8_with_replacement s) = length s + 2 * validate_utf8 s"
    by (induction s rule: utf8_induct)
      (auto simp: decode_seq validate_seq replacement_def)
  ultimately show ?thesis by blast
qed

lemma utf8_repair_correct_witness:
  "decode_utf8_with_replacement [CHR 0xC3, CHR 0xA9] = [CHR 0xC3, CHR 0xA9]"
proof -
  have "validate_utf8 [CHR 0xC3, CHR 0xA9] = 0" by code_simp
  then show ?thesis using utf8_repair_correct [of "[CHR 0xC3, CHR 0xA9]"] by blast
qed

section \<open>The binary test and the context of a patch\<close>

definition is_likely_binary :: "string \<Rightarrow> bool" where
  "is_likely_binary data =
     (let sample = take 8192 data
      in data \<noteq> [] \<and> length (filter (\<lambda>c. c = CHR 0x00) sample) * 100 > length sample * 2)"

record patch_context =
  pc_before :: string
  pc_match :: string
  pc_after :: string

definition extract_patch_context :: "string \<Rightarrow> nat \<Rightarrow> nat \<Rightarrow> patch_context" where
  "extract_patch_context content pos match_len =
     (let before_start = (if pos > 150 then pos - 150 else 0);
          before = take (pos - before_start) (drop before_start content);
          after_end = min (pos + match_len + 150) (length content);
          after = take (after_end - pos - match_len) (drop (pos + match_len) content)
      in \<lparr>pc_before = (case str_rfind before [newline] of
                         Some i \<Rightarrow> if i > 0 then drop (i + 1) before else before
                       | None \<Rightarrow> before),
          pc_match = take match_len (drop pos content),
          pc_after = (case str_find after [newline] 0 of Some i \<Rightarrow> take i after | None \<Rightarrow> after)\<rparr>)"

section \<open>Path normalisation\<close>

definition quote_char :: "char \<Rightarrow> bool" where
  "quote_char c \<longleftrightarrow> c = CHR '' '' \<or> c = CHR 0x27 \<or> c = CHR 0x22"

definition trim_quotes :: "string \<Rightarrow> string" where
  "trim_quotes s = rev (dropWhile quote_char (rev (dropWhile quote_char s)))"

definition slashes :: "string \<Rightarrow> string" where
  "slashes s = map (\<lambda>c. if c = CHR 0x5C then CHR ''/'' else c) s"

definition expand_home :: "(string \<Rightarrow> string option) \<Rightarrow> string \<Rightarrow> string" where
  "expand_home getenv s =
     (case s of
        c # cs \<Rightarrow> if c = CHR ''~'' then (case getenv ''HOME'' of Some home \<Rightarrow> home @ cs | None \<Rightarrow> s) else s
      | [] \<Rightarrow> s)"

definition var_char :: "char \<Rightarrow> bool" where
  "var_char c \<longleftrightarrow> isalnum c \<or> c = CHR ''_''"

lemma length_tl_dropWhile: "length (tl (dropWhile P xs)) \<le> length xs" "length (dropWhile P (tl xs)) \<le> length xs"
  "length (tl (dropWhile P (tl xs))) \<le> length xs"
  using length_dropWhile_le [of P xs] length_dropWhile_le [of P "tl xs"] by auto

text \<open>The expansion of variables. An unknown variable is copied; with a brace, one character more
  than the name is copied, whatever it is.\<close>

function expand_vars :: "(string \<Rightarrow> string option) \<Rightarrow> string \<Rightarrow> string" where
  "expand_vars getenv [] = []"
| "expand_vars getenv (c # cs) =
     (if c \<noteq> CHR ''$'' then c # expand_vars getenv cs
      else
        let braced = (cs \<noteq> [] \<and> hd cs = CHR ''{'');
            body = (if braced then tl cs else cs);
            name = takeWhile var_char body;
            tail = dropWhile var_char body;
            val = (case getenv name of
                     Some v \<Rightarrow> v
                   | None \<Rightarrow> [CHR ''$''] @ (if braced then ''{'' else []) @ name @ (if braced then take 1 tail else []));
            rest = (if braced \<and> tail \<noteq> [] \<and> hd tail = CHR ''}'' then tl tail else tail)
        in val @ expand_vars getenv rest)"
  by pat_completeness auto

termination
  by (relation "measure (\<lambda>(g, s). length s)")
    (auto simp: less_Suc_eq_le length_dropWhile_le length_tl_dropWhile intro: le_trans [OF diff_le_self])

declare expand_vars.simps(2) [simp del]

text \<open>\<open>lexically_normal\<close> of an absolute path given by what follows its root. A last empty component
  is a trailing separator.\<close>

fun path_components :: "string \<Rightarrow> string \<Rightarrow> string list" where
  "path_components [] cur = [cur]"
| "path_components (c # cs) cur =
     (if c = CHR ''/'' then cur # path_components cs [] else path_components cs (cur @ [c]))"

fun normal_components :: "string list \<Rightarrow> string list \<Rightarrow> string list" where
  "normal_components [] acc = rev acc"
| "normal_components [p] acc =
     (if p = [] \<or> p = ''.'' then rev acc @ [[]]
      else if p = ''..'' then rev (tl acc) @ [[]]
      else rev (p # acc))"
| "normal_components (p # q # ps) acc =
     (if p = [] \<or> p = ''.'' then normal_components (q # ps) acc
      else if p = ''..'' then normal_components (q # ps) (tl acc)
      else normal_components (q # ps) (p # acc))"

text \<open>\<open>cwd\<close> is the absolute path that \<open>fs::absolute\<close>, which is taken to succeed, puts in
  front of a relative path. \<open>canonical\<close> is the strict mode: the empty path when it fails.\<close>

definition absolute_path :: "string \<Rightarrow> string \<Rightarrow> string" where
  "absolute_path cwd s = (if s \<noteq> [] \<and> hd s = CHR ''/'' then s else cwd @ ''/'' @ s)"

definition normalise_path ::
    "(string \<Rightarrow> string option) \<Rightarrow> string \<Rightarrow> (string list \<Rightarrow> string list option) \<Rightarrow> string \<Rightarrow> bool \<Rightarrow> string list" where
  "normalise_path getenv cwd canonical raw strict_symlinks =
     (if raw = [] then []
      else
        let s = expand_vars getenv (expand_home getenv (slashes (trim_quotes raw)));
            p = normal_components (path_components (tl (absolute_path cwd s)) []) []
        in if strict_symlinks then (case canonical p of Some q \<Rightarrow> q | None \<Rightarrow> []) else p)"

definition path_string :: "string list \<Rightarrow> string" where
  "path_string p = (if p = [] then [] else concat (map (\<lambda>c. CHR ''/'' # c) p))"

text \<open>No component but the last is empty, and none is a dot entry.\<close>

definition dot_free :: "string list \<Rightarrow> bool" where
  "dot_free p \<longleftrightarrow> list_all (\<lambda>c. c \<noteq> [] \<and> c \<noteq> ''.'' \<and> c \<noteq> ''..'') (butlast p)
     \<and> (p \<noteq> [] \<longrightarrow> last p \<noteq> ''.'' \<and> last p \<noteq> ''..'')"

definition plain :: "string \<Rightarrow> bool" where
  "plain c \<longleftrightarrow> c \<noteq> [] \<and> c \<noteq> ''.'' \<and> c \<noteq> ''..''"

lemma list_all_tl: "list_all P xs \<Longrightarrow> list_all P (tl xs)"
  by (cases xs) auto

lemma list_all_rev: "list_all P (rev xs) = list_all P xs"
  by (simp add: list_all_iff)

lemma dot_free_plain: "list_all plain xs \<Longrightarrow> dot_free xs"
  by (auto simp: dot_free_def plain_def list_all_iff dest: in_set_butlastD)

lemma dot_free_trailing: "list_all plain xs \<Longrightarrow> dot_free (xs @ [[]])"
  by (auto simp: dot_free_def plain_def list_all_iff)

lemma normal_components_dot_free: "list_all plain acc \<Longrightarrow> dot_free (normal_components ps acc)"
proof (induction ps acc rule: normal_components.induct)
  case (2 p xs)
  have "list_all plain (rev (tl xs))" "list_all plain (rev xs)"
    using 2 by (auto simp: list_all_iff dest: list.set_sel(2) [rotated])
      (metis list.sel(2) list.set_sel(2))+
  moreover have "list_all plain (rev (p # xs))" if "p \<noteq> []" "p \<noteq> ''.''" "p \<noteq> ''..''"
    using 2 that by (simp add: list_all_iff plain_def)
  ultimately show ?case by (auto simp: dot_free_trailing dot_free_plain simp del: rev.simps)
qed (auto simp: dot_free_plain plain_def list_all_tl list_all_rev)

lemma path_components_nonempty [simp]: "path_components s cur \<noteq> []"
  by (induction s arbitrary: cur) auto

lemma normal_components_id:
  "list_all plain acc \<Longrightarrow> dot_free ps \<Longrightarrow> ps \<noteq> [] \<Longrightarrow> normal_components ps acc = rev acc @ ps"
  by (induction ps acc rule: normal_components.induct) (auto simp: dot_free_def plain_def)

text \<open>A normalised path is normal. For any text from the caller, environment and working
  directory, the lexical normal form has no dot entries and no empty component but a last one for a
  trailing separator, whatever the expansion produced, and normalising its components again changes
  nothing.\<close>

theorem normalised_path_normal:
  assumes "raw \<noteq> []" and "p = normalise_path getenv cwd canonical raw False"
  shows "dot_free p \<and> (p \<noteq> [] \<longrightarrow> normal_components p [] = p)"
proof -
  have "dot_free p"
    using assms by (simp add: normalise_path_def Let_def normal_components_dot_free)
  then show ?thesis using normal_components_id [of "[]" p] by simp
qed

lemma normalised_path_normal_witness:
  "dot_free (normalise_path (\<lambda>_. None) ''/w'' (\<lambda>_. None) ''~/a/../b//./c/'' False)"
  using normalised_path_normal [of "''~/a/../b//./c/''" _ "\<lambda>_. None" "''/w''" "\<lambda>_. None", OF _ refl] by simp

text \<open>An unknown variable in braces with another character than the closing brace after its name:
  that character is copied twice.\<close>

lemma expand_vars_duplicates: "expand_vars (\<lambda>_. None) ''a/${x-y}'' = ''a/${x--y}''"
  by code_simp

text \<open>In strict mode a path that cannot be resolved becomes the empty path.\<close>

lemma strict_failure_loses_path: "normalise_path getenv cwd (\<lambda>_. None) raw True = []"
  by (simp add: normalise_path_def Let_def)

end
