(* ===== verification/File_Tools.thy ===== *)
theory File_Tools
  imports File_Text
begin

text \<open>
  \<^verbatim>\<open>utils/file_tools.cpp\<close> over a file system in which a name leads to an inode, as far as the code
  can tell the two apart: reading by pages, the atomic write through a temporary file and
  \<open>rename\<close>, the locked append and the patch. Pages put together are the text, what was written is
  read back, a patch replaces exactly the one occurrence; and the lock, which is taken on the inode
  that the rename replaces, does not exclude two patches of one file.
\<close>

section \<open>Files\<close>

text \<open>A path is a list of components, a last empty one being a trailing separator; the empty list is
  the empty path.\<close>

type_synonym fpath = "string list"

record tfs =
  tf_dirs :: "fpath list"
  tf_names :: "(fpath, nat) table"
  tf_data :: "(nat, string) table"
  tf_next :: nat
  tf_denied :: "fpath list"

record ft_env =
  fe_getenv :: "string \<Rightarrow> string option"
  fe_cwd :: string
  fe_canonical :: "fpath \<Rightarrow> fpath option"
  fe_os_error :: string

definition trailing :: "fpath \<Rightarrow> bool" where
  "trailing p \<longleftrightarrow> p \<noteq> [] \<and> last p = []"

definition tf_is_dir :: "tfs \<Rightarrow> fpath \<Rightarrow> bool" where
  "tf_is_dir fs p \<longleftrightarrow> p \<noteq> [] \<and> (if trailing p then butlast p else p) \<in> set (tf_dirs fs)"

definition tf_inode :: "tfs \<Rightarrow> fpath \<Rightarrow> nat option" where
  "tf_inode fs p = (if p = [] \<or> trailing p then None else tget (tf_names fs) p)"

definition tf_text :: "tfs \<Rightarrow> fpath \<Rightarrow> string option" where
  "tf_text fs p = (case tf_inode fs p of None \<Rightarrow> None | Some i \<Rightarrow> tget (tf_data fs) i)"

definition tf_exists :: "tfs \<Rightarrow> fpath \<Rightarrow> bool" where
  "tf_exists fs p \<longleftrightarrow> tf_is_dir fs p \<or> tf_inode fs p \<noteq> None"

definition tf_create_directories :: "fpath \<Rightarrow> tfs \<Rightarrow> tfs option" where
  "tf_create_directories p fs =
     (if \<exists>q\<in>set (prefixes p). tget (tf_names fs) q \<noteq> None then None
      else Some (fs\<lparr>tf_dirs := fold uinsert (prefixes p) (tf_dirs fs)\<rparr>))"

text \<open>Opening for writing: the inode of the name, or a new one.\<close>

definition tf_open_create :: "fpath \<Rightarrow> tfs \<Rightarrow> (nat \<times> tfs) option" where
  "tf_open_create p fs =
     (if p = [] \<or> tf_is_dir fs p \<or> trailing p \<or> p \<in> set (tf_denied fs) \<or> \<not> butlast p \<in> set (tf_dirs fs) then None
      else case tget (tf_names fs) p of
             Some i \<Rightarrow> Some (i, fs)
           | None \<Rightarrow> Some (tf_next fs,
               fs\<lparr>tf_names := tput p (tf_next fs) (tf_names fs),
                  tf_data := tput (tf_next fs) [] (tf_data fs), tf_next := Suc (tf_next fs)\<rparr>))"

section \<open>Suggestions\<close>

record fuzzy_match =
  fm_path :: fpath
  fm_score :: rat

definition dir_entries :: "tfs \<Rightarrow> fpath \<Rightarrow> fpath list" where
  "dir_entries fs d = filter (\<lambda>q. q \<noteq> [] \<and> butlast q = d) (tf_dirs fs @ tkeys (tf_names fs))"

definition files_below :: "tfs \<Rightarrow> fpath \<Rightarrow> fpath list" where
  "files_below fs d = filter (\<lambda>q. strict_prefix d q) (tkeys (tf_names fs))"

definition scored :: "string \<Rightarrow> rat \<Rightarrow> fpath list \<Rightarrow> fuzzy_match list" where
  "scored target_name limit ps =
     filter (\<lambda>m. fm_score m > limit)
       (map (\<lambda>p. \<lparr>fm_path = p, fm_score = filename_score (last p) target_name\<rparr>) ps)"

fun unique_adjacent :: "fuzzy_match list \<Rightarrow> fuzzy_match list" where
  "unique_adjacent (a # b # ms) =
     (if fm_path a = fm_path b then unique_adjacent (a # ms) else a # unique_adjacent (b # ms))"
| "unique_adjacent ms = ms"

definition find_closest_paths :: "tfs \<Rightarrow> fpath \<Rightarrow> nat \<Rightarrow> fuzzy_match list" where
  "find_closest_paths fs target max_results =
     (let target_name = (if target = [] then [] else last target);
          search_dir = butlast target;
          r1 = scored target_name (4 / 10) (dir_entries fs search_dir);
          r2 = (if length r1 < 3 then scored target_name (55 / 100) (files_below fs (butlast search_dir)) else [])
      in take max_results (unique_adjacent (sort_key (\<lambda>m. - fm_score m) (r1 @ r2))))"

definition not_found_error :: "tfs \<Rightarrow> string \<Rightarrow> fpath \<Rightarrow> json" where
  "not_found_error fs msg target =
     (let matches = find_closest_paths fs target 5;
          candidates = map (\<lambda>m. JString (path_string (fm_path m))) matches
      in jobj ([(''status'', JString ''error''), (''error'', JString msg)]
           @ (case candidates of
                [] \<Rightarrow> []
              | c # cs \<Rightarrow> [(''suggestion'', c), (''candidates'', JArray candidates)])))"

section \<open>Reading\<close>

record read_options =
  ro_offset_line :: int
  ro_max_lines :: int
  ro_max_bytes :: nat
  ro_resolve_symlinks :: bool

abbreviation ft_error :: "string \<Rightarrow> json" where
  "ft_error msg \<equiv> jobj [(''status'', JString ''error''), (''error'', JString msg)]"

text \<open>\<open>read_bounded\<close> and \<open>read_all\<close>: the text and whether it was cut.\<close>

definition read_bounded :: "nat \<Rightarrow> string \<Rightarrow> string \<times> bool" where
  "read_bounded max_bytes txt =
     (if max_bytes > 0 \<and> length txt > max_bytes then (take max_bytes txt, True) else (txt, False))"

text \<open>A cut inside a line drops the broken line, when there is a complete one before it.\<close>

definition drop_partial_line :: "bool \<Rightarrow> string \<Rightarrow> string \<times> bool" where
  "drop_partial_line too_large raw =
     (if too_large \<and> raw \<noteq> [] \<and> last raw \<noteq> newline
      then ((case str_rfind raw [newline] of Some i \<Rightarrow> take (i + 1) raw | None \<Rightarrow> raw), True)
      else (raw, False))"

text \<open>The last line of the window; \<open>None\<close> is the overflow of \<open>start + max_lines - 1\<close>.\<close>

definition window_end :: "int \<Rightarrow> int \<Rightarrow> int \<Rightarrow> int option" where
  "window_end start max_lines total_lines =
     (if max_lines > 0
      then (if start + max_lines > INT_MAX then None else Some (min (start + max_lines - 1) total_lines))
      else Some total_lines)"

definition window_text :: "string list \<Rightarrow> int \<Rightarrow> int \<Rightarrow> string" where
  "window_text all_lines start end_line =
     concat (map (\<lambda>l. l @ [newline]) (take (nat (end_line - start + 1)) (drop (nat (start - 1)) all_lines)))"

text \<open>The answer for a text that was read; \<open>None\<close> is undefined.\<close>

definition read_answer :: "read_options \<Rightarrow> string \<Rightarrow> int \<Rightarrow> string \<Rightarrow> bool \<Rightarrow> json option" where
  "read_answer opts path total_bytes raw too_large =
     (if is_likely_binary raw
      then Some (jobj [(''status'', JString ''error''),
             (''error'', JString ''File appears to be binary (contains null bytes). Cannot read as text.''),
             (''path'', JString path), (''total_bytes'', JInt total_bytes), (''is_binary'', JBool True)])
      else
        let (cut, truncated_mid_line) = drop_partial_line too_large raw;
            utf8_errors = validate_utf8 cut;
            txt = (if utf8_errors > 0 then decode_utf8_with_replacement cut else cut);
            all_lines = split txt newline;
            total_lines = int (length all_lines);
            start = max 1 (ro_offset_line opts)
        in if start > total_lines
           then Some (jobj [(''status'', JString ''error''),
                  (''error'', JString (''offset_line ('' @ to_string_int start @ '') exceeds total lines (''
                     @ to_string_int total_lines @ '')'')),
                  (''total_lines'', JInt total_lines), (''total_bytes'', JInt total_bytes)])
           else case window_end start (ro_max_lines opts) total_lines of
                  None \<Rightarrow> None
                | Some end_line \<Rightarrow>
                    (let truncated = (too_large \<or> end_line < total_lines)
                     in Some (jobj (
                          [(''status'', JString ''ok''), (''path'', JString path),
                           (''content'', JString (window_text all_lines start end_line)),
                           (''total_lines'', JInt total_lines), (''lines_read'', JInt (end_line - start + 1)),
                           (''start_line'', JInt start), (''end_line'', JInt end_line),
                           (''truncated'', JBool truncated), (''total_bytes'', JInt total_bytes)]
                          @ (if truncated_mid_line then [(''truncated_mid_line'', JBool True)] else [])
                          @ (if utf8_errors > 0
                             then [(''invalid_utf8'', JBool True), (''utf8_errors'', JInt (int utf8_errors))] else [])
                          @ (if truncated \<and> end_line < total_lines
                             then [(''next_offset_line'', JInt (end_line + 1)),
                                   (''remaining_lines'', JInt (total_lines - end_line))] else [])))))"

definition read_file :: "ft_env \<Rightarrow> read_options \<Rightarrow> string \<Rightarrow> tfs \<Rightarrow> json option" where
  "read_file env opts raw_path fs =
     (if raw_path = [] then Some (ft_error ''path is empty'')
      else
        let p = normalise_path (fe_getenv env) (fe_cwd env) (fe_canonical env) raw_path (ro_resolve_symlinks opts)
        in if \<not> tf_exists fs p then Some (not_found_error fs (''File not found: '' @ path_string p) p)
           else case tf_text fs p of
                  None \<Rightarrow> Some (ft_error (''Path exists but is not a regular file: '' @ path_string p))
                | Some contents \<Rightarrow>
                    if p \<in> set (tf_denied fs)
                    then Some (ft_error (''Failed to read file (permissions?): '' @ path_string p))
                    else (case read_bounded (ro_max_bytes opts) contents of (raw, too_large) \<Rightarrow>
                            read_answer opts (path_string p) (int (length contents)) raw too_large))"

section \<open>Writing\<close>

definition tmp_path :: "fpath \<Rightarrow> fpath" where
  "tmp_path dest = butlast dest @ [last dest @ ''.tmp'']"

text \<open>\<open>atomic_write\<close>: an error text or success. \<open>rename\<close> gives the name the inode of the temporary
  file; the old inode stays with whoever has it open.\<close>

definition atomic_write :: "ft_env \<Rightarrow> fpath \<Rightarrow> string \<Rightarrow> tfs \<Rightarrow> string option \<times> tfs" where
  "atomic_write env dest content fs =
     (case tf_create_directories (butlast dest) fs of
        None \<Rightarrow> (Some (''Cannot create directories: '' @ fe_os_error env), fs)
      | Some fs1 \<Rightarrow>
          (case tf_open_create (tmp_path dest) fs1 of
             None \<Rightarrow> (Some (''Cannot open temp file for writing: '' @ path_string (tmp_path dest)), fs1)
           | Some (i, fs2) \<Rightarrow>
               (let fs3 = fs2\<lparr>tf_data := tput i content (tf_data fs2)\<rparr>
                in if tf_is_dir fs3 dest \<or> trailing dest
                   then (Some (''Atomic rename failed: '' @ fe_os_error env),
                         fs3\<lparr>tf_names := tdel (tmp_path dest) (tf_names fs3)\<rparr>)
                   else (None, fs3\<lparr>tf_names := tput dest i (tdel (tmp_path dest) (tf_names fs3))\<rparr>))))"

definition ft_path :: "ft_env \<Rightarrow> string \<Rightarrow> fpath" where
  "ft_path env raw_path = normalise_path (fe_getenv env) (fe_cwd env) (fe_canonical env) raw_path False"

definition ft_write_file :: "ft_env \<Rightarrow> string \<Rightarrow> string \<Rightarrow> tfs \<Rightarrow> json \<times> tfs" where
  "ft_write_file env raw_path content fs =
     (if raw_path = [] then (ft_error ''path is empty'', fs)
      else case atomic_write env (ft_path env raw_path) content fs of
             (Some err, fs') \<Rightarrow> (ft_error err, fs')
           | (None, fs') \<Rightarrow>
               (jobj [(''status'', JString ''ok''), (''path'', JString (path_string (ft_path env raw_path))),
                      (''bytes_written'', JInt (int (length content)))], fs'))"

text \<open>\<open>FileLock\<close>: \<open>acquire\<close> polls \<open>flock\<close>. An attempt is what \<open>flock\<close> returns and the clock read
  after it; \<open>None\<close> is a call that is still polling when the attempts end.\<close>

datatype flock_rc = Flock_Locked | Flock_Would_Block | Flock_Failed

fun acquire_until :: "int \<Rightarrow> (flock_rc \<times> int) list \<Rightarrow> bool option" where
  "acquire_until deadline [] = None"
| "acquire_until deadline ((rc, now) # attempts) =
     (if rc = Flock_Locked then Some True
      else if rc = Flock_Failed then Some False
      else if now \<ge> deadline then Some False
      else acquire_until deadline attempts)"

definition acquire :: "int \<Rightarrow> int \<Rightarrow> (flock_rc \<times> int) list \<Rightarrow> bool option" where
  "acquire called_at timeout_ms attempts = acquire_until (called_at + timeout_ms) attempts"

text \<open>A call returns at the latest with the first attempt after the deadline, and true only when
  \<open>flock\<close> granted the lock.\<close>

lemma acquire_returns:
  "\<exists>(rc, now)\<in>set attempts. now \<ge> called_at + timeout_ms \<Longrightarrow> \<exists>b. acquire called_at timeout_ms attempts = Some b"
  unfolding acquire_def by (induction "called_at + timeout_ms" attempts rule: acquire_until.induct) auto

lemma acquire_granted: "acquire called_at timeout_ms attempts = Some True \<Longrightarrow> Flock_Locked \<in> fst ` set attempts"
  unfolding acquire_def
  by (induction "called_at + timeout_ms" attempts rule: acquire_until.induct) (auto split: if_splits)

definition DEFAULT_MAX_APPEND_SIZE :: nat where
  "DEFAULT_MAX_APPEND_SIZE = 10 * 1024 * 1024"

definition lock_busy :: "string \<Rightarrow> int \<Rightarrow> json" where
  "lock_busy verb lock_timeout_ms =
     jobj [(''status'', JString ''error''),
       (''error'', JString (''Could not acquire file lock within '' @ to_string_int lock_timeout_ms
          @ ''ms '' @ map char_of [226, 128, 148 :: nat] @ '' another agent may be '' @ verb @ '' this file.'')),
       (''retryable'', JBool True), (''retry_after_ms'', JInt (lock_timeout_ms div 2))]"

text \<open>\<open>append_file\<close>: \<open>locked\<close> is the outcome of the lock, \<open>written\<close> what \<open>write\<close> returns (negative on
  an error, else the number of bytes it took).\<close>

definition append_file :: "ft_env \<Rightarrow> bool \<Rightarrow> int \<Rightarrow> string \<Rightarrow> string \<Rightarrow> int \<Rightarrow> tfs \<Rightarrow> json \<times> tfs" where
  "append_file env locked written raw_path content lock_timeout_ms fs =
     (if raw_path = [] then (ft_error ''path is empty'', fs)
      else if length content > DEFAULT_MAX_APPEND_SIZE
      then (jobj [(''status'', JString ''error''),
              (''error'', JString (''Append size ('' @ nat_digits (length content) @ '' bytes) exceeds limit (''
                 @ nat_digits DEFAULT_MAX_APPEND_SIZE @ '' bytes). Maximum append size is 10 MiB.'')),
              (''requested_size'', JInt (int (length content))),
              (''max_allowed'', JInt (int DEFAULT_MAX_APPEND_SIZE))], fs)
      else
        let p = ft_path env raw_path
        in case tf_create_directories (butlast p) fs of
             None \<Rightarrow> (ft_error (''Cannot create directories: '' @ fe_os_error env), fs)
           | Some fs1 \<Rightarrow>
               (case tf_open_create p fs1 of
                  None \<Rightarrow> (ft_error (''Cannot open file for appending: '' @ fe_os_error env), fs1)
                | Some (i, fs2) \<Rightarrow>
                    if \<not> locked then (lock_busy ''writing'' lock_timeout_ms, fs2)
                    else if written < 0
                    then (ft_error (''Write failed during append: '' @ fe_os_error env), fs2)
                    else
                      let old = (case tget (tf_data fs2) i of Some t \<Rightarrow> t | None \<Rightarrow> []);
                          txt = old @ take (nat written) content
                      in (jobj [(''status'', JString ''ok''), (''path'', JString (path_string p)),
                            (''bytes_appended'', JInt written), (''file_size_after'', JInt (int (length txt)))],
                          fs2\<lparr>tf_data := tput i txt (tf_data fs2)\<rparr>)))"

section \<open>Patching\<close>

text \<open>The search and the replacement on the text of the file.\<close>

datatype patch_result = Patch_Missing | Patch_Ambiguous | Patched nat string

definition patch_text :: "string \<Rightarrow> string \<Rightarrow> string \<Rightarrow> patch_result" where
  "patch_text old_text new_text content =
     (case str_find content old_text 0 of
        None \<Rightarrow> Patch_Missing
      | Some pos \<Rightarrow>
          (case str_find content old_text (pos + 1) of
             Some _ \<Rightarrow> Patch_Ambiguous
           | None \<Rightarrow> Patched pos (take pos content @ new_text @ drop (pos + length old_text) content)))"

definition patch_file :: "ft_env \<Rightarrow> bool \<Rightarrow> string \<Rightarrow> string \<Rightarrow> string \<Rightarrow> int \<Rightarrow> tfs \<Rightarrow> json \<times> tfs" where
  "patch_file env locked raw_path old_text new_text lock_timeout_ms fs =
     (if raw_path = [] then (ft_error ''path is empty'', fs)
      else if old_text = []
      then (ft_error (''old_text is empty '' @ map char_of [226, 128, 148 :: nat] @ '' nothing to replace''), fs)
      else
        let p = ft_path env raw_path
        in if \<not> tf_exists fs p then (not_found_error fs (''File not found: '' @ path_string p) p, fs)
           else case tf_text fs p of
                  None \<Rightarrow> (ft_error (''Path is not a regular file: '' @ path_string p), fs)
                | Some content \<Rightarrow>
                    if p \<in> set (tf_denied fs)
                    then (ft_error (''Cannot open file for patching: '' @ fe_os_error env), fs)
                    else if \<not> locked then (lock_busy ''patching'' lock_timeout_ms, fs)
                    else case patch_text old_text new_text content of
                           Patch_Missing \<Rightarrow>
                             (jobj [(''status'', JString ''error''),
                                (''error'', JString (''old_text not found in file. ''
                                   @ ''Ensure the text matches exactly (whitespace, line endings).'')),
                                (''file_preview'', JString (take 200 content)),
                                (''path'', JString (path_string p))], fs)
                         | Patch_Ambiguous \<Rightarrow>
                             (ft_error (''old_text appears more than once in the file. ''
                                @ ''Add more surrounding context to make the match unique.''), fs)
                         | Patched pos patched \<Rightarrow>
                             (case atomic_write env p patched fs of
                                (Some err, fs') \<Rightarrow> (ft_error (''Patch applied but write failed: '' @ err), fs')
                              | (None, fs') \<Rightarrow>
                                  (let ctx = extract_patch_context content pos (length old_text)
                                   in (jobj [(''status'', JString ''ok''), (''path'', JString (path_string p)),
                                         (''occurrences_replaced'', JInt 1),
                                         (''bytes_before'', JInt (int (length content))),
                                         (''bytes_after'', JInt (int (length patched))),
                                         (''context'', jobj [(''before'', JString (pc_before ctx)),
                                            (''match'', JString (pc_match ctx)),
                                            (''after'', JString (pc_after ctx))])], fs'))))"

section \<open>Pages\<close>

text \<open>The text as the pages give it: every line closed by a line break.\<close>

definition closed_text :: "string \<Rightarrow> string" where
  "closed_text s = (if s = [] \<or> last s = newline then s else s @ [newline])"

lemma concat_split_on:
  "concat (map (\<lambda>l. l @ [newline]) (split_on newline s cur))
     = cur @ s @ (if s \<noteq> [] \<and> last s = newline then [] else [newline])"
  by (induction newline s cur rule: split_on.induct) auto

lemma concat_split: "concat (map (\<lambda>l. l @ [newline]) (split s newline)) = closed_text s"
  using concat_split_on [of s "[]"] by (auto simp: split_def closed_text_def)

text \<open>A reader that starts at a line and follows \<open>next_offset_line\<close>, for at most so many pages.\<close>

fun read_on :: "nat \<Rightarrow> (int \<Rightarrow> json option) \<Rightarrow> int \<Rightarrow> string option" where
  "read_on 0 rd off = None"
| "read_on (Suc n) rd off =
     (case rd off of
        None \<Rightarrow> None
      | Some j \<Rightarrow>
          (case jget j ''content'' of
             Some (JString t) \<Rightarrow>
               (case jget j ''next_offset_line'' of
                  Some (JInt k) \<Rightarrow> map_option ((@) t) (read_on n rd k)
                | _ \<Rightarrow> Some t)
           | _ \<Rightarrow> None))"

text \<open>A regular file that is text and fits the limit on bytes.\<close>

definition readable_text :: "ft_env \<Rightarrow> read_options \<Rightarrow> string \<Rightarrow> tfs \<Rightarrow> string \<Rightarrow> bool" where
  "readable_text env opts raw_path fs contents \<longleftrightarrow>
     (let p = normalise_path (fe_getenv env) (fe_cwd env) (fe_canonical env) raw_path (ro_resolve_symlinks opts)
      in raw_path \<noteq> [] \<and> tf_text fs p = Some contents \<and> p \<notin> set (tf_denied fs)
         \<and> \<not> is_likely_binary contents \<and> validate_utf8 contents = 0
         \<and> (ro_max_bytes opts = 0 \<or> length contents \<le> ro_max_bytes opts))"

lemma read_file_page:
  assumes ok: "readable_text env opts raw_path fs contents"
    and start: "1 \<le> off" "off \<le> int (length (split contents newline))"
    and lines: "0 < ro_max_lines opts" "off + ro_max_lines opts \<le> INT_MAX"
    and stop: "stop = min (off + ro_max_lines opts - 1) (int (length (split contents newline)))"
  obtains j where "read_file env (opts\<lparr>ro_offset_line := off\<rparr>) raw_path fs = Some j"
    and "jget j ''content'' = Some (JString (window_text (split contents newline) off stop))"
    and "jget j ''next_offset_line''
           = (if stop < int (length (split contents newline)) then Some (JInt (stop + 1)) else None)"
proof -
  have bounded: "read_bounded (ro_max_bytes opts) contents = (contents, False)"
    using ok by (auto simp: readable_text_def read_bounded_def Let_def)
  have "max 1 off = off" using start by simp
  then show ?thesis
    using ok start lines bounded that
    by (auto simp: readable_text_def read_file_def read_answer_def Let_def tf_text_def tf_exists_def
          drop_partial_line_def window_end_def stop split: option.splits)
qed

lemma read_on_window:
  assumes ok: "readable_text env opts raw_path fs contents"
    and ls: "ls = split contents newline"
    and lines: "0 < ro_max_lines opts" "int (length ls) + ro_max_lines opts \<le> INT_MAX"
    and off: "off = 1 + int k" "k < length ls" "length ls - k \<le> n"
  shows "read_on n (\<lambda>i. read_file env (opts\<lparr>ro_offset_line := i\<rparr>) raw_path fs) off
           = Some (concat (map (\<lambda>l. l @ [newline]) (drop k ls)))"
  using off
proof (induction n arbitrary: off k)
  case (Suc n)
  let ?total = "int (length ls)"
  define stop where "stop = min (off + ro_max_lines opts - 1) ?total"
  obtain j where j: "read_file env (opts\<lparr>ro_offset_line := off\<rparr>) raw_path fs = Some j"
      "jget j ''content'' = Some (JString (window_text ls off stop))"
      "jget j ''next_offset_line'' = (if stop < ?total then Some (JInt (stop + 1)) else None)"
    using read_file_page [OF ok, of off stop] Suc.prems lines unfolding ls stop_def by auto
  have take: "nat (stop - off + 1) = min (nat (ro_max_lines opts)) (length ls - k)"
    using Suc.prems lines by (auto simp: stop_def)
  have window: "window_text ls off stop
      = concat (map (\<lambda>l. l @ [newline]) (take (nat (ro_max_lines opts)) (drop k ls)))"
    using Suc.prems unfolding window_text_def take by (auto simp: min_def)
  show ?case
  proof (cases "stop < ?total")
    case True
    define k' where "k' = k + nat (ro_max_lines opts)"
    have k': "stop + 1 = 1 + int k'" "k' < length ls" "length ls - k' \<le> n"
      using True Suc.prems lines by (auto simp: stop_def k'_def)
    have "take (nat (ro_max_lines opts)) (drop k ls) @ drop k' ls = drop k ls"
      using append_take_drop_id [of "nat (ro_max_lines opts)" "drop k ls"] by (simp add: k'_def add.commute)
    then have "concat (map (\<lambda>l. l @ [newline]) (drop k ls))
        = window_text ls off stop @ concat (map (\<lambda>l. l @ [newline]) (drop k' ls))"
      unfolding window by (metis concat_append map_append)
    with Suc.IH [OF k'] True j show ?thesis by simp
  next
    case False
    then have "take (nat (ro_max_lines opts)) (drop k ls) = drop k ls"
      using Suc.prems lines by (auto simp: stop_def)
    with False j show ?thesis by (simp add: window)
  qed
qed simp


definition demo_tfs :: tfs where
  "demo_tfs = \<lparr>tf_dirs = [[]], tf_names = [([''f''], 0)], tf_data = [(0, ''ab'' @ [newline] @ ''c'')],
     tf_next = 1, tf_denied = []\<rparr>"

definition demo_env :: ft_env where
  "demo_env = \<lparr>fe_getenv = (\<lambda>_. None), fe_cwd = [], fe_canonical = (\<lambda>_. None), fe_os_error = []\<rparr>"

definition demo_options :: read_options where
  "demo_options = \<lparr>ro_offset_line = 1, ro_max_lines = 1, ro_max_bytes = 0, ro_resolve_symlinks = False\<rparr>"

lemma demo_readable: "readable_text demo_env demo_options ''/f'' demo_tfs (''ab'' @ [newline] @ ''c'')"
  by code_simp


text \<open>The window of the last page is computed after \<open>start + max_lines - 1\<close>: a caller who asks for
  \<open>INT_MAX\<close> lines from the second on overflows an \<open>int\<close>.\<close>

lemma huge_page_overflows:
  "read_file demo_env (demo_options\<lparr>ro_offset_line := 2, ro_max_lines := INT_MAX\<rparr>) ''/f'' demo_tfs = None"
  by code_simp

text \<open>An empty file has no first line: it is reported as an error.\<close>

lemma empty_file_is_an_error:
  "map_option (\<lambda>j. jget j ''status'') (read_file demo_env demo_options ''/f'' (demo_tfs\<lparr>tf_data := [(0, [])]\<rparr>))
     = Some (Some (JString ''error''))"
  by code_simp

section \<open>Patches\<close>

text \<open>A patch is made exactly when the text occurs once, and replaces that occurrence.\<close>

definition occurrences :: "string \<Rightarrow> string \<Rightarrow> nat set" where
  "occurrences content old_text = {i. occurs_at content old_text i}"

lemma patch_text_cases [case_names missing unique ambiguous]:
  obtains "occurrences content old_text = {}"
      and "patch_text old_text new_text content = Patch_Missing"
  | i where "occurrences content old_text = {i}"
      and "patch_text old_text new_text content
             = Patched i (take i content @ new_text @ drop (i + length old_text) content)"
  | i j where "i \<noteq> j" and "i \<in> occurrences content old_text" and "j \<in> occurrences content old_text"
      and "patch_text old_text new_text content = Patch_Ambiguous"
proof (cases "str_find content old_text 0")
  case None
  then have "occurrences content old_text = {}" by (auto simp: occurrences_def str_find_None)
  with None that(1) show ?thesis by (simp add: patch_text_def)
next
  case first: (Some p)
  then have p: "occurs_at content old_text p" "\<And>k. occurs_at content old_text k \<Longrightarrow> p \<le> k"
    by (auto simp: str_find_Some not_less)
  show ?thesis
  proof (cases "str_find content old_text (p + 1)")
    case None
    have "k = p" if "occurs_at content old_text k" for k
    proof -
      have "\<not> p + 1 \<le> k" using None that unfolding str_find_None by blast
      then show ?thesis using p(2) [OF that] by simp
    qed
    with p(1) have "occurrences content old_text = {p}" unfolding occurrences_def by blast
    with first None that(2) show ?thesis by (simp add: patch_text_def)
  next
    case (Some q)
    then have "p \<noteq> q" "occurs_at content old_text q" by (auto simp: str_find_Some)
    with p first Some that(3) show ?thesis by (simp add: patch_text_def occurrences_def)
  qed
qed

lemma patch_text_iff:
  "patch_text old_text new_text content = Patch_Missing \<longleftrightarrow> occurrences content old_text = {}"
  "patch_text old_text new_text content = Patched i patched \<longleftrightarrow>
     occurrences content old_text = {i}
     \<and> patched = take i content @ new_text @ drop (i + length old_text) content"
  by (cases rule: patch_text_cases [of content old_text new_text]; auto)+

section \<open>Atomic writes\<close>

text \<open>No two names share an inode, and the next inode is new.\<close>

definition tf_wf :: "tfs \<Rightarrow> bool" where
  "tf_wf fs \<longleftrightarrow>
     (\<forall>p i. tget (tf_names fs) p = Some i \<longrightarrow> i < tf_next fs)
     \<and> (\<forall>p q i. tget (tf_names fs) p = Some i \<longrightarrow> tget (tf_names fs) q = Some i \<longrightarrow> p = q)"

lemma normal_components_nonempty: "ps \<noteq> [] \<Longrightarrow> normal_components ps acc \<noteq> []"
  by (induction ps acc rule: normal_components.induct) auto

lemma ft_path_nonempty [simp]: "raw_path \<noteq> [] \<Longrightarrow> ft_path env raw_path \<noteq> []"
  by (simp add: ft_path_def normalise_path_def Let_def normal_components_nonempty)

lemma tmp_path_neq [simp]: "p \<noteq> [] \<Longrightarrow> tmp_path p \<noteq> p" "p \<noteq> [] \<Longrightarrow> p \<noteq> tmp_path p"
  by (auto simp: tmp_path_def dest: arg_cong [of _ _ last])

lemma tf_create_directories_keeps:
  "tf_create_directories d fs = Some fs1 \<Longrightarrow>
     tf_names fs1 = tf_names fs \<and> tf_data fs1 = tf_data fs \<and> tf_next fs1 = tf_next fs"
  by (auto simp: tf_create_directories_def split: if_splits)

lemma tf_text_names:
  "tf_text fs p = (if p = [] \<or> trailing p then None
     else case tget (tf_names fs) p of None \<Rightarrow> None | Some i \<Rightarrow> tget (tf_data fs) i)"
  by (simp add: tf_text_def tf_inode_def)

text \<open>Opening creates at most the name, empty; writing through the inode changes no other name.\<close>

lemma tf_open_create_effect:
  assumes wf: "tf_wf fs" and opened: "tf_open_create t fs = Some (i, fs2)"
  shows "tf_wf fs2" and "tget (tf_names fs2) t = Some i"
    and "q \<noteq> t \<Longrightarrow> tget (tf_names fs2) q = tget (tf_names fs) q"
    and "q \<noteq> t \<Longrightarrow> tget (tf_names fs2) q = Some j \<Longrightarrow> tget (tf_data fs2) j = tget (tf_data fs) j \<and> j \<noteq> i"
proof -
  consider (old) "tget (tf_names fs) t = Some i" "fs2 = fs"
    | (new) "tget (tf_names fs) t = None" "i = tf_next fs"
        "fs2 = fs\<lparr>tf_names := tput t i (tf_names fs), tf_data := tput i [] (tf_data fs), tf_next := Suc i\<rparr>"
    using opened by (auto simp: tf_open_create_def split: if_splits option.splits)
  note split = this
  show "tf_wf fs2" using split
  proof cases
    case new
    with wf show ?thesis by (fastforce simp: tf_wf_def)
  qed (use wf in simp)
  show "tget (tf_names fs2) t = Some i" using split by cases simp_all
  show "q \<noteq> t \<Longrightarrow> tget (tf_names fs2) q = tget (tf_names fs) q" using split by cases simp_all
  show "q \<noteq> t \<Longrightarrow> tget (tf_names fs2) q = Some j \<Longrightarrow> tget (tf_data fs2) j = tget (tf_data fs) j \<and> j \<noteq> i"
    using split
  proof cases
    case new
    assume "q \<noteq> t" "tget (tf_names fs2) q = Some j"
    with new wf have "j < tf_next fs" by (auto simp: tf_wf_def)
    with new show ?thesis by simp
  qed (use wf in \<open>auto simp: tf_wf_def\<close>)
qed

lemma atomic_write_effect:
  assumes wf: "tf_wf fs" and dest: "dest \<noteq> []" and result: "atomic_write env dest content fs = (err, fs')"
  shows "tf_wf fs'"
    and "q \<noteq> dest \<Longrightarrow> q \<noteq> tmp_path dest \<Longrightarrow> tf_text fs' q = tf_text fs q"
    and "err = None \<Longrightarrow> tf_text fs' dest = Some content \<and> tf_text fs' (tmp_path dest) = None"
    and "err \<noteq> None \<Longrightarrow> tf_text fs' dest = tf_text fs dest"
proof -
  consider (refused) "err \<noteq> None" "tf_names fs' = tf_names fs" "tf_data fs' = tf_data fs" "tf_next fs' = tf_next fs"
    | (opened) i fs1 fs2 where "tf_names fs1 = tf_names fs" "tf_data fs1 = tf_data fs" "tf_next fs1 = tf_next fs"
        "tf_open_create (tmp_path dest) fs1 = Some (i, fs2)"
        "if tf_is_dir fs2 dest \<or> trailing dest
         then err \<noteq> None \<and> fs' = fs2\<lparr>tf_data := tput i content (tf_data fs2),
                tf_names := tdel (tmp_path dest) (tf_names fs2)\<rparr>
         else err = None \<and> fs' = fs2\<lparr>tf_data := tput i content (tf_data fs2),
                tf_names := tput dest i (tdel (tmp_path dest) (tf_names fs2))\<rparr>"
    using result
    by (auto simp: atomic_write_def Let_def tf_is_dir_def split: option.splits prod.splits if_splits
        dest!: tf_create_directories_keeps)
  note outcome = this
  have "tf_wf fs' \<and> (\<forall>q. q \<noteq> dest \<longrightarrow> q \<noteq> tmp_path dest \<longrightarrow> tf_text fs' q = tf_text fs q)
      \<and> (err = None \<longrightarrow> tf_text fs' dest = Some content \<and> tf_text fs' (tmp_path dest) = None)
      \<and> (err \<noteq> None \<longrightarrow> tf_text fs' dest = tf_text fs dest)"
    using outcome
  proof cases
    case refused
    then show ?thesis using wf by (auto simp: tf_wf_def tf_text_names split: option.splits)
  next
    case (opened i fs1 fs2)
    have wf1: "tf_wf fs1" using wf opened by (simp add: tf_wf_def)
    note o = tf_open_create_effect [OF wf1 opened(4)]
    have free: "\<And>q. q \<noteq> tmp_path dest \<Longrightarrow> tget (tf_names fs2) q \<noteq> Some i"
      using o(4) by blast
    have "tf_wf fs'"
      using o(1,2) opened(5) free by (auto simp: tf_wf_def split: if_splits)
    moreover have "tf_text fs' q = tf_text fs q" if "q \<noteq> dest" "q \<noteq> tmp_path dest" for q
      using that opened o(3) [of q] o(4) [of q]
      by (auto simp: tf_text_names split: option.splits if_splits)
    moreover have "err = None \<Longrightarrow> tf_text fs' dest = Some content \<and> tf_text fs' (tmp_path dest) = None"
      using opened(5) dest tmp_path_neq(2) [OF dest] by (auto simp: tf_text_names split: if_splits)
    moreover have "err \<noteq> None \<Longrightarrow> tf_text fs' dest = tf_text fs dest"
      using opened dest tmp_path_neq(2) [OF dest] o(3) [of dest] o(4) [of dest]
      by (auto simp: tf_text_names split: option.splits if_splits)
    ultimately show ?thesis by blast
  qed
  then show "tf_wf fs'"
    and "q \<noteq> dest \<Longrightarrow> q \<noteq> tmp_path dest \<Longrightarrow> tf_text fs' q = tf_text fs q"
    and "err = None \<Longrightarrow> tf_text fs' dest = Some content \<and> tf_text fs' (tmp_path dest) = None"
    and "err \<noteq> None \<Longrightarrow> tf_text fs' dest = tf_text fs dest"
    by auto
qed


lemma demo_tfs_wf: "tf_wf demo_tfs"
  by (simp add: tf_wf_def demo_tfs_def)




section \<open>The lock and the rename\<close>

text \<open>The stages of one call of \<open>patch_file\<close> on a shared file, as the other calls can observe them:
  the descriptor and its lock belong to the inode that was opened, the text is read by name, and the
  rename gives the name another inode.\<close>

datatype patch_stage = Start | Opened nat | Holding nat | Loaded nat string | Written nat | Finished bool

record patch_race =
  pr_fs :: tfs
  pr_locks :: "nat list"
  pr_stage :: "patch_stage list"

definition stage_to :: "nat \<Rightarrow> patch_stage \<Rightarrow> patch_race \<Rightarrow> patch_race" where
  "stage_to a st r = r\<lparr>pr_stage := (pr_stage r)[a := st]\<rparr>"

definition patch_step :: "ft_env \<Rightarrow> fpath \<Rightarrow> (string \<times> string) list \<Rightarrow> nat \<Rightarrow> patch_race \<Rightarrow> patch_race" where
  "patch_step env p edits_of a r =
     (case pr_stage r ! a of
        Start \<Rightarrow> (case tf_inode (pr_fs r) p of Some i \<Rightarrow> stage_to a (Opened i) r | None \<Rightarrow> stage_to a (Finished False) r)
      | Opened i \<Rightarrow>
          if i \<in> set (pr_locks r) then r else stage_to a (Holding i) (r\<lparr>pr_locks := i # pr_locks r\<rparr>)
      | Holding i \<Rightarrow> (case tf_text (pr_fs r) p of Some t \<Rightarrow> stage_to a (Loaded i t) r | None \<Rightarrow> r)
      | Loaded i t \<Rightarrow>
          (case patch_text (fst (edits_of ! a)) (snd (edits_of ! a)) t of
             Patched pos patched \<Rightarrow>
               stage_to a (Written i) (r\<lparr>pr_fs := snd (atomic_write env p patched (pr_fs r))\<rparr>)
           | _ \<Rightarrow> stage_to a (Finished False) (r\<lparr>pr_locks := removeAll i (pr_locks r)\<rparr>))
      | Written i \<Rightarrow> stage_to a (Finished True) (r\<lparr>pr_locks := removeAll i (pr_locks r)\<rparr>)
      | Finished b \<Rightarrow> r)"

text \<open>Alone, the stages are the call.\<close>

lemma patch_alone:
  assumes "raw_path \<noteq> []" and "p = ft_path env raw_path" and "old_text \<noteq> []"
    and "tf_text fs p = Some content" and "p \<notin> set (tf_denied fs)"
  shows "pr_fs ((patch_step env p [(old_text, new_text)] 0 ^^ 5) \<lparr>pr_fs = fs, pr_locks = [], pr_stage = [Start]\<rparr>)
    = snd (patch_file env True raw_path old_text new_text t fs)"
proof -
  have "tf_exists fs p" using assms(4) by (auto simp: tf_exists_def tf_text_def split: option.splits)
  moreover obtain i where "tf_inode fs p = Some i" using assms(4) by (auto simp: tf_text_def split: option.splits)
  ultimately show ?thesis
    using assms(1,3-5) unfolding patch_file_def assms(2) [symmetric]
    by (cases rule: patch_text_cases [of content old_text new_text])
      (auto simp: patch_step_def stage_to_def numeral_eq_Suc Let_def split: prod.splits option.splits)
qed

text \<open>Three calls that each replace another letter all answer \<open>ok\<close>, and the edit of the third is
  lost: the second waited for the lock of an inode that the first has renamed away, and does not
  exclude the third, which opened the new one.\<close>

definition race_edits :: "(string \<times> string) list" where
  "race_edits = [(''a'', ''A''), (''b'', ''B''), (''c'', ''C'')]"

lemma locked_patch_is_lost:
  "(let r = fold (patch_step demo_env [''f''] race_edits) [0, 1, 0, 0, 0, 0, 1, 2, 2, 1, 2, 2, 1, 1, 2]
              \<lparr>pr_fs = demo_tfs, pr_locks = [], pr_stage = [Start, Start, Start]\<rparr>
    in (pr_stage r, tf_text (pr_fs r) [''f'']))
   = ([Finished True, Finished True, Finished True], Some (''AB'' @ [newline] @ ''c''))"
  by code_simp

text \<open>Suggestions are sorted by score before adjacent duplicates are dropped, so a file found by both
  searches is listed twice when another one has the same score.\<close>

lemma suggestions_repeat:
  "map fm_path (find_closest_paths
     \<lparr>tf_dirs = [[]], tf_names = [([''xxa''], 0), ([''xxb''], 1)], tf_data = [], tf_next = 2, tf_denied = []\<rparr> [''xxc''] 5)
   = [[''xxa''], [''xxb''], [''xxa''], [''xxb'']]"
  by code_simp

end
