(* ===== verification/Sentinel.thy ===== *)
theory Sentinel
  imports Json
begin

text \<open>
  The sentinel protocol of \<^verbatim>\<open>core/persistant_applications/terminal_driver.cpp\<close>: the shell of a
  terminal session is made to print a frame before and after each command, and \<open>SentinelParser\<close>
  separates the frames from the output of the command in the byte stream, whatever the pieces in which
  it arrives. The quoting of the command for the shell is here too, with the POSIX rules for reading
  a quoted word.
\<close>

section \<open>Parser\<close>

definition kFrameStart :: char where
  "kFrameStart = CHR 0x1E"

definition kFieldSeparator :: char where
  "kFieldSeparator = CHR 0x1F"

definition kStartTag :: string where
  "kStartTag = ''VELIX_START''"

definition kEndTag :: string where
  "kEndTag = ''VELIX_END''"

definition kMaxPendingFrameBytes :: nat where
  "kMaxPendingFrameBytes = 4096"

text \<open>The calls of the three callbacks, in order.\<close>

datatype sentinel_event =
    On_Output string
  | On_Pid string string int
  | On_End string string int

text \<open>The three fields after the tag, each closed by a separator, and the position of the last one.\<close>

definition frame_fields :: "string \<Rightarrow> nat \<Rightarrow> (string \<times> string \<times> string \<times> nat) option" where
  "frame_fields buf tag_end =
     (case str_find buf [kFieldSeparator] (tag_end + 1) of
        None \<Rightarrow> None
      | Some token_end \<Rightarrow>
          (case str_find buf [kFieldSeparator] (token_end + 1) of
             None \<Rightarrow> None
           | Some id_end \<Rightarrow>
               (case str_find buf [kFieldSeparator] (id_end + 1) of
                  None \<Rightarrow> None
                | Some last_end \<Rightarrow>
                    Some (take (token_end - tag_end - 1) (drop (tag_end + 1) buf),
                          take (id_end - token_end - 1) (drop (token_end + 1) buf),
                          take (last_end - id_end - 1) (drop (id_end + 1) buf), last_end))))"

text \<open>The number of bytes consumed, 0 for an incomplete frame.\<close>

definition try_parse_frame :: "string \<Rightarrow> nat \<times> sentinel_event list" where
  "try_parse_frame buf =
     (if length buf < 2 then (0, [])
      else case str_find buf [kFieldSeparator] 1 of
             None \<Rightarrow> (0, [])
           | Some tag_end \<Rightarrow>
               let tag = take (tag_end - 1) (drop 1 buf)
               in if tag = kStartTag
                  then (case frame_fields buf tag_end of
                          None \<Rightarrow> (0, [])
                        | Some (token, job_id, pid_str, pid_end) \<Rightarrow>
                            (let pid = (case stol pid_str of Inr p \<Rightarrow> p | Inl _ \<Rightarrow> - 1)
                             in (pid_end + 1, if pid > 0 then [On_Pid token job_id pid] else [])))
                  else if tag = kEndTag
                  then (case frame_fields buf tag_end of
                          None \<Rightarrow> (0, [])
                        | Some (token, job_id, code_str, code_end) \<Rightarrow>
                            (let exit_code = (case stoi code_str of Inr c \<Rightarrow> c | Inl _ \<Rightarrow> 0)
                             in (code_end + 1, [On_End token job_id exit_code])))
                  else (1, [On_Output (take 1 buf)]))"

text \<open>The loop of \<open>feed\<close>; the result is the calls and the bytes that stay buffered.\<close>

function feed_loop :: "string \<Rightarrow> sentinel_event list \<times> string" where
  "feed_loop buf =
     (if buf = [] then ([], [])
      else
        let skipped = (if hd buf \<noteq> kFrameStart then str_find buf [kFrameStart] 0 else Some 0)
        in case skipped of
             None \<Rightarrow> ([On_Output buf], [])
           | Some pos \<Rightarrow>
               let out = (if hd buf \<noteq> kFrameStart then [On_Output (take pos buf)] else []);
                   buf1 = drop pos buf
               in (case try_parse_frame buf1 of
                     (consumed, calls) \<Rightarrow>
                       if consumed = 0
                       then (if length buf1 > kMaxPendingFrameBytes
                             then (out @ calls @ [On_Output (take 1 buf1)], drop 1 buf1)
                             else (out @ calls, buf1))
                       else (case feed_loop (drop consumed buf1) of
                               (more_calls, rest) \<Rightarrow> (out @ calls @ more_calls, rest))))"
  by pat_completeness auto
termination
  by (relation "measure length") (auto simp: str_find_Some)

declare feed_loop.simps [simp del]

definition feed :: "string \<Rightarrow> string \<Rightarrow> sentinel_event list \<times> string" where
  "feed buf data = feed_loop (buf @ data)"

definition flush_remaining :: "string \<Rightarrow> sentinel_event list" where
  "flush_remaining buf = (if buf \<noteq> [] then [On_Output buf] else [])"

text \<open>A stream that arrives in pieces.\<close>

fun feed_all :: "string \<Rightarrow> string list \<Rightarrow> sentinel_event list \<times> string" where
  "feed_all buf [] = ([], buf)"
| "feed_all buf (c # cs) =
     (case feed buf c of (calls, rest) \<Rightarrow> (case feed_all rest cs of (more_calls, rest') \<Rightarrow> (calls @ more_calls, rest')))"

section \<open>Pieces do not matter\<close>

text \<open>The calls byte by byte: how output is cut into calls is not observable in the job store.\<close>

fun bytewise :: "sentinel_event \<Rightarrow> sentinel_event list" where
  "bytewise (On_Output s) = map (\<lambda>c. On_Output [c]) s"
| "bytewise e = [e]"

abbreviation bytes_of :: "sentinel_event list \<Rightarrow> sentinel_event list" where
  "bytes_of es \<equiv> concat (map bytewise es)"

lemma occurs_at_char: "occurs_at s [c] k \<longleftrightarrow> k < length s \<and> s ! k = c"
proof (cases "k < length s")
  case True
  then show ?thesis by (auto simp: occurs_at_def Cons_nth_drop_Suc [OF True, symmetric])
qed (simp add: occurs_at_def)

lemma str_find_char_append: "str_find s [c] p = Some i \<Longrightarrow> str_find (s @ x) [c] p = Some i"
  by (auto simp: str_find_Some occurs_at_char nth_append)

lemma str_find_char_Some:
  "str_find s [c] p = Some i \<Longrightarrow> p \<le> i \<and> i < length s \<and> s ! i = c"
  by (simp add: str_find_Some occurs_at_char)

lemma frame_fields_append:
  assumes "frame_fields buf n = Some r"
  shows "frame_fields (buf @ x) n = Some r"
proof -
  obtain i j k where f: "str_find buf [kFieldSeparator] (n + 1) = Some i"
      "str_find buf [kFieldSeparator] (i + 1) = Some j" "str_find buf [kFieldSeparator] (j + 1) = Some k"
      and r: "r = (take (i - n - 1) (drop (n + 1) buf), take (j - i - 1) (drop (i + 1) buf),
                   take (k - j - 1) (drop (j + 1) buf), k)"
    using assms by (auto simp: frame_fields_def split: option.splits)
  moreover have "n < length buf" "i < length buf" "j < length buf" "k < length buf"
    using f by (auto dest!: str_find_char_Some)
  ultimately show ?thesis
    using f [THEN str_find_char_append, of x]
    by (auto simp: frame_fields_def dest!: str_find_char_Some)
qed

lemma frame_fields_bound: "frame_fields buf n = Some (a, b, c, k) \<Longrightarrow> k < length buf"
  by (auto simp: frame_fields_def split: option.splits dest!: str_find_char_Some)

text \<open>A frame that is complete stays what it is when more bytes follow.\<close>

lemma try_parse_frame_append:
  assumes "try_parse_frame buf = (n, es)" and "n \<noteq> 0"
  shows "try_parse_frame (buf @ x) = (n, es)"
proof -
  obtain e where e: "str_find buf [kFieldSeparator] 1 = Some e" and len: "\<not> length buf < 2"
    using assms by (auto simp: try_parse_frame_def split: if_splits option.splits)
  have lt: "e < length buf" using str_find_char_Some [OF e] by simp
  have over: "e - length buf = 0" using lt by simp
  note ex = str_find_char_append [OF e, of x]
  show ?thesis
  proof (cases "frame_fields buf e")
    case None
    with assms len e have "take (e - 1) (drop 1 buf) \<noteq> kStartTag" "take (e - 1) (drop 1 buf) \<noteq> kEndTag"
      by (auto simp: try_parse_frame_def Let_def split: if_splits)
    then show ?thesis
      using assms(1) len unfolding try_parse_frame_def by (simp add: e ex over Let_def del: One_nat_def)
  next
    case (Some r)
    then show ?thesis
      using assms(1) len unfolding try_parse_frame_def
      by (simp add: e ex over Let_def Some frame_fields_append [OF Some, of x] del: One_nat_def split: if_splits)
  qed
qed

lemma try_parse_frame_bound: "try_parse_frame buf = (n, es) \<Longrightarrow> n \<le> length buf"
  by (auto simp: try_parse_frame_def Let_def Suc_le_eq split: if_splits option.splits prod.splits
      dest!: frame_fields_bound)

lemma try_parse_frame_incomplete: "try_parse_frame buf = (0, es) \<Longrightarrow> es = []"
  by (auto simp: try_parse_frame_def Let_def split: if_splits option.splits prod.splits)

text \<open>The parser without the limit on a pending frame, one byte of output at a time.\<close>

function scan :: "string \<Rightarrow> sentinel_event list \<times> string" where
  "scan [] = ([], [])"
| "scan (c # s) =
     (if c \<noteq> kFrameStart then (On_Output [c] # fst (scan s), snd (scan s))
      else case try_parse_frame (c # s) of
             (n, es) \<Rightarrow>
               if n = 0 then ([], c # s)
               else (bytes_of es @ fst (scan (drop n (c # s))), snd (scan (drop n (c # s)))))"
  by pat_completeness auto
termination
  by (relation "measure length") auto

declare scan.simps(2) [simp del]

lemma scan_output:
  "kFrameStart \<notin> set u \<Longrightarrow> scan (u @ s) = (map (\<lambda>c. On_Output [c]) u @ fst (scan s), snd (scan s))"
  by (induction u) (auto simp: scan.simps)

lemma scan_frame:
  "hd s = kFrameStart \<Longrightarrow> s \<noteq> [] \<Longrightarrow> try_parse_frame s = (n, es) \<Longrightarrow>
     scan s = (if n = 0 then ([], s) else (bytes_of es @ fst (scan (drop n s)), snd (scan (drop n s))))"
  by (cases s) (auto simp: scan.simps)

text \<open>Scanning goes on from the bytes that are left.\<close>

lemma scan_append: "scan (s @ x) = (fst (scan s) @ fst (scan (snd (scan s) @ x)), snd (scan (snd (scan s) @ x)))"
proof (induction s rule: measure_induct_rule [of length])
  case (less s')
  show ?case
  proof (cases s')
  case (Cons c s)
  show ?thesis
  proof (cases "c = kFrameStart")
    case False
    with less [of s] Cons show ?thesis by (simp add: scan.simps)
  next
    case True
    obtain n es where t: "try_parse_frame (c # s) = (n, es)" by fastforce
    show ?thesis
    proof (cases "n = 0")
      case False
      have "drop n (c # s @ x) = drop n (c # s) @ x"
        using try_parse_frame_bound [OF t] by (cases n) auto
      then show ?thesis
        using True False t less [of "drop n s'"] Cons try_parse_frame_append [OF t False, of x]
        by (simp add: scan.simps(2))
    qed (use True t Cons in \<open>simp add: scan.simps(2)\<close>)
  qed
  qed simp
qed

lemma feed_loop_scan:
  "(if length (snd (scan buf)) \<le> kMaxPendingFrameBytes
    then bytes_of (fst (feed_loop buf)) = fst (scan buf) \<and> snd (feed_loop buf) = snd (scan buf)
    else kMaxPendingFrameBytes \<le> length (snd (feed_loop buf)))"
proof (induction buf rule: measure_induct_rule [of length])
  case (less buf)
  consider (empty) "buf = []"
    | (noframe) "buf \<noteq> []" "kFrameStart \<notin> set buf"
    | (frame) u b where "buf = u @ b" "kFrameStart \<notin> set u" "b \<noteq> []" "hd b = kFrameStart"
    by (cases "kFrameStart \<in> set buf") (auto dest!: split_list_first)
  then show ?case
  proof cases
    case empty
    then show ?thesis by (simp add: feed_loop.simps)
  next
    case noframe
    then have "hd buf \<noteq> kFrameStart" by (metis hd_in_set)
    moreover have "str_find buf [kFrameStart] 0 = None"
      using noframe by (auto simp: str_find_None occurs_at_char in_set_conv_nth)
    moreover have "scan buf = (map (\<lambda>c. On_Output [c]) buf, [])"
      using scan_output [OF noframe(2), of "[]"] by simp
    ultimately show ?thesis using noframe(1) by (subst (1 2 3) feed_loop.simps) simp
  next
    case frame
    obtain n es where t: "try_parse_frame b = (n, es)" by fastforce
    let ?out = "if u = [] then [] else [On_Output u]"
    have "u \<noteq> [] \<Longrightarrow> hd u \<noteq> kFrameStart" using frame(2) by (metis hd_in_set)
    moreover have find: "u \<noteq> [] \<Longrightarrow> str_find buf [kFrameStart] 0 = Some (length u)"
      using frame by (auto simp: str_find_Some occurs_at_char nth_append hd_conv_nth in_set_conv_nth)
    ultimately have step: "feed_loop buf =
        (if n = 0
         then (if length b > kMaxPendingFrameBytes then (?out @ es @ [On_Output (take 1 b)], drop 1 b) else (?out @ es, b))
         else (?out @ es @ fst (feed_loop (drop n b)), snd (feed_loop (drop n b))))"
      using frame t by (subst feed_loop.simps) (auto split: prod.splits)
    have out: "bytes_of ?out = map (\<lambda>c. On_Output [c]) u" by simp
    have scan: "scan buf = (map (\<lambda>c. On_Output [c]) u @ (if n = 0 then [] else bytes_of es @ fst (scan (drop n b))),
        if n = 0 then b else snd (scan (drop n b)))"
      using scan_output [OF frame(2), of b] scan_frame [OF frame(4,3) t] frame(1) by simp
    show ?thesis
    proof (cases "n = 0")
      case True
      then show ?thesis using step scan out try_parse_frame_incomplete [of b es] t by auto
    next
      case False
      moreover have "0 < length b" using frame(3) by simp
      ultimately have "length (drop n b) < length buf" unfolding frame(1) length_append length_drop by linarith
      from less [OF this] show ?thesis using False step scan out by (simp split: if_splits)
    qed
  qed
qed

lemma scan_rest: "scan (snd (scan s)) = ([], snd (scan s))"
proof -
  have "fst (scan s) = fst (scan s) @ fst (scan (snd (scan s)))" "snd (scan s) = snd (scan (snd (scan s)))"
    using arg_cong [OF scan_append [of s "[]"], of fst] arg_cong [OF scan_append [of s "[]"], of snd] by simp_all
  then show ?thesis by (simp add: prod_eq_iff)
qed

lemma feed_all_scan:
  assumes "\<forall>k\<le>length cs. length (snd (scan (s @ concat (take k cs)))) \<le> kMaxPendingFrameBytes"
  shows "bytes_of (fst (feed_all (snd (scan s)) cs)) = fst (scan (snd (scan s) @ concat cs))
    \<and> snd (feed_all (snd (scan s)) cs) = snd (scan (s @ concat cs))"
  using assms
proof (induction cs arbitrary: s)
  case Nil
  then show ?case by (simp add: scan_rest)
next
  case (Cons c cs)
  have first: "snd (scan (snd (scan s) @ c)) = snd (scan (s @ c))" by (simp add: scan_append [of s])
  have "length (snd (scan (s @ c))) \<le> kMaxPendingFrameBytes" using Cons.prems [rule_format, of 1] by simp
  then have fed: "bytes_of (fst (feed (snd (scan s)) c)) = fst (scan (snd (scan s) @ c))"
      "snd (feed (snd (scan s)) c) = snd (scan (s @ c))"
    using feed_loop_scan [of "snd (scan s) @ c"] first by (simp_all add: feed_def)
  have "\<forall>k\<le>length cs. length (snd (scan ((s @ c) @ concat (take k cs)))) \<le> kMaxPendingFrameBytes"
    using Cons.prems by (metis Suc_le_mono append_assoc concat.simps(2) length_Cons take_Suc_Cons)
  from Cons.IH [OF this] fed show ?case
    using scan_append [of "snd (scan s) @ c" "concat cs"] first
    by (auto split: prod.splits)
qed

text \<open>C22: The parser does not depend on how the stream is cut. While no partial frame reaches the
  limit for pending bytes, feeding a stream in any pieces makes the same calls as feeding it at once,
  output taken byte by byte, and leaves the same bytes buffered.\<close>

theorem feed_pieces:
  assumes "\<forall>k\<le>length chunks. length (snd (feed [] (concat (take k chunks)))) < kMaxPendingFrameBytes"
  shows "bytes_of (fst (feed_all [] chunks)) = bytes_of (fst (feed [] (concat chunks)))
    \<and> snd (feed_all [] chunks) = snd (feed [] (concat chunks))"
proof -
  have small: "length (snd (scan s)) \<le> kMaxPendingFrameBytes" if "length (snd (feed [] s)) < kMaxPendingFrameBytes" for s
    using that feed_loop_scan [of s] by (auto simp: feed_def split: if_splits)
  have "length (snd (scan (concat chunks))) \<le> kMaxPendingFrameBytes"
    using assms small by (metis order_refl take_all_iff)
  then show ?thesis
    using feed_all_scan [of chunks "[]"] feed_loop_scan [of "concat chunks"] assms small
    by (auto simp: feed_def)
qed

section \<open>The frames of a command\<close>

definition start_frame :: "string \<Rightarrow> string \<Rightarrow> string \<Rightarrow> string" where
  "start_frame token job_id pid = [kFrameStart] @ kStartTag @ [kFieldSeparator] @ token @ [kFieldSeparator]
     @ job_id @ [kFieldSeparator] @ pid @ [kFieldSeparator]"

definition end_frame :: "string \<Rightarrow> string \<Rightarrow> string \<Rightarrow> string" where
  "end_frame token job_id code = [kFrameStart] @ kEndTag @ [kFieldSeparator] @ token @ [kFieldSeparator]
     @ job_id @ [kFieldSeparator] @ code @ [kFieldSeparator]"

lemma str_find_sep:
  "kFieldSeparator \<notin> set u \<Longrightarrow> length p = n \<Longrightarrow>
     str_find (p @ u @ kFieldSeparator # s) [kFieldSeparator] n = Some (n + length u)"
  by (auto simp: str_find_Some occurs_at_char nth_append in_set_conv_nth)

lemma try_parse_tag:
  assumes "kFieldSeparator \<notin> set tag" "kFieldSeparator \<notin> set token" "kFieldSeparator \<notin> set job_id"
    "kFieldSeparator \<notin> set d"
    and buf: "buf = [kFrameStart] @ tag @ [kFieldSeparator] @ token @ [kFieldSeparator] @ job_id
      @ [kFieldSeparator] @ d @ [kFieldSeparator]"
  shows "str_find buf [kFieldSeparator] 1 = Some (1 + length tag)" "take (length tag) (drop 1 buf) = tag"
    "frame_fields buf (1 + length tag) = Some (token, job_id, d, length buf - 1)"
proof -
  show tag: "str_find buf [kFieldSeparator] 1 = Some (1 + length tag)"
    using str_find_sep [OF assms(1), of "[kFrameStart]" 1] by (simp add: buf)
  show "take (length tag) (drop 1 buf) = tag" by (simp add: buf)
  define e0 where "e0 = 1 + length tag"
  define e1 where "e1 = e0 + 1 + length token"
  define e2 where "e2 = e1 + 1 + length job_id"
  define e3 where "e3 = e2 + 1 + length d"
  note e = e0_def e1_def e2_def e3_def
  have "str_find buf [kFieldSeparator] (e0 + 1) = Some e1"
    using str_find_sep [OF assms(2), of "[kFrameStart] @ tag @ [kFieldSeparator]" "e0 + 1"] by (simp add: buf e)
  moreover have "str_find buf [kFieldSeparator] (e1 + 1) = Some e2"
    using str_find_sep [OF assms(3), of "[kFrameStart] @ tag @ [kFieldSeparator] @ token @ [kFieldSeparator]" "e1 + 1"]
    by (simp add: buf e)
  moreover have "str_find buf [kFieldSeparator] (e2 + 1) = Some e3"
    using str_find_sep [OF assms(4), of
        "[kFrameStart] @ tag @ [kFieldSeparator] @ token @ [kFieldSeparator] @ job_id @ [kFieldSeparator]" "e2 + 1"]
    by (simp add: buf e)
  moreover have "take (e1 - e0 - 1) (drop (e0 + 1) buf) = token" "take (e2 - e1 - 1) (drop (e1 + 1) buf) = job_id"
      "take (e3 - e2 - 1) (drop (e2 + 1) buf) = d" "e3 = length buf - 1"
    by (simp_all add: buf e numeral_eq_Suc)
  ultimately show "frame_fields buf (1 + length tag) = Some (token, job_id, d, length buf - 1)"
    unfolding frame_fields_def e0_def [symmetric] by simp
qed

lemmas sentinel_chars = kFrameStart_def kFieldSeparator_def kStartTag_def kEndTag_def

lemma nat_digits_no_sep: "kFieldSeparator \<notin> set (nat_digits n)"
proof
  assume "kFieldSeparator \<in> set (nat_digits n)"
  then have "isdigit kFieldSeparator" using nat_digits_isdigit [of n] by (auto simp: list_all_iff)
  then show False by (simp add: kFieldSeparator_def isdigit_def)
qed

lemma parse_start_frame:
  assumes "kFieldSeparator \<notin> set token" "kFieldSeparator \<notin> set job_id" "0 < pid" "int pid \<le> 9223372036854775807"
  shows "try_parse_frame (start_frame token job_id (nat_digits pid))
    = (length (start_frame token job_id (nat_digits pid)), [On_Pid token job_id (int pid)])"
proof -
  let ?f = "start_frame token job_id (nat_digits pid)"
  have len: "\<not> length ?f < 2" by (simp add: start_frame_def)
  have t: "kFieldSeparator \<notin> set kStartTag" by (simp add: sentinel_chars)
  note f = try_parse_tag [OF t assms(1,2) nat_digits_no_sep [of pid], folded start_frame_def, OF refl]
  have "length ?f - 1 + 1 = length ?f" using len by simp
  then show ?thesis
    unfolding try_parse_frame_def f(1) using len f(2,3) assms(3,4)
    by (simp add: Let_def stol_nat_digits)
qed

lemma parse_end_frame:
  assumes "kFieldSeparator \<notin> set token" "kFieldSeparator \<notin> set job_id" "int code \<le> INT_MAX"
  shows "try_parse_frame (end_frame token job_id (nat_digits code))
    = (length (end_frame token job_id (nat_digits code)), [On_End token job_id (int code)])"
proof -
  let ?f = "end_frame token job_id (nat_digits code)"
  have len: "\<not> length ?f < 2" by (simp add: end_frame_def)
  have t: "kFieldSeparator \<notin> set kEndTag" "kEndTag \<noteq> kStartTag" by (simp_all add: sentinel_chars)
  note f = try_parse_tag [OF t(1) assms(1,2) nat_digits_no_sep [of code], folded end_frame_def, OF refl]
  have "length ?f - 1 + 1 = length ?f" using len by simp
  then show ?thesis
    unfolding try_parse_frame_def f(1) using len f(2,3) assms(3) t(2)
    by (simp add: Let_def stoi_nat_digits)
qed

text \<open>A stream of output and short frames never leaves more than a frame pending.\<close>

definition pending_below :: "nat \<Rightarrow> string \<Rightarrow> bool" where
  "pending_below m s \<longleftrightarrow> (\<forall>u. prefix u s \<longrightarrow> length (snd (scan u)) \<le> m)"

lemma pending_below_Nil: "pending_below m []"
  by (simp add: pending_below_def)

lemma pending_below_output:
  assumes "kFrameStart \<notin> set p" and "pending_below m s"
  shows "pending_below m (p @ s)"
  unfolding pending_below_def
proof (intro allI impI)
  fix u assume "prefix u (p @ s)"
  then consider "prefix u p" | v where "u = p @ v" "prefix v s" by (auto simp: prefix_append)
  then show "length (snd (scan u)) \<le> m"
  proof cases
    case 1
    then have "kFrameStart \<notin> set u" using assms(1) set_mono_prefix by blast
    then show ?thesis using scan_output [of u "[]"] by simp
  next
    case 2
    then show ?thesis using assms by (simp add: scan_output pending_below_def)
  qed
qed

lemma scan_whole_frame:
  assumes "try_parse_frame f = (length f, es)" "f \<noteq> []" "hd f = kFrameStart"
  shows "scan (f @ s) = (bytes_of es @ fst (scan s), snd (scan s))"
  using scan_frame [of "f @ s", OF _ _ try_parse_frame_append [OF assms(1)]] assms by simp

lemma pending_below_frame:
  assumes frame: "try_parse_frame f = (length f, es)" "f \<noteq> []" "hd f = kFrameStart"
    and "length f \<le> m" and "pending_below m s"
  shows "pending_below m (f @ s)"
  unfolding pending_below_def
proof (intro allI impI)
  fix u assume "prefix u (f @ s)"
  then consider v where "f = u @ v" "v \<noteq> []" | v where "u = f @ v" "prefix v s"
  proof -
    assume cases: "(\<And>v. f = u @ v \<Longrightarrow> v \<noteq> [] \<Longrightarrow> thesis)" "(\<And>v. u = f @ v \<Longrightarrow> prefix v s \<Longrightarrow> thesis)"
    from \<open>prefix u (f @ s)\<close> have "prefix u f \<or> (\<exists>v. u = f @ v \<and> prefix v s)" by (simp add: prefix_append)
    then show thesis
    proof
      assume "prefix u f"
      then obtain v where "f = u @ v" by (auto simp: prefix_def)
      then show thesis using cases(1) [of v] cases(2) [of "[]"] by (cases v) auto
    qed (use cases(2) in blast)
  qed
  then show "length (snd (scan u)) \<le> m"
  proof cases
    case 1
    obtain n es' where t: "try_parse_frame u = (n, es')" by fastforce
    have "n = 0"
    proof (rule ccontr)
      assume "n \<noteq> 0"
      from try_parse_frame_append [OF t this, of v] have "n = length f" using frame 1 by simp
      with try_parse_frame_bound [OF t] 1 show False by simp
    qed
    then have "snd (scan u) = u" using t frame(3) 1 by (cases u) (auto simp: scan.simps)
    then show ?thesis using 1 assms(4) by simp
  next
    case 2
    then show ?thesis using assms(5) by (simp add: scan_whole_frame [OF frame] pending_below_def)
  qed
qed

lemma feed_all_pending_below:
  assumes "pending_below kMaxPendingFrameBytes (concat chunks)"
  shows "bytes_of (fst (feed_all [] chunks)) = fst (scan (concat chunks))"
    and "snd (feed_all [] chunks) = snd (scan (concat chunks))"
proof -
  have "prefix (concat (take k chunks)) (concat chunks)" for k
    by (metis append_take_drop_id concat_append prefixI)
  then have "\<forall>k\<le>length chunks. length (snd (scan ([] @ concat (take k chunks)))) \<le> kMaxPendingFrameBytes"
    using assms by (simp add: pending_below_def)
  from feed_all_scan [OF this]
  show "bytes_of (fst (feed_all [] chunks)) = fst (scan (concat chunks))"
    and "snd (feed_all [] chunks) = snd (scan (concat chunks))" by simp_all
qed

lemma command_stream_calls:
  assumes "kFieldSeparator \<notin> set token" and "kFieldSeparator \<notin> set job_id"
    and "0 < pid" and "int pid \<le> 9223372036854775807" and "int code \<le> INT_MAX"
    and "kFrameStart \<notin> set before" and "kFrameStart \<notin> set printed" and "kFrameStart \<notin> set after"
    and "length (start_frame token job_id (nat_digits pid)) \<le> kMaxPendingFrameBytes"
    and "length (end_frame token job_id (nat_digits code)) \<le> kMaxPendingFrameBytes"
    and "concat chunks = before @ start_frame token job_id (nat_digits pid) @ printed
           @ end_frame token job_id (nat_digits code) @ after"
  shows "bytes_of (fst (feed_all [] chunks)) =
      map (\<lambda>c. On_Output [c]) before @ [On_Pid token job_id (int pid)]
      @ map (\<lambda>c. On_Output [c]) printed @ [On_End token job_id (int code)] @ map (\<lambda>c. On_Output [c]) after
    \<and> snd (feed_all [] chunks) = []"
proof -
  note s = parse_start_frame [OF assms(1-4)] and e = parse_end_frame [OF assms(1,2,5)]
  have ne: "start_frame token job_id (nat_digits pid) \<noteq> []" "hd (start_frame token job_id (nat_digits pid)) = kFrameStart"
      "end_frame token job_id (nat_digits code) \<noteq> []" "hd (end_frame token job_id (nat_digits code)) = kFrameStart"
    by (simp_all add: start_frame_def end_frame_def)
  have "pending_below kMaxPendingFrameBytes (concat chunks)"
    unfolding assms(11)
    using pending_below_output [OF assms(8) pending_below_Nil]
    by (intro pending_below_output pending_below_frame [OF s ne(1,2)] pending_below_frame [OF e ne(3,4)] assms) simp
  note feed_all_pending_below [OF this]
  then show ?thesis
    unfolding assms(11)
    using scan_output [OF assms(8), of "[]"]
    by (simp add: scan_output assms(6,7) scan_whole_frame [OF s ne(1,2)] scan_whole_frame [OF e ne(3,4)])
qed

text \<open>What a command prints is separated from its frames. For a stream that is some output, the
  start frame of a job, output of the command, its end frame and more output, cut into any pieces, the
  parser delivers exactly the output bytes in order, the process id between the two and the exit code
  after the second, and keeps nothing back, provided the output has no frame start byte and the frames
  are within the limit.\<close>

theorem command_stream_parsed:
  assumes "kFieldSeparator \<notin> set token" and "kFieldSeparator \<notin> set job_id"
    and "0 < pid" and "int pid \<le> 9223372036854775807" and "int code \<le> INT_MAX"
    and "kFrameStart \<notin> set before" and "kFrameStart \<notin> set printed" and "kFrameStart \<notin> set after"
    and "length (start_frame token job_id (nat_digits pid)) \<le> kMaxPendingFrameBytes"
    and "length (end_frame token job_id (nat_digits code)) \<le> kMaxPendingFrameBytes"
    and "concat chunks = before @ start_frame token job_id (nat_digits pid) @ printed
           @ end_frame token job_id (nat_digits code) @ after"
  shows "bytes_of (fst (feed_all [] chunks)) =
      map (\<lambda>c. On_Output [c]) before @ [On_Pid token job_id (int pid)]
      @ map (\<lambda>c. On_Output [c]) printed @ [On_End token job_id (int code)] @ map (\<lambda>c. On_Output [c]) after
    \<and> snd (feed_all [] chunks) = []"
  using command_stream_calls [OF assms] .

lemma all_upto_2: "(\<forall>k\<le>Suc (Suc 0). P k) \<longleftrightarrow> P 0 \<and> P 1 \<and> P 2"
  by (auto simp: le_Suc_eq numeral_2_eq_2)

definition demo_chunks :: "string list" where
  "demo_chunks = [''a'' @ [kFrameStart], ''VELIX_END'' @ [kFieldSeparator] @ ''b'']"

lemma feed_pieces_witness:
  "bytes_of (fst (feed_all [] demo_chunks)) = bytes_of (fst (feed [] (concat demo_chunks)))"
proof -
  have "length demo_chunks = Suc (Suc 0)" by (simp add: demo_chunks_def)
  moreover have "length (snd (feed [] (concat (take 0 demo_chunks)))) < kMaxPendingFrameBytes"
      "length (snd (feed [] (concat (take 1 demo_chunks)))) < kMaxPendingFrameBytes"
      "length (snd (feed [] (concat (take 2 demo_chunks)))) < kMaxPendingFrameBytes"
    by code_simp+
  ultimately have "\<forall>k\<le>length demo_chunks. length (snd (feed [] (concat (take k demo_chunks)))) < kMaxPendingFrameBytes"
    by (simp add: all_upto_2)
  from feed_pieces [OF this] show ?thesis by simp
qed

lemma command_stream_parsed_witness:
  "bytes_of (fst (feed_all [] [start_frame ''t'' ''j'' (nat_digits 7) @ ''hi'' @ end_frame ''t'' ''j'' (nat_digits 0)]))
     = [On_Pid ''t'' ''j'' 7, On_Output ''h'', On_Output ''i'', On_End ''t'' ''j'' 0]"
proof -
  have len: "length (start_frame ''t'' ''j'' (nat_digits 7)) \<le> kMaxPendingFrameBytes"
      "length (end_frame ''t'' ''j'' (nat_digits 0)) \<le> kMaxPendingFrameBytes"
    by code_simp+
  show ?thesis
    using command_stream_parsed [of "''t''" "''j''" 7 0 "[]" "''hi''" "[]"
        "[start_frame ''t'' ''j'' (nat_digits 7) @ ''hi'' @ end_frame ''t'' ''j'' (nat_digits 0)]", OF _ _ _ _ _ _ _ _ len]
    by (simp add: sentinel_chars)
qed

text \<open>Output that ends in the opening of a frame takes the fields of the real end frame for its own:
  the call carries another token and the frame is gone.\<close>

lemma end_frame_swallowed:
  "fst (feed [] ([kFrameStart] @ kEndTag @ [kFieldSeparator] @ end_frame ''token'' ''job'' ''0''))
     = [On_End (kFrameStart # kEndTag) ''token'' 0, On_Output (''0'' @ [kFieldSeparator])]"
  by code_simp

section \<open>The command line for the shell\<close>

definition shell_quote :: "string \<Rightarrow> string" where
  "shell_quote s =
     [CHR 0x27] @ concat (map (\<lambda>c. if c = CHR 0x27 then [CHR 0x27, CHR 0x5C, CHR 0x27, CHR 0x27] else [c]) s) @ [CHR 0x27]"

text \<open>What \<open>exec\<close> writes to the shell. \<open>printf\<close> turns the octal escapes into the frame bytes.\<close>

definition exec_payload :: "string \<Rightarrow> string \<Rightarrow> string \<Rightarrow> string" where
  "exec_payload session_token job_id cmd =
     ''__velix_cmd='' @ shell_quote cmd @ '' ; ''
     @ ''printf '' @ [CHR 0x27, CHR 0x5C] @ ''036VELIX_START'' @ [CHR 0x5C] @ ''037'' @ session_token @ [CHR 0x5C] @ ''037''
     @ job_id @ [CHR 0x5C] @ ''037%s'' @ [CHR 0x5C] @ ''037'' @ [CHR 0x27] @ '' '' @ [CHR 0x22] @ ''${BASHPID:-$$}''
     @ [CHR 0x22] @ '' ; ''
     @ ''eval '' @ [CHR 0x22] @ ''$__velix_cmd'' @ [CHR 0x22] @ '' ; ''
     @ ''__velix_ec=$? ; ''
     @ ''printf '' @ [CHR 0x27, CHR 0x5C] @ ''036VELIX_END'' @ [CHR 0x5C] @ ''037'' @ session_token @ [CHR 0x5C] @ ''037''
     @ job_id @ [CHR 0x5C] @ ''037%s'' @ [CHR 0x5C] @ ''037'' @ [CHR 0x27] @ '' '' @ [CHR 0x22] @ ''$__velix_ec'' @ [CHR 0x22]
     @ '' ; ''
     @ ''unset __velix_cmd __velix_ec'' @ [CHR 0x0A]"

text \<open>How a POSIX shell reads a word: single quotes keep everything up to the next one, a backslash
  keeps the next character, and an unquoted blank, operator or expansion ends what is read here.\<close>

fun sh_single :: "string \<Rightarrow> (string \<times> string) option" where
  "sh_single [] = None"
| "sh_single (c # s) = (if c = CHR 0x27 then Some ([], s) else map_option (\<lambda>(q, r). (c # q, r)) (sh_single s))"

lemma sh_single_shorter: "sh_single s = Some (q, r) \<Longrightarrow> length r < length s"
  by (induction s arbitrary: q r) (auto split: if_splits intro: less_SucI)

function sh_word :: "string \<Rightarrow> (string \<times> string) option" where
  "sh_word [] = Some ([], [])"
| "sh_word (c # s) =
     (if c = CHR 0x27
      then (case sh_single s of None \<Rightarrow> None | Some (q, r) \<Rightarrow> map_option (\<lambda>(w, t). (q @ w, t)) (sh_word r))
      else if c = CHR 0x5C
      then (case s of [] \<Rightarrow> None | d # r \<Rightarrow> map_option (\<lambda>(w, t). (d # w, t)) (sh_word r))
      else if isspace c \<or> c \<in> set '';&|<>()$`'' \<or> c = CHR 0x22 then Some ([], c # s)
      else map_option (\<lambda>(w, t). (c # w, t)) (sh_word s))"
  by pat_completeness auto
termination
  by (relation "measure length") (auto dest: sh_single_shorter)

declare sh_word.simps(2) [simp del]

definition quote_body :: "string \<Rightarrow> string" where
  "quote_body s = concat (map (\<lambda>c. if c = CHR 0x27 then [CHR 0x27, CHR 0x5C, CHR 0x27, CHR 0x27] else [c]) s)"

lemma sh_single_plain:
  "CHR 0x27 \<notin> set u \<Longrightarrow> sh_single (u @ CHR 0x27 # r) = Some (u, r)"
  by (induction u) auto

lemma sh_word_quoted:
  "CHR 0x27 \<notin> set u \<Longrightarrow> sh_word (CHR 0x27 # u @ CHR 0x27 # r) = map_option (\<lambda>(w, t). (u @ w, t)) (sh_word r)"
  by (simp add: sh_word.simps(2) sh_single_plain)

lemma sh_word_escaped: "sh_word (CHR 0x5C # d # r) = map_option (\<lambda>(w, t). (d # w, t)) (sh_word r)"
  by (simp add: sh_word.simps(2))

lemma sh_word_quote_body:
  "CHR 0x27 \<notin> set u \<Longrightarrow> sh_word r = Some ([], r) \<Longrightarrow>
     sh_word (CHR 0x27 # u @ quote_body s @ CHR 0x27 # r) = Some (u @ s, r)"
proof (induction s arbitrary: u)
  case Nil
  then show ?case by (simp add: quote_body_def sh_word_quoted)
next
  case (Cons c s)
  show ?case
  proof (cases "c = CHR 0x27")
    case True
    have "sh_word (CHR 0x27 # quote_body s @ CHR 0x27 # r) = Some (s, r)"
      using Cons.IH [of "[]"] Cons.prems by simp
    then show ?thesis
      using True Cons.prems sh_word_quoted [of u "CHR 0x5C # CHR 0x27 # CHR 0x27 # quote_body s @ CHR 0x27 # r"]
      by (simp add: quote_body_def sh_word_escaped)
  next
    case False
    then show ?thesis using Cons.IH [of "u @ [c]"] Cons.prems by (simp add: quote_body_def)
  qed
qed

lemma shell_quote_word: "sh_word r = Some ([], r) \<Longrightarrow> sh_word (shell_quote s @ r) = Some (s, r)"
  using sh_word_quote_body [of "[]" r s] by (simp add: shell_quote_def quote_body_def)

text \<open>A command cannot break out of its quotes. In the line that \<open>exec\<close> writes, the first word the
  shell reads assigns exactly the text of the command, whatever quotes, blanks and operators it
  contains, and what follows is the rest of the line as it was built.\<close>

theorem payload_carries_command:
  "sh_word (exec_payload session_token job_id cmd)
     = Some (''__velix_cmd='' @ cmd,
             drop (length (''__velix_cmd='' @ shell_quote cmd)) (exec_payload session_token job_id cmd))"
proof -
  define r where "r = drop (length (''__velix_cmd='' @ shell_quote cmd)) (exec_payload session_token job_id cmd)"
  have payload: "exec_payload session_token job_id cmd = ''__velix_cmd='' @ shell_quote cmd @ r"
    by (simp add: r_def exec_payload_def)
  have "hd r = CHR '' ''" "r \<noteq> []" by (simp_all add: r_def exec_payload_def)
  then have "sh_word r = Some ([], r)" by (cases r) (auto simp: sh_word.simps(2) isspace_def)
  note w = shell_quote_word [OF this, of cmd]
  have ok: "\<forall>c\<in>set ''__velix_cmd=''. c \<noteq> CHR 0x27 \<and> c \<noteq> CHR 0x5C
      \<and> \<not> (isspace c \<or> c \<in> set '';&|<>()$`'' \<or> c = CHR 0x22)"
    by code_simp
  have "sh_word (u @ s) = map_option (\<lambda>(w, t). (u @ w, t)) (sh_word s)"
    if "\<forall>c\<in>set u. c \<noteq> CHR 0x27 \<and> c \<noteq> CHR 0x5C \<and> \<not> (isspace c \<or> c \<in> set '';&|<>()$`'' \<or> c = CHR 0x22)" for u s
    using that
  proof (induction u)
    case (Cons a u)
    then show ?case by (cases "sh_word s") (auto simp: sh_word.simps(2))
  qed (simp add: option.map_ident_strong)
  from this [OF ok] show ?thesis using w by (simp add: payload flip: r_def)
qed

end
