(* ===== verification/Terminal_Driver.thy ===== *)
theory Terminal_Driver
  imports Sentinel File_Text
begin

text \<open>
  \<^verbatim>\<open>core/persistant_applications/terminal_driver.cpp\<close> and \<^verbatim>\<open>.hpp\<close>: the job store, the job that a
  pseudo terminal session runs, with the reader, time-out, cancel, close and exec steps that the
  threads of \<open>LocalPTYDriver\<close> take under its locks, the one-shot commands, the driver factory and the
  working directory of a sandbox. The operating system is seen through its answers (bytes read,
  results of \<open>kill\<close>, \<open>getpgid\<close> and \<open>waitpid\<close>, the clock), which are arguments of the steps.
\<close>

section \<open>Job store\<close>

datatype job_status = Job_Running | Job_Finished | Job_Error | Job_Timeout

fun job_status_string :: "job_status \<Rightarrow> string" where
  "job_status_string Job_Running = ''running''"
| "job_status_string Job_Finished = ''finished''"
| "job_status_string Job_Error = ''error''"
| "job_status_string Job_Timeout = ''timeout''"

record job =
  j_job_id :: string
  j_session_id :: string
  j_cmd :: string
  j_status :: job_status
  j_exit_code :: int
  j_output :: string
  j_submitted_at_ms :: u64
  j_finished_at_ms :: u64

type_synonym job_store = "(string, job) table"

definition js_upsert :: "job \<Rightarrow> job_store \<Rightarrow> job_store" where
  "js_upsert j js = tput (j_job_id j) j js"

definition js_get :: "string \<Rightarrow> job_store \<Rightarrow> job option" where
  "js_get job_id js = tget js job_id"

definition js_append_output :: "string \<Rightarrow> string \<Rightarrow> job_store \<Rightarrow> job_store" where
  "js_append_output job_id chunk js =
     (if chunk = [] then js else tmodify job_id (\<lambda>j. j\<lparr>j_output := j_output j @ chunk\<rparr>) js)"

definition js_finish :: "u64 \<Rightarrow> string \<Rightarrow> job_status \<Rightarrow> int \<Rightarrow> job_store \<Rightarrow> job_store" where
  "js_finish now job_id status exit_code js =
     tmodify job_id (\<lambda>j. j\<lparr>j_status := status, j_exit_code := exit_code, j_finished_at_ms := now\<rparr>) js"

definition js_prune :: "u64 \<Rightarrow> u64 \<Rightarrow> job_store \<Rightarrow> job_store" where
  "js_prune now max_age_ms js =
     filter (\<lambda>(_, j). \<not> (j_status j \<noteq> Job_Running \<and> now - j_finished_at_ms j > max_age_ms)) js"

section \<open>LocalPTYDriver\<close>

record pending_job =
  pj_job_id :: string
  pj_timeout_sec :: int
  pj_deadline :: "int option"
  pj_job_pgid :: int

text \<open>\<open>pd_sent\<close> records the signals sent, a negative target being a process group.\<close>

datatype sig = SIGINT | SIGKILL | SIGHUP

record pty_driver =
  pd_session_token :: string
  pd_alive :: bool
  pd_shell_pid :: int
  pd_fd_open :: bool
  pd_current_job :: "pending_job option"
  pd_store :: job_store
  pd_buf :: string
  pd_reader_running :: bool
  pd_timeout_stop :: bool
  pd_timeout_joinable :: bool
  pd_sent :: "(int \<times> sig) list"

definition make_job_id :: "nat \<Rightarrow> nat \<Rightarrow> string" where
  "make_job_id ms n = ''job_'' @ nat_digits ms @ ''_'' @ nat_digits n"

definition finish_current :: "u64 \<Rightarrow> job_status \<Rightarrow> int \<Rightarrow> pty_driver \<Rightarrow> pty_driver" where
  "finish_current now st code d =
     (case pd_current_job d of
        None \<Rightarrow> d
      | Some pj \<Rightarrow> d\<lparr>pd_store := js_finish now (pj_job_id pj) st code (pd_store d), pd_current_job := None\<rparr>)"

definition finish_job_locked :: "u64 \<Rightarrow> string \<Rightarrow> job_status \<Rightarrow> int \<Rightarrow> pty_driver \<Rightarrow> pty_driver" where
  "finish_job_locked now job_id st code d =
     (case pd_current_job d of
        None \<Rightarrow> d
      | Some pj \<Rightarrow>
          if pj_job_id pj = job_id
          then d\<lparr>pd_store := js_finish now job_id st code (pd_store d), pd_current_job := None\<rparr>
          else d)"

text \<open>The three callbacks of the reader. \<open>getpgid\<close> is the answer of the system call for a process.\<close>

fun on_sentinel :: "u64 \<Rightarrow> (int \<Rightarrow> int) \<Rightarrow> sentinel_event \<Rightarrow> pty_driver \<Rightarrow> pty_driver" where
  "on_sentinel now getpgid (On_Output chunk) d =
     (case pd_current_job d of
        None \<Rightarrow> d
      | Some pj \<Rightarrow> d\<lparr>pd_store := js_append_output (pj_job_id pj) chunk (pd_store d)\<rparr>)"
| "on_sentinel now getpgid (On_Pid token job_id pid) d =
     (if token \<noteq> pd_session_token d \<or> pid \<le> 0 then d
      else case pd_current_job d of
             None \<Rightarrow> d
           | Some pj \<Rightarrow>
               if pj_job_id pj = job_id
               then (let pgid = (if getpgid pid \<le> 0 then pid else getpgid pid)
                     in d\<lparr>pd_current_job := Some (pj\<lparr>pj_job_pgid := pgid\<rparr>)\<rparr>)
               else d)"
| "on_sentinel now getpgid (On_End token job_id exit_code) d =
     (if token \<noteq> pd_session_token d then d
      else finish_job_locked now job_id (if exit_code = 124 then Job_Timeout else Job_Finished) exit_code d)"

text \<open>One successful \<open>read\<close> of the reader loop.\<close>

definition reader_feed :: "u64 \<Rightarrow> (int \<Rightarrow> int) \<Rightarrow> string \<Rightarrow> pty_driver \<Rightarrow> pty_driver" where
  "reader_feed now getpgid data d =
     (case feed (pd_buf d) data of
        (calls, rest) \<Rightarrow> fold (on_sentinel now getpgid) calls (d\<lparr>pd_buf := rest\<rparr>))"

text \<open>The end of the reader loop; \<open>reaped\<close> is whether \<open>waitpid\<close> returned the shell.\<close>

definition reader_exit :: "u64 \<Rightarrow> (int \<Rightarrow> int) \<Rightarrow> bool \<Rightarrow> pty_driver \<Rightarrow> pty_driver" where
  "reader_exit now getpgid reaped d =
     (let d1 = fold (on_sentinel now getpgid) (flush_remaining (pd_buf d)) (d\<lparr>pd_buf := []\<rparr>);
          d2 = (if pd_shell_pid d1 > 0 \<and> reaped then d1\<lparr>pd_shell_pid := - 1\<rparr> else d1)
      in finish_current now Job_Error (- 1) (d2\<lparr>pd_alive := False, pd_reader_running := False\<rparr>))"

text \<open>\<open>timeout_loop\<close> woke at its deadline for the job it had captured.\<close>

definition timeout_fire :: "u64 \<Rightarrow> string \<Rightarrow> pty_driver \<Rightarrow> pty_driver" where
  "timeout_fire now job_id d =
     (if pd_timeout_stop d then d
      else case pd_current_job d of
             None \<Rightarrow> d
           | Some pj \<Rightarrow>
               if pj_job_id pj \<noteq> job_id then d
               else (let sent = (if pj_job_pgid pj > 1 then [(- pj_job_pgid pj, SIGKILL)]
                                 else if pd_shell_pid d > 0 then [(pd_shell_pid d, SIGKILL)] else [])
                     in finish_job_locked now job_id Job_Timeout 124 (d\<lparr>pd_sent := pd_sent d @ sent\<rparr>)))"

definition pty_cancel_current_job :: "bool \<Rightarrow> pty_driver \<Rightarrow> bool \<times> pty_driver" where
  "pty_cancel_current_job killed d =
     (case pd_current_job d of
        None \<Rightarrow> (False, d)
      | Some pj \<Rightarrow>
          if pj_job_pgid pj \<le> 0 then (False, d)
          else if pj_job_pgid pj \<le> 1 then (False, d)
          else (killed, d\<lparr>pd_sent := pd_sent d @ [(- pj_job_pgid pj, SIGINT)]\<rparr>))"

text \<open>\<open>close\<close>. Joining the reader thread lets it end; the time-out thread ends only when
  \<open>timeout_stop\<close> is set, and joining it before that never returns, which is \<open>None\<close>.\<close>

definition join_reader :: "u64 \<Rightarrow> (int \<Rightarrow> int) \<Rightarrow> bool \<Rightarrow> pty_driver \<Rightarrow> pty_driver" where
  "join_reader now getpgid reaped d = (if pd_reader_running d then reader_exit now getpgid reaped d else d)"

definition join_timeout :: "pty_driver \<Rightarrow> pty_driver option" where
  "join_timeout d =
     (if \<not> pd_timeout_joinable d then Some d
      else if pd_timeout_stop d then Some (d\<lparr>pd_timeout_joinable := False\<rparr>)
      else None)"

definition kill_shell :: "pty_driver \<Rightarrow> pty_driver" where
  "kill_shell d =
     (let pid_to_kill = pd_shell_pid d;
          d1 = d\<lparr>pd_shell_pid := - 1\<rparr>
      in (if pid_to_kill > 0 then d1\<lparr>pd_sent := pd_sent d1 @ [(pid_to_kill, SIGHUP), (pid_to_kill, SIGKILL)]\<rparr> else d1)
           \<lparr>pd_fd_open := False\<rparr>)"

definition pty_close :: "u64 \<Rightarrow> (int \<Rightarrow> int) \<Rightarrow> bool \<Rightarrow> pty_driver \<Rightarrow> pty_driver option" where
  "pty_close now getpgid reaped d =
     (if \<not> pd_alive d then join_timeout (join_reader now getpgid reaped d)
      else case join_timeout (d\<lparr>pd_alive := False, pd_timeout_stop := True\<rparr>) of
             None \<Rightarrow> None
           | Some d1 \<Rightarrow>
               Some (finish_current now Job_Error (- 1) (join_reader now getpgid reaped (kill_shell d1))))"

text \<open>\<open>exec\<close> in the pieces between which other threads run: the wait for a free shell, the
  registration of the job, and the write.\<close>

definition exec_ready :: "pty_driver \<Rightarrow> bool" where
  "exec_ready d \<longleftrightarrow> pd_alive d \<and> pd_current_job d = None"

definition exec_register :: "u64 \<Rightarrow> int \<Rightarrow> string \<Rightarrow> string \<Rightarrow> int \<Rightarrow> pty_driver \<Rightarrow> pty_driver" where
  "exec_register now steady job_id cmd timeout_sec d =
     d\<lparr>pd_store := js_upsert \<lparr>j_job_id = job_id, j_session_id = [], j_cmd = cmd, j_status = Job_Running,
           j_exit_code = - 1, j_output = [], j_submitted_at_ms = now, j_finished_at_ms = 0\<rparr> (pd_store d),
       pd_current_job := Some \<lparr>pj_job_id = job_id, pj_timeout_sec = timeout_sec,
           pj_deadline = (if timeout_sec > 0 then Some (steady + 1000 * timeout_sec) else None), pj_job_pgid = - 1\<rparr>\<rparr>"

definition exec_write_failed :: "u64 \<Rightarrow> string \<Rightarrow> pty_driver \<Rightarrow> pty_driver" where
  "exec_write_failed now job_id d = (finish_job_locked now job_id Job_Error (- 1) d)\<lparr>pd_alive := False\<rparr>"

text \<open>\<open>write_to_shell\<close>: \<open>sent\<close> is what the calls of \<open>write\<close> return.\<close>

fun write_all :: "string \<Rightarrow> int list \<Rightarrow> bool option" where
  "write_all [] ns = Some True"
| "write_all data [] = None"
| "write_all data (n # ns) = (if n \<le> 0 then Some False else write_all (drop (nat n) data) ns)"

definition write_to_shell :: "pty_driver \<Rightarrow> string \<Rightarrow> int list \<Rightarrow> bool option" where
  "write_to_shell d data ns = (if \<not> pd_fd_open d \<or> \<not> pd_alive d then Some False else write_all data ns)"

text \<open>The call without interference, with the outcome of the write.\<close>

definition pty_exec :: "u64 \<Rightarrow> int \<Rightarrow> string \<Rightarrow> bool \<Rightarrow> string \<Rightarrow> int \<Rightarrow> pty_driver \<Rightarrow> string res \<times> pty_driver" where
  "pty_exec now steady job_id written cmd timeout_sec d =
     (if \<not> pd_alive d then (Inl (Runtime_Error ''LocalPTYDriver: shell is not alive''), d)
      else if pd_current_job d \<noteq> None
      then (Inl (Runtime_Error ''exec: previous job did not complete within 5 minutes''), d)
      else
        let d1 = exec_register now steady job_id cmd timeout_sec d
        in if \<not> written
           then (Inl (Runtime_Error ''exec: failed to write to shell stdin''), exec_write_failed now job_id d1)
           else (Inr job_id, d1))"

section \<open>Interleavings\<close>

text \<open>The driver, the counter of \<open>make_job_id\<close>, and the number of \<open>exec\<close> calls between the wait for
  a free shell and the registration of their job.\<close>

record pty_world =
  pw_driver :: pty_driver
  pw_counter :: nat
  pw_ready :: nat

inductive pty_step :: "pty_world \<Rightarrow> pty_world \<Rightarrow> bool" where
  wait_over: "exec_ready (pw_driver w) \<Longrightarrow> pty_step w (w\<lparr>pw_ready := Suc (pw_ready w)\<rparr>)"
| register: "pw_ready w > 0 \<Longrightarrow>
    pty_step w \<lparr>pw_driver = exec_register now steady (make_job_id ms (pw_counter w)) cmd timeout_sec (pw_driver w),
                pw_counter = Suc (pw_counter w), pw_ready = pw_ready w - 1\<rparr>"
| write_fails: "pty_step w (w\<lparr>pw_driver := exec_write_failed now job_id (pw_driver w)\<rparr>)"
| read: "pd_reader_running (pw_driver w) \<Longrightarrow> pty_step w (w\<lparr>pw_driver := reader_feed now getpgid data (pw_driver w)\<rparr>)"
| read_ends: "pd_reader_running (pw_driver w) \<Longrightarrow>
    pty_step w (w\<lparr>pw_driver := reader_exit now getpgid reaped (pw_driver w)\<rparr>)"
| timeout: "pty_step w (w\<lparr>pw_driver := timeout_fire now job_id (pw_driver w)\<rparr>)"
| cancel: "pty_step w (w\<lparr>pw_driver := snd (pty_cancel_current_job killed (pw_driver w))\<rparr>)"
| close: "pty_close now getpgid reaped (pw_driver w) = Some d \<Longrightarrow> pty_step w (w\<lparr>pw_driver := d\<rparr>)"
| prune: "pty_step w (w\<lparr>pw_driver := (pw_driver w)\<lparr>pd_store := js_prune now max_age (pd_store (pw_driver w))\<rparr>\<rparr>)"

definition pty_init :: "pty_world \<Rightarrow> bool" where
  "pty_init w \<longleftrightarrow> pd_store (pw_driver w) = [] \<and> pd_current_job (pw_driver w) = None"

text \<open>Issued ids, and the current job running in the store.\<close>

definition pty_inv :: "pty_world \<Rightarrow> bool" where
  "pty_inv w \<longleftrightarrow> table_ok (pd_store (pw_driver w))
     \<and> (\<forall>id j. tget (pd_store (pw_driver w)) id = Some j \<longrightarrow> (\<exists>ms n. id = make_job_id ms n \<and> n < pw_counter w))
     \<and> (\<forall>pj. pd_current_job (pw_driver w) = Some pj \<longrightarrow>
          (\<exists>j. tget (pd_store (pw_driver w)) (pj_job_id pj) = Some j \<and> j_status j = Job_Running))"

text \<open>What a step of the driver may do to the jobs: the current one is appended to or ended, the
  others keep their records.\<close>

definition only_current :: "pty_driver \<Rightarrow> pty_driver \<Rightarrow> bool" where
  "only_current d d' \<longleftrightarrow>
     (\<forall>id. (\<forall>pj. pd_current_job d = Some pj \<longrightarrow> pj_job_id pj \<noteq> id) \<longrightarrow> tget (pd_store d') id = tget (pd_store d) id)
     \<and> (\<forall>pj. pd_current_job d' = Some pj \<longrightarrow> (\<exists>qj. pd_current_job d = Some qj \<and> pj_job_id pj = pj_job_id qj
          \<and> map_option j_status (tget (pd_store d') (pj_job_id pj)) = map_option j_status (tget (pd_store d) (pj_job_id pj))))
     \<and> (\<forall>id. tget (pd_store d') id = None \<longleftrightarrow> tget (pd_store d) id = None)
     \<and> (table_ok (pd_store d) \<longrightarrow> table_ok (pd_store d'))"

lemma only_current_refl: "pd_store d' = pd_store d \<Longrightarrow> pd_current_job d' = pd_current_job d \<Longrightarrow> only_current d d'"
  by (auto simp: only_current_def)

lemma only_current_trans: "only_current a b \<Longrightarrow> only_current b c \<Longrightarrow> only_current a c"
  unfolding only_current_def by (cases "pd_current_job a"; cases "pd_current_job b"; cases "pd_current_job c") auto

lemma only_current_finish: "only_current d (finish_current now st code d)"
  by (auto simp: only_current_def finish_current_def js_finish_def split: option.splits)

lemma only_current_finish_job: "only_current d (finish_job_locked now job_id st code d)"
  by (auto simp: only_current_def finish_job_locked_def js_finish_def split: option.splits)

lemma only_current_event: "only_current d (on_sentinel now getpgid e d)"
proof (cases e)
  case (On_End token job_id code)
  then show ?thesis by (simp add: only_current_finish_job only_current_refl)
qed (auto simp: only_current_def js_append_output_def Let_def option.map_comp comp_def split: option.splits)

lemma only_current_events: "only_current d (fold (on_sentinel now getpgid) es d)"
  by (induction es arbitrary: d)
    (auto intro: only_current_refl only_current_trans [OF only_current_event])

lemma only_current_feed: "only_current d (reader_feed now getpgid data d)"
  unfolding reader_feed_def
  by (auto intro: only_current_trans [OF only_current_refl only_current_events] split: prod.splits)

lemma only_current_reader_exit: "only_current d (reader_exit now getpgid reaped d)"
proof -
  define d1 where "d1 = fold (on_sentinel now getpgid) (flush_remaining (pd_buf d)) (d\<lparr>pd_buf := []\<rparr>)"
  define d2 where "d2 = (if pd_shell_pid d1 > 0 \<and> reaped then d1\<lparr>pd_shell_pid := - 1\<rparr> else d1)
      \<lparr>pd_alive := False, pd_reader_running := False\<rparr>"
  have "only_current d (d\<lparr>pd_buf := []\<rparr>)" by (rule only_current_refl) simp_all
  then have "only_current d d1" unfolding d1_def using only_current_events by (rule only_current_trans)
  moreover have "only_current d1 d2" by (rule only_current_refl) (simp_all add: d2_def)
  moreover have "reader_exit now getpgid reaped d = finish_current now Job_Error (- 1) d2"
    by (simp add: reader_exit_def Let_def d2_def flip: d1_def)
  ultimately show ?thesis by (metis only_current_trans only_current_finish)
qed

lemma only_current_timeout: "only_current d (timeout_fire now job_id d)"
  by (auto simp: timeout_fire_def Let_def split: option.splits
      intro: only_current_refl only_current_trans [OF only_current_refl only_current_finish_job])

lemma only_current_cancel: "only_current d (snd (pty_cancel_current_job killed d))"
  by (auto simp: pty_cancel_current_job_def split: option.splits intro: only_current_refl)

lemma only_current_write_failed: "only_current d (exec_write_failed now job_id d)"
  unfolding exec_write_failed_def
  by (rule only_current_trans [OF only_current_finish_job only_current_refl]) auto

lemma only_current_join_reader: "only_current d (join_reader now getpgid reaped d)"
  by (simp add: join_reader_def only_current_reader_exit only_current_refl)

lemma join_timeout_only: "join_timeout d = Some d' \<Longrightarrow> only_current d d'"
  by (auto simp: join_timeout_def split: if_splits intro: only_current_refl)

lemma only_current_close: "pty_close now getpgid reaped d = Some d' \<Longrightarrow> only_current d d'"
proof -
  assume closed: "pty_close now getpgid reaped d = Some d'"
  show ?thesis
  proof (cases "pd_alive d")
    case False
    with closed show ?thesis
      unfolding pty_close_def by (auto intro: only_current_trans [OF only_current_join_reader] join_timeout_only)
  next
    case True
    then obtain d1 where d1: "join_timeout (d\<lparr>pd_alive := False, pd_timeout_stop := True\<rparr>) = Some d1"
      and d': "d' = finish_current now Job_Error (- 1) (join_reader now getpgid reaped (kill_shell d1))"
      using closed by (auto simp: pty_close_def split: option.splits)
    have "only_current d d1"
      by (rule only_current_trans [OF only_current_refl join_timeout_only [OF d1]]) auto
    moreover have "only_current d1 (kill_shell d1)"
      by (rule only_current_refl) (auto simp: kill_shell_def Let_def)
    ultimately show ?thesis
      unfolding d' by (blast intro: only_current_trans only_current_finish only_current_join_reader)
  qed
qed

lemma make_job_id_counter: "make_job_id ms n = make_job_id ms' n' \<Longrightarrow> n = n'"
proof -
  have us: "CHR ''_'' \<notin> set (nat_digits k)" for k
    using nat_digits_isdigit [of k] by (auto simp: list_all_iff isdigit_def)
  have drop: "dropWhile (\<lambda>c. c \<noteq> CHR ''_'') (nat_digits a @ CHR ''_'' # b) = CHR ''_'' # b" for a b
    using us [of a] by (subst dropWhile_append2) auto
  assume "make_job_id ms n = make_job_id ms' n'"
  then have "nat_digits ms @ CHR ''_'' # nat_digits n = nat_digits ms' @ CHR ''_'' # nat_digits n'"
    by (simp add: make_job_id_def)
  from arg_cong [OF this, of "dropWhile (\<lambda>c. c \<noteq> CHR ''_'')"] show "n = n'"
    by (simp add: drop nat_digits_inj)
qed

lemma table_ok_prune [simp, intro]: "table_ok js \<Longrightarrow> table_ok (js_prune now age js)"
  by (simp add: js_prune_def)

lemma tget_prune:
  "table_ok js \<Longrightarrow> tget (js_prune now age js) k =
     (case tget js k of None \<Rightarrow> None
      | Some j \<Rightarrow> if j_status j \<noteq> Job_Running \<and> now - j_finished_at_ms j > age then None else Some j)"
  unfolding js_prune_def by (subst tget_filter) (auto split: option.splits)

text \<open>Every step but the registration and the pruning works on the current job only.\<close>

inductive_cases pty_stepE: "pty_step w w'"

lemma pty_step_cases:
  assumes "pty_step w w'"
  obtains (local) "only_current (pw_driver w) (pw_driver w')" "pw_counter w' = pw_counter w"
  | (registered) now steady ms cmd timeout_sec where
      "pw_driver w' = exec_register now steady (make_job_id ms (pw_counter w)) cmd timeout_sec (pw_driver w)"
      "pw_counter w' = Suc (pw_counter w)"
  | (pruned) now age where
      "pw_driver w' = (pw_driver w)\<lparr>pd_store := js_prune now age (pd_store (pw_driver w))\<rparr>" "pw_counter w' = pw_counter w"
  using assms
  by (cases rule: pty_step.cases)
    (auto intro: only_current_refl only_current_write_failed only_current_feed only_current_reader_exit
      only_current_timeout only_current_cancel only_current_close)

lemma pty_inv_step: "pty_inv w \<Longrightarrow> pty_step w w' \<Longrightarrow> pty_inv w'"
proof -
  assume inv: "pty_inv w" and step: "pty_step w w'"
  from step show "pty_inv w'"
  proof (cases rule: pty_step_cases)
    case local
    have "\<exists>j. tget (pd_store (pw_driver w')) (pj_job_id pj) = Some j \<and> j_status j = Job_Running"
      if cur: "pd_current_job (pw_driver w') = Some pj" for pj
    proof -
      obtain qj where "pd_current_job (pw_driver w) = Some qj" "pj_job_id pj = pj_job_id qj"
        and st: "map_option j_status (tget (pd_store (pw_driver w')) (pj_job_id pj))
          = map_option j_status (tget (pd_store (pw_driver w)) (pj_job_id pj))"
        using local(1) cur unfolding only_current_def by blast
      moreover obtain j where "tget (pd_store (pw_driver w)) (pj_job_id qj) = Some j" "j_status j = Job_Running"
        using inv calculation(1) unfolding pty_inv_def by blast
      ultimately show ?thesis by (cases "tget (pd_store (pw_driver w')) (pj_job_id pj)") auto
    qed
    moreover have "\<exists>ms n. k = make_job_id ms n \<and> n < pw_counter w'"
      if "tget (pd_store (pw_driver w')) k = Some j" for k j
      using that local inv unfolding pty_inv_def only_current_def by (metis option.distinct(1) option.exhaust)
    ultimately show ?thesis using local inv unfolding pty_inv_def only_current_def by blast
  next
    case (registered now steady ms cmd timeout_sec)
    then show ?thesis using inv by (fastforce simp: pty_inv_def exec_register_def js_upsert_def less_Suc_eq)
  next
    case (pruned now age)
    then show ?thesis using inv
      by (auto simp: pty_inv_def tget_prune split: option.splits if_splits)
  qed
qed

interpretation pty: inductive_invariant pty_init pty_step pty_inv
  by unfold_locales (simp add: pty_init_def pty_inv_def, rule pty_inv_step)

lemma idle_job_kept:
  assumes "pty_inv w" and "pty_step w w'" and j: "tget (pd_store (pw_driver w)) job_id = Some j"
    and idle: "\<forall>pj. pd_current_job (pw_driver w) = Some pj \<longrightarrow> pj_job_id pj \<noteq> job_id"
  shows "tget (pd_store (pw_driver w')) job_id \<in> {Some j, None}"
    and "j_status j = Job_Running \<Longrightarrow> tget (pd_store (pw_driver w')) job_id = Some j"
    and "\<forall>pj. pd_current_job (pw_driver w') = Some pj \<longrightarrow> pj_job_id pj \<noteq> job_id"
proof -
  have "tget (pd_store (pw_driver w')) job_id \<in> {Some j, None}
      \<and> (j_status j = Job_Running \<longrightarrow> tget (pd_store (pw_driver w')) job_id = Some j)
      \<and> (\<forall>pj. pd_current_job (pw_driver w') = Some pj \<longrightarrow> pj_job_id pj \<noteq> job_id)"
    using assms(2)
  proof (cases rule: pty_step_cases)
    case local
    then show ?thesis using j idle unfolding only_current_def by (metis insertI1)
  next
    case (registered now steady ms cmd timeout_sec)
    obtain ms' n where "job_id = make_job_id ms' n" "n < pw_counter w" using assms(1) j by (auto simp: pty_inv_def)
    then have "make_job_id ms (pw_counter w) \<noteq> job_id" by (auto dest: make_job_id_counter)
    then show ?thesis using registered j by (auto simp: exec_register_def js_upsert_def)
  next
    case (pruned now age)
    then show ?thesis using assms(1) j idle by (auto simp: pty_inv_def tget_prune)
  qed
  then show "tget (pd_store (pw_driver w')) job_id \<in> {Some j, None}"
    and "j_status j = Job_Running \<Longrightarrow> tget (pd_store (pw_driver w')) job_id = Some j"
    and "\<forall>pj. pd_current_job (pw_driver w') = Some pj \<longrightarrow> pj_job_id pj \<noteq> job_id"
    by blast+
qed

text \<open>C23: The record of a job is final, and only the current job can be ended. In every interleaving of
  \<open>exec\<close> calls, reads, time-outs, cancellations, closing and pruning, a job that has ended keeps its
  status, exit code and output until it is pruned, and a running job that is not the current one of
  the driver stays running with the output it has.\<close>

theorem job_records_final:
  assumes "reach pty_init pty_step w" and "pty_step w w'" and "js_get job_id (pd_store (pw_driver w)) = Some j"
  shows "(j_status j \<noteq> Job_Running \<longrightarrow> js_get job_id (pd_store (pw_driver w')) \<in> {Some j, None})
    \<and> (j_status j = Job_Running \<and> (\<forall>pj. pd_current_job (pw_driver w) = Some pj \<longrightarrow> pj_job_id pj \<noteq> job_id) \<longrightarrow>
         js_get job_id (pd_store (pw_driver w')) = Some j
         \<and> (\<forall>pj. pd_current_job (pw_driver w') = Some pj \<longrightarrow> pj_job_id pj \<noteq> job_id))"
proof -
  note inv = pty.reach_inv [OF assms(1)]
  have j: "tget (pd_store (pw_driver w)) job_id = Some j" using assms(3) by (simp add: js_get_def)
  have "\<forall>pj. pd_current_job (pw_driver w) = Some pj \<longrightarrow> pj_job_id pj \<noteq> job_id" if "j_status j \<noteq> Job_Running"
    using inv j that by (auto simp: pty_inv_def)
  then show ?thesis using idle_job_kept [OF inv assms(2) j] unfolding js_get_def by blast
qed

definition demo_driver :: pty_driver where
  "demo_driver = \<lparr>pd_session_token = ''t'', pd_alive = True, pd_shell_pid = 9, pd_fd_open = True,
     pd_current_job = None, pd_store = [], pd_buf = [], pd_reader_running = True, pd_timeout_stop = False,
     pd_timeout_joinable = True, pd_sent = []\<rparr>"

definition demo_world :: "nat \<Rightarrow> nat \<Rightarrow> pty_driver \<Rightarrow> pty_world" where
  "demo_world counter ready d = \<lparr>pw_driver = d, pw_counter = counter, pw_ready = ready\<rparr>"

text \<open>Two calls of \<open>exec\<close> that find the shell free at the same time: the second replaces the job of the
  first.\<close>

definition two_jobs :: pty_driver where
  "two_jobs = exec_register 5 0 (make_job_id 5 1) ''b'' 0 (exec_register 5 0 (make_job_id 5 0) ''a'' 0 demo_driver)"

lemma two_jobs_reachable: "reach pty_init pty_step (demo_world 2 0 two_jobs)"
proof -
  have r0: "reach pty_init pty_step (demo_world 0 0 demo_driver)"
    by (rule reach_init) (simp add: pty_init_def demo_world_def demo_driver_def)
  have r1: "reach pty_init pty_step (demo_world 0 1 demo_driver)"
    using reach_step [OF r0 wait_over] by (simp add: demo_world_def demo_driver_def exec_ready_def)
  have r2: "reach pty_init pty_step (demo_world 0 2 demo_driver)"
    using reach_step [OF r1 wait_over] by (simp add: demo_world_def demo_driver_def exec_ready_def numeral_2_eq_2)
  have r3: "reach pty_init pty_step (demo_world 1 1 (exec_register 5 0 (make_job_id 5 0) ''a'' 0 demo_driver))"
    using reach_step [OF r2 register [of "demo_world 0 2 demo_driver" 5 0 5 "''a''" 0]] by (simp add: demo_world_def)
  show ?thesis
    using reach_step [OF r3 register [of _ 5 0 5 "''b''" 0]] by (simp add: demo_world_def two_jobs_def numeral_2_eq_2)
qed

lemma job_records_final_witness:
  "map_option j_status (js_get (make_job_id 5 0)
     (pd_store (finish_current 7 Job_Finished 0 two_jobs))) = Some Job_Running"
proof -
  have store: "js_get (make_job_id 5 0) (pd_store two_jobs) = Some \<lparr>j_job_id = make_job_id 5 0, j_session_id = [],
      j_cmd = ''a'', j_status = Job_Running, j_exit_code = - 1, j_output = [], j_submitted_at_ms = 5, j_finished_at_ms = 0\<rparr>"
    and other: "\<forall>pj. pd_current_job two_jobs = Some pj \<longrightarrow> pj_job_id pj \<noteq> make_job_id 5 0"
    by (auto simp: two_jobs_def exec_register_def js_upsert_def js_get_def demo_driver_def dest: make_job_id_counter)
  have "pty_step (demo_world 2 0 two_jobs) (demo_world 2 0 (finish_job_locked 7 (make_job_id 5 1) Job_Error (- 1) two_jobs
      \<lparr>pd_alive := False\<rparr>))"
    using write_fails [of "demo_world 2 0 two_jobs" 7 "make_job_id 5 1"] by (simp add: demo_world_def exec_write_failed_def)
  from job_records_final [OF two_jobs_reachable this, of "make_job_id 5 0"] store other
  have "js_get (make_job_id 5 0) (pd_store (finish_job_locked 7 (make_job_id 5 1) Job_Error (- 1) two_jobs)) \<noteq> None"
    by (simp add: demo_world_def)
  then show ?thesis
    using store other by (auto simp: finish_current_def js_finish_def js_get_def two_jobs_def exec_register_def)
qed

text \<open>So the first of two such jobs never ends: no later step gives it a result.\<close>

lemma orphaned_job_never_ends:
  assumes "pty_inv w" and "pty_step\<^sup>*\<^sup>* w w'" and "tget (pd_store (pw_driver w)) job_id = Some j"
    and "j_status j = Job_Running" and "\<forall>pj. pd_current_job (pw_driver w) = Some pj \<longrightarrow> pj_job_id pj \<noteq> job_id"
  shows "pty_inv w' \<and> tget (pd_store (pw_driver w')) job_id = Some j
    \<and> (\<forall>pj. pd_current_job (pw_driver w') = Some pj \<longrightarrow> pj_job_id pj \<noteq> job_id)"
  using assms(2)
proof (induction rule: rtranclp_induct)
  case base
  show ?case using assms(1,3,5) by blast
next
  case (step u v)
  note kept = idle_job_kept [of u v job_id j, OF _ step.hyps(2)]
  show ?case using step.IH kept assms(4) pty_inv_step [OF _ step.hyps(2)] by blast
qed

text \<open>The age of a job that ended after the clock was read wraps around, and the job is dropped before
  anybody could read its result.\<close>

lemma fresh_job_pruned:
  "js_prune 1000 3600000 [(''j'', \<lparr>j_job_id = ''j'', j_session_id = [], j_cmd = [], j_status = Job_Finished,
     j_exit_code = 0, j_output = [], j_submitted_at_ms = 900, j_finished_at_ms = 1001\<rparr>)] = []"
  by (simp add: js_prune_def)

section \<open>Closing\<close>

lemma on_sentinel_fields [simp]:
  "pd_timeout_stop (on_sentinel now getpgid e d) = pd_timeout_stop d"
  "pd_timeout_joinable (on_sentinel now getpgid e d) = pd_timeout_joinable d"
  "pd_buf (on_sentinel now getpgid e d) = pd_buf d"
  "pd_session_token (on_sentinel now getpgid e d) = pd_session_token d"
  by (cases e; auto simp: finish_job_locked_def Let_def split: option.splits)+

lemma fold_sentinel_fields [simp]:
  "pd_timeout_stop (fold (on_sentinel now getpgid) es d) = pd_timeout_stop d"
  "pd_timeout_joinable (fold (on_sentinel now getpgid) es d) = pd_timeout_joinable d"
  by (induction es arbitrary: d) auto

lemma finish_current_fields [simp]:
  "pd_timeout_stop (finish_current now st code d) = pd_timeout_stop d"
  "pd_timeout_joinable (finish_current now st code d) = pd_timeout_joinable d"
  "pd_alive (finish_current now st code d) = pd_alive d"
  "pd_reader_running (finish_current now st code d) = pd_reader_running d"
  "pd_current_job (finish_current now st code d) = None"
  by (auto simp: finish_current_def split: option.splits)

lemma reader_exit_fields [simp]:
  "pd_timeout_stop (reader_exit now getpgid reaped d) = pd_timeout_stop d"
  "pd_timeout_joinable (reader_exit now getpgid reaped d) = pd_timeout_joinable d"
  "\<not> pd_alive (reader_exit now getpgid reaped d)"
  "\<not> pd_reader_running (reader_exit now getpgid reaped d)"
  by (auto simp: reader_exit_def Let_def)

lemma join_reader_fields [simp]:
  "pd_timeout_stop (join_reader now getpgid reaped d) = pd_timeout_stop d"
  "pd_timeout_joinable (join_reader now getpgid reaped d) = pd_timeout_joinable d"
  "\<not> pd_reader_running (join_reader now getpgid reaped d)"
  by (auto simp: join_reader_def)

lemma join_reader_dead: "\<not> pd_alive d \<Longrightarrow> \<not> pd_alive (join_reader now getpgid reaped d)"
  by (simp add: join_reader_def)

lemma kill_shell_fields [simp]:
  "pd_timeout_stop (kill_shell d) = pd_timeout_stop d" "pd_timeout_joinable (kill_shell d) = pd_timeout_joinable d"
  "pd_alive (kill_shell d) = pd_alive d"
  by (auto simp: kill_shell_def Let_def)

lemma join_timeout_Some: "join_timeout d \<noteq> None \<longleftrightarrow> \<not> pd_timeout_joinable d \<or> pd_timeout_stop d"
  by (simp add: join_timeout_def)

lemma close_alive:
  assumes "pd_alive d"
  obtains d' where "pty_close now getpgid reaped d = Some d'" "\<not> pd_alive d'" "pd_current_job d' = None"
    "pd_timeout_stop d'" "\<not> pd_timeout_joinable d'" "\<not> pd_reader_running d'"
proof -
  let ?d0 = "d\<lparr>pd_alive := False, pd_timeout_stop := True\<rparr>"
  have join: "join_timeout ?d0 = Some (?d0\<lparr>pd_timeout_joinable := False\<rparr>)"
    by (cases d) (simp add: join_timeout_def)
  show ?thesis
    by (rule that [of "finish_current now Job_Error (- 1)
          (join_reader now getpgid reaped (kill_shell (?d0\<lparr>pd_timeout_joinable := False\<rparr>)))"])
      (use assms join in \<open>simp_all add: pty_close_def join_reader_dead\<close>)
qed

text \<open>C24: Closing a driver whose shell has ended does not return. \<open>close\<close> returns exactly when the
  driver is alive or its time-out thread was joined or told to stop before; closing a live driver
  leaves no current job and no thread, and closing it again changes nothing. When the reader saw the
  shell exit, or a write to the shell failed, the call waits for a thread that nothing stops any
  more, so that closing a session with a dead shell blocks its caller for ever.\<close>

theorem close_returns_iff:
  "(pty_close now getpgid reaped d \<noteq> None \<longleftrightarrow> pd_alive d \<or> \<not> pd_timeout_joinable d \<or> pd_timeout_stop d)
   \<and> (pd_timeout_joinable d \<and> \<not> pd_timeout_stop d \<longrightarrow>
        pty_close now getpgid reaped (reader_exit now getpgid reaped d) = None
        \<and> pty_close now getpgid reaped (exec_write_failed now job_id d) = None)
   \<and> (pd_alive d \<longrightarrow> (\<exists>d'. pty_close now getpgid reaped d = Some d' \<and> \<not> pd_alive d' \<and> pd_current_job d' = None
        \<and> pd_timeout_stop d' \<and> \<not> pd_timeout_joinable d' \<and> pty_close now getpgid reaped d' = Some d'))"
proof (intro conjI impI)
  show "pty_close now getpgid reaped d \<noteq> None \<longleftrightarrow> pd_alive d \<or> \<not> pd_timeout_joinable d \<or> pd_timeout_stop d"
  proof (cases "pd_alive d")
    case True
    then obtain d' where "pty_close now getpgid reaped d = Some d'" by (rule close_alive)
    then show ?thesis using True by simp
  next
    case False
    then show ?thesis
      using join_timeout_Some [of "join_reader now getpgid reaped d"] by (simp add: pty_close_def)
  qed
next
  assume stuck: "pd_timeout_joinable d \<and> \<not> pd_timeout_stop d"
  then show "pty_close now getpgid reaped (reader_exit now getpgid reaped d) = None"
    by (simp add: pty_close_def join_timeout_def)
  have "pd_timeout_joinable (exec_write_failed now job_id d)" "\<not> pd_timeout_stop (exec_write_failed now job_id d)"
      "\<not> pd_alive (exec_write_failed now job_id d)"
    using stuck by (auto simp: exec_write_failed_def finish_job_locked_def split: option.splits)
  then show "pty_close now getpgid reaped (exec_write_failed now job_id d) = None"
    by (simp add: pty_close_def join_timeout_def)
next
  assume "pd_alive d"
  then obtain d' where "pty_close now getpgid reaped d = Some d'" "\<not> pd_alive d'" "pd_current_job d' = None"
      "pd_timeout_stop d'" "\<not> pd_timeout_joinable d'" "\<not> pd_reader_running d'"
    by (rule close_alive)
  then show "\<exists>d'. pty_close now getpgid reaped d = Some d' \<and> \<not> pd_alive d' \<and> pd_current_job d' = None
      \<and> pd_timeout_stop d' \<and> \<not> pd_timeout_joinable d' \<and> pty_close now getpgid reaped d' = Some d'"
    by (auto simp: pty_close_def join_reader_def join_timeout_def)
qed

lemma close_returns_iff_witness:
  "pty_close 7 (\<lambda>_. 0) True (reader_exit 7 (\<lambda>_. 0) True demo_driver) = None"
  using close_returns_iff [of 7 "\<lambda>_. 0" True demo_driver] by (simp add: demo_driver_def)

section \<open>A command from its submission to its result\<close>

lemma on_sentinel_buf:
  "on_sentinel now getpgid e (d\<lparr>pd_buf := b\<rparr>) = (on_sentinel now getpgid e d)\<lparr>pd_buf := b\<rparr>"
  by (cases e) (auto simp: finish_job_locked_def Let_def split: option.splits)

lemma fold_sentinel_buf:
  "fold (on_sentinel now getpgid) es (d\<lparr>pd_buf := b\<rparr>) = (fold (on_sentinel now getpgid) es d)\<lparr>pd_buf := b\<rparr>"
  by (induction es arbitrary: d) (auto simp: on_sentinel_buf)

lemma reader_feeds:
  "fold (reader_feed now getpgid) chunks d =
     (fold (on_sentinel now getpgid) (fst (feed_all (pd_buf d) chunks)) d)\<lparr>pd_buf := snd (feed_all (pd_buf d) chunks)\<rparr>"
proof (induction chunks arbitrary: d)
  case (Cons c cs)
  obtain x y where f: "feed (pd_buf d) c = (x, y)" by fastforce
  have "reader_feed now getpgid c d = (fold (on_sentinel now getpgid) x d)\<lparr>pd_buf := y\<rparr>"
    by (simp add: reader_feed_def f fold_sentinel_buf)
  then show ?case by (auto simp: Cons.IH f fold_sentinel_buf split: prod.splits)
qed simp

lemma tput_tput: "tput k v (tput k u m) = tput k v m"
  by (induction m) auto

lemma tmodify_tmodify: "tmodify k f (tmodify k g m) = tmodify k (\<lambda>v. f (g v)) m"
  by (cases "tget m k") (auto simp: tmodify_def tput_tput)

lemma js_append_append:
  "js_append_output k b (js_append_output k a js) = js_append_output k (a @ b) js"
  by (auto simp: js_append_output_def tmodify_tmodify)

lemma fold_output_chars:
  "fold (on_sentinel now getpgid) (map (\<lambda>c. On_Output [c]) s) d = on_sentinel now getpgid (On_Output s) d"
proof (induction s arbitrary: d)
  case Nil
  then show ?case by (simp add: js_append_output_def split: option.splits)
next
  case (Cons c s)
  show ?case
    by (cases "pd_current_job d")
      (use js_append_append [where a = "[c]" and b = s] in \<open>auto simp: Cons.IH simp del: fold_simps(1)\<close>)
qed

lemma fold_bytes_of: "fold (on_sentinel now getpgid) (bytes_of es) d = fold (on_sentinel now getpgid) es d"
proof (induction es arbitrary: d)
  case (Cons e es)
  then show ?case by (cases e) (auto simp: fold_output_chars)
qed simp

text \<open>A command that was accepted gets its own result: once the frames of the job have been read, in
  whatever pieces, the job has the printed bytes and the exit code, and no other job has changed.\<close>

lemma command_result:
  assumes "pty_exec now steady job_id True cmd timeout_sec d = (Inr job_id, d1)" and "pd_buf d = []"
    and "token = pd_session_token d" and "kFieldSeparator \<notin> set token" and "kFieldSeparator \<notin> set job_id"
    and "0 < pid" and "int pid \<le> 9223372036854775807" and "int code \<le> INT_MAX"
    and "kFrameStart \<notin> set before" and "kFrameStart \<notin> set printed" and "kFrameStart \<notin> set after"
    and "length (start_frame token job_id (nat_digits pid)) \<le> kMaxPendingFrameBytes"
    and "length (end_frame token job_id (nat_digits code)) \<le> kMaxPendingFrameBytes"
    and "concat chunks = before @ start_frame token job_id (nat_digits pid) @ printed
           @ end_frame token job_id (nat_digits code) @ after"
    and "d2 = fold (reader_feed later getpgid) chunks d1"
  shows "pd_current_job d2 = None \<and> pd_buf d2 = []
    \<and> js_get job_id (pd_store d2) = Some \<lparr>j_job_id = job_id, j_session_id = [], j_cmd = cmd,
         j_status = (if code = 124 then Job_Timeout else Job_Finished), j_exit_code = int code,
         j_output = before @ printed, j_submitted_at_ms = now, j_finished_at_ms = later\<rparr>
    \<and> (\<forall>k. k \<noteq> job_id \<longrightarrow> js_get k (pd_store d2) = js_get k (pd_store d))"
proof -
  have d1: "d1 = exec_register now steady job_id cmd timeout_sec d"
    using assms(1) by (auto simp: pty_exec_def Let_def split: if_splits)
  have buf: "pd_buf d1 = []" and tok: "pd_session_token d1 = token"
    using assms(2,3) by (simp_all add: d1 exec_register_def)
  let ?out = "\<lambda>s. map (\<lambda>c. On_Output [c]) s"
  let ?es = "?out before @ [On_Pid token job_id (int pid)] @ ?out printed @ [On_End token job_id (int code)] @ ?out after"
  have calls: "bytes_of (fst (feed_all [] chunks)) = ?es" and rest: "snd (feed_all [] chunks) = []"
    using command_stream_calls [OF assms(4-14)] by simp_all
  have "d2 = (fold (on_sentinel later getpgid) ?es d1)\<lparr>pd_buf := []\<rparr>"
    unfolding assms(15) reader_feeds buf rest fold_bytes_of [of later getpgid "fst (feed_all [] chunks)", symmetric] calls
    by (rule refl)
  then show ?thesis
    using tok assms(6)
    by (auto simp: fold_output_chars d1 exec_register_def js_upsert_def js_get_def js_append_output_def js_finish_def
        finish_job_locked_def Let_def)
qed

section \<open>One-shot commands\<close>

record exec_result =
  er_out :: string
  er_err :: string
  er_exit_code :: int
  er_timed_out :: bool

datatype wait_status = Exited int | Signaled int | Not_Waited

text \<open>One turn of the loop of \<open>posix_exec\<close> as the system answers it: whether the deadline had passed,
  the bytes read from both pipes and whether they closed, the answer of \<open>waitpid\<close>, and the bytes
  drained afterwards.\<close>

record exec_round =
  xr_late :: bool
  xr_out :: string
  xr_out_closed :: bool
  xr_err :: string
  xr_err_closed :: bool
  xr_wait :: "wait_status option"
  xr_drain_out :: string
  xr_drain_err :: string

fun wait_code :: "wait_status \<Rightarrow> int" where
  "wait_code (Exited c) = c"
| "wait_code (Signaled n) = 128 + n"
| "wait_code Not_Waited = - 1"

definition read_if :: "bool \<Rightarrow> string \<Rightarrow> string" where
  "read_if b s = (if b then s else [])"

definition round_read :: "bool \<Rightarrow> bool \<Rightarrow> exec_round \<Rightarrow> exec_result \<Rightarrow> exec_result" where
  "round_read fd_out fd_err r res =
     res\<lparr>er_out := er_out res @ read_if fd_out (xr_out r), er_err := er_err res @ read_if fd_err (xr_err r)\<rparr>"

definition round_exited :: "bool \<Rightarrow> bool \<Rightarrow> exec_round \<Rightarrow> wait_status \<Rightarrow> exec_result \<Rightarrow> exec_result" where
  "round_exited fd_out fd_err r st res =
     res\<lparr>er_exit_code := wait_code st, er_out := er_out res @ read_if fd_out (xr_drain_out r),
         er_err := er_err res @ read_if fd_err (xr_drain_err r)\<rparr>"

definition round_killed :: "int \<Rightarrow> exec_result \<Rightarrow> exec_result" where
  "round_killed timeout_sec res =
     res\<lparr>er_timed_out := True, er_exit_code := 124,
         er_err := er_err res @ [CHR 0x0A] @ ''[commandline] Killed after '' @ to_string_int timeout_sec @ ''s''\<rparr>"

definition both_closed :: "wait_status \<Rightarrow> exec_result \<Rightarrow> exec_result" where
  "both_closed final res = res\<lparr>er_exit_code := (case final of Exited c \<Rightarrow> c | _ \<Rightarrow> - 1)\<rparr>"

fun posix_exec_loop :: "int \<Rightarrow> wait_status \<Rightarrow> bool \<Rightarrow> bool \<Rightarrow> exec_round list \<Rightarrow> exec_result \<Rightarrow> exec_result option" where
  "posix_exec_loop timeout_sec final fd_out fd_err [] res =
     (if \<not> fd_out \<and> \<not> fd_err then Some (both_closed final res) else None)"
| "posix_exec_loop timeout_sec final fd_out fd_err (r # rs) res =
     (if \<not> fd_out \<and> \<not> fd_err then Some (both_closed final res)
      else if timeout_sec > 0 \<and> xr_late r then Some (round_killed timeout_sec res)
      else case xr_wait r of
             Some st \<Rightarrow>
               Some (round_exited (fd_out \<and> \<not> xr_out_closed r) (fd_err \<and> \<not> xr_err_closed r) r st
                       (round_read fd_out fd_err r res))
           | None \<Rightarrow>
               posix_exec_loop timeout_sec final (fd_out \<and> \<not> xr_out_closed r) (fd_err \<and> \<not> xr_err_closed r) rs
                 (round_read fd_out fd_err r res))"

definition posix_exec :: "int \<Rightarrow> exec_round list \<Rightarrow> wait_status \<Rightarrow> exec_result option" where
  "posix_exec timeout_sec rs final =
     posix_exec_loop timeout_sec final True True rs \<lparr>er_out = [], er_err = [], er_exit_code = 0, er_timed_out = False\<rparr>"

text \<open>Every byte of the standard output that was read is in the result, in order, also when the command
  is killed.\<close>

lemma posix_exec_loop_output:
  "posix_exec_loop timeout_sec final fo fe rs res = Some res' \<Longrightarrow> prefix (er_out res) (er_out res')"
proof (induction rs arbitrary: fo fe res)
  case Nil
  then show ?case by (auto simp: both_closed_def split: if_splits)
next
  case (Cons r rs)
  have first: "prefix (er_out res) (er_out (round_read fo fe r res))" by (simp add: round_read_def)
  have "prefix (er_out (round_read fo fe r res)) (er_out res') \<or> er_out res' = er_out res"
    using Cons.prems Cons.IH
    by (auto simp: both_closed_def round_killed_def round_exited_def split: if_splits option.splits)
  then show ?case using first prefix_order.trans by auto
qed

text \<open>A command that closes both outputs is waited for without a deadline: the answer depends on the
  final \<open>waitpid\<close> only, and a death by signal is reported as \<open>-1\<close> there.\<close>

lemma closed_outputs_wait:
  "xr_out_closed r \<Longrightarrow> xr_err_closed r \<Longrightarrow> xr_wait r = None \<Longrightarrow> \<not> xr_late r \<Longrightarrow>
     map_option er_exit_code (posix_exec t (r # rs) (Signaled 9)) = Some (- 1)"
  by (cases rs) (simp_all add: posix_exec_def both_closed_def)

end
