(* ===== verification/Driver_Factory.thy ===== *)
theory Driver_Factory
  imports Terminal_Driver
begin

text \<open>
  The parts of \<^verbatim>\<open>core/persistant_applications/terminal_driver.cpp\<close> around the drivers: reading a driver
  configuration from JSON, the one-shot command in a pseudo terminal, the factory with the Docker and
  SSH drivers, the program a shell session starts, and the check that keeps a working directory inside
  its sandbox. Whether a container runs, whether \<open>/bin/bash\<close> exists and what \<open>fs::canonical\<close>
  answers are parameters.
\<close>

section \<open>Configuration\<close>

record driver_config =
  dc_type :: string
  dc_shell :: string
  dc_ssh_host :: string
  dc_ssh_port :: int
  dc_ssh_user :: string
  dc_ssh_key_path :: string
  dc_ssh_password :: string
  dc_ssh_keepalive_s :: int
  dc_docker_container :: string
  dc_docker_user :: string
  dc_docker_shell :: string
  dc_docker_host :: string
  dc_k8s_namespace :: string
  dc_k8s_pod :: string
  dc_k8s_container :: string
  dc_k8s_kubeconfig :: string
  dc_cols :: int
  dc_rows :: int

definition cfg_string :: "json \<Rightarrow> string \<Rightarrow> string" where
  "cfg_string j k = (case jget j k of Some (JString s) \<Rightarrow> s | _ \<Rightarrow> [])"

definition cfg_u16 :: "json \<Rightarrow> string \<Rightarrow> int \<Rightarrow> int" where
  "cfg_u16 j k v = (case jget j k of Some (JInt i) \<Rightarrow> i mod 65536 | _ \<Rightarrow> v)"

definition cfg_i32 :: "json \<Rightarrow> string \<Rightarrow> int \<Rightarrow> int" where
  "cfg_i32 j k v = (case jget j k of Some (JInt i) \<Rightarrow> to_int32 i | _ \<Rightarrow> v)"

definition from_json :: "json \<Rightarrow> driver_config" where
  "from_json j =
     \<lparr>dc_type = (if cfg_string j ''type'' = [] then ''local_pty'' else cfg_string j ''type''),
      dc_shell = cfg_string j ''shell'',
      dc_ssh_host = cfg_string j ''ssh_host'',
      dc_ssh_port = cfg_u16 j ''ssh_port'' 22,
      dc_ssh_user = cfg_string j ''ssh_user'',
      dc_ssh_key_path = cfg_string j ''ssh_key_path'',
      dc_ssh_password = cfg_string j ''ssh_password'',
      dc_ssh_keepalive_s = cfg_i32 j ''ssh_keepalive_s'' 30,
      dc_docker_container = cfg_string j ''docker_container'',
      dc_docker_user = cfg_string j ''docker_user'',
      dc_docker_shell = cfg_string j ''docker_shell'',
      dc_docker_host = cfg_string j ''docker_host'',
      dc_k8s_namespace = cfg_string j ''k8s_namespace'',
      dc_k8s_pod = cfg_string j ''k8s_pod'',
      dc_k8s_container = cfg_string j ''k8s_container'',
      dc_k8s_kubeconfig = cfg_string j ''k8s_kubeconfig'',
      dc_cols = cfg_i32 j ''cols'' 220,
      dc_rows = cfg_i32 j ''rows'' 50\<rparr>"

text \<open>Whatever the request contains, the numbers are in the ranges of their types and the type is set.\<close>

lemma from_json_ranges:
  "dc_type (from_json j) \<noteq> [] \<and> 0 \<le> dc_ssh_port (from_json j) \<and> dc_ssh_port (from_json j) < 65536
   \<and> dc_cols (from_json j) \<le> INT_MAX \<and> dc_rows (from_json j) \<le> INT_MAX"
  using to_int32_range
  by (auto simp: from_json_def cfg_u16_def cfg_i32_def split: option.splits json.splits)

section \<open>Shell and container commands\<close>

text \<open>The program and arguments that \<open>spawn_shell\<close> hands to \<open>execvp\<close>.\<close>

definition spawn_argv :: "bool \<Rightarrow> string \<Rightarrow> string list" where
  "spawn_argv bash_exists shell =
     (if shell \<noteq> []
      then shell # (if str_contains shell ''bash'' then [''--norc'', ''--noprofile''] else [])
      else if bash_exists then [''/bin/bash'', ''--norc'', ''--noprofile'']
      else [''/bin/sh''])"

definition docker_program :: "driver_config \<Rightarrow> string" where
  "docker_program cfg =
     (if dc_docker_host cfg \<noteq> [] then ''DOCKER_HOST='' @ shell_quote (dc_docker_host cfg) @ '' docker'' else ''docker'')"

definition docker_exec_command :: "driver_config \<Rightarrow> string" where
  "docker_exec_command cfg =
     docker_program cfg @ '' exec -i''
     @ (if dc_docker_user cfg \<noteq> [] then '' --user '' @ shell_quote (dc_docker_user cfg) else [])
     @ '' '' @ shell_quote (dc_docker_container cfg)
     @ '' '' @ (if dc_docker_shell cfg = [] then ''/bin/sh'' else dc_docker_shell cfg)"

text \<open>What \<open>container_is_running\<close> runs, and how it reads the answer.\<close>

definition container_is_running :: "(string list \<Rightarrow> string) \<Rightarrow> driver_config \<Rightarrow> bool" where
  "container_is_running run cfg =
     (let docker_cmd = docker_program cfg @ '' inspect --format '' @ [CHR 0x27] @ ''{{.State.Running}}'' @ [CHR 0x27] @ '' ''
            @ shell_quote (dc_docker_container cfg)
      in trim (run [''sh'', ''-c'', docker_cmd]) = ''true'')"

definition docker_run_args :: "driver_config \<Rightarrow> string \<Rightarrow> string list \<Rightarrow> string \<Rightarrow> string list" where
  "docker_run_args cfg cmd args cwd =
     [''exec''] @ (if dc_docker_user cfg \<noteq> [] then [''--user'', dc_docker_user cfg] else [])
     @ (if cwd \<noteq> [] then [''--workdir'', cwd] else []) @ [dc_docker_container cfg, cmd] @ args"

datatype driver_kind = Local_Pty "string list" | Docker "string list"

definition make_driver :: "bool \<Rightarrow> (string list \<Rightarrow> string) \<Rightarrow> driver_config \<Rightarrow> driver_kind res" where
  "make_driver bash_exists run cfg =
     (let t = dc_type cfg
      in if t = [] \<or> t = ''local_pty'' then Inr (Local_Pty (spawn_argv bash_exists (dc_shell cfg)))
         else if t = ''docker''
         then (if dc_docker_container cfg = []
               then Inl (Runtime_Error ''DockerDriver: docker_container must be set'')
               else if \<not> container_is_running run cfg
               then Inl (Runtime_Error (''DockerDriver: container is not running: '' @ dc_docker_container cfg))
               else Inr (Docker (spawn_argv bash_exists (docker_exec_command cfg))))
         else if t = ''ssh''
         then Inl (Runtime_Error (''SSHDriver: not linked '' @ map char_of [226, 128, 148 :: nat] @ '' include ssh_driver.cpp in your build''))
         else Inl (Runtime_Error (''Unknown driver type: '' @ t)))"

fun driver_type :: "driver_kind \<Rightarrow> string" where
  "driver_type (Local_Pty _) = ''local_pty''"
| "driver_type (Docker _) = ''docker''"

text \<open>The Docker driver hands the whole command line to \<open>execvp\<close> as the name of the program, with
  blanks in it: no such program exists, and the session dies at once.\<close>

lemma docker_program_is_a_sentence:
  "make_driver bash_exists run cfg = Inr (Docker argv) \<Longrightarrow> CHR '' '' \<in> set (hd argv)"
  by (auto simp: make_driver_def Let_def spawn_argv_def docker_exec_command_def split: if_splits)

section \<open>One-shot commands in a pseudo terminal\<close>

datatype pty_read = Pty_Bytes string | Pty_Again | Pty_Closed

text \<open>The loop of \<open>posix_exec_pty\<close>: each turn is whether the deadline had passed and what \<open>read\<close>
  returned.\<close>

fun posix_exec_pty_loop :: "int \<Rightarrow> (bool \<times> pty_read) list \<Rightarrow> exec_result \<Rightarrow> exec_result option" where
  "posix_exec_pty_loop timeout_sec [] res = None"
| "posix_exec_pty_loop timeout_sec ((late, r) # rs) res =
     (if timeout_sec > 0 \<and> late
      then Some (res\<lparr>er_timed_out := True, er_exit_code := 124,
             er_err := ''[commandline] PTY process killed after '' @ to_string_int timeout_sec @ ''s''\<rparr>)
      else case r of
             Pty_Bytes s \<Rightarrow> posix_exec_pty_loop timeout_sec rs (res\<lparr>er_out := er_out res @ s\<rparr>)
           | Pty_Again \<Rightarrow> posix_exec_pty_loop timeout_sec rs res
           | Pty_Closed \<Rightarrow> Some res)"

definition posix_exec_pty :: "int \<Rightarrow> (bool \<times> pty_read) list \<Rightarrow> string \<Rightarrow> wait_status \<Rightarrow> exec_result option" where
  "posix_exec_pty timeout_sec rs drained st =
     (case posix_exec_pty_loop timeout_sec rs \<lparr>er_out = [], er_err = [], er_exit_code = 0, er_timed_out = False\<rparr> of
        None \<Rightarrow> None
      | Some res \<Rightarrow>
          let res1 = res\<lparr>er_out := er_out res @ drained\<rparr>
          in Some (if er_timed_out res1 then res1 else res1\<lparr>er_exit_code := wait_code st\<rparr>))"

definition run_cmd :: "bool \<Rightarrow> int \<Rightarrow> exec_round list \<Rightarrow> (bool \<times> pty_read) list \<Rightarrow> string \<Rightarrow> wait_status \<Rightarrow> exec_result option" where
  "run_cmd use_pty timeout_sec rs prs drained st =
     (if use_pty then posix_exec_pty timeout_sec prs drained st else posix_exec timeout_sec rs st)"

text \<open>With a deadline the terminal command returns, as soon as a turn finds it passed.\<close>

lemma posix_exec_pty_returns:
  "timeout_sec > 0 \<Longrightarrow> \<exists>r\<in>set rs. fst r \<Longrightarrow> \<exists>res. posix_exec_pty_loop timeout_sec rs res0 = Some res"
  by (induction timeout_sec rs res0 rule: posix_exec_pty_loop.induct) (auto split: pty_read.splits)

section \<open>The sandbox of a working directory\<close>

text \<open>\<open>lexically_relative\<close> of two absolute paths.\<close>

fun drop_common :: "string list \<Rightarrow> string list \<Rightarrow> string list \<times> string list" where
  "drop_common (a # as) (b # bs) = (if a = b then drop_common as bs else (a # as, b # bs))"
| "drop_common as bs = (as, bs)"

definition ups :: "string list \<Rightarrow> int" where
  "ups bs = (\<Sum>b\<leftarrow>bs. if b = ''..'' then - 1 else if b = [] \<or> b = ''.'' then 0 else 1)"

definition lexically_relative :: "string list \<Rightarrow> string list \<Rightarrow> string list" where
  "lexically_relative p base =
     (case drop_common p base of
        (as, bs) \<Rightarrow>
          if as = [] \<and> bs = [] then [''.'']
          else if ups bs = 0 \<and> (as = [] \<or> hd as = []) then [''.'']
          else if ups bs < 0 then []
          else replicate (nat (ups bs)) ''..'' @ as)"

text \<open>\<open>root / sub\<close> is \<open>sub\<close> itself when that is absolute.\<close>

definition resolve_sandbox_cwd ::
    "string \<Rightarrow> (string list \<Rightarrow> string list option) \<Rightarrow> string \<Rightarrow> string \<Rightarrow> bool \<Rightarrow> string list res" where
  "resolve_sandbox_cwd cwd canonical sub sandbox_root allow_path_escape =
     (let root_path = absolute_path cwd sandbox_root;
          joined = (if sub \<noteq> [] \<and> hd sub = CHR ''/'' then sub else root_path @ ''/'' @ sub);
          target = normal_components (path_components (tl joined) []) [];
          root_components = path_components (tl root_path) [];
          canonical_target = (case canonical target of Some q \<Rightarrow> q | None \<Rightarrow> target);
          canonical_root = (case canonical root_components of Some q \<Rightarrow> q | None \<Rightarrow> root_components);
          rel = lexically_relative canonical_target canonical_root
      in if \<not> allow_path_escape \<and> rel \<noteq> [] \<and> hd rel = ''..''
         then Inl (Runtime_Error (''cwd escapes sandbox root: '' @ path_string canonical_target))
         else Inr canonical_target)"

lemma drop_common_append: "drop_common p base = (as, bs) \<Longrightarrow> \<exists>c. p = c @ as \<and> base = c @ bs"
proof (induction p base rule: drop_common.induct)
  case (1 a as' b bs')
  then show ?case by (auto split: if_splits)
qed auto

lemma ups_plain: "list_all plain bs \<Longrightarrow> ups bs = int (length bs)"
  by (induction bs) (auto simp: ups_def plain_def)

text \<open>A plain base whose relative path does not climb is a prefix.\<close>

lemma lexically_relative_prefix:
  assumes "list_all plain base" and "\<not> (lexically_relative p base \<noteq> [] \<and> hd (lexically_relative p base) = ''..'')"
  shows "prefix base p"
proof -
  obtain as bs where d: "drop_common p base = (as, bs)" by fastforce
  then obtain c where c: "p = c @ as" "base = c @ bs" using drop_common_append by blast
  have "ups bs = int (length bs)" using assms(1) c by (intro ups_plain) (simp add: list_all_iff)
  then have "bs = []"
    using assms(2) by (cases bs) (auto simp: lexically_relative_def d)
  then show ?thesis using c by simp
qed

text \<open>C40: An accepted working directory is inside its sandbox. When escapes are not allowed and the root
  of the sandbox exists, the components of an accepted directory start with those of the resolved
  root, whatever the request was, also with \<open>..\<close> and absolute paths; for a directory that exists
  these are the components after resolving symbolic links.\<close>

theorem sandbox_contains_cwd:
  assumes "resolve_sandbox_cwd cwd canonical sub sandbox_root False = Inr dir"
    and "canonical (path_components (tl (absolute_path cwd sandbox_root)) []) = Some real_root" and "list_all plain real_root"
  shows "prefix real_root dir"
  using assms by (auto simp: resolve_sandbox_cwd_def Let_def split: if_splits intro: lexically_relative_prefix)

lemma sandbox_contains_cwd_witness:
  "prefix [''w''] [''w'', ''a'']"
proof -
  have "resolve_sandbox_cwd ''/'' Some ''b/../a'' ''/w'' False = Inr [''w'', ''a'']" by code_simp
  from sandbox_contains_cwd [OF this, of "[''w'']"] show ?thesis
    by (simp add: absolute_path_def plain_def)
qed

text \<open>A directory that does not exist yet is checked by its spelling only: below a link that leads out
  of the sandbox a new directory is accepted, and then created outside.\<close>

definition linked_out :: "string list \<Rightarrow> string list option" where
  "linked_out p = (if p = [''w''] then Some [''w''] else if p = [''w'', ''link''] then Some [''outside''] else None)"

lemma sandbox_escape_by_link:
  "resolve_sandbox_cwd ''/'' linked_out ''link'' ''/w'' False = Inl (Runtime_Error ''cwd escapes sandbox root: /outside'')"
  "resolve_sandbox_cwd ''/'' linked_out ''link/new'' ''/w'' False = Inr [''w'', ''link'', ''new'']"
  by code_simp+

end
