(* ===== verification/Terminal_Registry.thy ===== *)
theory Terminal_Registry
  imports Driver_Factory "HOL-Library.Multiset"
begin

text \<open>
  \<^verbatim>\<open>core/persistant_applications/terminal_registry.cpp\<close> and \<^verbatim>\<open>.hpp\<close>: the table of terminal sessions with
  its limits, lookup and creation, command submission, killing, the two phases of the search for dead
  shells and the eviction of dead and idle sessions. A driver is a number; whether it is alive, what
  the factory answers and the clock are arguments, and the calls of \<open>driver->close()\<close>, which the code
  makes after it has released the lock, are recorded in order.
\<close>

section \<open>State\<close>

datatype session_status = Sess_Active | Sess_Dead | Sess_Error

fun session_status_string :: "session_status \<Rightarrow> string" where
  "session_status_string Sess_Active = ''active''"
| "session_status_string Sess_Dead = ''dead''"
| "session_status_string Sess_Error = ''error''"

record tsession_info =
  si_session_id :: string
  si_user_id :: string
  si_session_name :: string
  si_driver_type :: string
  si_status :: session_status
  si_created_at_ms :: u64
  si_last_used_ms :: u64
  si_last_error_msg :: string

record tsession =
  ts_info :: tsession_info
  ts_driver :: nat
  ts_cfg :: driver_config

record treg =
  tr_max_total :: int
  tr_max_per_user :: int
  tr_idle_timeout_ms :: u64
  tr_job_retention_ms :: u64
  tr_sessions :: "(string, tsession) table"
  tr_jobs :: job_store
  tr_drivers :: nat
  tr_closed :: "nat list"

record get_or_create_result =
  gr_success :: bool
  gr_was_existing :: bool
  gr_session_id :: string
  gr_error :: string

definition normalize_session_name :: "string \<Rightarrow> string" where
  "normalize_session_name name = (if name = [] then ''default'' else name)"

definition make_session_key :: "string \<Rightarrow> string \<Rightarrow> string" where
  "make_session_key user_id session_name = user_id @ '':'' @ normalize_session_name session_name"

section \<open>Operations\<close>

abbreviation refused :: "string \<Rightarrow> get_or_create_result" where
  "refused e \<equiv> \<lparr>gr_success = False, gr_was_existing = False, gr_session_id = [], gr_error = e\<rparr>"

definition usable :: "(nat \<Rightarrow> bool) \<Rightarrow> tsession \<Rightarrow> bool" where
  "usable alive s \<longleftrightarrow> si_status (ts_info s) = Sess_Active \<and> alive (ts_driver s)"

definition active_of_user :: "string \<Rightarrow> treg \<Rightarrow> (string \<times> tsession) list" where
  "active_of_user user_id r =
     filter (\<lambda>(_, s). si_user_id (ts_info s) = user_id \<and> si_status (ts_info s) = Sess_Active) (tr_sessions r)"

definition close_drivers :: "nat list \<Rightarrow> treg \<Rightarrow> treg" where
  "close_drivers ds r = r\<lparr>tr_closed := tr_closed r @ ds\<rparr>"

definition new_tsession :: "string \<Rightarrow> string \<Rightarrow> string \<Rightarrow> driver_config \<Rightarrow> driver_kind \<Rightarrow> u64 \<Rightarrow> nat \<Rightarrow> tsession" where
  "new_tsession session_id user_id norm_name cfg kind now d =
     \<lparr>ts_info = \<lparr>si_session_id = session_id, si_user_id = user_id, si_session_name = norm_name,
        si_driver_type = driver_type kind, si_status = Sess_Active, si_created_at_ms = now, si_last_used_ms = now,
        si_last_error_msg = []\<rparr>, ts_driver = d, ts_cfg = cfg\<rparr>"

text \<open>The part after the re-check: \<open>old\<close> is the driver of an evicted session, closed after the lock is
  released on every path.\<close>

definition create_session ::
    "(driver_config \<Rightarrow> driver_kind res) \<Rightarrow> u64 \<Rightarrow> string \<Rightarrow> string \<Rightarrow> string \<Rightarrow> driver_config \<Rightarrow> nat list \<Rightarrow> treg
       \<Rightarrow> get_or_create_result \<times> treg" where
  "create_session mk now session_id user_id norm_name cfg old r =
     (if int (length (tr_sessions r)) \<ge> tr_max_total r
      then (refused (''max_sessions_total limit reached ('' @ to_string_int (tr_max_total r) @ '')''), close_drivers old r)
      else if int (length (active_of_user user_id r)) \<ge> tr_max_per_user r
      then (refused (''max_sessions_per_user reached for '' @ user_id @ '' (limit '' @ to_string_int (tr_max_per_user r) @ '')''),
            close_drivers old r)
      else case mk cfg of
             Inl e \<Rightarrow> (refused (''driver spawn failed: '' @ what e), close_drivers old r)
           | Inr kind \<Rightarrow>
               (\<lparr>gr_success = True, gr_was_existing = False, gr_session_id = session_id, gr_error = []\<rparr>,
                close_drivers old
                  (r\<lparr>tr_sessions := tput session_id (new_tsession session_id user_id norm_name cfg kind now (tr_drivers r)) (tr_sessions r),
                     tr_drivers := Suc (tr_drivers r)\<rparr>)))"

definition get_or_create ::
    "(nat \<Rightarrow> bool) \<Rightarrow> (driver_config \<Rightarrow> driver_kind res) \<Rightarrow> u64 \<Rightarrow> string \<Rightarrow> string \<Rightarrow> driver_config \<Rightarrow> treg
       \<Rightarrow> get_or_create_result \<times> treg" where
  "get_or_create alive mk now user_id session_name cfg r =
     (if user_id = [] then (refused ''user_id must not be empty'', r)
      else
        let norm_name = normalize_session_name session_name;
            session_id = make_session_key user_id norm_name
        in case tget (tr_sessions r) session_id of
             Some s \<Rightarrow>
               if usable alive s
               then (\<lparr>gr_success = True, gr_was_existing = True, gr_session_id = session_id, gr_error = []\<rparr>, r)
               else create_session mk now session_id user_id norm_name cfg [ts_driver s]
                      (r\<lparr>tr_sessions := tdel session_id (tr_sessions r)\<rparr>)
           | None \<Rightarrow> create_session mk now session_id user_id norm_name cfg [] r)"

definition touch :: "u64 \<Rightarrow> tsession \<Rightarrow> tsession" where
  "touch now s = s\<lparr>ts_info := (ts_info s)\<lparr>si_last_used_ms := now\<rparr>\<rparr>"

text \<open>\<open>exec\<close>: the driver whose \<open>exec\<close> is called once the lock is released.\<close>

definition registry_exec :: "(nat \<Rightarrow> bool) \<Rightarrow> u64 \<Rightarrow> string \<Rightarrow> string \<Rightarrow> treg \<Rightarrow> nat res \<times> treg" where
  "registry_exec alive now user_id session_name r =
     (let session_id = make_session_key user_id (normalize_session_name session_name)
      in case tget (tr_sessions r) session_id of
           None \<Rightarrow> (Inl (Runtime_Error (''No session: '' @ session_id)), r)
         | Some s \<Rightarrow>
             if \<not> alive (ts_driver s) then (Inl (Runtime_Error (''Session shell is dead: '' @ session_id)), r)
             else (Inr (ts_driver s), r\<lparr>tr_sessions := tmodify session_id (touch now) (tr_sessions r)\<rparr>))"

definition registry_poll_job :: "string \<Rightarrow> treg \<Rightarrow> job option" where
  "registry_poll_job job_id r = js_get job_id (tr_jobs r)"

definition registry_cancel_job :: "(nat \<Rightarrow> bool) \<Rightarrow> string \<Rightarrow> string \<Rightarrow> treg \<Rightarrow> bool" where
  "registry_cancel_job cancel_current user_id session_name r =
     (case tget (tr_sessions r) (make_session_key user_id (normalize_session_name session_name)) of
        None \<Rightarrow> False
      | Some s \<Rightarrow> cancel_current (ts_driver s))"

definition extract_locked :: "string \<Rightarrow> treg \<Rightarrow> nat option \<times> treg" where
  "extract_locked session_id r =
     (case tget (tr_sessions r) session_id of
        None \<Rightarrow> (None, r)
      | Some s \<Rightarrow> (Some (ts_driver s), r\<lparr>tr_sessions := tdel session_id (tr_sessions r)\<rparr>))"

text \<open>The loop over keys with \<open>extract_locked\<close>, then the calls of \<open>close\<close>.\<close>

fun extract_all :: "string list \<Rightarrow> treg \<Rightarrow> nat list \<times> treg" where
  "extract_all [] r = ([], r)"
| "extract_all (k # ks) r =
     (case extract_locked k r of
        (d, r1) \<Rightarrow> (case extract_all ks r1 of (ds, r2) \<Rightarrow> (case d of None \<Rightarrow> ds | Some i \<Rightarrow> i # ds, r2)))"

definition extract_and_close :: "string list \<Rightarrow> treg \<Rightarrow> treg" where
  "extract_and_close ks r = (case extract_all ks r of (ds, r1) \<Rightarrow> close_drivers ds r1)"

definition kill_session :: "string \<Rightarrow> string \<Rightarrow> treg \<Rightarrow> treg" where
  "kill_session user_id session_name r =
     (if session_name = []
      then extract_and_close (map fst (filter (\<lambda>(_, s). si_user_id (ts_info s) = user_id) (tr_sessions r))) r
      else extract_and_close [make_session_key user_id (normalize_session_name session_name)] r)"

definition kill_session_by_id :: "string \<Rightarrow> treg \<Rightarrow> treg" where
  "kill_session_by_id session_id r = extract_and_close [session_id] r"

definition snapshot_sessions :: "treg \<Rightarrow> tsession_info list" where
  "snapshot_sessions r = map (\<lambda>(_, s). ts_info s) (tr_sessions r)"

definition snapshot_of_user :: "string \<Rightarrow> treg \<Rightarrow> tsession_info list" where
  "snapshot_of_user user_id r = map (\<lambda>(_, s). ts_info s) (filter (\<lambda>(_, s). si_user_id (ts_info s) = user_id) (tr_sessions r))"

text \<open>The two phases of \<open>detect_dead_sessions\<close>, each under its own lock.\<close>

definition scan_dead :: "(nat \<Rightarrow> bool) \<Rightarrow> treg \<Rightarrow> string list" where
  "scan_dead alive r =
     map fst (filter (\<lambda>(_, s). si_status (ts_info s) = Sess_Active \<and> \<not> alive (ts_driver s)) (tr_sessions r))"

definition mark_session_dead :: "tsession \<Rightarrow> tsession" where
  "mark_session_dead s =
     s\<lparr>ts_info := (ts_info s)\<lparr>si_status := Sess_Dead, si_last_error_msg := ''shell process exited unexpectedly''\<rparr>\<rparr>"

definition mark_dead :: "string list \<Rightarrow> treg \<Rightarrow> treg" where
  "mark_dead dead_ids r = r\<lparr>tr_sessions := fold (\<lambda>k. tmodify k mark_session_dead) dead_ids (tr_sessions r)\<rparr>"

definition detect_dead_sessions :: "(nat \<Rightarrow> bool) \<Rightarrow> treg \<Rightarrow> string list \<times> treg" where
  "detect_dead_sessions alive r = (scan_dead alive r, mark_dead (scan_dead alive r) r)"

definition evictable :: "u64 \<Rightarrow> treg \<Rightarrow> tsession \<Rightarrow> bool" where
  "evictable now r s \<longleftrightarrow>
     si_status (ts_info s) \<noteq> Sess_Active \<or> now - si_last_used_ms (ts_info s) > tr_idle_timeout_ms r"

definition evict_dead_and_idle :: "u64 \<Rightarrow> treg \<Rightarrow> int \<times> treg" where
  "evict_dead_and_idle now r =
     (let to_evict = map fst (filter (\<lambda>(_, s). evictable now r s) (tr_sessions r))
      in case extract_all to_evict r of (ds, r1) \<Rightarrow> (int (length ds), close_drivers ds r1))"

definition registry_prune_jobs :: "u64 \<Rightarrow> treg \<Rightarrow> treg" where
  "registry_prune_jobs now r = r\<lparr>tr_jobs := js_prune now (tr_job_retention_ms r) (tr_jobs r)\<rparr>"

section \<open>Invariant\<close>

definition drivers_of :: "(string, tsession) table \<Rightarrow> nat list" where
  "drivers_of m = map (\<lambda>(_, s). ts_driver s) m"

lemma drivers_of_simps [simp]:
  "drivers_of [] = []" "drivers_of ((k, s) # m) = ts_driver s # drivers_of m"
  "drivers_of (m @ n) = drivers_of m @ drivers_of n"
  by (simp_all add: drivers_of_def)

text \<open>Keys are the ids of the sessions, every driver that was created is in the table or was closed
  exactly once, and the limits hold.\<close>

fun entry_ok :: "string \<times> tsession \<Rightarrow> bool" where
  "entry_ok (k, s) \<longleftrightarrow>
     k = si_session_id (ts_info s) \<and> k = make_session_key (si_user_id (ts_info s)) (si_session_name (ts_info s))
     \<and> si_user_id (ts_info s) \<noteq> [] \<and> si_session_name (ts_info s) \<noteq> []"

definition treg_ok :: "treg \<Rightarrow> bool" where
  "treg_ok r \<longleftrightarrow>
     table_ok (tr_sessions r)
     \<and> (\<forall>e\<in>set (tr_sessions r). entry_ok e)
     \<and> distinct (drivers_of (tr_sessions r) @ tr_closed r)
     \<and> set (drivers_of (tr_sessions r) @ tr_closed r) = {..<tr_drivers r}
     \<and> int (length (tr_sessions r)) \<le> max 0 (tr_max_total r)
     \<and> (\<forall>u. int (length (active_of_user u r)) \<le> max 0 (tr_max_per_user r))"

lemma tput_new: "tget m k = None \<Longrightarrow> tput k v m = m @ [(k, v)]"
  by (induction m) (auto split: if_splits)

lemma tmodify_map:
  "table_ok m \<Longrightarrow> tmodify k f m = map (\<lambda>(k', v). (k', if k' = k then f v else v)) m"
proof (induction m)
  case (Cons e m)
  obtain k' v where e: "e = (k', v)" by fastforce
  have ok: "table_ok m" "k' \<notin> fst ` set m" using Cons.prems by (auto simp: table_ok_def e)
  then have rest: "k' = k \<Longrightarrow> map (\<lambda>(k'', v). (k'', if k'' = k then f v else v)) m = m"
    by (auto simp: image_iff intro!: map_idI)
  show ?case
    using Cons.IH [OF ok(1)] rest by (cases "k' = k"; cases "tget m k") (auto simp: e tmodify_def)
qed (simp add: tmodify_def)

text \<open>Rewriting a session in place changes no key, driver or number of sessions.\<close>

definition same_session :: "(tsession \<Rightarrow> tsession) \<Rightarrow> bool" where
  "same_session f \<longleftrightarrow> (\<forall>s. ts_driver (f s) = ts_driver s \<and> si_session_id (ts_info (f s)) = si_session_id (ts_info s)
     \<and> si_user_id (ts_info (f s)) = si_user_id (ts_info s) \<and> si_session_name (ts_info (f s)) = si_session_name (ts_info s)
     \<and> (si_status (ts_info (f s)) = Sess_Active \<longrightarrow> si_status (ts_info s) = Sess_Active))"

lemma same_session_touch: "same_session (touch now)"
  by (simp add: same_session_def touch_def)

lemma same_session_dead: "same_session mark_session_dead"
  by (simp add: same_session_def mark_session_dead_def)

lemma length_filter_map_le:
  "(\<And>x. P (g x) \<Longrightarrow> P x) \<Longrightarrow> length (filter P (map g xs)) \<le> length (filter P xs)"
  by (induction xs) (auto intro: le_SucI)

lemma treg_ok_modify:
  assumes ok: "treg_ok r" and same: "same_session f"
  shows "treg_ok (r\<lparr>tr_sessions := tmodify k f (tr_sessions r)\<rparr>)"
proof -
  let ?g = "\<lambda>(k', v). (k', if k' = k then f v else v)"
  have m: "tmodify k f (tr_sessions r) = map ?g (tr_sessions r)"
    using ok by (intro tmodify_map) (simp add: treg_ok_def)
  have d: "drivers_of (map ?g (tr_sessions r)) = drivers_of (tr_sessions r)"
    using same by (auto simp: drivers_of_def same_session_def)
  have "int (length (active_of_user u (r\<lparr>tr_sessions := map ?g (tr_sessions r)\<rparr>))) \<le> int (length (active_of_user u r))" for u
  proof -
    define Q where "Q = (\<lambda>(_ :: string, s :: tsession). si_user_id (ts_info s) = u \<and> si_status (ts_info s) = Sess_Active)"
    have "Q (?g x) \<Longrightarrow> Q x" for x
      using same by (cases x) (auto simp: Q_def same_session_def split: if_splits)
    from length_filter_map_le [of Q ?g, OF this, of "tr_sessions r"] show ?thesis
      by (simp add: active_of_user_def Q_def)
  qed
  moreover have "int (length (active_of_user u r)) \<le> max 0 (tr_max_per_user r)" for u
    using ok by (simp add: treg_ok_def)
  ultimately have a: "int (length (active_of_user u (r\<lparr>tr_sessions := map ?g (tr_sessions r)\<rparr>))) \<le> max 0 (tr_max_per_user r)" for u
    using order_trans by blast
  have "table_ok (map ?g (tr_sessions r))" using ok by (auto simp: treg_ok_def m [symmetric])
  moreover have "entry_ok e \<Longrightarrow> entry_ok (?g e)" for e
    using same by (cases e) (auto simp: same_session_def)
  ultimately show ?thesis
    using ok d a unfolding m treg_ok_def by simp
qed

text \<open>Taking sessions out and closing their drivers.\<close>

lemma tdel_filter: "tdel k m = filter (\<lambda>e. fst e \<noteq> k) m"
  by (induction m) auto

lemma extract_all_entries:
  assumes "table_ok (tr_sessions r)" and "distinct (map fst es)" and "set es \<subseteq> set (tr_sessions r)"
  shows "extract_all (map fst es) r =
    (drivers_of es, r\<lparr>tr_sessions := filter (\<lambda>e. fst e \<notin> fst ` set es) (tr_sessions r)\<rparr>)"
  using assms
proof (induction es arbitrary: r)
  case (Cons e es)
  obtain k s where e: "e = (k, s)" by fastforce
  let ?r1 = "r\<lparr>tr_sessions := tdel k (tr_sessions r)\<rparr>"
  have "tget (tr_sessions r) k = Some s" using Cons.prems by (auto simp: e in_table_tget)
  then have first: "extract_locked k r = (Some (ts_driver s), ?r1)" by (simp add: extract_locked_def)
  have "table_ok (tr_sessions ?r1)" "distinct (map fst es)" "set es \<subseteq> set (tr_sessions ?r1)"
    using Cons.prems by (auto simp: e tdel_filter)
  from Cons.IH [OF this] show ?case
    by (simp add: e first tdel_filter conj_commute)
qed simp

lemma extract_matching:
  assumes "table_ok (tr_sessions r)"
  shows "extract_all (map fst (filter P (tr_sessions r))) r =
    (drivers_of (filter P (tr_sessions r)), r\<lparr>tr_sessions := filter (\<lambda>e. \<not> P e) (tr_sessions r)\<rparr>)"
proof -
  have inj: "e = e'" if "e \<in> set (tr_sessions r)" "e' \<in> set (tr_sessions r)" "fst e = fst e'" for e e'
    using that assms by (auto simp: table_ok_def distinct_map dest: inj_onD)
  have "filter (\<lambda>e. fst e \<notin> fst ` set (filter P (tr_sessions r))) (tr_sessions r) = filter (\<lambda>e. \<not> P e) (tr_sessions r)"
  proof (intro filter_cong refl)
    fix e assume e: "e \<in> set (tr_sessions r)"
    have "fst e \<in> fst ` set (filter P (tr_sessions r)) \<longleftrightarrow> P e" using e inj [OF e] by fastforce
    then show "fst e \<notin> fst ` set (filter P (tr_sessions r)) \<longleftrightarrow> \<not> P e" by blast
  qed
  moreover have "distinct (map fst (filter P (tr_sessions r)))"
    using assms by (simp add: table_ok_def distinct_map_filter)
  ultimately show ?thesis
    using extract_all_entries [OF assms, of "filter P (tr_sessions r)"] by simp
qed

lemma mset_drivers_filter:
  "mset (drivers_of (filter P m)) + mset (drivers_of (filter (\<lambda>e. \<not> P e) m)) = mset (drivers_of m)"
  by (induction m) auto

lemma treg_ok_extract:
  assumes ok: "treg_ok r"
  shows "treg_ok (close_drivers (drivers_of (filter P (tr_sessions r))) (r\<lparr>tr_sessions := filter (\<lambda>e. \<not> P e) (tr_sessions r)\<rparr>))"
proof -
  let ?m = "tr_sessions r"
  have perm: "mset (drivers_of (filter (\<lambda>e. \<not> P e) ?m) @ tr_closed r @ drivers_of (filter P ?m)) = mset (drivers_of ?m @ tr_closed r)"
    using mset_drivers_filter [of P ?m] by (simp add: ac_simps)
  then have "distinct (drivers_of (filter (\<lambda>e. \<not> P e) ?m) @ tr_closed r @ drivers_of (filter P ?m))"
      and "set (drivers_of (filter (\<lambda>e. \<not> P e) ?m) @ tr_closed r @ drivers_of (filter P ?m)) = {..<tr_drivers r}"
    using ok mset_eq_imp_distinct_iff [OF perm] mset_eq_setD [OF perm] by (simp_all add: treg_ok_def)
  moreover have "int (length (filter (\<lambda>e. \<not> P e) ?m)) \<le> max 0 (tr_max_total r)"
    using ok length_filter_le [of "\<lambda>e. \<not> P e" ?m] unfolding treg_ok_def by (meson of_nat_mono order_trans)
  moreover have "int (length (active_of_user u (r\<lparr>tr_sessions := filter (\<lambda>e. \<not> P e) ?m\<rparr>))) \<le> max 0 (tr_max_per_user r)" for u
  proof -
    have "active_of_user u (r\<lparr>tr_sessions := filter (\<lambda>e. \<not> P e) ?m\<rparr>) = filter (\<lambda>e. \<not> P e) (active_of_user u r)"
      unfolding active_of_user_def by (simp add: conj_commute)
    then have "length (active_of_user u (r\<lparr>tr_sessions := filter (\<lambda>e. \<not> P e) ?m\<rparr>)) \<le> length (active_of_user u r)"
      by (simp add: length_filter_le)
    then show ?thesis using ok unfolding treg_ok_def by (meson of_nat_mono order_trans)
  qed
  ultimately show ?thesis
    using ok by (auto simp: treg_ok_def close_drivers_def active_of_user_def)
qed

lemma close_drivers_Nil [simp]: "close_drivers [] r = r"
  by (simp add: close_drivers_def)

text \<open>Creation does not look at the driver that is closed afterwards.\<close>

lemma create_session_close:
  "create_session mk now session_id user_id norm_name cfg old r
     = create_session mk now session_id user_id norm_name cfg [] (close_drivers old r)"
  by (auto simp: create_session_def close_drivers_def active_of_user_def split: sum.splits)

lemma treg_ok_create:
  assumes ok: "treg_ok r" and new: "tget (tr_sessions r) session_id = None"
    and id: "session_id = make_session_key user_id norm_name" "user_id \<noteq> []" "norm_name \<noteq> []"
  shows "treg_ok (snd (create_session mk now session_id user_id norm_name cfg [] r))"
proof (cases "mk cfg")
  case (Inr kind)
  let ?s = "new_tsession session_id user_id norm_name cfg kind now (tr_drivers r)"
  let ?r = "r\<lparr>tr_sessions := tr_sessions r @ [(session_id, ?s)], tr_drivers := Suc (tr_drivers r)\<rparr>"
  show ?thesis
  proof (cases "int (length (tr_sessions r)) \<ge> tr_max_total r \<or> int (length (active_of_user user_id r)) \<ge> tr_max_per_user r")
    case False
    have "active_of_user u ?r = active_of_user u r @ (if u = user_id then [(session_id, ?s)] else [])" for u
      by (simp add: active_of_user_def new_tsession_def)
    then have "int (length (active_of_user u ?r)) \<le> max 0 (tr_max_per_user r)" for u
      using ok False by (auto simp: treg_ok_def)
    moreover have "entry_ok (session_id, ?s)" using id by (simp add: new_tsession_def)
    moreover have "ts_driver ?s = tr_drivers r" by (simp add: new_tsession_def)
    moreover have "table_ok (tr_sessions r @ [(session_id, ?s)])"
      using ok new by (auto simp: treg_ok_def table_ok_def map_of_eq_None_iff)
    moreover have "tr_drivers r \<notin> set (drivers_of (tr_sessions r)) \<union> set (tr_closed r)"
      using ok by (auto simp: treg_ok_def)
    ultimately have "treg_ok ?r"
      using ok False by (auto simp: treg_ok_def lessThan_Suc)
    then show ?thesis using False Inr new by (simp add: create_session_def tput_new)
  qed (use ok in \<open>auto simp: create_session_def\<close>)
qed (use ok in \<open>simp add: create_session_def\<close>)

lemma extract_one:
  assumes "table_ok (tr_sessions r)" and "tget (tr_sessions r) k = Some s"
  shows "drivers_of (filter (\<lambda>e. fst e = k) (tr_sessions r)) = [ts_driver s]"
    and "tdel k (tr_sessions r) = filter (\<lambda>e. \<not> fst e = k) (tr_sessions r)"
proof -
  have "filter (\<lambda>e. fst e = k) m = [(k, s)]" if "table_ok m" "tget m k = Some s" for m
    using that by (induction m) (auto simp: table_ok_def filter_empty_conv image_iff split: if_splits)
  from this [OF assms] show "drivers_of (filter (\<lambda>e. fst e = k) (tr_sessions r)) = [ts_driver s]" by simp
qed (simp add: tdel_filter)

lemma treg_ok_get_or_create:
  assumes ok: "treg_ok r"
  shows "treg_ok (snd (get_or_create alive mk now user_id session_name cfg r))"
proof (cases "user_id = []")
  case False
  define norm_name where "norm_name = normalize_session_name session_name"
  define key where "key = make_session_key user_id norm_name"
  have n: "norm_name \<noteq> []" by (simp add: norm_name_def normalize_session_name_def)
  have t: "table_ok (tr_sessions r)" using ok by (simp add: treg_ok_def)
  show ?thesis
  proof (cases "tget (tr_sessions r) key")
    case None
    then show ?thesis
      using treg_ok_create [OF ok None key_def False n] False
      by (simp add: get_or_create_def Let_def flip: norm_name_def key_def)
  next
    case (Some s)
    let ?r0 = "close_drivers [ts_driver s] (r\<lparr>tr_sessions := tdel key (tr_sessions r)\<rparr>)"
    have "treg_ok ?r0"
      using treg_ok_extract [OF ok, of "\<lambda>e. fst e = key"] extract_one [OF t Some] by simp
    moreover have "tget (tr_sessions ?r0) key = None" by (simp add: close_drivers_def)
    ultimately show ?thesis
      using treg_ok_create [of ?r0, OF _ _ key_def False n] False Some ok create_session_close [of mk now key user_id norm_name cfg "[ts_driver s]"]
      by (simp add: get_or_create_def Let_def flip: norm_name_def key_def)
  qed
qed (use ok in \<open>simp add: get_or_create_def\<close>)

lemma treg_ok_extract_keys: "treg_ok r \<Longrightarrow> treg_ok (extract_and_close (map fst (filter P (tr_sessions r))) r)"
  using treg_ok_extract [of r P] by (simp add: extract_and_close_def extract_matching treg_ok_def)

lemma treg_ok_extract_key: "treg_ok r \<Longrightarrow> treg_ok (extract_and_close [k] r)"
proof (cases "tget (tr_sessions r) k")
  case None
  assume "treg_ok r"
  with None show ?thesis by (simp add: extract_and_close_def extract_locked_def)
next
  case (Some s)
  assume ok: "treg_ok r"
  then have t: "table_ok (tr_sessions r)" by (simp add: treg_ok_def)
  show ?thesis
    using treg_ok_extract [OF ok, of "\<lambda>e. fst e = k"] extract_one [OF t Some] Some
    by (simp add: extract_and_close_def extract_locked_def)
qed

lemma treg_ok_mark_dead: "treg_ok r \<Longrightarrow> treg_ok (mark_dead ids r)"
proof (induction ids arbitrary: r)
  case (Cons k ids)
  have "mark_dead (k # ids) r = mark_dead ids (r\<lparr>tr_sessions := tmodify k mark_session_dead (tr_sessions r)\<rparr>)"
    by (simp add: mark_dead_def)
  then show ?case using Cons.IH [OF treg_ok_modify [OF Cons.prems same_session_dead]] by simp
qed (simp add: mark_dead_def)

lemma treg_ok_jobs: "treg_ok r \<Longrightarrow> treg_ok (r\<lparr>tr_jobs := js\<rparr>)"
  by (simp add: treg_ok_def active_of_user_def)

section \<open>Every interleaving\<close>

text \<open>The operations in any order, with any answers of drivers, factory and clock. Marking the dead is
  a step of its own, for any ids, since the scan that found them was made under an earlier lock.\<close>

inductive treg_step :: "treg \<Rightarrow> treg \<Rightarrow> bool" where
  step_create: "treg_step r (snd (get_or_create alive mk now user_id session_name cfg r))"
| step_exec: "treg_step r (snd (registry_exec alive now user_id session_name r))"
| step_kill: "treg_step r (kill_session user_id session_name r)"
| step_kill_id: "treg_step r (kill_session_by_id session_id r)"
| step_mark: "treg_step r (mark_dead ids r)"
| step_evict: "treg_step r (snd (evict_dead_and_idle now r))"
| step_jobs: "treg_step r (r\<lparr>tr_jobs := js\<rparr>)"

definition treg_init :: "treg \<Rightarrow> bool" where
  "treg_init r \<longleftrightarrow> tr_sessions r = [] \<and> tr_closed r = [] \<and> tr_drivers r = 0"

lemma treg_ok_exec: "treg_ok r \<Longrightarrow> treg_ok (snd (registry_exec alive now user_id session_name r))"
  by (auto simp: registry_exec_def Let_def split: option.splits intro: treg_ok_modify same_session_touch)

lemma treg_ok_evict: "treg_ok r \<Longrightarrow> treg_ok (snd (evict_dead_and_idle now r))"
  using treg_ok_extract [of r "\<lambda>(_, s). evictable now r s"]
  by (simp add: evict_dead_and_idle_def extract_matching treg_ok_def Let_def)

lemma treg_ok_kill: "treg_ok r \<Longrightarrow> treg_ok (kill_session user_id session_name r)"
  by (simp add: kill_session_def treg_ok_extract_keys treg_ok_extract_key)

lemma treg_ok_step: "treg_ok r \<Longrightarrow> treg_step r r' \<Longrightarrow> treg_ok r'"
  by (erule treg_step.cases)
    (simp_all add: treg_ok_get_or_create treg_ok_exec treg_ok_kill kill_session_by_id_def treg_ok_extract_key
      treg_ok_mark_dead treg_ok_evict treg_ok_jobs)

interpretation treg: inductive_invariant treg_init treg_step treg_ok
proof unfold_locales
  show "treg_init r \<Longrightarrow> treg_ok r" for r
    by (simp add: treg_init_def treg_ok_def active_of_user_def)
qed (rule treg_ok_step)


definition demo_registry :: treg where
  "demo_registry = \<lparr>tr_max_total = 2, tr_max_per_user = 1, tr_idle_timeout_ms = 1000, tr_job_retention_ms = 1000,
     tr_sessions = [], tr_jobs = [], tr_drivers = 0, tr_closed = []\<rparr>"

abbreviation local_driver :: "driver_config \<Rightarrow> driver_kind res" where
  "local_driver \<equiv> \<lambda>_. Inr (Local_Pty [])"

definition open_session :: "u64 \<Rightarrow> string \<Rightarrow> string \<Rightarrow> treg \<Rightarrow> treg" where
  "open_session now user_id name r = snd (get_or_create (\<lambda>_. True) local_driver now user_id name (from_json JNull) r)"

lemma demo_registry_reach: "reach treg_init treg_step (open_session 5 ''a'' ''x'' demo_registry)"
proof -
  have "reach treg_init treg_step demo_registry"
    by (rule reach_init) (simp add: treg_init_def demo_registry_def)
  from reach_step [OF this step_create] show ?thesis unfolding open_session_def .
qed


lemma normalize_idem [simp]: "normalize_session_name (normalize_session_name n) = normalize_session_name n"
  by (simp add: normalize_session_name_def)

lemma make_session_key_normalize [simp]: "make_session_key u (normalize_session_name n) = make_session_key u n"
  by (simp add: make_session_key_def)

lemma create_session_effect:
  assumes "create_session mk now key user_id norm_name cfg old r = (res, r')" and "tget (tr_sessions r) key = None"
  shows "tr_closed r' = tr_closed r @ old \<and> (\<forall>k. k \<noteq> key \<longrightarrow> tget (tr_sessions r') k = tget (tr_sessions r) k)
    \<and> \<not> gr_was_existing res
    \<and> (gr_success res \<longrightarrow> (\<exists>kind. mk cfg = Inr kind \<and> gr_session_id res = key
         \<and> tget (tr_sessions r') key = Some (new_tsession key user_id norm_name cfg kind now (tr_drivers r))))
    \<and> (\<not> gr_success res \<longrightarrow> gr_error res \<noteq> [] \<and> tget (tr_sessions r') key = None)
    \<and> (gr_success res \<longleftrightarrow> int (length (tr_sessions r)) < tr_max_total r
         \<and> int (length (active_of_user user_id r)) < tr_max_per_user r \<and> (\<exists>kind. mk cfg = Inr kind))"
  using assms by (auto simp: create_session_def close_drivers_def not_le split: if_splits sum.splits)

text \<open>What a session request does. An existing session that is active and alive is returned and
  nothing changes. Otherwise the session that was in the way is removed and its driver closed, and
  exactly when both limits leave room and the factory delivers a driver the request succeeds, with a
  new session under its key that belongs to the user, while every other session stays as it was; a
  refused request adds no session.\<close>

theorem get_or_create_exact:
  assumes "treg_ok r" and "user_id \<noteq> []" and "key = make_session_key user_id session_name"
    and "get_or_create alive mk now user_id session_name cfg r = (res, r')"
  shows "(case tget (tr_sessions r) key of
            Some s \<Rightarrow> if usable alive s then res = \<lparr>gr_success = True, gr_was_existing = True, gr_session_id = key, gr_error = []\<rparr> \<and> r' = r
                      else tr_closed r' = tr_closed r @ [ts_driver s]
          | None \<Rightarrow> tr_closed r' = tr_closed r)
    \<and> (\<forall>k. k \<noteq> key \<longrightarrow> tget (tr_sessions r') k = tget (tr_sessions r) k)
    \<and> (gr_success res \<and> \<not> gr_was_existing res \<longrightarrow>
         (\<exists>kind. mk cfg = Inr kind \<and> gr_session_id res = key
            \<and> tget (tr_sessions r') key = Some (new_tsession key user_id (normalize_session_name session_name) cfg kind now (tr_drivers r))))
    \<and> (\<not> gr_success res \<longrightarrow> gr_error res \<noteq> [] \<and> tget (tr_sessions r') key = None)"
proof (cases "tget (tr_sessions r) key")
  case None
  then have "create_session mk now key user_id (normalize_session_name session_name) cfg [] r = (res, r')"
    using assms(2-4) by (simp add: get_or_create_def Let_def)
  from create_session_effect [OF this None] None show ?thesis by simp
next
  case (Some s)
  show ?thesis
  proof (cases "usable alive s")
    case True
    then show ?thesis using Some assms(2-4) by (auto simp: get_or_create_def Let_def)
  next
    case False
    let ?r0 = "r\<lparr>tr_sessions := tdel key (tr_sessions r)\<rparr>"
    have "create_session mk now key user_id (normalize_session_name session_name) cfg [ts_driver s] ?r0 = (res, r')"
      using Some False assms(2-4) by (simp add: get_or_create_def Let_def)
    from create_session_effect [OF this] Some False show ?thesis by simp
  qed
qed

lemma get_or_create_exact_witness:
  "tr_closed (snd (get_or_create (\<lambda>_. False) local_driver 9 ''a'' ''x'' (from_json JNull) (open_session 5 ''a'' ''x'' demo_registry))) = [0]"
proof -
  let ?r = "open_session 5 ''a'' ''x'' demo_registry"
  let ?q = "get_or_create (\<lambda>_. False) local_driver 9 ''a'' ''x'' (from_json JNull) ?r"
  have "treg_ok ?r" by (rule treg.reach_inv [OF demo_registry_reach])
  note g = get_or_create_exact [OF this, of "''a''" "make_session_key ''a'' ''x''" "''x''" "\<lambda>_. False" local_driver 9
      "from_json JNull" "fst ?q" "snd ?q"]
  have "map_option ts_driver (tget (tr_sessions ?r) (make_session_key ''a'' ''x'')) = Some 0" "tr_closed ?r = []"
    by code_simp+
  then show ?thesis using g by (auto simp: usable_def split: option.splits)
qed

text \<open>Eviction takes out exactly the dead and the idle. The watchdog removes every session that is not
  active or whose last use is further back than the limit, by 64 bit subtraction, closes the driver of
  each of them once, in table order, returns their number, and leaves the other sessions as they are.\<close>

theorem eviction_exact:
  assumes "treg_ok r"
  shows "tr_sessions (snd (evict_dead_and_idle now r)) = filter (\<lambda>(_, s). \<not> evictable now r s) (tr_sessions r)
    \<and> tr_closed (snd (evict_dead_and_idle now r)) = tr_closed r @ map (\<lambda>(_, s). ts_driver s) (filter (\<lambda>(_, s). evictable now r s) (tr_sessions r))
    \<and> fst (evict_dead_and_idle now r) = int (length (filter (\<lambda>(_, s). evictable now r s) (tr_sessions r)))
    \<and> (\<forall>k s. tget (tr_sessions r) k = Some s \<longrightarrow>
         (tget (tr_sessions (snd (evict_dead_and_idle now r))) k = None \<longleftrightarrow>
            si_status (ts_info s) \<noteq> Sess_Active
            \<or> uint (now - si_last_used_ms (ts_info s)) > uint (tr_idle_timeout_ms r)))"
proof -
  have t: "table_ok (tr_sessions r)" using assms by (simp add: treg_ok_def)
  have neg: "(\<lambda>e. \<not> (case e of (_, s) \<Rightarrow> evictable now r s)) = (\<lambda>(_, s). \<not> evictable now r s)" by auto
  have evict: "evict_dead_and_idle now r = (int (length (filter (\<lambda>(_, s). evictable now r s) (tr_sessions r))),
      close_drivers (map (\<lambda>(_, s). ts_driver s) (filter (\<lambda>(_, s). evictable now r s) (tr_sessions r)))
        (r\<lparr>tr_sessions := filter (\<lambda>(_, s). \<not> evictable now r s) (tr_sessions r)\<rparr>))"
    using extract_matching [OF t, of "\<lambda>(_, s). evictable now r s"]
    by (simp add: evict_dead_and_idle_def Let_def drivers_of_def neg)
  have "tget (tr_sessions (snd (evict_dead_and_idle now r))) k = None \<longleftrightarrow> evictable now r s"
    if "tget (tr_sessions r) k = Some s" for k s
    using that by (simp add: evict close_drivers_def tget_filter [OF t])
  then show ?thesis by (simp add: evict close_drivers_def evictable_def word_less_def)
qed

lemma eviction_exact_witness:
  "tr_closed (snd (evict_dead_and_idle 2000 (open_session 5 ''a'' ''x'' demo_registry))) = [0]"
proof -
  let ?r = "open_session 5 ''a'' ''x'' demo_registry"
  have "treg_ok ?r" by (rule treg.reach_inv [OF demo_registry_reach])
  note e = eviction_exact [OF this, of 2000]
  have "tr_closed ?r = []" "map (\<lambda>(_, s). ts_driver s) (filter (\<lambda>(_, s). evictable 2000 ?r s) (tr_sessions ?r)) = [0]"
    by code_simp+
  then show ?thesis using e by simp
qed

section \<open>What the locks do not prevent\<close>

text \<open>A colon in a name: two users share a session.\<close>

lemma session_key_collision:
  "make_session_key ''a:b'' ''c'' = make_session_key ''a'' ''b:c''"
  "fst (get_or_create (\<lambda>_. True) local_driver 9 ''a'' ''b:c'' (from_json JNull) (open_session 5 ''a:b'' ''c'' demo_registry))
     = \<lparr>gr_success = True, gr_was_existing = True, gr_session_id = ''a:b:c'', gr_error = []\<rparr>"
  by code_simp+

text \<open>A session that was found dead and replaced before the second phase of the search is marked dead
  although its new shell is alive, and evicted.\<close>

lemma replaced_session_marked_dead:
  "let r0 = open_session 5 ''a'' ''x'' demo_registry;
       ids = scan_dead (\<lambda>_. False) r0;
       r1 = snd (get_or_create (\<lambda>_. False) local_driver 6 ''a'' ''x'' (from_json JNull) r0);
       r2 = mark_dead ids r1
   in map (\<lambda>(_, s). ts_driver s) (tr_sessions r2) = [1] \<and> tr_closed (snd (evict_dead_and_idle 7 r2)) = [0, 1]"
  by code_simp

text \<open>A session used after the watchdog read its clock looks idle for longer than any limit.\<close>

lemma busy_session_evicted:
  "tr_closed (snd (evict_dead_and_idle 100 (snd (registry_exec (\<lambda>_. True) 101 ''a'' ''x'' (open_session 5 ''a'' ''x'' demo_registry))))) = [0]"
  by code_simp

end
