(* ===== verification/Application_Manager.thy ===== *)
theory Application_Manager
  imports Terminal_Registry
begin

unbundle bit_operations_syntax

text \<open>
  \<^verbatim>\<open>core/persistant_applications/application_manager.cpp\<close>: the service in front of the terminal
  registry. Configuration, the authentication check with its constant-time comparison, the five
  request handlers, the client handler that turns exceptions into answers, a pass of the watchdog and
  stopping. Sockets and the thread pool are left out; the answers of the drivers, the factory and the
  clock are an environment that the handlers are given.
\<close>

section \<open>Configuration\<close>

record am_config =
  am_max_client_threads :: int
  am_watchdog_interval_ms :: int
  am_idle_timeout_min :: int
  am_max_sessions_total :: int
  am_max_sessions_per_user :: int
  am_job_retention_min :: int
  am_require_auth_token :: bool
  am_auth_token :: string

definition am_defaults :: am_config where
  "am_defaults = \<lparr>am_max_client_threads = 64, am_watchdog_interval_ms = 5000, am_idle_timeout_min = 15,
     am_max_sessions_total = 64, am_max_sessions_per_user = 8, am_job_retention_min = 60,
     am_require_auth_token = False, am_auth_token = []\<rparr>"

text \<open>The assignments of \<open>load_config\<close> in order: the first exception ends them, and what was assigned
  before stays. \<open>None\<close> is no file or a text that is not JSON.\<close>

fun assign_all :: "('c \<Rightarrow> 'c res) list \<Rightarrow> 'c \<Rightarrow> 'c" where
  "assign_all [] c = c"
| "assign_all (f # fs) c = (case f c of Inl _ \<Rightarrow> c | Inr c' \<Rightarrow> assign_all fs c')"

definition set_int :: "json \<Rightarrow> string \<Rightarrow> int \<Rightarrow> (int \<Rightarrow> 'c) \<Rightarrow> 'c res" where
  "set_int j k old upd = rbind (jvalue as_int j k old) (\<lambda>v. Inr (upd v))"

definition am_load_config :: "json option \<Rightarrow> am_config" where
  "am_load_config parsed =
     (case parsed of
        None \<Rightarrow> am_defaults
      | Some j \<Rightarrow> assign_all
          [\<lambda>c. set_int j ''max_client_threads'' (am_max_client_threads c) (\<lambda>v. c\<lparr>am_max_client_threads := v\<rparr>),
           \<lambda>c. set_int j ''watchdog_interval_ms'' (am_watchdog_interval_ms c) (\<lambda>v. c\<lparr>am_watchdog_interval_ms := v\<rparr>),
           \<lambda>c. set_int j ''idle_timeout_min'' (am_idle_timeout_min c) (\<lambda>v. c\<lparr>am_idle_timeout_min := v\<rparr>),
           \<lambda>c. set_int j ''max_sessions_total'' (am_max_sessions_total c) (\<lambda>v. c\<lparr>am_max_sessions_total := v\<rparr>),
           \<lambda>c. set_int j ''max_sessions_per_user'' (am_max_sessions_per_user c) (\<lambda>v. c\<lparr>am_max_sessions_per_user := v\<rparr>),
           \<lambda>c. set_int j ''job_retention_min'' (am_job_retention_min c) (\<lambda>v. c\<lparr>am_job_retention_min := v\<rparr>),
           \<lambda>c. rbind (jvalue as_bool j ''require_auth_token'' (am_require_auth_token c)) (\<lambda>v. Inr (c\<lparr>am_require_auth_token := v\<rparr>)),
           \<lambda>c. rbind (jvalue as_string j ''auth_token'' (am_auth_token c)) (\<lambda>v. Inr (c\<lparr>am_auth_token := v\<rparr>))]
          am_defaults)"

text \<open>A wrong type anywhere before it leaves authentication switched off.\<close>

lemma broken_config_disables_auth:
  "am_require_auth_token (am_load_config (Some (jobj [(''job_retention_min'', JString ''60''),
     (''require_auth_token'', JBool True), (''auth_token'', JString ''secret'')]))) = False"
  by code_simp

definition minutes_to_ms :: "int \<Rightarrow> u64" where
  "minutes_to_ms m = word_of_int m * 60 * 1000"

definition init_registry :: "am_config \<Rightarrow> treg" where
  "init_registry cfg =
     \<lparr>tr_max_total = am_max_sessions_total cfg, tr_max_per_user = am_max_sessions_per_user cfg,
      tr_idle_timeout_ms = minutes_to_ms (am_idle_timeout_min cfg),
      tr_job_retention_ms = minutes_to_ms (am_job_retention_min cfg),
      tr_sessions = [], tr_jobs = [], tr_drivers = 0, tr_closed = []\<rparr>"

lemma init_registry_init: "treg_init (init_registry cfg)"
  by (simp add: treg_init_def init_registry_def)

lemma init_registry_reach: "reach treg_init treg_step (init_registry cfg)"
  by (rule reach_init, rule init_registry_init)

section \<open>Authentication\<close>

definition char_byte :: "char \<Rightarrow> 8 word" where
  "char_byte c = of_nat (of_char c)"

definition constant_time_equal :: "string \<Rightarrow> string \<Rightarrow> bool" where
  "constant_time_equal a b =
     (if length a \<noteq> length b then False
      else foldl (\<lambda>result i. result OR (char_byte (a ! i) XOR char_byte (b ! i))) 0 [0..<length a] = 0)"

lemma char_byte_inj: "char_byte c = char_byte d \<longleftrightarrow> c = d"
proof
  assume "char_byte c = char_byte d"
  then have "unat (char_byte c) = unat (char_byte d)" by simp
  moreover have "unat (char_byte x) = of_char x" for x
    by (simp add: char_byte_def unat_of_nat)
  ultimately show "c = d" by simp
qed simp

lemma or_eq_0: "a OR b = 0 \<longleftrightarrow> a = 0 \<and> b = (0 :: 8 word)"
  by (auto simp: bit_eq_iff bit_simps)

lemma xor_eq_0: "a XOR b = 0 \<longleftrightarrow> a = (b :: 8 word)"
  by (auto simp: bit_eq_iff bit_simps)

lemma foldl_or_eq_0: "foldl (\<lambda>result i. result OR f i) acc xs = (0 :: 8 word) \<longleftrightarrow> acc = 0 \<and> (\<forall>i\<in>set xs. f i = 0)"
  by (induction xs arbitrary: acc) (auto simp: or_eq_0)

lemma token_equal: "constant_time_equal a b \<longleftrightarrow> a = b"
proof (cases "length a = length b")
  case True
  have "constant_time_equal a b \<longleftrightarrow> (\<forall>i<length a. a ! i = b ! i)"
    using True foldl_or_eq_0 [of "\<lambda>i. char_byte (a ! i) XOR char_byte (b ! i)" 0 "[0..<length a]"]
    by (simp add: constant_time_equal_def xor_eq_0 char_byte_inj atLeast0LessThan Ball_def)
  then show ?thesis using True by (simp add: list_eq_iff_nth_eq)
qed (auto simp: constant_time_equal_def)

text \<open>The constant-time comparison is equality. Collecting the differences of all bytes in one
  byte is zero exactly for equal strings, so that the token check accepts the configured token and
  nothing else.\<close>

theorem constant_time_equal_is_equality: "constant_time_equal a b \<longleftrightarrow> a = b"
  by (rule token_equal)

section \<open>Requests\<close>

text \<open>What the handlers get from outside: liveness of drivers, the factory, the clock, and the
  outcome of \<open>exec\<close> and \<open>cancel_current_job\<close> of a driver, which work on the shared job store.\<close>

record am_env =
  ae_alive :: "nat \<Rightarrow> bool"
  ae_make_driver :: "driver_config \<Rightarrow> driver_kind res"
  ae_now :: u64
  ae_exec :: "nat \<Rightarrow> string \<Rightarrow> int \<Rightarrow> job_store \<Rightarrow> string res \<times> job_store"
  ae_cancel :: "nat \<Rightarrow> bool"

abbreviation am_error :: "string \<Rightarrow> json" where
  "am_error e \<equiv> jobj [(''status'', JString ''error''), (''error'', JString e)]"

definition legacy_config :: "string \<Rightarrow> driver_config" where
  "legacy_config t = (from_json JNull)\<lparr>dc_type := t\<rparr>"

definition request_driver_config :: "json \<Rightarrow> driver_config res" where
  "request_driver_config req =
     (case jget req ''driver_config'' of
        Some (JObject m) \<Rightarrow> Inr (from_json (JObject m))
      | _ \<Rightarrow> rbind (jvalue as_string req ''driver'' ''local_pty'') (\<lambda>t. Inr (legacy_config t)))"

text \<open>A handler either throws or answers, with the registry it leaves.\<close>

type_synonym handled = "json res \<times> treg"

definition answer :: "'a res \<Rightarrow> treg \<Rightarrow> ('a \<Rightarrow> handled) \<Rightarrow> handled" where
  "answer m r k = (case m of Inl e \<Rightarrow> (Inl e, r) | Inr a \<Rightarrow> k a)"

definition run_execute :: "am_env \<Rightarrow> string \<Rightarrow> string \<Rightarrow> string \<Rightarrow> int \<Rightarrow> driver_config \<Rightarrow> treg \<Rightarrow> handled" where
  "run_execute env user_id session_name cmd timeout_sec dcfg r =
     (case get_or_create (ae_alive env) (ae_make_driver env) (ae_now env) user_id session_name dcfg r of
        (gcr, r1) \<Rightarrow>
          if \<not> gr_success gcr then (Inr (am_error (gr_error gcr)), r1)
          else (case registry_exec (ae_alive env) (ae_now env) user_id session_name r1 of
                  (Inl e, r2) \<Rightarrow> (Inr (am_error (''exec failed: '' @ what e)), r2)
                | (Inr d, r2) \<Rightarrow>
                    (case ae_exec env d cmd timeout_sec (tr_jobs r2) of
                       (Inl e, jobs) \<Rightarrow> (Inr (am_error (''exec failed: '' @ what e)), r2\<lparr>tr_jobs := jobs\<rparr>)
                     | (Inr job_id, jobs) \<Rightarrow>
                         (Inr (jobj [(''status'', JString ''ok''), (''job_id'', JString job_id),
                            (''session_id'', JString (gr_session_id gcr)),
                            (''session_created'', JBool (\<not> gr_was_existing gcr))]), r2\<lparr>tr_jobs := jobs\<rparr>))))"

definition handle_execute :: "am_env \<Rightarrow> json \<Rightarrow> treg \<Rightarrow> handled" where
  "handle_execute env req r =
     answer (jvalue as_string req ''user_id'' []) r (\<lambda>user_id.
     answer (jvalue as_string req ''session_name'' []) r (\<lambda>session_name.
     answer (jvalue as_string req ''cmd'' []) r (\<lambda>cmd.
     answer (jvalue as_int req ''timeout_sec'' 0) r (\<lambda>timeout_sec.
       if user_id = [] then (Inr (am_error ''EXECUTE requires user_id''), r)
       else if cmd = [] then (Inr (am_error ''EXECUTE requires cmd''), r)
       else answer (request_driver_config req) r (\<lambda>dcfg.
              run_execute env user_id session_name cmd timeout_sec dcfg r)))))"

definition handle_poll :: "json \<Rightarrow> treg \<Rightarrow> handled" where
  "handle_poll req r =
     answer (jvalue as_string req ''job_id'' []) r (\<lambda>job_id.
       if job_id = [] then (Inr (am_error ''POLL requires job_id''), r)
       else case registry_poll_job job_id r of
              None \<Rightarrow> (Inr (am_error (''unknown job_id: '' @ job_id)), r)
            | Some j \<Rightarrow> (Inr (jobj [(''status'', JString ''ok''), (''job_status'', JString (job_status_string (j_status j))),
                 (''exit_code'', JInt (j_exit_code j)), (''output'', JString (j_output j))]), r))"

definition handle_cancel_job :: "am_env \<Rightarrow> json \<Rightarrow> treg \<Rightarrow> handled" where
  "handle_cancel_job env req r =
     answer (jvalue as_string req ''user_id'' []) r (\<lambda>user_id.
     answer (jvalue as_string req ''session_name'' []) r (\<lambda>session_name.
       if user_id = [] then (Inr (am_error ''CANCEL_JOB requires user_id''), r)
       else (Inr (jobj [(''status'', JString ''ok''),
               (''sent'', JBool (registry_cancel_job (ae_cancel env) user_id session_name r))]), r)))"

definition handle_kill_session :: "json \<Rightarrow> treg \<Rightarrow> handled" where
  "handle_kill_session req r =
     answer (jvalue as_string req ''user_id'' []) r (\<lambda>user_id.
     answer (jvalue as_string req ''session_name'' []) r (\<lambda>session_name.
       if user_id = [] then (Inr (am_error ''KILL_SESSION requires user_id''), r)
       else (Inr (jobj [(''status'', JString ''ok'')]), kill_session user_id session_name r)))"

definition session_json :: "tsession_info \<Rightarrow> json" where
  "session_json i =
     jobj [(''session_id'', JString (si_session_id i)), (''user_id'', JString (si_user_id i)),
           (''session_name'', JString (si_session_name i)), (''driver_type'', JString (si_driver_type i)),
           (''status'', JString (session_status_string (si_status i))), (''created_at_ms'', JInt (uint (si_created_at_ms i))),
           (''last_used_ms'', JInt (uint (si_last_used_ms i))), (''last_error'', JString (si_last_error_msg i))]"

definition handle_list_sessions :: "json \<Rightarrow> treg \<Rightarrow> handled" where
  "handle_list_sessions req r =
     answer (jvalue as_string req ''user_id'' []) r (\<lambda>user_id.
       let sessions = (if user_id = [] then snapshot_sessions r else snapshot_of_user user_id r)
       in (Inr (jobj [(''status'', JString ''ok''), (''sessions'', JArray (map session_json sessions))]), r))"

definition am_authorised :: "am_config \<Rightarrow> json \<Rightarrow> bool res" where
  "am_authorised cfg req =
     (if \<not> am_require_auth_token cfg then Inr True
      else rbind (jvalue as_json req ''metadata'' (JObject [])) (\<lambda>meta.
           rbind (jvalue as_string meta ''auth_token'' []) (\<lambda>token.
             Inr (constant_time_equal token (am_auth_token cfg)))))"

definition am_dispatch :: "am_env \<Rightarrow> am_config \<Rightarrow> json \<Rightarrow> treg \<Rightarrow> handled" where
  "am_dispatch env cfg req r =
     (case jget req ''message_type'' of
        Some (JString msg_type) \<Rightarrow>
          answer (am_authorised cfg req) r (\<lambda>ok.
            if \<not> ok then (Inr (am_error ''auth failed''), r)
            else if msg_type = ''EXECUTE'' then handle_execute env req r
            else if msg_type = ''POLL'' then handle_poll req r
            else if msg_type = ''CANCEL_JOB'' then handle_cancel_job env req r
            else if msg_type = ''KILL_SESSION'' then handle_kill_session req r
            else if msg_type = ''LIST_SESSIONS'' then handle_list_sessions req r
            else (Inr (am_error (''unknown message_type: '' @ msg_type)), r))
      | _ \<Rightarrow> (Inr (am_error ''missing or invalid message_type''), r))"

definition is_expected_disconnect :: "string \<Rightarrow> bool" where
  "is_expected_disconnect err \<longleftrightarrow>
     str_contains err ''Broken pipe'' \<or> str_contains err ''connection closed'' \<or> str_contains err ''Connection reset''
     \<or> str_contains err ''errno 32'' \<or> str_contains err ''errno 104''"

text \<open>\<open>handle_client\<close>: the request as it was received, and the answer that is sent, if any.\<close>

definition am_handle_client :: "am_env \<Rightarrow> am_config \<Rightarrow> json res \<Rightarrow> treg \<Rightarrow> json option \<times> treg" where
  "am_handle_client env cfg received r =
     (case answer received r (\<lambda>req. am_dispatch env cfg req r) of
        (Inr response, r') \<Rightarrow> (Some response, r')
      | (Inl e, r') \<Rightarrow> if is_expected_disconnect (what e) then (None, r') else (Some (am_error (what e)), r'))"

section \<open>Watchdog and stop\<close>

definition kJobPruneIntervalMs :: u64 where
  "kJobPruneIntervalMs = 60000"

text \<open>One turn of \<open>watchdog_loop\<close> after its sleep, with the times its three clock readings return.\<close>

definition am_watchdog_pass :: "(nat \<Rightarrow> bool) \<Rightarrow> u64 \<Rightarrow> u64 \<Rightarrow> u64 \<Rightarrow> treg \<times> u64 \<Rightarrow> treg \<times> u64" where
  "am_watchdog_pass alive t_evict t_prune now = (\<lambda>(r, last_prune_ms).
     let r1 = snd (detect_dead_sessions alive r);
         r2 = snd (evict_dead_and_idle t_evict r1)
     in if now - last_prune_ms > kJobPruneIntervalMs then (registry_prune_jobs t_prune r2, now) else (r2, last_prune_ms))"

definition am_stop :: "bool \<Rightarrow> treg \<Rightarrow> treg" where
  "am_stop running r =
     (if \<not> running then r else fold kill_session_by_id (map si_session_id (snapshot_sessions r)) r)"

section \<open>Correctness\<close>

lemma steps_answer: "(\<And>a. treg_step\<^sup>*\<^sup>* r (snd (k a))) \<Longrightarrow> treg_step\<^sup>*\<^sup>* r (snd (answer m r k))"
  by (cases m) (auto simp: answer_def)

lemma steps_execute: "treg_step\<^sup>*\<^sup>* r (snd (run_execute env user_id session_name cmd timeout_sec dcfg r))"
proof -
  obtain gcr r1 where g: "get_or_create (ae_alive env) (ae_make_driver env) (ae_now env) user_id session_name dcfg r = (gcr, r1)"
    by fastforce
  obtain d r2 where x: "registry_exec (ae_alive env) (ae_now env) user_id session_name r1 = (d, r2)" by fastforce
  have s1: "treg_step r r1"
    using step_create [of r "ae_alive env" "ae_make_driver env" "ae_now env" user_id session_name dcfg] g by simp
  have s2: "treg_step r1 r2"
    using step_exec [of r1 "ae_alive env" "ae_now env" user_id session_name] x by simp
  have s3: "treg_step r2 (r2\<lparr>tr_jobs := js\<rparr>)" for js by (rule step_jobs)
  show ?thesis
    using rtranclp.rtrancl_into_rtrancl [OF rtranclp.rtrancl_into_rtrancl [OF r_into_rtranclp [of treg_step, OF s1] s2] s3]
      rtranclp.rtrancl_into_rtrancl [OF r_into_rtranclp [of treg_step, OF s1] s2] r_into_rtranclp [of treg_step, OF s1]
    by (auto simp: run_execute_def g x split: sum.splits prod.splits)
qed

lemma steps_dispatch: "treg_step\<^sup>*\<^sup>* r (snd (am_dispatch env cfg req r))"
proof -
  have e: "treg_step\<^sup>*\<^sup>* r (snd (handle_execute env req r))"
    unfolding handle_execute_def by (intro steps_answer) (simp add: steps_answer steps_execute)
  have k: "treg_step\<^sup>*\<^sup>* r (snd (handle_kill_session req r))"
    unfolding handle_kill_session_def by (intro steps_answer) (simp add: r_into_rtranclp step_kill)
  have poll: "snd (handle_poll req r) = r"
    unfolding handle_poll_def answer_def by (simp split: sum.split option.split)
  have cancel: "snd (handle_cancel_job env req r) = r"
    unfolding handle_cancel_job_def answer_def by (simp split: sum.split)
  have sessions: "snd (handle_list_sessions req r) = r"
    unfolding handle_list_sessions_def answer_def by (simp add: Let_def split: sum.split)
  have msg: "treg_step\<^sup>*\<^sup>* r (snd (answer (am_authorised cfg req) r (\<lambda>ok. if \<not> ok then (Inr (am_error ''auth failed''), r)
      else if msg_type = ''EXECUTE'' then handle_execute env req r else if msg_type = ''POLL'' then handle_poll req r
      else if msg_type = ''CANCEL_JOB'' then handle_cancel_job env req r
      else if msg_type = ''KILL_SESSION'' then handle_kill_session req r
      else if msg_type = ''LIST_SESSIONS'' then handle_list_sessions req r
      else (Inr (am_error (''unknown message_type: '' @ msg_type)), r))))" for msg_type
    by (rule steps_answer) (simp add: e k poll cancel sessions)
  show ?thesis
    unfolding am_dispatch_def by (simp add: msg split: option.split json.split)
qed

lemma steps_client: "treg_step\<^sup>*\<^sup>* r (snd (am_handle_client env cfg received r))"
proof (cases received)
  case (Inr req)
  then show ?thesis using steps_dispatch [of r env cfg req]
    by (auto simp: am_handle_client_def answer_def split: prod.splits sum.splits)
qed (auto simp: am_handle_client_def answer_def)

lemma steps_watchdog: "treg_step\<^sup>*\<^sup>* r (fst (am_watchdog_pass alive t1 t2 now (r, last_prune_ms)))"
proof -
  let ?r1 = "snd (detect_dead_sessions alive r)"
  let ?r2 = "snd (evict_dead_and_idle t1 ?r1)"
  have s1: "treg_step r ?r1" by (simp add: detect_dead_sessions_def step_mark)
  have s2: "treg_step ?r1 ?r2" by (rule step_evict)
  have s3: "treg_step ?r2 (registry_prune_jobs t2 ?r2)" unfolding registry_prune_jobs_def by (rule step_jobs)
  note s12 = rtranclp.rtrancl_into_rtrancl [OF r_into_rtranclp [of treg_step, OF s1] s2]
  show ?thesis
    using s12 rtranclp.rtrancl_into_rtrancl [OF s12 s3] by (auto simp: am_watchdog_pass_def Let_def)
qed

lemma reach_steps: "reach init stp s \<Longrightarrow> stp\<^sup>*\<^sup>* s t \<Longrightarrow> reach init stp t"
  by (rotate_tac, induction rule: rtranclp_induct) (auto intro: reach_step)

text \<open>The service drives the registry only through its operations. Every request that a client
  sends, whatever its content, and every pass of the watchdog is a sequence of registry operations,
  so that every state of the service reached from its start keeps the limits of its configuration.\<close>

theorem service_keeps_limits:
  assumes "reach treg_init treg_step r"
    and "r' = snd (am_handle_client env cfg received r) \<or> r' = fst (am_watchdog_pass alive t_evict t_prune now (r, last_prune_ms))"
  shows "treg_step\<^sup>*\<^sup>* r r' \<and> reach treg_init treg_step r' \<and> treg_ok r'
    \<and> reach treg_init treg_step (init_registry cfg)"
proof -
  have steps: "treg_step\<^sup>*\<^sup>* r r'" using assms(2) by (auto simp: steps_client steps_watchdog)
  have "reach treg_init treg_step r'" by (rule reach_steps [OF assms(1) steps])
  then show ?thesis using steps treg.reach_inv init_registry_reach by blast
qed

definition demo_am_env :: am_env where
  "demo_am_env = \<lparr>ae_alive = (\<lambda>_. True), ae_make_driver = local_driver, ae_now = 5,
     ae_exec = (\<lambda>d cmd t js. (Inr ''j'', js)), ae_cancel = (\<lambda>_. True)\<rparr>"

definition demo_execute :: json where
  "demo_execute = jobj [(''message_type'', JString ''EXECUTE''), (''user_id'', JString ''a''), (''cmd'', JString ''ls'')]"

lemma service_keeps_limits_witness:
  "treg_ok (snd (am_handle_client demo_am_env am_defaults (Inr demo_execute) (init_registry am_defaults)))"
  using service_keeps_limits [OF init_registry_reach [of am_defaults], of
      "snd (am_handle_client demo_am_env am_defaults (Inr demo_execute) (init_registry am_defaults))"] by blast

text \<open>Without the token nothing happens. When the configuration requires a token, a request whose
  metadata do not carry exactly the configured one is answered with an error and changes nothing,
  whatever it asks for.\<close>

theorem app_manager_requires_token:
  assumes "am_require_auth_token cfg"
    and "\<nexists>m. jget req ''metadata'' = Some (JObject m) \<and> oget m ''auth_token'' = Some (JString (am_auth_token cfg))"
    and "am_auth_token cfg \<noteq> []"
  shows "snd (am_dispatch env cfg req r) = r
    \<and> (\<forall>j. fst (am_dispatch env cfg req r) = Inr j \<longrightarrow> jget j ''status'' = Some (JString ''error''))"
proof -
  have "am_authorised cfg req \<noteq> Inr True"
  proof
    assume "am_authorised cfg req = Inr True"
    then obtain meta token where m: "jvalue as_json req ''metadata'' (JObject []) = Inr meta"
        and t: "jvalue as_string meta ''auth_token'' [] = Inr token" "token = am_auth_token cfg"
      using assms(1) constant_time_equal_def by (auto simp: am_authorised_def rbind_Inr_conv token_equal)
    then obtain mm where "meta = JObject mm" "oget mm ''auth_token'' = Some (JString (am_auth_token cfg))"
      using assms(3) by (cases meta) (auto simp: as_string_Inr split: option.splits)
    moreover have "jget req ''metadata'' = Some meta"
      using m calculation by (cases req) (auto split: option.splits)
    ultimately show False using assms(2) by blast
  qed
  then show ?thesis
    by (auto simp: am_dispatch_def answer_def split: option.splits json.splits sum.splits)
qed

lemma app_manager_requires_token_witness:
  "snd (am_dispatch demo_am_env (am_defaults\<lparr>am_require_auth_token := True, am_auth_token := ''s''\<rparr>) demo_execute demo_registry)
     = demo_registry"
  using app_manager_requires_token [of "am_defaults\<lparr>am_require_auth_token := True, am_auth_token := ''s''\<rparr>" demo_execute
      demo_am_env demo_registry]
  by (simp add: demo_execute_def)

text \<open>With an empty configured token the check accepts a request that carries none.\<close>

lemma empty_token_accepts_everyone:
  "am_authorised (am_defaults\<lparr>am_require_auth_token := True\<rparr>) (jobj [(''message_type'', JString ''EXECUTE'')]) = Inr True"
  by code_simp

text \<open>The output of a command reaches the client that polls for it. For a command that \<open>exec\<close>
  accepted on a free and live shell, once the shell has printed the start frame, some output and the
  end frame, in whatever pieces they arrive, a \<open>POLL\<close> for the job answers with exactly the printed
  bytes, the exit code, and the status \<open>finished\<close> (\<open>timeout\<close> for the code 124), and changes nothing.\<close>

theorem command_output_is_polled:
  assumes "pty_exec now steady job_id True cmd timeout_sec d = (Inr job_id, d1)" and "pd_buf d = []"
    and "token = pd_session_token d" and "kFieldSeparator \<notin> set token" and "kFieldSeparator \<notin> set job_id"
    and "0 < pid" and "int pid \<le> 9223372036854775807" and "int code \<le> INT_MAX"
    and "kFrameStart \<notin> set before" and "kFrameStart \<notin> set printed" and "kFrameStart \<notin> set after"
    and "length (start_frame token job_id (nat_digits pid)) \<le> kMaxPendingFrameBytes"
    and "length (end_frame token job_id (nat_digits code)) \<le> kMaxPendingFrameBytes"
    and "concat chunks = before @ start_frame token job_id (nat_digits pid) @ printed
           @ end_frame token job_id (nat_digits code) @ after"
    and "tr_jobs r = pd_store (fold (reader_feed later getpgid) chunks d1)" and "job_id \<noteq> []"
  shows "handle_poll (jobj [(''message_type'', JString ''POLL''), (''job_id'', JString job_id)]) r =
    (Inr (jobj [(''status'', JString ''ok''), (''job_status'', JString (if code = 124 then ''timeout'' else ''finished'')),
       (''exit_code'', JInt (int code)), (''output'', JString (before @ printed))]), r)"
  using command_result [OF assms(1-14) refl, of later getpgid] assms(15,16)
  by (simp add: handle_poll_def answer_def registry_poll_job_def)

definition demo_stream :: "string list" where
  "demo_stream = [start_frame ''t'' ''j'' (nat_digits 7) @ ''h'', ''i'' @ end_frame ''t'' ''j'' (nat_digits 0)]"

lemma command_output_is_polled_witness:
  "fst (handle_poll (jobj [(''message_type'', JString ''POLL''), (''job_id'', JString ''j'')])
     (demo_registry\<lparr>tr_jobs := pd_store (fold (reader_feed 8 (\<lambda>_. 0)) demo_stream
        (exec_register 5 0 ''j'' ''echo hi'' 0 demo_driver))\<rparr>)) =
   Inr (jobj [(''status'', JString ''ok''), (''job_status'', JString ''finished''), (''exit_code'', JInt 0), (''output'', JString ''hi'')])"
proof -
  have e: "pty_exec 5 0 ''j'' True ''echo hi'' 0 demo_driver = (Inr ''j'', exec_register 5 0 ''j'' ''echo hi'' 0 demo_driver)"
    and b: "pd_buf demo_driver = []" and t: "''t'' = pd_session_token demo_driver"
    by (simp_all add: pty_exec_def demo_driver_def Let_def)
  have sep: "kFieldSeparator \<notin> set ''t''" "kFieldSeparator \<notin> set ''j''"
    and start: "kFrameStart \<notin> set ([] :: string)" "kFrameStart \<notin> set ''hi''" "kFrameStart \<notin> set ([] :: string)"
    by (simp_all add: sentinel_chars)
  have num: "0 < (7::nat)" "int 7 \<le> 9223372036854775807" "int 0 \<le> INT_MAX" by simp_all
  have len: "length (start_frame ''t'' ''j'' (nat_digits 7)) \<le> kMaxPendingFrameBytes"
      "length (end_frame ''t'' ''j'' (nat_digits 0)) \<le> kMaxPendingFrameBytes"
    by code_simp+
  have stream: "concat demo_stream = [] @ start_frame ''t'' ''j'' (nat_digits 7) @ ''hi'' @ end_frame ''t'' ''j'' (nat_digits 0) @ []"
    by (simp add: demo_stream_def)
  show ?thesis
    using command_output_is_polled [OF e b t sep num start len stream, of
        "demo_registry\<lparr>tr_jobs := pd_store (fold (reader_feed 8 (\<lambda>_. 0)) demo_stream
           (exec_register 5 0 ''j'' ''echo hi'' 0 demo_driver))\<rparr>" 8 "\<lambda>_. 0"]
    by simp
qed

text \<open>Stopping closes every driver that was ever created, each exactly once.\<close>

lemma kill_by_id_sessions:
  "tr_sessions (kill_session_by_id k r) = tdel k (tr_sessions r) \<and> tr_drivers (kill_session_by_id k r) = tr_drivers r"
proof (cases "tget (tr_sessions r) k")
  case None
  then have "tdel k (tr_sessions r) = tr_sessions r"
    by (simp add: tdel_filter filter_id_conv map_of_eq_None_iff) (metis image_eqI)
  with None show ?thesis by (simp add: kill_session_by_id_def extract_and_close_def extract_locked_def close_drivers_def)
qed (simp add: kill_session_by_id_def extract_and_close_def extract_locked_def close_drivers_def)

lemma kill_ids_sessions:
  "tr_sessions (fold kill_session_by_id ks r) = filter (\<lambda>e. fst e \<notin> set ks) (tr_sessions r)
   \<and> tr_drivers (fold kill_session_by_id ks r) = tr_drivers r \<and> (treg_ok r \<longrightarrow> treg_ok (fold kill_session_by_id ks r))"
proof (induction ks arbitrary: r)
  case (Cons k ks)
  show ?case
    using Cons.IH [of "kill_session_by_id k r"] kill_by_id_sessions [of k r] treg_ok_extract_key [of r k]
    by (auto simp: tdel_filter kill_session_by_id_def intro: filter_cong)
qed simp

lemma stop_closes_every_driver:
  assumes "treg_ok r"
  shows "tr_sessions (am_stop True r) = [] \<and> distinct (tr_closed (am_stop True r)) \<and> set (tr_closed (am_stop True r)) = {..<tr_drivers r}"
proof -
  let ?ks = "map si_session_id (snapshot_sessions r)"
  have "fst e \<in> set ?ks" if "e \<in> set (tr_sessions r)" for e
  proof -
    obtain k s where e: "e = (k, s)" by fastforce
    have "entry_ok (k, s)" using that assms unfolding e treg_ok_def by blast
    then have "k = si_session_id (ts_info s)" by simp
    moreover have "ts_info s \<in> set (snapshot_sessions r)"
      using that unfolding e snapshot_sessions_def by (auto intro!: rev_image_eqI)
    ultimately show ?thesis unfolding e by (simp add: rev_image_eqI)
  qed
  then have "tr_sessions (am_stop True r) = []"
    using kill_ids_sessions [of ?ks r] by (simp add: am_stop_def filter_empty_conv)
  moreover have "treg_ok (am_stop True r)" "tr_drivers (am_stop True r) = tr_drivers r"
    using kill_ids_sessions [of ?ks r] assms by (simp_all add: am_stop_def)
  ultimately show ?thesis by (simp add: treg_ok_def)
qed

text \<open>A pass of the watchdog over a session whose shell has exited calls \<open>close\<close> on a driver for which
  that call does not return.\<close>

lemma watchdog_blocks_on_dead_shell:
  assumes "tr_sessions r = [(k, s)]" and "si_status (ts_info s) = Sess_Active"
    and "drivers (ts_driver s) = reader_exit t1 getpgid reaped d" and "pd_timeout_joinable d" and "\<not> pd_timeout_stop d"
    and "alive = (\<lambda>i. pd_alive (drivers i))"
  shows "tr_closed (fst (am_watchdog_pass alive t_evict t_prune now (r, last_prune_ms))) = tr_closed r @ [ts_driver s]
    \<and> pty_close t_evict getpgid reaped' (drivers (ts_driver s)) = None"
proof -
  have dead: "\<not> alive (ts_driver s)" by (simp add: assms(3,6))
  have "tr_sessions (snd (detect_dead_sessions alive r)) = [(k, mark_session_dead s)]"
    using dead assms(1,2) by (simp add: detect_dead_sessions_def scan_dead_def mark_dead_def tmodify_def)
  moreover have "evictable t_evict (snd (detect_dead_sessions alive r)) (mark_session_dead s)"
    by (simp add: evictable_def mark_session_dead_def)
  moreover have "ts_driver (mark_session_dead s) = ts_driver s" by (simp add: mark_session_dead_def)
  moreover have "tr_closed (snd (detect_dead_sessions alive r)) = tr_closed r"
    by (simp add: detect_dead_sessions_def mark_dead_def)
  ultimately have "tr_closed (snd (evict_dead_and_idle t_evict (snd (detect_dead_sessions alive r)))) = tr_closed r @ [ts_driver s]"
    by (simp add: evict_dead_and_idle_def extract_locked_def close_drivers_def Let_def)
  then show ?thesis
    using assms(3-5) by (simp add: am_watchdog_pass_def Let_def registry_prune_jobs_def pty_close_def join_timeout_def join_reader_def)
qed

end
