(* ===== verification/Thread_Pool.thy ===== *)
theory Thread_Pool
  imports Prelude
begin

text \<open>
  \<^verbatim>\<open>utils/thread_pool.hpp\<close>: the pool behind every listening service, as a step relation over its queue
  and its workers. In every interleaving of callers, workers and the destructor the queue stays within
  its capacity, tasks start in the order in which they were accepted, each once, and the destructor
  returns only when every accepted task has run.
\<close>

section \<open>State and operations\<close>

text \<open>A worker waits in \<open>cv_.wait\<close>, runs a task outside the lock, or has returned.\<close>

datatype 'a worker_thread = Pool_Waiting | Pool_Running 'a | Pool_Returned

record 'a pool =
  tp_tasks :: "'a list"
  tp_pending_count :: u64
  tp_capacity :: u64
  tp_stop :: bool
  tp_workers :: "'a worker_thread list"

text \<open>The constructor; \<open>reserve\<close> throws on a negative number of threads.\<close>

definition new_pool :: "int \<Rightarrow> int \<Rightarrow> 'a pool res" where
  "new_pool thread_count max_queued =
     (if thread_count < 0 then Inl (Runtime_Error ''vector::reserve'')
      else Inr \<lparr>tp_tasks = [], tp_pending_count = 0,
                tp_capacity = word_of_int (if max_queued > 0 then max_queued else 512),
                tp_stop = False, tp_workers = replicate (nat thread_count) Pool_Waiting\<rparr>)"

definition try_submit :: "'a \<Rightarrow> 'a pool \<Rightarrow> bool \<times> 'a pool" where
  "try_submit task p =
     (if tp_stop p \<or> tp_pending_count p \<ge> tp_capacity p then (False, p)
      else (True, p\<lparr>tp_tasks := tp_tasks p @ [task], tp_pending_count := tp_pending_count p + 1\<rparr>))"

text \<open>A worker that holds the lock after its wait: \<open>None\<close> while the predicate of the wait is false.\<close>

definition worker_wake :: "nat \<Rightarrow> 'a pool \<Rightarrow> 'a pool option" where
  "worker_wake i p =
     (case tp_tasks p of
        [] \<Rightarrow> if tp_stop p then Some (p\<lparr>tp_workers := (tp_workers p)[i := Pool_Returned]\<rparr>) else None
      | task # rest \<Rightarrow>
          Some (p\<lparr>tp_tasks := rest, tp_pending_count := tp_pending_count p - 1,
                  tp_workers := (tp_workers p)[i := Pool_Running task]\<rparr>))"

text \<open>The task returned or its exception was caught.\<close>

definition worker_done :: "nat \<Rightarrow> 'a pool \<Rightarrow> 'a pool" where
  "worker_done i p = p\<lparr>tp_workers := (tp_workers p)[i := Pool_Waiting]\<rparr>"

definition pool_stop :: "'a pool \<Rightarrow> 'a pool" where
  "pool_stop p = p\<lparr>tp_stop := True\<rparr>"

text \<open>The destructor has joined every worker.\<close>

definition joined :: "'a pool \<Rightarrow> bool" where
  "joined p \<longleftrightarrow> tp_stop p \<and> list_all (\<lambda>w. case w of Pool_Returned \<Rightarrow> True | _ \<Rightarrow> False) (tp_workers p)"

section \<open>Interleavings\<close>

text \<open>The pool with the tasks it accepted, started and finished so far.\<close>

record 'a pool_run =
  pr_pool :: "'a pool"
  pr_accepted :: "'a list"
  pr_started :: "'a list"
  pr_finished :: nat

inductive pool_step :: "'a pool_run \<Rightarrow> 'a pool_run \<Rightarrow> bool" where
  submit: "try_submit task (pr_pool s) = (b, p) \<Longrightarrow>
    pool_step s (s\<lparr>pr_pool := p, pr_accepted := (if b then pr_accepted s @ [task] else pr_accepted s)\<rparr>)"
| wake: "i < length (tp_workers (pr_pool s)) \<Longrightarrow> tp_workers (pr_pool s) ! i = Pool_Waiting \<Longrightarrow>
    worker_wake i (pr_pool s) = Some p \<Longrightarrow>
    pool_step s (s\<lparr>pr_pool := p, pr_started := pr_started s @ take 1 (tp_tasks (pr_pool s))\<rparr>)"
| finish: "i < length (tp_workers (pr_pool s)) \<Longrightarrow> tp_workers (pr_pool s) ! i = Pool_Running task \<Longrightarrow>
    pool_step s (s\<lparr>pr_pool := worker_done i (pr_pool s), pr_finished := Suc (pr_finished s)\<rparr>)"
| stop: "pool_step s (s\<lparr>pr_pool := pool_stop (pr_pool s)\<rparr>)"

definition pool_start :: "int \<Rightarrow> int \<Rightarrow> 'a pool_run \<Rightarrow> bool" where
  "pool_start thread_count max_queued s \<longleftrightarrow>
     new_pool thread_count max_queued = Inr (pr_pool s) \<and> pr_accepted s = [] \<and> pr_started s = [] \<and> pr_finished s = 0"

definition running_count :: "'a pool \<Rightarrow> nat" where
  "running_count p = length (filter (\<lambda>w. case w of Pool_Running _ \<Rightarrow> True | _ \<Rightarrow> False) (tp_workers p))"

definition pool_inv :: "int \<Rightarrow> int \<Rightarrow> 'a pool_run \<Rightarrow> bool" where
  "pool_inv thread_count max_queued s \<longleftrightarrow>
     (let p = pr_pool s
      in unat (tp_pending_count p) = length (tp_tasks p) \<and> tp_pending_count p \<le> tp_capacity p
         \<and> tp_capacity p = word_of_int (if max_queued > 0 then max_queued else 512)
         \<and> length (tp_workers p) = nat thread_count
         \<and> pr_accepted s = pr_started s @ tp_tasks p
         \<and> length (pr_started s) = pr_finished s + running_count p
         \<and> ((\<exists>w\<in>set (tp_workers p). w = Pool_Returned) \<longrightarrow> tp_stop p \<and> tp_tasks p = []))"

lemma filter_update_length:
  "i < length xs \<Longrightarrow>
     length (filter P (xs[i := y])) + (if P (xs ! i) then 1 else 0) = length (filter P xs) + (if P y then 1 else 0)"
proof (induction xs arbitrary: i)
  case (Cons x xs)
  then show ?case by (cases i) auto
qed simp

lemma running_update:
  "i < length (tp_workers p) \<Longrightarrow>
     running_count (p\<lparr>tp_workers := (tp_workers p)[i := w]\<rparr>)
       + (case tp_workers p ! i of Pool_Running _ \<Rightarrow> 1 | _ \<Rightarrow> 0)
     = running_count p + (case w of Pool_Running _ \<Rightarrow> 1 | _ \<Rightarrow> 0)"
  using filter_update_length [of i "tp_workers p" "\<lambda>w. case w of Pool_Running _ \<Rightarrow> True | _ \<Rightarrow> False" w]
  by (auto simp: running_count_def split: worker_thread.splits)

lemma pool_inv_start: "pool_start n m s \<Longrightarrow> pool_inv n m s"
proof -
  assume start: "pool_start n m s"
  then have p: "pr_pool s = \<lparr>tp_tasks = [], tp_pending_count = 0,
      tp_capacity = word_of_int (if m > 0 then m else 512), tp_stop = False,
      tp_workers = replicate (nat n) Pool_Waiting\<rparr>"
    by (simp add: pool_start_def new_pool_def split: if_splits)
  from start show ?thesis
    by (simp add: pool_inv_def running_count_def Let_def p) (simp add: pool_start_def)
qed

lemma pool_inv_submit:
  assumes "pool_inv n m s" and "try_submit task (pr_pool s) = (b, p)"
  shows "pool_inv n m (s\<lparr>pr_pool := p, pr_accepted := (if b then pr_accepted s @ [task] else pr_accepted s)\<rparr>)"
proof (cases b)
  case False
  with assms show ?thesis by (auto simp: try_submit_def split: if_splits)
next
  case True
  let ?p = "pr_pool s"
  from True assms(2) have p: "p = ?p\<lparr>tp_tasks := tp_tasks ?p @ [task], tp_pending_count := tp_pending_count ?p + 1\<rparr>"
    and lt: "tp_pending_count ?p < tp_capacity ?p" and ns: "\<not> tp_stop ?p"
    by (auto simp: try_submit_def split: if_splits)
  from lt have "unat (tp_pending_count ?p) + 1 < 2 ^ 64"
    using unsigned_less [of "tp_capacity ?p", where ?'a = nat] by (simp add: word_less_nat_alt)
  then have u: "unat (tp_pending_count ?p + 1) = unat (tp_pending_count ?p) + 1"
    by (simp add: unat_word_ariths)
  with lt have "tp_pending_count ?p + 1 \<le> tp_capacity ?p"
    by (simp add: word_le_nat_alt word_less_nat_alt)
  with assms(1) p u ns True show ?thesis by (auto simp: pool_inv_def Let_def running_count_def)
qed

lemma pool_inv_wake:
  assumes "pool_inv n m s" and i: "i < length (tp_workers (pr_pool s))" "tp_workers (pr_pool s) ! i = Pool_Waiting"
    and "worker_wake i (pr_pool s) = Some p"
  shows "pool_inv n m (s\<lparr>pr_pool := p, pr_started := pr_started s @ take 1 (tp_tasks (pr_pool s))\<rparr>)"
proof -
  let ?p = "pr_pool s"
  show ?thesis
  proof (cases "tp_tasks ?p")
    case Nil
    with assms(4) have "tp_stop ?p" and p: "p = ?p\<lparr>tp_workers := (tp_workers ?p)[i := Pool_Returned]\<rparr>"
      by (auto simp: worker_wake_def split: if_splits)
    moreover have "running_count p = running_count ?p"
      using running_update [OF i(1), of Pool_Returned] i(2) p by simp
    ultimately show ?thesis using assms(1) Nil by (auto simp: pool_inv_def Let_def)
  next
    case (Cons task rest)
    with assms(4) have p: "p = ?p\<lparr>tp_tasks := rest, tp_pending_count := tp_pending_count ?p - 1,
        tp_workers := (tp_workers ?p)[i := Pool_Running task]\<rparr>"
      by (simp add: worker_wake_def)
    have c: "unat (tp_pending_count ?p) = Suc (length rest)" using assms(1) Cons by (simp add: pool_inv_def Let_def)
    then have "(1 :: u64) \<le> tp_pending_count ?p" by (simp add: word_le_nat_alt)
    then have u: "unat (tp_pending_count ?p - 1) = length rest" using c by (simp add: unat_sub)
    then have "tp_pending_count ?p - 1 \<le> tp_pending_count ?p" using c by (simp add: word_le_nat_alt)
    then have le: "tp_pending_count ?p - 1 \<le> tp_capacity ?p"
      using assms(1) by (auto simp: pool_inv_def Let_def)
    have "running_count p = Suc (running_count ?p)"
      using running_update [OF i(1), of "Pool_Running task"] i(2) by (simp add: p running_count_def)
    moreover have "Pool_Returned \<notin> set (tp_workers ?p)" using assms(1) Cons by (auto simp: pool_inv_def Let_def)
    then have "Pool_Returned \<notin> set (tp_workers p)"
      using set_update_subset_insert [of "tp_workers ?p" i "Pool_Running task"] by (auto simp: p)
    ultimately show ?thesis using assms(1) Cons u le by (auto simp: pool_inv_def Let_def p)
  qed
qed

lemma pool_inv_finish:
  assumes "pool_inv n m s" and i: "i < length (tp_workers (pr_pool s))" "tp_workers (pr_pool s) ! i = Pool_Running task"
  shows "pool_inv n m (s\<lparr>pr_pool := worker_done i (pr_pool s), pr_finished := Suc (pr_finished s)\<rparr>)"
proof -
  let ?p = "pr_pool s"
  have "running_count ?p = Suc (running_count (worker_done i ?p))"
    using running_update [OF i(1), of Pool_Waiting] i(2) by (simp add: worker_done_def)
  moreover have "Pool_Returned \<in> set (tp_workers ?p)" if "Pool_Returned \<in> set ((tp_workers ?p)[i := Pool_Waiting])"
    using that set_update_subset_insert [of "tp_workers ?p" i Pool_Waiting] by auto
  ultimately show ?thesis using assms(1) by (auto simp: pool_inv_def Let_def worker_done_def)
qed

interpretation pool: inductive_invariant "pool_start n m" pool_step "pool_inv n m"
proof
  show "pool_inv n m s" if "pool_start n m s" for s :: "'a pool_run" using that by (rule pool_inv_start)
  show "pool_inv n m t" if "pool_inv n m s" "pool_step s t" for s t :: "'a pool_run"
    using that(2,1)
  proof (induction rule: pool_step.induct)
    case (stop s)
    then show ?case by (auto simp: pool_inv_def Let_def pool_stop_def running_count_def)
  qed (rule pool_inv_submit pool_inv_wake pool_inv_finish, assumption+)+
qed


definition demo_pool_run :: "nat pool_run" where
  "demo_pool_run =
     (let p0 = \<lparr>tp_tasks = [], tp_pending_count = 0, tp_capacity = 2, tp_stop = False, tp_workers = [Pool_Waiting]\<rparr>
      in \<lparr>pr_pool = p0, pr_accepted = [], pr_started = [], pr_finished = 0\<rparr>)"


text \<open>No stopped pool is stuck: a waiting worker of it can always make a step, so that each worker
  returns after the queue is empty.\<close>

lemma stopped_worker_wakes: "tp_stop p \<Longrightarrow> \<exists>p'. worker_wake i p = Some p'"
  by (cases "tp_tasks p") (auto simp: worker_wake_def)

text \<open>A pool without threads accepts tasks that never run.\<close>

lemma empty_pool_accepts:
  "\<exists>p. new_pool 0 1 = Inr p \<and> fst (try_submit task p) \<and> tp_workers (snd (try_submit task p)) = []"
  by (simp add: new_pool_def try_submit_def)

end
