(* ===== verification/Skill_Registry.thy ===== *)
theory Skill_Registry
  imports File_Text
begin

text \<open>
  \<^verbatim>\<open>llm/skills/skill_registry.cpp\<close> and \<^verbatim>\<open>tools/skill_view\<close>'s use of it: the front matter of skill files, the
  two caches, truncation, and the fuzzy suggestions. The skill directory is an argument: the names of
  its subdirectories and, for a name, the text and modification time of its \<open>SKILL.md\<close>. Scores are
  rational. The distance table is the least number of edits, suggestions are exactly the best matches,
  and what is returned of a skill is bounded.
\<close>

section \<open>Data\<close>

record skill_metadata =
  sm_name :: string
  sm_description :: string
  sm_author :: string
  sm_version :: string
  sm_tags :: "string list"
  sm_visibility :: string

record skill_content =
  sc_metadata :: skill_metadata
  sc_body :: string

record skill_info =
  si_metadata :: skill_metadata
  si_preview :: string
  si_last_mtime :: int

record skill_registry =
  cached_skills :: "(string \<times> skill_info) list"
  full_content_cache :: "(string \<times> skill_content) list"
  last_cache_time :: int

text \<open>The directory \<open>skills/\<close> below the repository root. Times are in nanoseconds.\<close>

record skill_files =
  sf_directories :: "string list"
  sf_file :: "string \<Rightarrow> (string \<times> int) option"

section \<open>Text\<close>

definition sk_space :: "char \<Rightarrow> bool" where
  "sk_space c \<longleftrightarrow> c = CHR '' '' \<or> c = CHR 0x09 \<or> c = CHR 0x0D \<or> c = newline"

definition strip_both :: "(char \<Rightarrow> bool) \<Rightarrow> string \<Rightarrow> string" where
  "strip_both P s = rev (dropWhile P (rev (dropWhile P s)))"

definition is_valid_skill_name :: "string \<Rightarrow> bool" where
  "is_valid_skill_name name \<longleftrightarrow>
     name \<noteq> [] \<and> length name \<le> 255
     \<and> list_all (\<lambda>c. isalnum c \<or> c = CHR ''_'' \<or> c = CHR ''-'' \<or> c = CHR ''.'') name"

definition add_tags :: "string list \<Rightarrow> skill_metadata \<Rightarrow> skill_metadata" where
  "add_tags tags m = m\<lparr>sm_tags := sm_tags m @ filter (\<lambda>t. t \<noteq> []) (map (strip_both sk_space) tags)\<rparr>"

definition unquote :: "string \<Rightarrow> string" where
  "unquote v =
     (if length v \<ge> 2 \<and> (hd v = CHR 0x22 \<and> last v = CHR 0x22 \<or> hd v = CHR 0x27 \<and> last v = CHR 0x27)
      then butlast (tl v) else v)"

text \<open>One line of the front matter: the metadata and the key that waits for list items.\<close>

definition parse_yaml_line :: "string \<Rightarrow> skill_metadata \<times> string \<Rightarrow> skill_metadata \<times> string" where
  "parse_yaml_line raw st =
     (case st of (m, pending_key) \<Rightarrow>
        let line = strip_both sk_space raw
        in if line = [] \<or> hd line = CHR ''#'' then (m, [])
           else if hd line = CHR ''-'' \<and> length line > 1 \<and> line ! 1 = CHR '' ''
           then ((if pending_key = ''tags'' then add_tags [drop 2 line] m else m), pending_key)
           else case str_find line '':'' 0 of
                  None \<Rightarrow> (m, [])
                | Some colon \<Rightarrow>
                    (let key = rev (dropWhile (\<lambda>c. c = CHR '' '' \<or> c = CHR 0x09) (rev (take colon line)));
                         v = unquote (strip_both sk_space (drop (colon + 1) line))
                     in if key = ''name'' then (m\<lparr>sm_name := v\<rparr>, [])
                        else if key = ''description'' then (m\<lparr>sm_description := v\<rparr>, [])
                        else if key = ''author'' then (m\<lparr>sm_author := v\<rparr>, [])
                        else if key = ''version'' then (m\<lparr>sm_version := v\<rparr>, [])
                        else if key = ''visibility'' then (m\<lparr>sm_visibility := v\<rparr>, [])
                        else if key = ''tags''
                        then (if v = [] then (m, ''tags'') else (add_tags (split v CHR '','') m, []))
                        else (m, [])))"

definition default_metadata :: "string \<Rightarrow> skill_metadata" where
  "default_metadata skill_name =
     \<lparr>sm_name = skill_name, sm_description = [], sm_author = [], sm_version = [], sm_tags = [],
      sm_visibility = ''public''\<rparr>"

text \<open>\<open>substr\<close> throws when its position is behind the end: here when the closing delimiter ends the
  file.\<close>

definition parse_skill_frontmatter_and_body :: "string \<Rightarrow> string \<Rightarrow> (skill_metadata \<times> string) res" where
  "parse_skill_frontmatter_and_body content skill_name =
     (if take 3 content \<noteq> ''---'' then Inr (default_metadata skill_name, content)
      else case str_find content ([newline] @ ''---'') 4 of
             None \<Rightarrow> Inr (default_metadata skill_name, content)
           | Some d \<Rightarrow>
               if d + 5 > length content then Inl (Runtime_Error ''basic_string::substr'')
               else Inr (fst (fold parse_yaml_line (split (take (d - 4) (drop 4 content)) newline)
                           (default_metadata skill_name, [])),
                         drop (d + 5) content))"

text \<open>\<open>std::string::npos\<close> compares as the largest position.\<close>

definition npos :: nat where
  "npos = 2 ^ 64 - 1"

definition pos_of :: "nat option \<Rightarrow> nat" where
  "pos_of r = (case r of None \<Rightarrow> npos | Some p \<Rightarrow> p)"

definition truncate_markdown :: "string \<Rightarrow> nat \<Rightarrow> string" where
  "truncate_markdown txt max_chars =
     (if length txt \<le> max_chars then txt
      else let truncated = take max_chars txt;
               last_period = pos_of (str_rfind truncated ''.'');
               last_newline = pos_of (str_rfind truncated [newline]);
               last_space = pos_of (str_rfind truncated '' '');
               best_cut = (if last_newline \<noteq> npos \<and> last_newline > last_period then last_newline
                           else if last_space \<noteq> npos \<and> last_space > last_period then last_space
                           else last_period)
           in (if best_cut \<noteq> npos \<and> best_cut > max_chars div 2 then take best_cut truncated else truncated)
              @ [newline] @ ''...(truncated)'')"

text \<open>The preview: 240 characters, cut at the last space, tab or newline (\<open>find_last_of\<close>).\<close>

definition skill_preview :: "string \<Rightarrow> string" where
  "skill_preview body =
     (if length body > 240
      then (let preview = take 240 body;
                rest = dropWhile (\<lambda>c. \<not> (c = CHR '' '' \<or> c = CHR 0x09 \<or> c = newline)) (rev preview)
            in if rest = [] then preview else rev (tl rest))
      else body)"

section \<open>Loading\<close>

definition MAX_SKILL_SIZE_BYTES :: nat where
  "MAX_SKILL_SIZE_BYTES = 100000"

definition load_skill_file :: "skill_files \<Rightarrow> string \<Rightarrow> skill_info option res" where
  "load_skill_file F skill_name =
     (if \<not> is_valid_skill_name skill_name then Inr None
      else case sf_file F skill_name of
             None \<Rightarrow> Inr None
           | Some (content, mtime) \<Rightarrow>
               if length content > MAX_SKILL_SIZE_BYTES then Inr None
               else rbind (parse_skill_frontmatter_and_body content skill_name) (\<lambda>(metadata, body).
                      Inr (Some \<lparr>si_metadata = metadata, si_preview = skill_preview body, si_last_mtime = mtime\<rparr>)))"

fun load_skills :: "skill_files \<Rightarrow> string list \<Rightarrow> (string \<times> skill_info) list \<Rightarrow> (string \<times> skill_info) list res" where
  "load_skills F [] cache = Inr cache"
| "load_skills F (name # names) cache =
     rbind (load_skill_file F name) (\<lambda>info.
       load_skills F names (case info of None \<Rightarrow> cache | Some i \<Rightarrow> oput name i cache))"

text \<open>The constructor and \<open>reload\<close>, which throw what a file makes the parser throw.\<close>

definition load_from_skills_directory :: "skill_files \<Rightarrow> int \<Rightarrow> skill_registry res" where
  "load_from_skills_directory F now =
     rbind (load_skills F (sf_directories F) []) (\<lambda>cache.
       Inr \<lparr>cached_skills = cache, full_content_cache = [], last_cache_time = now\<rparr>)"

definition cache_age_seconds :: "int \<Rightarrow> int \<Rightarrow> int" where
  "cache_age_seconds now since = (let d = now - since in if d < 0 then - ((- d) div 10 ^ 9) else d div 10 ^ 9)"

text \<open>The age is compared with an unsigned constant: a negative one is large.\<close>

definition is_cache_valid :: "skill_files \<Rightarrow> int \<Rightarrow> string \<Rightarrow> skill_registry \<Rightarrow> bool" where
  "is_cache_valid F now skill_name R =
     (let age = cache_age_seconds now (last_cache_time R)
      in if age < 0 \<or> age > 60 then False
         else case (oget (cached_skills R) skill_name, sf_file F skill_name) of
                (Some info, Some (_, mtime)) \<Rightarrow> mtime = si_last_mtime info
              | _ \<Rightarrow> True)"

text \<open>The part of \<open>get_skill\<close> that reads the file: it caches what it returns, truncated.\<close>

definition load_fresh ::
    "skill_files \<Rightarrow> int \<Rightarrow> string \<Rightarrow> nat \<Rightarrow> skill_registry \<Rightarrow> skill_content option res \<times> skill_registry" where
  "load_fresh F now skill_name max_chars R =
     (case sf_file F skill_name of
        None \<Rightarrow> (Inr None, R)
      | Some (content, _) \<Rightarrow>
          if length content > MAX_SKILL_SIZE_BYTES then (Inr None, R)
          else case parse_skill_frontmatter_and_body content skill_name of
                 Inl e \<Rightarrow> (Inl e, R)
               | Inr (metadata, body) \<Rightarrow>
                   (let r = \<lparr>sc_metadata = metadata, sc_body = truncate_markdown body max_chars\<rparr>
                    in (Inr (Some r), R\<lparr>full_content_cache := oput skill_name r (full_content_cache R),
                                         last_cache_time := now\<rparr>)))"

definition get_skill ::
    "skill_files \<Rightarrow> int \<Rightarrow> string \<Rightarrow> nat \<Rightarrow> skill_registry \<Rightarrow> skill_content option res \<times> skill_registry" where
  "get_skill F now skill_name max_chars R =
     (if \<not> is_valid_skill_name skill_name then (Inr None, R)
      else case oget (full_content_cache R) skill_name of
             Some c \<Rightarrow>
               if is_cache_valid F now skill_name R
               then (Inr (Some (c\<lparr>sc_body := truncate_markdown (sc_body c) max_chars\<rparr>)), R)
               else load_fresh F now skill_name max_chars R
           | None \<Rightarrow> load_fresh F now skill_name max_chars R)"

definition get_skills_menu :: "skill_registry \<Rightarrow> json" where
  "get_skills_menu R =
     JArray (map (\<lambda>(name, info).
         jobj [(''name'', JString name), (''description'', JString (sm_description (si_metadata info))),
               (''visibility'', JString (sm_visibility (si_metadata info)))])
       (filter (\<lambda>(name, info). sm_visibility (si_metadata info) = ''public''
                              \<or> sm_visibility (si_metadata info) = ''internal'') (cached_skills R)))"

definition list_skill_names :: "skill_registry \<Rightarrow> string list" where
  "list_skill_names R = map fst (cached_skills R)"

definition skill_exists :: "skill_registry \<Rightarrow> string \<Rightarrow> bool" where
  "skill_exists R skill_name \<longleftrightarrow> oget (cached_skills R) skill_name \<noteq> None"

section \<open>Suggestions\<close>

fun collapse_spaces :: "bool \<Rightarrow> string \<Rightarrow> string" where
  "collapse_spaces last_was_space [] = []"
| "collapse_spaces last_was_space (c # cs) =
     (if c = CHR '' ''
      then (if last_was_space then collapse_spaces True cs else c # collapse_spaces True cs)
      else c # collapse_spaces False cs)"

definition normalize_name :: "string \<Rightarrow> string" where
  "normalize_name name =
     (let normalized = List.map_filter (\<lambda>c.
            if isalnum c then Some (tolower c)
            else if c = CHR ''_'' \<or> c = CHR ''-'' \<or> c = CHR '' '' then Some (CHR '' '') else None) name
      in strip_both (\<lambda>c. c = CHR '' '') (collapse_spaces False normalized))"

text \<open>The cells of the table \<open>dp\<close>.\<close>

fun sk_dp :: "string \<Rightarrow> string \<Rightarrow> nat \<Rightarrow> nat \<Rightarrow> nat" where
  "sk_dp a b 0 j = j"
| "sk_dp a b (Suc i) 0 = Suc i"
| "sk_dp a b (Suc i) (Suc j) =
     min (min (sk_dp a b i (Suc j) + 1) (sk_dp a b (Suc i) j + 1))
         (sk_dp a b i j + (if a ! i = b ! j then 0 else 1))"

definition levenshtein_score :: "string \<Rightarrow> string \<Rightarrow> rat" where
  "levenshtein_score a b =
     (let max_len = max (length a) (length b)
      in if max_len = 0 then 1
         else 1 - of_nat (sk_dp a b (length a) (length b)) / of_nat max_len)"

definition name_tokens :: "string \<Rightarrow> string list" where
  "name_tokens s = remdups (filter (\<lambda>w. w \<noteq> []) (split s CHR '' ''))"

definition token_overlap_score :: "string \<Rightarrow> string \<Rightarrow> rat" where
  "token_overlap_score query target =
     (let norm_query = normalize_name query; norm_target = normalize_name target
      in if str_contains norm_target norm_query then 95 / 100
         else if str_contains norm_query norm_target then 90 / 100
         else let qs = name_tokens norm_query; ts = name_tokens norm_target
              in if qs = [] \<or> ts = [] then 0
                 else of_nat (length (filter (\<lambda>q. q \<in> set ts) qs)) / of_nat (length qs) * (8 / 10))"

definition combined_score :: "string \<Rightarrow> string \<Rightarrow> rat" where
  "combined_score query name =
     6 / 10 * token_overlap_score query name
     + 4 / 10 * levenshtein_score (normalize_name query) (normalize_name name)"

record skill_suggestion =
  sg_name :: string
  sg_description :: string
  sg_score :: rat

text \<open>\<open>std::sort\<close> leaves the order of equal scores open; here they keep the order of the map.\<close>

definition get_skill_suggestions :: "skill_registry \<Rightarrow> string \<Rightarrow> rat \<Rightarrow> nat \<Rightarrow> skill_suggestion list" where
  "get_skill_suggestions R query min_score max_candidates =
     take max_candidates (sort_key (\<lambda>s. - sg_score s)
       (filter (\<lambda>s. sg_score s \<ge> min_score)
         (map (\<lambda>(name, info). \<lparr>sg_name = name, sg_description = sm_description (si_metadata info),
                               sg_score = combined_score query name\<rparr>) (cached_skills R))))"

section \<open>What is shown\<close>

lemma truncate_length: "length (truncate_markdown txt n) \<le> n + 15"
  by (auto simp: truncate_markdown_def Let_def)

text \<open>What is returned of a skill is bounded, and only a name without a separator is looked up.\<close>

lemma get_skill_bounded:
  assumes "get_skill F now name n R = (Inr (Some c), R')"
  shows "length (sc_body c) \<le> n + 15 \<and> is_valid_skill_name name \<and> CHR ''/'' \<notin> set name"
proof -
  have valid: "is_valid_skill_name name" using assms by (auto simp: get_skill_def split: if_splits)
  then have "CHR ''/'' \<notin> set name"
    by (auto simp: is_valid_skill_name_def list_all_iff isalnum_def isalpha_def isdigit_def)
  moreover have "length (sc_body c) \<le> n + 15"
    using assms truncate_length
    by (auto simp: get_skill_def load_fresh_def Let_def split: if_splits option.splits sum.splits)
  ultimately show ?thesis using valid by blast
qed

text \<open>The table agrees with the recurrence of \<open>File_Text\<close> on normalised names, whose letters are all of
  one case.\<close>

lemma tolower_idem: "tolower (tolower c) = tolower c"
  by (auto simp: tolower_def)

lemma rev_take_Suc: "i < length a \<Longrightarrow> rev (take (Suc i) a) = a ! i # rev (take i a)"
  by (simp add: take_Suc_conv_app_nth)

lemma sk_dp_lev:
  "\<forall>c\<in>set a \<union> set b. tolower c = c \<Longrightarrow> i \<le> length a \<Longrightarrow> j \<le> length b \<Longrightarrow>
     sk_dp a b i j = lev (rev (take i a)) (rev (take j b))"
proof (induction a b i j rule: sk_dp.induct)
  case (3 a b i j)
  have cost: "edit_cost (a ! i) (b ! j) = (if a ! i = b ! j then 0 else 1)"
  proof -
    have "a ! i \<in> set a" "b ! j \<in> set b" using "3.prems" by simp_all
    then have "tolower (a ! i) = a ! i" "tolower (b ! j) = b ! j" using "3.prems"(1) by blast+
    then show ?thesis by (simp add: edit_cost_def)
  qed
  have "sk_dp a b (Suc i) (Suc j) = min (min (lev (rev (take i a)) (rev (take (Suc j) b)) + 1)
      (lev (rev (take (Suc i) a)) (rev (take j b)) + 1)) (lev (rev (take i a)) (rev (take j b)) + edit_cost (a ! i) (b ! j))"
    using 3 by (simp add: cost)
  also have "\<dots> = lev (rev (take (Suc i) a)) (rev (take (Suc j) b))"
    using 3 by (simp add: rev_take_Suc)
  finally show ?case .
qed simp_all

lemma set_collapse: "set (collapse_spaces b s) \<subseteq> set s"
  by (induction b s rule: collapse_spaces.induct) auto

lemma set_strip_both: "set (strip_both P s) \<subseteq> set s"
  by (auto simp: strip_both_def dest!: set_dropWhileD)

lemma normalize_lower: "c \<in> set (normalize_name name) \<Longrightarrow> tolower c = c"
proof -
  assume "c \<in> set (normalize_name name)"
  then have "c \<in> set (List.map_filter (\<lambda>c. if isalnum c then Some (tolower c)
      else if c = CHR ''_'' \<or> c = CHR ''-'' \<or> c = CHR '' '' then Some (CHR '' '') else None) name)"
    unfolding normalize_name_def Let_def using set_strip_both set_collapse by blast
  then have "(\<exists>d. c = tolower d) \<or> c = CHR '' ''"
    by (auto simp: List.map_filter_def split: if_splits)
  moreover have "tolower CHR '' '' = CHR '' ''" by code_simp
  ultimately show ?thesis using tolower_idem by auto
qed

text \<open>The similarity of skill names is the least number of edits. On normalised names the score is one
  minus the cost of a cheapest edit script (insertions, deletions and substitutions) divided by the
  longer length, and one for two empty names.\<close>

theorem levenshtein_exact:
  "levenshtein_score (normalize_name q) (normalize_name t) =
     (let a = normalize_name q; b = normalize_name t; max_len = max (length a) (length b)
      in if max_len = 0 then 1 else 1 - of_nat (LEAST n. edits a b n) / of_nat max_len)"
proof -
  let ?a = "normalize_name q" and ?b = "normalize_name t"
  have "sk_dp ?a ?b (length ?a) (length ?b) = lev (rev ?a) (rev ?b)"
    using sk_dp_lev [of ?a ?b "length ?a" "length ?b"] normalize_lower by auto
  moreover have "lev (rev ?a) (rev ?b) = (LEAST n. edits ?a ?b n)"
  proof (rule Least_equality [symmetric])
    show "edits ?a ?b (lev (rev ?a) (rev ?b))"
      using edits_rev [OF edits_lev [of "rev ?a" "rev ?b"]] by simp
    show "lev (rev ?a) (rev ?b) \<le> n" if "edits ?a ?b n" for n
      using lev_least [OF edits_rev [OF that]] .
  qed
  ultimately show ?thesis by (simp add: levenshtein_score_def Let_def)
qed

lemma sorted_take_drop:
  assumes "sorted_wrt r xs" and "x \<in> set (take k xs)" and "y \<in> set (drop k xs)"
  shows "r x y"
  using assms sorted_wrt_append [of r "take k xs" "drop k xs"] by (metis append_take_drop_id)

text \<open>Suggestions are the best matches. The answer has at most the asked number of suggestions, with
  scores in falling order; each is a cached skill with its own combined score, not below the
  threshold; and a cached skill over the threshold that is not suggested scores no higher than any that
  is, with the answer full.\<close>

theorem suggestions_are_best:
  "length (get_skill_suggestions R query min_score k) \<le> k
   \<and> sorted_wrt (\<lambda>s t. sg_score s \<ge> sg_score t) (get_skill_suggestions R query min_score k)
   \<and> (\<forall>s\<in>set (get_skill_suggestions R query min_score k).
        sg_name s \<in> set (list_skill_names R) \<and> sg_score s = combined_score query (sg_name s) \<and> min_score \<le> sg_score s)
   \<and> (\<forall>name\<in>set (list_skill_names R). min_score \<le> combined_score query name \<longrightarrow>
        name \<in> sg_name ` set (get_skill_suggestions R query min_score k)
        \<or> length (get_skill_suggestions R query min_score k) = k
          \<and> (\<forall>s\<in>set (get_skill_suggestions R query min_score k). combined_score query name \<le> sg_score s))"
proof -
  define mk where "mk = (\<lambda>(name, info :: skill_info). \<lparr>sg_name = name, sg_description = sm_description (si_metadata info),
      sg_score = combined_score query name\<rparr>)"
  define xs where "xs = sort_key (\<lambda>s. - sg_score s) (filter (\<lambda>s. sg_score s \<ge> min_score) (map mk (cached_skills R)))"
  have get: "get_skill_suggestions R query min_score k = take k xs"
    by (simp add: get_skill_suggestions_def xs_def mk_def)
  have srt: "sorted_wrt (\<lambda>s t. sg_score s \<ge> sg_score t) xs"
    using sorted_sort_key [of "\<lambda>s. - sg_score s"] by (simp add: xs_def sorted_map)
  have elem: "sg_name s \<in> set (list_skill_names R) \<and> sg_score s = combined_score query (sg_name s) \<and> min_score \<le> sg_score s"
    if "s \<in> set xs" for s
    using that by (auto simp: xs_def mk_def list_skill_names_def rev_image_eqI)
  have all: "\<exists>s\<in>set xs. sg_name s = name \<and> sg_score s = combined_score query name"
    if nm: "name \<in> set (list_skill_names R)" "min_score \<le> combined_score query name" for name
  proof -
    from nm(1) obtain info where "(name, info) \<in> set (cached_skills R)" by (auto simp: list_skill_names_def)
    then have "mk (name, info) \<in> set xs" using nm(2) by (auto simp: xs_def mk_def)
    then show ?thesis by (intro bexI [of _ "mk (name, info)"]) (simp_all add: mk_def)
  qed
  have omitted: "name \<in> sg_name ` set (take k xs)
      \<or> length (take k xs) = k \<and> (\<forall>s\<in>set (take k xs). combined_score query name \<le> sg_score s)"
    if nm: "name \<in> set (list_skill_names R)" "min_score \<le> combined_score query name" for name
  proof -
    obtain s where s: "s \<in> set xs" "sg_name s = name" "sg_score s = combined_score query name"
      using all [OF nm] by blast
    show ?thesis
    proof (cases "s \<in> set (take k xs)")
      case False
      with s(1) have d: "s \<in> set (drop k xs)" by (metis Un_iff append_take_drop_id set_append)
      then have "k \<le> length xs" by (metis drop_all empty_iff empty_set nat_le_linear)
      moreover have "combined_score query name \<le> sg_score t" if "t \<in> set (take k xs)" for t
        using sorted_take_drop [OF srt that d] s(3) by simp
      ultimately show ?thesis by simp
    qed (use s(2) in auto)
  qed
  have "\<forall>s\<in>set (take k xs). sg_name s \<in> set (list_skill_names R) \<and> sg_score s = combined_score query (sg_name s)
      \<and> min_score \<le> sg_score s"
    using elem by (blast dest: in_set_takeD)
  moreover have "sorted_wrt (\<lambda>s t. sg_score s \<ge> sg_score t) (take k xs)" by (rule sorted_wrt_take [OF srt])
  moreover have "length (take k xs) \<le> k" by simp
  ultimately show ?thesis
    unfolding get using omitted by blast
qed

definition demo_skill_info :: skill_info where
  "demo_skill_info = \<lparr>si_metadata = default_metadata ''git_flow'', si_preview = ''hello'', si_last_mtime = 5\<rparr>"

definition demo_skills :: skill_registry where
  "demo_skills = \<lparr>cached_skills = [(''git_flow'', demo_skill_info)], full_content_cache = [], last_cache_time = 0\<rparr>"

lemma suggestions_are_best_witness:
  "length (get_skill_suggestions demo_skills ''git'' (55 / 100) 3) \<le> 3
   \<and> list_skill_names demo_skills = [''git_flow'']"
proof -
  have "list_skill_names demo_skills = [''git_flow'']" by (simp add: list_skill_names_def demo_skills_def)
  with suggestions_are_best [of demo_skills "''git''" "55 / 100" 3] show ?thesis by blast
qed

section \<open>Findings\<close>

text \<open>The name check admits the parent directory.\<close>

lemma parent_directory_is_a_skill_name: "is_valid_skill_name ''..''"
  by code_simp

text \<open>The cache holds the body as it was truncated for the first caller: a later caller that asks for more
  gets no more.\<close>

lemma cached_skill_stays_truncated:
  assumes "is_valid_skill_name name" and "oget (full_content_cache R) name = None"
    and "get_skill F now name n R = (Inr (Some c), R')"
    and "is_cache_valid F now' name R'" and "get_skill F now' name n' R' = (Inr (Some c'), R'')"
  shows "length (sc_body c') \<le> n + 30"
proof -
  have R': "oget (full_content_cache R') name = Some c" "length (sc_body c) \<le> n + 15"
    using assms(1-3) truncate_length
    by (auto simp: get_skill_def load_fresh_def Let_def split: if_splits option.splits sum.splits)
  then have "sc_body c' = truncate_markdown (sc_body c) n'"
    using assms(1,4,5) by (auto simp: get_skill_def)
  moreover have "length (truncate_markdown s m) \<le> length s + 15" for s m
    by (auto simp: truncate_markdown_def Let_def)
  then have "length (truncate_markdown (sc_body c) n') \<le> length (sc_body c) + 15" .
  ultimately show ?thesis using R'(2) by simp
qed

text \<open>A file that ends with the closing delimiter makes the parser throw, and with it the whole registry.\<close>

lemma closing_delimiter_at_end_throws:
  "parse_skill_frontmatter_and_body (''---'' @ [newline] @ ''name: x'' @ [newline] @ ''---'') n
     = Inl (Runtime_Error ''basic_string::substr'')"
  by code_simp

text \<open>Without a period in the window the text is cut in the middle of a word: the position of a missing
  period compares greater than every newline and space.\<close>

lemma no_period_no_word_boundary:
  "truncate_markdown ''aaaa bb cc dd'' 12 = ''aaaa bb cc d'' @ [newline] @ ''...(truncated)''"
proof -
  have "str_rfind ''aaaa bb cc d'' ''.'' = None" "str_rfind ''aaaa bb cc d'' [newline] = None"
    "str_rfind ''aaaa bb cc d'' '' '' = Some 10"
    by code_simp+
  then show ?thesis by (simp add: truncate_markdown_def pos_of_def npos_def)
qed

text \<open>A query without letters and digits matches every skill.\<close>

lemma blank_query_matches_all: "token_overlap_score ''?!'' name = 95 / 100"
proof -
  have "normalize_name ''?!'' = []" by code_simp
  then show ?thesis by (simp add: token_overlap_score_def str_contains_iff)
qed

end
