(* ===== verification/Runtime_Adapters.thy ===== *)
theory Runtime_Adapters
  imports Json
begin

text \<open>
  \<^verbatim>\<open>execution/runtime_adapters/runtime_adapters.cpp\<close>, \<^verbatim>\<open>execution/prepare_runner.cpp\<close> and
  \<^verbatim>\<open>execution/run_launcher.cpp\<close>: how the manifest of a package becomes a command line, the steps that
  prepare a package, and the launch. Which binaries and files there are, and what a spawned process
  answers, are arguments. An accepted adapter runs an interpreter on an existing entry file or a local
  binary, and preparation succeeds exactly when each step does, stopping at the first that fails.
\<close>

section \<open>Data\<close>

record prepare_step =
  ps_command :: string
  ps_args :: "string list"
  ps_timeout_ms :: int

record runtime_resolution =
  rr_runtime :: string
  rr_version :: string
  rr_run_command :: string
  rr_run_args :: "string list"
  rr_injected_prepare_steps :: "prepare_step list"
  rr_env_overrides :: "(string \<times> string) list"

text \<open>The machine as the adapters see it: \<open>which\<close>, regular files, existing paths, and the output and
  error output of a version command, which may throw. File tests are taken not to fail.\<close>

record rt_env =
  rt_which :: "string \<Rightarrow> bool"
  rt_regular :: "string \<Rightarrow> bool"
  rt_exists :: "string \<Rightarrow> bool"
  rt_run :: "string \<Rightarrow> string list \<Rightarrow> (string \<times> string) res"

text \<open>\<open>operator/\<close> of paths.\<close>

definition path_join :: "string \<Rightarrow> string \<Rightarrow> string" where
  "path_join a b =
     (if b \<noteq> [] \<and> hd b = CHR ''/'' then b
      else if a = [] \<or> last a = CHR ''/'' then a @ b else a @ ''/'' @ b)"

section \<open>Choosing an adapter\<close>

definition binary_exists :: "rt_env \<Rightarrow> string \<Rightarrow> bool" where
  "binary_exists E bin \<longleftrightarrow> bin \<noteq> [] \<and> rt_which E bin"

definition rt_space :: "char \<Rightarrow> bool" where
  "rt_space c \<longleftrightarrow> c = newline \<or> c = CHR 0x0D \<or> c = CHR '' '' \<or> c = CHR 0x09"

definition rt_trim :: "string \<Rightarrow> string" where
  "rt_trim v = dropWhile rt_space (rev (dropWhile rt_space (rev v)))"

definition detect_runtime_version :: "rt_env \<Rightarrow> string \<Rightarrow> string list \<Rightarrow> string res" where
  "detect_runtime_version E command args =
     rbind (rt_run E command args) (\<lambda>(out, err).
       Inr (if rt_trim out \<noteq> [] then rt_trim out
            else if rt_trim err \<noteq> [] then rt_trim err else ''unknown''))"

definition file_exists_in :: "rt_env \<Rightarrow> string \<Rightarrow> string \<Rightarrow> bool" where
  "file_exists_in E workdir entry = rt_regular E (path_join workdir entry)"

fun any_command :: "json list \<Rightarrow> string \<Rightarrow> bool res" where
  "any_command [] command = Inr False"
| "any_command (step # steps) command =
     (if is_object step
      then rbind (jvalue as_string step ''command'' []) (\<lambda>c.
             if c = command then Inr True else any_command steps command)
      else any_command steps command)"

definition has_prepare_command :: "json \<Rightarrow> string \<Rightarrow> bool res" where
  "has_prepare_command manifest command =
     rbind (jvalue as_json manifest ''prepare'' (JArray [])) (\<lambda>prepare.
       case prepare of JArray steps \<Rightarrow> any_command steps command | _ \<Rightarrow> Inr False)"

definition path_looks_local_binary :: "string \<Rightarrow> bool" where
  "path_looks_local_binary command \<longleftrightarrow> prefix ''./'' command \<or> prefix ''../'' command"

definition local_ends_with_exe :: "string \<Rightarrow> bool" where
  "local_ends_with_exe v \<longleftrightarrow>
     length v \<ge> 4 \<and> map tolower (drop (length v - 4) v) = ''.exe''"

definition normalize_local_binary_for_platform :: "string \<Rightarrow> string" where
  "normalize_local_binary_for_platform command =
     (if path_looks_local_binary command \<and> local_ends_with_exe command
      then take (length command - 4) command else command)"

text \<open>A refusal with its message, or a value.\<close>

type_synonym 'a choice = "string + 'a"

fun cbind :: "'a choice \<Rightarrow> ('a \<Rightarrow> 'b choice) \<Rightarrow> 'b choice" where
  "cbind (Inl e) f = Inl e"
| "cbind (Inr a) f = f a"

definition ensure :: "bool \<Rightarrow> string \<Rightarrow> unit choice" where
  "ensure b msg = (if b then Inr () else Inl msg)"

lemma cbind_Inr_conv: "cbind m f = Inr b \<longleftrightarrow> (\<exists>a. m = Inr a \<and> f a = Inr b)"
  by (cases m) auto

lemma ensure_Inr [simp]: "ensure b msg = Inr u \<longleftrightarrow> b"
  by (simp add: ensure_def)

type_synonym command_line = "string \<times> string list"

definition or_default :: "string \<Rightarrow> string \<Rightarrow> string" where
  "or_default entry d = (if entry = [] then d else entry)"

definition python_check :: "rt_env \<Rightarrow> string \<Rightarrow> command_line \<Rightarrow> unit choice" where
  "python_check E workdir run =
     (let (cmd, args) = run in
     cbind (ensure (cmd = ''python'' \<or> cmd = ''python3'' \<or> cmd = ''uv'') ''python runtime must use python or uv'') (\<lambda>_.
     cbind (if cmd = ''python'' \<or> cmd = ''python3''
            then cbind (ensure (args \<noteq> []) ''python runtime requires entry script arg'') (\<lambda>_.
                   ensure (file_exists_in E workdir (hd args)) (''python entry file not found: '' @ hd args))
            else Inr ()) (\<lambda>_.
     if cmd = ''uv''
     then cbind (ensure (length args \<ge> 2 \<and> args ! 0 = ''run'') ''python uv runtime requires args like: run <entry.py>'') (\<lambda>_.
            ensure (file_exists_in E workdir (args ! 1)) (''python entry file not found: '' @ args ! 1))
     else Inr ())))"

definition python_command :: "rt_env \<Rightarrow> string \<Rightarrow> string \<Rightarrow> command_line \<Rightarrow> command_line choice" where
  "python_command E entry workdir run =
     cbind (ensure (binary_exists E ''python'' \<or> binary_exists E ''uv'') ''python runtime requires python or uv binary'') (\<lambda>_.
     cbind (if fst run = []
            then (let inferred = or_default entry ''main.py''
                  in cbind (ensure (file_exists_in E workdir inferred) (''python entry file not found: '' @ inferred)) (\<lambda>_.
                       Inr (if binary_exists E ''uv'' then (''uv'', [''run'', inferred]) else (''python'', [inferred]))))
            else Inr run) (\<lambda>run'.
     cbind (python_check E workdir run') (\<lambda>_. Inr run')))"

definition node_command :: "rt_env \<Rightarrow> string \<Rightarrow> string \<Rightarrow> command_line \<Rightarrow> command_line choice" where
  "node_command E entry workdir run =
     cbind (ensure (binary_exists E ''node'') ''node runtime requires node binary'') (\<lambda>_.
     cbind (if fst run = []
            then (let inferred = or_default entry ''index.js''
                  in cbind (ensure (file_exists_in E workdir inferred) (''node entry file not found: '' @ inferred)) (\<lambda>_.
                       Inr (''node'', [inferred])))
            else Inr run) (\<lambda>(cmd, args).
     cbind (ensure (cmd = ''node'') ''node runtime requires run.command to be node'') (\<lambda>_.
     cbind (ensure (args \<noteq> []) ''node runtime requires entry script arg'') (\<lambda>_.
     cbind (ensure (file_exists_in E workdir (hd args)) (''node entry file not found: '' @ hd args)) (\<lambda>_.
       Inr (cmd, args))))))"

definition rust_command :: "rt_env \<Rightarrow> command_line \<Rightarrow> command_line choice" where
  "rust_command E run =
     cbind (ensure (binary_exists E ''cargo'') ''rust runtime requires cargo binary'') (\<lambda>_.
     cbind (ensure (path_looks_local_binary (fst run)) ''rust runtime expects run.command to be built local binary path'') (\<lambda>_.
       Inr run))"

definition go_command :: "rt_env \<Rightarrow> string \<Rightarrow> string \<Rightarrow> command_line \<Rightarrow> command_line choice" where
  "go_command E entry workdir run =
     cbind (ensure (binary_exists E ''go'') ''go runtime requires go binary'') (\<lambda>_.
     cbind (if fst run = []
            then (let inferred = or_default entry ''main.go''
                  in cbind (ensure (file_exists_in E workdir inferred) (''go entry file not found: '' @ inferred)) (\<lambda>_.
                       Inr (''go'', [''run'', inferred])))
            else Inr run) (\<lambda>(cmd, args).
     cbind (if cmd = ''go''
            then cbind (ensure (length args \<ge> 2 \<and> args ! 0 = ''run'') ''go runtime with go command requires args like: run <entry.go>'') (\<lambda>_.
                   ensure (file_exists_in E workdir (args ! 1)) (''go entry file not found: '' @ args ! 1))
            else ensure (path_looks_local_binary cmd) ''go runtime must use go run <entry.go> or local built binary'') (\<lambda>_.
       Inr (cmd, args))))"

definition cpp_command :: "command_line \<Rightarrow> command_line choice" where
  "cpp_command run =
     cbind (ensure (path_looks_local_binary (fst run)) ''cpp runtime expects run.command to be local binary path'') (\<lambda>_.
       Inr run)"

definition node_steps :: "rt_env \<Rightarrow> json \<Rightarrow> string \<Rightarrow> prepare_step list res" where
  "node_steps E manifest workdir =
     (if rt_exists E (path_join workdir ''package.json'') \<and> binary_exists E ''pnpm''
      then rbind (has_prepare_command manifest ''pnpm'') (\<lambda>has.
             Inr (if has then [] else [\<lparr>ps_command = ''pnpm'', ps_args = [''install'', ''--frozen-lockfile''], ps_timeout_ms = 0\<rparr>]))
      else Inr [])"

definition cpp_steps :: "rt_env \<Rightarrow> json \<Rightarrow> string \<Rightarrow> prepare_step list res" where
  "cpp_steps E manifest workdir =
     (if rt_exists E (path_join workdir ''CMakeLists.txt'')
      then rbind (has_prepare_command manifest ''cmake'') (\<lambda>has.
             Inr (if has then []
                  else [\<lparr>ps_command = ''cmake'', ps_args = [''-S'', ''.'', ''-B'', ''build''], ps_timeout_ms = 0\<rparr>,
                        \<lparr>ps_command = ''cmake'', ps_args = [''--build'', ''build'', ''-j''], ps_timeout_ms = 0\<rparr>]))
      else Inr [])"

text \<open>The string entries of \<open>run.args\<close>.\<close>

definition string_args :: "json \<Rightarrow> string list" where
  "string_args run =
     (case jget run ''args'' of
        Some (JArray xs) \<Rightarrow> List.map_filter (\<lambda>x. case x of JString s \<Rightarrow> Some s | _ \<Rightarrow> None) xs
      | _ \<Rightarrow> [])"

definition env_of :: "(string \<times> string) list \<Rightarrow> (string \<times> string) list" where
  "env_of kvs = foldr (\<lambda>(k, v). oput k v) kvs []"

text \<open>An adapter once its command line is chosen: the steps it adds, the version, the environment.\<close>

definition resolved ::
    "string \<Rightarrow> command_line choice \<Rightarrow> prepare_step list res \<Rightarrow> string res \<Rightarrow> (string \<times> string) list
     \<Rightarrow> runtime_resolution choice res" where
  "resolved runtime line steps version env =
     (case line of
        Inl e \<Rightarrow> Inr (Inl e)
      | Inr (cmd, args) \<Rightarrow>
          rbind steps (\<lambda>ss. rbind version (\<lambda>v.
            Inr (Inr \<lparr>rr_runtime = runtime, rr_version = (if v = [] then ''unknown'' else v), rr_run_command = cmd,
                      rr_run_args = args, rr_injected_prepare_steps = ss, rr_env_overrides = env_of env\<rparr>))))"

definition adapter_for ::
    "rt_env \<Rightarrow> json \<Rightarrow> string \<Rightarrow> string \<Rightarrow> string \<Rightarrow> command_line \<Rightarrow> runtime_resolution choice res" where
  "adapter_for E manifest workdir runtime entry run =
     (if runtime = ''python''
      then resolved runtime (python_command E entry workdir run) (Inr []) (detect_runtime_version E ''python'' [''--version''])
             [(''PYTHONUNBUFFERED'', ''1''), (''VELIX_RUNTIME'', ''python'')]
      else if runtime = ''node''
      then resolved runtime (node_command E entry workdir run) (node_steps E manifest workdir)
             (detect_runtime_version E ''node'' [''--version'']) [(''NODE_ENV'', ''production''), (''VELIX_RUNTIME'', ''node'')]
      else if runtime = ''rust''
      then resolved runtime (rust_command E run) (Inr []) (detect_runtime_version E ''cargo'' [''--version''])
             [(''CARGO_TARGET_DIR'', path_join (path_join (path_join workdir ''.velix'') ''cache'') ''cargo-target''),
              (''VELIX_RUNTIME'', ''rust'')]
      else if runtime = ''go''
      then resolved runtime (go_command E entry workdir run) (Inr []) (detect_runtime_version E ''go'' [''version''])
             [(''VELIX_RUNTIME'', ''go'')]
      else if runtime = ''cpp'' \<or> runtime = ''c++''
      then resolved runtime (cpp_command run) (cpp_steps E manifest workdir) (Inr ''cpp-toolchain'') [(''VELIX_RUNTIME'', ''cpp'')]
      else Inr (Inl (''unsupported runtime: '' @ runtime)))"

definition select_runtime_adapter :: "rt_env \<Rightarrow> json \<Rightarrow> string \<Rightarrow> runtime_resolution choice res" where
  "select_runtime_adapter E manifest workdir =
     rbind (jvalue as_string manifest ''runtime'' []) (\<lambda>runtime.
     rbind (jvalue as_json manifest ''run'' (JObject [])) (\<lambda>run.
     rbind (jvalue as_string manifest ''entry'' []) (\<lambda>entry.
     rbind (jvalue as_string run ''command'' []) (\<lambda>command.
       adapter_for E manifest workdir (map tolower runtime) entry
         (normalize_local_binary_for_platform command, string_args run)))))"

section \<open>Preparing\<close>

fun string_list :: "json list \<Rightarrow> string list option" where
  "string_list [] = Some []"
| "string_list (x # xs) =
     (case x of JString s \<Rightarrow> map_option (Cons s) (string_list xs) | _ \<Rightarrow> None)"

definition parse_prepare_step :: "int \<Rightarrow> nat \<Rightarrow> json \<Rightarrow> prepare_step choice res" where
  "parse_prepare_step default_timeout_ms i entry =
     (if \<not> is_object entry then Inr (Inl (''prepare step must be object at index '' @ nat_digits i))
      else case jget entry ''command'' of
             Some (JString command) \<Rightarrow>
               rbind (jvalue as_int entry ''timeout_ms'' default_timeout_ms) (\<lambda>timeout.
                 case jget entry ''args'' of
                   None \<Rightarrow> Inr (Inr \<lparr>ps_command = command, ps_args = [], ps_timeout_ms = timeout\<rparr>)
                 | Some (JArray xs) \<Rightarrow>
                     Inr (case string_list xs of
                            None \<Rightarrow> Inl (''prepare step arg must be string at index '' @ nat_digits i)
                          | Some args \<Rightarrow> Inr \<lparr>ps_command = command, ps_args = args, ps_timeout_ms = timeout\<rparr>)
                 | Some _ \<Rightarrow> Inr (Inl (''prepare step args must be array at index '' @ nat_digits i)))
           | _ \<Rightarrow> Inr (Inl (''prepare step missing command at index '' @ nat_digits i)))"

fun parse_steps :: "int \<Rightarrow> nat \<Rightarrow> json list \<Rightarrow> prepare_step list choice res" where
  "parse_steps d i [] = Inr (Inr [])"
| "parse_steps d i (entry # entries) =
     rbind (parse_prepare_step d i entry) (\<lambda>r.
       case r of
         Inl e \<Rightarrow> Inr (Inl e)
       | Inr step \<Rightarrow> rbind (parse_steps d (i + 1) entries) (\<lambda>rest.
                       Inr (case rest of Inl e \<Rightarrow> Inl e | Inr steps \<Rightarrow> Inr (step # steps))))"

definition parse_prepare_steps :: "json \<Rightarrow> int \<Rightarrow> prepare_step list choice res" where
  "parse_prepare_steps manifest default_timeout_ms =
     rbind (jvalue as_json manifest ''prepare'' (JArray [])) (\<lambda>prepare.
       case prepare of
         JArray entries \<Rightarrow> parse_steps default_timeout_ms 0 entries
       | _ \<Rightarrow> Inr (Inl ''prepare must be an array''))"

record process_result =
  pr_success :: bool
  pr_exit_code :: int
  pr_timed_out :: bool
  pr_stdout :: string
  pr_stderr :: string

text \<open>What the process started for a step answers; the number is the index of the step.\<close>

type_synonym step_runner = "nat \<Rightarrow> prepare_step \<Rightarrow> process_result res"

definition step_exception :: "string \<Rightarrow> nat \<Rightarrow> prepare_step \<Rightarrow> exn \<Rightarrow> json" where
  "step_exception trace_id i step e =
     jobj [(''status'', JString ''error''), (''trace_id'', JString trace_id), (''phase'', JString ''prepare''),
           (''step_index'', JInt (int i)), (''command'', JString (ps_command step)),
           (''error'', JString (''prepare_step_exception: '' @ what e))]"

definition step_failure :: "string \<Rightarrow> nat \<Rightarrow> prepare_step \<Rightarrow> process_result \<Rightarrow> json" where
  "step_failure trace_id i step r =
     jobj [(''status'', JString ''error''), (''trace_id'', JString trace_id), (''phase'', JString ''prepare''),
           (''step_index'', JInt (int i)), (''command'', JString (ps_command step)),
           (''exit_code'', JInt (pr_exit_code r)), (''timed_out'', JBool (pr_timed_out r)),
           (''stdout'', JString (pr_stdout r)), (''stderr'', JString (pr_stderr r)),
           (''error'', JString ''prepare_step_failed'')]"

text \<open>\<open>execute_prepare\<close> from step \<open>i\<close> on: the answer and the lines of the log.\<close>

fun execute_steps :: "step_runner \<Rightarrow> string \<Rightarrow> nat \<Rightarrow> prepare_step list \<Rightarrow> json \<times> string list" where
  "execute_steps run trace_id i [] = (jobj [(''status'', JString ''ok'')], [])"
| "execute_steps run trace_id i (step # steps) =
     (let start = ''[prepare] step='' @ nat_digits i @ '' cmd='' @ ps_command step
      in case run i step of
           Inl e \<Rightarrow> (step_exception trace_id i step e, [start, ''[prepare] exception: '' @ what e])
         | Inr r \<Rightarrow>
             let out = (if pr_stdout r \<noteq> [] then [pr_stdout r] else [])
             in if \<not> pr_success r
                then (step_failure trace_id i step r, start # out @ [''[prepare] failed exit='' @ to_string_int (pr_exit_code r)])
                else let (j, log) = execute_steps run trace_id (i + 1) steps
                     in (j, start # out @ [''[prepare] step='' @ nat_digits i @ '' status=ok''] @ log))"

definition execute_prepare :: "step_runner \<Rightarrow> prepare_step list \<Rightarrow> string \<Rightarrow> json \<times> string list" where
  "execute_prepare run steps trace_id = execute_steps run trace_id 0 steps"

section \<open>Launching\<close>

definition launch :: "(int \<times> string) res \<Rightarrow> string \<Rightarrow> json" where
  "launch spawned trace_id =
     (case spawned of
        Inl e \<Rightarrow> jobj [(''status'', JString ''error''), (''trace_id'', JString trace_id), (''phase'', JString ''run''),
                        (''error'', JString (''spawn_exception: '' @ what e))]
      | Inr (os_pid, err) \<Rightarrow>
          if os_pid \<le> 0
          then jobj [(''status'', JString ''error''), (''trace_id'', JString trace_id), (''phase'', JString ''run''),
                     (''error'', JString (''spawn_failure: '' @ err))]
          else jobj [(''status'', JString ''ok''), (''trace_id'', JString trace_id), (''os_pid'', JInt os_pid)])"

section \<open>What is shown\<close>

text \<open>The script that a command line of an interpreter runs.\<close>

definition script_of :: "string \<Rightarrow> string list \<Rightarrow> string option" where
  "script_of cmd args =
     (if cmd \<in> {''python'', ''python3'', ''node''} then (if args = [] then None else Some (hd args))
      else if cmd \<in> {''uv'', ''go''} then (if length args \<ge> 2 \<and> args ! 0 = ''run'' then Some (args ! 1) else None)
      else None)"

definition interpreters :: "string \<Rightarrow> string set" where
  "interpreters runtime =
     (if runtime = ''python'' then {''python'', ''python3'', ''uv''}
      else if runtime = ''node'' then {''node''} else if runtime = ''go'' then {''go''} else {})"

lemma python_check_ok:
  assumes "python_check E wd (cmd, args) = Inr ()"
  shows "cmd \<in> {''python'', ''python3'', ''uv''} \<and> (\<exists>s. script_of cmd args = Some s \<and> file_exists_in E wd s)"
proof -
  from assms consider "cmd = ''python''" | "cmd = ''python3''" | "cmd = ''uv''"
    by (auto simp: python_check_def cbind_Inr_conv simp del: list.inject)
  then show ?thesis
    using assms by cases (simp_all add: python_check_def cbind_Inr_conv script_of_def)
qed

lemma python_command_ok:
  "python_command E entry wd run = Inr (cmd, args) \<Longrightarrow>
     cmd \<in> {''python'', ''python3'', ''uv''} \<and> (\<exists>s. script_of cmd args = Some s \<and> file_exists_in E wd s)"
  by (rule python_check_ok) (auto simp: python_command_def cbind_Inr_conv)

lemma node_command_ok:
  "node_command E entry wd run = Inr (cmd, args) \<Longrightarrow>
     cmd = ''node'' \<and> (\<exists>s. script_of cmd args = Some s \<and> file_exists_in E wd s)"
  by (auto simp: node_command_def cbind_Inr_conv script_of_def Let_def split: if_splits prod.splits)

lemma go_command_ok:
  "go_command E entry wd run = Inr (cmd, args) \<Longrightarrow>
     cmd = ''go'' \<and> (\<exists>s. script_of cmd args = Some s \<and> file_exists_in E wd s) \<or> path_looks_local_binary cmd"
  by (auto simp: go_command_def cbind_Inr_conv script_of_def Let_def split: if_splits prod.splits)

lemma local_command_ok:
  "rust_command E run = Inr (cmd, args) \<Longrightarrow> path_looks_local_binary cmd"
  "cpp_command run = Inr (cmd, args) \<Longrightarrow> path_looks_local_binary cmd"
  by (auto simp: rust_command_def cpp_command_def cbind_Inr_conv)

lemma resolved_ok:
  "resolved runtime line steps version env = Inr (Inr r) \<Longrightarrow>
     line = Inr (rr_run_command r, rr_run_args r) \<and> rr_runtime r = runtime \<and> rr_version r \<noteq> []"
  by (auto simp: resolved_def rbind_Inr_conv split: sum.splits prod.splits if_splits)

text \<open>The command line of a package. An accepted adapter has one of the supported runtimes and a
  version; its command is an interpreter of that runtime with an entry file that exists in the
  working directory, or, for the compiled runtimes only, a local binary.\<close>

theorem adapter_runs_package:
  assumes "select_runtime_adapter E manifest wd = Inr (Inr r)"
  shows "rr_runtime r \<in> {''python'', ''node'', ''rust'', ''go'', ''cpp'', ''c++''} \<and> rr_version r \<noteq> []
     \<and> (rr_run_command r \<in> interpreters (rr_runtime r)
          \<and> (\<exists>s. script_of (rr_run_command r) (rr_run_args r) = Some s \<and> file_exists_in E wd s)
        \<or> rr_runtime r \<in> {''rust'', ''go'', ''cpp'', ''c++''} \<and> path_looks_local_binary (rr_run_command r))"
proof -
  obtain runtime entry line where "adapter_for E manifest wd runtime entry line = Inr (Inr r)"
    using assms by (auto simp: select_runtime_adapter_def rbind_Inr_conv)
  then show ?thesis
    by (auto simp: adapter_for_def interpreters_def split: if_splits
        dest!: resolved_ok dest: python_command_ok node_command_ok go_command_ok local_command_ok)
qed

definition demo_rt :: rt_env where
  "demo_rt = \<lparr>rt_which = (\<lambda>b. b = ''python''), rt_regular = (\<lambda>p. p = ''tools/x/main.py''), rt_exists = (\<lambda>_. False),
     rt_run = (\<lambda>_ _. Inr (''Python 3.12'', []))\<rparr>"

lemma adapter_runs_package_witness:
  "\<exists>r. select_runtime_adapter demo_rt (jobj [(''runtime'', JString ''Python'')]) ''tools/x'' = Inr (Inr r)
     \<and> rr_run_command r \<in> interpreters (rr_runtime r)"
proof -
  have "case select_runtime_adapter demo_rt (jobj [(''runtime'', JString ''Python'')]) ''tools/x'' of
      Inr (Inr r) \<Rightarrow> rr_runtime r = ''python'' | _ \<Rightarrow> False" by code_simp
  then obtain r where r: "select_runtime_adapter demo_rt (jobj [(''runtime'', JString ''Python'')]) ''tools/x'' = Inr (Inr r)"
    and py: "rr_runtime r = ''python''"
    by (auto split: sum.splits)
  from adapter_runs_package [OF r] py have "rr_run_command r \<in> interpreters (rr_runtime r)" by auto
  with r show ?thesis by blast
qed

text \<open>Preparation.\<close>

definition step_ok :: "step_runner \<Rightarrow> nat \<Rightarrow> prepare_step \<Rightarrow> bool" where
  "step_ok run i step \<longleftrightarrow> (case run i step of Inr r \<Rightarrow> pr_success r | Inl _ \<Rightarrow> False)"

fun first_failure :: "step_runner \<Rightarrow> nat \<Rightarrow> prepare_step list \<Rightarrow> nat option" where
  "first_failure run i [] = None"
| "first_failure run i (s # ss) = (if step_ok run i s then first_failure run (i + 1) ss else Some i)"

lemma first_failure_None: "first_failure run i ss = None \<longleftrightarrow> (\<forall>k<length ss. step_ok run (i + k) (ss ! k))"
  by (induction ss arbitrary: i) (auto simp: nth_Cons' less_Suc_eq_0_disj)

lemma first_failure_Some:
  "k < length ss \<Longrightarrow> \<not> step_ok run (i + k) (ss ! k) \<Longrightarrow> \<forall>l<k. step_ok run (i + l) (ss ! l)
     \<Longrightarrow> first_failure run i ss = Some (i + k)"
proof (induction ss arbitrary: i k)
  case (Cons s ss)
  show ?case
  proof (cases k)
    case (Suc k')
    have "step_ok run i s" using Cons.prems(3) Suc by force
    moreover have "\<forall>l<k'. step_ok run (i + 1 + l) (ss ! l)" using Cons.prems(3) Suc by force
    ultimately show ?thesis using Cons.IH [of k' "i + 1"] Cons.prems(1,2) Suc by simp
  qed (use Cons.prems in simp)
qed simp

lemma execute_steps_result:
  "case first_failure run i ss of
     None \<Rightarrow> fst (execute_steps run t i ss) = jobj [(''status'', JString ''ok'')]
   | Some k \<Rightarrow> jget (fst (execute_steps run t i ss)) ''status'' = Some (JString ''error'')
              \<and> jget (fst (execute_steps run t i ss)) ''step_index'' = Some (JInt (int k))"
  by (induction run t i ss rule: execute_steps.induct)
    (auto simp: step_ok_def step_exception_def step_failure_def Let_def
      split: sum.splits if_splits prod.splits option.splits)

lemma first_failure_ge: "first_failure run i ss = Some n \<Longrightarrow> i \<le> n"
  by (induction ss arbitrary: i) (fastforce split: if_splits)+

lemma execute_steps_local:
  "first_failure run i ss = Some n \<Longrightarrow> \<forall>k s. i \<le> k \<and> k \<le> n \<longrightarrow> run' k s = run k s
     \<Longrightarrow> execute_steps run' t i ss = execute_steps run t i ss"
proof (induction ss arbitrary: i)
  case (Cons s ss)
  have "i \<le> n" by (rule first_failure_ge [OF Cons.prems(1)])
  then have "run' i s = run i s" using Cons.prems(2) by simp
  with Cons show ?case by (auto simp: step_ok_def Let_def split: sum.splits if_splits)
qed simp

text \<open>Preparing a package. The steps run in order: the answer is ok exactly when every step
  succeeds; otherwise it is an error with the index of the first step that throws or fails, and what
  later steps would have answered does not matter, since none of them is run.\<close>

theorem prepare_exact:
  "(jget (fst (execute_prepare run steps t)) ''status'' = Some (JString ''ok'')
      \<longleftrightarrow> (\<forall>k<length steps. step_ok run k (steps ! k)))
   \<and> (\<forall>n<length steps. \<not> step_ok run n (steps ! n) \<and> (\<forall>k<n. step_ok run k (steps ! k)) \<longrightarrow>
        jget (fst (execute_prepare run steps t)) ''status'' = Some (JString ''error'')
        \<and> jget (fst (execute_prepare run steps t)) ''step_index'' = Some (JInt (int n))
        \<and> (\<forall>run'. (\<forall>k\<le>n. run' k = run k) \<longrightarrow> execute_prepare run' steps t = execute_prepare run steps t))"
proof (intro conjI allI impI)
  let ?j = "fst (execute_prepare run steps t)"
  show "jget ?j ''status'' = Some (JString ''ok'') \<longleftrightarrow> (\<forall>k<length steps. step_ok run k (steps ! k))"
    using execute_steps_result [of run t 0 steps] first_failure_None [of run 0 steps]
    by (auto simp: execute_prepare_def split: option.splits)
  fix n
  assume n: "n < length steps" and f: "\<not> step_ok run n (steps ! n) \<and> (\<forall>k<n. step_ok run k (steps ! k))"
  then have ff: "first_failure run 0 steps = Some n" using first_failure_Some [of n steps run 0] by simp
  then show "jget ?j ''status'' = Some (JString ''error'')" "jget ?j ''step_index'' = Some (JInt (int n))"
    using execute_steps_result [of run t 0 steps] by (simp_all add: execute_prepare_def)
  show "execute_prepare run' steps t = execute_prepare run steps t" if "\<forall>k\<le>n. run' k = run k" for run'
    unfolding execute_prepare_def using that by (intro execute_steps_local [OF ff]) simp
qed

definition demo_runner :: step_runner where
  "demo_runner i step = Inr \<lparr>pr_success = (i = 0), pr_exit_code = 1, pr_timed_out = False, pr_stdout = [], pr_stderr = []\<rparr>"

definition demo_steps :: "prepare_step list" where
  "demo_steps = [\<lparr>ps_command = ''a'', ps_args = [], ps_timeout_ms = 0\<rparr>, \<lparr>ps_command = ''b'', ps_args = [], ps_timeout_ms = 0\<rparr>]"

lemma prepare_exact_witness: "jget (fst (execute_prepare demo_runner demo_steps ''t'')) ''step_index'' = Some (JInt 1)"
proof -
  have "\<not> step_ok demo_runner 1 (demo_steps ! 1) \<and> (\<forall>k<1. step_ok demo_runner k (demo_steps ! k))"
    by (simp add: step_ok_def demo_runner_def)
  moreover have "1 < length demo_steps" by (simp add: demo_steps_def)
  ultimately have "jget (fst (execute_prepare demo_runner demo_steps ''t'')) ''step_index'' = Some (JInt (int 1))"
    using prepare_exact [of demo_runner demo_steps "''t''"] by blast
  then show ?thesis by simp
qed

text \<open>A local binary may lie outside the package.\<close>

lemma local_binary_outside:
  "case select_runtime_adapter demo_rt
      (jobj [(''runtime'', JString ''cpp''), (''run'', jobj [(''command'', JString ''../../bin/sh'')])]) ''tools/x'' of
     Inr (Inr r) \<Rightarrow> rr_run_command r = ''../../bin/sh'' | _ \<Rightarrow> False"
  by code_simp

end
