(* ===== verification/Sha256.thy ===== *)
theory Sha256
  imports Cxx_Strings
begin

text \<open>
  The SHA-256 of \<^verbatim>\<open>execution/executioner.cpp\<close>, which names the build caches of packages. The streaming
  implementation (context, byte-wise update, padding in place) is proved equal to the definition of
  the standard: padding of the whole message, the recursive message schedule, and constants that are
  the fractional parts of roots of primes.
\<close>

unbundle bit_operations_syntax

section \<open>The implementation\<close>

text \<open>The table \<open>K\<close> in the rows of the source.\<close>

definition sha_K :: "u32 list" where
  "sha_K = concat
    [[0x428a2f98, 0x71374491, 0xb5c0fbcf, 0xe9b5dba5], [0x3956c25b, 0x59f111f1, 0x923f82a4, 0xab1c5ed5],
     [0xd807aa98, 0x12835b01, 0x243185be, 0x550c7dc3], [0x72be5d74, 0x80deb1fe, 0x9bdc06a7, 0xc19bf174],
     [0xe49b69c1, 0xefbe4786, 0x0fc19dc6, 0x240ca1cc], [0x2de92c6f, 0x4a7484aa, 0x5cb0a9dc, 0x76f988da],
     [0x983e5152, 0xa831c66d, 0xb00327c8, 0xbf597fc7], [0xc6e00bf3, 0xd5a79147, 0x06ca6351, 0x14292967],
     [0x27b70a85, 0x2e1b2138, 0x4d2c6dfc, 0x53380d13], [0x650a7354, 0x766a0abb, 0x81c2c92e, 0x92722c85],
     [0xa2bfe8a1, 0xa81a664b, 0xc24b8b70, 0xc76c51a3], [0xd192e819, 0xd6990624, 0xf40e3585, 0x106aa070],
     [0x19a4c116, 0x1e376c08, 0x2748774c, 0x34b0bcb5], [0x391c0cb3, 0x4ed8aa4a, 0x5b9cca4f, 0x682e6ff3],
     [0x748f82ee, 0x78a5636f, 0x84c87814, 0x8cc70208], [0x90befffa, 0xa4506ceb, 0xbef9a3f7, 0xc67178f2]]"

definition rotr :: "u32 \<Rightarrow> nat \<Rightarrow> u32" where
  "rotr x n = drop_bit n x OR push_bit (32 - n) x"

definition ch :: "u32 \<Rightarrow> u32 \<Rightarrow> u32 \<Rightarrow> u32" where
  "ch x y z = (x AND y) XOR (NOT x AND z)"

definition maj :: "u32 \<Rightarrow> u32 \<Rightarrow> u32 \<Rightarrow> u32" where
  "maj x y z = (x AND y) XOR (x AND z) XOR (y AND z)"

definition ep0 :: "u32 \<Rightarrow> u32" where
  "ep0 x = rotr x 2 XOR rotr x 13 XOR rotr x 22"

definition ep1 :: "u32 \<Rightarrow> u32" where
  "ep1 x = rotr x 6 XOR rotr x 11 XOR rotr x 25"

definition sig0 :: "u32 \<Rightarrow> u32" where
  "sig0 x = rotr x 7 XOR rotr x 18 XOR drop_bit 3 x"

definition sig1 :: "u32 \<Rightarrow> u32" where
  "sig1 x = rotr x 17 XOR rotr x 19 XOR drop_bit 10 x"

type_synonym byte = "8 word"

record sha_ctx =
  ctx_data :: "byte list"
  ctx_datalen :: u32
  ctx_bitlen :: u64
  ctx_state :: "u32 list"

definition new_ctx :: sha_ctx where
  "new_ctx = \<lparr>ctx_data = replicate 64 0, ctx_datalen = 0, ctx_bitlen = 0,
     ctx_state = [0x6a09e667, 0xbb67ae85, 0x3c6ef372, 0xa54ff53a] @
                 [0x510e527f, 0x9b05688c, 0x1f83d9ab, 0x5be0cd19]\<rparr>"

text \<open>The words of a block, most significant byte first.\<close>

definition be_word :: "byte list \<Rightarrow> nat \<Rightarrow> u32" where
  "be_word bs j = push_bit 24 (ucast (bs ! j)) OR push_bit 16 (ucast (bs ! (j + 1)))
     OR push_bit 8 (ucast (bs ! (j + 2))) OR ucast (bs ! (j + 3))"

text \<open>The two loops that fill the array \<open>m\<close>.\<close>

definition schedule :: "byte list \<Rightarrow> u32 list" where
  "schedule bs =
     (let m = fold (\<lambda>i m. m[i := be_word bs (4 * i)]) [0..<16] (replicate 64 0)
      in fold (\<lambda>i m. m[i := sig1 (m ! (i - 2)) + m ! (i - 7) + sig0 (m ! (i - 15)) + m ! (i - 16)])
           [16..<64] m)"

type_synonym registers = "u32 \<times> u32 \<times> u32 \<times> u32 \<times> u32 \<times> u32 \<times> u32 \<times> u32"

definition sha_round :: "u32 \<Rightarrow> u32 \<Rightarrow> registers \<Rightarrow> registers" where
  "sha_round k w r =
     (case r of (a, b, c, d, e, f, g, h) \<Rightarrow>
        let t1 = h + ep1 e + ch e f g + k + w; t2 = ep0 a + maj a b c
        in (t1 + t2, a, b, c, d + t1, e, f, g))"

definition registers_of :: "u32 list \<Rightarrow> registers" where
  "registers_of s = (s ! 0, s ! 1, s ! 2, s ! 3, s ! 4, s ! 5, s ! 6, s ! 7)"

definition add_registers :: "u32 list \<Rightarrow> registers \<Rightarrow> u32 list" where
  "add_registers s r =
     (case r of (a, b, c, d, e, f, g, h) \<Rightarrow>
        [s ! 0 + a, s ! 1 + b, s ! 2 + c, s ! 3 + d, s ! 4 + e, s ! 5 + f, s ! 6 + g, s ! 7 + h])"

definition transform :: "sha_ctx \<Rightarrow> byte list \<Rightarrow> sha_ctx" where
  "transform ctx bs =
     (let m = schedule bs;
          r = fold (\<lambda>i. sha_round (sha_K ! i) (m ! i)) [0..<64] (registers_of (ctx_state ctx))
      in ctx\<lparr>ctx_state := add_registers (ctx_state ctx) r\<rparr>)"

definition update_byte :: "byte \<Rightarrow> sha_ctx \<Rightarrow> sha_ctx" where
  "update_byte b ctx =
     (let ctx1 = ctx\<lparr>ctx_data := (ctx_data ctx)[unat (ctx_datalen ctx) := b], ctx_datalen := ctx_datalen ctx + 1\<rparr>
      in if ctx_datalen ctx1 = 64
         then (transform ctx1 (ctx_data ctx1))\<lparr>ctx_bitlen := ctx_bitlen ctx + 512, ctx_datalen := 0\<rparr>
         else ctx1)"

definition sha_update :: "sha_ctx \<Rightarrow> byte list \<Rightarrow> sha_ctx" where
  "sha_update ctx bs = fold update_byte bs ctx"

definition zero_fill :: "nat \<Rightarrow> nat \<Rightarrow> byte list \<Rightarrow> byte list" where
  "zero_fill i n bs = fold (\<lambda>j d. d[j := 0]) [i..<n] bs"

text \<open>The eight stores of the length.\<close>

definition store_length :: "u64 \<Rightarrow> byte list \<Rightarrow> byte list" where
  "store_length n d = fold (\<lambda>j d. d[63 - j := ucast (drop_bit (8 * j) n)]) [0..<8] d"

definition state_bytes :: "u32 list \<Rightarrow> byte list" where
  "state_bytes s = concat (map (\<lambda>w. map (\<lambda>j. ucast (drop_bit (24 - j * 8) w)) [0..<4]) s)"

definition hex_digit :: "nat \<Rightarrow> char" where
  "hex_digit n = (if n < 10 then char_of (48 + n) else char_of (87 + n))"

definition hex_byte :: "byte \<Rightarrow> string" where
  "hex_byte b = [hex_digit (unat b div 16), hex_digit (unat b mod 16)]"

definition finalise :: "sha_ctx \<Rightarrow> string" where
  "finalise ctx =
     (let i = unat (ctx_datalen ctx);
          d = (ctx_data ctx)[i := 0x80];
          ctx1 = (if ctx_datalen ctx < 56
                  then ctx\<lparr>ctx_data := zero_fill (i + 1) 56 d\<rparr>
                  else (let d' = zero_fill (i + 1) 64 d
                        in (transform ctx d')\<lparr>ctx_data := zero_fill 0 56 d'\<rparr>));
          n = ctx_bitlen ctx1 + ucast (ctx_datalen ctx1) * 8;
          d2 = store_length n (ctx_data ctx1);
          ctx2 = transform (ctx1\<lparr>ctx_bitlen := n, ctx_data := d2\<rparr>) d2
      in concat (map hex_byte (state_bytes (ctx_state ctx2))))"

definition text_bytes :: "string \<Rightarrow> byte list" where
  "text_bytes s = map of_char s"

definition sha256 :: "string \<Rightarrow> string" where
  "sha256 txt = finalise (sha_update new_ctx (text_bytes txt))"

section \<open>The standard\<close>

text \<open>The definitions of FIPS 180-4 for SHA-256. The constants are given by their construction.\<close>

definition is_prime :: "nat \<Rightarrow> bool" where
  "is_prime n \<longleftrightarrow> 2 \<le> n \<and> list_all (\<lambda>d. \<not> d dvd n) [2..<n]"

definition first_primes :: "nat list" where
  "first_primes = filter is_prime [2..<312]"

definition frac_root_bits :: "nat \<Rightarrow> nat \<Rightarrow> u32" where
  "frac_root_bits r p = word_of_int \<lfloor>frac (root r (real p)) * 2 ^ 32\<rfloor>"

definition std_K :: "u32 list" where
  "std_K = map (frac_root_bits 3) first_primes"

definition std_H0 :: "u32 list" where
  "std_H0 = map (frac_root_bits 2) (take 8 first_primes)"

definition std_ep0 :: "u32 \<Rightarrow> u32" where
  "std_ep0 x = word_rotr 2 x XOR word_rotr 13 x XOR word_rotr 22 x"

definition std_ep1 :: "u32 \<Rightarrow> u32" where
  "std_ep1 x = word_rotr 6 x XOR word_rotr 11 x XOR word_rotr 25 x"

definition std_sig0 :: "u32 \<Rightarrow> u32" where
  "std_sig0 x = word_rotr 7 x XOR word_rotr 18 x XOR drop_bit 3 x"

definition std_sig1 :: "u32 \<Rightarrow> u32" where
  "std_sig1 x = word_rotr 17 x XOR word_rotr 19 x XOR drop_bit 10 x"

fun std_W :: "byte list \<Rightarrow> nat \<Rightarrow> u32" where
  "std_W bs t =
     (if t < 16 then word_of_nat (\<Sum>j<4. unat (bs ! (4 * t + j)) * 256 ^ (3 - j))
      else std_sig1 (std_W bs (t - 2)) + std_W bs (t - 7) + std_sig0 (std_W bs (t - 15)) + std_W bs (t - 16))"

declare std_W.simps [simp del]

primrec std_rounds :: "byte list \<Rightarrow> nat \<Rightarrow> registers \<Rightarrow> registers" where
  "std_rounds bs 0 r = r"
| "std_rounds bs (Suc t) r =
     (case std_rounds bs t r of (a, b, c, d, e, f, g, h) \<Rightarrow>
        let t1 = h + std_ep1 e + ((e AND f) XOR (NOT e AND g)) + std_K ! t + std_W bs t;
            t2 = std_ep0 a + ((a AND b) XOR (a AND c) XOR (b AND c))
        in (t1 + t2, a, b, c, d + t1, e, f, g))"

definition std_block :: "byte list \<Rightarrow> u32 list \<Rightarrow> u32 list" where
  "std_block bs H = add_registers H (std_rounds bs 64 (registers_of H))"

fun blocks :: "byte list \<Rightarrow> byte list list" where
  "blocks bs = (if length bs < 64 then [] else take 64 bs # blocks (drop 64 bs))"

declare blocks.simps [simp del]

text \<open>Padding: a one bit, the fewest zero bits that fill up to 64 bits before a block end, the length
  in bits as a 64 bit number, most significant byte first.\<close>

definition std_pad :: "byte list \<Rightarrow> byte list" where
  "std_pad bs = bs @ [0x80] @ replicate ((119 - length bs mod 64) mod 64) 0
     @ map (\<lambda>j. word_of_nat (8 * length bs div 256 ^ (7 - j))) [0..<8]"

definition std_digest :: "byte list \<Rightarrow> byte list" where
  "std_digest bs = concat (map (\<lambda>w. map (\<lambda>j. word_of_nat (unat w div 256 ^ (3 - j))) [0..<4])
     (fold std_block (blocks (std_pad bs)) std_H0))"

section \<open>The constants\<close>

lemma frac_root_bits_eq:
  assumes r: "0 < r" and lo: "(a * 2 ^ 32 + k) ^ r \<le> p * 2 ^ (32 * r)"
    and hi: "p * 2 ^ (32 * r) < (a * 2 ^ 32 + k + 1) ^ r" and k: "k < 2 ^ 32"
  shows "frac_root_bits r p = word_of_nat k"
proof -
  let ?x = "root r (real p)"
  define n where "n = a * 2 ^ 32 + k"
  have x0: "0 \<le> ?x" using r by simp
  have pw: "(?x * 2 ^ 32) ^ r = real p * 2 ^ (32 * r)"
    using r by (simp add: power_mult_distrib power_mult)
  have "real n ^ r \<le> real p * 2 ^ (32 * r)"
    using of_nat_mono [OF lo, where 'a = real] by (simp add: n_def)
  then have "real n ^ r \<le> (?x * 2 ^ 32) ^ r" by (simp only: pw)
  then have "real n \<le> ?x * 2 ^ 32" using r x0 by (subst (asm) power_mono_iff) auto
  moreover have "real p * 2 ^ (32 * r) < real (n + 1) ^ r"
    using hi unfolding n_def [symmetric] by (subst (asm) of_nat_less_iff [where 'a = real, symmetric]) simp
  then have "?x * 2 ^ 32 < real (n + 1)"
    using power_less_imp_less_base [of "?x * 2 ^ 32" r "real (n + 1)"] by (simp only: pw)
  ultimately have n: "real a * 2 ^ 32 + real k \<le> ?x * 2 ^ 32" "?x * 2 ^ 32 < real a * 2 ^ 32 + real k + 1"
    by (simp_all add: n_def)
  have "real (k + 1) \<le> real (2 ^ 32)" using k by (intro of_nat_mono) simp
  then have kr: "real k + 1 \<le> 2 ^ 32" by simp
  have "real a * 2 ^ 32 \<le> ?x * 2 ^ 32" "?x * 2 ^ 32 < (real a + 1) * 2 ^ 32"
    using n kr by (simp_all add: algebra_simps)
  then have "\<lfloor>?x\<rfloor> = int a" by (simp add: floor_eq_iff)
  then have "frac ?x * 2 ^ 32 = ?x * 2 ^ 32 - real a * 2 ^ 32" by (simp add: frac_def algebra_simps)
  then have "\<lfloor>frac ?x * 2 ^ 32\<rfloor> = int k" using n by (simp add: floor_eq_iff)
  then show ?thesis by (simp add: frac_root_bits_def)
qed

text \<open>The test on integers that shows a constant right; \<open>a\<close> is the integer part of the root.\<close>

definition root_checked :: "nat \<Rightarrow> nat \<times> nat \<times> u32 \<Rightarrow> bool" where
  "root_checked r = (\<lambda>(p, a, w). (a * 2 ^ 32 + unat w) ^ r \<le> p * 2 ^ (32 * r)
     \<and> p * 2 ^ (32 * r) < (a * 2 ^ 32 + unat w + 1) ^ r)"

lemma frac_root_bits_map:
  assumes "0 < r" and "list_all (root_checked r) (zip ps (zip ints ws))"
    and "length ints = length ps" and "length ws = length ps"
  shows "map (frac_root_bits r) ps = ws"
proof (rule nth_equalityI)
  fix i
  assume "i < length (map (frac_root_bits r) ps)"
  then have i: "i < length ps" by simp
  then have "root_checked r (ps ! i, ints ! i, ws ! i)"
    using assms by (auto simp: list_all_length)
  moreover have "unat (ws ! i) < 2 ^ LENGTH(32)" by (rule unsigned_less)
  ultimately have "frac_root_bits r (ps ! i) = word_of_nat (unat (ws ! i))"
    using frac_root_bits_eq [OF assms(1), of "ints ! i" "unat (ws ! i)" "ps ! i"]
    by (simp add: root_checked_def)
  then show "map (frac_root_bits r) ps ! i = ws ! i" using i by simp
qed (use assms in simp)

lemma is_prime_small:
  assumes "n < 324"
  shows "is_prime n \<longleftrightarrow> 2 \<le> n \<and> list_all (\<lambda>d. n \<le> d \<or> n mod d \<noteq> 0) [2, 3, 5, 7, 11, 13, 17]"
proof -
  have "\<exists>q\<in>{2, 3, 5, 7, 11, 13, 17}. q dvd d" if "2 \<le> d" "d < (18 :: nat)" for d
  proof -
    have "d \<in> {2, 3, 4, 5, 6, 7, 8, 9, 10, 11, 12, 13, 14, 15, 16, 17}" using that unfolding insert_iff empty_iff by presburger
    then show ?thesis by auto
  qed note small = this
  have "\<exists>q\<in>{2, 3, 5, 7, 11, 13, 17}. q < n \<and> q dvd n" if d: "2 \<le> d" "d < n" "d dvd n" for d
  proof -
    from d(3) obtain e where e: "n = d * e" ..
    with d have e2: "2 \<le> e" by (cases e) auto
    then have "e < n" using e d(1) by simp
    have "d < 18 \<or> e < 18"
    proof (rule ccontr)
      assume "\<not> (d < 18 \<or> e < 18)"
      then have "18 * 18 \<le> d * e" by (intro mult_le_mono) auto
      with e assms show False by simp
    qed
    then obtain f where f: "2 \<le> f" "f < 18" "f < n" "f dvd n"
      using d e e2 \<open>e < n\<close> by (metis dvd_triv_left dvd_triv_right)
    obtain q where q: "q \<in> {2, 3, 5, 7, 11, 13, 17}" "q dvd f" using small [OF f(1,2)] by blast
    then have "q \<le> f" using f(1) by (simp add: dvd_imp_le)
    with q f show ?thesis by (meson dvd_trans order_le_less_trans)
  qed
  then have "(\<exists>d\<in>set [2..<n]. d dvd n) \<longleftrightarrow> (\<exists>q\<in>set [2, 3, 5, 7, 11, 13, 17]. q < n \<and> q dvd n)"
    by (fastforce)
  then show ?thesis
    unfolding is_prime_def list_all_iff by (metis dvd_eq_mod_eq_0 not_le)
qed

lemma first_primes_eq:
  "first_primes =
    [2, 3, 5, 7, 11, 13, 17, 19, 23, 29, 31, 37, 41, 43, 47, 53, 59, 61, 67, 71, 73, 79, 83,
     89, 97, 101, 103, 107, 109, 113, 127, 131, 137, 139, 149, 151, 157, 163, 167, 173, 179,
     181, 191, 193, 197, 199, 211, 223, 227, 229, 233, 239, 241, 251, 257, 263, 269, 271, 277,
     281, 283, 293, 307, 311]"
proof -
  have split: "[2..<312] = [2..<80] @ [80..<158] @ [158..<235] @ [235..<312]" 
    using upt_add_eq_append [of 2 80 232] upt_add_eq_append [of 80 158 154] upt_add_eq_append [of 158 235 77]
    by (simp del: upt_rec_numeral)
  have small: "filter is_prime [a..<b]
      = filter (\<lambda>n. list_all (\<lambda>d. n \<le> d \<or> n mod d \<noteq> 0) [2, 3, 5, 7, 11, 13, 17]) [a..<b]"
    if "2 \<le> a" "b \<le> 312" for a b
    using that by (intro filter_cong) (auto simp: is_prime_small)
  have p0: "filter is_prime [2..<80] =
      [2, 3, 5, 7, 11, 13, 17, 19, 23, 29, 31, 37, 41, 43, 47, 53, 59, 61, 67, 71, 73, 79]"
    by (subst small) (simp_all add: upt_rec_numeral)
  have p1: "filter is_prime [80..<158] =
      [83, 89, 97, 101, 103, 107, 109, 113, 127, 131, 137, 139, 149, 151, 157]"
    by (subst small) (simp_all add: upt_rec_numeral)
  have p2: "filter is_prime [158..<235] =
      [163, 167, 173, 179, 181, 191, 193, 197, 199, 211, 223, 227, 229, 233]"
    by (subst small) (simp_all add: upt_rec_numeral)
  have p3: "filter is_prime [235..<312] =
      [239, 241, 251, 257, 263, 269, 271, 277, 281, 283, 293, 307, 311]"
    by (subst small) (simp_all add: upt_rec_numeral)
  show ?thesis unfolding first_primes_def split filter_append p0 p1 p2 p3 by simp
qed

lemma std_K_eq: "std_K = sha_K"
  unfolding std_K_def
  by (rule frac_root_bits_map [of _ _ "[1, 1, 1, 1, 2, 2, 2, 2, 2, 3, 3, 3, 3, 3, 3, 3, 3, 3, 4, 4, 4, 4, 4, 4, 4, 4, 4, 4, 4,
     4, 5, 5, 5, 5, 5, 5, 5, 5, 5, 5, 5, 5, 5, 5, 5, 5, 5, 6, 6, 6, 6, 6, 6, 6, 6, 6, 6, 6,
     6, 6, 6, 6, 6, 6]"], simp_all add: first_primes_eq sha_K_def new_ctx_def root_checked_def)

lemma std_H0_eq: "std_H0 = ctx_state new_ctx"
  unfolding std_H0_def
  by (rule frac_root_bits_map [of _ _ "[1, 1, 2, 2, 3, 3, 4, 4]"], simp_all add: first_primes_eq sha_K_def new_ctx_def root_checked_def)

section \<open>Blocks\<close>

lemma rotr_eq:
  assumes "0 < n" and "n < 32"
  shows "rotr x n = word_rotr n x"
proof (rule bit_eqI)
  fix i
  assume "possible_bit TYPE(u32) i"
  then have i: "i < 32" by simp
  have "(i + n) mod 32 = (if i + n < 32 then i + n else i + n - 32)"
    using i assms by (simp add: mod_if)
  then show "bit (rotr x n) i = bit (word_rotr n x) i"
    using i assms by (auto simp: rotr_def bit_word_rotr_iff bit_simps add.commute dest: bit_imp_le_length)
qed

lemma sigma_eq:
  "ep0 x = std_ep0 x" "ep1 x = std_ep1 x" "sig0 x = std_sig0 x" "sig1 x = std_sig1 x"
  by (simp_all add: ep0_def ep1_def sig0_def sig1_def std_ep0_def std_ep1_def std_sig0_def std_sig1_def rotr_eq)

lemma byte_bits: "bit (ucast (b :: byte) :: u32) i \<Longrightarrow> i < 8"
  using bit_imp_le_length [of b i] by (simp add: bit_simps)

lemma shifted_byte: "word_of_nat (unat (b :: byte) * 2 ^ n) = (push_bit n (ucast b) :: u32)"
  by (simp add: push_bit_eq_mult)

lemma bytes_or_add:
  fixes a b c d :: byte
  shows "push_bit 24 (ucast a) OR push_bit 16 (ucast b) OR push_bit 8 (ucast c) OR ucast d
    = push_bit 24 (ucast a) + push_bit 16 (ucast b) + push_bit 8 (ucast c) + (ucast d :: u32)"
proof -
  let ?a = "push_bit 24 (ucast a) :: u32" and ?b = "push_bit 16 (ucast b) :: u32"
    and ?c = "push_bit 8 (ucast c) :: u32" and ?d = "ucast d :: u32"
  have "?a AND ?b = 0" "(?a OR ?b) AND ?c = 0" "((?a OR ?b) OR ?c) AND ?d = 0"
    by (auto simp: bit_eq_iff bit_simps dest!: byte_bits bit_imp_le_length)
  then have "?a + ?b + ?c + ?d = ((?a OR ?b) OR ?c) OR ?d"
    by (simp only: disjunctive_add_eq_or)
  then show ?thesis by (simp only: or.assoc)
qed

lemma be_word_eq: "be_word bs (4 * t) = word_of_nat (\<Sum>j<4. unat (bs ! (4 * t + j)) * 256 ^ (3 - j))"
proof -
  have "{..<4} = {0, 1, 2, 3 :: nat}" by auto
  then have "(\<Sum>j<4. unat (bs ! (4 * t + j)) * 256 ^ (3 - j))
      = unat (bs ! (4 * t)) * 2 ^ 24 + unat (bs ! (4 * t + 1)) * 2 ^ 16 + unat (bs ! (4 * t + 2)) * 2 ^ 8
        + unat (bs ! (4 * t + 3)) * 2 ^ 0" by simp
  then show ?thesis
    by (simp only: of_nat_add shifted_byte be_word_def push_bit_0_id id_apply bytes_or_add)
qed

text \<open>Assigning along a range.\<close>

lemma fold_assign:
  "length (fold (\<lambda>i m. m[i := f i]) [a..<b] m) = length m"
  "i < length m \<Longrightarrow> fold (\<lambda>i m. m[i := f i]) [a..<b] m ! i = (if a \<le> i \<and> i < b then f i else m ! i)"
  by (induction b) (auto simp: nth_list_update less_Suc_eq)

lemma schedule_eq: "length (schedule bs) = 64 \<and> (\<forall>i<64. schedule bs ! i = std_W bs i)"
proof -
  let ?g = "\<lambda>i m. m[i := sig1 (m ! (i - 2)) + m ! (i - 7) + sig0 (m ! (i - 15)) + m ! (i - 16)]"
  define m0 where "m0 = fold (\<lambda>i m. m[i := be_word bs (4 * i)]) [0..<16] (replicate 64 (0 :: u32))"
  have "length (fold ?g [16..<n] m0) = 64 \<and> (\<forall>i<n. fold ?g [16..<n] m0 ! i = std_W bs i)"
    if "16 \<le> n" "n \<le> 64" for n
    using that
  proof (induction n rule: dec_induct)
    case base
    then show ?case by (simp add: m0_def fold_assign be_word_eq std_W.simps)
  next
    case (step n)
    then have IH: "length (fold ?g [16..<n] m0) = 64" "\<And>i. i < n \<Longrightarrow> fold ?g [16..<n] m0 ! i = std_W bs i" by simp_all
    have n: "n < 64" using step.prems by simp
    define m where "m = fold ?g [16..<n] m0"
    have w: "std_W bs n = sig1 (m ! (n - 2)) + m ! (n - 7) + sig0 (m ! (n - 15)) + m ! (n - 16)"
      using step(1) IH(2) by (subst std_W.simps) (simp add: m_def sigma_eq)
    have "fold ?g [16..<Suc n] m0 = m[n := std_W bs n]"
      using step(1) w by (simp add: m_def)
    then show ?case
      using IH [folded m_def] n by (simp del: upt_Suc add: nth_list_update less_Suc_eq)
  qed
  from this [of 64] show ?thesis
    unfolding schedule_def Let_def m0_def [symmetric] by (simp del: upt_rec_numeral)
qed

lemma rounds_eq:
  "n \<le> 64 \<Longrightarrow> fold (\<lambda>i. sha_round (sha_K ! i) (schedule bs ! i)) [0..<n] r = std_rounds bs n r"
proof (induction n)
  case (Suc n)
  then show ?case
    using schedule_eq [of bs]
    by (auto simp: sha_round_def ch_def maj_def sigma_eq std_K_eq Let_def split: prod.splits)
qed simp

lemma transform_eq: "transform ctx bs = ctx\<lparr>ctx_state := std_block bs (ctx_state ctx)\<rparr>"
  by (simp add: transform_def Let_def rounds_eq std_block_def)

section \<open>Streaming\<close>

lemma sha_update_append: "sha_update ctx (xs @ ys) = sha_update (sha_update ctx xs) ys"
  by (simp add: sha_update_def)

text \<open>What a context holds after the bytes \<open>bs\<close>: full blocks are absorbed, the rest is buffered.\<close>

definition ctx_holds :: "byte list \<Rightarrow> sha_ctx \<Rightarrow> bool" where
  "ctx_holds bs ctx \<longleftrightarrow>
     (let n = length bs mod 64; k = length bs - n
      in length (ctx_data ctx) = 64 \<and> take n (ctx_data ctx) = drop k bs \<and> unat (ctx_datalen ctx) = n
         \<and> ctx_bitlen ctx = word_of_nat (8 * k) \<and> ctx_state ctx = fold std_block (blocks (take k bs)) std_H0)"

lemma blocks_append: "64 dvd length xs \<Longrightarrow> blocks (xs @ ys) = blocks xs @ blocks ys"
proof (induction xs rule: blocks.induct)
  case (1 xs)
  show ?case
  proof (cases "length xs < 64")
    case True
    with 1(2) have "xs = []" by (auto dest: dvd_imp_le)
    then show ?thesis by (simp add: blocks.simps [of "[]"])
  next
    case False
    then have "64 dvd length (drop 64 xs)" using 1(2) by (simp add: dvd_diff_nat)
    with 1(1) [OF False] False show ?thesis
      by (subst blocks.simps, subst blocks.simps [of xs]) simp
  qed
qed

lemma blocks_single: "length xs = 64 \<Longrightarrow> blocks xs = [xs]"
  by (simp add: blocks.simps [of xs] blocks.simps [of "[]"])

lemma ctx_holds_new: "ctx_holds [] new_ctx"
  by (simp add: ctx_holds_def new_ctx_def std_H0_eq blocks.simps)

lemma ctx_holds_byte:
  assumes "ctx_holds bs ctx"
  shows "ctx_holds (bs @ [b]) (update_byte b ctx)"
proof -
  define n where "n = length bs mod 64"
  define k where "k = length bs - n"
  have h: "length (ctx_data ctx) = 64" "take n (ctx_data ctx) = drop k bs" "unat (ctx_datalen ctx) = n"
    "ctx_bitlen ctx = word_of_nat (8 * k)" "ctx_state ctx = fold std_block (blocks (take k bs)) std_H0"
    using assms by (simp_all add: ctx_holds_def Let_def n_def k_def)
  have n: "n < 64" by (simp add: n_def)
  have kn: "length bs = k + n" by (simp add: k_def n_def)
  have dv: "64 dvd k" by (simp add: k_def n_def minus_mod_eq_mult_div)
  have len: "unat (ctx_datalen ctx + 1) = n + 1"
    using h(3) n by (simp add: unat_word_ariths)
  have d: "take (n + 1) ((ctx_data ctx)[n := b]) = drop k bs @ [b]"
    using h(1,2) n by (simp add: take_Suc_conv_app_nth)
  have "ctx_datalen ctx + 1 = 64 \<longleftrightarrow> unat (ctx_datalen ctx + 1) = unat (64 :: u32)"
    by (simp only: word_unat_eq_iff)
  then have full: "ctx_datalen ctx + 1 = 64 \<longleftrightarrow> n = 63" unfolding len by simp
  show ?thesis
  proof (cases "n = 63")
    case True
    have "(k + 64) mod 64 = 0" using dv by auto
    moreover have "blocks (bs @ [b]) = blocks (take k bs) @ [drop k bs @ [b]]"
    proof -
      have eq: "bs @ [b] = take k bs @ (drop k bs @ [b])" by (metis append_assoc append_take_drop_id)
      have "blocks (take k bs @ (drop k bs @ [b])) = blocks (take k bs) @ [drop k bs @ [b]]"
        using dv kn True by (subst blocks_append) (simp_all add: blocks_single)
      then show ?thesis by (simp only: eq [symmetric])
    qed
    moreover have "(ctx_data ctx)[63 := b] = drop k bs @ [b]" using d True h(1) by simp
    ultimately show ?thesis
      using True h kn dv full
      by (simp add: ctx_holds_def update_byte_def Let_def transform_eq)
  next
    case False
    then have "(k + n + 1) mod 64 = n + 1" using dv n by (auto simp: dvd_def)
    then show ?thesis
      using False h kn dv full d len n
      by (simp add: ctx_holds_def update_byte_def Let_def)
  qed
qed

lemma ctx_holds_update: "ctx_holds bs ctx \<Longrightarrow> ctx_holds (bs @ cs) (sha_update ctx cs)"
proof (induction cs arbitrary: bs ctx)
  case (Cons c cs)
  from Cons.IH [OF ctx_holds_byte [OF Cons.prems]] show ?case by (simp add: sha_update_def)
qed (simp add: sha_update_def)

section \<open>Padding in place\<close>

lemma zero_fill_eq:
  "i \<le> n \<Longrightarrow> n \<le> length d \<Longrightarrow> zero_fill i n d = take i d @ replicate (n - i) 0 @ drop n d"
  unfolding zero_fill_def
  by (rule nth_equalityI) (auto simp: fold_assign nth_append)

lemma fold_assign_down:
  assumes "length d = N" and "m \<le> N"
  shows "length (fold (\<lambda>j d. d[N - 1 - j := f j]) [0..<m] d) = N
    \<and> (\<forall>i<N. fold (\<lambda>j d. d[N - 1 - j := f j]) [0..<m] d ! i = (if N \<le> i + m then f (N - 1 - i) else d ! i))"
  using assms(2)
proof (induction m)
  case (Suc m)
  then show ?case by (auto simp: nth_list_update)
qed (simp add: assms(1))

lemma store_length_eq:
  assumes "length d = 64"
  shows "store_length n d = take 56 d @ map (\<lambda>j. ucast (drop_bit (8 * (7 - j)) n)) [0..<8]"
proof (rule nth_equalityI)
  note f = fold_assign_down [OF assms, of 8 "\<lambda>j. ucast (drop_bit (8 * j) n)"]
  show "length (store_length n d) = length (take 56 d @ map (\<lambda>j. ucast (drop_bit (8 * (7 - j)) n)) [0..<8] :: byte list)"
    using f assms by (simp add: store_length_def del: upt_rec_numeral)
  fix i
  assume "i < length (store_length n d)"
  then have i: "i < 64" using f by (simp add: store_length_def del: upt_rec_numeral)
  then have "63 - i = 7 - (i - 56)" if "56 \<le> i" using that by simp
  then show "store_length n d ! i = (take 56 d @ map (\<lambda>j. ucast (drop_bit (8 * (7 - j)) n)) [0..<8]) ! i"
    using f i assms by (auto simp: store_length_def nth_append simp del: upt_rec_numeral)
qed

text \<open>Shifting a machine word reads the digits of its number to the base 256.\<close>

lemma div_256: "m div 256 ^ j = drop_bit (8 * j) (m :: nat)"
  by (simp add: drop_bit_eq_div power_mult)

lemma ucast_drop_bit:
  "j \<le> 7 \<Longrightarrow> ucast (drop_bit (8 * j) (word_of_nat m :: u64)) = (word_of_nat (m div 256 ^ j) :: byte)"
  unfolding div_256 by (rule bit_eqI) (auto simp: bit_simps)

lemma ucast_drop_bit_unat: "ucast (drop_bit (8 * j) (w :: u32)) = (word_of_nat (unat w div 256 ^ j) :: byte)"
  unfolding div_256 by (rule bit_eqI) (auto simp: bit_simps)

lemma state_bytes_eq:
  "state_bytes s = concat (map (\<lambda>w. map (\<lambda>j. word_of_nat (unat w div 256 ^ (3 - j))) [0..<4]) s)"
proof -
  have "map (\<lambda>j. ucast (drop_bit (24 - j * 8) w)) [0..<4] =
      map (\<lambda>j. word_of_nat (unat w div 256 ^ (3 - j)) :: byte) [0..<4]" for w :: u32
  proof (intro map_cong refl)
    fix j :: nat
    assume "j \<in> set [0..<4]"
    then have "24 - j * 8 = 8 * (3 - j)" by simp
    then show "ucast (drop_bit (24 - j * 8) w) = (word_of_nat (unat w div 256 ^ (3 - j)) :: byte)"
      by (simp only: ucast_drop_bit_unat)
  qed
  then show ?thesis by (simp only: state_bytes_def)
qed

lemma stored_length:
  assumes "length d = 64"
  shows "store_length (word_of_nat m) d = take 56 d @ map (\<lambda>j. word_of_nat (m div 256 ^ (7 - j))) [0..<8]"
proof -
  have "map (\<lambda>j. ucast (drop_bit (8 * (7 - j)) (word_of_nat m :: u64))) [0..<8] =
      map (\<lambda>j. word_of_nat (m div 256 ^ (7 - j)) :: byte) [0..<8]"
    by (intro map_cong refl ucast_drop_bit) simp
  then show ?thesis by (simp only: store_length_eq [OF assms])
qed

lemma take_exact: "length xs = n \<Longrightarrow> take n (xs @ ys) = xs"
  by simp

lemma finalise_eq:
  assumes "ctx_holds bs ctx"
  shows "finalise ctx = concat (map hex_byte (std_digest bs))"
proof -
  define n where "n = length bs mod 64"
  define k where "k = length bs - n"
  define L :: "byte list" where "L = map (\<lambda>j. word_of_nat (8 * length bs div 256 ^ (7 - j))) [0..<8]"
  define H where "H = fold std_block (blocks (take k bs)) std_H0"
  have h: "length (ctx_data ctx) = 64" "take n (ctx_data ctx) = drop k bs" "unat (ctx_datalen ctx) = n"
    "ctx_bitlen ctx = word_of_nat (8 * k)" "ctx_state ctx = H"
    using assms by (simp_all add: ctx_holds_def Let_def n_def k_def H_def)
  have n: "n < 64" by (simp add: n_def)
  have kn: "length bs = k + n" by (simp add: k_def n_def)
  have dv: "64 dvd k" by (simp add: k_def n_def minus_mod_eq_mult_div)
  have lenL: "length L = 8" by (simp add: L_def)
  have "ucast (ctx_datalen ctx) = (word_of_nat n :: u64)" using h(3) of_nat_unat by metis
  then have bits: "ctx_bitlen ctx + ucast (ctx_datalen ctx) * 8 = word_of_nat (8 * length bs)"
    using h(4) kn by simp
  let ?d = "(ctx_data ctx)[n := 0x80]"
  have d: "take (n + 1) ?d = drop k bs @ [0x80]" "length ?d = 64"
    using h(1,2) n by (simp_all add: take_Suc_conv_app_nth)
  have pad: "blocks (std_pad bs) = blocks (take k bs)
      @ blocks (drop k bs @ [0x80] @ replicate ((119 - n) mod 64) 0 @ L)"
  proof -
    have "std_pad bs = take k bs @ (drop k bs @ [0x80] @ replicate ((119 - n) mod 64) 0 @ L)"
      unfolding std_pad_def L_def n_def by (metis append_assoc append_take_drop_id)
    then show ?thesis using blocks_append [of "take k bs"] dv kn by simp
  qed
  have lt: "ctx_datalen ctx < 56 \<longleftrightarrow> n < 56" using h(3) by (simp add: word_less_nat_alt)
  show ?thesis
  proof (cases "n < 56")
    case True
    have "119 - n = 64 + (55 - n)" using True by simp
    moreover have "(64 + (55 - n)) mod 64 = 55 - n" by (subst mod_add_self1) simp
    ultimately have m: "(119 - n) mod 64 = 55 - n" by (simp only:)
    have z: "take 56 (zero_fill (n + 1) 56 ?d) = drop k bs @ [0x80] @ replicate (55 - n) 0"
    proof -
      have "zero_fill (n + 1) 56 ?d = (drop k bs @ [0x80] @ replicate (55 - n) 0) @ drop 56 ?d"
        using True d by (simp add: zero_fill_eq)
      moreover have "length (drop k bs @ [0x80 :: byte] @ replicate (55 - n) 0) = 56" using True kn by simp
      ultimately show ?thesis by (simp only: take_exact)
    qed
    have l: "length (zero_fill (n + 1) 56 ?d) = 64" using True d kn by (simp add: zero_fill_eq)
    have "store_length (ctx_bitlen ctx + ucast (ctx_datalen ctx) * 8) (zero_fill (n + 1) 56 ?d)
        = drop k bs @ [0x80] @ replicate (55 - n) 0 @ L"
      unfolding bits stored_length [OF l] z L_def by simp
    moreover have "length (drop k bs @ [0x80] @ replicate (55 - n) 0 @ L) = 64"
      using True kn lenL by simp
    ultimately show ?thesis
      using True h(3,5) lt pad m
      by (simp add: finalise_def Let_def transform_eq state_bytes_eq std_digest_def H_def blocks_single)
  next
    case False
    then have m: "(119 - n) mod 64 = 119 - n" using n by simp
    have z: "zero_fill (n + 1) 64 ?d = drop k bs @ [0x80] @ replicate (63 - n) 0"
      using n d kn by (simp add: zero_fill_eq)
    have l: "length (zero_fill (n + 1) 64 ?d) = 64" using n d kn by (simp add: zero_fill_eq)
    then have z2: "take 56 (zero_fill 0 56 (zero_fill (n + 1) 64 ?d)) = replicate 56 0"
      and l2: "length (zero_fill 0 56 (zero_fill (n + 1) 64 ?d)) = 64"
      by (simp_all add: zero_fill_eq)
    have st: "store_length (ctx_bitlen ctx + ucast (ctx_datalen ctx) * 8) (zero_fill 0 56 (zero_fill (n + 1) 64 ?d))
        = replicate 56 0 @ L"
      unfolding bits stored_length [OF l2] z2 L_def by simp
    have "replicate (119 - n) (0 :: byte) = replicate (63 - n) 0 @ replicate 56 0"
      using n by (simp flip: replicate_add)
    then have "blocks (drop k bs @ [0x80] @ replicate (119 - n) 0 @ L)
        = [zero_fill (n + 1) 64 ?d, replicate 56 0 @ L]"
      using blocks_append [of "zero_fill (n + 1) 64 ?d" "replicate 56 0 @ L"] l lenL z
      by (simp add: blocks_single)
    then show ?thesis
      using False h(3,5) lt pad m st
      by (simp add: finalise_def Let_def transform_eq state_bytes_eq std_digest_def H_def)
  qed
qed

text \<open>C9: SHA-256. The digest that names a build cache is the one of the standard, for every text.\<close>

theorem sha256_is_standard: "sha256 txt = concat (map hex_byte (std_digest (text_bytes txt)))"
  unfolding sha256_def using finalise_eq [OF ctx_holds_update [OF ctx_holds_new]] by simp

end
