(* ===== verification/Executioner.thy ===== *)
theory Executioner
  imports Runtime_Adapters Sha256
begin

text \<open>
  \<^verbatim>\<open>execution/executioner.cpp\<close> without its sockets: configuration, manifest and parameter checks, the
  package cache and its content keys, the build cache on disk, and the handler of a request, which is
  split where it enters and leaves the coalescer of concurrent preparations.
\<close>

section \<open>Configuration\<close>

record exec_config =
  xc_socket_timeout_ms :: int
  xc_max_client_threads :: int
  xc_max_queue_size :: int
  xc_prepare_timeout_ms :: int
  xc_cache_lock_wait_ms :: int
  xc_run_timeout_ms :: int
  xc_cache_root :: string

definition ExecutionerConfig :: exec_config where
  "ExecutionerConfig = \<lparr>xc_socket_timeout_ms = 5000, xc_max_client_threads = 128, xc_max_queue_size = 1024,
     xc_prepare_timeout_ms = 300000, xc_cache_lock_wait_ms = 310000, xc_run_timeout_ms = 0,
     xc_cache_root = ''.velix/build_cache''\<rparr>"

text \<open>The assignments in order; the last one keeps the lock wait above the prepare time (the sum wraps
  around where the source overflows).\<close>

definition exec_config_steps :: "json \<Rightarrow> (exec_config \<Rightarrow> exec_config res) list" where
  "exec_config_steps c =
    [\<lambda>cfg. rbind (jvalue as_int c ''socket_timeout_ms'' (xc_socket_timeout_ms cfg)) (\<lambda>v. Inr (cfg\<lparr>xc_socket_timeout_ms := v\<rparr>)),
     \<lambda>cfg. rbind (jvalue as_int c ''max_client_threads'' (xc_max_client_threads cfg)) (\<lambda>v. Inr (cfg\<lparr>xc_max_client_threads := v\<rparr>)),
     \<lambda>cfg. rbind (jvalue as_int c ''max_queue_size'' (xc_max_queue_size cfg)) (\<lambda>v. Inr (cfg\<lparr>xc_max_queue_size := v\<rparr>)),
     \<lambda>cfg. rbind (jvalue as_int c ''prepare_timeout_ms'' (xc_prepare_timeout_ms cfg)) (\<lambda>v. Inr (cfg\<lparr>xc_prepare_timeout_ms := v\<rparr>)),
     \<lambda>cfg. rbind (jvalue as_int c ''cache_lock_wait_ms'' (xc_cache_lock_wait_ms cfg)) (\<lambda>v. Inr (cfg\<lparr>xc_cache_lock_wait_ms := v\<rparr>)),
     \<lambda>cfg. rbind (jvalue as_int c ''run_timeout_ms'' (xc_run_timeout_ms cfg)) (\<lambda>v. Inr (cfg\<lparr>xc_run_timeout_ms := v\<rparr>)),
     \<lambda>cfg. rbind (jvalue as_string c ''cache_root'' (xc_cache_root cfg)) (\<lambda>v. Inr (cfg\<lparr>xc_cache_root := v\<rparr>)),
     \<lambda>cfg. Inr (if xc_cache_lock_wait_ms cfg \<le> xc_prepare_timeout_ms cfg
                 then cfg\<lparr>xc_cache_lock_wait_ms := to_int32 (xc_prepare_timeout_ms cfg + 10000)\<rparr> else cfg)]"

fun run_steps :: "('c \<Rightarrow> 'c res) list \<Rightarrow> 'c \<Rightarrow> 'c" where
  "run_steps [] c = c"
| "run_steps (f # fs) c = (case f c of Inl e \<Rightarrow> c | Inr c' \<Rightarrow> run_steps fs c')"

definition load_exec_config :: "json res option \<Rightarrow> exec_config" where
  "load_exec_config f =
     (case f of Some (Inr c) \<Rightarrow> run_steps (exec_config_steps c) ExecutionerConfig | _ \<Rightarrow> ExecutionerConfig)"

text \<open>\<open>load_context_tool_limits\<close>: the two limits handed to tools.\<close>

definition load_context_tool_limits :: "json res option \<Rightarrow> int \<times> int" where
  "load_context_tool_limits f =
     (let (o0, r0) =
        (case f of
           Some (Inr c) \<Rightarrow>
             (case jvalue as_int c ''max_tool_output_chars'' 4000 of
                Inl _ \<Rightarrow> (4000, 32768)
              | Inr chars \<Rightarrow>
                  (chars, case jvalue as_int c ''max_file_read_bytes'' 32768 of Inl _ \<Rightarrow> 32768 | Inr b \<Rightarrow> b))
         | _ \<Rightarrow> (4000, 32768))
      in (if o0 \<le> 0 then 4000 else o0, if r0 \<le> 0 then 32768 else r0))"

section \<open>Checks\<close>

definition validate_run :: "json \<Rightarrow> unit choice" where
  "validate_run run =
     cbind (ensure (is_object run) ''manifest_run_must_be_object'') (\<lambda>_.
     cbind (ensure (case jget run ''command'' of Some c \<Rightarrow> is_string c | None \<Rightarrow> True) ''manifest_run_command_must_be_string'') (\<lambda>_.
       ensure (case jget run ''args'' of Some a \<Rightarrow> is_array a | None \<Rightarrow> True) ''manifest_run_args_must_be_array''))"

definition validate_manifest :: "string \<Rightarrow> json \<Rightarrow> unit choice" where
  "validate_manifest name manifest =
     cbind (ensure (case jget manifest ''name'' of Some n \<Rightarrow> is_string n | None \<Rightarrow> False) ''manifest_missing_name'') (\<lambda>_.
     cbind (ensure (jget manifest ''name'' = Some (JString name)) ''manifest_name_mismatch'') (\<lambda>_.
     cbind (ensure (case jget manifest ''runtime'' of Some r \<Rightarrow> is_string r | None \<Rightarrow> False) ''manifest_missing_runtime'') (\<lambda>_.
     cbind (ensure (case jget manifest ''prepare'' of Some p \<Rightarrow> is_array p | None \<Rightarrow> True) ''manifest_prepare_must_be_array'') (\<lambda>_.
     cbind (ensure (case jget manifest ''workdir'' of Some w \<Rightarrow> is_string w | None \<Rightarrow> True) ''manifest_workdir_must_be_string'') (\<lambda>_.
     cbind (ensure (case jget manifest ''entry'' of Some e \<Rightarrow> is_string e | None \<Rightarrow> True) ''manifest_entry_must_be_string'') (\<lambda>_.
     cbind (case jget manifest ''run'' of Some run \<Rightarrow> validate_run run | None \<Rightarrow> Inr ()) (\<lambda>_.
       ensure (jcontains manifest ''run'' \<or> jcontains manifest ''entry'') ''manifest_requires_run_or_entry'')))))))"

fun check_required :: "json \<Rightarrow> json list \<Rightarrow> unit choice" where
  "check_required params [] = Inr ()"
| "check_required params (rk # rks) =
     (case rk of
        JString k \<Rightarrow> if jcontains params k then check_required params rks else Inl (''missing_required_param: '' @ k)
      | _ \<Rightarrow> check_required params rks)"

definition type_matches :: "string \<Rightarrow> json \<Rightarrow> bool" where
  "type_matches t v \<longleftrightarrow>
     (if t = ''string'' then is_string v
      else if t = ''number'' then (case v of JInt _ \<Rightarrow> True | JFloat _ \<Rightarrow> True | _ \<Rightarrow> False)
      else if t = ''boolean'' then (case v of JBool _ \<Rightarrow> True | _ \<Rightarrow> False)
      else if t = ''array'' then is_array v
      else if t = ''object'' then is_object v
      else True)"

fun check_types :: "json \<Rightarrow> (string \<times> json) list \<Rightarrow> unit choice res" where
  "check_types params [] = Inr (Inr ())"
| "check_types params ((k, prop) # props) =
     (case jget params k of
        None \<Rightarrow> check_types params props
      | Some v \<Rightarrow>
          if \<not> is_object prop then check_types params props
          else rbind (jvalue as_string prop ''type'' ''string'') (\<lambda>t.
                 if type_matches t v then check_types params props
                 else Inr (Inl (''param_type_mismatch: '' @ k @ '' expected '' @ t))))"

text \<open>The keys of a value that is not an object cannot be asked for: the iterator throws.\<close>

definition iterator_error :: exn where
  "iterator_error = Type_Error ''[json.exception.invalid_iterator.207] cannot use key() for non-object iterators''"

definition validate_params :: "json \<Rightarrow> json \<Rightarrow> unit choice res" where
  "validate_params params schema =
     (if \<not> is_object schema then Inr (Inr ())
      else rbind (jvalue as_json schema ''properties'' schema) (\<lambda>props.
           rbind (jvalue as_json schema ''required'' (JArray [])) (\<lambda>required.
             case check_required params (json_items required) of
               Inl e \<Rightarrow> Inr (Inl e)
             | Inr _ \<Rightarrow>
                 (case props of
                    JObject m \<Rightarrow> check_types params m
                  | JNull \<Rightarrow> Inr (Inr ())
                  | JArray [] \<Rightarrow> Inr (Inr ())
                  | _ \<Rightarrow> Inl iterator_error))))"

section \<open>Packages\<close>

record cached_package =
  cp_path :: string
  cp_manifest :: json
  cp_cache_key :: string

text \<open>The stages of a preparation at which the lock file is taken.\<close>

datatype lock_stage = At_Read | At_Preparing | At_Failed | At_Ready

text \<open>The machine: binaries and files of the adapters; manifest files (absent, not JSON, or their value);
  the regular files below a directory with their components and contents; directories; printing of JSON;
  ports and settings (\<^verbatim>\<open>utils/config_utils.hpp\<close>); the context file; the working directory; locks and
  writes of the status file; the processes of preparation steps; the spawned process.\<close>

record exec_env =
  xe_rt :: rt_env
  xe_manifest :: "string \<Rightarrow> json res option"
  xe_files :: "string \<Rightarrow> (string list \<times> string) list"
  xe_is_directory :: "string \<Rightarrow> bool"
  xe_dump :: "json \<Rightarrow> string"
  xe_port :: "string \<Rightarrow> int \<Rightarrow> int"
  xe_setting :: "string \<Rightarrow> int \<Rightarrow> int"
  xe_context :: "json res option"
  xe_cwd :: string
  xe_absolute :: "string \<Rightarrow> string"
  xe_pythonpath :: "string option"
  xe_mkdir :: bool
  xe_lock :: "lock_stage \<Rightarrow> exn option"
  xe_write :: "lock_stage \<Rightarrow> bool"
  xe_run_step :: "(string \<times> string) list \<Rightarrow> string \<Rightarrow> step_runner"
  xe_spawn :: "runtime_resolution \<Rightarrow> (string \<times> string) list \<Rightarrow> string \<Rightarrow> (int \<times> string) res"

text \<open>Reading a file in pieces of 65536 bytes.\<close>

function file_pieces :: "nat \<Rightarrow> string \<Rightarrow> string list" where
  "file_pieces n s = (if s = [] \<or> n = 0 then [] else take n s # file_pieces n (drop n s))"
  by pat_completeness auto
termination
  by (relation "measure (\<lambda>(n, s). length s)") auto

declare file_pieces.simps [simp del]

definition feed_text :: "string \<Rightarrow> sha_ctx \<Rightarrow> sha_ctx" where
  "feed_text s ctx = sha_update ctx (text_bytes s)"

definition feed_file :: "nat \<Rightarrow> string list \<times> string \<Rightarrow> sha_ctx \<Rightarrow> sha_ctx" where
  "feed_file depth f ctx =
     feed_text [newline] (fold feed_text (file_pieces 65536 (snd f))
       (feed_text [newline] (feed_text (join (drop depth (fst f)) ''/'') ctx)))"

text \<open>The components of the package path are the first components of each file below it.\<close>

definition compute_cache_key :: "exec_env \<Rightarrow> json \<Rightarrow> runtime_resolution \<Rightarrow> string \<Rightarrow> string" where
  "compute_cache_key E manifest rt pkg_path =
     (let files = sort_key fst (filter (\<lambda>f. ''.velix'' \<notin> set (fst f)) (xe_files E pkg_path));
          ctx = feed_text [newline] (feed_text (rr_version rt) (feed_text [newline] (feed_text (rr_runtime rt)
                  (feed_text [newline] (feed_text (xe_dump E manifest) new_ctx)))))
      in finalise (fold (feed_file (length (filter (\<lambda>c. c \<noteq> []) (split pkg_path CHR ''/'')))) files ctx))"

type_synonym package_cache = "(string, cached_package) table"

definition find_package :: "exec_env \<Rightarrow> string \<Rightarrow> string option" where
  "find_package E name =
     List.find (\<lambda>candidate. xe_manifest E (candidate @ ''/manifest.json'') \<noteq> None) [''tools/'' @ name, ''agents/'' @ name]"

text \<open>The package as it is on disk; its adapter is chosen in the package directory.\<close>

definition load_package :: "exec_env \<Rightarrow> string \<Rightarrow> cached_package option res" where
  "load_package E name =
     (case find_package E name of
        None \<Rightarrow> Inr None
      | Some pkg_path \<Rightarrow>
          (case xe_manifest E (pkg_path @ ''/manifest.json'') of
             Some (Inr manifest) \<Rightarrow>
               if validate_manifest name manifest \<noteq> Inr () then Inr None
               else rbind (select_runtime_adapter (xe_rt E) manifest pkg_path) (\<lambda>r.
                      Inr (case r of
                             Inl _ \<Rightarrow> None
                           | Inr rt \<Rightarrow> Some \<lparr>cp_path = pkg_path, cp_manifest = manifest,
                                            cp_cache_key = compute_cache_key E manifest rt pkg_path\<rparr>))
           | _ \<Rightarrow> Inr None))"

definition resolve_package ::
    "exec_env \<Rightarrow> string \<Rightarrow> bool \<Rightarrow> package_cache \<Rightarrow> (cached_package option \<times> package_cache) res" where
  "resolve_package E name force_refresh C =
     (if name = [] then Inr (None, C)
      else case (if force_refresh then None else tget C name) of
             Some pkg \<Rightarrow> Inr (Some pkg, C)
           | None \<Rightarrow>
               rbind (load_package E name) (\<lambda>r.
                 Inr (r, case r of None \<Rightarrow> C | Some pkg \<Rightarrow> tput name pkg C)))"

section \<open>The build cache\<close>

text \<open>An entry of the cache root: whether it is a directory, its status file (absent, not JSON, or its
  value) and its log.\<close>

record build_entry =
  be_is_dir :: bool
  be_status :: "json res option"
  be_log :: "string list"

type_synonym build_cache = "(string, build_entry) table"

definition new_build_entry :: build_entry where
  "new_build_entry = \<lparr>be_is_dir = True, be_status = None, be_log = []\<rparr>"

definition make_build_dir :: "exec_env \<Rightarrow> string \<Rightarrow> build_cache \<Rightarrow> build_cache" where
  "make_build_dir E key B =
     (if tget B key = None \<and> xe_mkdir E then tput key new_build_entry B else B)"

text \<open>Removing the root is taken to succeed.\<close>

definition handle_cache_clean :: "string \<Rightarrow> build_cache \<Rightarrow> json \<times> build_cache" where
  "handle_cache_clean trace_id B =
     (jobj [(''status'', JString ''ok''), (''trace_id'', JString trace_id), (''phase'', JString ''cache''),
            (''action'', JString ''clean'')], [])"

text \<open>The disk as pruning meets it: the age of an entry in nanoseconds, unless its time cannot be read,
  and whether removing it succeeds.\<close>

record prune_env =
  pe_age :: "string \<Rightarrow> int option"
  pe_removable :: "string \<Rightarrow> bool"

definition prunable :: "prune_env \<Rightarrow> int \<Rightarrow> string \<times> build_entry \<Rightarrow> bool" where
  "prunable P older_sec e \<longleftrightarrow>
     be_is_dir (snd e)
     \<and> (case pe_age P (fst e) of None \<Rightarrow> False | Some age \<Rightarrow> age > older_sec * 10 ^ 9 \<and> pe_removable P (fst e))"

definition handle_cache_prune :: "prune_env \<Rightarrow> json \<Rightarrow> string \<Rightarrow> build_cache \<Rightarrow> (json \<times> build_cache) res" where
  "handle_cache_prune P req trace_id B =
     rbind (jvalue as_int req ''older_than_sec'' (7 * 24 * 3600)) (\<lambda>older_sec.
       Inr (jobj [(''status'', JString ''ok''), (''trace_id'', JString trace_id), (''phase'', JString ''cache''),
                  (''action'', JString ''prune''), (''removed'', JInt (int (length (filter (prunable P older_sec) B))))],
            filter (\<lambda>e. \<not> prunable P older_sec e) B))"

section \<open>The preparation of one leader\<close>

record exec_job =
  ej_cache_key :: string
  ej_steps :: "prepare_step list"
  ej_env :: "(string \<times> string) list"
  ej_workdir :: string
  ej_trace_id :: string
  ej_runtime :: runtime_resolution
  ej_force :: bool

definition build_path :: "exec_config \<Rightarrow> exec_job \<Rightarrow> string \<Rightarrow> string" where
  "build_path cfg J name = path_join (path_join (xc_cache_root cfg) (ej_cache_key J)) name"

text \<open>\<open>FileLockGuard\<close>: opening the lock file fails without its directory.\<close>

definition take_lock :: "exec_env \<Rightarrow> exec_config \<Rightarrow> exec_job \<Rightarrow> lock_stage \<Rightarrow> build_cache \<Rightarrow> unit res" where
  "take_lock E cfg J st B =
     (if tget B (ej_cache_key J) = None
      then Inl (Runtime_Error (''lock open failed: '' @ build_path cfg J ''.lock''))
      else case xe_lock E st of Some e \<Rightarrow> Inl e | None \<Rightarrow> Inr ())"

definition write_status :: "exec_env \<Rightarrow> exec_job \<Rightarrow> lock_stage \<Rightarrow> json \<Rightarrow> build_cache \<Rightarrow> build_cache" where
  "write_status E J st j B =
     (if xe_write E st then tmodify (ej_cache_key J) (\<lambda>e. e\<lparr>be_status := Some (Inr j)\<rparr>) B else B)"

text \<open>The status read under the lock: ready, or removed.\<close>

definition read_status :: "exec_job \<Rightarrow> build_cache \<Rightarrow> bool \<times> build_cache" where
  "read_status J B =
     (case tget B (ej_cache_key J) of
        None \<Rightarrow> (False, B)
      | Some e \<Rightarrow>
          (case be_status e of
             None \<Rightarrow> (False, B)
           | Some r \<Rightarrow>
               (case rbind r (\<lambda>st. jvalue as_string st ''status'' []) of
                  Inr sv \<Rightarrow>
                    if sv = ''ready'' then (True, B) else (False, tmodify (ej_cache_key J) (\<lambda>e. e\<lparr>be_status := None\<rparr>) B)
                | Inl _ \<Rightarrow> (False, tmodify (ej_cache_key J) (\<lambda>e. e\<lparr>be_status := None\<rparr>) B))))"

definition status_json :: "string \<Rightarrow> json" where
  "status_json s = jobj [(''status'', JString s)]"

definition prepare_error :: "string \<Rightarrow> string \<Rightarrow> json" where
  "prepare_error trace_id e =
     jobj [(''status'', JString ''error''), (''trace_id'', JString trace_id), (''phase'', JString ''prepare''), (''error'', JString e)]"

text \<open>The reason handed to the followers when a step failed.\<close>

definition fail_reason :: "json \<Rightarrow> string res" where
  "fail_reason prep =
     rbind (jvalue as_string prep ''error'' ''prepare_failed'') (\<lambda>r.
     rbind (if jcontains prep ''command'' then rbind (jvalue as_string prep ''command'' []) (\<lambda>c. Inr ('' command='' @ c)) else Inr []) (\<lambda>c.
     rbind (if jcontains prep ''exit_code'' then rbind (jvalue as_int prep ''exit_code'' (- 1)) (\<lambda>i. Inr ('' exit_code='' @ to_string_int i)) else Inr []) (\<lambda>x.
     rbind (jvalue as_bool prep ''timed_out'' False) (\<lambda>t.
       Inr (r @ c @ x @ (if t then '' timed_out=true'' else []))))))"

text \<open>What a preparation ends with: ready, or the response to the leader and the reason for the others.\<close>

type_synonym prepare_end = "(json \<times> string) + unit"

definition run_prepare :: "exec_env \<Rightarrow> exec_config \<Rightarrow> exec_job \<Rightarrow> build_cache \<Rightarrow> prepare_end \<times> build_cache" where
  "run_prepare E cfg J B =
     (let (prep, lg) = execute_prepare (xe_run_step E (ej_env J) (ej_workdir J)) (ej_steps J) (ej_trace_id J);
          B1 = tmodify (ej_cache_key J) (\<lambda>e. e\<lparr>be_log := be_log e @ lg\<rparr>) B
      in case jvalue as_string prep ''status'' ''error'' of
           Inl e \<Rightarrow> (Inl (prepare_error (ej_trace_id J) (''prepare_cache_failed: '' @ what e), what e), B1)
         | Inr sv \<Rightarrow>
             if sv \<noteq> ''ok''
             then (case fail_reason prep of
                     Inl e \<Rightarrow> (Inl (prepare_error (ej_trace_id J) (''prepare_cache_failed: '' @ what e), what e), B1)
                   | Inr reason \<Rightarrow>
                       (Inl (prep, reason),
                        case take_lock E cfg J At_Failed B1 of
                          Inl _ \<Rightarrow> B1
                        | Inr _ \<Rightarrow> write_status E J At_Failed
                            (jobj [(''status'', JString ''failed''), (''error'', JString reason),
                                   (''log_file'', JString (path_join (build_path cfg J ''logs'') ''prepare.log''))]) B1))
             else (Inr (),
                   case take_lock E cfg J At_Ready B1 of
                     Inl _ \<Rightarrow> B1
                   | Inr _ \<Rightarrow> write_status E J At_Ready (status_json ''ready'') B1))"

definition leader_prepare :: "exec_env \<Rightarrow> exec_config \<Rightarrow> exec_job \<Rightarrow> build_cache \<Rightarrow> prepare_end \<times> build_cache" where
  "leader_prepare E cfg J B =
     (let key = ej_cache_key J;
          B1 = make_build_dir E key B;
          (r, B2) =
            (if ej_force J then (Inr False, make_build_dir E key (tdel key B1))
             else case take_lock E cfg J At_Read B1 of
                    Inl e \<Rightarrow> (Inl (''status_lock_failed: '' @ what e), B1)
                  | Inr _ \<Rightarrow> (let (ready, B2) = read_status J B1 in (Inr ready, B2)))
      in case r of
           Inl reason \<Rightarrow> (Inl (prepare_error (ej_trace_id J) reason, reason), B2)
         | Inr True \<Rightarrow> (Inr (), B2)
         | Inr False \<Rightarrow>
             (case take_lock E cfg J At_Preparing B2 of
                Inl e \<Rightarrow>
                  (let reason = ''status_write_failed: '' @ what e in (Inl (prepare_error (ej_trace_id J) reason, reason), B2))
              | Inr _ \<Rightarrow> run_prepare E cfg J (write_status E J At_Preparing (status_json ''preparing'') B2)))"

section \<open>A request\<close>

text \<open>\<open>lexically_normal\<close>: dot entries go, a dot-dot entry takes the entry before it, a trailing
  separator stays unless nothing or a dot-dot entry stands before it.\<close>

definition normal_step :: "bool \<Rightarrow> string \<Rightarrow> string list \<Rightarrow> string list" where
  "normal_step rooted p acc =
     (if p = [] \<or> p = ''.'' then acc
      else if p = ''..''
      then (if acc = [] then (if rooted then [] else [p]) else if hd acc = ''..'' then p # acc else tl acc)
      else p # acc)"

definition lexically_normal :: "string \<Rightarrow> string" where
  "lexically_normal s =
     (let rooted = (s \<noteq> [] \<and> hd s = CHR ''/'');
          ps = split s CHR ''/'';
          acc = fold (normal_step rooted) ps [];
          trailing = (ps \<noteq> [] \<and> (last ps = [] \<or> last ps = ''.'' \<or> last ps = ''..'') \<and> acc \<noteq> [] \<and> hd acc \<noteq> ''..'')
      in if s = [] then []
         else if rooted then ''/'' @ join (rev acc) ''/'' @ (if trailing then ''/'' else [])
         else if acc = [] then ''.''
         else join (rev acc) ''/'' @ (if trailing then ''/'' else []))"

definition parent_path :: "string \<Rightarrow> string" where
  "parent_path s = rev (dropWhile (\<lambda>c. c = CHR ''/'') (dropWhile (\<lambda>c. c \<noteq> CHR ''/'') (rev s)))"

definition request_error :: "string \<Rightarrow> string \<Rightarrow> json" where
  "request_error trace_id e =
     jobj [(''status'', JString ''error''), (''trace_id'', JString trace_id), (''error'', JString e)]"

definition port_env :: "exec_env \<Rightarrow> (string \<times> string) list" where
  "port_env E =
     [(''VELIX_PORT_SUPERVISOR'', to_string_int (xe_port E ''SUPERVISOR'' 5173)),
      (''VELIX_PORT_BUS'', to_string_int (xe_port E ''BUS'' 5174)),
      (''VELIX_PORT_SCHEDULER'', to_string_int (xe_port E ''SCHEDULER'' 5171)),
      (''VELIX_PORT_LLM_SCHEDULER'', to_string_int (xe_port E ''LLM_SCHEDULER'' (xe_port E ''SCHEDULER'' 5171))),
      (''VELIX_PORT_EXECUTIONER'', to_string_int (xe_port E ''EXECUTIONER'' 5172))]"

definition sdk_env :: "exec_env \<Rightarrow> (string \<times> string) list" where
  "sdk_env E = map (\<lambda>(k, d). (''VELIX_'' @ k, to_string_int (xe_setting E k d)))
     [(''SDK_RETRY_LIMIT'', 3), (''SDK_RETRY_DELAY_MS'', 500), (''SDK_EXEC_TIMEOUT_MS'', 120000),
      (''SDK_EXEC_RETRY_LIMIT'', 3), (''SDK_EXEC_RETRY_DELAY_MS'', 300), (''SDK_LLM_TIMEOUT_MS'', 305000),
      (''SDK_STREAM_POLL_TIMEOUT_MS'', 30000), (''SDK_STREAM_MAX_CHUNKS'', 100000), (''SDK_MAX_ITERATIONS'', 100),
      (''SDK_BUS_WAIT_MIN'', 60), (''SDK_HEARTBEAT_SEC'', 5)]"

definition limit_env :: "exec_env \<Rightarrow> (string \<times> string) list" where
  "limit_env E =
     (let (chars, bytes) = load_context_tool_limits (xe_context E)
      in [(''VELIX_MAX_TOOL_OUTPUT_CHARS'', to_string_int chars), (''VELIX_MAX_FILE_READ_BYTES'', to_string_int bytes)])"

text \<open>Adding a variable that is not set yet, and setting one.\<close>

definition add_var :: "string \<times> string \<Rightarrow> (string \<times> string) list \<Rightarrow> (string \<times> string) list" where
  "add_var kv env = (if oget env (fst kv) = None then oput (fst kv) (snd kv) env else env)"

definition set_var :: "string \<times> string \<Rightarrow> (string \<times> string) list \<Rightarrow> (string \<times> string) list" where
  "set_var kv env = oput (fst kv) (snd kv) env"

definition python_path :: "exec_env \<Rightarrow> string \<Rightarrow> string" where
  "python_path E pkg_path =
     (let cand = parent_path (parent_path pkg_path);
          root = (if cand \<noteq> [] then xe_absolute E cand else xe_cwd E)
      in case xe_pythonpath E of
           Some p \<Rightarrow> if p \<noteq> [] then root @ '':'' @ p else root
         | None \<Rightarrow> root)"

text \<open>The fields of a request that name the caller.\<close>

record exec_caller =
  xr_intent :: string
  xr_source_pid :: int
  xr_force_refresh :: bool
  xr_name :: string
  xr_trace_id :: string

definition build_env ::
    "exec_env \<Rightarrow> exec_caller \<Rightarrow> string \<Rightarrow> string \<Rightarrow> json \<Rightarrow> cached_package \<Rightarrow> runtime_resolution \<Rightarrow> (string \<times> string) list" where
  "build_env E R tree_id user_id params pkg rt =
     (let base = env_of
            [(''VELIX_PARENT_PID'', to_string_int (xr_source_pid R)),
             (''VELIX_BUS_PORT'', to_string_int (xe_port E ''BUS'' 5174)),
             (''VELIX_INTENT'', xr_intent R), (''VELIX_TRACE_ID'', xr_trace_id R), (''VELIX_PROCESS_NAME'', xr_name R),
             (''VELIX_TREE_ID'', if xr_intent R = ''JOIN_PARENT_TREE'' then tree_id else []),
             (''VELIX_PARAMS'', xe_dump E params), (''VELIX_USER_ID'', user_id),
             (''PYTHONPATH'', python_path E (cp_path pkg))]
      in fold set_var (rr_env_overrides rt) (fold add_var (limit_env E) (fold add_var (sdk_env E) (fold add_var (port_env E) base))))"

text \<open>The checks before the package is looked up.\<close>

definition check_intent :: "string \<Rightarrow> bool \<Rightarrow> int \<Rightarrow> unit choice" where
  "check_intent intent is_handler src_pid =
     cbind (ensure (intent = ''JOIN_PARENT_TREE'' \<or> intent = ''NEW_TREE'') ''invalid_intent'') (\<lambda>_.
     cbind (ensure (\<not> (intent = ''JOIN_PARENT_TREE'' \<and> src_pid \<le> 0)) ''invalid_source_pid_for_join_parent_tree'') (\<lambda>_.
     cbind (ensure (\<not> (intent = ''NEW_TREE'' \<and> \<not> is_handler)) ''intent_override_new_tree_allowed_only_for_handler'') (\<lambda>_.
       ensure (src_pid > 0) ''invalid_source_pid'')))"

definition exec_caller_of :: "json \<Rightarrow> string \<Rightarrow> exec_caller choice res" where
  "exec_caller_of req trace_id =
     rbind (jvalue as_string req ''intent'' ''JOIN_PARENT_TREE'') (\<lambda>intent.
     rbind (jvalue as_bool req ''is_handler'' False) (\<lambda>is_handler.
     rbind (jvalue as_bool req ''force_refresh'' False) (\<lambda>force_ref.
     rbind (jvalue as_int req ''source_pid'' (- 1)) (\<lambda>src_pid.
       case check_intent intent is_handler src_pid of
         Inl e \<Rightarrow> Inr (Inl e)
       | Inr _ \<Rightarrow>
           rbind (jvalue as_string req ''name'' []) (\<lambda>name.
             Inr (if name = [] then Inl ''empty_package_name''
                  else Inr \<lparr>xr_intent = intent, xr_source_pid = src_pid, xr_force_refresh = force_ref,
                            xr_name = name, xr_trace_id = trace_id\<rparr>))))))"

definition merged_step :: "prepare_step \<Rightarrow> prepare_step" where
  "merged_step s = \<lparr>ps_command = ps_command s, ps_args = ps_args s, ps_timeout_ms = ps_timeout_ms s\<rparr>"

text \<open>Steps that may throw or end the request with a response.\<close>

type_synonym 'a stage = "(json + 'a) res"

definition sbind :: "'a stage \<Rightarrow> ('a \<Rightarrow> 'b stage) \<Rightarrow> 'b stage" where
  "sbind m f = rbind m (\<lambda>r. case r of Inl j \<Rightarrow> Inr (Inl j) | Inr a \<Rightarrow> f a)"

definition reading :: "'a res \<Rightarrow> 'a stage" where
  "reading m = rbind m (\<lambda>a. Inr (Inr a))"

definition refusing :: "(string \<Rightarrow> json) \<Rightarrow> 'a choice res \<Rightarrow> 'a stage" where
  "refusing respond m = rbind m (\<lambda>r. Inr (case r of Inl e \<Rightarrow> Inl (respond e) | Inr a \<Rightarrow> Inr a))"

lemma stage_cases:
  obtains e where "(m :: ('e + 'a) res) = Inl e" | j where "m = Inr (Inl j)" | a where "m = Inr (Inr a)"
  by (metis sum.exhaust)

lemma sbind_job: "sbind m f = Inr (Inr b) \<longleftrightarrow> (\<exists>a. m = Inr (Inr a) \<and> f a = Inr (Inr b))"
  by (cases m rule: stage_cases) (simp_all add: sbind_def)

lemma sbind_response: "sbind m f = Inr (Inl j) \<longleftrightarrow> m = Inr (Inl j) \<or> (\<exists>a. m = Inr (Inr a) \<and> f a = Inr (Inl j))"
  by (cases m rule: stage_cases) (simp_all add: sbind_def)

lemma reading_conv [simp]:
  "reading m = Inr (Inr a) \<longleftrightarrow> m = Inr a" "reading m \<noteq> Inr (Inl j)"
  by (auto simp: reading_def rbind_Inr_conv)

lemma refusing_job [simp]: "refusing g m = Inr (Inr a) \<longleftrightarrow> m = Inr (Inr a)"
  by (cases m rule: stage_cases) (simp_all add: refusing_def)

lemma refusing_response [simp]: "refusing g m = Inr (Inl j) \<longleftrightarrow> (\<exists>e. m = Inr (Inl e) \<and> j = g e)"
  by (cases m rule: stage_cases) (auto simp: refusing_def)

definition adapter_error :: "string \<Rightarrow> string \<Rightarrow> json" where
  "adapter_error trace_id e =
     jobj [(''status'', JString ''error''), (''trace_id'', JString trace_id), (''phase'', JString ''adapter''), (''error'', JString e)]"

text \<open>Steps 2 to 7 of the handler: a response, or the job to prepare.\<close>

definition make_job ::
    "exec_env \<Rightarrow> exec_config \<Rightarrow> json \<Rightarrow> exec_caller \<Rightarrow> json \<Rightarrow> cached_package \<Rightarrow> exec_job stage" where
  "make_job E cfg req R params pkg =
     sbind (reading (jvalue as_json (cp_manifest pkg) ''parameters'' (JObject []))) (\<lambda>schema.
     sbind (refusing (\<lambda>e. request_error (xr_trace_id R) (''params_validation_failed: '' @ e)) (validate_params params schema)) (\<lambda>_.
     sbind (reading (jvalue as_string (cp_manifest pkg) ''workdir'' ''.'')) (\<lambda>rel_wd.
       let workdir = lexically_normal (path_join (cp_path pkg) rel_wd) in
     sbind (refusing (prepare_error (xr_trace_id R)) (Inr (ensure (xe_is_directory E workdir) (''workdir_not_found: '' @ workdir)))) (\<lambda>_.
     sbind (refusing (adapter_error (xr_trace_id R)) (select_runtime_adapter (xe_rt E) (cp_manifest pkg) workdir)) (\<lambda>rt.
     sbind (refusing (prepare_error (xr_trace_id R)) (parse_prepare_steps (cp_manifest pkg) (xc_prepare_timeout_ms cfg))) (\<lambda>steps.
     sbind (reading (jvalue as_string req ''tree_id'' [])) (\<lambda>tree_id.
     sbind (reading (jvalue as_string req ''user_id'' [])) (\<lambda>user_id.
       Inr (Inr \<lparr>ej_cache_key = (if cp_cache_key pkg = [] then compute_cache_key E (cp_manifest pkg) rt (cp_path pkg)
                                else cp_cache_key pkg),
                 ej_steps = map merged_step (rr_injected_prepare_steps rt) @ steps,
                 ej_env = build_env E R tree_id user_id params pkg rt, ej_workdir = workdir,
                 ej_trace_id = xr_trace_id R, ej_runtime = rt, ej_force = xr_force_refresh R\<rparr>)))))))))"

text \<open>A key computed only now goes back to the package cache.\<close>

definition write_back :: "string \<Rightarrow> cached_package \<Rightarrow> exec_job \<Rightarrow> package_cache \<Rightarrow> package_cache" where
  "write_back name pkg J C =
     (if cp_cache_key pkg = [] then tput name (pkg\<lparr>cp_cache_key := ej_cache_key J\<rparr>) C else C)"

text \<open>The handler up to the coalescer. An exception keeps what was cached before it.\<close>

definition exec_front ::
    "exec_env \<Rightarrow> exec_config \<Rightarrow> json \<Rightarrow> string \<Rightarrow> package_cache \<Rightarrow> (json + exec_job) res \<times> package_cache" where
  "exec_front E cfg req trace_id C =
     (case exec_caller_of req trace_id of
        Inl e \<Rightarrow> (Inl e, C)
      | Inr (Inl e) \<Rightarrow> (Inr (Inl (request_error trace_id e)), C)
      | Inr (Inr R) \<Rightarrow>
          (case rbind (jvalue as_json req ''params'' (JObject [])) (\<lambda>params.
                rbind (resolve_package E (xr_name R) (xr_force_refresh R) C) (\<lambda>(found, C'). Inr (params, found, C'))) of
             Inl e \<Rightarrow> (Inl e, C)
           | Inr (params, None, C') \<Rightarrow>
               (Inr (Inl (request_error trace_id (''package_not_found_or_invalid: '' @ xr_name R))), C')
           | Inr (params, Some pkg, C') \<Rightarrow>
               (case make_job E cfg req R params pkg of
                  Inr (Inr J) \<Rightarrow> (Inr (Inr J), write_back (xr_name R) pkg J C')
                | r \<Rightarrow> (r, C'))))"

definition job_launch :: "exec_env \<Rightarrow> exec_job \<Rightarrow> json" where
  "job_launch E J = launch (xe_spawn E (ej_runtime J) (ej_env J) (ej_workdir J)) (ej_trace_id J)"

text \<open>The service: both caches.\<close>

record executioner =
  xs_packages :: package_cache
  xs_builds :: build_cache

text \<open>The whole handler for a request that meets no other one preparing the same key.\<close>

definition exec_process :: "exec_env \<Rightarrow> exec_config \<Rightarrow> json \<Rightarrow> string \<Rightarrow> executioner \<Rightarrow> json res \<times> executioner" where
  "exec_process E cfg req trace_id X =
     (case exec_front E cfg req trace_id (xs_packages X) of
        (Inl e, C) \<Rightarrow> (Inl e, X\<lparr>xs_packages := C\<rparr>)
      | (Inr (Inl response), C) \<Rightarrow> (Inr response, X\<lparr>xs_packages := C\<rparr>)
      | (Inr (Inr J), C) \<Rightarrow>
          (case leader_prepare E cfg J (xs_builds X) of
             (Inl (response, _), B) \<Rightarrow> (Inr response, X\<lparr>xs_packages := C, xs_builds := B\<rparr>)
           | (Inr _, B) \<Rightarrow> (Inr (job_launch E J), X\<lparr>xs_packages := C, xs_builds := B\<rparr>)))"

definition handle_exec_request ::
    "exec_env \<Rightarrow> exec_config \<Rightarrow> prune_env \<Rightarrow> json \<Rightarrow> executioner \<Rightarrow> json res \<times> executioner" where
  "handle_exec_request E cfg P req X =
     (case rbind (jvalue as_string req ''message_type'' []) (\<lambda>m. rbind (jvalue as_string req ''trace_id'' []) (\<lambda>t. Inr (m, t))) of
        Inl e \<Rightarrow> (Inl e, X)
      | Inr (msg_type, trace_id) \<Rightarrow>
          if msg_type = ''EXEC_CACHE_CLEAN''
          then (let (j, B) = handle_cache_clean trace_id (xs_builds X) in (Inr j, X\<lparr>xs_builds := B\<rparr>))
          else if msg_type = ''EXEC_CACHE_PRUNE''
          then (case handle_cache_prune P req trace_id (xs_builds X) of
                  Inl e \<Rightarrow> (Inl e, X) | Inr (j, B) \<Rightarrow> (Inr j, X\<lparr>xs_builds := B\<rparr>))
          else if msg_type \<noteq> ''EXEC_VELIX_PROCESS'' then (Inr (request_error trace_id ''unsupported_message_type''), X)
          else exec_process E cfg req trace_id X)"

text \<open>\<open>handle_client\<close>: nothing for null, an error response for an exception.\<close>

definition exec_handle_client ::
    "exec_env \<Rightarrow> exec_config \<Rightarrow> prune_env \<Rightarrow> json res \<Rightarrow> executioner \<Rightarrow> json option \<times> executioner" where
  "exec_handle_client E cfg P received X =
     (let failed = (\<lambda>e. jobj [(''status'', JString ''error''), (''error'', JString (''executioner_client_exception: '' @ what e))])
      in case received of
           Inl e \<Rightarrow> (Some (failed e), X)
         | Inr JNull \<Rightarrow> (None, X)
         | Inr req \<Rightarrow>
             (case handle_exec_request E cfg P req X of
                (Inl e, X') \<Rightarrow> (Some (failed e), X')
              | (Inr j, X') \<Rightarrow> (Some j, X')))"

section \<open>Content keys\<close>

definition file_text :: "nat \<Rightarrow> string list \<times> string \<Rightarrow> string" where
  "file_text depth f = join (drop depth (fst f)) ''/'' @ [newline] @ snd f @ [newline]"

definition key_text :: "exec_env \<Rightarrow> json \<Rightarrow> runtime_resolution \<Rightarrow> string \<Rightarrow> string" where
  "key_text E manifest rt pkg_path =
     xe_dump E manifest @ [newline] @ rr_runtime rt @ [newline] @ rr_version rt @ [newline]
     @ concat (map (file_text (length (filter (\<lambda>c. c \<noteq> []) (split pkg_path CHR ''/''))))
         (sort_key fst (filter (\<lambda>f. ''.velix'' \<notin> set (fst f)) (xe_files E pkg_path))))"

lemma feed_text_append: "feed_text t (feed_text s ctx) = feed_text (s @ t) ctx"
  by (simp add: feed_text_def text_bytes_def sha_update_append)

lemma feed_pieces_concat: "fold feed_text ps ctx = feed_text (concat ps) ctx"
proof (induction ps arbitrary: ctx)
  case Nil
  then show ?case by (simp add: feed_text_def text_bytes_def sha_update_def)
qed (simp add: feed_text_append)

lemma concat_pieces: "0 < n \<Longrightarrow> concat (file_pieces n s) = s"
  by (induction n s rule: file_pieces.induct) (subst file_pieces.simps, simp)

lemma feed_file_text: "feed_file depth f ctx = feed_text (file_text depth f) ctx"
  by (simp add: feed_file_def file_text_def feed_pieces_concat concat_pieces feed_text_append)

lemma feed_files_text: "fold (feed_file depth) fs ctx = feed_text (concat (map (file_text depth) fs)) ctx"
proof -
  have "fold (feed_file depth) fs ctx = fold feed_text (map (file_text depth) fs) ctx"
    by (simp add: fold_map comp_def feed_file_text [abs_def])
  then show ?thesis by (simp add: feed_pieces_concat)
qed

lemma finalise_feed: "finalise (feed_text s new_ctx) = concat (map hex_byte (std_digest (text_bytes s)))"
  unfolding feed_text_def using finalise_eq [OF ctx_holds_update [OF ctx_holds_new]] by simp

lemma cache_key_text: "compute_cache_key E manifest rt p = finalise (feed_text (key_text E manifest rt p) new_ctx)"
  by (simp add: compute_cache_key_def Let_def feed_files_text feed_text_append key_text_def)

text \<open>The name of a build cache. The key of a package is the SHA-256 of one text: the printed
  manifest, runtime and version, and for every regular file outside \<open>.velix\<close>, in the order of
  paths, its relative path and its content; feeding it in pieces makes no difference.\<close>

theorem cache_key_exact:
  "compute_cache_key E manifest rt pkg_path
     = concat (map hex_byte (std_digest (text_bytes (key_text E manifest rt pkg_path))))"
  by (simp only: cache_key_text finalise_feed)

text \<open>The text has no lengths in it: different packages can have the same one.\<close>

lemma cache_key_ambiguous:
  assumes "xe_files E p = [([''tools'', ''x'', ''a''], ''1'' @ [newline] @ ''b'' @ [newline] @ ''2'')]"
    and "xe_files E' p = [([''tools'', ''x'', ''a''], ''1''), ([''tools'', ''x'', ''b''], ''2'')]"
    and "xe_dump E' = xe_dump E" and "p = ''tools/x''"
  shows "compute_cache_key E' manifest rt p = compute_cache_key E manifest rt p"
proof -
  have "length (filter (\<lambda>c. c \<noteq> []) (split p CHR ''/'')) = 2" unfolding assms(4) by code_simp
  then have "key_text E' manifest rt p = key_text E manifest rt p"
    using assms(1-3) by (simp add: key_text_def file_text_def)
  then show ?thesis by (simp only: cache_key_text)
qed

section \<open>Packages and preparation\<close>

definition package_ok :: "string \<Rightarrow> cached_package \<Rightarrow> bool" where
  "package_ok name pkg \<longleftrightarrow>
     validate_manifest name (cp_manifest pkg) = Inr () \<and> cp_path pkg \<in> {''tools/'' @ name, ''agents/'' @ name}"

definition packages_ok :: "package_cache \<Rightarrow> bool" where
  "packages_ok C \<longleftrightarrow> (\<forall>name pkg. tget C name = Some pkg \<longrightarrow> package_ok name pkg)"

lemma packages_ok_tput: "packages_ok C \<Longrightarrow> package_ok name pkg \<Longrightarrow> packages_ok (tput name pkg C)"
  by (simp add: packages_ok_def)

lemma find_package_path: "find_package E name = Some p \<Longrightarrow> p \<in> {''tools/'' @ name, ''agents/'' @ name}"
  by (simp add: find_package_def split: if_splits)

lemma case_sum_Some_conv:
  "(case r of Inl _ \<Rightarrow> None | Inr x \<Rightarrow> Some (f x)) = Some y \<longleftrightarrow> (\<exists>x. r = Inr x \<and> y = f x)"
  by (auto split: sum.splits)

lemma load_package_ok:
  assumes "load_package E name = Inr (Some pkg)"
  shows "package_ok name pkg"
proof -
  from assms obtain p manifest where p: "find_package E name = Some p" "cp_path pkg = p" "cp_manifest pkg = manifest"
    and "validate_manifest name manifest = Inr ()"
    by (auto simp: load_package_def rbind_Inr_conv case_sum_Some_conv split: option.splits sum.splits if_splits)
  then show ?thesis using find_package_path [OF p(1)] by (simp add: package_ok_def)
qed

lemma resolve_package_ok:
  assumes "packages_ok C" and "resolve_package E name force C = Inr (found, C')"
  shows "packages_ok C' \<and> (\<forall>pkg. found = Some pkg \<longrightarrow> package_ok name pkg)"
  using assms load_package_ok [of E name]
  by (auto simp: resolve_package_def rbind_Inr_conv packages_ok_def split: option.splits if_splits)

lemma make_job_ok:
  assumes "make_job E cfg req R params pkg = Inr (Inr J)"
  shows "(\<exists>schema. jvalue as_json (cp_manifest pkg) ''parameters'' (JObject []) = Inr schema
            \<and> validate_params params schema = Inr (Inr ()))
         \<and> (\<exists>wd. jvalue as_string (cp_manifest pkg) ''workdir'' ''.'' = Inr wd
            \<and> ej_workdir J = lexically_normal (path_join (cp_path pkg) wd))
         \<and> xe_is_directory E (ej_workdir J)
         \<and> select_runtime_adapter (xe_rt E) (cp_manifest pkg) (ej_workdir J) = Inr (Inr (ej_runtime J))
         \<and> ej_force J = xr_force_refresh R"
  using assms by (auto simp: make_job_def sbind_job Let_def)

lemma make_job_response: "make_job E cfg req R params pkg = Inr (Inl j) \<Longrightarrow> jget j ''os_pid'' = None"
  by (auto simp: make_job_def sbind_response sbind_job Let_def request_error_def prepare_error_def adapter_error_def)

lemma jvalue_Inr_string: "jvalue as_string req k [] = Inr s \<Longrightarrow> s \<noteq> [] \<Longrightarrow> jget req k = Some (JString s)"
  by (cases req) (auto split: option.splits elim: as_string.elims)

lemma jvalue_Inr_True: "jvalue as_bool req k False = Inr True \<Longrightarrow> jget req k = Some (JBool True)"
  by (cases req) (auto split: option.splits elim: as_bool.elims)

lemma jvalue_given: "jvalue conv req k d = Inr s \<Longrightarrow> jget req k = Some v \<Longrightarrow> conv v = Inr s"
  by (cases req) auto

lemma unit_choice_conv: "(\<forall>e. x \<noteq> Inl e) \<longleftrightarrow> x = Inr ()"
  by (cases x) auto

lemma exec_caller_ok:
  assumes "exec_caller_of req t = Inr (Inr R)"
  shows "jget req ''name'' = Some (JString (xr_name R)) \<and> xr_trace_id R = t
    \<and> jvalue as_int req ''source_pid'' (- 1) = Inr (xr_source_pid R) \<and> 0 < xr_source_pid R
    \<and> jvalue as_bool req ''force_refresh'' False = Inr (xr_force_refresh R)
    \<and> (jget req ''intent'' = Some (JString ''NEW_TREE'') \<longrightarrow> jget req ''is_handler'' = Some (JBool True))"
proof -
  from assms obtain intent h f p n where
    i: "jvalue as_string req ''intent'' ''JOIN_PARENT_TREE'' = Inr intent"
    and h: "jvalue as_bool req ''is_handler'' False = Inr h" and "jvalue as_bool req ''force_refresh'' False = Inr f"
    and "jvalue as_int req ''source_pid'' (- 1) = Inr p" and c: "check_intent intent h p = Inr ()"
    and n: "jvalue as_string req ''name'' [] = Inr n" "n \<noteq> []"
    and R: "R = \<lparr>xr_intent = intent, xr_source_pid = p, xr_force_refresh = f, xr_name = n, xr_trace_id = t\<rparr>"
    by (auto simp: exec_caller_of_def rbind_Inr_conv unit_choice_conv split: sum.splits if_splits)
  moreover have "0 < p" "intent = ''NEW_TREE'' \<longrightarrow> h" using c by (simp_all add: check_intent_def cbind_Inr_conv)
  moreover have "intent = ''NEW_TREE''" if "jget req ''intent'' = Some (JString ''NEW_TREE'')"
    using jvalue_given [OF i that] by simp
  ultimately show ?thesis using jvalue_Inr_string [OF n] jvalue_Inr_True [of req "''is_handler''"] by auto
qed

definition is_ready :: "string \<Rightarrow> build_cache \<Rightarrow> bool" where
  "is_ready key B \<longleftrightarrow>
     (\<exists>e st. tget B key = Some e \<and> be_status e = Some (Inr st) \<and> jget st ''status'' = Some (JString ''ready''))"

lemma make_build_dir_ready: "is_ready key (make_build_dir E k B) = is_ready key B"
  by (auto simp: is_ready_def make_build_dir_def new_build_entry_def)

lemma jvalue_jget: "jget j k = Some v \<Longrightarrow> jvalue conv j k d = conv v"
  by (cases j) auto

lemma read_status_conv: "read_status J B = (True, B') \<longleftrightarrow> B' = B \<and> is_ready (ej_cache_key J) B"
proof -
  have "rbind r (\<lambda>st. jvalue as_string st ''status'' []) = Inr ''ready''
      \<longleftrightarrow> (\<exists>st. r = Inr st \<and> jget st ''status'' = Some (JString ''ready''))" for r
    using jvalue_Inr_string [of _ "''status''" "''ready''"] by (auto simp: rbind_Inr_conv jvalue_jget)
  then show ?thesis
    by (auto simp: read_status_def is_ready_def jvalue_jget split: option.splits sum.splits if_splits)
qed

lemma execute_prepare_ok:
  "jvalue as_string (fst (execute_prepare run steps t)) ''status'' d = Inr ''ok'' \<Longrightarrow> \<forall>k<length steps. step_ok run k (steps ! k)"
  using execute_steps_result [of run t 0 steps] first_failure_None [of run 0 steps]
  by (auto simp: execute_prepare_def split: option.splits dest: jvalue_given)

lemma steps_no_pid: "jget (fst (execute_steps run t i steps)) ''os_pid'' = None"
  by (induction run t i steps rule: execute_steps.induct)
    (auto simp: Let_def step_exception_def step_failure_def split: sum.splits prod.splits)

lemma prepare_no_pid: "jget (fst (execute_prepare run steps t)) ''os_pid'' = None"
  by (simp add: execute_prepare_def steps_no_pid)

lemma run_prepare_ok:
  assumes "run_prepare E cfg J B = (Inr (), B')"
  shows "(\<forall>k<length (ej_steps J). step_ok (xe_run_step E (ej_env J) (ej_workdir J)) k (ej_steps J ! k))
    \<and> (tget B (ej_cache_key J) \<noteq> None \<and> xe_lock E At_Ready = None \<and> xe_write E At_Ready \<longrightarrow> is_ready (ej_cache_key J) B')"
proof -
  obtain prep lg where p: "execute_prepare (xe_run_step E (ej_env J) (ej_workdir J)) (ej_steps J) (ej_trace_id J) = (prep, lg)"
    by (meson prod.exhaust)
  from assms p have ok: "jvalue as_string prep ''status'' ''error'' = Inr ''ok''"
    by (auto simp: run_prepare_def Let_def split: sum.splits if_splits)
  have "is_ready (ej_cache_key J) B'"
    if "tget B (ej_cache_key J) \<noteq> None" "xe_lock E At_Ready = None" "xe_write E At_Ready"
    using assms p ok that
    by (auto simp: run_prepare_def Let_def take_lock_def write_status_def is_ready_def status_json_def)
  moreover have "\<forall>k<length (ej_steps J). step_ok (xe_run_step E (ej_env J) (ej_workdir J)) k (ej_steps J ! k)"
    using execute_prepare_ok [of _ _ "ej_trace_id J" "''error''"] p ok by (metis fst_conv)
  ultimately show ?thesis by blast
qed

lemma run_prepare_response:
  assumes "run_prepare E cfg J B = (Inl (j, reason), B')"
  shows "jget j ''os_pid'' = None"
proof -
  obtain prep lg where p: "execute_prepare (xe_run_step E (ej_env J) (ej_workdir J)) (ej_steps J) (ej_trace_id J) = (prep, lg)"
    by (meson prod.exhaust)
  then have "jget prep ''os_pid'' = None" using prepare_no_pid by (metis fst_conv)
  then show ?thesis
    using assms p by (auto simp: run_prepare_def Let_def prepare_error_def split: sum.splits if_splits)
qed

lemma leader_prepare_cases:
  obtains (refused) reason where "leader_prepare E cfg J B = (Inl (prepare_error (ej_trace_id J) reason, reason), snd (leader_prepare E cfg J B))"
  | (ready) "leader_prepare E cfg J B = (Inr (), make_build_dir E (ej_cache_key J) B)" "\<not> ej_force J" "is_ready (ej_cache_key J) B"
  | (run) B1 where "leader_prepare E cfg J B = run_prepare E cfg J B1" "tget B1 (ej_cache_key J) \<noteq> None"
proof -
  let ?K = "ej_cache_key J" and ?B1 = "make_build_dir E (ej_cache_key J) B"
  define go where "go = (\<lambda>B2. case take_lock E cfg J At_Preparing B2 of
      Inl e \<Rightarrow> (let reason = ''status_write_failed: '' @ what e in (Inl (prepare_error (ej_trace_id J) reason, reason), B2))
    | Inr _ \<Rightarrow> run_prepare E cfg J (write_status E J At_Preparing (status_json ''preparing'') B2))"
  have go: thesis if "leader_prepare E cfg J B = go B2" for B2
  proof (cases "take_lock E cfg J At_Preparing B2")
    case (Inl e)
    then show ?thesis using that refused by (simp add: go_def Let_def)
  next
    case (Inr u)
    then have "tget B2 ?K \<noteq> None" by (auto simp: take_lock_def split: if_splits)
    then have "tget (write_status E J At_Preparing (status_json ''preparing'') B2) ?K \<noteq> None" by (simp add: write_status_def)
    then show ?thesis using run Inr that by (simp add: go_def)
  qed
  show thesis
  proof (cases "ej_force J")
    case True
    then show ?thesis
      by (intro go [of "make_build_dir E ?K (tdel ?K ?B1)"]) (simp add: leader_prepare_def go_def Let_def)
  next
    case False
    show ?thesis
    proof (cases "take_lock E cfg J At_Read ?B1")
      case (Inl e)
      then show ?thesis using False refused [of "''status_lock_failed: '' @ what e"] by (simp add: leader_prepare_def Let_def)
    next
      case (Inr u)
      obtain r B2 where rs: "read_status J ?B1 = (r, B2)" by (meson prod.exhaust)
      show ?thesis
      proof (cases r)
        case True
        then have "B2 = ?B1" "is_ready ?K ?B1" using rs read_status_conv by auto
        then show ?thesis
          using ready False Inr rs True by (simp add: leader_prepare_def Let_def make_build_dir_ready)
      next
        case r: False
        then show ?thesis
          by (intro go [of B2]) (use False Inr rs in \<open>simp add: leader_prepare_def go_def Let_def\<close>)
      qed
    qed
  qed
qed

lemma leader_prepare_ok:
  assumes "leader_prepare E cfg J B = (Inr (), B')"
  shows "(\<not> ej_force J \<and> is_ready (ej_cache_key J) B
      \<or> (\<forall>k<length (ej_steps J). step_ok (xe_run_step E (ej_env J) (ej_workdir J)) k (ej_steps J ! k)))
    \<and> (xe_lock E At_Ready = None \<and> xe_write E At_Ready \<longrightarrow> is_ready (ej_cache_key J) B')"
proof (cases rule: leader_prepare_cases [of E cfg J B])
  case (run B1)
  then show ?thesis using assms run_prepare_ok [of E cfg J B1 B'] by auto
qed (use assms in \<open>auto simp: make_build_dir_ready\<close>)

lemma leader_prepare_response:
  assumes "leader_prepare E cfg J B = (Inl (j, reason), B')"
  shows "jget j ''os_pid'' = None"
proof (cases rule: leader_prepare_cases [of E cfg J B])
  case (run B1)
  then show ?thesis using assms run_prepare_response by metis
qed (use assms in \<open>auto simp: prepare_error_def\<close>)

text \<open>C33: A package is prepared once. When a preparation ended well and its last status could be
  written, every later request for the same content that does not ask for a refresh and gets the lock
  finds it ready: no step is run whatever the steps would do, and the cache stays as it is.\<close>

theorem prepared_once:
  assumes "leader_prepare E cfg J B = (Inr (), B')" and "xe_lock E At_Ready = None" and "xe_write E At_Ready"
    and "ej_cache_key K = ej_cache_key J" and "\<not> ej_force K" and "xe_lock E' At_Read = None"
  shows "leader_prepare E' cfg' K B' = (Inr (), B')"
proof -
  have r: "is_ready (ej_cache_key K) B'" using leader_prepare_ok [OF assms(1)] assms(2-4) by simp
  then have t: "tget B' (ej_cache_key K) \<noteq> None" by (auto simp: is_ready_def)
  then have m: "make_build_dir E' (ej_cache_key K) B' = B'" by (auto simp: make_build_dir_def)
  have l: "take_lock E' cfg' K At_Read B' = Inr ()" using t assms(6) by (simp add: take_lock_def)
  have s: "read_status K B' = (True, B')" using r by (simp add: read_status_conv)
  show ?thesis using assms(5) m l s by (simp add: leader_prepare_def Let_def)
qed

lemma exec_front_packages:
  assumes C: "packages_ok C" and f: "exec_front E cfg req t C = (r, C')"
  shows "packages_ok C' \<and> (\<forall>j. r = Inr (Inl j) \<longrightarrow> jget j ''os_pid'' = None)
    \<and> (\<forall>J. r = Inr (Inr J) \<longrightarrow> (\<exists>R params pkg. exec_caller_of req t = Inr (Inr R) \<and> package_ok (xr_name R) pkg
          \<and> jvalue as_json req ''params'' (JObject []) = Inr params \<and> make_job E cfg req R params pkg = Inr (Inr J)))"
proof (cases "exec_caller_of req t" rule: stage_cases)
  case (3 R)
  define m where "m = rbind (jvalue as_json req ''params'' (JObject [])) (\<lambda>params.
      rbind (resolve_package E (xr_name R) (xr_force_refresh R) C) (\<lambda>(found, C'). Inr (params, found, C')))"
  show ?thesis
  proof (cases m)
    case (Inl e)
    then show ?thesis using C f 3 by (auto simp: exec_front_def m_def)
  next
    case (Inr x)
    then obtain params found C1 where x: "x = (params, found, C1)" and p: "jvalue as_json req ''params'' (JObject []) = Inr params"
      and "resolve_package E (xr_name R) (xr_force_refresh R) C = Inr (found, C1)"
      by (auto simp: m_def rbind_Inr_conv)
    then have ok: "packages_ok C1 \<and> (\<forall>pkg. found = Some pkg \<longrightarrow> package_ok (xr_name R) pkg)"
      using resolve_package_ok [OF C] by blast
    show ?thesis
    proof (cases found)
      case None
      then show ?thesis using ok f 3 Inr x by (auto simp: exec_front_def m_def request_error_def)
    next
      case (Some pkg)
      have "packages_ok (write_back (xr_name R) pkg J C1)" for J
        using ok Some by (auto simp: write_back_def package_ok_def intro!: packages_ok_tput)
      then show ?thesis
        using ok f 3 Inr x p Some make_job_response [of E cfg req R params pkg]
        by (cases "make_job E cfg req R params pkg" rule: stage_cases) (auto simp: exec_front_def m_def)
    qed
  qed
qed (use C f in \<open>auto simp: exec_front_def request_error_def\<close>)

lemma executes:
  assumes h: "handle_exec_request E cfg P req X = (Inr j, X')" and pid: "jget j ''os_pid'' = Some pid"
  obtains t where "jget req ''message_type'' = Some (JString ''EXEC_VELIX_PROCESS'')"
    "exec_process E cfg req t X = (Inr j, X')"
proof -
  from h pid obtain m t where "jvalue as_string req ''message_type'' [] = Inr m" "m = ''EXEC_VELIX_PROCESS''"
      "exec_process E cfg req t X = (Inr j, X')"
    by (auto simp: handle_exec_request_def handle_cache_clean_def handle_cache_prune_def request_error_def Let_def
        rbind_Inr_conv split: sum.splits if_splits prod.splits)
  then show ?thesis using jvalue_Inr_string that by blast
qed


definition demo_exec :: exec_env where
  "demo_exec = \<lparr>xe_rt = demo_rt, xe_manifest = (\<lambda>_. None), xe_files = (\<lambda>_. []), xe_is_directory = (\<lambda>_. True),
     xe_dump = (\<lambda>_. []), xe_port = (\<lambda>_ d. d), xe_setting = (\<lambda>_ d. d), xe_context = None, xe_cwd = ''/w'',
     xe_absolute = (\<lambda>p. p), xe_pythonpath = None, xe_mkdir = True, xe_lock = (\<lambda>_. None), xe_write = (\<lambda>_. True),
     xe_run_step = (\<lambda>_ _. demo_runner), xe_spawn = (\<lambda>_ _ _. Inr (7, []))\<rparr>"

definition demo_manifest :: json where
  "demo_manifest = jobj [(''name'', JString ''x''), (''runtime'', JString ''cpp''), (''run'', jobj [(''command'', JString ''./x'')])]"

definition demo_package :: cached_package where
  "demo_package = \<lparr>cp_path = ''tools/x'', cp_manifest = demo_manifest, cp_cache_key = ''k''\<rparr>"

definition demo_executioner :: executioner where
  "demo_executioner = \<lparr>xs_packages = [(''x'', demo_package)], xs_builds = []\<rparr>"

definition demo_exec_request :: json where
  "demo_exec_request = jobj [(''message_type'', JString ''EXEC_VELIX_PROCESS''), (''source_pid'', JInt 3), (''name'', JString ''x'')]"

definition demo_caller :: exec_caller where
  "demo_caller = \<lparr>xr_intent = ''JOIN_PARENT_TREE'', xr_source_pid = 3, xr_force_refresh = False, xr_name = ''x'', xr_trace_id = []\<rparr>"

definition demo_exec_job :: "(string \<times> string) list \<Rightarrow> runtime_resolution \<Rightarrow> exec_job" where
  "demo_exec_job env rt = \<lparr>ej_cache_key = ''k'', ej_steps = [], ej_env = env, ej_workdir = ''tools/x/'', ej_trace_id = [],
     ej_runtime = rt, ej_force = False\<rparr>"

lemma demo_package_ok: "package_ok ''x'' demo_package"
  unfolding package_ok_def by code_simp

lemma demo_front:
  "\<exists>env rt. exec_front demo_exec ExecutionerConfig demo_exec_request [] (xs_packages demo_executioner)
     = (Inr (Inr (demo_exec_job env rt)), xs_packages demo_executioner)"
proof -
  have c: "exec_caller_of demo_exec_request [] = Inr (Inr demo_caller)" by code_simp
  have p: "jvalue as_json demo_exec_request ''params'' (JObject []) = Inr (JObject [])" by code_simp
  have "case select_runtime_adapter demo_rt demo_manifest ''tools/x/'' of
      Inr (Inr rt) \<Rightarrow> rr_injected_prepare_steps rt = [] | _ \<Rightarrow> False" by code_simp
  then obtain rt where rt: "select_runtime_adapter demo_rt demo_manifest ''tools/x/'' = Inr (Inr rt)" "rr_injected_prepare_steps rt = []"
    by (auto split: sum.splits)
  have m: "jvalue as_json demo_manifest ''parameters'' (JObject []) = Inr (JObject [])"
    "jvalue as_string demo_manifest ''workdir'' ''.'' = Inr ''.''" "parse_prepare_steps demo_manifest 300000 = Inr (Inr [])"
    "validate_params (JObject []) (JObject []) = Inr (Inr ())" "lexically_normal (path_join ''tools/x'' ''.'') = ''tools/x/''"
    "jvalue as_string demo_exec_request ''tree_id'' [] = Inr []" "jvalue as_string demo_exec_request ''user_id'' [] = Inr []"
    by code_simp+
  have "make_job demo_exec ExecutionerConfig demo_exec_request demo_caller (JObject []) demo_package
      = Inr (Inr (demo_exec_job (build_env demo_exec demo_caller [] [] (JObject []) demo_package rt) rt))"
    using m rt
    by (simp add: make_job_def demo_package_def demo_exec_def ExecutionerConfig_def ensure_def reading_def refusing_def
        sbind_def demo_exec_job_def demo_caller_def Let_def)
  then show ?thesis
    using c p by (auto simp: exec_front_def resolve_package_def demo_executioner_def demo_caller_def write_back_def demo_package_def)
qed

definition demo_builds :: build_cache where
  "demo_builds = [(''k'', \<lparr>be_is_dir = True, be_status = Some (Inr (status_json ''ready'')), be_log = []\<rparr>)]"

lemma demo_prepare: "leader_prepare demo_exec cfg (demo_exec_job env rt) [] = (Inr (), demo_builds)"
  by (simp add: leader_prepare_def make_build_dir_def demo_exec_def demo_exec_job_def take_lock_def read_status_def
      new_build_entry_def run_prepare_def execute_prepare_def write_status_def tmodify_def status_json_def demo_builds_def Let_def)

definition demo_prune :: prune_env where
  "demo_prune = \<lparr>pe_age = (\<lambda>_. None), pe_removable = (\<lambda>_. True)\<rparr>"


definition demo_resolution :: runtime_resolution where
  "demo_resolution = \<lparr>rr_runtime = ''cpp'', rr_version = ''1'', rr_run_command = ''./x'', rr_run_args = [],
     rr_injected_prepare_steps = [], rr_env_overrides = []\<rparr>"

lemma prepared_once_witness:
  "leader_prepare demo_exec ExecutionerConfig (demo_exec_job [] demo_resolution) demo_builds = (Inr (), demo_builds)"
  by (rule prepared_once [OF demo_prepare [of ExecutionerConfig]]) (simp_all add: demo_exec_def demo_exec_job_def)

section \<open>Findings\<close>

text \<open>The lock wait is not raised when a later entry of the file is malformed.\<close>

lemma lock_wait_below_prepare:
  "xc_cache_lock_wait_ms (load_exec_config (Some (Inr (jobj [(''prepare_timeout_ms'', JInt 400000), (''cache_lock_wait_ms'', JString [])]))))
     < xc_prepare_timeout_ms (load_exec_config (Some (Inr (jobj [(''prepare_timeout_ms'', JInt 400000), (''cache_lock_wait_ms'', JString [])]))))"
  by (simp add: load_exec_config_def exec_config_steps_def ExecutionerConfig_def to_int32_def)

text \<open>The type \<open>integer\<close> of JSON schemas is unknown to the check and accepts everything.\<close>

lemma integer_type_unchecked: "type_matches ''integer'' v"
  by (simp add: type_matches_def)

text \<open>The entry file of a package with a working directory of its own is looked for in the package
  directory first: without one there, the package is not found.\<close>

lemma workdir_entry_not_found:
  assumes "find_package E name = Some p" and "xe_manifest E (p @ ''/manifest.json'') = Some (Inr m)"
    and "validate_manifest name m = Inr ()"
    and "select_runtime_adapter (xe_rt E) m p = Inr (Inl e)" and "name \<noteq> []" and "tget C name = None"
  shows "resolve_package E name force C = Inr (None, C)"
  using assms by (simp add: resolve_package_def load_package_def)

text \<open>A cached package is served whatever changed on disk.\<close>

lemma cached_package_not_checked:
  assumes "tget C name = Some pkg" and "name \<noteq> []"
  shows "resolve_package E name False C = Inr (Some pkg, C)"
  using assms by (simp add: resolve_package_def)

end
