(* ===== verification/Prepare_Coalescer.thy ===== *)
theory Prepare_Coalescer
  imports Executioner
begin

text \<open>
  \<open>PrepareCoalescer\<close> of \<^verbatim>\<open>execution/executioner.cpp\<close> with the threads that use it: one thread prepares a
  cache key, the others that come for it wait for its result. A step is one section under a lock; how
  the leader's preparation ends is left open, so the statements hold for every end of it.
\<close>

section \<open>Slots and threads\<close>

datatype prepare_slot = Slot_Preparing | Slot_Ready | Slot_Failed string

text \<open>A thread of the pool: without a request, preparing as leader, having set the slot but not yet erased
  its key, waiting as follower, past the preparation, or with its response.\<close>

datatype exec_thread =
    X_Idle
  | X_Leader exec_job nat
  | X_Closing exec_job nat prepare_end
  | X_Waiting exec_job nat
  | X_Launch exec_job
  | X_Answer json

record coalescer =
  co_slots :: "prepare_slot list"
  co_map :: "(string, nat) table"
  co_threads :: "nat \<Rightarrow> exec_thread"
  co_ended :: "(string \<times> prepare_end) list"

definition enter :: "string \<Rightarrow> coalescer \<Rightarrow> (nat \<times> bool) \<times> coalescer" where
  "enter key s =
     (case tget (co_map s) key of
        Some slot \<Rightarrow> ((slot, False), s)
      | None \<Rightarrow>
          (let slot = length (co_slots s)
           in ((slot, True), s\<lparr>co_slots := co_slots s @ [Slot_Preparing], co_map := tput key slot (co_map s)\<rparr>)))"

text \<open>The first section of \<open>finish\<close> and \<open>fail\<close>, and their second one.\<close>

definition set_slot :: "nat \<Rightarrow> prepare_end \<Rightarrow> coalescer \<Rightarrow> coalescer" where
  "set_slot slot e s =
     s\<lparr>co_slots := (co_slots s)[slot := (case e of Inr _ \<Rightarrow> Slot_Ready | Inl (_, reason) \<Rightarrow> Slot_Failed reason)]\<rparr>"

definition erase :: "string \<Rightarrow> coalescer \<Rightarrow> coalescer" where
  "erase key s = s\<lparr>co_map := tdel key (co_map s)\<rparr>"

text \<open>\<open>wait\<close>: \<open>None\<close> while the thread stays blocked. At the deadline a slot that is still in preparation is an
  error.\<close>

definition wait :: "nat \<Rightarrow> bool \<Rightarrow> coalescer \<Rightarrow> unit choice option" where
  "wait slot deadline s =
     (case co_slots s ! slot of
        Slot_Preparing \<Rightarrow> if deadline then Some (Inl ''prepare_peer_timeout'') else None
      | Slot_Ready \<Rightarrow> Some (Inr ())
      | Slot_Failed e \<Rightarrow> Some (Inl e))"

definition peer_error :: "exec_job \<Rightarrow> string \<Rightarrow> json" where
  "peer_error J e = prepare_error (ej_trace_id J) (''prepare_failed_by_peer: '' @ e)"

definition set_thread :: "nat \<Rightarrow> exec_thread \<Rightarrow> coalescer \<Rightarrow> coalescer" where
  "set_thread t p s = s\<lparr>co_threads := (co_threads s)(t := p)\<rparr>"

inductive coal_step :: "coalescer \<Rightarrow> coalescer \<Rightarrow> bool" where
  lead: "co_threads s t = X_Idle \<Longrightarrow> enter (ej_cache_key J) s = ((slot, True), s')
     \<Longrightarrow> coal_step s (set_thread t (X_Leader J slot) s')"
| follow: "co_threads s t = X_Idle \<Longrightarrow> enter (ej_cache_key J) s = ((slot, False), s')
     \<Longrightarrow> coal_step s (set_thread t (X_Waiting J slot) s')"
| report: "co_threads s t = X_Leader J slot
     \<Longrightarrow> coal_step s (set_thread t (X_Closing J slot e) ((set_slot slot e s)\<lparr>co_ended := (ej_cache_key J, e) # co_ended s\<rparr>))"
| close_ready: "co_threads s t = X_Closing J slot (Inr u)
     \<Longrightarrow> coal_step s (set_thread t (X_Launch J) (erase (ej_cache_key J) s))"
| close_failed: "co_threads s t = X_Closing J slot (Inl (response, reason))
     \<Longrightarrow> coal_step s (set_thread t (X_Answer response) (erase (ej_cache_key J) s))"
| wake_ready: "co_threads s t = X_Waiting J slot \<Longrightarrow> wait slot deadline s = Some (Inr u)
     \<Longrightarrow> coal_step s (set_thread t (X_Launch J) s)"
| wake_failed: "co_threads s t = X_Waiting J slot \<Longrightarrow> wait slot deadline s = Some (Inl e)
     \<Longrightarrow> coal_step s (set_thread t (X_Answer (peer_error J e)) s)"
| start: "co_threads s t = X_Launch J \<Longrightarrow> coal_step s (set_thread t (X_Answer (job_launch E J)) s)"
| send: "co_threads s t = X_Answer j \<Longrightarrow> coal_step s (set_thread t X_Idle s)"

definition coal_start :: "coalescer \<Rightarrow> bool" where
  "coal_start s \<longleftrightarrow> co_slots s = [] \<and> co_map s = [] \<and> (\<forall>t. co_threads s t = X_Idle) \<and> co_ended s = []"

section \<open>The invariant\<close>

text \<open>The key and slot a thread answers for until it erases them.\<close>

fun holds_slot :: "exec_thread \<Rightarrow> (string \<times> nat) option" where
  "holds_slot (X_Leader J slot) = Some (ej_cache_key J, slot)"
| "holds_slot (X_Closing J slot e) = Some (ej_cache_key J, slot)"
| "holds_slot _ = None"

definition slot_of_end :: "prepare_end \<Rightarrow> prepare_slot" where
  "slot_of_end e = (case e of Inr _ \<Rightarrow> Slot_Ready | Inl (_, reason) \<Rightarrow> Slot_Failed reason)"

text \<open>The map holds exactly the keys of the threads that answer for them, and no two threads answer for
  one slot.\<close>

definition owned :: "(nat \<Rightarrow> (string \<times> nat) option) \<Rightarrow> (string \<Rightarrow> nat option) \<Rightarrow> nat \<Rightarrow> bool" where
  "owned H m n \<longleftrightarrow>
     (\<forall>k l. m k = Some l \<longleftrightarrow> (\<exists>t. H t = Some (k, l)))
   \<and> (\<forall>t k l. H t = Some (k, l) \<longrightarrow> l < n)
   \<and> (\<forall>t u k k' l. H t = Some (k, l) \<and> H u = Some (k', l) \<longrightarrow> t = u)"

lemma owned_unique: "owned H m n \<Longrightarrow> H t = Some (k, l) \<Longrightarrow> H u = Some (k, l') \<Longrightarrow> t = u"
  unfolding owned_def by (metis option.inject)

lemma owned_add:
  assumes o: "owned H m n" and "H t = None" and "m k = None"
  shows "owned (H(t := Some (k, n))) (m(k := Some n)) (Suc n)"
proof -
  have lt: "l < n" "k' \<noteq> k" "u \<noteq> t" if "H u = Some (k', l)" for u k' l
    using assms that unfolding owned_def by (metis option.distinct(1))+
  show ?thesis
    unfolding owned_def
  proof (intro conjI allI impI)
    fix k' l
    show "(m(k := Some n)) k' = Some l \<longleftrightarrow> (\<exists>u. (H(t := Some (k, n))) u = Some (k', l))"
    proof (cases "k' = k")
      case True
      then show ?thesis using lt(2) by auto
    next
      case False
      then have "(m(k := Some n)) k' = Some l \<longleftrightarrow> (\<exists>u. H u = Some (k', l))" using o by (simp add: owned_def)
      also have "\<dots> \<longleftrightarrow> (\<exists>u. (H(t := Some (k, n))) u = Some (k', l))" using lt(3) False by (metis fun_upd_apply option.inject prod.inject)
      finally show ?thesis .
    qed
  next
    fix u k' l
    assume "(H(t := Some (k, n))) u = Some (k', l)"
    then show "l < Suc n" using lt(1) by (auto split: if_splits intro: less_SucI)
  next
    fix u v k1 k2 l
    assume "(H(t := Some (k, n))) u = Some (k1, l) \<and> (H(t := Some (k, n))) v = Some (k2, l)"
    then show "u = v" using o lt(1) by (auto simp: owned_def split: if_splits)
  qed
qed

lemma owned_remove:
  assumes o: "owned H m n" and t: "H t = Some (k, l)"
  shows "owned (H(t := None)) (m(k := None)) n"
proof -
  have other: "u = t" if "H u = Some (k, l')" for u l' using owned_unique [OF o that t] .
  have "(m(k := None)) k' = Some l' \<longleftrightarrow> (\<exists>u. (H(t := None)) u = Some (k', l'))" for k' l'
  proof (cases "k' = k")
    case True
    then show ?thesis using other by auto
  next
    case False
    then have "(m(k := None)) k' = Some l' \<longleftrightarrow> (\<exists>u. H u = Some (k', l'))" using o by (simp add: owned_def)
    also have "\<dots> \<longleftrightarrow> (\<exists>u. (H(t := None)) u = Some (k', l'))" using t False by (metis fun_upd_apply option.inject option.distinct(1) prod.inject)
    finally show ?thesis .
  qed
  moreover have "H u = Some (k', l')" if "(H(t := None)) u = Some (k', l')" for u k' l'
    using that by (simp split: if_splits)
  ultimately show ?thesis using o unfolding owned_def by blast
qed

definition map_inv :: "coalescer \<Rightarrow> bool" where
  "map_inv s \<longleftrightarrow> owned (\<lambda>t. holds_slot (co_threads s t)) (tget (co_map s)) (length (co_slots s))"

text \<open>The state of a slot is the one its thread gave it.\<close>

definition slot_inv :: "coalescer \<Rightarrow> bool" where
  "slot_inv s \<longleftrightarrow>
     (\<forall>t J slot. co_threads s t = X_Leader J slot \<longrightarrow> co_slots s ! slot = Slot_Preparing)
   \<and> (\<forall>t J slot e. co_threads s t = X_Closing J slot e \<longrightarrow>
        co_slots s ! slot = slot_of_end e \<and> (ej_cache_key J, e) \<in> set (co_ended s))"

text \<open>What a waiting thread finds: a leader of its key, or the end of a preparation of its key.\<close>

definition wait_ok :: "coalescer \<Rightarrow> exec_job \<Rightarrow> nat \<Rightarrow> bool" where
  "wait_ok s J slot \<longleftrightarrow> slot < length (co_slots s)
     \<and> (co_slots s ! slot = Slot_Preparing \<and> (\<exists>u K. co_threads s u = X_Leader K slot \<and> ej_cache_key K = ej_cache_key J)
        \<or> (\<exists>e. co_slots s ! slot = slot_of_end e \<and> (ej_cache_key J, e) \<in> set (co_ended s)))"

definition wait_inv :: "coalescer \<Rightarrow> bool" where
  "wait_inv s \<longleftrightarrow> (\<forall>t J slot. co_threads s t = X_Waiting J slot \<longrightarrow> wait_ok s J slot)
   \<and> (\<forall>t J. co_threads s t = X_Launch J \<longrightarrow> (ej_cache_key J, Inr ()) \<in> set (co_ended s))"

definition coal_inv :: "coalescer \<Rightarrow> bool" where
  "coal_inv s \<longleftrightarrow> map_inv s \<and> slot_inv s \<and> wait_inv s"

lemma set_thread_simps [simp]:
  "co_slots (set_thread t p s) = co_slots s" "co_map (set_thread t p s) = co_map s" "co_ended (set_thread t p s) = co_ended s"
  "co_threads (set_thread t p s) u = (if u = t then p else co_threads s u)"
  by (simp_all add: set_thread_def)

lemma slot_of_end_simps [simp]:
  "slot_of_end e \<noteq> Slot_Preparing" "slot_of_end e = Slot_Ready \<longleftrightarrow> e = Inr ()"
  by (auto simp: slot_of_end_def split: sum.splits prod.splits)

lemma holds_leader: "co_threads s t = X_Leader J slot \<Longrightarrow> holds_slot (co_threads s t) = Some (ej_cache_key J, slot)"
  by simp

lemma map_inv_kept:
  assumes "map_inv s" and "holds_slot p = holds_slot (co_threads s t)"
    and "co_map s' = co_map s" "length (co_slots s') = length (co_slots s)" "co_threads s' = co_threads s"
  shows "map_inv (set_thread t p s')"
proof -
  have "(\<lambda>u. holds_slot (co_threads (set_thread t p s') u)) = (\<lambda>u. holds_slot (co_threads s u))" using assms by auto
  then show ?thesis using assms by (simp add: map_inv_def)
qed

lemma wait_ok_leader:
  "l < length (co_slots s) \<Longrightarrow> co_slots s ! l = Slot_Preparing \<Longrightarrow> co_threads s u = X_Leader K l
     \<Longrightarrow> ej_cache_key K = ej_cache_key J \<Longrightarrow> wait_ok s J l"
  by (auto simp: wait_ok_def)

lemma wait_ok_ended:
  "l < length (co_slots s) \<Longrightarrow> co_slots s ! l = slot_of_end e \<Longrightarrow> (ej_cache_key J, e) \<in> set (co_ended s) \<Longrightarrow> wait_ok s J l"
  by (auto simp: wait_ok_def)

text \<open>A step of a thread that is no leader, which keeps the slots there are.\<close>

lemma wait_inv_change:
  assumes inv: "wait_inv s" and "\<forall>J l. co_threads s t \<noteq> X_Leader J l"
    and "length (co_slots s) \<le> length (co_slots s')" and "\<forall>l<length (co_slots s). co_slots s' ! l = co_slots s ! l"
    and "co_ended s' = co_ended s" and "co_threads s' = co_threads s"
    and "\<And>J l. p = X_Waiting J l \<Longrightarrow> wait_ok (set_thread t p s') J l"
    and "\<And>J. p = X_Launch J \<Longrightarrow> (ej_cache_key J, Inr ()) \<in> set (co_ended s)"
  shows "wait_inv (set_thread t p s')"
proof -
  have "wait_ok (set_thread t p s') J l" if "wait_ok s J l" for J l
    using that assms(2-6) unfolding wait_ok_def set_thread_simps by (metis order_less_le_trans)
  then show ?thesis using inv assms(5-8) unfolding wait_inv_def set_thread_simps by (metis (full_types))
qed

lemma slot_inv_change:
  assumes "slot_inv s" and "\<forall>l<length (co_slots s). co_slots s' ! l = co_slots s ! l"
    and "co_ended s' = co_ended s" and "co_threads s' = co_threads s" and "map_inv s"
    and "\<And>J l. p = X_Leader J l \<Longrightarrow> co_slots s' ! l = Slot_Preparing" and "\<And>J l e. p \<noteq> X_Closing J l e"
  shows "slot_inv (set_thread t p s')"
proof -
  have "co_slots s' ! l = co_slots s ! l" if "holds_slot (co_threads s u) = Some (k, l)" for u k l
    using assms(2,5) that by (auto simp: map_inv_def owned_def)
  then show ?thesis
    using assms unfolding slot_inv_def set_thread_simps by (metis holds_slot.simps(1,2))
qed

lemma coal_inv_lead:
  assumes inv: "coal_inv s" and t: "co_threads s t = X_Idle" and e: "enter (ej_cache_key J) s = ((slot, True), s')"
  shows "coal_inv (set_thread t (X_Leader J slot) s')"
proof -
  let ?u = "set_thread t (X_Leader J slot) s'"
  have n: "tget (co_map s) (ej_cache_key J) = None" and slot: "slot = length (co_slots s)"
    and s': "s' = s\<lparr>co_slots := co_slots s @ [Slot_Preparing], co_map := tput (ej_cache_key J) slot (co_map s)\<rparr>"
    using e by (auto simp: enter_def Let_def split: option.splits)
  have "(\<lambda>u. holds_slot (co_threads ?u u)) = (\<lambda>u. holds_slot (co_threads s u))(t := Some (ej_cache_key J, slot))"
    "tget (co_map ?u) = (tget (co_map s))(ej_cache_key J := Some slot)" "length (co_slots ?u) = Suc slot"
    by (auto simp: s' slot)
  then have "map_inv ?u"
    using owned_add [of "\<lambda>u. holds_slot (co_threads s u)" "tget (co_map s)" slot t "ej_cache_key J"] inv n t slot
    unfolding map_inv_def coal_inv_def by (simp del: fun_upd_apply)
  moreover have "slot_inv ?u"
    by (rule slot_inv_change [of s]) (use inv slot in \<open>auto simp: s' coal_inv_def nth_append\<close>)
  moreover have "wait_inv ?u"
    by (rule wait_inv_change [of s]) (use inv t in \<open>auto simp: s' coal_inv_def nth_append\<close>)
  ultimately show ?thesis by (simp add: coal_inv_def)
qed

lemma coal_inv_follow:
  assumes inv: "coal_inv s" and t: "co_threads s t = X_Idle" and e: "enter (ej_cache_key J) s = ((slot, False), s')"
  shows "coal_inv (set_thread t (X_Waiting J slot) s')"
proof -
  have n: "tget (co_map s) (ej_cache_key J) = Some slot" and s': "s' = s"
    using e by (auto simp: enter_def Let_def split: option.splits)
  then obtain u where u: "holds_slot (co_threads s u) = Some (ej_cache_key J, slot)" and l: "slot < length (co_slots s)"
    using inv by (auto simp: coal_inv_def map_inv_def owned_def)
  have "wait_ok (set_thread t (X_Waiting J slot) s) J slot"
    using u
  proof (cases "co_threads s u")
    case (X_Leader K l')
    then show ?thesis using inv u l t by (intro wait_ok_leader [of _ _ u K]) (auto simp: coal_inv_def slot_inv_def)
  next
    case (X_Closing K l' e)
    then have "(ej_cache_key K, e) \<in> set (co_ended s)" "co_slots s ! l' = slot_of_end e"
      using inv unfolding coal_inv_def slot_inv_def by blast+
    then show ?thesis using X_Closing u l by (intro wait_ok_ended [of _ _ e]) auto
  qed simp_all
  then have "wait_inv (set_thread t (X_Waiting J slot) s)"
    by (intro wait_inv_change [of s]) (use inv t in \<open>auto simp: coal_inv_def\<close>)
  moreover have "map_inv (set_thread t (X_Waiting J slot) s)"
    by (rule map_inv_kept [of s]) (use inv t in \<open>auto simp: coal_inv_def\<close>)
  moreover have "slot_inv (set_thread t (X_Waiting J slot) s)"
    by (rule slot_inv_change [of s]) (use inv in \<open>auto simp: coal_inv_def\<close>)
  ultimately show ?thesis by (simp add: coal_inv_def s')
qed

lemma coal_inv_report:
  assumes inv: "coal_inv s" and t: "co_threads s t = X_Leader J slot"
  shows "coal_inv (set_thread t (X_Closing J slot e) ((set_slot slot e s)\<lparr>co_ended := (ej_cache_key J, e) # co_ended s\<rparr>))"
    (is "coal_inv ?u")
proof -
  have own: "owned (\<lambda>t. holds_slot (co_threads s t)) (tget (co_map s)) (length (co_slots s))"
    using inv by (simp add: coal_inv_def map_inv_def)
  have l: "slot < length (co_slots s)" using own holds_leader [OF t] unfolding owned_def by blast
  have sl: "co_slots ?u = (co_slots s)[slot := slot_of_end e]" by (simp add: set_slot_def slot_of_end_def)
  have other: "k \<noteq> slot" if "holds_slot (co_threads s u) = Some (key, k)" "u \<noteq> t" for u key k
    using own that holds_leader [OF t] unfolding owned_def by blast
  have "map_inv ?u"
    by (rule map_inv_kept [of s]) (use inv t in \<open>auto simp: coal_inv_def set_slot_def\<close>)
  moreover have "slot_inv ?u"
    using inv other l unfolding coal_inv_def slot_inv_def sl
    by (simp add: nth_list_update set_slot_def) (metis holds_slot.simps(1,2))
  moreover have "wait_ok ?u K k" if w: "wait_ok s K k" for K k
  proof (cases "k = slot")
    case True
    have "co_slots s ! slot = Slot_Preparing" using inv t by (auto simp: coal_inv_def slot_inv_def)
    then obtain u L where u: "co_threads s u = X_Leader L slot" "ej_cache_key L = ej_cache_key K"
      using w True unfolding wait_ok_def by (metis slot_of_end_simps(1))
    then have "u = t" using other [OF holds_leader [OF u(1)]] by blast
    then have "ej_cache_key K = ej_cache_key J" using u t by simp
    then show ?thesis using True l unfolding wait_ok_def sl by auto
  next
    case False
    then have "co_threads ?u u = X_Leader L k" if "co_threads s u = X_Leader L k" for u L
      using that t by (auto simp: set_slot_def)
    moreover from w have kl: "k < length (co_slots ?u)" "co_slots ?u ! k = co_slots s ! k"
      using False unfolding sl by (auto simp: wait_ok_def)
    moreover have "set (co_ended s) \<subseteq> set (co_ended ?u)" by auto
    ultimately show ?thesis
      using w wait_ok_leader [OF kl(1)] wait_ok_ended [OF kl(1)] unfolding wait_ok_def [of s] kl(2) by blast
  qed
  then have "wait_inv ?u"
    using inv unfolding coal_inv_def wait_inv_def by (auto simp: set_slot_def)
  ultimately show ?thesis by (simp add: coal_inv_def)
qed

lemma coal_inv_close:
  assumes inv: "coal_inv s" and t: "co_threads s t = X_Closing J slot e" and p: "holds_slot p = None"
    and "\<And>K l. p \<noteq> X_Waiting K l" and "\<And>K. p = X_Launch K \<Longrightarrow> (ej_cache_key K, Inr ()) \<in> set (co_ended s)"
  shows "coal_inv (set_thread t p (erase (ej_cache_key J) s))" (is "coal_inv ?u")
proof -
  have "(\<lambda>u. holds_slot (co_threads ?u u)) = (\<lambda>u. holds_slot (co_threads s u))(t := None)"
    "tget (co_map ?u) = (tget (co_map s))(ej_cache_key J := None)" "co_slots ?u = co_slots s"
    using p by (auto simp: erase_def)
  then have "map_inv ?u"
    using owned_remove [of "\<lambda>u. holds_slot (co_threads s u)" "tget (co_map s)" "length (co_slots s)" t "ej_cache_key J" slot] inv t
    unfolding map_inv_def coal_inv_def by (simp del: fun_upd_apply)
  moreover have "slot_inv ?u"
    by (rule slot_inv_change [of s]) (use inv p in \<open>auto simp: coal_inv_def erase_def\<close>)
  moreover have "wait_inv ?u"
    by (rule wait_inv_change [of s]) (use inv t assms(4,5) in \<open>auto simp: coal_inv_def erase_def\<close>)
  ultimately show ?thesis by (simp add: coal_inv_def)
qed

text \<open>Steps of threads that hold no slot before or after.\<close>

lemma coal_inv_move:
  assumes inv: "coal_inv s" and t: "holds_slot (co_threads s t) = None" and p: "holds_slot p = None"
    and "\<And>K l. p \<noteq> X_Waiting K l" and "\<And>K. p = X_Launch K \<Longrightarrow> (ej_cache_key K, Inr ()) \<in> set (co_ended s)"
  shows "coal_inv (set_thread t p s)"
proof -
  have "map_inv (set_thread t p s)" by (rule map_inv_kept [of s]) (use inv t p in \<open>auto simp: coal_inv_def\<close>)
  moreover have "slot_inv (set_thread t p s)"
    by (rule slot_inv_change [of s]) (use inv p in \<open>auto simp: coal_inv_def\<close>)
  moreover have "wait_inv (set_thread t p s)"
    by (rule wait_inv_change [of s]) (use inv t assms(4,5) in \<open>auto simp: coal_inv_def\<close>)
  ultimately show ?thesis by (simp add: coal_inv_def)
qed

lemma woken_ready:
  assumes "coal_inv s" and "co_threads s t = X_Waiting J slot" and "wait slot deadline s = Some (Inr u)"
  shows "(ej_cache_key J, Inr ()) \<in> set (co_ended s)"
proof -
  have "wait_ok s J slot" using assms(1,2) by (auto simp: coal_inv_def wait_inv_def)
  moreover have "co_slots s ! slot = Slot_Ready"
    using assms(3) by (auto simp: wait_def split: prepare_slot.splits if_splits)
  ultimately show ?thesis unfolding wait_ok_def by (metis prepare_slot.distinct(1) slot_of_end_simps(2))
qed

interpretation coal: inductive_invariant coal_start coal_step coal_inv
proof
  show "coal_inv s" if "coal_start s" for s
    using that by (auto simp: coal_start_def coal_inv_def map_inv_def owned_def slot_inv_def wait_inv_def)
  show "coal_inv s'" if inv: "coal_inv s" and step: "coal_step s s'" for s s'
    using step
  proof cases
    case (lead t J slot s1)
    then show ?thesis using coal_inv_lead [OF inv] by simp
  next
    case (follow t J slot s1)
    then show ?thesis using coal_inv_follow [OF inv] by simp
  next
    case (report t J slot e)
    then show ?thesis using coal_inv_report [OF inv] by simp
  next
    case (close_ready t J slot u)
    then have "(ej_cache_key J, Inr u) \<in> set (co_ended s)" using inv unfolding coal_inv_def slot_inv_def by blast
    then show ?thesis unfolding close_ready(1) by (intro coal_inv_close [OF inv close_ready(2)]) auto
  next
    case (close_failed t J slot response reason)
    show ?thesis unfolding close_failed(1) by (intro coal_inv_close [OF inv close_failed(2)]) auto
  next
    case (wake_ready t J slot deadline u)
    then show ?thesis
      using woken_ready [OF inv wake_ready(2,3)] unfolding wake_ready(1) by (intro coal_inv_move [OF inv]) auto
  qed (auto intro!: coal_inv_move [OF inv])
qed

section \<open>What is shown\<close>

text \<open>C8: Concurrent requests for one package. In every interleaving at most one thread prepares a cache
  key, and the key is in the map exactly as long as a thread answers for it; a waiting thread finds its
  slot in preparation only while a leader of its key is at work, so it is not left behind, and a
  thread goes on to launch only after some leader of its key ended with success.\<close>

theorem one_preparation_per_key:
  assumes "reach coal_start coal_step s"
  shows "(\<forall>t u J K l k. co_threads s t = X_Leader J l \<and> co_threads s u = X_Leader K k \<and> ej_cache_key J = ej_cache_key K \<longrightarrow> t = u)
    \<and> (\<forall>key. tget (co_map s) key \<noteq> None \<longleftrightarrow> (\<exists>t l. holds_slot (co_threads s t) = Some (key, l)))
    \<and> (\<forall>t J l. co_threads s t = X_Waiting J l \<and> wait l False s = None
         \<longrightarrow> (\<exists>u K. co_threads s u = X_Leader K l \<and> ej_cache_key K = ej_cache_key J))
    \<and> (\<forall>t J. co_threads s t = X_Launch J \<longrightarrow> (ej_cache_key J, Inr ()) \<in> set (co_ended s))"
proof (intro conjI)
  have inv: "coal_inv s" by (rule coal.reach_inv [OF assms])
  then have own: "owned (\<lambda>t. holds_slot (co_threads s t)) (tget (co_map s)) (length (co_slots s))"
    by (simp add: coal_inv_def map_inv_def)
  show "\<forall>t u J K l k. co_threads s t = X_Leader J l \<and> co_threads s u = X_Leader K k \<and> ej_cache_key J = ej_cache_key K \<longrightarrow> t = u"
    using owned_unique [OF own] holds_leader by metis
  show "\<forall>key. tget (co_map s) key \<noteq> None \<longleftrightarrow> (\<exists>t l. holds_slot (co_threads s t) = Some (key, l))"
    using own unfolding owned_def by (metis not_None_eq)
  show "\<forall>t J l. co_threads s t = X_Waiting J l \<and> wait l False s = None
      \<longrightarrow> (\<exists>u K. co_threads s u = X_Leader K l \<and> ej_cache_key K = ej_cache_key J)"
    using inv slot_of_end_simps(1) unfolding coal_inv_def wait_inv_def wait_ok_def wait_def
    by (fastforce split: prepare_slot.splits)
  show "\<forall>t J. co_threads s t = X_Launch J \<longrightarrow> (ej_cache_key J, Inr ()) \<in> set (co_ended s)"
    using inv by (auto simp: coal_inv_def wait_inv_def)
qed

definition coal_empty :: coalescer where
  "coal_empty = \<lparr>co_slots = [], co_map = [], co_threads = (\<lambda>_. X_Idle), co_ended = []\<rparr>"

definition demo_coal :: coalescer where
  "demo_coal = set_thread 1 (X_Waiting (demo_exec_job [] demo_resolution) 0)
     (set_thread 0 (X_Leader (demo_exec_job [] demo_resolution) 0) (snd (enter ''k'' coal_empty)))"

lemma one_preparation_per_key_witness:
  "reach coal_start coal_step demo_coal \<and> wait 0 False demo_coal = None
     \<and> (\<exists>u K. co_threads demo_coal u = X_Leader K 0 \<and> ej_cache_key K = ''k'')"
proof -
  let ?J = "demo_exec_job [] demo_resolution"
  let ?s = "set_thread 0 (X_Leader ?J 0) (snd (enter ''k'' coal_empty))"
  have k: "ej_cache_key ?J = ''k''" by (simp add: demo_exec_job_def)
  have "reach coal_start coal_step coal_empty" by (rule reach_init) (simp add: coal_start_def coal_empty_def)
  moreover have "coal_step coal_empty ?s"
    by (rule lead) (simp_all add: k coal_empty_def enter_def)
  moreover have "coal_step ?s demo_coal" unfolding demo_coal_def
    by (rule follow) (simp_all add: k coal_empty_def enter_def set_thread_def)
  ultimately have r: "reach coal_start coal_step demo_coal" by (blast intro: reach_step)
  have w: "wait 0 False demo_coal = None" by (simp add: wait_def demo_coal_def coal_empty_def enter_def set_thread_def)
  have "co_threads demo_coal 1 = X_Waiting ?J 0" by (simp add: demo_coal_def)
  then have "\<exists>u K. co_threads demo_coal u = X_Leader K 0 \<and> ej_cache_key K = ''k''"
    using one_preparation_per_key [OF r] w k by metis
  with r w show ?thesis by blast
qed

text \<open>A request that asks for a refresh and comes while another prepares the same key takes the result of
  that one, refreshed or not.\<close>

lemma refresh_follows_leader:
  assumes "tget (co_map s) (ej_cache_key J) = Some slot" and "ej_force J" and "co_slots s ! slot = Slot_Ready"
    and "co_threads s t = X_Idle"
  shows "coal_step s (set_thread t (X_Waiting J slot) s)"
    and "coal_step (set_thread t (X_Waiting J slot) s) (set_thread t (X_Launch J) (set_thread t (X_Waiting J slot) s))"
proof -
  show "coal_step s (set_thread t (X_Waiting J slot) s)"
    by (rule follow) (use assms in \<open>simp_all add: enter_def\<close>)
  show "coal_step (set_thread t (X_Waiting J slot) s) (set_thread t (X_Launch J) (set_thread t (X_Waiting J slot) s))"
    by (rule wake_ready [where deadline = False and u = "()" and slot = slot]) (simp_all add: wait_def assms(3))
qed

end
