(* ===== verification/Sse_Stream.thy ===== *)
theory Sse_Stream
  imports Json
begin

text \<open>
  The transport of the model adapters in \<^verbatim>\<open>llm/adapters/openai_compatible.hpp\<close>: endpoints, requests over the
  HTTP library, and the parser of server-sent events. The library is an argument: a request gives the
  pieces of the body it delivers and its result; a receiver that refuses a piece cancels the request,
  which then has no result. The parser does not depend on how the stream is cut, and reads back the
  events of a stream written in the format.
\<close>

section \<open>Actions with exceptions\<close>

text \<open>What a callback does to the state behind it, and whether it throws.\<close>

type_synonym ('s, 'a) act = "'s \<Rightarrow> 'a res \<times> 's"

definition aret :: "'a \<Rightarrow> ('s, 'a) act" where
  "aret a s = (Inr a, s)"

definition araise :: "exn \<Rightarrow> ('s, 'a) act" where
  "araise e s = (Inl e, s)"

definition abind :: "('s, 'a) act \<Rightarrow> ('a \<Rightarrow> ('s, 'b) act) \<Rightarrow> ('s, 'b) act" where
  "abind m f s = (case m s of (Inl e, t) \<Rightarrow> (Inl e, t) | (Inr a, t) \<Rightarrow> f a t)"

definition alift :: "'a res \<Rightarrow> ('s, 'a) act" where
  "alift r s = (r, s)"

fun aeach :: "('x \<Rightarrow> ('s, unit) act) \<Rightarrow> 'x list \<Rightarrow> ('s, unit) act" where
  "aeach f [] = aret ()"
| "aeach f (x # xs) = abind (f x) (\<lambda>_. aeach f xs)"

lemma abind_simps [simp]:
  "abind (aret a) f = f a" "abind (araise e) f = araise e" "abind (alift (Inr a)) f = f a" "abind (alift (Inl e)) f = araise e"
  by (simp_all add: abind_def aret_def araise_def alift_def fun_eq_iff)

section \<open>Endpoints\<close>

record adapter_config =
  ac_active_adapter :: string
  ac_base_url :: string
  ac_api_key :: string
  ac_host :: string
  ac_base_path :: string
  ac_chat_endpoint :: string
  ac_model :: string
  ac_port :: int
  ac_use_https :: bool
  ac_timeout_ms :: int
  ac_stop_tokens :: "string list"
  ac_enable_tools :: bool
  ac_enable_streaming :: bool
  ac_stream_idle_timeout_ms :: int

definition ensure_leading_slash :: "string \<Rightarrow> string" where
  "ensure_leading_slash p = (if p = [] then [] else if hd p = CHR ''/'' then p else ''/'' @ p)"

definition join_paths :: "string \<Rightarrow> string \<Rightarrow> string" where
  "join_paths a b =
     (if a = [] then ensure_leading_slash b
      else if b = [] then ensure_leading_slash a
      else let left = ensure_leading_slash a; right = ensure_leading_slash b
           in if last left = CHR ''/'' \<and> hd right = CHR ''/'' then left @ tl right else left @ right)"

record http_endpoint =
  he_host :: string
  he_port :: int
  he_is_https :: bool
  he_base_path :: string

text \<open>The scheme of a URL and the rest.\<close>

definition url_scheme :: "bool \<Rightarrow> string \<Rightarrow> bool \<times> string" where
  "url_scheme use_https url =
     (if prefix ''https://'' url then (True, drop 8 url)
      else if prefix ''http://'' url then (False, drop 7 url) else (use_https, url))"

definition resolve_endpoint :: "adapter_config \<Rightarrow> http_endpoint res" where
  "resolve_endpoint cfg =
     (if ac_host cfg \<noteq> []
      then Inr \<lparr>he_host = ac_host cfg, he_port = ac_port cfg, he_is_https = ac_use_https cfg, he_base_path = ac_base_path cfg\<rparr>
      else let (is_https, url) = url_scheme (ac_use_https cfg) (ac_base_url cfg);
               (host_port, base_path) =
                 (case str_find url ''/'' 0 of
                    Some slash \<Rightarrow> (take slash url, drop slash url)
                  | None \<Rightarrow> (url, ac_base_path cfg))
           in rbind (case str_rfind host_port '':'' of
                       None \<Rightarrow> Inr (host_port, if is_https then 443 else 80)
                     | Some colon \<Rightarrow>
                         (case stoi (drop (colon + 1) host_port) of
                            Inr port \<Rightarrow> Inr (take colon host_port, port)
                          | Inl _ \<Rightarrow> Inl (Runtime_Error (''Invalid adapter base_url port: '' @ ac_base_url cfg)))) (\<lambda>(host, port).
                if host = [] then Inl (Runtime_Error ''LLM host is empty; check adapter host/base_url'')
                else Inr \<lparr>he_host = host, he_port = port, he_is_https = is_https, he_base_path = base_path\<rparr>))"

definition extract_error_message :: "(json \<Rightarrow> string) \<Rightarrow> json \<Rightarrow> string \<Rightarrow> string" where
  "extract_error_message dump error_obj fallback_prefix =
     (case error_obj of
        JString s \<Rightarrow> fallback_prefix @ '': '' @ s
      | JObject m \<Rightarrow>
          (case oget m ''message'' of
             Some (JString s) \<Rightarrow> fallback_prefix @ '': '' @ s
           | _ \<Rightarrow> fallback_prefix @ '': '' @ dump error_obj)
      | _ \<Rightarrow> fallback_prefix)"

section \<open>Requests\<close>

type_synonym headers = "(string \<times> string) list"

text \<open>Seconds and microseconds of a time-out.\<close>

definition timeout_parts :: "int \<Rightarrow> int \<times> int" where
  "timeout_parts ms = (ms div 1000, ms mod 1000 * 1000)"

record http_call =
  hc_host :: string
  hc_port :: int
  hc_is_https :: bool
  hc_path :: string
  hc_headers :: headers
  hc_body :: string
  hc_timeout :: "int \<times> int"
  hc_read_timeout :: "int \<times> int"

text \<open>The result of a request: none, or a status and a body.\<close>

type_synonym http_result = "(int \<times> string) option"

definition auth_headers :: "adapter_config \<Rightarrow> headers \<Rightarrow> headers" where
  "auth_headers cfg extra =
     (if ac_api_key cfg \<noteq> [] then [(''Authorization'', ''Bearer '' @ ac_api_key cfg)] else []) @ extra"

definition http_call_for :: "adapter_config \<Rightarrow> http_endpoint \<Rightarrow> string \<Rightarrow> string \<Rightarrow> headers \<Rightarrow> int \<Rightarrow> http_call" where
  "http_call_for cfg ep p body hs read_ms =
     \<lparr>hc_host = he_host ep, hc_port = he_port ep, hc_is_https = he_is_https ep, hc_path = join_paths (he_base_path ep) p,
      hc_headers = hs, hc_body = body, hc_timeout = timeout_parts (max 1 (ac_timeout_ms cfg)), hc_read_timeout = timeout_parts read_ms\<rparr>"

text \<open>\<open>openssl\<close> tells how the library was built.\<close>

definition post_json ::
    "bool \<Rightarrow> (http_call \<Rightarrow> http_result) \<Rightarrow> adapter_config \<Rightarrow> string \<Rightarrow> string \<Rightarrow> headers \<Rightarrow> string res" where
  "post_json openssl post cfg p body extra =
     rbind (resolve_endpoint cfg) (\<lambda>ep.
       if he_is_https ep \<and> \<not> openssl
       then Inl (Runtime_Error ''HTTPS adapter endpoint configured but OpenSSL support is disabled'')
       else case post (http_call_for cfg ep p body (auth_headers cfg extra) (max 1 (ac_timeout_ms cfg))) of
              None \<Rightarrow> Inl (Runtime_Error ''LLM request failed (Network / Timeout error)'')
            | Some (status, rbody) \<Rightarrow>
                if status \<noteq> 200
                then Inl (Runtime_Error (''LLM request failed with status '' @ to_string_int status @ '': '' @ rbody))
                else Inr rbody)"

text \<open>A streamed body: the pieces in order and the result when all of them were received.\<close>

record http_stream =
  hs_pieces :: "string list"
  hs_result :: http_result

definition stream_call :: "adapter_config \<Rightarrow> http_endpoint \<Rightarrow> string \<Rightarrow> string \<Rightarrow> headers \<Rightarrow> http_call" where
  "stream_call cfg ep p body extra =
     http_call_for cfg ep p body ([(''Connection'', ''keep-alive''), (''Accept'', ''text/event-stream'')] @ auth_headers cfg extra)
       (if ac_stream_idle_timeout_ms cfg > 0 then ac_stream_idle_timeout_ms cfg else 300000)"

text \<open>The receiver is called with the pieces until it refuses one.\<close>

fun deliver :: "(string \<Rightarrow> 's \<Rightarrow> bool res \<times> 's) \<Rightarrow> string list \<Rightarrow> ('s, bool) act" where
  "deliver on_chunk [] = aret True"
| "deliver on_chunk (d # ds) = abind (on_chunk d) (\<lambda>ok. if ok then deliver on_chunk ds else aret False)"

definition post_json_stream_raw ::
    "bool \<Rightarrow> (http_call \<Rightarrow> http_stream) \<Rightarrow> adapter_config \<Rightarrow> string \<Rightarrow> string \<Rightarrow> headers \<Rightarrow> (string \<Rightarrow> ('s, bool) act) \<Rightarrow> ('s, unit) act" where
  "post_json_stream_raw openssl net cfg p body extra on_chunk =
     abind (alift (resolve_endpoint cfg)) (\<lambda>ep.
       if he_is_https ep \<and> \<not> openssl
       then araise (Runtime_Error ''HTTPS adapter endpoint configured but OpenSSL support is disabled'')
       else
         let st = net (stream_call cfg ep p body extra)
         in abind (deliver on_chunk (hs_pieces st)) (\<lambda>received.
              case (if received then hs_result st else None) of
                None \<Rightarrow> araise (Runtime_Error ''LLM streaming request failed (Network / Timeout error)'')
              | Some (status, rbody) \<Rightarrow>
                  if status \<noteq> 200
                  then araise (Runtime_Error (''LLM streaming request failed with status '' @ to_string_int status @ '': '' @ rbody))
                  else aret ()))"

section \<open>Server-sent events\<close>

record sse_event =
  se_event :: string
  se_data :: string

record sse =
  ss_buffer :: string
  ss_type :: string
  ss_data :: string
  ss_error :: string
  ss_continue :: bool

definition new_sse :: sse where
  "new_sse = \<lparr>ss_buffer = [], ss_type = [], ss_data = [], ss_error = [], ss_continue = True\<rparr>"

definition flush_event :: "(sse_event \<Rightarrow> ('s, bool) act) \<Rightarrow> sse \<times> 's \<Rightarrow> sse \<times> 's" where
  "flush_event on_event x =
     (let (p, s) = x in
      if ss_data p = [] then (p, s)
      else case on_event \<lparr>se_event = ss_type p, se_data = ss_data p\<rparr> s of
             (Inl e, s') \<Rightarrow> (p\<lparr>ss_error := what e, ss_continue := False, ss_type := [], ss_data := []\<rparr>, s')
           | (Inr ok, s') \<Rightarrow> (p\<lparr>ss_continue := (if ok then ss_continue p else False), ss_type := [], ss_data := []\<rparr>, s'))"

text \<open>A value after its field name: one space in front of it is dropped.\<close>

definition field_value :: "string \<Rightarrow> string" where
  "field_value v = (case v of c # cs \<Rightarrow> if c = CHR '' '' then cs else v | [] \<Rightarrow> [])"

definition drop_cr :: "string \<Rightarrow> string" where
  "drop_cr line = (if line \<noteq> [] \<and> last line = CHR 0x0D then butlast line else line)"

definition sse_line :: "(sse_event \<Rightarrow> ('s, bool) act) \<Rightarrow> string \<Rightarrow> sse \<times> 's \<Rightarrow> sse \<times> 's" where
  "sse_line on_event raw x =
     (let line = drop_cr raw; (p, s) = x in
      if line = [] then flush_event on_event x
      else if prefix '':'' line then x
      else if prefix ''data:'' line
      then (p\<lparr>ss_data := (if ss_data p \<noteq> [] then ss_data p @ [newline] else []) @ field_value (drop 5 line)\<rparr>, s)
      else if prefix ''event:'' line then (p\<lparr>ss_type := field_value (drop 6 line)\<rparr>, s)
      else x)"

lemma flush_event_buffer [simp]: "ss_buffer (fst (flush_event on_event x)) = ss_buffer (fst x)"
  by (auto simp: flush_event_def Let_def split: prod.splits sum.splits)

lemma sse_line_buffer [simp]: "ss_buffer (fst (sse_line on_event raw x)) = ss_buffer (fst x)"
  by (auto simp: sse_line_def Let_def split: prod.splits)

text \<open>\<open>process_available_lines\<close>: the complete lines at the front of the buffer.\<close>

function sse_lines :: "(sse_event \<Rightarrow> ('s, bool) act) \<Rightarrow> sse \<times> 's \<Rightarrow> sse \<times> 's" where
  "sse_lines on_event x =
     (if \<not> ss_continue (fst x) \<or> newline \<notin> set (ss_buffer (fst x)) then x
      else sse_lines on_event
             (sse_line on_event (takeWhile (\<lambda>c. c \<noteq> newline) (ss_buffer (fst x)))
               ((fst x)\<lparr>ss_buffer := tl (dropWhile (\<lambda>c. c \<noteq> newline) (ss_buffer (fst x)))\<rparr>, snd x)))"
  by pat_completeness auto
termination
proof (relation "measure (\<lambda>(f, x). length (ss_buffer (fst x)))", goal_cases)
  case (2 f x)
  then have "dropWhile (\<lambda>c. c \<noteq> newline) (ss_buffer (fst x)) \<noteq> []"
    by simp
  then show ?case
    using length_dropWhile_le [of "\<lambda>c. c \<noteq> newline" "ss_buffer (fst x)"]
    by (cases "dropWhile (\<lambda>c. c \<noteq> newline) (ss_buffer (fst x))") simp_all
qed simp

declare sse_lines.simps [simp del]

definition sse_receive :: "(sse_event \<Rightarrow> ('s, bool) act) \<Rightarrow> string \<Rightarrow> (sse \<times> 's, bool) act" where
  "sse_receive on_event d x =
     (let y = sse_lines on_event ((fst x)\<lparr>ss_buffer := ss_buffer (fst x) @ d\<rparr>, snd x)
      in (Inr (ss_continue (fst y)), y))"

text \<open>After the request: an unterminated last line, the last event, and the callback's error.\<close>

definition sse_finish :: "(sse_event \<Rightarrow> ('s, bool) act) \<Rightarrow> sse \<times> 's \<Rightarrow> unit res \<times> 's" where
  "sse_finish on_event x =
     (let x1 = (if ss_buffer (fst x) \<noteq> []
                then sse_lines on_event ((fst x)\<lparr>ss_buffer := ss_buffer (fst x) @ [newline]\<rparr>, snd x) else x);
          x2 = (if ss_continue (fst x1) then flush_event on_event x1 else x1)
      in (if ss_error (fst x2) \<noteq> [] then Inl (Runtime_Error (ss_error (fst x2))) else Inr (), snd x2))"

definition stream_sse_events_ex ::
    "bool \<Rightarrow> (http_call \<Rightarrow> http_stream) \<Rightarrow> adapter_config \<Rightarrow> string \<Rightarrow> string \<Rightarrow> headers \<Rightarrow>
     (sse_event \<Rightarrow> ('s, bool) act) \<Rightarrow> ('s, unit) act" where
  "stream_sse_events_ex openssl net cfg p body extra on_event s =
     (case post_json_stream_raw openssl net cfg p body extra (sse_receive on_event) (new_sse, s) of
        (Inl e, x) \<Rightarrow> (Inl e, snd x)
      | (Inr _, x) \<Rightarrow> sse_finish on_event x)"

definition stream_sse_events ::
    "bool \<Rightarrow> (http_call \<Rightarrow> http_stream) \<Rightarrow> adapter_config \<Rightarrow> string \<Rightarrow> string \<Rightarrow> headers \<Rightarrow>
     (string \<Rightarrow> ('s, bool) act) \<Rightarrow> ('s, unit) act" where
  "stream_sse_events openssl net cfg p body extra on_event_data =
     stream_sse_events_ex openssl net cfg p body extra (\<lambda>ev. on_event_data (se_data ev))"

section \<open>How the stream is cut\<close>

lemma sse_lines_stop: "\<not> ss_continue (fst x) \<or> newline \<notin> set (ss_buffer (fst x)) \<Longrightarrow> sse_lines on_event x = x"
  by (subst sse_lines.simps) auto

lemma sse_lines_step:
  assumes "newline \<notin> set l"
  shows "sse_lines on_event (p\<lparr>ss_buffer := l @ newline # r\<rparr>, s) =
    (if ss_continue p then sse_lines on_event (sse_line on_event l (p\<lparr>ss_buffer := r\<rparr>, s))
     else (p\<lparr>ss_buffer := l @ newline # r\<rparr>, s))"
proof -
  have "takeWhile (\<lambda>c. c \<noteq> newline) (l @ newline # r) = l" "dropWhile (\<lambda>c. c \<noteq> newline) (l @ newline # r) = newline # r"
    using assms by (auto simp: takeWhile_append dropWhile_append)
  then show ?thesis by (subst sse_lines.simps) simp
qed

text \<open>A line does not look at the buffer.\<close>

lemma sse_line_frame:
  "sse_line on_event l (p\<lparr>ss_buffer := b\<rparr>, s) =
     ((fst (sse_line on_event l (p, s)))\<lparr>ss_buffer := b\<rparr>, snd (sse_line on_event l (p, s)))"
  by (auto simp: sse_line_def flush_event_def Let_def split: prod.splits sum.splits)

lemma sse_lines_append:
  "sse_lines on_event (p\<lparr>ss_buffer := b @ d\<rparr>, s) =
     (let y = sse_lines on_event (p\<lparr>ss_buffer := b\<rparr>, s)
      in sse_lines on_event ((fst y)\<lparr>ss_buffer := ss_buffer (fst y) @ d\<rparr>, snd y))"
proof (induction "length b" arbitrary: b p s rule: less_induct)
  case less
  show ?case
  proof (cases "newline \<in> set b")
    case False
    then show ?thesis by (simp add: sse_lines_stop)
  next
    case True
    then obtain l r where b: "b = l @ newline # r" "newline \<notin> set l"
      by (meson split_list_first)
    define y where "y = sse_line on_event l (p, s)"
    have step: "sse_lines on_event (p\<lparr>ss_buffer := l @ newline # q\<rparr>, s) =
      (if ss_continue p then sse_lines on_event ((fst y)\<lparr>ss_buffer := q\<rparr>, snd y)
       else (p\<lparr>ss_buffer := l @ newline # q\<rparr>, s))" for q
      by (simp only: sse_lines_step [OF b(2)] sse_line_frame y_def)
    show ?thesis
    proof (cases "ss_continue p")
      case True
      then show ?thesis
        using less [of r "fst y" "snd y"] step [of r] step [of "r @ d"] by (simp add: b(1))
    next
      case False
      then show ?thesis by (simp add: sse_lines_stop)
    qed
  qed
qed

lemma sse_lines_normal:
  "ss_continue (fst (sse_lines on_event x)) \<Longrightarrow> newline \<notin> set (ss_buffer (fst (sse_lines on_event x)))"
proof (induction on_event x rule: sse_lines.induct)
  case (1 on_event x)
  then show ?case
    by (cases "\<not> ss_continue (fst x) \<or> newline \<notin> set (ss_buffer (fst x))") (auto simp: sse_lines.simps [of on_event x])
qed

text \<open>The whole text \<open>d\<close> received at once.\<close>

definition sse_after :: "(sse_event \<Rightarrow> ('s, bool) act) \<Rightarrow> string \<Rightarrow> sse \<times> 's \<Rightarrow> sse \<times> 's" where
  "sse_after on_event d x = sse_lines on_event ((fst x)\<lparr>ss_buffer := ss_buffer (fst x) @ d\<rparr>, snd x)"

lemma sse_after_append: "sse_after on_event (d @ e) x = sse_after on_event e (sse_after on_event d x)"
  using sse_lines_append [where p = "fst x" and b = "ss_buffer (fst x) @ d" and d = e and s = "snd x"]
  by (simp add: sse_after_def Let_def)

lemma sse_after_stopped: "\<not> ss_continue (fst x) \<Longrightarrow> sse_after on_event d x = ((fst x)\<lparr>ss_buffer := ss_buffer (fst x) @ d\<rparr>, snd x)"
  by (simp add: sse_after_def sse_lines_stop)

lemma sse_receive_eq: "sse_receive on_event d x = (Inr (ss_continue (fst (sse_after on_event d x))), sse_after on_event d x)"
  by (simp add: sse_receive_def sse_after_def Let_def)

lemma deliver_sse:
  assumes "ss_continue (fst x)" "newline \<notin> set (ss_buffer (fst x))"
  shows "\<exists>z. deliver (sse_receive on_event) ds x = (Inr (ss_continue (fst (sse_after on_event (concat ds) x))), z) \<and>
    snd z = snd (sse_after on_event (concat ds) x) \<and>
    (ss_continue (fst (sse_after on_event (concat ds) x)) \<longrightarrow> z = sse_after on_event (concat ds) x)"
  using assms
proof (induction ds arbitrary: x)
  case Nil
  then show ?case by (simp add: aret_def sse_after_def sse_lines_stop)
next
  case (Cons d ds)
  let ?y = "sse_after on_event d x"
  show ?case
  proof (cases "ss_continue (fst ?y)")
    case True
    then have "newline \<notin> set (ss_buffer (fst ?y))"
      unfolding sse_after_def by (rule sse_lines_normal)
    then show ?thesis
      using Cons.IH [of ?y] True by (simp add: abind_def sse_receive_eq sse_after_append)
  next
    case False
    then show ?thesis
      by (simp add: abind_def sse_receive_eq sse_after_append sse_after_stopped aret_def)
  qed
qed

text \<open>What a streamed request does, by the text of its body.\<close>

definition sse_outcome :: "(sse_event \<Rightarrow> ('s, bool) act) \<Rightarrow> string \<Rightarrow> http_result \<Rightarrow> ('s, unit) act" where
  "sse_outcome on_event text result s =
     (let x = sse_after on_event text (new_sse, s)
      in case (if ss_continue (fst x) then result else None) of
           None \<Rightarrow> (Inl (Runtime_Error ''LLM streaming request failed (Network / Timeout error)''), snd x)
         | Some (status, rbody) \<Rightarrow>
             if status \<noteq> 200
             then (Inl (Runtime_Error (''LLM streaming request failed with status '' @ to_string_int status @ '': '' @ rbody)), snd x)
             else sse_finish on_event x)"

lemma stream_sse_events_ex_outcome:
  assumes "resolve_endpoint cfg = Inr ep" "he_is_https ep \<longrightarrow> openssl"
  shows "stream_sse_events_ex openssl net cfg p body extra on_event s =
    sse_outcome on_event (concat (hs_pieces (net (stream_call cfg ep p body extra))))
      (hs_result (net (stream_call cfg ep p body extra))) s"
proof -
  let ?st = "net (stream_call cfg ep p body extra)"
  have fresh: "ss_continue (fst (new_sse, s))" "newline \<notin> set (ss_buffer (fst (new_sse, s)))"
    by (simp_all add: new_sse_def)
  from deliver_sse [OF fresh, of on_event "hs_pieces ?st"]
  obtain z where z: "deliver (sse_receive on_event) (hs_pieces ?st) (new_sse, s) =
      (Inr (ss_continue (fst (sse_after on_event (concat (hs_pieces ?st)) (new_sse, s)))), z)"
    "snd z = snd (sse_after on_event (concat (hs_pieces ?st)) (new_sse, s))"
    "ss_continue (fst (sse_after on_event (concat (hs_pieces ?st)) (new_sse, s))) \<longrightarrow>
      z = sse_after on_event (concat (hs_pieces ?st)) (new_sse, s)"
    by blast
  show ?thesis
    using assms z
    by (auto simp: stream_sse_events_ex_def post_json_stream_raw_def sse_outcome_def Let_def abind_def aret_def araise_def split: option.splits)
qed

section \<open>Streams written in the format\<close>

text \<open>An event with its type and the lines of its data, as a server writes it.\<close>

definition sse_text :: "string \<times> string list \<Rightarrow> string" where
  "sse_text e =
     (if fst e = [] then [] else ''event: '' @ fst e @ [newline]) @
     concat (map (\<lambda>l. ''data: '' @ l @ [newline]) (snd e)) @ [newline]"

definition sse_event_of :: "string \<times> string list \<Rightarrow> sse_event" where
  "sse_event_of e = \<lparr>se_event = fst e, se_data = join (snd e) [newline]\<rparr>"

definition sse_line_ok :: "string \<Rightarrow> bool" where
  "sse_line_ok l \<longleftrightarrow> newline \<notin> set l \<and> drop_cr l = l"

text \<open>A first line that is empty is lost, so the format asks for one that is not.\<close>

definition sse_ok :: "string \<times> string list \<Rightarrow> bool" where
  "sse_ok e \<longleftrightarrow> sse_line_ok (fst e) \<and> snd e \<noteq> [] \<and> hd (snd e) \<noteq> [] \<and> list_all sse_line_ok (snd e)"

text \<open>The handler is called with the events until it declines one or throws.\<close>

fun run_events :: "(sse_event \<Rightarrow> ('s, bool) act) \<Rightarrow> sse_event list \<Rightarrow> 's \<Rightarrow> bool \<times> 's" where
  "run_events f [] s = (True, s)"
| "run_events f (e # es) s = (case f e s of (Inr True, t) \<Rightarrow> run_events f es t | (_, t) \<Rightarrow> (False, t))"

lemma sse_after_line:
  assumes "newline \<notin> set l" "ss_buffer p = []" "ss_continue p"
  shows "sse_after on_event (l @ [newline]) (p, s) = sse_line on_event l (p, s)"
proof -
  have "sse_after on_event (l @ [newline]) (p, s) = sse_lines on_event (sse_line on_event l (p\<lparr>ss_buffer := []\<rparr>, s))"
    using sse_lines_step [OF assms(1), where p = p and r = "[]" and s = s] assms by (simp add: sse_after_def)
  moreover have "p\<lparr>ss_buffer := []\<rparr> = p" using assms(2) by (cases p) simp
  ultimately show ?thesis using assms by (simp add: sse_lines_stop)
qed

lemma drop_cr_field: "drop_cr l = l \<Longrightarrow> k \<noteq> [] \<Longrightarrow> last k \<noteq> CHR 0x0D \<Longrightarrow> drop_cr (k @ l) = k @ l"
  by (cases "l = []") (auto simp: drop_cr_def butlast_append split: if_splits)

lemma sse_line_data:
  "sse_line_ok l \<Longrightarrow> sse_line on_event (''data: '' @ l) (p, s) =
     (p\<lparr>ss_data := (if ss_data p \<noteq> [] then ss_data p @ [newline] else []) @ l\<rparr>, s)"
  using drop_cr_field [of l "''data: ''"] by (simp add: sse_line_def sse_line_ok_def field_value_def)

lemma sse_line_event:
  "sse_line_ok l \<Longrightarrow> sse_line on_event (''event: '' @ l) (p, s) = (p\<lparr>ss_type := l\<rparr>, s)"
  using drop_cr_field [of l "''event: ''"] by (simp add: sse_line_def sse_line_ok_def field_value_def)

lemma sse_line_empty: "sse_line on_event [] x = flush_event on_event x"
  by (simp add: sse_line_def drop_cr_def)

lemma join_Cons_append: "join ((a @ d @ b) # ls) d = a @ d @ join (b # ls) d"
  by (cases ls) simp_all

lemma sse_after_data_lines:
  assumes "list_all sse_line_ok ls" "ss_buffer p = []" "ss_continue p" "ss_data p \<noteq> []"
  shows "sse_after on_event (concat (map (\<lambda>l. ''data: '' @ l @ [newline]) ls)) (p, s) =
    (p\<lparr>ss_data := join (ss_data p # ls) [newline]\<rparr>, s)"
  using assms
proof (induction ls arbitrary: p)
  case Nil
  then show ?case by (simp add: sse_after_def sse_lines_stop)
next
  case (Cons l ls)
  let ?q = "p\<lparr>ss_data := ss_data p @ newline # l\<rparr>"
  have "sse_after on_event (''data: '' @ l @ [newline]) (p, s) = (?q, s)"
    using sse_after_line [of "''data: '' @ l" p on_event s] sse_line_data [of l on_event p s] Cons.prems
    by (simp add: sse_line_ok_def)
  then show ?case
    using Cons.IH [of ?q] Cons.prems sse_after_append [of on_event "''data: '' @ l @ [newline]" _ "(p, s)"]
      join_Cons_append [of "ss_data p" "[newline]" l ls]
    by simp
qed

lemma join_Nil_iff: "join (x # xs) d = [] \<longleftrightarrow> x = [] \<and> (xs = [] \<or> d = [] \<and> join xs d = [])"
  by (cases xs) auto

lemma sse_after_event:
  assumes e: "sse_ok e" and p: "ss_buffer p = []" "ss_type p = []" "ss_data p = []" "ss_continue p"
  shows "sse_after on_event (sse_text e) (p, s) =
    flush_event on_event (p\<lparr>ss_type := fst e, ss_data := join (snd e) [newline]\<rparr>, s)"
proof -
  obtain t l ls where te: "e = (t, l # ls)" by (metis e list.exhaust prod.collapse sse_ok_def)
  have ok: "sse_line_ok t" "sse_line_ok l" "list_all sse_line_ok ls" "l \<noteq> []"
    using e by (simp_all add: te sse_ok_def)
  have a: "sse_after on_event (if t = [] then [] else ''event: '' @ t @ [newline]) (p, s) = (p\<lparr>ss_type := t\<rparr>, s)"
    using sse_after_line [of "''event: '' @ t" p on_event s] sse_line_event [of t on_event p s] ok(1) p
    by (simp add: sse_line_ok_def sse_after_def sse_lines_stop)
  have b: "sse_after on_event (''data: '' @ l @ [newline]) (p\<lparr>ss_type := t\<rparr>, s) = (p\<lparr>ss_type := t, ss_data := l\<rparr>, s)"
    using sse_after_line [of "''data: '' @ l" "p\<lparr>ss_type := t\<rparr>" on_event s] sse_line_data [of l on_event "p\<lparr>ss_type := t\<rparr>" s] ok(2) p
    by (simp add: sse_line_ok_def)
  have c: "sse_after on_event (concat (map (\<lambda>l. ''data: '' @ l @ [newline]) ls)) (p\<lparr>ss_type := t, ss_data := l\<rparr>, s) =
    (p\<lparr>ss_type := t, ss_data := join (l # ls) [newline]\<rparr>, s)"
    using sse_after_data_lines [OF ok(3), of "p\<lparr>ss_type := t, ss_data := l\<rparr>" on_event s] ok(4) p by simp
  have d: "sse_after on_event [newline] (p\<lparr>ss_type := t, ss_data := join (l # ls) [newline]\<rparr>, s) =
    flush_event on_event (p\<lparr>ss_type := t, ss_data := join (l # ls) [newline]\<rparr>, s)"
    using sse_after_line [of "[]" "p\<lparr>ss_type := t, ss_data := join (l # ls) [newline]\<rparr>" on_event s] p
    by (simp add: sse_line_empty)
  define E D R where "E = (if t = [] then [] else ''event: '' @ t @ [newline])" and "D = ''data: '' @ l @ [newline]"
    and "R = concat (map (\<lambda>l. ''data: '' @ l @ [newline]) ls)"
  have "sse_text e = E @ D @ R @ [newline]"
    by (simp add: sse_text_def te E_def D_def R_def)
  then show ?thesis
    using a [folded E_def] b [folded D_def] c [folded R_def] d by (simp add: sse_after_append te)
qed

lemma run_events_stop: "\<not> fst (run_events f [e] s) \<Longrightarrow> run_events f (e # es) s = run_events f [e] s"
  by (auto split: prod.splits sum.splits bool.splits)

lemma sse_after_events:
  assumes "list_all sse_ok es" "ss_buffer p = []" "ss_type p = []" "ss_data p = []" "ss_continue p" "ss_error p = []"
  shows "\<exists>q. sse_after on_event (concat (map sse_text es)) (p, s) = (q, snd (run_events on_event (map sse_event_of es) s)) \<and>
    ss_continue q = fst (run_events on_event (map sse_event_of es) s) \<and> (ss_continue q \<longrightarrow> q = p)"
  using assms
proof (induction es arbitrary: p s)
  case Nil
  then show ?case by (simp add: sse_after_def sse_lines_stop)
next
  case (Cons e es)
  let ?y = "flush_event on_event (p\<lparr>ss_type := fst e, ss_data := join (snd e) [newline]\<rparr>, s)"
  have ne: "join (snd e) [newline] \<noteq> []"
    using Cons.prems by (cases "snd e") (auto simp: sse_ok_def join_Nil_iff)
  have y: "sse_after on_event (sse_text e @ concat (map sse_text es)) (p, s) = sse_after on_event (concat (map sse_text es)) ?y"
    using Cons.prems by (simp add: sse_after_append sse_after_event)
  obtain r t where rt: "on_event (sse_event_of e) s = (r, t)" by (cases "on_event (sse_event_of e) s")
  then have hd: "on_event \<lparr>se_event = fst e, se_data = join (snd e) [newline]\<rparr> s = (r, t)"
    by (simp add: sse_event_of_def)
  show ?case
  proof (cases "r = Inr True")
    case True
    then have "?y = (p, t)"
      using ne hd Cons.prems by (simp add: flush_event_def)
    then show ?thesis
      using Cons.IH [of p t] Cons.prems y rt True by simp
  next
    case False
    then have "\<not> ss_continue (fst ?y)" "snd ?y = t"
      using ne hd by (auto simp: flush_event_def split: sum.splits)
    then show ?thesis
      using y rt False by (auto simp: sse_after_stopped split: sum.splits bool.splits)
  qed
qed

theorem sse_outcome_events:
  assumes "list_all sse_ok es"
  shows "sse_outcome on_event (concat (map sse_text es)) (Some (200, rbody)) s =
    (if fst (run_events on_event (map sse_event_of es) s) then Inr ()
     else Inl (Runtime_Error ''LLM streaming request failed (Network / Timeout error)''),
     snd (run_events on_event (map sse_event_of es) s))"
proof -
  obtain q where q: "sse_after on_event (concat (map sse_text es)) (new_sse, s) = (q, snd (run_events on_event (map sse_event_of es) s))"
    "ss_continue q = fst (run_events on_event (map sse_event_of es) s)" "ss_continue q \<longrightarrow> q = new_sse"
    using sse_after_events [OF assms, of new_sse on_event s] by (auto simp: new_sse_def)
  show ?thesis
    using q by (cases "ss_continue q") (auto simp: sse_outcome_def sse_finish_def flush_event_def new_sse_def Let_def)
qed

end
