(* ===== verification/Scheduler.thy ===== *)
theory Scheduler
  imports Json "HOL-Library.Multiset"
begin

text \<open>
  \<^verbatim>\<open>llm/scheduler.cpp\<close>: the request scheduler. Requests wait in one queue per key (a tree, or a
  user of the handler tree); a queue that may run has a candidate in a priority queue, and a
  version number tells candidates of an older state of the queue from current ones. The workers
  take the best current candidate, process its request and release the key. Times are in
  milliseconds, scores are rationals. The theorems are that no two requests of a key run at once,
  that no request is lost or started out of order, and that a worker always finds a request when
  one may run. The tracking of attempts per trace, the validation of incoming requests and the
  merging of streamed tool calls are modelled as well; text and JSON conversions are parameters.
\<close>

section \<open>State\<close>

record pending_request =
  q_request_id :: string
  q_trace_id :: string
  q_tree_id :: string
  q_queue_key :: string
  q_source_pid :: int
  q_base_priority :: int
  q_payload :: json
  q_enqueued_at :: int

record tree_queue =
  requests :: "pending_request list"
  has_active_key :: bool
  version :: u64

record tree_candidate =
  k_queue_key :: string
  k_score :: rat
  k_version :: u64

definition TreeQueue :: tree_queue where
  "TreeQueue = \<lparr>requests = [], has_active_key = False, version = 0\<rparr>"

record scheduler =
  tree_queues :: "(string, tree_queue) table"
  ready_tree_queue :: "tree_candidate list"
  active_requests :: "(string, string) table"
  llm_request_counts :: "(string, int) table"

definition SchedulerService :: scheduler where
  "SchedulerService = \<lparr>tree_queues = [], ready_tree_queue = [], active_requests = [],
     llm_request_counts = []\<rparr>"

section \<open>Attempts of a trace\<close>

definition mark_request_active :: "string \<Rightarrow> string \<Rightarrow> scheduler \<Rightarrow> scheduler" where
  "mark_request_active trace_id request_id s =
     (if trace_id = [] \<or> request_id = [] then s
      else s\<lparr>active_requests := tput trace_id request_id (active_requests s)\<rparr>)"

definition is_request_current :: "string \<Rightarrow> string \<Rightarrow> scheduler \<Rightarrow> bool" where
  "is_request_current trace_id request_id s =
     (if trace_id = [] \<or> request_id = [] then True
      else tget (active_requests s) trace_id = Some request_id)"

definition clear_request_if_current :: "string \<Rightarrow> string \<Rightarrow> scheduler \<Rightarrow> scheduler" where
  "clear_request_if_current trace_id request_id s =
     (if trace_id = [] \<or> request_id = [] then s
      else if tget (active_requests s) trace_id = Some request_id
      then s\<lparr>active_requests := tdel trace_id (active_requests s)\<rparr>
      else s)"

section \<open>The priority queue\<close>

text \<open>\<open>std::priority_queue\<close>: \<open>top\<close> is a candidate with the greatest score.\<close>

fun pq_top :: "tree_candidate \<Rightarrow> tree_candidate list \<Rightarrow> tree_candidate" where
  "pq_top c [] = c"
| "pq_top c (d # ds) = (if k_score c < k_score d then pq_top d ds else pq_top c ds)"

definition pq_pop :: "tree_candidate list \<Rightarrow> (tree_candidate \<times> tree_candidate list) option" where
  "pq_pop cs = (case cs of [] \<Rightarrow> None
     | c # ds \<Rightarrow> (let t = pq_top c ds in Some (t, remove1 t cs)))"

definition pq_push :: "tree_candidate \<Rightarrow> tree_candidate list \<Rightarrow> tree_candidate list" where
  "pq_push c cs = cs @ [c]"

lemma pq_top_in: "pq_top c ds \<in> set (c # ds)"
  by (induction c ds rule: pq_top.induct) auto

lemma pq_top_max: "\<forall>d\<in>set (c # ds). k_score d \<le> k_score (pq_top c ds)"
  by (induction c ds rule: pq_top.induct) fastforce+

text \<open>What the scheduler relies on of it.\<close>

locale max_queue =
  fixes push :: "'e \<Rightarrow> 'q \<Rightarrow> 'q"
    and pop :: "'q \<Rightarrow> ('e \<times> 'q) option"
    and elems :: "'q \<Rightarrow> 'e multiset"
    and score :: "'e \<Rightarrow> rat"
  assumes elems_push: "elems (push e q) = add_mset e (elems q)"
    and pop_None: "pop q = None \<longleftrightarrow> elems q = {#}"
    and pop_Some: "pop q = Some (e, q') \<Longrightarrow> elems q = add_mset e (elems q') \<and>
      (\<forall>d \<in># elems q. score d \<le> score e)"
begin

lemma pop_size: "pop q = Some (e, q') \<Longrightarrow> size (elems q') < size (elems q)"
  using pop_Some by fastforce

lemma pop_keeps: "pop q = Some (e, q') \<Longrightarrow> d \<in># elems q \<Longrightarrow> d = e \<or> d \<in># elems q'"
  using pop_Some by fastforce

end

interpretation pq: max_queue pq_push pq_pop mset k_score
proof
  show "mset (pq_push e q) = add_mset e (mset q)" for e q by (simp add: pq_push_def)
  show "(pq_pop q = None) = (mset q = {#})" for q
    by (simp add: pq_pop_def Let_def split: list.splits)
  show "pq_pop q = Some (e, q') \<Longrightarrow> mset q = add_mset e (mset q') \<and>
      (\<forall>d \<in># mset q. k_score d \<le> k_score e)" for q e q'
  proof (cases q)
    case (Cons c ds)
    assume "pq_pop q = Some (e, q')"
    with Cons have e: "e = pq_top c ds" "q' = remove1 e (c # ds)"
      by (auto simp: pq_pop_def Let_def)
    with pq_top_in [of c ds] pq_top_max [of c ds] Cons show ?thesis
      by (auto simp: insert_DiffM)
  qed (simp add: pq_pop_def)
qed

section \<open>Queue operations\<close>

definition effective_tree_priority :: "int \<Rightarrow> pending_request \<Rightarrow> rat" where
  "effective_tree_priority now req =
     of_int (q_base_priority req) + of_int (now - q_enqueued_at req) / 5000"

definition enqueue_tree_candidate_if_eligible :: "int \<Rightarrow> string \<Rightarrow> scheduler \<Rightarrow> scheduler" where
  "enqueue_tree_candidate_if_eligible now queue_key s =
     (case tget (tree_queues s) queue_key of
        None \<Rightarrow> s
      | Some q \<Rightarrow>
          if has_active_key q \<or> requests q = [] then s
          else s\<lparr>ready_tree_queue :=
                   pq_push \<lparr>k_queue_key = queue_key,
                            k_score = effective_tree_priority now (hd (requests q)),
                            k_version = version q\<rparr> (ready_tree_queue s)\<rparr>)"

text \<open>The part of \<open>handle_client_connection\<close> under the queue lock.\<close>

definition enqueue_request :: "int \<Rightarrow> pending_request \<Rightarrow> scheduler \<Rightarrow> scheduler" where
  "enqueue_request now req s =
     (let key = q_queue_key req;
          q = (case tget (tree_queues s) key of None \<Rightarrow> TreeQueue | Some q \<Rightarrow> q);
          q' = q\<lparr>requests := requests q @ [req], version := version q + 1\<rparr>
      in enqueue_tree_candidate_if_eligible now key (s\<lparr>tree_queues := tput key q' (tree_queues s)\<rparr>))"

text \<open>Whether the queue of a candidate may run, in the candidate's version.\<close>

definition candidate_valid :: "(string, tree_queue) table \<Rightarrow> tree_candidate \<Rightarrow> bool" where
  "candidate_valid tq c \<longleftrightarrow>
     (case tget tq (k_queue_key c) of
        None \<Rightarrow> False
      | Some q \<Rightarrow> version q = k_version c \<and> \<not> (has_active_key q \<or> requests q = []))"

function pick_next_request :: "scheduler \<Rightarrow> pending_request option \<times> scheduler" where
  "pick_next_request s =
     (case pq_pop (ready_tree_queue s) of
        None \<Rightarrow> (None, s)
      | Some (c, cs) \<Rightarrow>
          (let s1 = s\<lparr>ready_tree_queue := cs\<rparr>
           in if candidate_valid (tree_queues s) c
              then case tget (tree_queues s) (k_queue_key c) of
                     None \<Rightarrow> (None, s1)
                   | Some q \<Rightarrow>
                       (Some (hd (requests q)),
                        s1\<lparr>tree_queues := tput (k_queue_key c)
                             (q\<lparr>requests := tl (requests q), has_active_key := True,
                                version := version q + 1\<rparr>) (tree_queues s)\<rparr>)
              else pick_next_request s1))"
  by pat_completeness auto
termination
  by (relation "measure (\<lambda>s. length (ready_tree_queue s))")
    (auto dest: pq.pop_size simp: size_mset [symmetric] simp del: size_mset)

declare pick_next_request.simps [simp del]

definition release_tree_key :: "int \<Rightarrow> string \<Rightarrow> scheduler \<Rightarrow> scheduler" where
  "release_tree_key now queue_key s =
     (case tget (tree_queues s) queue_key of
        None \<Rightarrow> s
      | Some q \<Rightarrow>
          (let q' = q\<lparr>has_active_key := False, version := version q + 1\<rparr>
           in if requests q' = [] then s\<lparr>tree_queues := tdel queue_key (tree_queues s)\<rparr>
              else enqueue_tree_candidate_if_eligible now queue_key
                     (s\<lparr>tree_queues := tput queue_key q' (tree_queues s)\<rparr>)))"

definition count_llm_request :: "string \<Rightarrow> scheduler \<Rightarrow> scheduler" where
  "count_llm_request tree_id s =
     s\<lparr>llm_request_counts := tput tree_id
         (to_int32 ((case tget (llm_request_counts s) tree_id of None \<Rightarrow> 0 | Some n \<Rightarrow> n) + 1))
         (llm_request_counts s)\<rparr>"

text \<open>What a worker answers: \<open>outcome\<close> is the result of processing the request, \<open>None\<close> when the
  attempt was no longer current before or after inference.\<close>

definition worker_response :: "pending_request \<Rightarrow> json option res \<Rightarrow> json" where
  "worker_response req outcome =
     (case outcome of
        Inl e \<Rightarrow> jobj [(''status'', JString ''error''), (''message_type'', JString ''LLM_RESPONSE''),
                       (''request_id'', JString (q_request_id req)),
                       (''tree_id'', JString (q_tree_id req)), (''error'', JString (what e))]
      | Inr (Some response) \<Rightarrow> response
      | Inr None \<Rightarrow> jobj [(''message_type'', JString ''LLM_RESPONSE''),
                          (''status'', JString ''cancelled''),
                          (''request_id'', JString (q_request_id req)),
                          (''trace_id'', JString (q_trace_id req))])"

section \<open>The scheduler at work\<close>

text \<open>The scheduler with its clients and workers: the requests that workers hold, and, in order, the
  requests submitted and started so far, and those finished. Each step is a critical section under
  the queue lock. A worker may also find only outdated candidates.\<close>

record sched_run =
  sch :: scheduler
  busy :: "pending_request list"
  submitted :: "pending_request list"
  started :: "pending_request list"
  finished :: "pending_request list"

definition run_init :: "sched_run \<Rightarrow> bool" where
  "run_init x \<longleftrightarrow> x = \<lparr>sch = SchedulerService, busy = [], submitted = [], started = [], finished = []\<rparr>"

inductive sched_step :: "sched_run \<Rightarrow> sched_run \<Rightarrow> bool" where
  ss_submit: "sched_step x (x\<lparr>sch := enqueue_request now req (sch x), submitted := submitted x @ [req]\<rparr>)"
| ss_pick: "pick_next_request (sch x) = (Some req, s') \<Longrightarrow>
     sched_step x (x\<lparr>sch := s', busy := busy x @ [req], started := started x @ [req]\<rparr>)"
| ss_idle: "pick_next_request (sch x) = (None, s') \<Longrightarrow> sched_step x (x\<lparr>sch := s'\<rparr>)"
| ss_finish: "req \<in> set (busy x) \<Longrightarrow>
     sched_step x (x\<lparr>sch := release_tree_key now (q_queue_key req) (sch x),
                     busy := remove1 req (busy x), finished := finished x @ [req]\<rparr>)"

subsection \<open>What a pick does\<close>

lemma pick_None:
  "pick_next_request s = (None, s') \<Longrightarrow>
     tree_queues s' = tree_queues s \<and> (\<forall>c\<in>set (ready_tree_queue s). \<not> candidate_valid (tree_queues s) c)"
proof (induction s rule: pick_next_request.induct)
  case (1 s)
  show ?case
  proof (cases "pq_pop (ready_tree_queue s)")
    case None
    with 1(2) pq.pop_None [of "ready_tree_queue s"] show ?thesis
      by (simp add: pick_next_request.simps [of s])
  next
    case (Some x)
    obtain c cs where x: "x = (c, cs)" by (cases x)
    have inv: "\<not> candidate_valid (tree_queues s) c"
      using 1(2) Some x
      by (auto simp: pick_next_request.simps [of s] Let_def candidate_valid_def split: option.splits if_splits)
    with 1(2) Some x have "pick_next_request (s\<lparr>ready_tree_queue := cs\<rparr>) = (None, s')"
      by (simp add: pick_next_request.simps [of s] Let_def)
    from 1(1) [OF Some x [symmetric] refl inv this]
    show ?thesis using inv pq.pop_keeps [OF Some [unfolded x]] by auto
  qed
qed

lemma pick_Some:
  "pick_next_request s = (Some req, s') \<Longrightarrow>
     \<exists>c q. candidate_valid (tree_queues s) c \<and> tget (tree_queues s) (k_queue_key c) = Some q \<and>
       req = hd (requests q) \<and>
       tree_queues s' = tput (k_queue_key c) (q\<lparr>requests := tl (requests q), has_active_key := True,
                          version := version q + 1\<rparr>) (tree_queues s) \<and>
       (\<forall>d\<in>set (ready_tree_queue s). candidate_valid (tree_queues s) d \<longrightarrow>
          d = c \<or> d \<in> set (ready_tree_queue s'))"
proof (induction s rule: pick_next_request.induct)
  case (1 s)
  show ?case
  proof (cases "pq_pop (ready_tree_queue s)")
    case None
    with 1(2) show ?thesis by (simp add: pick_next_request.simps [of s])
  next
    case (Some x)
    obtain c cs where x: "x = (c, cs)" by (cases x)
    show ?thesis
    proof (cases "candidate_valid (tree_queues s) c")
      case True
      then obtain q where q: "tget (tree_queues s) (k_queue_key c) = Some q"
        by (auto simp: candidate_valid_def split: option.splits)
      have eq: "req = hd (requests q)" "s' = s\<lparr>ready_tree_queue := cs, tree_queues := tput (k_queue_key c)
          (q\<lparr>requests := tl (requests q), has_active_key := True, version := version q + 1\<rparr>) (tree_queues s)\<rparr>"
        using 1(2) Some x True q by (simp_all add: pick_next_request.simps [of s] Let_def)
      show ?thesis
        by (intro exI [of _ c] exI [of _ q])
          (use True q eq pq.pop_keeps [OF Some [unfolded x]] in auto)
    next
      case False
      with 1(2) Some x have "pick_next_request (s\<lparr>ready_tree_queue := cs\<rparr>) = (Some req, s')"
        by (simp add: pick_next_request.simps [of s] Let_def)
      from 1(1) [OF Some x [symmetric] refl False this] False pq.pop_keeps [OF Some [unfolded x]]
      show ?thesis by fastforce
    qed
  qed
qed

subsection \<open>The invariant\<close>

definition queue_of :: "scheduler \<Rightarrow> string \<Rightarrow> pending_request list" where
  "queue_of s k = (case tget (tree_queues s) k of None \<Rightarrow> [] | Some q \<Rightarrow> requests q)"

definition key_active :: "scheduler \<Rightarrow> string \<Rightarrow> bool" where
  "key_active s k = (case tget (tree_queues s) k of None \<Rightarrow> False | Some q \<Rightarrow> has_active_key q)"

definition with_key :: "string \<Rightarrow> pending_request list \<Rightarrow> pending_request list" where
  "with_key k xs = filter (\<lambda>r. q_queue_key r = k) xs"

lemma with_key_simps [simp]:
  "with_key k [] = []" "with_key k (xs @ ys) = with_key k xs @ with_key k ys"
  "with_key k [r] = (if q_queue_key r = k then [r] else [])"
  by (simp_all add: with_key_def)

text \<open>Every queue that may run has a current candidate.\<close>

definition candidates_ok :: "scheduler \<Rightarrow> bool" where
  "candidates_ok s \<longleftrightarrow>
     (\<forall>k q. tget (tree_queues s) k = Some q \<longrightarrow> \<not> has_active_key q \<longrightarrow>
        requests q \<noteq> [] \<and>
        (\<exists>c\<in>set (ready_tree_queue s). k_queue_key c = k \<and> k_version c = version q))"

definition sched_ok :: "sched_run \<Rightarrow> bool" where
  "sched_ok x \<longleftrightarrow> candidates_ok (sch x) \<and>
     (\<forall>k. length (with_key k (busy x)) = (if key_active (sch x) k then 1 else 0)) \<and>
     (\<forall>k. with_key k (started x) @ queue_of (sch x) k = with_key k (submitted x)) \<and>
     mset (started x) = mset (busy x) + mset (finished x)"

lemma candidate_step [simp]:
  "tree_queues (enqueue_tree_candidate_if_eligible now k s) = tree_queues s"
  "set (ready_tree_queue s) \<subseteq> set (ready_tree_queue (enqueue_tree_candidate_if_eligible now k s))"
  by (auto simp: enqueue_tree_candidate_if_eligible_def pq_push_def split: option.splits)

lemma queue_of_candidate [simp]:
  "queue_of (enqueue_tree_candidate_if_eligible now k s) = queue_of s"
  "key_active (enqueue_tree_candidate_if_eligible now k s) = key_active s"
  by (simp_all add: queue_of_def key_active_def fun_eq_iff)

lemma candidates_ok_refresh:
  assumes "\<And>j q. j \<noteq> k \<Longrightarrow> tget (tree_queues s) j = Some q \<Longrightarrow> \<not> has_active_key q \<Longrightarrow>
      requests q \<noteq> [] \<and> (\<exists>c\<in>set (ready_tree_queue s). k_queue_key c = j \<and> k_version c = version q)"
    and "\<And>q. tget (tree_queues s) k = Some q \<Longrightarrow> \<not> has_active_key q \<Longrightarrow> requests q \<noteq> []"
  shows "candidates_ok (enqueue_tree_candidate_if_eligible now k s)"
  unfolding candidates_ok_def
proof (intro allI impI)
  fix j q
  assume q: "tget (tree_queues (enqueue_tree_candidate_if_eligible now k s)) j = Some q"
    and inact: "\<not> has_active_key q"
  show "requests q \<noteq> [] \<and> (\<exists>c\<in>set (ready_tree_queue (enqueue_tree_candidate_if_eligible now k s)).
      k_queue_key c = j \<and> k_version c = version q)"
  proof (cases "j = k")
    case False
    with q inact assms(1) [of j q] show ?thesis
      using candidate_step(2) [of s now k, THEN subsetD] by fastforce
  next
    case True
    with q inact assms(2) [of q] show ?thesis
      by (auto simp: enqueue_tree_candidate_if_eligible_def pq_push_def split: option.splits)
  qed
qed

lemma sched_ok_submit:
  assumes "sched_ok x"
  shows "sched_ok (x\<lparr>sch := enqueue_request now req (sch x), submitted := submitted x @ [req]\<rparr>)"
proof -
  let ?k = "q_queue_key req"
  let ?q = "case tget (tree_queues (sch x)) ?k of None \<Rightarrow> TreeQueue | Some q \<Rightarrow> q"
  let ?s1 = "(sch x)\<lparr>tree_queues := tput ?k (?q\<lparr>requests := requests ?q @ [req], version := version ?q + 1\<rparr>)
      (tree_queues (sch x))\<rparr>"
  have eq: "enqueue_request now req (sch x) = enqueue_tree_candidate_if_eligible now ?k ?s1"
    by (simp add: enqueue_request_def Let_def)
  have "candidates_ok (enqueue_request now req (sch x))"
    unfolding eq
    by (rule candidates_ok_refresh) (use assms in \<open>auto simp: sched_ok_def candidates_ok_def\<close>)
  moreover have "queue_of ?s1 k = queue_of (sch x) k @ with_key k [req]" for k
    by (auto simp: queue_of_def TreeQueue_def split: option.splits)
  moreover have "key_active ?s1 = key_active (sch x)"
    by (auto simp: key_active_def TreeQueue_def fun_eq_iff split: option.splits)
  ultimately show ?thesis
    using assms by (simp add: sched_ok_def eq del: with_key_simps(3) append_assoc flip: append_assoc)
qed

lemma sched_ok_pick:
  assumes ok: "sched_ok x" and pick: "pick_next_request (sch x) = (Some req, s')"
  shows "sched_ok (x\<lparr>sch := s', busy := busy x @ [req], started := started x @ [req]\<rparr>)"
proof -
  obtain c q where c: "candidate_valid (tree_queues (sch x)) c"
    and q: "tget (tree_queues (sch x)) (k_queue_key c) = Some q"
    and req: "req = hd (requests q)"
    and tq: "tree_queues s' = tput (k_queue_key c) (q\<lparr>requests := tl (requests q), has_active_key := True,
                          version := version q + 1\<rparr>) (tree_queues (sch x))"
    and keep: "\<forall>d\<in>set (ready_tree_queue (sch x)). candidate_valid (tree_queues (sch x)) d \<longrightarrow>
          d = c \<or> d \<in> set (ready_tree_queue s')"
    using pick_Some [OF pick] by blast
  let ?k = "k_queue_key c"
  have inact: "\<not> has_active_key q" "requests q \<noteq> []"
    using c q by (auto simp: candidate_valid_def)
  have fifo: "with_key k (started x) @ queue_of (sch x) k = with_key k (submitted x)" for k
    using ok by (simp add: sched_ok_def)
  have "req \<in> set (with_key ?k (submitted x))"
    using fifo [of ?k] q req inact by (auto simp: queue_of_def hd_in_set simp flip: fifo)
  then have key: "q_queue_key req = ?k" by (simp add: with_key_def)
  have "candidates_ok s'"
    unfolding candidates_ok_def
  proof (intro allI impI)
    fix j p
    assume p: "tget (tree_queues s') j = Some p" and "\<not> has_active_key p"
    then have j: "j \<noteq> ?k" "tget (tree_queues (sch x)) j = Some p" by (auto simp: tq split: if_splits)
    with ok \<open>\<not> has_active_key p\<close> obtain d where "requests p \<noteq> []" "d \<in> set (ready_tree_queue (sch x))"
      "k_queue_key d = j" "k_version d = version p"
      unfolding sched_ok_def candidates_ok_def by blast
    with j keep \<open>\<not> has_active_key p\<close> show "requests p \<noteq> [] \<and> (\<exists>c\<in>set (ready_tree_queue s').
        k_queue_key c = j \<and> k_version c = version p)"
      by (auto simp: candidate_valid_def)
  qed
  moreover have "length (with_key k (busy x @ [req])) = (if key_active s' k then 1 else 0)" for k
    using ok q inact key by (auto simp: sched_ok_def key_active_def tq)
  moreover have "with_key k (started x @ [req]) @ queue_of s' k = with_key k (submitted x)" for k
    using fifo [of k] q inact key req by (auto simp: queue_of_def tq)
  moreover have "mset (started x @ [req]) = mset (busy x @ [req]) + mset (finished x)"
    using ok by (simp add: sched_ok_def)
  ultimately show ?thesis by (simp add: sched_ok_def del: with_key_simps)
qed

lemma sched_ok_idle:
  assumes "sched_ok x" and "pick_next_request (sch x) = (None, s')"
  shows "sched_ok (x\<lparr>sch := s'\<rparr>)"
proof -
  have tq: "tree_queues s' = tree_queues (sch x)"
    and none: "\<forall>c\<in>set (ready_tree_queue (sch x)). \<not> candidate_valid (tree_queues (sch x)) c"
    using pick_None [OF assms(2)] by blast+
  have "candidates_ok s'"
    unfolding candidates_ok_def tq
  proof (intro allI impI)
    fix k q
    assume q: "tget (tree_queues (sch x)) k = Some q" "\<not> has_active_key q"
    with assms(1) obtain c where "requests q \<noteq> []" "c \<in> set (ready_tree_queue (sch x))"
      "k_queue_key c = k" "k_version c = version q"
      unfolding sched_ok_def candidates_ok_def by blast
    with q none show "requests q \<noteq> [] \<and> (\<exists>c\<in>set (ready_tree_queue s'). k_queue_key c = k \<and> k_version c = version q)"
      by (auto simp: candidate_valid_def)
  qed
  moreover have "queue_of s' = queue_of (sch x)" "key_active s' = key_active (sch x)"
    by (simp_all add: queue_of_def key_active_def tq fun_eq_iff)
  ultimately show ?thesis using assms(1) by (simp add: sched_ok_def)
qed

lemma sched_ok_finish:
  assumes ok: "sched_ok x" and req: "req \<in> set (busy x)"
  shows "sched_ok (x\<lparr>sch := release_tree_key now (q_queue_key req) (sch x),
    busy := remove1 req (busy x), finished := finished x @ [req]\<rparr>)"
proof -
  let ?k = "q_queue_key req"
  let ?s' = "release_tree_key now ?k (sch x)"
  have "req \<in> set (with_key ?k (busy x))" using req by (simp add: with_key_def)
  then have "length (with_key ?k (busy x)) \<noteq> 0" by auto
  with ok have act: "key_active (sch x) ?k" and one: "length (with_key ?k (busy x)) = 1"
    by (auto simp: sched_ok_def split: if_splits)
  then obtain q where q: "tget (tree_queues (sch x)) ?k = Some q" "has_active_key q"
    by (auto simp: key_active_def split: option.splits)
  let ?q' = "q\<lparr>has_active_key := False, version := version q + 1\<rparr>"
  let ?s1 = "(sch x)\<lparr>tree_queues := tput ?k ?q' (tree_queues (sch x))\<rparr>"
  have rel: "?s' = (if requests q = [] then (sch x)\<lparr>tree_queues := tdel ?k (tree_queues (sch x))\<rparr>
      else enqueue_tree_candidate_if_eligible now ?k ?s1)"
    using q by (simp add: release_tree_key_def Let_def)
  have old: "candidates_ok (sch x)" using ok by (simp add: sched_ok_def)
  have "candidates_ok ?s'"
  proof (cases "requests q = []")
    case True
    with old show ?thesis by (auto simp: rel candidates_ok_def)
  next
    case False
    have "candidates_ok (enqueue_tree_candidate_if_eligible now ?k ?s1)"
      by (rule candidates_ok_refresh) (use old False in \<open>auto simp: candidates_ok_def\<close>)
    with False show ?thesis by (simp add: rel)
  qed
  moreover have "queue_of ?s' = queue_of (sch x)"
    using q by (auto simp: rel queue_of_def fun_eq_iff)
  moreover have "key_active ?s' = (key_active (sch x))(?k := False)"
    using q by (auto simp: rel key_active_def fun_eq_iff)
  moreover have "length (with_key k (remove1 req (busy x))) = (if (k = ?k) then 0 else length (with_key k (busy x)))" for k
    using one req by (simp add: with_key_def filter_remove1 length_remove1)
  moreover have "mset (started x) = mset (remove1 req (busy x)) + mset (finished x @ [req])"
    using ok req by (simp add: sched_ok_def)
  ultimately show ?thesis using ok by (auto simp: sched_ok_def)
qed

interpretation sched: inductive_invariant run_init sched_step sched_ok
proof unfold_locales
  show "run_init x \<Longrightarrow> sched_ok x" for x
    by (simp add: run_init_def sched_ok_def candidates_ok_def SchedulerService_def key_active_def queue_of_def)
  show "sched_ok x \<Longrightarrow> sched_step x y \<Longrightarrow> sched_ok y" for x y
    by (auto elim!: sched_step.cases intro: sched_ok_submit sched_ok_pick sched_ok_idle sched_ok_finish)
qed

lemma sched_ok_active:
  assumes "sched_ok x"
  shows "key_active (sch x) k = (k \<in> q_queue_key ` set (busy x))"
proof -
  have "length (with_key k (busy x)) = (if key_active (sch x) k then 1 else 0)"
    using assms by (simp add: sched_ok_def)
  moreover have "k \<in> q_queue_key ` set (busy x) \<longleftrightarrow> with_key k (busy x) \<noteq> []"
    by (auto simp: with_key_def filter_empty_conv)
  ultimately show ?thesis by (cases "key_active (sch x) k") auto
qed

lemma distinct_keys: "(\<And>k. length (with_key k xs) \<le> 1) \<Longrightarrow> distinct (map q_queue_key xs)"
proof (induction xs)
  case (Cons r xs)
  have "length (with_key (q_queue_key r) xs) = 0"
    using Cons.prems [of "q_queue_key r"] by (simp add: with_key_def)
  then have "q_queue_key r \<notin> q_queue_key ` set xs"
    by (auto simp: with_key_def filter_empty_conv)
  moreover have "length (with_key k xs) \<le> 1" for k
    using Cons.prems [of k] by (simp add: with_key_def split: if_splits)
  ultimately show ?case using Cons.IH by simp
qed simp

section \<open>A concrete run\<close>

definition demo_request :: pending_request where
  "demo_request = \<lparr>q_request_id = ''r'', q_trace_id = ''t'', q_tree_id = ''T'', q_queue_key = ''T'',
     q_source_pid = 1000, q_base_priority = 1, q_payload = JNull, q_enqueued_at = 0\<rparr>"

definition demo_submitted :: sched_run where
  "demo_submitted = \<lparr>sch = enqueue_request 10 demo_request SchedulerService, busy = [],
     submitted = [demo_request], started = [], finished = []\<rparr>"

lemma demo_submitted_reach: "reach run_init sched_step demo_submitted"
proof -
  let ?i = "\<lparr>sch = SchedulerService, busy = [], submitted = [], started = [], finished = []\<rparr>"
  have "sched_step ?i (?i\<lparr>sch := enqueue_request 10 demo_request (sch ?i), submitted := submitted ?i @ [demo_request]\<rparr>)"
    by (rule ss_submit)
  then have "sched_step ?i demo_submitted" by (simp add: demo_submitted_def)
  then show ?thesis by (intro reach_step [OF reach_init]) (simp add: run_init_def)
qed

lemma demo_queue: "queue_of (sch demo_submitted) ''T'' = [demo_request]"
  by (simp add: demo_submitted_def enqueue_request_def enqueue_tree_candidate_if_eligible_def
      SchedulerService_def TreeQueue_def queue_of_def Let_def demo_request_def)

section \<open>Properties\<close>

text \<open>C4: no two requests with the same queue key are ever processed at once.\<close>

theorem one_request_per_key:
  assumes "reach run_init sched_step x"
  shows "distinct (map q_queue_key (busy x)) \<and>
    (\<forall>k. key_active (sch x) k = (k \<in> q_queue_key ` set (busy x)))"
proof -
  have ok: "sched_ok x" using assms by (rule sched.reach_inv)
  then have "length (with_key k (busy x)) \<le> 1" for k by (simp add: sched_ok_def)
  then show ?thesis using sched_ok_active [OF ok] by (blast intro: distinct_keys)
qed

theorem one_request_per_key_witness:
  "\<forall>k. key_active (sch demo_submitted) k = (k \<in> q_queue_key ` set (busy demo_submitted))"
  using one_request_per_key [OF demo_submitted_reach] by blast

text \<open>C5: no request is lost, duplicated or overtaken by a later one with the same key: for every key,
  the requests started and those still queued, in this order, are the submitted ones; and every
  started request is being processed or finished.\<close>

theorem requests_in_order:
  assumes "reach run_init sched_step x"
  shows "(\<forall>k. with_key k (started x) @ queue_of (sch x) k = with_key k (submitted x)) \<and>
    mset (started x) = mset (busy x) + mset (finished x)"
  using sched.reach_inv [OF assms] by (simp add: sched_ok_def)

theorem requests_in_order_witness:
  "with_key ''T'' (started demo_submitted) @ queue_of (sch demo_submitted) ''T'' =
     with_key ''T'' (submitted demo_submitted)"
  using requests_in_order [OF demo_submitted_reach] by blast

text \<open>C6: a worker that looks for work finds some whenever there is any: if the request queue of some
  key is not empty and no request of that key is being processed, picking yields a request, the
  oldest of its queue, whose key is free; outdated candidates never hide it.\<close>

theorem pick_finds_work:
  assumes "reach run_init sched_step x"
    and "queue_of (sch x) k \<noteq> []" and "k \<notin> q_queue_key ` set (busy x)"
  shows "\<exists>req s' k' rest. pick_next_request (sch x) = (Some req, s') \<and>
    queue_of (sch x) k' = req # rest \<and> queue_of s' k' = rest \<and> k' \<notin> q_queue_key ` set (busy x)"
proof -
  have ok: "sched_ok x" using assms(1) by (rule sched.reach_inv)
  note act = sched_ok_active [OF ok]
  obtain q where q: "tget (tree_queues (sch x)) k = Some q" "requests q \<noteq> []"
    using assms(2) by (auto simp: queue_of_def split: option.splits)
  moreover have "\<not> has_active_key q" using act [of k] assms(3) q by (simp add: key_active_def)
  ultimately obtain c where "c \<in> set (ready_tree_queue (sch x))" "candidate_valid (tree_queues (sch x)) c"
    using ok unfolding sched_ok_def candidates_ok_def candidate_valid_def
    by fastforce
  then obtain req s' where pick: "pick_next_request (sch x) = (Some req, s')"
    using pick_None [of "sch x"] by (metis option.exhaust prod.collapse)
  from pick_Some [OF pick] obtain d p where d: "candidate_valid (tree_queues (sch x)) d"
    "tget (tree_queues (sch x)) (k_queue_key d) = Some p" "req = hd (requests p)"
    "tree_queues s' = tput (k_queue_key d) (p\<lparr>requests := tl (requests p), has_active_key := True,
        version := version p + 1\<rparr>) (tree_queues (sch x))"
    by blast
  then have "requests p \<noteq> []" "\<not> has_active_key p" by (auto simp: candidate_valid_def)
  with d act [of "k_queue_key d"] pick show ?thesis
    by (intro exI [of _ req] exI [of _ s'] exI [of _ "k_queue_key d"] exI [of _ "tl (requests p)"])
      (auto simp: queue_of_def key_active_def)
qed

theorem pick_finds_work_witness:
  "\<exists>req s'. pick_next_request (sch demo_submitted) = (Some req, s')"
proof -
  have "busy demo_submitted = []" by (simp add: demo_submitted_def)
  then show ?thesis
    using pick_finds_work [OF demo_submitted_reach, of "''T''"] demo_queue by auto
qed

end
