(* ===== verification/Scheduler_Requests.thy ===== *)
theory Scheduler_Requests
  imports Scheduler
begin

text \<open>
  The request side of \<^verbatim>\<open>llm/scheduler.cpp\<close>: validation of an incoming request and the choice of
  its queue key, the token budget, the order of the messages sent to the provider, the merging of
  streamed tool calls, the normal form of tool calls, and the undo of a turn. JSON text (\<open>parse\<close>,
  \<open>dump\<close>) and generated identifiers are parameters.
\<close>

section \<open>Reading a request\<close>

definition kCompacterInternalPid :: int where
  "kCompacterInternalPid = 2147483647"

text \<open>\<open>if (!j.contains(k) && envelope.contains(k)) j[k] = envelope[k]\<close> on an object.\<close>

definition fill_field :: "json \<Rightarrow> string \<Rightarrow> json \<Rightarrow> json" where
  "fill_field envelope k j =
     (if jcontains j k then j
      else case jget envelope k of
          None \<Rightarrow> j
        | Some v \<Rightarrow> (case jset k v j of Inl e \<Rightarrow> j | Inr j' \<Rightarrow> j'))"

definition unwrap_envelope :: "json \<Rightarrow> json" where
  "unwrap_envelope envelope =
     (case jget envelope ''payload'' of
        Some (JObject m) \<Rightarrow>
          fold (fill_field envelope)
            [''request_id'', ''trace_id'', ''tree_id'', ''source_pid'', ''priority'', ''mode'']
            (JObject (oput ''message_type'' (JString ''LLM_REQUEST'') m))
      | _ \<Rightarrow> envelope)"

definition nonempty_string_field :: "json \<Rightarrow> string \<Rightarrow> bool" where
  "nonempty_string_field j k = (case jget j k of Some (JString s) \<Rightarrow> s \<noteq> [] | _ \<Rightarrow> False)"

definition array_field :: "json \<Rightarrow> string \<Rightarrow> bool" where
  "array_field j k = (case jget j k of Some (JArray xs) \<Rightarrow> True | _ \<Rightarrow> False)"

definition queue_key_for :: "string \<Rightarrow> string \<Rightarrow> string \<Rightarrow> string" where
  "queue_key_for tree_id mode user_id =
     (if tree_id = ''TREE_HANDLER'' \<and> mode = ''user_conversation'' \<and> user_id \<noteq> []
      then ''user_'' @ user_id else tree_id)"

text \<open>The rules of each mode; \<open>Inr ()\<close> when they hold.\<close>

definition check_mode :: "json \<Rightarrow> string \<Rightarrow> unit res" where
  "check_mode p mode =
     (if mode = ''simple'' then
        rbind (jvalue as_string p ''convo_id'' []) (\<lambda>convo_id.
        rbind (if convo_id \<noteq> [] then Inr True
               else rbind (jvalue as_string p ''user_id'' []) (\<lambda>u. Inr (u \<noteq> []))) (\<lambda>has_ids.
          if has_ids then Inl (Runtime_Error ''simple mode requires empty convo_id and user_id'')
          else if \<not> array_field p ''messages'' \<and> \<not> nonempty_string_field p ''user_message''
          then Inl (Runtime_Error ''simple mode requires messages[] or user_message'')
          else Inr ()))
      else if mode = ''conversation'' \<or> mode = ''user_conversation'' then
        (if \<not> array_field p ''messages'' \<and>
            \<not> (jcontains p ''user_message'' \<or> jcontains p ''system_message'' \<or>
               jcontains p ''tool_result'' \<or> jcontains p ''tool_message'' \<or>
               jcontains p ''tool_messages'')
         then Inl (Runtime_Error
                ''conversation modes require messages[] or user_message/system_message/tool_result'')
         else rbind (jvalue as_string p ''user_id'' []) (\<lambda>user_id.
           if mode = ''conversation''
           then (if user_id \<noteq> [] then Inl (Runtime_Error ''conversation mode requires empty user_id'')
                 else Inr ())
           else (if user_id = [] then Inl (Runtime_Error ''user_conversation mode requires user_id'')
                 else Inr ())))
      else Inl (Runtime_Error (''unsupported mode: '' @ mode)))"

definition parse_request_payload :: "int \<Rightarrow> json \<Rightarrow> pending_request res" where
  "parse_request_payload now envelope =
     rbind (jvalue as_string envelope ''message_type'' []) (\<lambda>message_type.
     if message_type \<noteq> ''LLM_REQUEST''
     then Inl (Runtime_Error ''Scheduler only accepts message_type=LLM_REQUEST'')
     else
       (let j = unwrap_envelope envelope
        in if \<not> nonempty_string_field j ''request_id''
           then Inl (Runtime_Error ''LLM_REQUEST requires non-empty string request_id'')
           else if \<not> nonempty_string_field j ''tree_id''
           then Inl (Runtime_Error ''LLM_REQUEST requires non-empty string tree_id'')
           else
             rbind (jvalue as_int j ''source_pid'' 0) (\<lambda>source_pid.
             if (case jget j ''source_pid'' of Some v \<Rightarrow> \<not> is_number_integer v | None \<Rightarrow> True) \<or>
                (source_pid \<le> 0 \<and> source_pid \<noteq> kCompacterInternalPid)
             then Inl (Runtime_Error ''LLM_REQUEST requires positive integer source_pid'')
             else if (case jget j ''mode'' of Some (JString m) \<Rightarrow> False | _ \<Rightarrow> True)
             then Inl (Runtime_Error ''LLM_REQUEST requires mode'')
             else
               rbind (jvalue as_string j ''request_id'' []) (\<lambda>request_id.
               rbind (jvalue as_string j ''trace_id'' []) (\<lambda>trace_id.
               rbind (jvalue as_string j ''tree_id'' []) (\<lambda>tree_id.
               rbind (jvalue as_int j ''priority'' 1) (\<lambda>priority.
               rbind (jvalue as_string j ''mode'' ''simple'') (\<lambda>mode.
               rbind (jvalue as_string j ''user_id'' []) (\<lambda>user_id.
               rbind (check_mode j mode) (\<lambda>_.
                 Inr \<lparr>q_request_id = request_id, q_trace_id = trace_id, q_tree_id = tree_id,
                      q_queue_key = queue_key_for tree_id mode user_id, q_source_pid = source_pid,
                      q_base_priority = priority, q_payload = j, q_enqueued_at = now\<rparr>)))))))))) "

section \<open>The token budget\<close>

text \<open>\<open>None\<close> when the context is exceeded, else the limit on generated tokens. The source converts
  to \<open>int\<close> for the subtraction.\<close>

definition token_budget :: "nat \<Rightarrow> nat \<Rightarrow> int \<Rightarrow> int option" where
  "token_budget context_length input_tokens current_max =
     (if context_length = 0 then Some current_max
      else if input_tokens \<ge> (if context_length > 100 then context_length - 100 else 0) then None
      else
        (let available0 = to_int32 (int context_length) - to_int32 (int input_tokens) - 100;
             available = (if available0 < 10 then 10 else available0)
         in Some (if current_max > available then available else current_max)))"

section \<open>Messages for the provider\<close>

definition role_of :: "json \<Rightarrow> string res" where
  "role_of m = jvalue as_string m ''role'' []"

text \<open>System messages first; what is not an object is dropped; an unreadable role is an error.\<close>

fun split_roles :: "json list \<Rightarrow> (json list \<times> json list) res" where
  "split_roles [] = Inr ([], [])"
| "split_roles (m # ms) =
     (if \<not> is_object m then split_roles ms
      else rbind (role_of m) (\<lambda>role.
           rbind (split_roles ms) (\<lambda>(sys, others).
             Inr (if role = ''system'' then (m # sys, others) else (sys, m # others)))))"

definition order_messages :: "json list \<Rightarrow> json list res" where
  "order_messages ms = rbind (split_roles ms) (\<lambda>(sys, others). Inr (sys @ others))"

section \<open>Streamed tool calls\<close>

text \<open>Merging a delta into an object. The source inserts an absent key, merges objects, appends to a
  string of \<open>arguments\<close> and otherwise replaces.\<close>

function merge_object :: "json \<Rightarrow> json \<Rightarrow> json" and
  merge_fields :: "(string \<times> json) list \<Rightarrow> (string \<times> json) list \<Rightarrow> (string \<times> json) list" where
  "merge_object target delta =
     (case delta of
        JObject d \<Rightarrow> (case target of JObject t \<Rightarrow> JObject (merge_fields t d) | _ \<Rightarrow> target)
      | _ \<Rightarrow> target)"
| "merge_fields t [] = t"
| "merge_fields t ((k, v) # d) =
     merge_fields
       (case oget t k of
          None \<Rightarrow> oput k v t
        | Some existing \<Rightarrow>
            if is_object existing \<and> is_object v then oput k (merge_object existing v) t
            else (case (existing, v) of
                    (JString a, JString b) \<Rightarrow> oput k (JString (if k = ''arguments'' then a @ b else b)) t
                  | _ \<Rightarrow> oput k v t)) d"
  by pat_completeness auto
termination
  by (relation "measure (\<lambda>x. case x of Inl (t, d) \<Rightarrow> 2 * size d + 1 | Inr (t, d) \<Rightarrow> 2 * size_list (size_prod (\<lambda>_. 0) size) d)")
    auto

declare merge_object.simps [simp del]

text \<open>The first partial call with the given id.\<close>

fun slot_by_id :: "nat \<Rightarrow> json list \<Rightarrow> string \<Rightarrow> nat option res" where
  "slot_by_id i [] tid = Inr None"
| "slot_by_id i (p # ps) tid =
     rbind (jvalue as_string p ''id'' []) (\<lambda>pid. if pid = tid then Inr (Some i) else slot_by_id (i + 1) ps tid)"

definition find_slot_for_delta :: "json list \<Rightarrow> json \<Rightarrow> nat res" where
  "find_slot_for_delta partials delta =
     (let by_id =
            rbind (jvalue as_string delta ''id'' []) (\<lambda>tid.
            rbind (if tid \<noteq> [] then slot_by_id 0 partials tid else Inr None) (\<lambda>found.
              Inr (case found of
                     Some i \<Rightarrow> i
                   | None \<Rightarrow> if partials = [] then 0 else length partials - 1)))
      in case jget delta ''index'' of
           Some (JInt i) \<Rightarrow> if to_int32 i \<ge> 0 then Inr (nat (to_int32 i)) else by_id
         | _ \<Rightarrow> by_id)"

record stream_chunk =
  delta_text :: string
  delta_tool_call :: json
  chunk_finished :: bool

record chat_aggregate =
  agg_content :: string
  agg_finish_reason :: string
  agg_partials :: "json list"
  agg_tokens :: "string list"

text \<open>\<open>resize(slot + 1, json::object())\<close> when the slot is not there yet.\<close>

definition ensure_slot :: "nat \<Rightarrow> json list \<Rightarrow> json list" where
  "ensure_slot slot ps = (if slot \<ge> length ps then ps @ replicate (slot + 1 - length ps) (JObject []) else ps)"

definition on_stream_chunk :: "chat_aggregate \<Rightarrow> stream_chunk \<Rightarrow> chat_aggregate res" where
  "on_stream_chunk agg chunk =
     (let a1 = agg\<lparr>agg_content := agg_content agg @ delta_text chunk,
                   agg_tokens := agg_tokens agg @ (if delta_text chunk \<noteq> [] then [delta_text chunk] else [])\<rparr>
      in rbind (if is_object (delta_tool_call chunk)
                then rbind (find_slot_for_delta (agg_partials a1) (delta_tool_call chunk)) (\<lambda>slot.
                       let ps = ensure_slot slot (agg_partials a1)
                       in Inr (a1\<lparr>agg_partials := ps[slot := merge_object (ps ! slot) (delta_tool_call chunk)]\<rparr>))
                else Inr a1) (\<lambda>a2.
           Inr (if chunk_finished chunk \<and> agg_finish_reason a2 = []
                then a2\<lparr>agg_finish_reason := ''stop''\<rparr> else a2)))"

fun on_stream :: "chat_aggregate \<Rightarrow> stream_chunk list \<Rightarrow> chat_aggregate res" where
  "on_stream agg [] = Inr agg"
| "on_stream agg (c # cs) = rbind (on_stream_chunk agg c) (\<lambda>a. on_stream a cs)"

definition finish_tool_call :: "json \<Rightarrow> json list" where
  "finish_tool_call call =
     (case call of
        JObject m \<Rightarrow>
          if m = [] then []
          else
            (let m1 = odel ''index'' m
             in [JObject (if nonempty_string_field (JObject m1) ''type'' then m1
                          else oput ''type'' (JString ''function'') m1)])
      | _ \<Rightarrow> [])"

definition finish_stream :: "chat_aggregate \<Rightarrow> json list" where
  "finish_stream agg = concat (map finish_tool_call (agg_partials agg))"

section \<open>Normal form of tool calls\<close>

definition normalize_tool_arguments_object ::
  "(string \<Rightarrow> json res) \<Rightarrow> (json \<Rightarrow> string) \<Rightarrow> json \<Rightarrow> json" where
  "normalize_tool_arguments_object parse dump raw =
     (case raw of
        JObject m \<Rightarrow> raw
      | JString s \<Rightarrow>
          if s = [] then jobj []
          else (case parse s of
                  Inr parsed \<Rightarrow> if is_object parsed then parsed
                                else jobj [(''_raw'', JString (dump parsed))]
                | Inl e \<Rightarrow> jobj [(''_raw'', JString s)])
      | JNull \<Rightarrow> jobj []
      | _ \<Rightarrow> jobj [(''_raw'', JString (dump raw))])"

definition normalize_tool_call ::
  "(string \<Rightarrow> json res) \<Rightarrow> (json \<Rightarrow> string) \<Rightarrow> string \<Rightarrow> json \<Rightarrow> int \<Rightarrow> json res" where
  "normalize_tool_call parse dump uuid tool_call fallback_index =
     rbind (jvalue as_json tool_call ''function'' (jobj [])) (\<lambda>fn.
     rbind (jvalue as_string tool_call ''name'' []) (\<lambda>outer_name.
     rbind (jvalue as_string fn ''name'' outer_name) (\<lambda>name.
       if name = [] then Inl (Runtime_Error ''tool_call missing function.name'')
       else
         rbind (case jget fn ''arguments'' of
                  Some a \<Rightarrow> Inr a
                | None \<Rightarrow> jvalue as_json tool_call ''arguments'' (jobj [])) (\<lambda>raw.
         rbind (jvalue as_string tool_call ''id'' []) (\<lambda>tid.
           let cid = (if tid = [] then ''call_'' @ to_string_int fallback_index @ ''_'' @ take 8 uuid
                      else tid)
           in Inr (jobj [(''id'', JString cid), (''type'', JString ''function''),
                         (''function'', jobj [(''name'', JString name),
                            (''arguments'', normalize_tool_arguments_object parse dump raw)])]))))))"

section \<open>Undo\<close>

text \<open>The last index below \<open>n\<close> of an object with the given role; an unreadable role is an error.\<close>

fun last_role :: "string \<Rightarrow> json list \<Rightarrow> nat \<Rightarrow> nat option res" where
  "last_role role ms 0 = Inr None"
| "last_role role ms (Suc n) =
     (if \<not> is_object (ms ! n) then last_role role ms n
      else rbind (role_of (ms ! n)) (\<lambda>r. if r = role then Inr (Some n) else last_role role ms n))"

definition undo_cut :: "json list \<Rightarrow> nat option res" where
  "undo_cut ms =
     rbind (last_role ''assistant'' ms (length ms)) (\<lambda>last_assistant.
       case last_assistant of None \<Rightarrow> Inr None | Some i \<Rightarrow> last_role ''user'' ms i)"

text \<open>The messages that remain and the number removed.\<close>

definition undo_messages :: "json list \<Rightarrow> (json list \<times> nat) res" where
  "undo_messages ms =
     rbind (undo_cut ms) (\<lambda>cut.
       Inr (case cut of None \<Rightarrow> (ms, 0) | Some i \<Rightarrow> (take i ms, length ms - i)))"

text \<open>The turn count and the token estimate of the remaining messages.\<close>

fun recount :: "(json \<Rightarrow> string) \<Rightarrow> json list \<Rightarrow> (int \<times> nat) res" where
  "recount dump [] = Inr (0, 0)"
| "recount dump (m # ms) =
     (if \<not> is_object m then recount dump ms
      else rbind (jvalue as_string m ''role'' []) (\<lambda>r.
           rbind (jvalue as_string m ''content'' []) (\<lambda>c.
           rbind (recount dump ms) (\<lambda>(turns, tokens).
             Inr (turns + (if r = ''user'' \<or> r = ''assistant'' then 1 else 0),
                  tokens + (if c \<noteq> [] then max 1 (length c div 3) else 0) +
                  (case jget m ''tool_calls'' of
                     Some (JArray xs) \<Rightarrow> max 1 (length (dump (JArray xs)) div 3)
                   | _ \<Rightarrow> 0))))))"

section \<open>Lemmas\<close>

lemma nonempty_string_fieldD:
  "nonempty_string_field j k \<Longrightarrow> jvalue as_string j k d = Inr v \<Longrightarrow> v \<noteq> [] \<and> jget j k = Some (JString v)"
  by (cases j) (auto simp: nonempty_string_field_def as_string_Inr split: option.splits json.splits)

lemma check_mode_ok:
  assumes "check_mode p mode = Inr ()"
  shows "(mode = ''simple'' \<or> mode = ''conversation'' \<or> mode = ''user_conversation'') \<and>
    (mode \<noteq> ''user_conversation'' \<longrightarrow> jvalue as_string p ''user_id'' [] = Inr []) \<and>
    (mode = ''user_conversation'' \<longrightarrow> (\<exists>u. jvalue as_string p ''user_id'' [] = Inr u \<and> u \<noteq> []))"
  using assms by (auto simp: check_mode_def rbind_Inr_conv split: if_splits)

lemma last_role_Some:
  "last_role role ms n = Inr (Some i) \<Longrightarrow>
     i < n \<and> is_object (ms ! i) \<and> role_of (ms ! i) = Inr role \<and>
     (\<forall>j. i < j \<longrightarrow> j < n \<longrightarrow> is_object (ms ! j) \<longrightarrow> role_of (ms ! j) \<noteq> Inr role)"
proof (induction n)
  case (Suc n)
  show ?case
  proof (cases "is_object (ms ! n) \<and> role_of (ms ! n) = Inr role")
    case True
    with Suc.prems show ?thesis by auto
  next
    case False
    with Suc.prems have "last_role role ms n = Inr (Some i)"
      by (auto simp: rbind_Inr_conv split: if_splits)
    with Suc.IH False show ?thesis by (auto simp: less_Suc_eq)
  qed
qed simp

lemma last_role_None:
  "last_role role ms n = Inr None \<Longrightarrow> j < n \<Longrightarrow> is_object (ms ! j) \<Longrightarrow> role_of (ms ! j) \<noteq> Inr role"
proof (induction n)
  case (Suc n)
  then show ?case by (cases "j = n") (auto simp: rbind_Inr_conv split: if_splits)
qed simp

text \<open>A delta that carries one more piece of a call's arguments.\<close>

definition fragment :: "string \<Rightarrow> json" where
  "fragment s = JObject [(''function'', JObject [(''arguments'', JString s)])]"

definition call_arguments :: "json \<Rightarrow> json option" where
  "call_arguments c = (case jget c ''function'' of None \<Rightarrow> None | Some f \<Rightarrow> jget f ''arguments'')"

lemma merge_fragment:
  assumes "jget c ''function'' = Some (JObject f)" and "oget f ''arguments'' = Some (JString a)"
  shows "\<exists>f'. jget (merge_object c (fragment s)) ''function'' = Some (JObject f') \<and>
      oget f' ''arguments'' = Some (JString (a @ s)) \<and>
      (\<forall>k. k \<noteq> ''function'' \<longrightarrow> jget (merge_object c (fragment s)) k = jget c k) \<and>
      (\<forall>k. k \<noteq> ''arguments'' \<longrightarrow> oget f' k = oget f k)"
proof -
  obtain m where m: "c = JObject m" using assms(1) by (cases c) auto
  show ?thesis
    using assms by (auto simp: m fragment_def merge_object.simps)
qed

lemma merge_fragments:
  assumes "jget c ''function'' = Some (JObject f)" and "oget f ''arguments'' = Some (JString a)"
  shows "\<exists>f'. jget (fold (\<lambda>s c. merge_object c (fragment s)) frags c) ''function'' = Some (JObject f') \<and>
      oget f' ''arguments'' = Some (JString (a @ concat frags)) \<and>
      (\<forall>k. k \<noteq> ''function'' \<longrightarrow> jget (fold (\<lambda>s c. merge_object c (fragment s)) frags c) k = jget c k) \<and>
      (\<forall>k. k \<noteq> ''arguments'' \<longrightarrow> oget f' k = oget f k)"
  using assms
proof (induction frags arbitrary: c f a)
  case (Cons s frags)
  obtain f1 where f1: "jget (merge_object c (fragment s)) ''function'' = Some (JObject f1)"
    "oget f1 ''arguments'' = Some (JString (a @ s))"
    "\<forall>k. k \<noteq> ''function'' \<longrightarrow> jget (merge_object c (fragment s)) k = jget c k"
    "\<forall>k. k \<noteq> ''arguments'' \<longrightarrow> oget f1 k = oget f k"
    using merge_fragment [OF Cons.prems, of s] by blast
  from Cons.IH [OF f1(1,2)] f1(3,4) show ?case by auto
qed auto

section \<open>Properties\<close>

text \<open>a request that the scheduler accepts is well formed: it has a request id, a tree and a
  positive source pid, one of the three modes, a user exactly in user conversation mode; and it
  waits in the queue of its tree, except that users of the handler tree have a queue each.\<close>

theorem accepted_request_well_formed:
  assumes "parse_request_payload now envelope = Inr req"
  shows "q_request_id req \<noteq> [] \<and> q_tree_id req \<noteq> [] \<and> 0 < q_source_pid req \<and>
    q_enqueued_at req = now \<and> q_payload req = unwrap_envelope envelope \<and>
    (\<exists>mode user_id.
       jvalue as_string (q_payload req) ''mode'' ''simple'' = Inr mode \<and>
       jvalue as_string (q_payload req) ''user_id'' [] = Inr user_id \<and>
       mode \<in> {''simple'', ''conversation'', ''user_conversation''} \<and>
       (user_id \<noteq> []) = (mode = ''user_conversation'') \<and>
       q_queue_key req = (if q_tree_id req = ''TREE_HANDLER'' \<and> user_id \<noteq> [] then ''user_'' @ user_id
                          else q_tree_id req))"
proof -
  let ?j = "unwrap_envelope envelope"
  from assms obtain source_pid request_id trace_id tree_id priority mode user_id where
    ids: "nonempty_string_field ?j ''request_id''" "nonempty_string_field ?j ''tree_id''"
    and pid: "\<not> (source_pid \<le> 0 \<and> source_pid \<noteq> kCompacterInternalPid)"
    and rid: "jvalue as_string ?j ''request_id'' [] = Inr request_id"
    and tid: "jvalue as_string ?j ''tree_id'' [] = Inr tree_id"
    and mode: "jvalue as_string ?j ''mode'' ''simple'' = Inr mode"
    and uid: "jvalue as_string ?j ''user_id'' [] = Inr user_id"
    and chk: "check_mode ?j mode = Inr ()"
    and req: "req = \<lparr>q_request_id = request_id, q_trace_id = trace_id, q_tree_id = tree_id,
      q_queue_key = queue_key_for tree_id mode user_id, q_source_pid = source_pid,
      q_base_priority = priority, q_payload = ?j, q_enqueued_at = now\<rparr>"
    by (auto simp: parse_request_payload_def Let_def rbind_Inr_conv split: if_splits)
  have "0 < source_pid" using pid by (auto simp: kCompacterInternalPid_def)
  moreover have "request_id \<noteq> []" "tree_id \<noteq> []"
    using nonempty_string_fieldD [OF ids(1) rid] nonempty_string_fieldD [OF ids(2) tid] by blast+
  moreover have "mode \<in> {''simple'', ''conversation'', ''user_conversation''}"
    "(user_id \<noteq> []) = (mode = ''user_conversation'')"
    using check_mode_ok [OF chk] uid by auto
  ultimately show ?thesis using req mode uid by (auto simp: queue_key_for_def)
qed

theorem accepted_request_well_formed_witness:
  "\<exists>req. parse_request_payload 3 (jobj [(''message_type'', JString ''LLM_REQUEST''),
      (''request_id'', JString ''r''), (''tree_id'', JString ''TREE_HANDLER''),
        (''source_pid'', JInt 1000), (''mode'', JString ''user_conversation''),
        (''user_id'', JString ''u''), (''user_message'', JString ''hi'')]) = Inr req \<and>
      q_queue_key req = ''user_u''"
proof -
  let ?e = "jobj [(''message_type'', JString ''LLM_REQUEST''),
      (''request_id'', JString ''r''), (''tree_id'', JString ''TREE_HANDLER''),
        (''source_pid'', JInt 1000), (''mode'', JString ''user_conversation''),
        (''user_id'', JString ''u''), (''user_message'', JString ''hi'')]"
  obtain req where req: "parse_request_payload 3 ?e = Inr req" "q_tree_id req = ''TREE_HANDLER''"
    and uid: "jvalue as_string (q_payload req) ''user_id'' [] = Inr ''u''"
    by (simp add: parse_request_payload_def Let_def unwrap_envelope_def
        nonempty_string_field_def check_mode_def array_field_def jcontains_def to_int32_def)
  from accepted_request_well_formed [OF req(1)] req uid show ?thesis by auto
qed

text \<open>the arguments of a tool call that a provider streams in pieces are put together in order,
  whatever the pieces are, and nothing else of the call changes.\<close>

theorem streamed_arguments_concatenate:
  assumes "call_arguments c = Some (JString a)"
    and "c' = fold (\<lambda>s c. merge_object c (fragment s)) frags c"
  shows "call_arguments c' = Some (JString (a @ concat frags)) \<and>
    (\<forall>k. k \<noteq> ''function'' \<longrightarrow> jget c' k = jget c k)"
proof -
  obtain f where f: "jget c ''function'' = Some (JObject f)" "oget f ''arguments'' = Some (JString a)"
    using assms(1) by (auto simp: call_arguments_def split: option.splits elim!: jget.elims)
  from merge_fragments [OF this, of frags] show ?thesis
    by (auto simp: assms(2) call_arguments_def)
qed

theorem streamed_arguments_concatenate_witness:
  "call_arguments (fold (\<lambda>s c. merge_object c (fragment s)) [''b'', ''cd''] (fragment ''a'')) = Some (JString ''abcd'')"
  using streamed_arguments_concatenate [of "fragment ''a''" "''a''", OF _ refl, of "[''b'', ''cd'']"]
  by (simp add: call_arguments_def fragment_def)

text \<open>an accepted request fits the model's context: the estimated input and the tokens it may
  generate together do not exceed the context length, and it may generate at least one token if it
  asked for any.\<close>

theorem token_budget_fits:
  assumes "token_budget context_length input_tokens current_max = Some m"
    and "0 < context_length" and "int context_length \<le> INT_MAX"
  shows "int input_tokens + m \<le> int context_length \<and> m \<le> current_max \<and> (0 < current_max \<longrightarrow> 0 < m)"
proof -
  have lt: "context_length > 100" "input_tokens < context_length - 100"
    using assms(1,2) by (auto simp: token_budget_def split: if_splits)
  then have "to_int32 (int context_length) = int context_length" "to_int32 (int input_tokens) = int input_tokens"
    using assms(3) by (auto intro!: to_int32_id)
  with assms lt show ?thesis
    by (auto simp: token_budget_def Let_def split: if_splits)
qed

theorem token_budget_fits_witness: "int 500 + 400 \<le> int 1000"
proof -
  have "token_budget 1000 500 8192 = Some 400" by (simp add: token_budget_def to_int32_def)
  from token_budget_fits [OF this] show ?thesis by simp
qed

text \<open>undo keeps a prefix of the conversation and removes, if anything, the last user message
  before the last assistant message and everything from there on; without such a pair nothing is
  removed.\<close>

theorem undo_removes_last_exchange:
  assumes "undo_messages ms = Inr (kept, removed)"
  shows "kept = take (length ms - removed) ms \<and> removed \<le> length ms \<and>
    (if removed = 0 then kept = ms
     else \<exists>a. length kept < a \<and> a < length ms \<and>
       role_of (ms ! length kept) = Inr ''user'' \<and> role_of (ms ! a) = Inr ''assistant'' \<and>
       (\<forall>j. a < j \<longrightarrow> j < length ms \<longrightarrow> is_object (ms ! j) \<longrightarrow> role_of (ms ! j) \<noteq> Inr ''assistant'') \<and>
       (\<forall>j. length kept < j \<longrightarrow> j < a \<longrightarrow> is_object (ms ! j) \<longrightarrow> role_of (ms ! j) \<noteq> Inr ''user''))"
proof -
  obtain cut where cut: "undo_cut ms = Inr cut"
    and eq: "(kept, removed) = (case cut of None \<Rightarrow> (ms, 0) | Some i \<Rightarrow> (take i ms, length ms - i))"
    using assms by (auto simp: undo_messages_def rbind_Inr_conv)
  show ?thesis
  proof (cases cut)
    case None
    with eq show ?thesis by simp
  next
    case (Some i)
    with cut obtain a where a: "last_role ''assistant'' ms (length ms) = Inr (Some a)"
      "last_role ''user'' ms a = Inr (Some i)"
      by (auto simp: undo_cut_def rbind_Inr_conv split: option.splits)
    note ra = last_role_Some [OF a(1)] and ru = last_role_Some [OF a(2)]
    with Some eq show ?thesis by (auto intro!: exI [of _ a])
  qed
qed

theorem undo_removes_last_exchange_witness:
  "\<exists>kept removed. undo_messages [jobj [(''role'', JString ''user'')], jobj [(''role'', JString ''assistant'')]] =
     Inr (kept, removed) \<and> removed \<le> 2"
proof -
  let ?ms = "[jobj [(''role'', JString ''user'')], jobj [(''role'', JString ''assistant'')]]"
  obtain kept removed where eq: "undo_messages ?ms = Inr (kept, removed)"
    by (simp add: undo_messages_def undo_cut_def role_of_def numeral_2_eq_2)
  from undo_removes_last_exchange [OF eq] eq show ?thesis by auto
qed

text \<open>once a newer attempt of a trace is marked, the older one is no longer current, so its result
  is discarded; and the clean-up of the older one does not disturb the newer.\<close>

theorem newer_attempt_supersedes:
  assumes "trace \<noteq> []" and "old \<noteq> []" and "new \<noteq> []" and "old \<noteq> new"
    and "s' = mark_request_active trace new (mark_request_active trace old s)"
  shows "is_request_current trace old s' = False \<and> is_request_current trace new s' \<and>
    is_request_current trace new (clear_request_if_current trace old s')"
  using assms by (simp add: mark_request_active_def is_request_current_def clear_request_if_current_def)

theorem newer_attempt_supersedes_witness:
  "is_request_current ''t'' ''b'' (mark_request_active ''t'' ''b'' (mark_request_active ''t'' ''a'' SchedulerService))"
  using newer_attempt_supersedes [of "''t''" "''a''" "''b''", OF _ _ _ _ refl] by simp

end
