(* ===== verification/Model_Adapters.thy ===== *)
theory Model_Adapters
  imports Sse_Stream Scheduler_Requests
begin

text \<open>
  The model adapters (\<^verbatim>\<open>llm/adapters/\<close>): the OpenAI compatible, Anthropic and Ollama clients, each with its payload,
  its reading of a response and its stream handler, and the factory that selects one. \<open>parse\<close> and
  \<open>dump\<close> are the JSON library's; a parse fails only with the library's parse error. A callback is an
  action on the state behind it.
\<close>

section \<open>Requests and responses\<close>

record chat_request =
  cr_model :: string
  cr_messages :: json
  cr_tools :: json
  cr_tool_choice :: json
  cr_sampling :: json
  cr_stream :: bool
  cr_max_tokens :: int
  cr_stop :: "string list"
  cr_extra_body :: json

record chat_response =
  cp_content :: string
  cp_tool_calls :: json
  cp_has_tool_calls :: bool
  cp_finish_reason :: string
  cp_usage :: json
  cp_raw :: json

definition new_response :: chat_response where
  "new_response = \<lparr>cp_content = [], cp_tool_calls = JArray [], cp_has_tool_calls = False, cp_finish_reason = [],
     cp_usage = JObject [], cp_raw = JObject []\<rparr>"

definition text_chunk :: "string \<Rightarrow> stream_chunk" where
  "text_chunk t = \<lparr>delta_text = t, delta_tool_call = JObject [], chunk_finished = False\<rparr>"

definition tool_chunk :: "json \<Rightarrow> stream_chunk" where
  "tool_chunk tc = \<lparr>delta_text = [], delta_tool_call = tc, chunk_finished = False\<rparr>"

definition finished_chunk :: stream_chunk where
  "finished_chunk = \<lparr>delta_text = [], delta_tool_call = JObject [], chunk_finished = True\<rparr>"

fun is_null :: "json \<Rightarrow> bool" where
  "is_null JNull = True"
| "is_null _ = False"

fun is_number :: "json \<Rightarrow> bool" where
  "is_number (JInt _) = True"
| "is_number (JFloat _) = True"
| "is_number _ = False"

text \<open>The string member with a key, empty when there is none.\<close>

definition string_member :: "json \<Rightarrow> string \<Rightarrow> string" where
  "string_member j k = (case jget j k of Some (JString s) \<Rightarrow> s | _ \<Rightarrow> [])"

definition nonempty_array :: "json \<Rightarrow> bool" where
  "nonempty_array j = (case j of JArray (_ # _) \<Rightarrow> True | _ \<Rightarrow> False)"

definition jstrings :: "string list \<Rightarrow> json" where
  "jstrings ss = JArray (map JString ss)"

text \<open>The members of \<open>body\<close> replace those of the payload.\<close>

definition overlay :: "json \<Rightarrow> (string \<times> json) list \<Rightarrow> (string \<times> json) list" where
  "overlay body payload = (case body of JObject m \<Rightarrow> fold (\<lambda>(k, v). oput k v) m payload | _ \<Rightarrow> payload)"

definition provider_estimate_tokens :: "string \<Rightarrow> nat" where
  "provider_estimate_tokens t = max 1 (length t div 3)"

section \<open>Messages\<close>

definition normalize_message :: "json \<Rightarrow> json list res" where
  "normalize_message msg =
     (if \<not> is_object msg then Inr []
      else rbind (jvalue as_string msg ''role'' []) (\<lambda>r0.
             let role = (if r0 = ''agent'' then ''assistant'' else r0)
             in if role \<notin> {''system'', ''user'', ''assistant'', ''tool''} then Inr []
                else rbind (jvalue as_string msg ''content'' []) (\<lambda>content.
                  let has_tool_calls = (case jget msg ''tool_calls'' of Some tcs \<Rightarrow> nonempty_array tcs | None \<Rightarrow> False)
                  in if content = [] \<and> \<not> has_tool_calls \<and> role \<noteq> ''tool'' then Inr []
                     else
                       let out = [(''content'', JString content), (''role'', JString role)];
                           out = (if has_tool_calls then oput ''tool_calls'' (the (jget msg ''tool_calls'')) out else out)
                       in Inr [JObject
                            (case jget msg ''tool_call_id'' of
                               Some (JString cid) \<Rightarrow> if role = ''tool'' then oput ''tool_call_id'' (JString cid) out else out
                             | _ \<Rightarrow> out)])))"

fun normalize_all :: "json list \<Rightarrow> json list res" where
  "normalize_all [] = Inr []"
| "normalize_all (m # ms) = rbind (normalize_message m) (\<lambda>xs. rbind (normalize_all ms) (\<lambda>ys. Inr (xs @ ys)))"

definition normalize_messages_for_provider :: "json \<Rightarrow> json list res" where
  "normalize_messages_for_provider messages =
     (case messages of
        JArray ms \<Rightarrow>
          rbind (normalize_all ms) (\<lambda>normalized.
            if normalized = [] then Inl (Runtime_Error ''messages array has no valid provider-compatible items'')
            else Inr normalized)
      | _ \<Rightarrow> Inl (Runtime_Error ''messages must be an array''))"

section \<open>OpenAI compatible services\<close>

definition model_of :: "adapter_config \<Rightarrow> chat_request \<Rightarrow> string" where
  "model_of cfg req = (if cr_model req = [] then ac_model cfg else cr_model req)"

definition put_tools :: "adapter_config \<Rightarrow> chat_request \<Rightarrow> (string \<times> json) list \<Rightarrow> (string \<times> json) list" where
  "put_tools cfg req payload =
     (if ac_enable_tools cfg \<and> nonempty_array (cr_tools req)
      then oput ''tool_choice'' (if is_null (cr_tool_choice req) then JString ''auto'' else cr_tool_choice req)
             (oput ''tools'' (cr_tools req) payload)
      else payload)"

definition stop_of :: "adapter_config \<Rightarrow> chat_request \<Rightarrow> string list" where
  "stop_of cfg req = (if cr_stop req \<noteq> [] then cr_stop req else ac_stop_tokens cfg)"

definition put_stop :: "string list \<Rightarrow> (string \<times> json) list \<Rightarrow> (string \<times> json) list" where
  "put_stop stop payload = (if stop \<noteq> [] then oput ''stop'' (jstrings stop) payload else payload)"

definition openai_payload :: "adapter_config \<Rightarrow> chat_request \<Rightarrow> json res" where
  "openai_payload cfg req =
     rbind (normalize_messages_for_provider (cr_messages req)) (\<lambda>ms.
       let p0 = [(''messages'', JArray ms), (''model'', JString (model_of cfg req)), (''stream'', JBool False)];
           p1 = overlay (cr_sampling req) p0
       in rbind (if cr_max_tokens req > 0 then Inr (oput ''max_tokens'' (JInt (cr_max_tokens req)) p1)
                 else if oget p1 ''max_tokens'' \<noteq> None then Inr p1
                 else rbind (jvalue as_int (cr_sampling req) ''max_tokens'' 512) (\<lambda>n. Inr (oput ''max_tokens'' (JInt n) p1))) (\<lambda>p2.
            Inr (JObject (overlay (cr_extra_body req) (put_stop (stop_of cfg req) (put_tools cfg req p2))))))"

definition openai_response :: "(json \<Rightarrow> string) \<Rightarrow> json \<Rightarrow> chat_response res" where
  "openai_response dump j =
     (case jget j ''error'' of
        Some e \<Rightarrow> Inl (Runtime_Error (extract_error_message dump e ''LLM provider error''))
      | None \<Rightarrow>
          (case jget j ''choices'' of
             Some (JArray (choice # _)) \<Rightarrow>
               rbind (jvalue as_json choice ''message'' (JObject [])) (\<lambda>message.
               rbind (jvalue as_string choice ''finish_reason'' []) (\<lambda>reason.
               rbind (jvalue as_json j ''usage'' (JObject [])) (\<lambda>usage.
                 let r = new_response\<lparr>cp_content := string_member message ''content'',
                           cp_finish_reason := reason, cp_usage := usage, cp_raw := j\<rparr>
                 in Inr (case jget message ''tool_calls'' of
                           Some (JArray tcs) \<Rightarrow> r\<lparr>cp_tool_calls := JArray tcs, cp_has_tool_calls := True\<rparr>
                         | _ \<Rightarrow> r))))
           | _ \<Rightarrow> Inl (Runtime_Error ''Invalid LLM response format'')))"

record tool_call_state =
  tc_id :: string
  tc_name :: string
  tc_arguments :: string

definition new_tool_call :: tool_call_state where
  "new_tool_call = \<lparr>tc_id = [], tc_name = [], tc_arguments = []\<rparr>"

text \<open>A map from numbers, in the order of its keys.\<close>

fun iput :: "int \<Rightarrow> 'v \<Rightarrow> (int \<times> 'v) list \<Rightarrow> (int \<times> 'v) list" where
  "iput k v [] = [(k, v)]"
| "iput k v ((k', v') # m) =
     (if k = k' then (k, v) # m else if k < k' then (k, v) # (k', v') # m else (k', v') # iput k v m)"

record openai_state =
  oa_tools :: "(int \<times> tool_call_state) list"
  oa_finished :: bool

definition merge_tool_delta :: "json \<Rightarrow> tool_call_state \<Rightarrow> tool_call_state" where
  "merge_tool_delta tc st =
     (let st1 = (case jget tc ''id'' of Some (JString s) \<Rightarrow> st\<lparr>tc_id := s\<rparr> | _ \<Rightarrow> st)
      in case jget tc ''function'' of
           Some (JObject fn) \<Rightarrow>
             let st2 = (case oget fn ''name'' of Some (JString s) \<Rightarrow> st1\<lparr>tc_name := s\<rparr> | _ \<Rightarrow> st1)
             in (case oget fn ''arguments'' of Some (JString s) \<Rightarrow> st2\<lparr>tc_arguments := tc_arguments st2 @ s\<rparr> | _ \<Rightarrow> st2)
         | _ \<Rightarrow> st1)"

fun tool_deltas :: "json list \<Rightarrow> (int \<times> tool_call_state) list \<Rightarrow> (int \<times> tool_call_state) list res" where
  "tool_deltas [] m = Inr m"
| "tool_deltas (tc # tcs) m =
     rbind (jvalue as_int tc ''index'' 0) (\<lambda>idx.
       tool_deltas tcs (iput idx (merge_tool_delta tc (case map_of m idx of Some st \<Rightarrow> st | None \<Rightarrow> new_tool_call)) m))"

definition tool_call_json :: "int \<times> tool_call_state \<Rightarrow> json" where
  "tool_call_json x =
     jobj [(''id'', JString (tc_id (snd x))), (''index'', JInt (fst x)), (''type'', JString ''function''),
           (''function'', jobj [(''name'', JString (tc_name (snd x))), (''arguments'', JString (tc_arguments (snd x)))])]"

text \<open>A callback, beside the state of the stream handler.\<close>

definition callback :: "(stream_chunk \<Rightarrow> ('s, unit) act) \<Rightarrow> stream_chunk \<Rightarrow> ('t \<times> 's, unit) act" where
  "callback cb c x = (case cb c (snd x) of (r, s) \<Rightarrow> (r, (fst x, s)))"

definition aupdate :: "('t \<Rightarrow> 't) \<Rightarrow> ('t \<times> 's, unit) act" where
  "aupdate f x = (Inr (), (f (fst x), snd x))"

definition awith :: "('t \<Rightarrow> ('t \<times> 's, 'a) act) \<Rightarrow> ('t \<times> 's, 'a) act" where
  "awith f x = f (fst x) x"

text \<open>The tool calls collected so far, then the final chunk.\<close>

definition send_finished :: "(stream_chunk \<Rightarrow> ('s, unit) act) \<Rightarrow> (openai_state \<times> 's, unit) act" where
  "send_finished cb = awith (\<lambda>st.
     abind (aeach (\<lambda>x. callback cb (tool_chunk (tool_call_json x))) (oa_tools st)) (\<lambda>_.
     abind (aupdate (oa_tools_update (\<lambda>_. []))) (\<lambda>_.
       callback cb finished_chunk)))"

definition openai_choice :: "(stream_chunk \<Rightarrow> ('s, unit) act) \<Rightarrow> json \<Rightarrow> (openai_state \<times> 's, unit) act" where
  "openai_choice cb choice =
     abind (alift (jvalue as_json choice ''delta'' (JObject []))) (\<lambda>delta.
     abind (case jget delta ''content'' of Some (JString t) \<Rightarrow> callback cb (text_chunk t) | _ \<Rightarrow> aret ()) (\<lambda>_.
     abind (case jget delta ''tool_calls'' of
              Some (JArray tcs) \<Rightarrow>
                awith (\<lambda>st. abind (alift (tool_deltas tcs (oa_tools st))) (\<lambda>m. aupdate (oa_tools_update (\<lambda>_. m))))
            | _ \<Rightarrow> aret ()) (\<lambda>_.
       awith (\<lambda>st.
         if string_member choice ''finish_reason'' \<noteq> [] \<and> \<not> oa_finished st
         then abind (send_finished cb) (\<lambda>_. aupdate (oa_finished_update (\<lambda>_. True)))
         else aret ()))))"

definition stream_trim :: "string \<Rightarrow> string" where
  "stream_trim t =
     (let ws = (\<lambda>c. c \<in> {CHR '' '', CHR 0x09, newline, CHR 0x0D})
      in rev (dropWhile ws (rev (dropWhile ws t))))"

definition openai_event ::
    "(string \<Rightarrow> json res) \<Rightarrow> (json \<Rightarrow> string) \<Rightarrow> (stream_chunk \<Rightarrow> ('s, unit) act) \<Rightarrow> string \<Rightarrow> (openai_state \<times> 's, bool) act" where
  "openai_event parse dump cb event_data =
     (let trimmed = stream_trim event_data in
      if trimmed = [] \<or> trimmed = ''[DONE]'' then aret True
      else case parse trimmed of
             Inl _ \<Rightarrow> aret True
           | Inr chunk \<Rightarrow>
               (case jget chunk ''error'' of
                  Some e \<Rightarrow> araise (Runtime_Error (extract_error_message dump e ''Stream Error''))
                | None \<Rightarrow>
                    (case jget chunk ''choices'' of
                       Some (JArray choices) \<Rightarrow> abind (aeach (openai_choice cb) choices) (\<lambda>_. aret True)
                     | _ \<Rightarrow> aret True)))"

definition openai_stream_payload :: "adapter_config \<Rightarrow> chat_request \<Rightarrow> json res" where
  "openai_stream_payload cfg req =
     rbind (normalize_messages_for_provider (cr_messages req)) (\<lambda>ms.
       let p0 = [(''messages'', JArray ms), (''model'', JString (model_of cfg req)), (''stream'', JBool True)];
           p1 = (case cr_sampling req of
                   JObject m \<Rightarrow> overlay (JObject (filter (\<lambda>(k, v). \<not> is_null v) m)) p0 | _ \<Rightarrow> p0);
           p2 = (if cr_max_tokens req > 0 then oput ''max_tokens'' (JInt (cr_max_tokens req)) p1 else p1)
       in Inr (JObject (put_stop (stop_of cfg req) (put_tools cfg req p2))))"

section \<open>The services\<close>

text \<open>What the adapters use of their surroundings: the HTTP library, the JSON library and the clock.\<close>

record llm_env =
  le_openssl :: bool
  le_post :: "http_call \<Rightarrow> http_result"
  le_stream :: "http_call \<Rightarrow> http_stream"
  le_parse :: "string \<Rightarrow> json res"
  le_dump :: "json \<Rightarrow> string"
  le_clock :: "nat \<Rightarrow> int"

definition post_payload :: "llm_env \<Rightarrow> adapter_config \<Rightarrow> string \<Rightarrow> json \<Rightarrow> headers \<Rightarrow> json res" where
  "post_payload E cfg p payload extra =
     rbind (post_json (le_openssl E) (le_post E) cfg p (le_dump E payload) extra) (le_parse E)"

definition openai_call_chat :: "llm_env \<Rightarrow> adapter_config \<Rightarrow> chat_request \<Rightarrow> chat_response res" where
  "openai_call_chat E cfg req =
     rbind (openai_payload cfg req) (\<lambda>payload.
     rbind (post_payload E cfg (ac_chat_endpoint cfg) payload []) (openai_response (le_dump E)))"

text \<open>An action on the handler's own state and the state behind the callback, started and dropped.\<close>

definition arun :: "'t \<Rightarrow> ('t \<times> 's, 'a) act \<Rightarrow> ('s, 'a) act" where
  "arun st m s = (case m (st, s) of (r, (_, t)) \<Rightarrow> (r, t))"

definition new_openai :: openai_state where
  "new_openai = \<lparr>oa_tools = [], oa_finished = False\<rparr>"

definition openai_call_chat_stream ::
    "llm_env \<Rightarrow> adapter_config \<Rightarrow> chat_request \<Rightarrow> (stream_chunk \<Rightarrow> ('s, unit) act) \<Rightarrow> ('s, unit) act" where
  "openai_call_chat_stream E cfg req cb =
     abind (alift (openai_stream_payload cfg req)) (\<lambda>payload.
       arun new_openai
         (abind (stream_sse_events (le_openssl E) (le_stream E) cfg (ac_chat_endpoint cfg) (le_dump E payload) []
                   (openai_event (le_parse E) (le_dump E) cb)) (\<lambda>_.
            awith (\<lambda>st. if oa_finished st then aret () else send_finished cb))))"

text \<open>The default of the interface, for an adapter that has only \<open>call_chat\<close>.\<close>

definition default_call_chat_stream ::
    "(chat_request \<Rightarrow> chat_response res) \<Rightarrow> chat_request \<Rightarrow> (stream_chunk \<Rightarrow> ('s, unit) act) \<Rightarrow> ('s, unit) act" where
  "default_call_chat_stream call_chat req cb =
     abind (alift (call_chat (req\<lparr>cr_stream := False\<rparr>))) (\<lambda>r.
     abind (if cp_content r \<noteq> [] then cb (text_chunk (cp_content r)) else aret ()) (\<lambda>_.
     abind (aeach (\<lambda>tc. if is_object tc then cb (tool_chunk tc) else aret ()) (json_items (cp_tool_calls r))) (\<lambda>_.
       cb finished_chunk)))"

section \<open>Anthropic\<close>

definition to_anthropic_tool_schema :: "json \<Rightarrow> json res" where
  "to_anthropic_tool_schema tool =
     (case jget tool ''function'' of
        Some (JObject f) \<Rightarrow>
          let fn = JObject f in
          rbind (jvalue as_json fn ''parameters'' (JObject [])) (\<lambda>p0.
          rbind (if jcontains p0 ''type'' then Inr p0 else jset ''type'' (JString ''object'') p0) (\<lambda>p1.
          rbind (if jcontains p1 ''properties'' then Inr p1 else jset ''properties'' (JObject []) p1) (\<lambda>p2.
          rbind (jvalue as_string fn ''name'' []) (\<lambda>name.
          rbind (jvalue as_string fn ''description'' []) (\<lambda>description.
            Inr (jobj [(''name'', JString name), (''description'', JString description), (''input_schema'', p2)]))))))
      | _ \<Rightarrow> Inr (JObject []))"

definition anthropic_tool_use :: "(string \<Rightarrow> json res) \<Rightarrow> json \<Rightarrow> json list res" where
  "anthropic_tool_use parse tool_call =
     (if \<not> is_object tool_call then Inr []
      else rbind (jvalue as_json tool_call ''function'' (JObject [])) (\<lambda>fn.
             let args = (case jget fn ''arguments'' of
                           Some (JString s) \<Rightarrow> (case parse s of Inr j \<Rightarrow> j | Inl _ \<Rightarrow> JObject [])
                         | _ \<Rightarrow> JObject [])
             in rbind (jvalue as_string tool_call ''id'' []) (\<lambda>cid.
                rbind (jvalue as_string fn ''name'' []) (\<lambda>name.
                  Inr [jobj [(''type'', JString ''tool_use''), (''id'', JString cid), (''name'', JString name), (''input'', args)]]))))"

fun rconcat :: "('a \<Rightarrow> 'b list res) \<Rightarrow> 'a list \<Rightarrow> 'b list res" where
  "rconcat f [] = Inr []"
| "rconcat f (x # xs) = rbind (f x) (\<lambda>ys. rbind (rconcat f xs) (\<lambda>zs. Inr (ys @ zs)))"

definition text_item :: "string \<Rightarrow> json" where
  "text_item t = jobj [(''type'', JString ''text''), (''text'', JString t)]"

definition to_anthropic_content_from_message :: "(string \<Rightarrow> json res) \<Rightarrow> json \<Rightarrow> json res" where
  "to_anthropic_content_from_message parse message =
     rbind (jvalue as_string message ''role'' []) (\<lambda>role.
     rbind (jvalue as_string message ''content'' []) (\<lambda>content.
       let plain = (if role = ''tool''
                    then rbind (jvalue as_string message ''tool_call_id'' []) (\<lambda>cid.
                           Inr (JArray [jobj [(''type'', JString ''tool_result''), (''tool_use_id'', JString cid),
                                              (''content'', JString content)]]))
                    else Inr (JArray [text_item content]))
       in case jget message ''tool_calls'' of
            Some (JArray (tc # tcs)) \<Rightarrow>
              if role = ''assistant''
              then rbind (rconcat (anthropic_tool_use parse) (tc # tcs)) (\<lambda>uses.
                     Inr (JArray ((if content \<noteq> [] then [text_item content] else []) @ uses)))
              else plain
          | _ \<Rightarrow> plain))"

text \<open>The messages of the payload and the system prompt.\<close>

fun append_anthropic_messages :: "(string \<Rightarrow> json res) \<Rightarrow> json list \<Rightarrow> json list \<times> string \<Rightarrow> (json list \<times> string) res" where
  "append_anthropic_messages parse [] acc = Inr acc"
| "append_anthropic_messages parse (msg # msgs) (out, system) =
     (if \<not> is_object msg then append_anthropic_messages parse msgs (out, system)
      else rbind (jvalue as_string msg ''role'' []) (\<lambda>role.
        if role = ''system''
        then rbind (jvalue as_string msg ''content'' []) (\<lambda>content.
               append_anthropic_messages parse msgs
                 (out, (if system \<noteq> [] then system @ [newline] else []) @ content))
        else if role \<notin> {''user'', ''assistant'', ''tool''} then append_anthropic_messages parse msgs (out, system)
        else rbind (to_anthropic_content_from_message parse msg) (\<lambda>content.
               append_anthropic_messages parse msgs
                 (out @ [jobj [(''role'', JString (if role = ''tool'' then ''user'' else role)), (''content'', content)]], system))))"

definition apply_anthropic_tools :: "adapter_config \<Rightarrow> chat_request \<Rightarrow> (string \<times> json) list \<Rightarrow> (string \<times> json) list res" where
  "apply_anthropic_tools cfg req payload =
     (if \<not> (ac_enable_tools cfg \<and> nonempty_array (cr_tools req)) then Inr payload
      else rbind (rconcat (\<lambda>tool. rbind (to_anthropic_tool_schema tool) (\<lambda>t. Inr (if t = JObject [] then [] else [t])))
                   (json_items (cr_tools req))) (\<lambda>tools.
             if tools = [] then Inr payload
             else Inr (oput ''tool_choice''
                    (case cr_tool_choice req of
                       JNull \<Rightarrow> jobj [(''type'', JString ''auto'')]
                     | JString s \<Rightarrow> jobj [(''type'', JString s)]
                     | choice \<Rightarrow> choice) (oput ''tools'' (JArray tools) payload))))"

definition copy_param :: "json \<Rightarrow> string \<Rightarrow> string \<Rightarrow> (string \<times> json) list \<Rightarrow> (string \<times> json) list" where
  "copy_param sp from to payload = (case jget sp from of Some v \<Rightarrow> oput to v payload | None \<Rightarrow> payload)"

definition build_anthropic_payload ::
    "(string \<Rightarrow> json res) \<Rightarrow> adapter_config \<Rightarrow> chat_request \<Rightarrow> bool \<Rightarrow> json res" where
  "build_anthropic_payload parse cfg req stream =
     rbind (if cr_max_tokens req > 0 then Inr (cr_max_tokens req) else jvalue as_int (cr_sampling req) ''max_tokens'' 512) (\<lambda>max_tokens.
       let sp = cr_sampling req;
           p0 = [(''max_tokens'', JInt max_tokens), (''messages'', JArray []), (''model'', JString (model_of cfg req)), (''stream'', JBool stream)];
           p1 = (if jcontains sp ''temperature'' then copy_param sp ''temperature'' ''temperature'' p0
                 else copy_param sp ''temp'' ''temperature'' p0);
           p2 = copy_param sp ''top_p'' ''top_p'' p1;
           p3 = (if cr_stop req \<noteq> [] then oput ''stop_sequences'' (jstrings (cr_stop req)) p2 else p2)
       in rbind (append_anthropic_messages parse (json_items (cr_messages req)) ([], [])) (\<lambda>(msgs, system).
            let p4 = oput ''messages'' (JArray msgs) p3;
                p5 = (if system \<noteq> [] then oput ''system'' (JString system) p4 else p4)
            in rbind (apply_anthropic_tools cfg req p5) (\<lambda>p6. Inr (JObject (overlay (cr_extra_body req) p6)))))"

definition resolve_anthropic_endpoint :: "string \<Rightarrow> string" where
  "resolve_anthropic_endpoint e = (if e = [] \<or> e = ''/chat/completions'' then ''/v1/messages'' else e)"

definition build_anthropic_headers :: "adapter_config \<Rightarrow> headers" where
  "build_anthropic_headers cfg =
     (if ac_api_key cfg \<noteq> [] then [(''x-api-key'', ac_api_key cfg), (''anthropic-version'', ''2023-06-01'')] else [])"

text \<open>The text and the tool calls of the content items.\<close>

fun anthropic_items :: "(json \<Rightarrow> string) \<Rightarrow> json list \<Rightarrow> string \<times> json list \<Rightarrow> (string \<times> json list) res" where
  "anthropic_items dump [] acc = Inr acc"
| "anthropic_items dump (item # items) (text, calls) =
     rbind (jvalue as_string item ''type'' []) (\<lambda>type.
       if type = ''text''
       then rbind (jvalue as_string item ''text'' []) (\<lambda>t. anthropic_items dump items (text @ t, calls))
       else if type = ''tool_use''
       then rbind (jvalue as_string item ''id'' []) (\<lambda>cid.
            rbind (jvalue as_string item ''name'' []) (\<lambda>name.
            rbind (jvalue as_json item ''input'' (JObject [])) (\<lambda>input.
              anthropic_items dump items (text, calls @
                [jobj [(''id'', JString cid), (''type'', JString ''function''),
                       (''function'', jobj [(''name'', JString name), (''arguments'', JString (dump input))])]]))))
       else anthropic_items dump items (text, calls))"

definition normalize_anthropic_response_content :: "(json \<Rightarrow> string) \<Rightarrow> json \<Rightarrow> chat_response \<Rightarrow> chat_response res" where
  "normalize_anthropic_response_content dump j r =
     (case jget j ''content'' of
        Some (JArray items) \<Rightarrow>
          rbind (anthropic_items dump items ([], [])) (\<lambda>(text, calls).
            Inr (r\<lparr>cp_content := text, cp_tool_calls := JArray calls, cp_has_tool_calls := calls \<noteq> []\<rparr>))
      | _ \<Rightarrow> Inr r)"

definition anthropic_call_chat :: "llm_env \<Rightarrow> adapter_config \<Rightarrow> chat_request \<Rightarrow> chat_response res" where
  "anthropic_call_chat E cfg req =
     rbind (build_anthropic_payload (le_parse E) cfg req False) (\<lambda>payload.
     rbind (post_payload E cfg (resolve_anthropic_endpoint (ac_chat_endpoint cfg)) payload (build_anthropic_headers cfg)) (\<lambda>j.
       case jget j ''error'' of
         Some e \<Rightarrow> Inl (Runtime_Error (extract_error_message (le_dump E) e ''Anthropic provider error''))
       | None \<Rightarrow>
           rbind (jvalue as_string j ''stop_reason'' []) (\<lambda>reason.
           rbind (jvalue as_json j ''usage'' (JObject [])) (\<lambda>usage.
             normalize_anthropic_response_content (le_dump E) j
               (new_response\<lparr>cp_finish_reason := reason, cp_usage := usage, cp_raw := j\<rparr>)))))"

record anthropic_state =
  an_calls :: "(int \<times> json) list"
  an_finished :: bool
  an_error :: string

definition new_anthropic :: anthropic_state where
  "new_anthropic = \<lparr>an_calls = [], an_finished = False, an_error = []\<rparr>"

text \<open>\<open>j[key]\<close> for reading a value that may be made by the access.\<close>

fun jindex :: "json \<Rightarrow> string \<Rightarrow> json res" where
  "jindex (JObject m) k = Inr (case oget m k of Some v \<Rightarrow> v | None \<Rightarrow> JNull)"
| "jindex JNull k = Inr JNull"
| "jindex j k =
     Inl (Type_Error (''[json.exception.type_error.305] cannot use operator[] with a string argument with '' @ type_name j))"

definition add_arguments :: "string \<Rightarrow> json \<Rightarrow> json res" where
  "add_arguments partial tc =
     rbind (jindex tc ''function'') (\<lambda>fn.
     rbind (jvalue as_string fn ''arguments'' []) (\<lambda>args.
     rbind (jset ''arguments'' (JString (args @ partial)) fn) (\<lambda>fn'. jset ''function'' fn' tc)))"

definition anthropic_block_start :: "json \<Rightarrow> (int \<times> json) list \<Rightarrow> (int \<times> json) list res" where
  "anthropic_block_start ev calls =
     rbind (jvalue as_json ev ''content_block'' (JObject [])) (\<lambda>block.
       if string_member block ''type'' = ''tool_use''
       then rbind (jvalue as_int ev ''index'' 0) (\<lambda>index.
              Inr (iput index (jobj [(''index'', JInt index), (''id'', JString (string_member block ''id'')),
                     (''type'', JString ''function''),
                     (''function'', jobj [(''name'', JString (string_member block ''name'')), (''arguments'', JString [])])]) calls))
       else Inr calls)"

definition anthropic_delta :: "(stream_chunk \<Rightarrow> ('s, unit) act) \<Rightarrow> json \<Rightarrow> (anthropic_state \<times> 's, unit) act" where
  "anthropic_delta cb ev =
     abind (alift (jvalue as_int ev ''index'' 0)) (\<lambda>index.
     abind (alift (jvalue as_json ev ''delta'' (JObject []))) (\<lambda>delta.
       let type = string_member delta ''type'' in
       if type = ''text_delta''
       then (let t = string_member delta ''text'' in if t \<noteq> [] then callback cb (text_chunk t) else aret ())
       else if type = ''input_json_delta''
       then awith (\<lambda>st.
              abind (alift (add_arguments (string_member delta ''partial_json'')
                       (case map_of (an_calls st) index of Some tc \<Rightarrow> tc | None \<Rightarrow> JNull))) (\<lambda>tc.
                aupdate (an_calls_update (\<lambda>_. iput index tc (an_calls st)))))
       else aret ()))"

definition anthropic_stop :: "(stream_chunk \<Rightarrow> ('s, unit) act) \<Rightarrow> (anthropic_state \<times> 's, unit) act" where
  "anthropic_stop cb = awith (\<lambda>st.
     abind (aeach (\<lambda>x. callback cb (tool_chunk (snd x))) (an_calls st)) (\<lambda>_.
     abind (aupdate (an_calls_update (\<lambda>_. []))) (\<lambda>_.
     abind (callback cb finished_chunk) (\<lambda>_.
       aupdate (an_finished_update (\<lambda>_. True))))))"

definition process_anthropic_stream_event ::
    "(string \<Rightarrow> json res) \<Rightarrow> (json \<Rightarrow> string) \<Rightarrow> (stream_chunk \<Rightarrow> ('s, unit) act) \<Rightarrow> sse_event \<Rightarrow> (anthropic_state \<times> 's, bool) act" where
  "process_anthropic_stream_event parse dump cb event =
     (if se_data event = ''[DONE]'' \<or> se_data event = [] then aret True
      else case parse (se_data event) of
             Inl _ \<Rightarrow> aret True
           | Inr ev \<Rightarrow>
               let type = (if se_event event = [] then string_member ev ''type'' else se_event event) in
               if type = ''error'' \<and> jcontains ev ''error''
               then abind (aupdate (an_error_update (\<lambda>_.
                      extract_error_message dump (the (jget ev ''error'')) ''Anthropic stream provider error''))) (\<lambda>_. aret False)
               else if type = ''content_block_start''
               then awith (\<lambda>st. abind (alift (anthropic_block_start ev (an_calls st))) (\<lambda>calls.
                      abind (aupdate (an_calls_update (\<lambda>_. calls))) (\<lambda>_. aret True)))
               else if type = ''content_block_delta''
               then abind (anthropic_delta cb ev) (\<lambda>_. aret True)
               else if type = ''message_stop''
               then awith (\<lambda>st. if an_finished st then aret True else abind (anthropic_stop cb) (\<lambda>_. aret False))
               else aret True)"

definition anthropic_call_chat_stream ::
    "llm_env \<Rightarrow> adapter_config \<Rightarrow> chat_request \<Rightarrow> (stream_chunk \<Rightarrow> ('s, unit) act) \<Rightarrow> ('s, unit) act" where
  "anthropic_call_chat_stream E cfg req cb =
     abind (alift (build_anthropic_payload (le_parse E) cfg req True)) (\<lambda>payload.
       arun new_anthropic
         (abind (stream_sse_events_ex (le_openssl E) (le_stream E) cfg (resolve_anthropic_endpoint (ac_chat_endpoint cfg))
                   (le_dump E payload) (build_anthropic_headers cfg)
                   (process_anthropic_stream_event (le_parse E) (le_dump E) cb)) (\<lambda>_.
            awith (\<lambda>st. if an_error st \<noteq> [] then araise (Runtime_Error (an_error st))
                        else if \<not> an_finished st then callback cb finished_chunk else aret ()))))"

section \<open>Ollama\<close>

definition normalize_ollama_tool_call :: "(json \<Rightarrow> string) \<Rightarrow> int \<Rightarrow> json \<Rightarrow> int \<Rightarrow> json" where
  "normalize_ollama_tool_call dump now tc index =
     (case jget tc ''function'' of
        None \<Rightarrow> tc
      | Some fn \<Rightarrow>
          let arguments = (case jget fn ''arguments'' of Some (JObject a) \<Rightarrow> JObject a | _ \<Rightarrow> JObject [])
          in jobj [(''id'', JString (''call_'' @ to_string_int index @ ''_'' @ to_string_int now)), (''type'', JString ''function''),
                   (''function'', jobj [(''name'', JString (string_member fn ''name'')), (''arguments'', JString (dump arguments))]),
                   (''index'', JInt index)])"

definition number_param :: "json \<Rightarrow> string \<Rightarrow> json \<Rightarrow> json" where
  "number_param sp k d = (case jget sp k of Some v \<Rightarrow> if is_number v then v else d | None \<Rightarrow> d)"

definition build_ollama_options :: "chat_request \<Rightarrow> (string \<times> json) list" where
  "build_ollama_options req =
     (let sp = cr_sampling req in
      [(''num_predict'', if cr_max_tokens req > 0 then JInt (cr_max_tokens req) else number_param sp ''max_tokens'' (JInt 512)),
       (''temperature'', number_param sp ''temperature'' (JFloat (7 / 10))),
       (''top_k'', number_param sp ''top_k'' (JInt 40)),
       (''top_p'', number_param sp ''top_p'' (JFloat (9 / 10)))])"

definition resolve_ollama_endpoint :: "string \<Rightarrow> string" where
  "resolve_ollama_endpoint e = (if e = [] \<or> e = ''/chat/completions'' then ''/api/chat'' else e)"

definition build_ollama_payload :: "adapter_config \<Rightarrow> chat_request \<Rightarrow> bool \<Rightarrow> json res" where
  "build_ollama_payload cfg req stream =
     rbind (normalize_messages_for_provider (cr_messages req)) (\<lambda>ms.
       let payload = [(''messages'', JArray ms), (''model'', JString (model_of cfg req)),
                      (''options'', JObject (put_stop (stop_of cfg req) (build_ollama_options req))), (''stream'', JBool stream)]
       in Inr (JObject (overlay (cr_extra_body req) (put_tools cfg req payload))))"

text \<open>The calls of a message; the clock is read for each one that has a function.\<close>

fun ollama_calls :: "llm_env \<Rightarrow> nat \<Rightarrow> int \<Rightarrow> json list \<Rightarrow> json list" where
  "ollama_calls E n idx [] = []"
| "ollama_calls E n idx (tc # tcs) =
     normalize_ollama_tool_call (le_dump E) (le_clock E n) tc idx #
     ollama_calls E (if jcontains tc ''function'' then n + 1 else n) (idx + 1) tcs"

definition populate_ollama_tool_calls :: "llm_env \<Rightarrow> json \<Rightarrow> chat_response \<Rightarrow> chat_response" where
  "populate_ollama_tool_calls E message r =
     (case jget message ''tool_calls'' of
        Some (JArray tcs) \<Rightarrow> r\<lparr>cp_tool_calls := JArray (ollama_calls E 0 0 tcs), cp_has_tool_calls := True\<rparr>
      | _ \<Rightarrow> r)"

definition ollama_call_chat :: "llm_env \<Rightarrow> adapter_config \<Rightarrow> chat_request \<Rightarrow> chat_response res" where
  "ollama_call_chat E cfg req =
     rbind (build_ollama_payload cfg req False) (\<lambda>payload.
     rbind (post_payload E cfg (resolve_ollama_endpoint (ac_chat_endpoint cfg)) payload []) (\<lambda>j.
       case jget j ''error'' of
         Some e \<Rightarrow> Inl (Runtime_Error (extract_error_message (le_dump E) e ''Ollama provider error''))
       | None \<Rightarrow>
           (case jget j ''message'' of
              Some (JObject m) \<Rightarrow>
                rbind (jvalue as_int j ''prompt_eval_count'' 0) (\<lambda>prompt.
                rbind (jvalue as_int j ''eval_count'' 0) (\<lambda>completion.
                  Inr ((populate_ollama_tool_calls E (JObject m) (new_response\<lparr>cp_content := string_member (JObject m) ''content''\<rparr>))
                    \<lparr>cp_finish_reason := string_member j ''done_reason'',
                     cp_usage := jobj [(''prompt_tokens'', JInt prompt), (''completion_tokens'', JInt completion)], cp_raw := j\<rparr>)))
            | _ \<Rightarrow> Inl (Runtime_Error ''Invalid Ollama response format: missing message''))))"

record ollama_state =
  ol_buffer :: string
  ol_finished :: bool
  ol_error :: string
  ol_reads :: nat

definition new_ollama :: ollama_state where
  "new_ollama = \<lparr>ol_buffer = [], ol_finished = False, ol_error = [], ol_reads = 0\<rparr>"

text \<open>An exception of the callback becomes the stream's error.\<close>

definition report_ollama_callback_error :: "(stream_chunk \<Rightarrow> ('s, unit) act) \<Rightarrow> stream_chunk \<Rightarrow> (ollama_state \<times> 's, unit) act" where
  "report_ollama_callback_error cb c x =
     (case cb c (snd x) of
        (Inr _, s) \<Rightarrow> (Inr (), (fst x, s))
      | (Inl e, s) \<Rightarrow> (Inr (), ((fst x)\<lparr>ol_error := ''Ollama stream callback error: '' @ what e\<rparr>, s)))"

text \<open>The rest of a line runs while there is no error.\<close>

definition unless_error :: "(ollama_state \<times> 's, unit) act \<Rightarrow> (ollama_state \<times> 's, unit) act" where
  "unless_error m = awith (\<lambda>st. if ol_error st \<noteq> [] then aret () else m)"

fun ollama_tool_chunks ::
    "llm_env \<Rightarrow> (stream_chunk \<Rightarrow> ('s, unit) act) \<Rightarrow> int \<Rightarrow> json list \<Rightarrow> (ollama_state \<times> 's, unit) act" where
  "ollama_tool_chunks E cb idx [] = aret ()"
| "ollama_tool_chunks E cb idx (tc # tcs) =
     (if \<not> is_object tc then ollama_tool_chunks E cb idx tcs
      else awith (\<lambda>st.
             abind (aupdate (ol_reads_update (\<lambda>n. if jcontains tc ''function'' then n + 1 else n))) (\<lambda>_.
             abind (report_ollama_callback_error cb
                      (tool_chunk (normalize_ollama_tool_call (le_dump E) (le_clock E (ol_reads st)) tc idx))) (\<lambda>_.
               unless_error (ollama_tool_chunks E cb (idx + 1) tcs)))))"

definition ollama_chunk :: "llm_env \<Rightarrow> (stream_chunk \<Rightarrow> ('s, unit) act) \<Rightarrow> json \<Rightarrow> (ollama_state \<times> 's, unit) act" where
  "ollama_chunk E cb j =
     (case jget j ''error'' of
        Some e \<Rightarrow> aupdate (ol_error_update (\<lambda>_. extract_error_message (le_dump E) e ''Ollama stream provider error''))
      | None \<Rightarrow>
          abind (alift (jvalue as_json j ''message'' (JObject []))) (\<lambda>message.
          abind (let t = string_member message ''content''
                 in if t \<noteq> [] then report_ollama_callback_error cb (text_chunk t) else aret ()) (\<lambda>_.
            unless_error
              (abind (case jget message ''tool_calls'' of
                        Some (JArray tcs) \<Rightarrow> ollama_tool_chunks E cb 0 tcs
                      | _ \<Rightarrow> aret ()) (\<lambda>_.
                 unless_error
                   (abind (alift (jvalue as_bool j ''done'' False)) (\<lambda>done.
                      if done
                      then abind (report_ollama_callback_error cb finished_chunk) (\<lambda>_.
                             unless_error (aupdate (ol_finished_update (\<lambda>_. True))))
                      else aret ())))))))"

definition process_ollama_stream_line ::
    "llm_env \<Rightarrow> (stream_chunk \<Rightarrow> ('s, unit) act) \<Rightarrow> string \<Rightarrow> (ollama_state \<times> 's, unit) act" where
  "process_ollama_stream_line E cb raw = awith (\<lambda>st.
     if ol_error st \<noteq> [] \<or> ol_finished st then aret ()
     else
       let line = drop_cr raw in
       if line = [] then aret ()
       else case le_parse E line of
              Inl _ \<Rightarrow> aret ()
            | Inr j \<Rightarrow> ollama_chunk E cb j)"

text \<open>The complete lines of a text in order, and what is left.\<close>

function cut_lines :: "string \<Rightarrow> string list \<times> string" where
  "cut_lines b =
     (if newline \<notin> set b then ([], b)
      else case cut_lines (tl (dropWhile (\<lambda>c. c \<noteq> newline) b)) of
             (ls, r) \<Rightarrow> (takeWhile (\<lambda>c. c \<noteq> newline) b # ls, r))"
  by pat_completeness auto
termination
proof (relation "measure length", goal_cases)
  case (2 b)
  then have "dropWhile (\<lambda>c. c \<noteq> newline) b \<noteq> []" by simp
  then show ?case
    using length_dropWhile_le [of "\<lambda>c. c \<noteq> newline" b]
    by (cases "dropWhile (\<lambda>c. c \<noteq> newline) b") simp_all
qed simp

declare cut_lines.simps [simp del]

definition ollama_receive ::
    "llm_env \<Rightarrow> (stream_chunk \<Rightarrow> ('s, unit) act) \<Rightarrow> string \<Rightarrow> (ollama_state \<times> 's, bool) act" where
  "ollama_receive E cb d = awith (\<lambda>st.
     let (ls, rest) = cut_lines (ol_buffer st @ d)
     in abind (aupdate (ol_buffer_update (\<lambda>_. rest))) (\<lambda>_.
        abind (aeach (process_ollama_stream_line E cb) ls) (\<lambda>_. aret True)))"

definition ollama_finish :: "llm_env \<Rightarrow> (stream_chunk \<Rightarrow> ('s, unit) act) \<Rightarrow> (ollama_state \<times> 's, unit) act" where
  "ollama_finish E cb =
     abind (awith (\<lambda>st. if ol_buffer st \<noteq> [] then process_ollama_stream_line E cb (ol_buffer st) else aret ())) (\<lambda>_.
     awith (\<lambda>st. if ol_error st \<noteq> [] then araise (Runtime_Error (ol_error st))
                 else if \<not> ol_finished st then callback cb finished_chunk else aret ()))"

definition ollama_call_chat_stream ::
    "llm_env \<Rightarrow> adapter_config \<Rightarrow> chat_request \<Rightarrow> (stream_chunk \<Rightarrow> ('s, unit) act) \<Rightarrow> ('s, unit) act" where
  "ollama_call_chat_stream E cfg req cb =
     abind (alift (build_ollama_payload cfg req True)) (\<lambda>payload.
       arun new_ollama
         (abind (post_json_stream_raw (le_openssl E) (le_stream E) cfg (resolve_ollama_endpoint (ac_chat_endpoint cfg))
                   (le_dump E payload) [] (ollama_receive E cb)) (\<lambda>_.
            ollama_finish E cb)))"

section \<open>The factory\<close>

datatype adapter_kind = LlamaCppAdapter | OllamaAdapter | AnthropicAdapter | OpenAICompatibleAdapter

definition normalize_adapter_key :: "string \<Rightarrow> string" where
  "normalize_adapter_key key = map tolower key"

definition make_adapter :: "string \<Rightarrow> adapter_kind" where
  "make_adapter name =
     (let key = normalize_adapter_key name in
      if key \<in> {''llama.cpp'', ''llama_cpp'', ''llama'', ''openai'', ''openai-compatible'', ''openai_chat'', ''openai-chat-completions''}
      then LlamaCppAdapter
      else if key \<in> {''ollama'', ''ollama-chat'', ''ollama_chat''} then OllamaAdapter
      else if key \<in> {''anthropic'', ''claude'', ''anthropic-messages''} then AnthropicAdapter
      else OpenAICompatibleAdapter)"

fun provider_name :: "adapter_kind \<Rightarrow> string" where
  "provider_name LlamaCppAdapter = ''llama.cpp''"
| "provider_name OllamaAdapter = ''ollama''"
| "provider_name AnthropicAdapter = ''anthropic''"
| "provider_name OpenAICompatibleAdapter = ''openai-compatible''"

fun call_chat :: "adapter_kind \<Rightarrow> llm_env \<Rightarrow> adapter_config \<Rightarrow> chat_request \<Rightarrow> chat_response res" where
  "call_chat OllamaAdapter = ollama_call_chat"
| "call_chat AnthropicAdapter = anthropic_call_chat"
| "call_chat _ = openai_call_chat"

fun call_chat_stream ::
    "adapter_kind \<Rightarrow> llm_env \<Rightarrow> adapter_config \<Rightarrow> chat_request \<Rightarrow> (stream_chunk \<Rightarrow> ('s, unit) act) \<Rightarrow> ('s, unit) act" where
  "call_chat_stream OllamaAdapter = ollama_call_chat_stream"
| "call_chat_stream AnthropicAdapter = anthropic_call_chat_stream"
| "call_chat_stream _ = openai_call_chat_stream"

end
