(* ===== verification/Adapter_Streams.thy ===== *)
theory Adapter_Streams
  imports Model_Adapters
begin

text \<open>
  What a caller of the model adapters can rely on. A stream that returns has ended with exactly one final
  chunk, for every adapter and every service; the pieces in which a body arrives do not matter. A
  well-formed answer of an OpenAI compatible service reaches the callback as its texts in order, its
  tool calls by index and the final chunk. Every complete Anthropic stream ends in a network error, and
  so does a stream with an error object.
\<close>

section \<open>Delivery by an OpenAI compatible service\<close>

text \<open>What such a service sends: text, the start of a tool call, more of its arguments, and the end.\<close>

datatype delta =
    Text string
  | Call_Start int string string
  | Call_Args int string

fun delta_body :: "delta \<Rightarrow> json" where
  "delta_body (Text t) = jobj [(''content'', JString t)]"
| "delta_body (Call_Start i cid name) =
     jobj [(''tool_calls'', JArray [jobj [(''index'', JInt i), (''id'', JString cid),
        (''function'', jobj [(''name'', JString name), (''arguments'', JString [])])]])]"
| "delta_body (Call_Args i args) =
     jobj [(''tool_calls'', JArray [jobj [(''index'', JInt i), (''function'', jobj [(''arguments'', JString args)])]])]"

definition delta_json :: "delta \<Rightarrow> json" where
  "delta_json d = jobj [(''choices'', JArray [jobj [(''delta'', delta_body d)]])]"

definition finish_json :: "string \<Rightarrow> json" where
  "finish_json reason = jobj [(''choices'', JArray [jobj [(''delta'', jobj []), (''finish_reason'', JString reason)]])]"

text \<open>The text of a stream and its tool calls by index.\<close>

fun delta_texts :: "delta list \<Rightarrow> string list" where
  "delta_texts [] = []"
| "delta_texts (Text t # ds) = t # delta_texts ds"
| "delta_texts (_ # ds) = delta_texts ds"

definition call_at :: "int \<Rightarrow> (int \<times> tool_call_state) list \<Rightarrow> tool_call_state" where
  "call_at i m = (case map_of m i of Some st \<Rightarrow> st | None \<Rightarrow> new_tool_call)"

fun apply_delta :: "delta \<Rightarrow> (int \<times> tool_call_state) list \<Rightarrow> (int \<times> tool_call_state) list" where
  "apply_delta (Text t) m = m"
| "apply_delta (Call_Start i cid name) m = iput i ((call_at i m)\<lparr>tc_id := cid, tc_name := name\<rparr>) m"
| "apply_delta (Call_Args i args) m = iput i ((call_at i m)\<lparr>tc_arguments := tc_arguments (call_at i m) @ args\<rparr>) m"

definition delta_calls :: "delta list \<Rightarrow> (int \<times> tool_call_state) list" where
  "delta_calls ds = fold apply_delta ds []"

definition stream_chunks :: "delta list \<Rightarrow> stream_chunk list" where
  "stream_chunks ds =
     map text_chunk (delta_texts ds) @ map (\<lambda>x. tool_chunk (tool_call_json x)) (delta_calls ds) @ [finished_chunk]"

text \<open>JSON texts that stand for themselves on a line of a stream.\<close>

definition event_text_ok :: "(string \<Rightarrow> json res) \<Rightarrow> (json \<Rightarrow> string) \<Rightarrow> json \<Rightarrow> bool" where
  "event_text_ok parse dump j \<longleftrightarrow>
     parse (dump j) = Inr j \<and> sse_line_ok (dump j) \<and> stream_trim (dump j) = dump j \<and> dump j \<noteq> [] \<and> dump j \<noteq> ''[DONE]''"

definition json_event :: "(json \<Rightarrow> string) \<Rightarrow> json \<Rightarrow> string \<times> string list" where
  "json_event dump j = ([], [dump j])"

fun delta_ok :: "delta \<Rightarrow> bool" where
  "delta_ok (Text t) = True"
| "delta_ok (Call_Start i cid name) = (to_int32 i = i)"
| "delta_ok (Call_Args i args) = (to_int32 i = i)"

lemma openai_event_choices:
  assumes "event_text_ok parse dump j" "jget j ''error'' = None" "jget j ''choices'' = Some (JArray [c])"
  shows "openai_event parse dump cb (dump j) = abind (openai_choice cb c) (\<lambda>_. aret True)"
  using assms by (simp add: openai_event_def event_text_ok_def Let_def abind_def aret_def fun_eq_iff split: prod.splits sum.splits)

lemma openai_event_text:
  assumes "event_text_ok parse dump (delta_json (Text t))" "cb (text_chunk t) s = (Inr (), u)"
  shows "openai_event parse dump cb (dump (delta_json (Text t))) (st, s) = (Inr True, (st, u))"
  using assms openai_event_choices [OF assms(1), of _ cb]
  by (simp add: delta_json_def openai_choice_def abind_def aret_def alift_def callback_def awith_def string_member_def)

lemma openai_event_call:
  assumes "event_text_ok parse dump (delta_json d)" "delta_ok d" "delta_texts [d] = []"
  shows "openai_event parse dump cb (dump (delta_json d)) (st, s) = (Inr True, (st\<lparr>oa_tools := apply_delta d (oa_tools st)\<rparr>, s))"
  using assms(2,3) openai_event_choices [OF assms(1), of _ cb]
  by (cases d) (simp_all add: delta_json_def openai_choice_def abind_def aret_def alift_def callback_def awith_def aupdate_def
      string_member_def merge_tool_delta_def call_at_def jobj_def Let_def)


lemma aeach_append: "aeach f (xs @ ys) = abind (aeach f xs) (\<lambda>_. aeach f ys)"
  by (induction xs) (simp_all add: abind_def fun_eq_iff split: prod.splits sum.splits)

lemma aeach_callback: "aeach (\<lambda>x. callback cb (f x)) xs (st, s) = (case aeach cb (map f xs) s of (r, t) \<Rightarrow> (r, (st, t)))"
  by (induction xs arbitrary: s) (auto simp: abind_def aret_def callback_def split: prod.splits sum.splits)

lemma abind_ok: "abind m f s = (Inr b, t) \<longleftrightarrow> (\<exists>a u. m s = (Inr a, u) \<and> f a u = (Inr b, t))"
  by (auto simp: abind_def split: prod.splits sum.splits)

lemma send_finished_ok:
  assumes "aeach cb (map (\<lambda>x. tool_chunk (tool_call_json x)) (oa_tools st) @ [finished_chunk]) s = (Inr (), t)"
  shows "send_finished cb (st, s) = (Inr (), (st\<lparr>oa_tools := []\<rparr>, t))"
proof -
  obtain u where "aeach cb (map (\<lambda>x. tool_chunk (tool_call_json x)) (oa_tools st)) s = (Inr (), u)"
    "cb finished_chunk u = (Inr (), t)"
    using assms by (auto simp: aeach_append abind_ok aret_def)
  then show ?thesis
    by (simp add: send_finished_def awith_def abind_def aeach_callback aupdate_def callback_def)
qed

lemma openai_event_finish:
  assumes "event_text_ok parse dump (finish_json reason)" "reason \<noteq> []" "\<not> oa_finished st"
    "aeach cb (map (\<lambda>x. tool_chunk (tool_call_json x)) (oa_tools st) @ [finished_chunk]) s = (Inr (), t)"
  shows "openai_event parse dump cb (dump (finish_json reason)) (st, s) = (Inr True, (\<lparr>oa_tools = [], oa_finished = True\<rparr>, t))"
  using assms(2,3) openai_event_choices [OF assms(1), of _ cb] send_finished_ok [OF assms(4)]
  by (simp add: finish_json_def openai_choice_def abind_def aret_def alift_def awith_def aupdate_def string_member_def)

lemma openai_run_deltas:
  assumes "list_all (\<lambda>d. delta_ok d \<and> event_text_ok parse dump (delta_json d)) ds"
    "aeach cb (map text_chunk (delta_texts ds)) s = (Inr (), u)"
  shows "run_events (\<lambda>ev. openai_event parse dump cb (se_data ev)) (map (\<lambda>d. sse_event_of (json_event dump (delta_json d))) ds @ es) (st, s) =
    run_events (\<lambda>ev. openai_event parse dump cb (se_data ev)) es (st\<lparr>oa_tools := fold apply_delta ds (oa_tools st)\<rparr>, u)"
  using assms
proof (induction ds arbitrary: st s)
  case Nil
  then show ?case by (simp add: aret_def)
next
  case (Cons d ds)
  show ?case
  proof (cases d)
    case (Text t)
    then obtain v where "cb (text_chunk t) s = (Inr (), v)" "aeach cb (map text_chunk (delta_texts ds)) v = (Inr (), u)"
      using Cons.prems(2) by (auto simp: abind_ok)
    with Text Cons show ?thesis
      by (simp add: openai_event_text sse_event_of_def json_event_def)
  next
    case (Call_Start i c n)
    with Cons openai_event_call [of parse dump d cb st s] show ?thesis
      by (simp add: sse_event_of_def json_event_def)
  next
    case (Call_Args i a)
    with Cons openai_event_call [of parse dump d cb st s] show ?thesis
      by (simp add: sse_event_of_def json_event_def)
  qed
qed


text \<open>The events of a whole answer: the deltas, the finish reason when the service sends one, the end mark.\<close>

definition service_events :: "(json \<Rightarrow> string) \<Rightarrow> delta list \<Rightarrow> string option \<Rightarrow> (string \<times> string list) list" where
  "service_events dump ds reason =
     map (\<lambda>d. json_event dump (delta_json d)) ds @
     (case reason of None \<Rightarrow> [] | Some r \<Rightarrow> [json_event dump (finish_json r)]) @ [([], [''[DONE]''])]"

definition service_ok :: "(string \<Rightarrow> json res) \<Rightarrow> (json \<Rightarrow> string) \<Rightarrow> delta list \<Rightarrow> string option \<Rightarrow> bool" where
  "service_ok parse dump ds reason \<longleftrightarrow>
     list_all (\<lambda>d. delta_ok d \<and> event_text_ok parse dump (delta_json d)) ds \<and>
     (case reason of None \<Rightarrow> True | Some r \<Rightarrow> r \<noteq> [] \<and> event_text_ok parse dump (finish_json r))"

text \<open>The request reaches a service that answers with the given text, in whatever pieces.\<close>

definition streams ::
    "llm_env \<Rightarrow> adapter_config \<Rightarrow> string \<Rightarrow> json res \<Rightarrow> headers \<Rightarrow> string \<Rightarrow> bool" where
  "streams E cfg p payload extra body =
     (case (resolve_endpoint cfg, payload) of
        (Inr ep, Inr j) \<Rightarrow>
          (he_is_https ep \<longrightarrow> le_openssl E) \<and>
          (let st = le_stream E (stream_call cfg ep p (le_dump E j) extra)
           in concat (hs_pieces st) = body \<and> (case hs_result st of Some (status, _) \<Rightarrow> status = 200 | None \<Rightarrow> False))
      | _ \<Rightarrow> False)"

definition network_error :: exn where
  "network_error = Runtime_Error ''LLM streaming request failed (Network / Timeout error)''"

lemma streams_events:
  fixes f :: "sse_event \<Rightarrow> ('s, bool) act"
  assumes "streams E cfg p payload extra (concat (map sse_text es))" "list_all sse_ok es"
  shows "\<exists>j. payload = Inr j \<and>
    stream_sse_events_ex (le_openssl E) (le_stream E) cfg p (le_dump E j) extra f s =
      (if fst (run_events f (map sse_event_of es) s) then Inr () else Inl network_error, snd (run_events f (map sse_event_of es) s))"
proof -
  from assms(1) obtain ep j rbody where "resolve_endpoint cfg = Inr ep" "payload = Inr j" "he_is_https ep \<longrightarrow> le_openssl E"
    "concat (hs_pieces (le_stream E (stream_call cfg ep p (le_dump E j) extra))) = concat (map sse_text es)"
    "hs_result (le_stream E (stream_call cfg ep p (le_dump E j) extra)) = Some (200, rbody)"
    by (auto simp: streams_def Let_def split: sum.splits option.splits)
  then show ?thesis
    by (simp add: stream_sse_events_ex_outcome sse_outcome_events [OF assms(2)] network_error_def)
qed

lemma json_event_ok: "event_text_ok parse dump j \<Longrightarrow> sse_ok (json_event dump j)"
  by (auto simp: sse_ok_def json_event_def event_text_ok_def sse_line_ok_def) (simp add: drop_cr_def)

lemma service_events_ok: "service_ok parse dump ds reason \<Longrightarrow> list_all sse_ok (service_events dump ds reason)"
  by (auto simp: service_ok_def service_events_def list_all_iff json_event_ok split: option.splits)
    (simp_all add: sse_ok_def sse_line_ok_def drop_cr_def)

lemma openai_event_done: "openai_event parse dump cb ''[DONE]'' x = (Inr True, x)"
  by (simp add: openai_event_def stream_trim_def aret_def Let_def)

lemma openai_run_service:
  assumes ok: "service_ok parse dump ds reason" and cb: "aeach cb (stream_chunks ds) s = (Inr (), t)"
  shows "\<exists>st u. run_events (\<lambda>ev. openai_event parse dump cb (se_data ev)) (map sse_event_of (service_events dump ds reason)) (new_openai, s) =
      (True, (st, u)) \<and> (oa_finished st \<longrightarrow> u = t) \<and>
    (\<not> oa_finished st \<longrightarrow> aeach cb (map (\<lambda>x. tool_chunk (tool_call_json x)) (oa_tools st) @ [finished_chunk]) u = (Inr (), t))"
proof -
  obtain u where texts: "aeach cb (map text_chunk (delta_texts ds)) s = (Inr (), u)"
    and rest: "aeach cb (map (\<lambda>x. tool_chunk (tool_call_json x)) (delta_calls ds) @ [finished_chunk]) u = (Inr (), t)"
    using cb by (auto simp: stream_chunks_def aeach_append [of cb "map text_chunk _"] abind_ok)
  have run: "run_events (\<lambda>ev. openai_event parse dump cb (se_data ev)) (map sse_event_of (service_events dump ds reason)) (new_openai, s) =
    run_events (\<lambda>ev. openai_event parse dump cb (se_data ev))
      (map sse_event_of ((case reason of None \<Rightarrow> [] | Some r \<Rightarrow> [json_event dump (finish_json r)]) @ [([], [''[DONE]''])]))
      (\<lparr>oa_tools = delta_calls ds, oa_finished = False\<rparr>, u)"
    using openai_run_deltas [of parse dump ds cb s u _ new_openai] ok texts
    by (simp add: service_events_def service_ok_def new_openai_def delta_calls_def comp_def)
  show ?thesis
  proof (cases reason)
    case None
    then show ?thesis
      using run rest by (simp add: openai_event_done sse_event_of_def)
  next
    case (Some r)
    then have "event_text_ok parse dump (finish_json r)" "r \<noteq> []"
      using ok by (simp_all add: service_ok_def)
    from openai_event_finish [OF this, of "\<lparr>oa_tools = delta_calls ds, oa_finished = False\<rparr>" cb u t] rest Some run
    show ?thesis
      by (simp add: openai_event_done sse_event_of_def json_event_def)
  qed
qed

theorem openai_stream_exact:
  assumes "streams E cfg (ac_chat_endpoint cfg) (openai_stream_payload cfg req) []
      (concat (map sse_text (service_events (le_dump E) ds reason)))"
    and ok: "service_ok (le_parse E) (le_dump E) ds reason"
    and cb: "aeach cb (stream_chunks ds) s = (Inr (), t)"
  shows "openai_call_chat_stream E cfg req cb s = (Inr (), t)"
proof -
  let ?f = "\<lambda>ev. openai_event (le_parse E) (le_dump E) cb (se_data ev)"
  obtain st u where run: "run_events ?f (map sse_event_of (service_events (le_dump E) ds reason)) (new_openai, s) = (True, (st, u))"
    and fin: "oa_finished st \<longrightarrow> u = t"
      "\<not> oa_finished st \<longrightarrow> aeach cb (map (\<lambda>x. tool_chunk (tool_call_json x)) (oa_tools st) @ [finished_chunk]) u = (Inr (), t)"
    using openai_run_service [OF ok cb] by blast
  obtain j where j: "openai_stream_payload cfg req = Inr j"
    and "stream_sse_events (le_openssl E) (le_stream E) cfg (ac_chat_endpoint cfg) (le_dump E j) []
      (openai_event (le_parse E) (le_dump E) cb) (new_openai, s) = (Inr (), (st, u))"
    using streams_events [OF assms(1) service_events_ok [OF ok], of ?f "(new_openai, s)"] run
    by (auto simp: stream_sse_events_def)
  then show ?thesis
    using fin send_finished_ok [of cb st u t]
    by (auto simp: openai_call_chat_stream_def j abind_def alift_def arun_def awith_def aret_def)
qed

section \<open>What an action keeps\<close>

definition keeps :: "('x \<Rightarrow> bool) \<Rightarrow> ('x, 'a) act \<Rightarrow> bool" where
  "keeps P m \<longleftrightarrow> (\<forall>x. P x \<longrightarrow> P (snd (m x)))"

named_theorems keeps_intros

lemma keeps_aret [keeps_intros]: "keeps P (aret a)"
  by (simp add: keeps_def aret_def)

lemma keeps_araise [keeps_intros]: "keeps P (araise e)"
  by (simp add: keeps_def araise_def)

lemma keeps_alift [keeps_intros]: "keeps P (alift r)"
  by (simp add: keeps_def alift_def)

lemma keeps_abind [keeps_intros]: "keeps P m \<Longrightarrow> (\<And>a. keeps P (f a)) \<Longrightarrow> keeps P (abind m f)"
  unfolding keeps_def abind_def by (auto split: prod.splits sum.splits)

lemma keepsD: "keeps P m \<Longrightarrow> P x \<Longrightarrow> m x = (r, y) \<Longrightarrow> P y"
  unfolding keeps_def by (metis snd_conv)

lemma keeps_awith [keeps_intros]: "(\<And>t. keeps P (f t)) \<Longrightarrow> keeps P (awith f)"
  by (simp add: keeps_def awith_def)

lemma keeps_aeach [keeps_intros]: "(\<And>x. keeps P (f x)) \<Longrightarrow> keeps P (aeach f xs)"
  by (induction xs) (auto intro: keeps_intros)

lemma keeps_deliver: "(\<And>d. keeps P (f d)) \<Longrightarrow> keeps P (deliver f ds)"
  by (induction ds) (auto intro!: keeps_intros)

lemma keeps_post_stream: "(\<And>d. keeps P (f d)) \<Longrightarrow> keeps P (post_json_stream_raw ssl net cfg p body extra f)"
  unfolding post_json_stream_raw_def Let_def
  by (intro keeps_intros; auto intro!: keeps_intros keeps_deliver split: option.splits)

lemma flush_event_keeps: "(\<And>ev. keeps P (f ev)) \<Longrightarrow> P (snd x) \<Longrightarrow> P (snd (flush_event f x))"
  by (auto simp: flush_event_def keeps_def Let_def split: prod.splits sum.splits) (metis snd_conv)+

lemma sse_line_keeps: "(\<And>ev. keeps P (f ev)) \<Longrightarrow> P (snd x) \<Longrightarrow> P (snd (sse_line f l x))"
  using flush_event_keeps [of P f x] by (auto simp: sse_line_def Let_def split: prod.splits)

lemma sse_lines_keeps: "(\<And>ev. keeps P (f ev)) \<Longrightarrow> P (snd x) \<Longrightarrow> P (snd (sse_lines f x))"
proof (induction f x rule: sse_lines.induct)
  case (1 f x)
  then show ?case
    by (cases "\<not> ss_continue (fst x) \<or> newline \<notin> set (ss_buffer (fst x))") (auto simp: sse_lines.simps [of f x] sse_line_keeps)
qed

lemma sse_finish_keeps: "(\<And>ev. keeps P (f ev)) \<Longrightarrow> P (snd x) \<Longrightarrow> P (snd (sse_finish f x))"
  by (simp add: sse_finish_def Let_def sse_lines_keeps flush_event_keeps)

lemma keeps_stream_sse:
  assumes "\<And>ev. keeps P (f ev)"
  shows "keeps P (stream_sse_events_ex ssl net cfg p body extra f)"
proof -
  have "keeps (\<lambda>x. P (snd x)) (sse_receive f d)" for d
    using assms by (simp add: keeps_def sse_receive_eq sse_after_def sse_lines_keeps)
  then have "keeps (\<lambda>x. P (snd x)) (post_json_stream_raw ssl net cfg p body extra (sse_receive f))"
    by (rule keeps_post_stream)
  then show ?thesis
    using assms unfolding keeps_def stream_sse_events_ex_def
    by (auto split: prod.splits sum.splits) (metis keeps_def sse_finish_keeps snd_conv)+
qed

section \<open>One final chunk\<close>

text \<open>A callback that records its chunks.\<close>

definition emit :: "stream_chunk \<Rightarrow> (stream_chunk list, unit) act" where
  "emit c cs = (Inr (), cs @ [c])"

definition finals :: "stream_chunk list \<Rightarrow> nat" where
  "finals cs = length (filter chunk_finished cs)"

lemma finals_simps [simp]:
  "finals (cs @ [text_chunk t]) = finals cs" "finals (cs @ [tool_chunk tc]) = finals cs"
  "finals (cs @ [finished_chunk]) = finals cs + 1" "finals (cs @ ds) = finals cs + finals ds" "finals [] = 0" "finals [finished_chunk] = 1"
  "finals (map (\<lambda>x. tool_chunk (g x)) xs) = 0"
  by (simp_all add: finals_def text_chunk_def tool_chunk_def finished_chunk_def filter_map comp_def)

lemma aeach_emit: "aeach emit xs cs = (Inr (), cs @ xs)"
  by (induction xs arbitrary: cs) (simp_all add: aret_def abind_def emit_def)

lemma callback_emit: "callback emit c x = (Inr (), (fst x, snd x @ [c]))"
  by (simp add: callback_def emit_def)

definition counted :: "('t \<Rightarrow> bool) \<Rightarrow> 't \<times> stream_chunk list \<Rightarrow> bool" where
  "counted fin x \<longleftrightarrow> finals (snd x) = (if fin (fst x) then 1 else 0)"

lemma keeps_callback [keeps_intros]:
  "\<not> chunk_finished c \<Longrightarrow> keeps (counted fin) (callback emit c)"
  by (simp add: keeps_def counted_def callback_emit finals_def)

lemma not_finished [simp]: "\<not> chunk_finished (text_chunk t)" "\<not> chunk_finished (tool_chunk tc)"
  by (simp_all add: text_chunk_def tool_chunk_def)

lemma keeps_aupdate [keeps_intros]: "(\<And>t. fin (f t) = fin t) \<Longrightarrow> keeps (counted fin) (aupdate f)"
  by (simp add: keeps_def counted_def aupdate_def)

lemma send_finished_emit:
  "send_finished emit x = (Inr (), ((fst x)\<lparr>oa_tools := []\<rparr>,
     snd x @ map (\<lambda>y. tool_chunk (tool_call_json y)) (oa_tools (fst x)) @ [finished_chunk]))"
  using send_finished_ok [of emit "fst x" "snd x"] by (simp add: aeach_emit)

lemma openai_choice_keeps: "keeps (counted oa_finished) (openai_choice emit c)"
proof -
  have fin: "keeps (counted oa_finished) (awith (\<lambda>st.
      if string_member c ''finish_reason'' \<noteq> [] \<and> \<not> oa_finished st
      then abind (send_finished emit) (\<lambda>_. aupdate (oa_finished_update (\<lambda>_. True))) else aret ()))"
    by (simp add: keeps_def awith_def counted_def abind_def send_finished_emit aupdate_def aret_def)
  show ?thesis
    unfolding openai_choice_def
    by (intro keeps_intros fin; auto intro!: keeps_intros split: option.splits json.splits)
qed

lemma openai_event_keeps: "keeps (counted oa_finished) (openai_event parse dump emit d)"
  unfolding openai_event_def Let_def
  by (auto intro!: keeps_intros openai_choice_keeps split: option.splits json.splits sum.splits)

lemma arun_ok: "arun st m s = (Inr a, t) \<longleftrightarrow> (\<exists>st'. m (st, s) = (Inr a, (st', t)))"
  by (auto simp: arun_def split: prod.splits)

lemma alift_ok: "alift r s = (Inr a, t) \<longleftrightarrow> r = Inr a \<and> t = s"
  by (auto simp: alift_def)

lemma openai_finishes_once:
  assumes "openai_call_chat_stream E cfg req emit [] = (Inr (), cs)"
  shows "finals cs = 1"
proof -
  obtain payload x st where x: "stream_sse_events_ex (le_openssl E) (le_stream E) cfg (ac_chat_endpoint cfg) (le_dump E payload) []
      (\<lambda>ev. openai_event (le_parse E) (le_dump E) emit (se_data ev)) (new_openai, []) = (Inr (), x)"
    and fin: "(if oa_finished (fst x) then aret () else send_finished emit) x = (Inr (), (st, cs))"
    using assms by (auto simp: openai_call_chat_stream_def stream_sse_events_def abind_ok alift_ok arun_ok awith_def)
  have "counted oa_finished x"
    by (rule keepsD [OF keeps_stream_sse _ x, where P = "counted oa_finished"])
      (simp_all add: openai_event_keeps counted_def new_openai_def)
  then show ?thesis
    using fin by (auto simp: counted_def send_finished_emit aret_def split: if_splits)
qed


lemma aeach_callback_emit:
  "aeach (\<lambda>y. callback emit (tool_chunk (g y))) ys x = (Inr (), (fst x, snd x @ map (\<lambda>y. tool_chunk (g y)) ys))"
  using aeach_callback [of emit "\<lambda>y. tool_chunk (g y)" ys "fst x" "snd x"] by (simp add: aeach_emit)

lemma anthropic_event_keeps: "keeps (counted an_finished) (process_anthropic_stream_event parse dump emit ev)"
proof -
  have stop: "keeps (counted an_finished) (awith (\<lambda>st. if an_finished st then aret True else abind (anthropic_stop emit) (\<lambda>_. aret False)))"
    by (simp add: keeps_def awith_def counted_def abind_def anthropic_stop_def aeach_callback_emit callback_emit aupdate_def aret_def)
  have delta: "keeps (counted an_finished) (anthropic_delta emit j)" for j
    unfolding anthropic_delta_def Let_def by (intro keeps_intros; auto intro!: keeps_intros)
  show ?thesis
    unfolding process_anthropic_stream_event_def Let_def
    by (auto intro!: keeps_intros stop delta split: sum.splits)
qed

lemma anthropic_finishes_once:
  assumes "anthropic_call_chat_stream E cfg req emit [] = (Inr (), cs)"
  shows "finals cs = 1"
proof -
  let ?rest = "\<lambda>st. if an_error st \<noteq> [] then araise (Runtime_Error (an_error st))
    else if \<not> an_finished st then callback emit finished_chunk else aret ()"
  obtain payload x st where x: "stream_sse_events_ex (le_openssl E) (le_stream E) cfg (resolve_anthropic_endpoint (ac_chat_endpoint cfg))
      (le_dump E payload) (build_anthropic_headers cfg) (process_anthropic_stream_event (le_parse E) (le_dump E) emit) (new_anthropic, []) = (Inr (), x)"
    and fin: "?rest (fst x) x = (Inr (), (st, cs))"
    using assms by (auto simp: anthropic_call_chat_stream_def abind_ok alift_ok arun_ok awith_def)
  have "counted an_finished x"
    by (rule keepsD [OF keeps_stream_sse _ x, where P = "counted an_finished"])
      (simp_all add: anthropic_event_keeps counted_def new_anthropic_def)
  then show ?thesis
    using fin by (auto simp: counted_def callback_emit aret_def araise_def split: if_splits)
qed

text \<open>No callback error comes from a callback that records.\<close>

lemma report_emit: "report_ollama_callback_error emit c x = (Inr (), (fst x, snd x @ [c]))"
  by (simp add: report_ollama_callback_error_def emit_def)

abbreviation unfinished :: "ollama_state \<times> stream_chunk list \<Rightarrow> bool" where
  "unfinished x \<equiv> finals (snd x) = 0 \<and> \<not> ol_finished (fst x)"

lemma keeps_report: "\<not> chunk_finished c \<Longrightarrow> keeps unfinished (report_ollama_callback_error emit c)"
  by (simp add: keeps_def report_emit finals_def)

lemma keeps_unless_error: "keeps P m \<Longrightarrow> keeps P (unless_error m)"
  unfolding unless_error_def by (auto intro!: keeps_intros)

lemma keeps_unfinished_update: "(\<And>t. ol_finished (f t) = ol_finished t) \<Longrightarrow> keeps unfinished (aupdate f)"
  by (simp add: keeps_def aupdate_def)

lemma ollama_tools_keep: "keeps unfinished (ollama_tool_chunks E emit i tcs)"
  by (induction tcs arbitrary: i) (auto intro!: keeps_intros keeps_unless_error keeps_report keeps_unfinished_update)

lemma unless_error_ends:
  assumes "\<And>x. unfinished x \<Longrightarrow> ol_error (fst x) = [] \<Longrightarrow> counted ol_finished (snd (m x))" "unfinished x"
  shows "counted ol_finished (snd (unless_error m x))"
  using assms by (auto simp: unless_error_def awith_def aret_def counted_def)

lemma abind_ends:
  assumes "keeps unfinished m" "\<And>a x. unfinished x \<Longrightarrow> counted ol_finished (snd (f a x))" "unfinished x"
  shows "counted ol_finished (snd (abind m f x))"
proof -
  obtain r y where y: "m x = (r, y)" by (cases "m x")
  have "unfinished y" using keepsD [OF assms(1) assms(3) y] .
  then show ?thesis using assms(2) by (cases r) (auto simp: abind_def y counted_def)
qed

lemma ollama_done_counts:
  assumes "unfinished x" "ol_error (fst x) = []"
  shows "counted ol_finished (snd (abind (alift r) (\<lambda>done.
    if done then abind (report_ollama_callback_error emit finished_chunk) (\<lambda>_. unless_error (aupdate (ol_finished_update (\<lambda>_. True))))
    else aret ()) x))"
  using assms
  by (cases r) (auto simp: abind_def alift_def araise_def report_emit unless_error_def awith_def aupdate_def aret_def counted_def)

lemma ollama_chunk_counts:
  assumes "unfinished x"
  shows "counted ol_finished (snd (ollama_chunk E emit j x))"
proof (cases "jget j ''error''")
  case None
  have content: "keeps unfinished (let t = string_member message ''content''
      in if t \<noteq> [] then report_ollama_callback_error emit (text_chunk t) else aret ())" for message
    by (auto simp: Let_def intro: keeps_report keeps_intros)
  have tools: "keeps unfinished (case jget message ''tool_calls'' of
      Some (JArray tcs) \<Rightarrow> ollama_tool_chunks E emit 0 tcs | _ \<Rightarrow> aret ())" for message
    by (auto intro: keeps_intros ollama_tools_keep split: option.splits json.splits)
  show ?thesis
    unfolding ollama_chunk_def None option.case
    by (intro abind_ends [OF keeps_alift] abind_ends [OF content] unless_error_ends abind_ends [OF tools] ollama_done_counts assms)
next
  case (Some e)
  then show ?thesis using assms by (simp add: ollama_chunk_def aupdate_def counted_def)
qed

lemma ollama_line_keeps: "keeps (counted ol_finished) (process_ollama_stream_line E emit l)"
  unfolding keeps_def
  by (auto simp: process_ollama_stream_line_def awith_def aret_def Let_def split: sum.splits)
    (rule ollama_chunk_counts, simp add: counted_def)

lemma ollama_finishes_once:
  assumes "ollama_call_chat_stream E cfg req emit [] = (Inr (), cs)"
  shows "finals cs = 1"
proof -
  have recv: "keeps (counted ol_finished) (ollama_receive E emit d)" for d
    unfolding ollama_receive_def by (auto intro!: keeps_intros ollama_line_keeps split: prod.splits)
  obtain payload x where x: "post_json_stream_raw (le_openssl E) (le_stream E) cfg (resolve_ollama_endpoint (ac_chat_endpoint cfg))
      (le_dump E payload) [] (ollama_receive E emit) (new_ollama, []) = (Inr (), x)"
    and fin: "\<exists>st. ollama_finish E emit x = (Inr (), (st, cs))"
    using assms by (auto simp: ollama_call_chat_stream_def abind_ok alift_ok arun_ok)
  have "counted ol_finished x"
    by (rule keepsD [OF keeps_post_stream _ x, where P = "counted ol_finished"]) (simp_all add: recv counted_def new_ollama_def)
  moreover obtain y where y: "awith (\<lambda>st. if ol_buffer st \<noteq> [] then process_ollama_stream_line E emit (ol_buffer st) else aret ()) x = (Inr (), y)"
    and last: "\<exists>st. (if ol_error (fst y) \<noteq> [] then araise (Runtime_Error (ol_error (fst y)))
      else if \<not> ol_finished (fst y) then callback emit finished_chunk else aret ()) y = (Inr (), (st, cs))"
    using fin by (auto simp: ollama_finish_def abind_ok awith_def)
  moreover have "keeps (counted ol_finished)
      (awith (\<lambda>st. if ol_buffer st \<noteq> [] then process_ollama_stream_line E emit (ol_buffer st) else aret ()))"
    by (intro keeps_intros) (auto intro: ollama_line_keeps keeps_intros)
  ultimately have "counted ol_finished y"
    by (blast intro: keepsD)
  then show ?thesis
    using last by (auto simp: counted_def callback_emit aret_def araise_def split: if_splits)
qed

text \<open>C16: whatever the service sends, a streamed call that returns without an exception has given its callback exactly one final chunk.\<close>

theorem stream_finishes_once:
  "call_chat_stream kind E cfg req emit [] = (Inr (), cs) \<Longrightarrow> length (filter chunk_finished cs) = 1"
  using openai_finishes_once anthropic_finishes_once ollama_finishes_once
  unfolding finals_def by (cases kind) auto

section \<open>Streams that end in an error\<close>

definition anthropic_type :: "json \<Rightarrow> sse_event \<Rightarrow> string" where
  "anthropic_type j ev = (if se_event ev = [] then string_member j ''type'' else se_event ev)"

definition message_stop :: "(string \<Rightarrow> json res) \<Rightarrow> sse_event \<Rightarrow> bool" where
  "message_stop parse ev \<longleftrightarrow> se_data ev \<noteq> ''[DONE]'' \<and> se_data ev \<noteq> [] \<and>
     (case parse (se_data ev) of Inr j \<Rightarrow> anthropic_type j ev = ''message_stop'' | Inl _ \<Rightarrow> False)"

lemma abind_declines: "fst (abind m (\<lambda>_. aret False) x) \<noteq> Inr True"
  by (auto simp: abind_def aret_def split: prod.splits sum.splits)

lemma message_stop_declines:
  assumes "message_stop parse ev" "\<not> an_finished (fst x)"
  shows "fst (process_anthropic_stream_event parse dump cb ev x) \<noteq> Inr True"
proof -
  obtain j where j: "parse (se_data ev) = Inr j" "(if se_event ev = [] then string_member j ''type'' else se_event ev) = ''message_stop''"
    "se_data ev \<noteq> ''[DONE]''" "se_data ev \<noteq> []"
    using assms(1) by (auto simp: message_stop_def anthropic_type_def split: sum.splits)
  have "process_anthropic_stream_event parse dump cb ev x = abind (anthropic_stop cb) (\<lambda>_. aret False) x"
    unfolding process_anthropic_stream_event_def Let_def j(1) sum.case j(2) using j(3,4) assms(2) by (simp add: awith_def)
  then show ?thesis by (simp only: abind_declines) simp
qed

text \<open>What is kept when the handler asks for more.\<close>

definition keeps_on :: "('x \<Rightarrow> bool) \<Rightarrow> ('x, bool) act \<Rightarrow> bool" where
  "keeps_on P m \<longleftrightarrow> (\<forall>x y. P x \<longrightarrow> m x = (Inr True, y) \<longrightarrow> P y)"

lemma keeps_on_keeps: "keeps P m \<Longrightarrow> keeps_on P m"
  unfolding keeps_def keeps_on_def by (metis snd_conv)

lemma keeps_on_declines: "keeps_on P (abind m (\<lambda>_. aret False))"
  by (simp add: keeps_on_def abind_ok aret_def)

lemma anthropic_unfinished: "keeps_on (\<lambda>x. \<not> an_finished (fst x)) (process_anthropic_stream_event parse dump cb ev)"
  (is "keeps_on ?P _")
proof -
  have cb: "keeps ?P (callback cb c)" for c
    by (auto simp: keeps_def callback_def split: prod.splits)
  have upd: "(\<And>t. an_finished (f t) = an_finished t) \<Longrightarrow> keeps ?P (aupdate f)" for f
    by (simp add: keeps_def aupdate_def)
  have delta: "keeps ?P (anthropic_delta cb j)" for j
    unfolding anthropic_delta_def Let_def by (intro keeps_intros; auto intro!: keeps_intros cb upd)
  have start: "keeps ?P (awith (\<lambda>st. abind (alift (anthropic_block_start j (an_calls st)))
      (\<lambda>calls. abind (aupdate (an_calls_update (\<lambda>_. calls))) (\<lambda>_. aret True))))" for j
    by (auto intro!: keeps_intros upd)
  have stop: "keeps_on ?P (awith (\<lambda>st. if an_finished st then aret True else abind (anthropic_stop cb) (\<lambda>_. aret False)))"
    using keeps_on_declines [of ?P "anthropic_stop cb"] by (simp add: keeps_on_def awith_def)
  have split: "(c \<Longrightarrow> keeps_on ?P a) \<Longrightarrow> (\<not> c \<Longrightarrow> keeps_on ?P b) \<Longrightarrow> keeps_on ?P (if c then a else b)" for c a b
    by simp
  show ?thesis
    unfolding process_anthropic_stream_event_def Let_def
    by (cases "parse (se_data ev)"; simp only: sum.case)
      (intro split keeps_on_declines stop keeps_on_keeps start keeps_abind delta keeps_aret)+
qed

lemma anthropic_run_stops:
  "list_ex (message_stop parse) es \<Longrightarrow> \<not> an_finished (fst x) \<Longrightarrow>
     \<not> fst (run_events (process_anthropic_stream_event parse dump cb) es x)"
proof (induction es arbitrary: x)
  case (Cons e es)
  obtain r y where ry: "process_anthropic_stream_event parse dump cb e x = (r, y)"
    by (cases "process_anthropic_stream_event parse dump cb e x")
  show ?case
  proof (cases "r = Inr True")
    case True
    then have "\<not> message_stop parse e"
      using message_stop_declines [of parse e x dump cb] ry Cons.prems(2) by auto
    moreover have "\<not> an_finished (fst y)"
      using anthropic_unfinished [of parse dump cb e] ry Cons.prems(2) True unfolding keeps_on_def by blast
    ultimately show ?thesis using Cons ry True by simp
  next
    case False
    then show ?thesis using ry by (auto split: sum.splits bool.splits)
  qed
qed simp

text \<open>C20: a stream of the Anthropic service that contains its end event \<open>message_stop\<close>, as every complete answer does, ends in the network error of the transport, whatever was delivered before.\<close>

theorem anthropic_stream_fails:
  assumes "streams E cfg (resolve_anthropic_endpoint (ac_chat_endpoint cfg)) (build_anthropic_payload (le_parse E) cfg req True)
      (build_anthropic_headers cfg) (concat (map sse_text es))"
    and "list_all sse_ok es" "list_ex (message_stop (le_parse E)) (map sse_event_of es)"
  shows "fst (anthropic_call_chat_stream E cfg req cb s) = Inl network_error"
proof -
  let ?f = "process_anthropic_stream_event (le_parse E) (le_dump E) cb"
  have "\<not> fst (run_events ?f (map sse_event_of es) (new_anthropic, s))"
    using assms(3) by (rule anthropic_run_stops) (simp add: new_anthropic_def)
  then obtain j where "build_anthropic_payload (le_parse E) cfg req True = Inr j"
    "stream_sse_events_ex (le_openssl E) (le_stream E) cfg (resolve_anthropic_endpoint (ac_chat_endpoint cfg)) (le_dump E j)
       (build_anthropic_headers cfg) ?f (new_anthropic, s) =
     (Inl network_error, snd (run_events ?f (map sse_event_of es) (new_anthropic, s)))"
    using streams_events [OF assms(1,2), of ?f "(new_anthropic, s)"] by auto
  then show ?thesis
    by (simp add: anthropic_call_chat_stream_def abind_def alift_def arun_def split: prod.splits)
qed

text \<open>A provider's error object in the stream does not reach the caller.\<close>

definition error_event :: "(string \<Rightarrow> json res) \<Rightarrow> sse_event \<Rightarrow> bool" where
  "error_event parse ev \<longleftrightarrow> stream_trim (se_data ev) \<noteq> ''[DONE]'' \<and> stream_trim (se_data ev) \<noteq> [] \<and>
     (case parse (stream_trim (se_data ev)) of Inr j \<Rightarrow> jcontains j ''error'' | Inl _ \<Rightarrow> False)"

lemma run_events_declined:
  "list_ex (\<lambda>e. \<forall>x. fst (f e x) \<noteq> Inr True) es \<Longrightarrow> \<not> fst (run_events f es x)"
proof (induction es arbitrary: x)
  case (Cons e es)
  obtain r y where ry: "f e x = (r, y)" by (cases "f e x")
  show ?case
  proof (cases "r = Inr True")
    case True
    then have "list_ex (\<lambda>e. \<forall>x. fst (f e x) \<noteq> Inr True) es"
      using Cons.prems ry by (auto dest: spec [of _ x])
    then show ?thesis using Cons.IH ry True by simp
  next
    case False
    then show ?thesis using ry by (auto split: sum.splits bool.splits)
  qed
qed simp

theorem openai_error_hidden:
  assumes "streams E cfg (ac_chat_endpoint cfg) (openai_stream_payload cfg req) [] (concat (map sse_text es))"
    and "list_all sse_ok es" "list_ex (error_event (le_parse E)) (map sse_event_of es)"
  shows "fst (openai_call_chat_stream E cfg req cb s) = Inl network_error"
proof -
  let ?f = "\<lambda>ev. openai_event (le_parse E) (le_dump E) cb (se_data ev)"
  have "error_event (le_parse E) e \<Longrightarrow> fst (?f e x) \<noteq> Inr True" for e x
    by (auto simp: error_event_def openai_event_def Let_def jcontains_def araise_def split: sum.splits)
  then have "list_ex (\<lambda>e. \<forall>x. fst (?f e x) \<noteq> Inr True) (map sse_event_of es)"
    using assms(3) by (auto simp: list_ex_iff)
  then have "\<not> fst (run_events ?f (map sse_event_of es) (new_openai, s))"
    by (rule run_events_declined)
  then obtain j where "openai_stream_payload cfg req = Inr j"
    "stream_sse_events_ex (le_openssl E) (le_stream E) cfg (ac_chat_endpoint cfg) (le_dump E j) [] ?f (new_openai, s) =
     (Inl network_error, snd (run_events ?f (map sse_event_of es) (new_openai, s)))"
    using streams_events [OF assms(1,2), of ?f "(new_openai, s)"] by auto
  then show ?thesis
    by (simp add: openai_call_chat_stream_def stream_sse_events_def abind_def alift_def arun_def split: prod.splits)
qed


section \<open>Independence of the pieces\<close>

lemma cut_lines_step:
  "newline \<notin> set l \<Longrightarrow> cut_lines (l @ newline # r) = (case cut_lines r of (ls, q) \<Rightarrow> (l # ls, q))"
  by (subst cut_lines.simps) (simp add: takeWhile_append dropWhile_append)

lemma cut_lines_none: "newline \<notin> set b \<Longrightarrow> cut_lines b = ([], b)"
  by (subst cut_lines.simps) simp

lemma cut_lines_append:
  "cut_lines (b @ d) = (case cut_lines b of (ls, q) \<Rightarrow> case cut_lines (q @ d) of (ms, r) \<Rightarrow> (ls @ ms, r))"
proof (induction "length b" arbitrary: b rule: less_induct)
  case less
  show ?case
  proof (cases "newline \<in> set b")
    case True
    then obtain l r where b: "b = l @ newline # r" "newline \<notin> set l"
      by (meson split_list_first)
    then show ?thesis
      using less [of r] by (simp add: cut_lines_step split: prod.splits)
  qed (simp add: cut_lines_none split: prod.splits)
qed

lemma cut_lines_rest: "newline \<notin> set (snd (cut_lines b))"
proof (induction "length b" arbitrary: b rule: less_induct)
  case less
  show ?case
  proof (cases "newline \<in> set b")
    case True
    then obtain l r where b: "b = l @ newline # r" "newline \<notin> set l"
      by (meson split_list_first)
    then show ?thesis
      using less [of r] by (auto simp: cut_lines_step split: prod.splits)
  qed (simp add: cut_lines_none)
qed

text \<open>Actions that neither read nor change the line buffer.\<close>

definition set_buffer :: "string \<Rightarrow> ollama_state \<times> 's \<Rightarrow> ollama_state \<times> 's" where
  "set_buffer b x = ((fst x)\<lparr>ol_buffer := b\<rparr>, snd x)"

definition frames :: "(ollama_state \<times> 's, 'a) act \<Rightarrow> bool" where
  "frames m \<longleftrightarrow> (\<forall>b x. m (set_buffer b x) = (fst (m x), set_buffer b (snd (m x))))"

named_theorems frames_intros

lemma frames_simple [frames_intros]: "frames (aret a)" "frames (araise e)" "frames (alift r)"
  by (simp_all add: frames_def aret_def araise_def alift_def)

lemma frames_abind [frames_intros]: "frames m \<Longrightarrow> (\<And>a. frames (f a)) \<Longrightarrow> frames (abind m f)"
  unfolding frames_def abind_def by (auto split: prod.splits sum.splits)

lemma frames_aeach [frames_intros]: "(\<And>x. frames (f x)) \<Longrightarrow> frames (aeach f xs)"
  by (induction xs) (auto intro: frames_intros)

lemma frames_awith [frames_intros]:
  "(\<And>t. frames (f t)) \<Longrightarrow> (\<And>b t. f (t\<lparr>ol_buffer := b\<rparr>) = f t) \<Longrightarrow> frames (awith f)"
  by (simp add: frames_def awith_def set_buffer_def)

lemma frames_aupdate [frames_intros]: "(\<And>b t. f (t\<lparr>ol_buffer := b\<rparr>) = (f t)\<lparr>ol_buffer := b\<rparr>) \<Longrightarrow> frames (aupdate f)"
  by (simp add: frames_def aupdate_def set_buffer_def)

lemma frames_report [frames_intros]: "frames (report_ollama_callback_error cb c)"
  by (auto simp: frames_def report_ollama_callback_error_def set_buffer_def split: prod.splits sum.splits)

lemma frames_unless_error [frames_intros]: "frames m \<Longrightarrow> frames (unless_error m)"
  unfolding unless_error_def by (auto intro!: frames_intros)

lemma frames_tools: "frames (ollama_tool_chunks E cb i tcs)"
  by (induction tcs arbitrary: i) (auto intro!: frames_intros)

lemma frames_line: "frames (process_ollama_stream_line E cb l)"
proof -
  have "frames (ollama_chunk E cb j)" for j
    unfolding ollama_chunk_def Let_def
    by (cases "jget j ''error''"; simp) (intro frames_intros; auto intro!: frames_intros frames_tools split: option.splits json.splits)+
  then show ?thesis
    unfolding process_ollama_stream_line_def Let_def
    by (auto intro!: frames_intros split: sum.splits)
qed


lemma framesD: "frames m \<Longrightarrow> m (set_buffer b x) = (fst (m x), set_buffer b (snd (m x)))"
  unfolding frames_def by blast

lemma set_buffer_simps [simp]:
  "ol_buffer (fst (set_buffer b x)) = b" "snd (set_buffer b x) = snd x" "set_buffer b (set_buffer c x) = set_buffer b x"
  "set_buffer (ol_buffer (fst x)) x = x"
  by (simp_all add: set_buffer_def)

lemma ollama_receive_eq:
  "ollama_receive E cb d x =
     (case cut_lines (ol_buffer (fst x) @ d) of (ls, q) \<Rightarrow>
        case aeach (process_ollama_stream_line E cb) ls x of
          (Inl e, y) \<Rightarrow> (Inl e, set_buffer q y) | (Inr _, y) \<Rightarrow> (Inr True, set_buffer q y))"
proof -
  obtain ls q where lq: "cut_lines (ol_buffer (fst x) @ d) = (ls, q)" by fastforce
  have fr: "frames (aeach (process_ollama_stream_line E cb) ls)"
    by (rule frames_aeach) (rule frames_line)
  obtain r y where ry: "aeach (process_ollama_stream_line E cb) ls x = (r, y)"
    by (cases "aeach (process_ollama_stream_line E cb) ls x")
  have "aupdate (ol_buffer_update (\<lambda>_. q)) x = (Inr (), set_buffer q x)"
    by (simp add: aupdate_def set_buffer_def)
  then show ?thesis
    using framesD [OF fr, of q x] by (cases r) (simp_all add: ollama_receive_def awith_def lq abind_def ry aret_def)
qed

lemma deliver_ollama:
  assumes "newline \<notin> set (ol_buffer (fst x))" "cut_lines (ol_buffer (fst x) @ concat ds) = (ls, rest)"
    "aeach (process_ollama_stream_line E cb) ls x = (r, y)"
  shows "\<exists>z. deliver (ollama_receive E cb) ds x = (case r of Inl e \<Rightarrow> Inl e | Inr _ \<Rightarrow> Inr True, z) \<and>
    snd z = snd y \<and> (\<forall>u. r = Inr u \<longrightarrow> z = set_buffer rest y)"
  using assms
proof (induction ds arbitrary: x ls r y)
  case Nil
  then show ?case by (auto simp: cut_lines_none aret_def)
next
  case (Cons d ds)
  obtain l1 q where q: "cut_lines (ol_buffer (fst x) @ d) = (l1, q)" by fastforce
  obtain ms where ms: "cut_lines (q @ concat ds) = (ms, rest)" "ls = l1 @ ms"
    using Cons.prems(2) cut_lines_append [of "ol_buffer (fst x) @ d" "concat ds"] by (auto simp: q split: prod.splits)
  obtain r1 y1 where y1: "aeach (process_ollama_stream_line E cb) l1 x = (r1, y1)"
    by (cases "aeach (process_ollama_stream_line E cb) l1 x")
  show ?case
  proof (cases r1)
    case (Inl e)
    then have "r = Inl e" "y = y1"
      using Cons.prems(3) y1 by (simp_all add: ms(2) aeach_append abind_def)
    then show ?thesis
      using y1 Inl by (simp add: abind_def ollama_receive_eq q)
  next
    case (Inr u)
    have tail: "aeach (process_ollama_stream_line E cb) ms y1 = (r, y)"
      using Cons.prems(3) y1 Inr by (simp add: ms(2) aeach_append abind_def)
    have "frames (aeach (process_ollama_stream_line E cb) ms)"
      by (rule frames_aeach) (rule frames_line)
    then have "aeach (process_ollama_stream_line E cb) ms (set_buffer q y1) = (r, set_buffer q y)"
      using framesD [of "aeach (process_ollama_stream_line E cb) ms" q y1] tail by simp
    moreover have "newline \<notin> set (ol_buffer (fst (set_buffer q y1)))"
      using cut_lines_rest [of "ol_buffer (fst x) @ d"] q by simp
    ultimately show ?thesis
      using Cons.IH [of "set_buffer q y1" ms r "set_buffer q y"] y1 Inr ms(1)
      by (simp add: abind_def ollama_receive_eq q)
  qed
qed

text \<open>Two networks whose bodies have the same text.\<close>

definition same_bodies :: "(http_call \<Rightarrow> http_stream) \<Rightarrow> (http_call \<Rightarrow> http_stream) \<Rightarrow> bool" where
  "same_bodies net net' \<longleftrightarrow>
     (\<forall>c. concat (hs_pieces (net c)) = concat (hs_pieces (net' c)) \<and> hs_result (net c) = hs_result (net' c))"

lemma sse_stream_pieces:
  assumes "same_bodies net net'"
  shows "stream_sse_events_ex ssl net cfg p body extra f = stream_sse_events_ex ssl net' cfg p body extra f"
proof
  fix s
  show "stream_sse_events_ex ssl net cfg p body extra f s = stream_sse_events_ex ssl net' cfg p body extra f s"
  proof (cases "\<exists>ep. resolve_endpoint cfg = Inr ep \<and> (he_is_https ep \<longrightarrow> ssl)")
    case True
    then show ?thesis
      using assms by (auto simp: stream_sse_events_ex_outcome same_bodies_def)
  next
    case False
    then show ?thesis
      by (cases "resolve_endpoint cfg") (simp_all add: stream_sse_events_ex_def post_json_stream_raw_def araise_def)
  qed
qed

lemma ollama_stream_pieces:
  assumes "same_bodies net net'"
  shows "arun new_ollama (abind (post_json_stream_raw ssl net cfg p body extra (ollama_receive E cb)) (\<lambda>_. ollama_finish E cb)) =
    arun new_ollama (abind (post_json_stream_raw ssl net' cfg p body extra (ollama_receive E cb)) (\<lambda>_. ollama_finish E cb))"
proof
  fix s
  show "arun new_ollama (abind (post_json_stream_raw ssl net cfg p body extra (ollama_receive E cb)) (\<lambda>_. ollama_finish E cb)) s =
    arun new_ollama (abind (post_json_stream_raw ssl net' cfg p body extra (ollama_receive E cb)) (\<lambda>_. ollama_finish E cb)) s"
  proof (cases "resolve_endpoint cfg")
    case (Inr ep)
    let ?st = "net (stream_call cfg ep p body extra)" and ?st' = "net' (stream_call cfg ep p body extra)"
    have same: "concat (hs_pieces ?st) = concat (hs_pieces ?st')" "hs_result ?st = hs_result ?st'"
      using assms by (auto simp: same_bodies_def)
    obtain ls rest where lr: "cut_lines (concat (hs_pieces ?st)) = (ls, rest)" by fastforce
    obtain r y where ry: "aeach (process_ollama_stream_line E cb) ls (new_ollama, s) = (r, y)"
      by (cases "aeach (process_ollama_stream_line E cb) ls (new_ollama, s)")
    have fresh: "newline \<notin> set (ol_buffer (fst (new_ollama, s)))" by (simp add: new_ollama_def)
    have cut: "cut_lines (ol_buffer (fst (new_ollama, s)) @ concat (hs_pieces ?st)) = (ls, rest)"
      "cut_lines (ol_buffer (fst (new_ollama, s)) @ concat (hs_pieces ?st')) = (ls, rest)"
      using lr same(1) by (simp_all add: new_ollama_def)
    obtain z where z: "deliver (ollama_receive E cb) (hs_pieces ?st) (new_ollama, s) = (case r of Inl e \<Rightarrow> Inl e | Inr _ \<Rightarrow> Inr True, z)"
      "snd z = snd y" "\<forall>u. r = Inr u \<longrightarrow> z = set_buffer rest y"
      using deliver_ollama [OF fresh cut(1) ry] by blast
    obtain z' where z': "deliver (ollama_receive E cb) (hs_pieces ?st') (new_ollama, s) = (case r of Inl e \<Rightarrow> Inl e | Inr _ \<Rightarrow> Inr True, z')"
      "snd z' = snd y" "\<forall>u. r = Inr u \<longrightarrow> z' = set_buffer rest y"
      using deliver_ollama [OF fresh cut(2) ry] by blast
    have same_z: "snd z = snd z'" "(\<exists>u. r = Inr u) \<longrightarrow> z = z'"
      using z(2,3) z'(2,3) by auto
    then show ?thesis
      by (cases r) (auto simp: arun_def post_json_stream_raw_def Inr Let_def abind_def z(1) z'(1) same(2) araise_def
          split: option.splits prod.splits)
  qed (simp add: arun_def post_json_stream_raw_def araise_def)
qed

text \<open>The handlers do not use the network.\<close>

lemma ollama_tool_chunks_net [simp]: "ollama_tool_chunks (E\<lparr>le_stream := net\<rparr>) cb i tcs = ollama_tool_chunks E cb i tcs"
  by (induction tcs arbitrary: i) simp_all

lemma ollama_chunk_net [simp]: "ollama_chunk (E\<lparr>le_stream := net\<rparr>) cb = ollama_chunk E cb"
  by (rule ext) (simp add: ollama_chunk_def cong: option.case_cong json.case_cong)

lemma ollama_line_net [simp]: "process_ollama_stream_line (E\<lparr>le_stream := net\<rparr>) cb = process_ollama_stream_line E cb"
  by (rule ext) (simp add: process_ollama_stream_line_def Let_def cong: if_cong sum.case_cong)

lemma ollama_net [simp]:
  "ollama_receive (E\<lparr>le_stream := net\<rparr>) cb = ollama_receive E cb"
  "ollama_finish (E\<lparr>le_stream := net\<rparr>) cb = ollama_finish E cb"
  by (simp_all add: ollama_receive_def [abs_def] ollama_finish_def cong: if_cong)

text \<open>C17: the result of a streamed call, and everything its callback does, depend on the text of the body and not on the pieces in which the network delivers it.\<close>

theorem pieces_do_not_matter:
  assumes "same_bodies (le_stream E) net"
  shows "call_chat_stream kind (E\<lparr>le_stream := net\<rparr>) cfg req cb = call_chat_stream kind E cfg req cb"
  by (cases kind)
    (simp_all add: sse_stream_pieces [OF assms, symmetric] ollama_stream_pieces [OF assms, symmetric] openai_call_chat_stream_def anthropic_call_chat_stream_def ollama_call_chat_stream_def stream_sse_events_def)

section \<open>Examples\<close>

definition sample_deltas :: "delta list" where
  "sample_deltas = [Text ''hi'', Call_Start 0 ''c1'' ''ls'', Call_Args 0 ''{}'']"

definition sample_dump :: "json \<Rightarrow> string" where
  "sample_dump j =
     (if j = delta_json (Text ''hi'') then ''{1}'' else if j = delta_json (Call_Start 0 ''c1'' ''ls'') then ''{2}''
      else if j = delta_json (Call_Args 0 ''{}'') then ''{3}'' else if j = finish_json ''stop'' then ''{4}'' else ''{}'')"

definition sample_parse :: "string \<Rightarrow> json res" where
  "sample_parse t =
     (if t = ''{1}'' then Inr (delta_json (Text ''hi'')) else if t = ''{2}'' then Inr (delta_json (Call_Start 0 ''c1'' ''ls''))
      else if t = ''{3}'' then Inr (delta_json (Call_Args 0 ''{}'')) else if t = ''{4}'' then Inr (finish_json ''stop'')
      else if t = ''{}'' then Inr (JObject [])
      else if t = ''ok'' then Inr (jobj [(''choices'', JArray [jobj [(''message'', jobj [(''content'', JString ''hi'')])]])])
      else Inl (Runtime_Error ''parse error''))"

definition sample_env :: "string list \<Rightarrow> llm_env" where
  "sample_env pieces =
     \<lparr>le_openssl = False, le_post = (\<lambda>c. Some (200, ''ok'')), le_stream = (\<lambda>c. \<lparr>hs_pieces = pieces, hs_result = Some (200, [])\<rparr>),
      le_parse = sample_parse, le_dump = sample_dump, le_clock = int\<rparr>"

definition sample_config :: adapter_config where
  "sample_config =
     \<lparr>ac_active_adapter = ''llama'', ac_base_url = [], ac_api_key = [], ac_host = ''localhost'', ac_base_path = ''/v1'',
      ac_chat_endpoint = ''/chat/completions'', ac_model = ''m'', ac_port = 80, ac_use_https = False, ac_timeout_ms = 1000,
      ac_stop_tokens = [], ac_enable_tools = False, ac_enable_streaming = True, ac_stream_idle_timeout_ms = 0\<rparr>"

definition sample_chat :: chat_request where
  "sample_chat =
     \<lparr>cr_model = [], cr_messages = JArray [jobj [(''role'', JString ''user''), (''content'', JString ''x'')]], cr_tools = JArray [],
      cr_tool_choice = JNull, cr_sampling = JObject [], cr_stream = True, cr_max_tokens = 0, cr_stop = [], cr_extra_body = JObject []\<rparr>"

definition sample_body :: string where
  "sample_body = concat (map sse_text (service_events sample_dump sample_deltas (Some ''stop'')))"

lemma sample_payload: "\<exists>j. openai_stream_payload sample_config sample_chat = Inr j"
  by (simp add: openai_stream_payload_def normalize_messages_for_provider_def normalize_message_def sample_chat_def Let_def)

lemma sample_streams:
  "streams (sample_env [sample_body]) sample_config (ac_chat_endpoint sample_config)
     (openai_stream_payload sample_config sample_chat) [] sample_body"
  using sample_payload
  by (auto simp: streams_def resolve_endpoint_def sample_config_def sample_env_def Let_def)

lemma sample_service: "service_ok sample_parse sample_dump sample_deltas (Some ''stop'')"
  by (simp add: service_ok_def sample_deltas_def event_text_ok_def sample_dump_def sample_parse_def delta_json_def finish_json_def
      jobj_def sse_line_ok_def drop_cr_def stream_trim_def to_int32_def)

theorem stream_finishes_once_witness:
  "call_chat_stream LlamaCppAdapter (sample_env [sample_body]) sample_config sample_chat emit [] =
     (Inr (), stream_chunks sample_deltas) \<and> length (filter chunk_finished (stream_chunks sample_deltas)) = 1"
proof -
  have "openai_call_chat_stream (sample_env [sample_body]) sample_config sample_chat emit [] = (Inr (), stream_chunks sample_deltas)"
    by (rule openai_stream_exact [where ds = sample_deltas and reason = "Some ''stop''"])
      (use sample_streams sample_service in \<open>simp_all add: sample_env_def sample_body_def aeach_emit\<close>)
  then have run: "call_chat_stream LlamaCppAdapter (sample_env [sample_body]) sample_config sample_chat emit [] =
     (Inr (), stream_chunks sample_deltas)" by simp
  show ?thesis using run stream_finishes_once [OF run] by simp
qed

theorem pieces_do_not_matter_witness:
  "same_bodies (le_stream (sample_env [''{}'', [newline]])) (le_stream (sample_env [''{}'' @ [newline]])) \<and>
   call_chat_stream OllamaAdapter ((sample_env [''{}'', [newline]])\<lparr>le_stream := le_stream (sample_env [''{}'' @ [newline]])\<rparr>)
       sample_config sample_chat emit =
     call_chat_stream OllamaAdapter (sample_env [''{}'', [newline]]) sample_config sample_chat emit"
proof -
  have same: "same_bodies (le_stream (sample_env [''{}'', [newline]])) (le_stream (sample_env [''{}'' @ [newline]]))"
    by (simp add: same_bodies_def sample_env_def)
  show ?thesis using same pieces_do_not_matter [OF same, of OllamaAdapter sample_config sample_chat emit] by blast
qed

theorem anthropic_stream_fails_witness:
  "list_ex (message_stop sample_parse) (map sse_event_of [(''message_stop'', [''{}''])]) \<and>
   fst (anthropic_call_chat_stream (sample_env [concat (map sse_text [(''message_stop'', [''{}''])])]) sample_config sample_chat emit []) =
     Inl network_error"
proof -
  have net: "streams (sample_env [concat (map sse_text [(''message_stop'', [''{}''])])]) sample_config
      (resolve_anthropic_endpoint (ac_chat_endpoint sample_config))
      (build_anthropic_payload (le_parse (sample_env [concat (map sse_text [(''message_stop'', [''{}''])])])) sample_config sample_chat True)
      (build_anthropic_headers sample_config) (concat (map sse_text [(''message_stop'', [''{}''])]))"
    by (simp add: streams_def resolve_endpoint_def sample_config_def sample_env_def sample_chat_def Let_def build_anthropic_payload_def
        copy_param_def jcontains_def to_anthropic_content_from_message_def apply_anthropic_tools_def)
  have ok: "list_all sse_ok [(''message_stop'', [''{}''])]"
    by (simp add: sse_ok_def sse_line_ok_def drop_cr_def)
  have stop: "list_ex (message_stop sample_parse) (map sse_event_of [(''message_stop'', [''{}''])])"
    by (simp add: message_stop_def sse_event_of_def sample_parse_def anthropic_type_def)
  have "list_ex (message_stop (le_parse (sample_env [concat (map sse_text [(''message_stop'', [''{}''])])])))
      (map sse_event_of [(''message_stop'', [''{}''])])"
    using stop by (simp add: sample_env_def)
  from stop anthropic_stream_fails [OF net ok this, of emit "[]"] show ?thesis by blast
qed

end
