(* ===== verification/Config_Utils.thy ===== *)
theory Config_Utils
  imports Json
begin

text \<open>
  \<^verbatim>\<open>utils/config_utils.hpp\<close>: the caches of ports and settings with their time to live, the reading of a
  \<^verbatim>\<open>.env\<close> file, and the environment. Files, the environment and the clock (in milliseconds) are arguments;
  time 0 is the clock's own zero, which stands for never loaded. A value served from the caches was in
  its file less than the time to live ago; a written \<^verbatim>\<open>.env\<close> file is read back.
\<close>

section \<open>Caches\<close>

type_synonym files = "string \<Rightarrow> string option"

record config_cache =
  cc_ports :: "(string, int) table"
  cc_config :: json
  cc_ports_at :: int
  cc_config_at :: int

definition new_cache :: config_cache where
  "new_cache = \<lparr>cc_ports = [], cc_config = JNull, cc_ports_at = 0, cc_config_at = 0\<rparr>"

definition config_ttl_sec :: "string option \<Rightarrow> int" where
  "config_ttl_sec env =
     (case env of
        Some v \<Rightarrow> if v = [] then 5 else (case stoi v of Inr n \<Rightarrow> n | Inl _ \<Rightarrow> 5)
      | None \<Rightarrow> 5)"

definition is_stale :: "int \<Rightarrow> int \<Rightarrow> int \<Rightarrow> bool" where
  "is_stale ttl now loaded_at \<longleftrightarrow> loaded_at = 0 \<or> (now - loaded_at) div 1000 \<ge> ttl"

text \<open>The first file that opens.\<close>

fun open_first :: "files \<Rightarrow> string list \<Rightarrow> string option" where
  "open_first fs [] = None"
| "open_first fs (p # ps) = (case fs p of Some t \<Rightarrow> Some t | None \<Rightarrow> open_first fs ps)"

definition config_paths :: "string \<Rightarrow> string list" where
  "config_paths name = [''config/'' @ name, ''../config/'' @ name, ''build/config/'' @ name]"

text \<open>The integer members; \<open>it.key()\<close> throws on what is not an object, and the cache stays empty.\<close>

definition ports_in :: "(string \<Rightarrow> json res) \<Rightarrow> files \<Rightarrow> (string, int) table" where
  "ports_in parse fs =
     (case open_first fs (config_paths ''ports.json'') of
        None \<Rightarrow> []
      | Some t \<Rightarrow>
          (case parse t of
             Inr (JObject m) \<Rightarrow>
               fold (\<lambda>(k, v) ports. case v of JInt i \<Rightarrow> tput k (to_int32 i) ports | _ \<Rightarrow> ports) m []
           | _ \<Rightarrow> []))"

definition config_in :: "(string \<Rightarrow> json res) \<Rightarrow> files \<Rightarrow> json" where
  "config_in parse fs =
     (case open_first fs (config_paths ''config.json'') of
        None \<Rightarrow> JObject []
      | Some t \<Rightarrow> (case parse t of Inr j \<Rightarrow> j | Inl _ \<Rightarrow> JObject []))"

definition load_ports_impl :: "(string \<Rightarrow> json res) \<Rightarrow> files \<Rightarrow> int \<Rightarrow> config_cache \<Rightarrow> config_cache" where
  "load_ports_impl parse fs now c = c\<lparr>cc_ports := ports_in parse fs, cc_ports_at := now\<rparr>"

definition load_configs_impl :: "(string \<Rightarrow> json res) \<Rightarrow> files \<Rightarrow> int \<Rightarrow> config_cache \<Rightarrow> config_cache" where
  "load_configs_impl parse fs now c = c\<lparr>cc_config := config_in parse fs, cc_config_at := now\<rparr>"

definition refresh_ports :: "(string \<Rightarrow> json res) \<Rightarrow> int \<Rightarrow> files \<Rightarrow> int \<Rightarrow> config_cache \<Rightarrow> config_cache" where
  "refresh_ports parse ttl fs now c = (if is_stale ttl now (cc_ports_at c) then load_ports_impl parse fs now c else c)"

definition refresh_configs :: "(string \<Rightarrow> json res) \<Rightarrow> int \<Rightarrow> files \<Rightarrow> int \<Rightarrow> config_cache \<Rightarrow> config_cache" where
  "refresh_configs parse ttl fs now c = (if is_stale ttl now (cc_config_at c) then load_configs_impl parse fs now c else c)"

definition get_port :: "(string \<Rightarrow> json res) \<Rightarrow> int \<Rightarrow> files \<Rightarrow> int \<Rightarrow> string \<Rightarrow> int \<Rightarrow> config_cache \<Rightarrow> int \<times> config_cache" where
  "get_port parse ttl fs now name fallback c =
     (let c' = refresh_ports parse ttl fs now c
      in (case tget (cc_ports c') name of Some p \<Rightarrow> p | None \<Rightarrow> fallback, c'))"

definition host_in :: "string \<Rightarrow> json \<Rightarrow> string \<Rightarrow> string \<Rightarrow> string" where
  "host_in section config name fallback =
     (case jget config section of
        Some (JObject hosts) \<Rightarrow>
          (case oget hosts name of Some (JString v) \<Rightarrow> if v \<noteq> [] then v else fallback | _ \<Rightarrow> fallback)
      | _ \<Rightarrow> fallback)"

definition get_service_host ::
    "(string \<Rightarrow> json res) \<Rightarrow> int \<Rightarrow> files \<Rightarrow> int \<Rightarrow> string \<Rightarrow> string \<Rightarrow> config_cache \<Rightarrow> string \<times> config_cache" where
  "get_service_host parse ttl fs now name fallback c =
     (let c' = refresh_configs parse ttl fs now c in (host_in ''SERVICE_HOSTS'' (cc_config c') name fallback, c'))"

definition get_bind_host ::
    "(string \<Rightarrow> json res) \<Rightarrow> int \<Rightarrow> files \<Rightarrow> int \<Rightarrow> string \<Rightarrow> string \<Rightarrow> config_cache \<Rightarrow> string \<times> config_cache" where
  "get_bind_host parse ttl fs now name fallback c =
     (let c' = refresh_configs parse ttl fs now c in (host_in ''BIND_HOSTS'' (cc_config c') name fallback, c'))"

definition setting_in :: "(json \<Rightarrow> 'a res) \<Rightarrow> json \<Rightarrow> string \<Rightarrow> 'a \<Rightarrow> 'a" where
  "setting_in conv config key fallback =
     (case jget config key of Some v \<Rightarrow> (case conv v of Inr a \<Rightarrow> a | Inl _ \<Rightarrow> fallback) | None \<Rightarrow> fallback)"

definition get_config ::
    "(json \<Rightarrow> 'a res) \<Rightarrow> (string \<Rightarrow> json res) \<Rightarrow> int \<Rightarrow> files \<Rightarrow> int \<Rightarrow> string \<Rightarrow> 'a \<Rightarrow> config_cache \<Rightarrow> 'a \<times> config_cache" where
  "get_config conv parse ttl fs now key fallback c =
     (let c' = refresh_configs parse ttl fs now c in (setting_in conv (cc_config c') key fallback, c'))"

definition reload_configs :: "(string \<Rightarrow> json res) \<Rightarrow> files \<Rightarrow> int \<Rightarrow> config_cache \<Rightarrow> config_cache" where
  "reload_configs parse fs now c =
     load_ports_impl parse fs now (load_configs_impl parse fs now
       (c\<lparr>cc_ports := [], cc_ports_at := 0, cc_config_at := 0\<rparr>))"

section \<open>The environment\<close>

definition unquote_value :: "string \<Rightarrow> string" where
  "unquote_value v =
     (if length v \<ge> 2 \<and> hd v = CHR 0x22 \<and> last v = CHR 0x22 then butlast (tl v) else v)"

definition dotenv_line :: "string \<Rightarrow> (string, string) table \<Rightarrow> (string, string) table" where
  "dotenv_line line m =
     (let trimmed = trim line in
      if trimmed = [] \<or> hd trimmed = CHR ''#'' then m
      else case str_find trimmed ''='' 0 of
             None \<Rightarrow> m
           | Some eq \<Rightarrow> tput (rtrim (take eq trimmed)) (unquote_value (ltrim (drop (eq + 1) trimmed))) m)"

definition load_dotenv :: "string option \<Rightarrow> (string, string) table" where
  "load_dotenv file = (case file of None \<Rightarrow> [] | Some t \<Rightarrow> fold dotenv_line (split t newline) [])"

definition get_env_value :: "(string \<Rightarrow> string option) \<Rightarrow> string \<Rightarrow> (string, string) table \<Rightarrow> string" where
  "get_env_value env name dot_env =
     (case tget dot_env name of
        Some v \<Rightarrow> if v \<noteq> [] then v else (case env name of Some w \<Rightarrow> w | None \<Rightarrow> [])
      | None \<Rightarrow> (case env name of Some w \<Rightarrow> w | None \<Rightarrow> []))"

section \<open>Freshness\<close>

text \<open>The caches hold what the files held when they were read: \<open>F t\<close> are the files at time \<open>t\<close>.\<close>

definition cache_true :: "(string \<Rightarrow> json res) \<Rightarrow> (int \<Rightarrow> files) \<Rightarrow> int \<Rightarrow> config_cache \<Rightarrow> bool" where
  "cache_true parse F now c \<longleftrightarrow>
     cc_ports_at c \<le> now \<and> cc_config_at c \<le> now \<and>
     (cc_ports_at c \<noteq> 0 \<longrightarrow> cc_ports c = ports_in parse (F (cc_ports_at c))) \<and>
     (cc_config_at c \<noteq> 0 \<longrightarrow> cc_config c = config_in parse (F (cc_config_at c)))"

inductive cache_op :: "(string \<Rightarrow> json res) \<Rightarrow> int \<Rightarrow> files \<Rightarrow> int \<Rightarrow> config_cache \<Rightarrow> config_cache \<Rightarrow> bool" for parse ttl fs now where
  co_port: "cache_op parse ttl fs now c (snd (get_port parse ttl fs now n p c))"
| co_service: "cache_op parse ttl fs now c (snd (get_service_host parse ttl fs now n h c))"
| co_bind: "cache_op parse ttl fs now c (snd (get_bind_host parse ttl fs now n h c))"
| co_config: "cache_op parse ttl fs now c (snd (get_config as_json parse ttl fs now n j c))"
| co_reload: "cache_op parse ttl fs now c (reload_configs parse fs now c)"

lemma cache_true_later: "cache_true parse F t c \<Longrightarrow> t \<le> now \<Longrightarrow> cache_true parse F now c"
  by (auto simp: cache_true_def)

lemma refresh_true:
  "cache_true parse F now c \<Longrightarrow> cache_true parse F now (refresh_ports parse ttl (F now) now c)"
  "cache_true parse F now c \<Longrightarrow> cache_true parse F now (refresh_configs parse ttl (F now) now c)"
  by (auto simp: cache_true_def refresh_ports_def refresh_configs_def load_ports_impl_def load_configs_impl_def)

lemma refresh_recent:
  "cache_true parse F now c \<Longrightarrow> 0 < now \<Longrightarrow> 0 < ttl \<Longrightarrow>
     \<exists>t. t \<le> now \<and> now - t < ttl * 1000 \<and> cc_ports (refresh_ports parse ttl (F now) now c) = ports_in parse (F t)"
  "cache_true parse F now c \<Longrightarrow> 0 < now \<Longrightarrow> 0 < ttl \<Longrightarrow>
     \<exists>t. t \<le> now \<and> now - t < ttl * 1000 \<and> cc_config (refresh_configs parse ttl (F now) now c) = config_in parse (F t)"
proof -
  have recent: "\<not> is_stale ttl now t \<Longrightarrow> t \<noteq> 0 \<and> now - t < ttl * 1000" for t
    by (auto simp: is_stale_def)
  show "cache_true parse F now c \<Longrightarrow> 0 < now \<Longrightarrow> 0 < ttl \<Longrightarrow>
     \<exists>t. t \<le> now \<and> now - t < ttl * 1000 \<and> cc_ports (refresh_ports parse ttl (F now) now c) = ports_in parse (F t)"
    using recent [of "cc_ports_at c"]
    by (cases "is_stale ttl now (cc_ports_at c)") (auto simp: cache_true_def refresh_ports_def load_ports_impl_def)
  show "cache_true parse F now c \<Longrightarrow> 0 < now \<Longrightarrow> 0 < ttl \<Longrightarrow>
     \<exists>t. t \<le> now \<and> now - t < ttl * 1000 \<and> cc_config (refresh_configs parse ttl (F now) now c) = config_in parse (F t)"
    using recent [of "cc_config_at c"]
    by (cases "is_stale ttl now (cc_config_at c)") (auto simp: cache_true_def refresh_configs_def load_configs_impl_def)
qed

lemma cache_op_true:
  "cache_op parse ttl (F now) now c c' \<Longrightarrow> cache_true parse F now c \<Longrightarrow> cache_true parse F now c'"
proof (induction rule: cache_op.induct)
  case (co_reload c)
  then show ?case
    by (auto simp: cache_true_def reload_configs_def load_ports_impl_def load_configs_impl_def)
qed (simp_all add: get_port_def get_service_host_def get_bind_host_def get_config_def Let_def refresh_true)

text \<open>The states reached from the empty caches, the clock moving forward.\<close>

inductive config_run :: "(string \<Rightarrow> json res) \<Rightarrow> int \<Rightarrow> (int \<Rightarrow> files) \<Rightarrow> int \<Rightarrow> config_cache \<Rightarrow> bool" for parse ttl F where
  cr_start: "0 < now \<Longrightarrow> config_run parse ttl F now new_cache"
| cr_wait: "config_run parse ttl F now c \<Longrightarrow> now \<le> now' \<Longrightarrow> config_run parse ttl F now' c"
| cr_op: "config_run parse ttl F now c \<Longrightarrow> cache_op parse ttl (F now) now c c' \<Longrightarrow> config_run parse ttl F now c'"

lemma config_run_true: "config_run parse ttl F now c \<Longrightarrow> 0 < now \<and> cache_true parse F now c"
  by (induction rule: config_run.induct) (auto simp: new_cache_def cache_true_def dest: cache_op_true cache_true_later)

theorem port_is_recent:
  assumes "config_run parse ttl F now c" "0 < ttl"
  shows "\<exists>t. t \<le> now \<and> now - t < ttl * 1000 \<and>
    fst (get_port parse ttl (F now) now name fallback c) =
      (case tget (ports_in parse (F t)) name of Some p \<Rightarrow> p | None \<Rightarrow> fallback)"
  using refresh_recent(1) [of parse F now c ttl] config_run_true [OF assms(1)] assms(2)
  by (auto simp: get_port_def Let_def)

section \<open>Reading a \<^verbatim>\<open>.env\<close> file back\<close>

definition dotenv_entry :: "string \<times> string \<Rightarrow> string" where
  "dotenv_entry kv = fst kv @ ''='' @ [CHR 0x22] @ snd kv @ [CHR 0x22]"

definition dotenv_text :: "(string \<times> string) list \<Rightarrow> string" where
  "dotenv_text kvs = concat (map (\<lambda>kv. dotenv_entry kv @ [newline]) kvs)"

text \<open>Keys without spaces at the ends, an equals sign or a leading hash; values of one line.\<close>

definition dotenv_ok :: "string \<times> string \<Rightarrow> bool" where
  "dotenv_ok kv \<longleftrightarrow> fst kv \<noteq> [] \<and> hd (fst kv) \<noteq> CHR ''#'' \<and> \<not> isspace (hd (fst kv)) \<and> \<not> isspace (last (fst kv)) \<and>
     CHR ''='' \<notin> set (fst kv) \<and> newline \<notin> set (fst kv) \<and> newline \<notin> set (snd kv)"

lemma split_lines: "list_all (\<lambda>l. d \<notin> set l) ls \<Longrightarrow> split (concat (map (\<lambda>l. l @ [d]) ls)) d = ls"
proof -
  assume ok: "list_all (\<lambda>l. d \<notin> set l) ls"
  have "ls \<noteq> [] \<Longrightarrow> list_all (\<lambda>l. d \<notin> set l) ls \<Longrightarrow> split_on d (concat (map (\<lambda>l. l @ [d]) ls)) [] = ls"
  proof (induction ls)
    case (Cons l ls)
    then show ?case by (cases ls) (simp_all add: split_on_no_delim)
  qed simp
  then show ?thesis using ok by (cases ls) (simp_all add: split_def)
qed

lemma rtrim_id: "s \<noteq> [] \<Longrightarrow> \<not> isspace (last s) \<Longrightarrow> rtrim s = s"
  by (cases "length s") (simp_all add: rtrim_def last_conv_nth)

lemma ltrim_id: "s \<noteq> [] \<Longrightarrow> \<not> isspace (hd s) \<Longrightarrow> ltrim s = s"
  by (cases s) simp_all

lemma str_find_char: "c \<notin> set k \<Longrightarrow> str_find (k @ c # r) [c] 0 = Some (length k)"
  by (auto simp: str_find_Some occurs_at_def prefix_def nth_append drop_Cons' in_set_conv_nth split: if_splits)
    (metis Cons_nth_drop_Suc append_Cons list.inject)

lemma dotenv_line_entry:
  assumes "dotenv_ok kv"
  shows "dotenv_line (dotenv_entry kv) m = tput (fst kv) (snd kv) m"
proof -
  obtain k v where kv: "kv = (k, v)" by (cases kv)
  let ?val = "CHR 0x22 # v @ [CHR 0x22]"
  let ?e = "k @ CHR ''='' # ?val"
  have k: "k \<noteq> []" "hd k \<noteq> CHR ''#''" "\<not> isspace (hd k)" "\<not> isspace (last k)" "CHR ''='' \<notin> set k"
    using assms by (simp_all add: dotenv_ok_def kv)
  have quote: "\<not> isspace (CHR 0x22)" by (simp add: isspace_def)
  have trim: "trim ?e = ?e"
    using k quote by (simp add: trim_def ltrim_id rtrim_id)
  have "rtrim k = k" "ltrim ?val = ?val" "unquote_value ?val = v"
    using k quote by (simp_all add: rtrim_id unquote_value_def)
  then show ?thesis
    using k trim by (simp add: dotenv_line_def dotenv_entry_def kv Let_def str_find_char)
qed

theorem dotenv_roundtrip:
  assumes "list_all dotenv_ok kvs"
  shows "tget (load_dotenv (Some (dotenv_text kvs))) k = map_of (rev kvs) k"
proof -
  have "list_all (\<lambda>l. newline \<notin> set l) (map dotenv_entry kvs)"
    using assms by (auto simp: list_all_iff dotenv_ok_def dotenv_entry_def)
  then have lines: "split (dotenv_text kvs) newline = map dotenv_entry kvs"
    using split_lines [of newline "map dotenv_entry kvs"] by (simp add: dotenv_text_def comp_def)
  have "tget (fold dotenv_line (map dotenv_entry kvs) m) k = map_of (rev kvs @ m) k" for m
    using assms
  proof (induction kvs arbitrary: m)
    case (Cons kv kvs)
    then show ?case by (cases kv) (auto simp: dotenv_line_entry map_add_def split: option.splits)
  qed simp
  then show ?thesis by (simp add: load_dotenv_def lines)
qed

text \<open>Witnesses.\<close>

definition demo_parse :: "string \<Rightarrow> json res" where
  "demo_parse t = (if t = ''ports'' then Inr (JObject [(''BUS'', JInt 5174)]) else Inl (Runtime_Error ''parse error''))"

definition demo_files :: "int \<Rightarrow> files" where
  "demo_files t p = (if p = ''../config/ports.json'' then Some ''ports'' else None)"

theorem port_is_recent_witness:
  "config_run demo_parse 5 demo_files 1 new_cache \<and>
   (\<exists>t. t \<le> 1 \<and> 1 - t < 5 * 1000 \<and>
     fst (get_port demo_parse 5 (demo_files 1) 1 ''BUS'' 0 new_cache) =
       (case tget (ports_in demo_parse (demo_files t)) ''BUS'' of Some p \<Rightarrow> p | None \<Rightarrow> 0))"
proof -
  have "config_run demo_parse 5 demo_files 1 new_cache" by (rule cr_start) simp
  then show ?thesis using port_is_recent [of demo_parse 5 demo_files 1 new_cache "''BUS''" 0] by simp
qed

theorem dotenv_roundtrip_witness:
  "list_all dotenv_ok [(''KEY'', '' a = #b '')] \<and>
   tget (load_dotenv (Some (dotenv_text [(''KEY'', '' a = #b '')]))) ''KEY'' = map_of (rev [(''KEY'', '' a = #b '')]) ''KEY''"
proof -
  have "list_all dotenv_ok [(''KEY'', '' a = #b '')]" by (simp add: dotenv_ok_def isspace_def)
  then show ?thesis using dotenv_roundtrip [of "[(''KEY'', '' a = #b '')]" "''KEY''"] by simp
qed

end
