(* ===== verification/Session_IO.thy ===== *)
theory Session_IO
  imports Prompt_Safety
begin

text \<open>
  \<^verbatim>\<open>llm/session_io.cpp\<close>: the store of conversations, a cache over a storage provider (or over its
  own files, without one), and the requests the scheduler runs through it. An operation runs under
  \<open>convo_mutex_\<close> and is one step on the cache and the world; \<open>build_conversation_messages_safely\<close>,
  which takes the lock twice, is a fetch and a commit. The clock, the random number of an id, the text
  files and the skills menu are arguments.
\<close>

section \<open>Conversations\<close>

record convo =
  co_convo_id :: string
  co_user_id :: string
  co_creator_pid :: int
  co_state :: string
  co_created_at_ms :: int
  co_last_activity_ms :: int
  co_turn_count :: int
  co_current_context_tokens :: u64
  co_total_tokens_used :: u64
  co_messages :: "json list"
  co_metadata :: json

definition new_convo :: convo where
  "new_convo =
     \<lparr>co_convo_id = [], co_user_id = [], co_creator_pid = -1, co_state = ''ACTIVE'', co_created_at_ms = 0,
      co_last_activity_ms = 0, co_turn_count = 0, co_current_context_tokens = 0, co_total_tokens_used = 0,
      co_messages = [], co_metadata = JObject []\<rparr>"

fun as_uint64 :: "json \<Rightarrow> u64 res" where
  "as_uint64 (JInt i) = Inr (word_of_int i)"
| "as_uint64 (JFloat r) = Inr (word_of_int (trunc_rat r))"
| "as_uint64 (JBool b) = Inr (if b then 1 else 0)"
| "as_uint64 j = Inl (type_error_302 ''number'' j)"

text \<open>Reading a stored conversation field by field; a field of the wrong type throws.\<close>

definition convo_of_json :: "json \<Rightarrow> convo res" where
  "convo_of_json j =
     rbind (jvalue as_string j ''convo_id'' []) (\<lambda>convo_id.
     rbind (jvalue as_string j ''user_id'' []) (\<lambda>user_id.
     rbind (jvalue as_int j ''creator_pid'' (-1)) (\<lambda>creator_pid.
     rbind (jvalue as_string j ''state'' ''ACTIVE'') (\<lambda>state.
     rbind (jvalue as_long j ''created_at_ms'' 0) (\<lambda>created_at_ms.
     rbind (jvalue as_long j ''last_activity_ms'' 0) (\<lambda>last_activity_ms.
     rbind (jvalue as_int j ''turn_count'' 0) (\<lambda>turn_count.
     rbind (jvalue as_uint64 j ''current_context_tokens'' 0) (\<lambda>current_context_tokens.
     rbind (jvalue as_uint64 j ''total_tokens_used'' 0) (\<lambda>total_tokens_used.
     rbind (jvalue as_json j ''metadata'' (JObject [])) (\<lambda>metadata.
     rbind (jvalue as_json j ''messages'' (JArray [])) (\<lambda>msgs.
       Inr \<lparr>co_convo_id = convo_id, co_user_id = user_id, co_creator_pid = creator_pid, co_state = state,
            co_created_at_ms = created_at_ms, co_last_activity_ms = last_activity_ms,
            co_turn_count = turn_count, co_current_context_tokens = current_context_tokens,
            co_total_tokens_used = total_tokens_used,
            co_messages = (case msgs of JArray ms \<Rightarrow> filter is_object ms | _ \<Rightarrow> []),
            co_metadata = metadata\<rparr>)))))))))))"

definition convo_json :: "convo \<Rightarrow> json" where
  "convo_json c = jobj
     [(''convo_id'', JString (co_convo_id c)), (''user_id'', JString (co_user_id c)),
      (''creator_pid'', JInt (co_creator_pid c)), (''state'', JString (co_state c)),
      (''created_at_ms'', JInt (co_created_at_ms c)), (''last_activity_ms'', JInt (co_last_activity_ms c)),
      (''turn_count'', JInt (co_turn_count c)),
      (''current_context_tokens'', JInt (uint (co_current_context_tokens c))),
      (''total_tokens_used'', JInt (uint (co_total_tokens_used c))),
      (''messages'', JArray (co_messages c)), (''metadata'', co_metadata c)]"

section \<open>Paths\<close>

text \<open>The path helpers make the directory they name; an error of that is swallowed.\<close>

definition make_dirs :: "path \<Rightarrow> fsys \<Rightarrow> fsys" where
  "make_dirs p fs = (case create_directories p fs of Inl _ \<Rightarrow> fs | Inr fs' \<Rightarrow> fs')"

definition io_user_convo_path :: "path \<Rightarrow> string \<Rightarrow> fsys \<Rightarrow> path \<times> fsys" where
  "io_user_convo_path storage_path session_id fs =
     (let session_dir = storage_path @ [''users'', extract_super_user session_id, session_id]
      in (session_dir @ [session_id @ ''.json''], make_dirs session_dir fs))"

definition io_process_convo_path :: "path \<Rightarrow> int \<Rightarrow> string \<Rightarrow> fsys \<Rightarrow> path \<times> fsys" where
  "io_process_convo_path storage_path creator_pid convo_id fs =
     (let session_dir = storage_path @ [''procs'', to_string_int creator_pid, convo_id]
      in (session_dir @ [convo_id @ ''.json''], make_dirs session_dir fs))"

definition convo_path_from_struct :: "path \<Rightarrow> convo \<Rightarrow> fsys \<Rightarrow> path \<times> fsys" where
  "convo_path_from_struct storage_path c fs =
     (if co_creator_pid c \<le> 0 then io_user_convo_path storage_path (co_convo_id c) fs
      else io_process_convo_path storage_path (co_creator_pid c) (co_convo_id c) fs)"

text \<open>Here \<open>std::stoi\<close> is not guarded.\<close>

definition io_infer_convo_path :: "path \<Rightarrow> string \<Rightarrow> fsys \<Rightarrow> path res \<times> fsys" where
  "io_infer_convo_path storage_path convo_id fs =
     (if is_session_id convo_id
      then (case io_user_convo_path storage_path convo_id fs of (p, fs') \<Rightarrow> (Inr p, fs'))
      else if length convo_id > 5 \<and> take 5 convo_id = ''proc_''
      then (let rest = drop 5 convo_id
            in case str_find rest ''_'' 0 of
                 None \<Rightarrow> (Inr [], fs)
               | Some sep \<Rightarrow>
                   (case stoi (take sep rest) of
                      Inl e \<Rightarrow> (Inl e, fs)
                    | Inr pid \<Rightarrow>
                        (case io_process_convo_path storage_path pid convo_id fs of (p, fs') \<Rightarrow> (Inr p, fs'))))
      else (Inr [], fs))"

definition generate_user_convo_id :: "string \<Rightarrow> string" where
  "generate_user_convo_id user_id =
     (if user_id = [] then [] else if is_session_id user_id then user_id else [])"

section \<open>The store\<close>

record 'd session_io =
  sio_storage_path :: path
  sio_storage :: "'d istorage option"

record 'd sio =
  convo_cache :: "(string, convo) table"
  sio_world :: "'d world"

abbreviation cache_put :: "string \<Rightarrow> convo \<Rightarrow> 'd sio \<Rightarrow> 'd sio" where
  "cache_put k c st \<equiv> st\<lparr>convo_cache := tput k c (convo_cache st)\<rparr>"

definition load_convo_from_path :: "path \<Rightarrow> fsys \<Rightarrow> convo" where
  "load_convo_from_path p fs =
     (if p = [] \<or> \<not> fs_exists fs p then new_convo
      else case tget (fs_files fs) p of
             Some (Some j) \<Rightarrow> (case convo_of_json j of Inl _ \<Rightarrow> new_convo | Inr c \<Rightarrow> c)
           | _ \<Rightarrow> new_convo)"

definition load_conversation_from_disk_unlocked ::
    "'d session_io \<Rightarrow> string \<Rightarrow> 'd world \<Rightarrow> convo res \<times> 'd world" where
  "load_conversation_from_disk_unlocked M convo_id w =
     (case sio_storage M of
        None \<Rightarrow>
          (case io_infer_convo_path (sio_storage_path M) convo_id (fst w) of
             (Inl e, fs) \<Rightarrow> (Inl e, (fs, snd w))
           | (Inr p, fs) \<Rightarrow> (Inr (load_convo_from_path p fs), (fs, snd w)))
      | Some S \<Rightarrow>
          ((case sp_get_conversation S convo_id w of
              None \<Rightarrow> Inr new_convo
            | Some j \<Rightarrow> if is_object j then convo_of_json j else Inr new_convo), w))"

definition persist_conversation :: "'d session_io \<Rightarrow> convo \<Rightarrow> 'd world \<Rightarrow> bool \<times> 'd world" where
  "persist_conversation M c w =
     (case sio_storage M of
        Some S \<Rightarrow> sp_upsert_conversation S (convo_json c) w
      | None \<Rightarrow>
          (case convo_path_from_struct (sio_storage_path M) c (fst w) of (p, fs) \<Rightarrow>
             (case create_directories (butlast p) fs of
                Inl _ \<Rightarrow> (False, (fs, snd w))
              | Inr fs' \<Rightarrow> (case write_file p (convo_json c) fs' of (b, fs'') \<Rightarrow> (b, (fs'', snd w))))))"

text \<open>The conversation an operation works on: the cached one, or the stored one.\<close>

definition fetch :: "'d session_io \<Rightarrow> string \<Rightarrow> 'd sio \<Rightarrow> convo res \<times> 'd sio" where
  "fetch M convo_id st =
     (case tget (convo_cache st) convo_id of
        Some c \<Rightarrow> (Inr c, st)
      | None \<Rightarrow>
          (case load_conversation_from_disk_unlocked M convo_id (sio_world st) of
             (r, w) \<Rightarrow> (r, st\<lparr>sio_world := w\<rparr>)))"

text \<open>The end of every successful update: persist, then cache.\<close>

definition store :: "'d session_io \<Rightarrow> string \<Rightarrow> convo \<Rightarrow> 'd sio \<Rightarrow> bool \<times> 'd sio" where
  "store M convo_id c st =
     (case persist_conversation M c (sio_world st) of
        (True, w) \<Rightarrow> (True, cache_put convo_id c (st\<lparr>sio_world := w\<rparr>))
      | (False, w) \<Rightarrow> (False, st\<lparr>sio_world := w\<rparr>))"

text \<open>The creation paths cache the conversation whether or not it could be persisted.\<close>

definition store_anyway :: "'d session_io \<Rightarrow> string \<Rightarrow> convo \<Rightarrow> 'd sio \<Rightarrow> 'd sio" where
  "store_anyway M convo_id c st =
     (case persist_conversation M c (sio_world st) of (_, w) \<Rightarrow> cache_put convo_id c (st\<lparr>sio_world := w\<rparr>))"

definition fresh_user_convo :: "int \<Rightarrow> string \<Rightarrow> convo" where
  "fresh_user_convo now_ms session_id =
     new_convo\<lparr>co_convo_id := session_id, co_user_id := extract_super_user session_id,
               co_created_at_ms := now_ms, co_last_activity_ms := now_ms\<rparr>"

definition fresh_process_convo :: "int \<Rightarrow> int \<Rightarrow> nat \<Rightarrow> convo" where
  "fresh_process_convo now_ms creator_pid r =
     new_convo\<lparr>co_convo_id := process_convo_id (nat creator_pid) r, co_creator_pid := creator_pid,
               co_created_at_ms := now_ms, co_last_activity_ms := now_ms\<rparr>"

definition get_or_create_user_convo_unlocked ::
    "'d session_io \<Rightarrow> int \<Rightarrow> string \<Rightarrow> 'd sio \<Rightarrow> convo res \<times> 'd sio" where
  "get_or_create_user_convo_unlocked M now_ms user_id st =
     (let session_id = generate_user_convo_id user_id
      in if session_id = []
         then (Inl (Runtime_Error (''user_conversation requires user_id in session format '' @ [CHR 0x27] @ ''{super_user}_s{N}'' @ [CHR 0x27])), st)
         else case io_user_convo_path (sio_storage_path M) session_id (fst (sio_world st)) of (p, fs) \<Rightarrow>
           (let st1 = st\<lparr>sio_world := (fs, snd (sio_world st))\<rparr>;
                on_file = (if fs_exists fs p then load_convo_from_path p fs else new_convo);
                create = (let c = fresh_user_convo now_ms session_id
                          in (Inr c, store_anyway M session_id c st1))
            in case tget (convo_cache st1) session_id of
                 Some c \<Rightarrow> (Inr c, st1)
               | None \<Rightarrow>
                   if co_convo_id on_file \<noteq> [] then (Inr on_file, cache_put session_id on_file st1)
                   else if sio_storage M = None then create
                   else case load_conversation_from_disk_unlocked M session_id (sio_world st1) of
                          (Inl e, w) \<Rightarrow> (Inl e, st1\<lparr>sio_world := w\<rparr>)
                        | (Inr c, w) \<Rightarrow>
                            if co_convo_id c \<noteq> [] then (Inr c, cache_put session_id c (st1\<lparr>sio_world := w\<rparr>))
                            else create))"

definition get_or_create_user_convo ::
    "'d session_io \<Rightarrow> int \<Rightarrow> string \<Rightarrow> 'd sio \<Rightarrow> convo res \<times> 'd sio" where
  "get_or_create_user_convo M now_ms user_id st =
     (if user_id = [] then (Inl (Runtime_Error ''user_id must not be empty for user conversations''), st)
      else get_or_create_user_convo_unlocked M now_ms user_id st)"

definition create_process_convo ::
    "'d session_io \<Rightarrow> int \<Rightarrow> nat \<Rightarrow> int \<Rightarrow> 'd sio \<Rightarrow> convo res \<times> 'd sio" where
  "create_process_convo M now_ms r creator_pid st =
     (if creator_pid \<le> 0
      then (Inl (Runtime_Error ''creator_pid must be positive for process conversations''), st)
      else let c = fresh_process_convo now_ms creator_pid r
           in (Inr c, store_anyway M (co_convo_id c) c st))"

definition io_get_conversation :: "'d session_io \<Rightarrow> string \<Rightarrow> 'd sio \<Rightarrow> convo res \<times> 'd sio" where
  "io_get_conversation M convo_id st =
     (case tget (convo_cache st) convo_id of
        Some c \<Rightarrow> (Inr c, st)
      | None \<Rightarrow>
          (case fetch M convo_id st of
             (Inr c, st') \<Rightarrow> (Inr c, if co_convo_id c = [] then st' else cache_put convo_id c st')
           | (Inl e, st') \<Rightarrow> (Inl e, st')))"

definition invalidate_conversation_cache :: "string \<Rightarrow> 'd sio \<Rightarrow> 'd sio" where
  "invalidate_conversation_cache convo_id st =
     (if convo_id = [] then st else st\<lparr>convo_cache := tdel convo_id (convo_cache st)\<rparr>)"

section \<open>Messages\<close>

definition tool_calls_of :: "json \<Rightarrow> json option" where
  "tool_calls_of j =
     (case jget j ''tool_calls'' of
        Some (JArray ms) \<Rightarrow> if ms = [] then None else Some (JArray ms)
      | _ \<Rightarrow> None)"

definition tool_call_id_of :: "json \<Rightarrow> json option" where
  "tool_call_id_of j =
     (case jget j ''tool_call_id'' of
        Some (JString s) \<Rightarrow> if s = [] then None else Some (JString s)
      | _ \<Rightarrow> None)"

abbreviation opt_field :: "string \<Rightarrow> json option \<Rightarrow> (string \<times> json) list" where
  "opt_field k v \<equiv> (case v of None \<Rightarrow> [] | Some x \<Rightarrow> [(k, x)])"

definition convo_message :: "int \<Rightarrow> string \<Rightarrow> string \<Rightarrow> json \<Rightarrow> json" where
  "convo_message now_ms role content extra_fields = jobj
     ([(''role'', JString (canonicalize_role role)), (''content'', JString content)]
      @ opt_field ''tool_call_id'' (tool_call_id_of extra_fields)
      @ opt_field ''tool_calls'' (tool_calls_of extra_fields)
      @ [(''timestamp_ms'', JInt now_ms)])"

text \<open>\<open>None\<close> is the result \<open>false\<close>, with the conversation left as it was. The turn count is an \<open>int\<close>: its
  increment is written at 32 bits.\<close>

definition append_message_unlocked ::
    "int \<Rightarrow> convo \<Rightarrow> string \<Rightarrow> string \<Rightarrow> u64 \<Rightarrow> json \<Rightarrow> convo option" where
  "append_message_unlocked now_ms c role content tokens_used extra_fields =
     (if \<not> is_valid_role (canonicalize_role role) \<or> content = [] \<and> tool_calls_of extra_fields = None then None
      else let token_delta = (if tokens_used > 0 then tokens_used else estimate_text_tokens content)
           in Some (c\<lparr>co_messages := co_messages c @ [convo_message now_ms role content extra_fields],
                      co_turn_count := to_int32 (co_turn_count c + 1),
                      co_current_context_tokens := co_current_context_tokens c + token_delta,
                      co_total_tokens_used := co_total_tokens_used c + token_delta,
                      co_last_activity_ms := now_ms\<rparr>))"

definition append_message ::
    "'d session_io \<Rightarrow> int \<Rightarrow> string \<Rightarrow> string \<Rightarrow> string \<Rightarrow> u64 \<Rightarrow> json \<Rightarrow> 'd sio \<Rightarrow> bool res \<times> 'd sio" where
  "append_message M now_ms convo_id role content tokens_used extra_fields st =
     (case fetch M convo_id st of
        (Inl e, st') \<Rightarrow> (Inl e, st')
      | (Inr c, st') \<Rightarrow>
          if co_convo_id c = [] then (Inr False, st')
          else case append_message_unlocked now_ms c role content tokens_used extra_fields of
                 None \<Rightarrow> (Inr False, st')
               | Some c' \<Rightarrow> (case store M convo_id c' st' of (b, st'') \<Rightarrow> (Inr b, st'')))"

definition persist_assistant_response ::
    "'d session_io \<Rightarrow> int \<Rightarrow> json \<Rightarrow> string \<Rightarrow> u64 \<Rightarrow> 'd sio \<Rightarrow> bool res \<times> 'd sio" where
  "persist_assistant_response M now_ms request assistant_text tokens_used st =
     (if assistant_text = [] then (Inr True, st)
      else case jvalue as_string request ''mode'' ''simple'' of
             Inl e \<Rightarrow> (Inl e, st)
           | Inr mode \<Rightarrow>
               if mode \<noteq> ''conversation'' \<and> mode \<noteq> ''user_conversation'' then (Inr True, st)
               else case jvalue as_string request ''convo_id'' [] of
                      Inl e \<Rightarrow> (Inl e, st)
                    | Inr convo_id \<Rightarrow>
                        if convo_id = [] then (Inr False, st)
                        else append_message M now_ms convo_id ''assistant'' assistant_text tokens_used (JObject []) st)"

definition persist_assistant_tool_call ::
    "'d session_io \<Rightarrow> int \<Rightarrow> json \<Rightarrow> string \<Rightarrow> json \<Rightarrow> u64 \<Rightarrow> 'd sio \<Rightarrow> bool res \<times> 'd sio" where
  "persist_assistant_tool_call M now_ms request assistant_text tool_calls tokens_used st =
     (case jvalue as_string request ''mode'' ''simple'' of
        Inl e \<Rightarrow> (Inl e, st)
      | Inr mode \<Rightarrow>
          if mode \<noteq> ''conversation'' \<and> mode \<noteq> ''user_conversation'' then (Inr True, st)
          else if \<not> is_array tool_calls \<or> tool_calls = JArray [] then (Inr True, st)
          else case jvalue as_string request ''convo_id'' [] of
                 Inl e \<Rightarrow> (Inl e, st)
               | Inr convo_id \<Rightarrow>
                   if convo_id = [] then (Inr False, st)
                   else append_message M now_ms convo_id ''assistant'' assistant_text tokens_used
                          (jobj [(''tool_calls'', tool_calls)]) st)"

section \<open>Closing and deleting\<close>

definition io_delete_conversation ::
    "'d session_io \<Rightarrow> string \<Rightarrow> int \<Rightarrow> 'd sio \<Rightarrow> bool \<times> 'd sio" where
  "io_delete_conversation M convo_id creator_pid st =
     (let w = sio_world st;
          (ok, w') = (case sio_storage M of
             Some S \<Rightarrow> sp_delete_conversation S convo_id creator_pid w
           | None \<Rightarrow>
               (case (if creator_pid > 0
                      then case io_process_convo_path (sio_storage_path M) creator_pid convo_id (fst w) of
                             (p, fs) \<Rightarrow> (Inr p, fs)
                      else io_infer_convo_path (sio_storage_path M) convo_id (fst w)) of
                  (Inl e, fs) \<Rightarrow> (False, (fs, snd w))
                | (Inr p, fs) \<Rightarrow>
                    if p \<noteq> [] \<and> fs_exists fs p
                    then (case fs_remove p fs of Inl _ \<Rightarrow> (False, (fs, snd w)) | Inr fs' \<Rightarrow> (True, (fs', snd w)))
                    else (True, (fs, snd w))))
      in (ok, if ok then st\<lparr>convo_cache := tdel convo_id (convo_cache st), sio_world := w'\<rparr>
              else st\<lparr>sio_world := w'\<rparr>))"

definition evict_pid :: "int \<Rightarrow> 'd sio \<Rightarrow> 'd sio" where
  "evict_pid creator_pid st =
     st\<lparr>convo_cache := filter (\<lambda>(k, c). co_creator_pid c \<noteq> creator_pid) (convo_cache st)\<rparr>"

definition io_delete_all_proc_convos :: "'d session_io \<Rightarrow> int \<Rightarrow> 'd world \<Rightarrow> 'd world" where
  "io_delete_all_proc_convos M creator_pid w =
     (case sio_storage M of
        Some S \<Rightarrow> sp_delete_all_proc_convos S creator_pid w
      | None \<Rightarrow>
          (let pid_dir = sio_storage_path M @ [''procs'', to_string_int creator_pid]
           in if fs_exists (fst w) pid_dir then (remove_all pid_dir (fst w), snd w) else w))"

text \<open>The cache is swept under the lock, the store after it.\<close>

definition delete_process_convos_for_pid :: "'d session_io \<Rightarrow> int \<Rightarrow> 'd sio \<Rightarrow> 'd sio" where
  "delete_process_convos_for_pid M creator_pid st =
     (let st' = evict_pid creator_pid st
      in st'\<lparr>sio_world := io_delete_all_proc_convos M creator_pid (sio_world st')\<rparr>)"

definition get_process_convos_for_pid :: "'d session_io \<Rightarrow> int \<Rightarrow> 'd sio \<Rightarrow> string list" where
  "get_process_convos_for_pid M creator_pid st =
     (let w = sio_world st
      in case sio_storage M of
           Some S \<Rightarrow> sp_list_proc_convo_ids S creator_pid w
         | None \<Rightarrow>
             (let pid_dir = sio_storage_path M @ [''procs'', to_string_int creator_pid]
              in if fs_exists (fst w) pid_dir then subdirs (fst w) pid_dir else []))"

definition close_conversation :: "'d session_io \<Rightarrow> string \<Rightarrow> 'd sio \<Rightarrow> bool res \<times> 'd sio" where
  "close_conversation M convo_id st =
     (case tget (convo_cache st) convo_id of
        Some c \<Rightarrow>
          (let c' = c\<lparr>co_state := ''CLOSED''\<rparr>
           in (Inr True, st\<lparr>convo_cache := tput convo_id c' (convo_cache st),
                            sio_world := snd (persist_conversation M c' (sio_world st))\<rparr>))
      | None \<Rightarrow>
          (case load_conversation_from_disk_unlocked M convo_id (sio_world st) of
             (Inl e, w) \<Rightarrow> (Inl e, st\<lparr>sio_world := w\<rparr>)
           | (Inr c, w) \<Rightarrow>
               if co_convo_id c \<noteq> []
               then (Inr True, st\<lparr>sio_world := snd (persist_conversation M (c\<lparr>co_state := ''CLOSED''\<rparr>) w)\<rparr>)
               else (Inr False, st\<lparr>sio_world := w\<rparr>)))"

definition find_convo_for_user :: "'d session_io \<Rightarrow> string \<Rightarrow> 'd sio \<Rightarrow> string \<times> 'd sio" where
  "find_convo_for_user M user_id st =
     (if user_id = [] then ([], st)
      else let convo_id = generate_user_convo_id user_id
           in case io_user_convo_path (sio_storage_path M) convo_id (fst (sio_world st)) of (p, fs) \<Rightarrow>
                (if fs_exists fs p then convo_id else [], st\<lparr>sio_world := (fs, snd (sio_world st))\<rparr>))"

section \<open>Building the messages of a request\<close>

type_synonym pending_input = "string \<times> string \<times> json"

definition build_simple_mode_messages :: "text_files \<Rightarrow> json res \<Rightarrow> string \<Rightarrow> string \<Rightarrow> json" where
  "build_simple_mode_messages rd menu user_message caller_system_msg =
     JArray
       [jobj [(''role'', JString ''system''),
              (''content'', JString (build_layered_system_prompt rd menu ''simple'' caller_system_msg []))],
        jobj [(''role'', JString ''user''), (''content'', JString user_message)]]"

definition explicit_system_prompt :: "json \<Rightarrow> string" where
  "explicit_system_prompt request =
     (case jget request ''system_prompt'' of
        Some (JString s) \<Rightarrow> s
      | _ \<Rightarrow> (case jget request ''system_message'' of Some (JString s) \<Rightarrow> s | _ \<Rightarrow> []))"

definition system_prompt_override :: "json \<Rightarrow> bool res" where
  "system_prompt_override request =
     rbind (jvalue as_json request ''metadata'' (JObject [])) (\<lambda>metadata.
     rbind (jvalue as_bool request ''system_prompt_override'' False) (\<lambda>b1.
       if b1 then Inr True
       else rbind (jvalue as_bool request ''replace_system_prompt'' False) (\<lambda>b2.
         if b2 then Inr True else jvalue as_bool metadata ''system_prompt_override'' False)))"

text \<open>The input of a tool: skipped when it has no text, with its call id when that is a string.\<close>

definition call_id_field :: "json \<Rightarrow> json" where
  "call_id_field j = jobj (case jget j ''tool_call_id'' of Some (JString s) \<Rightarrow> [(''tool_call_id'', JString s)] | _ \<Rightarrow> [])"

definition tool_input :: "json \<Rightarrow> pending_input list res" where
  "tool_input tool_msg =
     rbind (jvalue as_string tool_msg ''content'' []) (\<lambda>txt.
       Inr (if txt = [] then [] else [(''tool'', txt, call_id_field tool_msg)]))"

fun tool_inputs :: "json list \<Rightarrow> pending_input list res" where
  "tool_inputs [] = Inr []"
| "tool_inputs (m # ms) =
     rbind (if is_object m then tool_input m else Inr []) (\<lambda>xs.
     rbind (tool_inputs ms) (\<lambda>ys. Inr (xs @ ys)))"

definition pending_inputs :: "json \<Rightarrow> pending_input list res" where
  "pending_inputs request =
     rbind (if jcontains request ''user_message''
            then rbind (jvalue as_string request ''user_message'' []) (\<lambda>txt.
                   Inr (if txt = [] then [] else [(''user'', txt, JObject [])]))
            else Inr []) (\<lambda>user.
     rbind (case jget request ''tool_message'' of
              Some (JObject m) \<Rightarrow> tool_input (JObject m) | _ \<Rightarrow> Inr []) (\<lambda>tool_msg.
     rbind (case jget request ''tool_messages'' of
              Some (JArray ms) \<Rightarrow> tool_inputs ms | _ \<Rightarrow> Inr []) (\<lambda>tool_msgs.
     rbind (if jcontains request ''tool_result''
            then rbind (jvalue as_string request ''tool_result'' []) (\<lambda>txt.
                   Inr (if txt = [] then [] else [(''tool'', txt, call_id_field request)]))
            else Inr []) (\<lambda>result.
       Inr (user @ tool_msg @ tool_msgs @ result)))))"

fun append_inputs :: "int \<Rightarrow> pending_input list \<Rightarrow> convo \<Rightarrow> convo option" where
  "append_inputs now_ms [] c = Some c"
| "append_inputs now_ms ((role, content, extra) # ins) c =
     (case append_message_unlocked now_ms c role content 0 extra of
        None \<Rightarrow> None
      | Some c' \<Rightarrow> append_inputs now_ms ins c')"

text \<open>\<open>std::remove_if\<close> with \<open>msg.value("role", "") == "system"\<close>, which throws on a role that is not text.\<close>

fun is_system :: "json \<Rightarrow> bool res" where
  "is_system msg =
     (if is_object msg then rbind (jvalue as_string msg ''role'' []) (\<lambda>r. Inr (r = ''system'')) else Inr False)"

fun without_system :: "json list \<Rightarrow> json list res" where
  "without_system [] = Inr []"
| "without_system (m # ms) =
     rbind (is_system m) (\<lambda>b. rbind (without_system ms) (\<lambda>ms'. Inr (if b then ms' else m # ms')))"

fun has_system :: "json list \<Rightarrow> bool res" where
  "has_system [] = Inr False"
| "has_system (m # ms) = rbind (is_system m) (\<lambda>b. if b then Inr True else has_system ms)"

definition with_system :: "int \<Rightarrow> string \<Rightarrow> bool \<Rightarrow> convo \<Rightarrow> convo res" where
  "with_system now_ms explicit override c =
     (if explicit = [] then Inr c
      else if override
      then rbind (without_system (co_messages c)) (\<lambda>ms.
             case append_message_unlocked now_ms (c\<lparr>co_messages := ms\<rparr>) ''system'' explicit 0 (JObject []) of
               None \<Rightarrow> Inl (Runtime_Error ''failed to set overriding system prompt'')
             | Some c' \<Rightarrow> Inr c')
      else if co_messages c = []
      then (case append_message_unlocked now_ms c ''system'' explicit 0 (JObject []) of
              None \<Rightarrow> Inl (Runtime_Error ''failed to append initial system prompt'')
            | Some c' \<Rightarrow> Inr c')
      else Inr c)"

definition update_convo :: "int \<Rightarrow> string \<Rightarrow> bool \<Rightarrow> pending_input list \<Rightarrow> convo \<Rightarrow> convo res" where
  "update_convo now_ms explicit override ins c =
     rbind (with_system now_ms explicit override c) (\<lambda>c1.
       case append_inputs now_ms ins c1 of
         None \<Rightarrow> Inl (Runtime_Error ''failed to append conversation input message'')
       | Some c2 \<Rightarrow> Inr c2)"

fun render_messages :: "json list \<Rightarrow> json list res" where
  "render_messages [] = Inr []"
| "render_messages (msg # msgs) =
     rbind (jvalue as_string msg ''role'' []) (\<lambda>role0.
     rbind (jvalue as_string msg ''content'' []) (\<lambda>content.
       let role = canonicalize_role role0
       in rbind (render_messages msgs) (\<lambda>out.
            Inr (if \<not> is_valid_role role \<or> content = [] \<and> tool_calls_of msg = None then out
                 else jobj ([(''role'', JString role), (''content'', JString content)]
                       @ (if role = ''assistant'' then opt_field ''tool_calls'' (tool_calls_of msg) else [])
                       @ (if role = ''tool'' then opt_field ''tool_call_id'' (tool_call_id_of msg) else [])) # out))))"

definition render_request :: "text_files \<Rightarrow> json res \<Rightarrow> string \<Rightarrow> string \<Rightarrow> convo \<Rightarrow> json list res" where
  "render_request rd menu mode explicit c =
     rbind (has_system (co_messages c)) (\<lambda>present.
     rbind (render_messages (co_messages c)) (\<lambda>out.
       Inr (if present then out
            else jobj [(''role'', JString ''system''),
                       (''content'', JString (build_layered_system_prompt rd menu mode explicit (co_user_id c)))]
                 # out)))"

text \<open>What the function reads of the request before it takes the lock.\<close>

record build_job =
  bj_convo_id :: string
  bj_mode :: string
  bj_explicit :: string
  bj_override :: bool
  bj_inputs :: "pending_input list"

definition build_job_of :: "json \<Rightarrow> build_job res" where
  "build_job_of request =
     rbind (jvalue as_string request ''convo_id'' []) (\<lambda>convo_id.
       if convo_id = [] then Inl (Runtime_Error ''convo_id missing when building messages'')
       else rbind (jvalue as_string request ''mode'' ''user_conversation'') (\<lambda>mode.
            rbind (system_prompt_override request) (\<lambda>override.
            rbind (pending_inputs request) (\<lambda>ins.
              if ins = [] then Inl (Runtime_Error ''conversation mode request missing input text'')
              else Inr \<lparr>bj_convo_id = convo_id, bj_mode = mode, bj_explicit = explicit_system_prompt request,
                        bj_override = override, bj_inputs = ins\<rparr>))))"

text \<open>The two sections under the lock: the copy taken in the first is written back by the second.\<close>

definition build_fetch :: "'d session_io \<Rightarrow> build_job \<Rightarrow> 'd sio \<Rightarrow> convo res \<times> 'd sio" where
  "build_fetch M job st =
     (case fetch M (bj_convo_id job) st of
        (Inl e, st') \<Rightarrow> (Inl e, st')
      | (Inr c, st') \<Rightarrow>
          if co_convo_id c = [] then (Inl (Runtime_Error ''conversation not found during build_messages''), st')
          else (Inr c, st'))"

definition build_commit :: "'d session_io \<Rightarrow> int \<Rightarrow> build_job \<Rightarrow> convo \<Rightarrow> 'd sio \<Rightarrow> convo res \<times> 'd sio" where
  "build_commit M now_ms job c st =
     (case update_convo now_ms (bj_explicit job) (bj_override job) (bj_inputs job) c of
        Inl e \<Rightarrow> (Inl e, st)
      | Inr c' \<Rightarrow> (Inr c', store_anyway M (bj_convo_id job) c' st))"

definition build_conversation_messages_safely ::
    "'d session_io \<Rightarrow> text_files \<Rightarrow> json res \<Rightarrow> int \<Rightarrow> json \<Rightarrow> 'd sio \<Rightarrow> json res \<times> 'd sio" where
  "build_conversation_messages_safely M rd menu now_ms request st =
     (case build_job_of request of
        Inl e \<Rightarrow> (Inl e, st)
      | Inr job \<Rightarrow>
          (case build_fetch M job st of
             (Inl e, st1) \<Rightarrow> (Inl e, st1)
           | (Inr c, st1) \<Rightarrow>
               (case build_commit M now_ms job c st1 of
                  (Inl e, st2) \<Rightarrow> (Inl e, st2)
                | (Inr c', st2) \<Rightarrow>
                    (rbind (render_request rd menu (bj_mode job) (bj_explicit job) c') (\<lambda>ms. Inr (JArray ms)), st2))))"

section \<open>Normalising a request\<close>

text \<open>\<open>config/model.json\<close> at the first of its three places that can be opened.\<close>

definition load_sampling_params :: "config_file \<Rightarrow> json" where
  "load_sampling_params f =
     (let defaults = jobj [(''temp'', JFloat (7 / 10)), (''top_p'', JFloat (9 / 10)), (''max_tokens'', JInt 512)]
      in case f of
           Parsed cfg \<Rightarrow>
             (case jget cfg ''default_sampling_params'' of Some (JObject m) \<Rightarrow> JObject m | _ \<Rightarrow> defaults)
         | _ \<Rightarrow> defaults)"

definition has_input :: "json \<Rightarrow> bool" where
  "has_input request \<longleftrightarrow>
     (case jget request ''messages'' of Some (JArray _) \<Rightarrow> True | _ \<Rightarrow> False)
     \<or> jcontains request ''tool_result'' \<or> jcontains request ''tool_message''
     \<or> jcontains request ''tool_messages'' \<or> jcontains request ''user_message''
     \<or> jcontains request ''system_message''"

definition needs_input :: "string \<Rightarrow> exn" where
  "needs_input mode = Runtime_Error
     (mode @ '' mode requires messages[], user_message, system_message, tool_message(s), or tool_result'')"

text \<open>The conversation of a process: a new one without an id, otherwise its own.\<close>

definition resolve_process_convo ::
    "'d session_io \<Rightarrow> int \<Rightarrow> nat \<Rightarrow> int \<Rightarrow> string \<Rightarrow> 'd sio \<Rightarrow> convo res \<times> 'd sio" where
  "resolve_process_convo M now_ms r source_pid convo_id st =
     (if convo_id = []
      then (let c = fresh_process_convo now_ms source_pid r
            in (Inr c, st\<lparr>sio_world := snd (persist_conversation M c (sio_world st))\<rparr>))
      else case io_get_conversation M convo_id st of
             (Inl e, st') \<Rightarrow> (Inl e, st')
           | (Inr c, st') \<Rightarrow>
               if co_convo_id c = []
               then (Inl (Runtime_Error ''conversation not found for provided convo_id''), st')
               else if co_creator_pid c \<noteq> source_pid
               then (Inl (Runtime_Error ''process conversation is owned by a different source_pid''), st')
               else (Inr c, st'))"

abbreviation set_fields :: "(string \<times> json) list \<Rightarrow> json \<Rightarrow> json" where
  "set_fields kvs j \<equiv>
     (case j of JObject m \<Rightarrow> JObject (fold (\<lambda>(k, v). oput k v) kvs m) | _ \<Rightarrow> j)"

definition with_defaults :: "config_file \<Rightarrow> json \<Rightarrow> json" where
  "with_defaults model_cfg request =
     set_fields ((if jcontains request ''priority'' then [] else [(''priority'', JInt 1)])
       @ (case jget request ''sampling_params'' of
            Some (JObject _) \<Rightarrow> [] | _ \<Rightarrow> [(''sampling_params'', load_sampling_params model_cfg)])) request"

definition conversation_args :: "json \<Rightarrow> (int \<times> string) res" where
  "conversation_args request =
     rbind (jvalue as_int request ''source_pid'' (-1)) (\<lambda>source_pid.
     rbind (jvalue as_string request ''convo_id'' []) (\<lambda>convo_id.
     rbind (jvalue as_string request ''user_id'' []) (\<lambda>user_id.
       if user_id \<noteq> [] then Inl (Runtime_Error ''conversation mode requires empty user_id'')
       else if source_pid \<le> 0 then Inl (Runtime_Error ''conversation mode requires positive source_pid'')
       else Inr (source_pid, convo_id))))"

definition normalize_conversation ::
    "'d session_io \<Rightarrow> int \<Rightarrow> nat \<Rightarrow> json \<Rightarrow> 'd sio \<Rightarrow> (string \<times> json) list res \<times> 'd sio" where
  "normalize_conversation M now_ms r request st =
     (case conversation_args request of
        Inl e \<Rightarrow> (Inl e, st)
      | Inr (source_pid, convo_id) \<Rightarrow>
          (case resolve_process_convo M now_ms r source_pid convo_id st of
             (Inl e, st') \<Rightarrow> (Inl e, st')
           | (Inr c, st') \<Rightarrow>
               if \<not> has_input request then (Inl (needs_input ''conversation''), st')
               else (Inr [(''convo_id'', JString (co_convo_id c)), (''user_id'', JString [])],
                     cache_put (co_convo_id c) c st')))"

definition user_conversation_args :: "json \<Rightarrow> (string \<times> string) res" where
  "user_conversation_args request =
     rbind (jvalue as_int request ''source_pid'' (-1)) (\<lambda>source_pid.
     rbind (jvalue as_bool request ''is_handler'' False) (\<lambda>is_handler.
     rbind (jvalue as_string request ''convo_id'' []) (\<lambda>convo_id.
     rbind (jvalue as_string request ''user_id'' []) (\<lambda>user_id.
       if source_pid \<le> 0
       then Inl (Runtime_Error ''user_conversation mode requires positive source_pid'')
       else if \<not> is_handler
       then Inl (Runtime_Error ''user_conversation mode is allowed only for handler process'')
       else if user_id = []
       then Inl (Runtime_Error ''user_conversation mode requires non-empty user_id'')
       else if generate_user_convo_id user_id = []
       then Inl (Runtime_Error ''failed to resolve a valid session_id for user_conversation'')
       else Inr (convo_id, generate_user_convo_id user_id)))))"

definition normalize_user_conversation ::
    "'d session_io \<Rightarrow> int \<Rightarrow> json \<Rightarrow> 'd sio \<Rightarrow> (string \<times> json) list res \<times> 'd sio" where
  "normalize_user_conversation M now_ms request st =
     (case user_conversation_args request of
        Inl e \<Rightarrow> (Inl e, st)
      | Inr (convo_id, session_id) \<Rightarrow>
          (case get_or_create_user_convo_unlocked M now_ms session_id st of
             (Inl e, st') \<Rightarrow> (Inl e, st')
           | (Inr c, st') \<Rightarrow>
               if \<not> has_input request then (Inl (needs_input ''user_conversation''), st')
               else if convo_id \<noteq> [] \<and> convo_id \<noteq> co_convo_id c
               then (Inl (Runtime_Error ''conversation_id does not belong to said user''), st')
               else (Inr [(''convo_id'', JString (co_convo_id c)), (''user_id'', JString session_id)],
                     cache_put (co_convo_id c) c st')))"

definition normalize_simple :: "text_files \<Rightarrow> json res \<Rightarrow> json \<Rightarrow> (string \<times> json) list res" where
  "normalize_simple rd menu request =
     rbind (jvalue as_string request ''convo_id'' []) (\<lambda>convo_id.
     rbind (jvalue as_string request ''user_id'' []) (\<lambda>user_id.
       if convo_id \<noteq> [] \<or> user_id \<noteq> []
       then Inl (Runtime_Error ''simple mode requires empty convo_id and empty user_id'')
       else case jget request ''messages'' of
              Some (JArray _) \<Rightarrow> Inr []
            | _ \<Rightarrow>
                rbind (jvalue as_string request ''user_message'' []) (\<lambda>user_msg.
                  if user_msg = [] then Inl (Runtime_Error ''simple mode requires messages[] or user_message'')
                  else Inr [(''messages'', build_simple_mode_messages rd menu user_msg [])])))"

definition normalize_llm_request ::
    "'d session_io \<Rightarrow> text_files \<Rightarrow> json res \<Rightarrow> config_file \<Rightarrow> int \<Rightarrow> nat \<Rightarrow> json \<Rightarrow> 'd sio \<Rightarrow> json res \<times> 'd sio" where
  "normalize_llm_request M rd menu model_cfg now_ms r request st =
     (case jvalue as_string request ''mode'' [] of
        Inl e \<Rightarrow> (Inl e, st)
      | Inr mode \<Rightarrow>
          (case (if mode = ''conversation'' then normalize_conversation M now_ms r request st
                 else if mode = ''user_conversation'' then normalize_user_conversation M now_ms request st
                 else if mode = ''simple'' then (normalize_simple rd menu request, st)
                 else (Inl (Runtime_Error (''unsupported mode: '' @ mode)), st)) of
             (Inl e, st') \<Rightarrow> (Inl e, st')
           | (Inr upds, st') \<Rightarrow>
               (Inr (set_fields (upds @ [(''message_type'', JString ''LLM_REQUEST''), (''mode'', JString mode)])
                       (with_defaults model_cfg request)), st')))"

section \<open>Cleanup\<close>

fun most_recent_activity :: "json option list \<Rightarrow> int \<Rightarrow> int res" where
  "most_recent_activity [] most_recent = Inr most_recent"
| "most_recent_activity (row # rows) most_recent =
     (case row of
        Some (JObject m) \<Rightarrow>
          rbind (jvalue as_long (JObject m) ''last_activity_ms'' 0) (\<lambda>act.
            most_recent_activity rows (if act > most_recent then act else most_recent))
      | _ \<Rightarrow> most_recent_activity rows most_recent)"

text \<open>One round of \<open>cleanup_loop\<close> with a storage provider. A field of the wrong type is not caught
  there: the exception leaves the thread, \<open>Inl\<close>.\<close>

fun cleanup_pids ::
    "'d session_io \<Rightarrow> 'd istorage \<Rightarrow> int \<Rightarrow> int \<Rightarrow> int list \<Rightarrow> 'd sio \<Rightarrow> unit res \<times> 'd sio" where
  "cleanup_pids M S ttl_ms now_ms [] st = (Inr (), st)"
| "cleanup_pids M S ttl_ms now_ms (pid # pids) st =
     (let w = sio_world st
      in case most_recent_activity (map (\<lambda>cid. sp_get_conversation S cid w) (sp_list_proc_convo_ids S pid w)) 0 of
           Inl e \<Rightarrow> (Inl e, st)
         | Inr most_recent \<Rightarrow>
             cleanup_pids M S ttl_ms now_ms pids
               (if most_recent > 0 \<and> now_ms - most_recent \<ge> ttl_ms
                then delete_process_convos_for_pid M pid st else st))"

definition cleanup_pass :: "'d session_io \<Rightarrow> 'd istorage \<Rightarrow> config_file \<Rightarrow> int \<Rightarrow> 'd sio \<Rightarrow> unit res \<times> 'd sio" where
  "cleanup_pass M S cfg now_ms st =
     cleanup_pids M S (load_process_convo_ttl_ms cfg) now_ms (sp_list_proc_creator_pids S (sio_world st)) st"

section \<open>Stored and read back\<close>

definition time_ok :: "int \<Rightarrow> bool" where
  "time_ok t \<longleftrightarrow> - (2 ^ 63) \<le> t \<and> t < 2 ^ 63"

definition convo_ok :: "convo \<Rightarrow> bool" where
  "convo_ok c \<longleftrightarrow>
     co_convo_id c \<noteq> [] \<and> - 2147483648 \<le> co_creator_pid c \<and> co_creator_pid c \<le> INT_MAX
     \<and> time_ok (co_created_at_ms c) \<and> time_ok (co_last_activity_ms c)
     \<and> - 2147483648 \<le> co_turn_count c \<and> co_turn_count c \<le> INT_MAX
     \<and> list_all is_object (co_messages c)"

lemma to_int64_id: "time_ok i \<Longrightarrow> to_int64 i = i"
  unfolding to_int64_def time_ok_def by simp

lemma jget_convo_json:
  "jget (convo_json c) ''convo_id'' = Some (JString (co_convo_id c))"
  "jget (convo_json c) ''creator_pid'' = Some (JInt (co_creator_pid c))"
  "jget (convo_json c) ''last_activity_ms'' = Some (JInt (co_last_activity_ms c))"
  by (simp_all add: convo_json_def)

lemma is_object_convo_json [simp]: "is_object (convo_json c)"
  by (simp add: convo_json_def)

lemma filter_all: "list_all P xs \<Longrightarrow> filter P xs = xs"
  by (simp add: list_all_iff)

lemma convo_of_json_convo_json: "convo_ok c \<Longrightarrow> convo_of_json (convo_json c) = Inr c"
  by (simp add: convo_of_json_def convo_json_def convo_ok_def to_int32_id to_int64_id filter_all)

section \<open>What the store relies on of a provider\<close>

text \<open>The ids under which conversations are kept: a session id for a user conversation, and for a
  process an id that names it.\<close>

definition keyed :: "string \<Rightarrow> int \<Rightarrow> bool" where
  "keyed cid pid \<longleftrightarrow>
     pid = -1 \<and> is_session_id cid
     \<or> 0 < pid \<and> pid \<le> INT_MAX \<and> (\<exists>r. cid = process_convo_id (nat pid) r)"

definition filed :: "string \<Rightarrow> convo \<Rightarrow> bool" where
  "filed k c \<longleftrightarrow> co_convo_id c = k \<and> convo_ok c \<and> keyed k (co_creator_pid c)"

definition store_wf :: "'d istorage \<Rightarrow> 'd world \<Rightarrow> bool" where
  "store_wf S w \<longleftrightarrow> (\<forall>k j. sp_get_conversation S k w = Some j \<longrightarrow> (\<exists>c. j = convo_json c \<and> filed k c))"

definition sio_wf :: "'d istorage \<Rightarrow> ('d world \<Rightarrow> bool) \<Rightarrow> 'd sio \<Rightarrow> bool" where
  "sio_wf S ready st \<longleftrightarrow>
     ready (sio_world st) \<and> store_wf S (sio_world st)
     \<and> (\<forall>k c. tget (convo_cache st) k = Some c \<longrightarrow> filed k c)"

lemma new_convo_id [simp]: "co_convo_id new_convo = []"
  by (simp add: new_convo_def)

lemma filed_id: "filed k c \<Longrightarrow> co_convo_id c = k \<and> k \<noteq> [] \<and> co_convo_id c \<noteq> []"
  by (auto simp: filed_def convo_ok_def)

lemma not_session_Nil: "\<not> is_session_id []"
  by code_simp

lemma fresh_user_filed: "is_session_id sid \<Longrightarrow> time_ok now \<Longrightarrow> filed sid (fresh_user_convo now sid)"
  using not_session_Nil
  by (auto simp: filed_def fresh_user_convo_def new_convo_def convo_ok_def keyed_def)

lemma process_convo_id_nonempty [simp]: "process_convo_id n r \<noteq> []"
  by (simp add: process_convo_id_def)

lemma fresh_process_filed:
  "0 < pid \<Longrightarrow> pid \<le> INT_MAX \<Longrightarrow> time_ok now \<Longrightarrow>
     filed (co_convo_id (fresh_process_convo now pid r)) (fresh_process_convo now pid r)"
  by (auto simp: filed_def fresh_process_convo_def new_convo_def convo_ok_def keyed_def)

lemma append_unlocked_filed:
  "append_message_unlocked now c role content toks extra = Some c' \<Longrightarrow> time_ok now \<Longrightarrow> filed k c \<Longrightarrow> filed k c'"
  using to_int32_range
  by (auto simp: append_message_unlocked_def filed_def convo_ok_def Let_def convo_message_def split: if_splits)

lemma append_inputs_filed:
  "append_inputs now ins c = Some c' \<Longrightarrow> time_ok now \<Longrightarrow> filed k c \<Longrightarrow> filed k c'"
proof (induction now ins c rule: append_inputs.induct)
  case (2 now role content extra ins c)
  then obtain d where "append_message_unlocked now c role content 0 extra = Some d"
    and "append_inputs now ins d = Some c'"
    by (auto split: option.splits)
  with 2 append_unlocked_filed show ?case by blast
qed simp

lemma without_system_objects:
  "without_system ms = Inr ms' \<Longrightarrow> list_all P ms \<Longrightarrow> list_all P ms'"
  by (induction ms arbitrary: ms') (auto simp: rbind_Inr_conv split: if_splits)

lemma filed_messages: "filed k c \<Longrightarrow> list_all is_object ms \<Longrightarrow> filed k (c\<lparr>co_messages := ms\<rparr>)"
  by (auto simp: filed_def convo_ok_def)

lemma with_system_filed:
  assumes "with_system now x ov c = Inr c'" and "time_ok now" and "filed k c"
  shows "filed k c'"
proof -
  have objs: "list_all is_object (co_messages c)" using assms(3) by (simp add: filed_def convo_ok_def)
  show ?thesis
    using assms objs
    by (auto simp: with_system_def rbind_Inr_conv split: if_splits option.splits
        intro: append_unlocked_filed [OF _ _ filed_messages] append_unlocked_filed dest: without_system_objects)
qed

lemma update_convo_filed:
  "update_convo now x ov ins c = Inr c' \<Longrightarrow> time_ok now \<Longrightarrow> filed k c \<Longrightarrow> filed k c'"
  using append_inputs_filed with_system_filed
  by (auto simp: update_convo_def rbind_Inr_conv split: option.splits)

lemma conversation_args_Inr:
  "conversation_args req = Inr (pid, k) \<longleftrightarrow>
     jvalue as_int req ''source_pid'' (-1) = Inr pid \<and> 0 < pid \<and> jvalue as_string req ''convo_id'' [] = Inr k
     \<and> jvalue as_string req ''user_id'' [] = Inr []"
  by (auto simp: conversation_args_def rbind_Inr_conv split: if_splits)

lemma jvalue_int_range: "jvalue as_int j k d = Inr i \<Longrightarrow> - 2147483648 \<le> d \<Longrightarrow> d \<le> INT_MAX \<Longrightarrow> i \<le> INT_MAX"
  using as_int_range by (cases j) (auto split: option.splits)

lemma user_args_session: "user_conversation_args req = Inr (k, sid) \<Longrightarrow> is_session_id sid"
  by (auto simp: user_conversation_args_def generate_user_convo_id_def rbind_Inr_conv split: if_splits)

locale convo_store =
  fixes S :: "'d istorage"
    and storage_path :: path
    and ready :: "'d world \<Rightarrow> bool"
  assumes upsert: "ready w \<Longrightarrow> filed k c \<Longrightarrow> sp_upsert_conversation S (convo_json c) w = (b, w') \<Longrightarrow>
      ready w' \<and> sp_get_conversation S k w' = (if b then Some (convo_json c) else sp_get_conversation S k w)
      \<and> (\<forall>k'. k' \<noteq> k \<longrightarrow> sp_get_conversation S k' w' = sp_get_conversation S k' w)"
    and delete: "ready w \<Longrightarrow> sp_delete_conversation S cid hint w = (b, w') \<Longrightarrow>
      ready w' \<and> (\<forall>k. sp_get_conversation S k w' = sp_get_conversation S k w
                      \<or> k = cid \<and> sp_get_conversation S k w' = None)"
    and delete_all: "ready w \<Longrightarrow> w' = sp_delete_all_proc_convos S pid w \<Longrightarrow>
      ready w' \<and> (\<forall>k. sp_get_conversation S k w' = sp_get_conversation S k w \<or> sp_get_conversation S k w' = None)
      \<and> (\<forall>k p. keyed k p \<longrightarrow> sp_get_conversation S k w' = (if p = pid \<and> 0 < pid then None else sp_get_conversation S k w))"
    and directories: "ready w \<Longrightarrow>
      ready (make_dirs p (fst w), snd w)
      \<and> sp_get_conversation S k (make_dirs p (fst w), snd w) = sp_get_conversation S k w"
    and file_agrees: "ready w \<Longrightarrow> is_session_id sid \<Longrightarrow>
      tget (fs_files (fst w)) (fst (io_user_convo_path storage_path sid (fst w))) = Some (Some j) \<Longrightarrow>
      sp_get_conversation S sid w = Some j"

begin

abbreviation wf :: "'d sio \<Rightarrow> bool" where
  "wf st \<equiv> sio_wf S ready st"

lemma store_wfD: "store_wf S w \<Longrightarrow> sp_get_conversation S k w = Some j \<Longrightarrow> \<exists>c. j = convo_json c \<and> filed k c"
  by (simp add: store_wf_def)

text \<open>A load never throws: it gives the stored conversation, or the empty one.\<close>

lemma load_ok:
  assumes "sio_storage M = Some S" and "store_wf S w"
  shows "\<exists>c. load_conversation_from_disk_unlocked M k w = (Inr c, w)
     \<and> (c = new_convo \<and> sp_get_conversation S k w = None
        \<or> filed k c \<and> sp_get_conversation S k w = Some (convo_json c))"
proof (cases "sp_get_conversation S k w")
  case None
  then show ?thesis using assms(1) by (simp add: load_conversation_from_disk_unlocked_def)
next
  case (Some j)
  then obtain c where "j = convo_json c" "filed k c" using store_wfD [OF assms(2)] by blast
  with Some show ?thesis
    using assms(1)
    by (simp add: load_conversation_from_disk_unlocked_def convo_of_json_convo_json filed_def)
qed

lemma fetch_ok:
  assumes "sio_storage M = Some S" and "wf st"
  shows "\<exists>c. fetch M k st = (Inr c, st) \<and> (c = new_convo \<or> filed k c)"
proof (cases "tget (convo_cache st) k")
  case None
  then show ?thesis
    using load_ok [OF assms(1), of "sio_world st" k] assms(2) by (auto simp: fetch_def sio_wf_def)
next
  case (Some c)
  then show ?thesis using assms(2) by (simp add: fetch_def sio_wf_def)
qed

lemma persist_ok:
  assumes "sio_storage M = Some S" and "ready w" and "store_wf S w" and "filed k c"
    and "persist_conversation M c w = (b, w')"
  shows "ready w' \<and> store_wf S w'
     \<and> sp_get_conversation S k w' = (if b then Some (convo_json c) else sp_get_conversation S k w)
     \<and> (\<forall>k'. k' \<noteq> k \<longrightarrow> sp_get_conversation S k' w' = sp_get_conversation S k' w)"
proof -
  have up: "sp_upsert_conversation S (convo_json c) w = (b, w')"
    using assms(1,5) by (simp add: persist_conversation_def)
  note u = upsert [OF assms(2,4) up]
  have "store_wf S w'"
    unfolding store_wf_def
  proof (intro allI impI)
    fix k' j
    assume "sp_get_conversation S k' w' = Some j"
    with u assms(3,4) show "\<exists>c. j = convo_json c \<and> filed k' c"
      by (cases "k' = k") (auto simp: store_wf_def split: if_splits)
  qed
  with u show ?thesis by blast
qed

lemma wf_world: "wf st \<Longrightarrow> ready w \<Longrightarrow> store_wf S w \<Longrightarrow> wf (st\<lparr>sio_world := w\<rparr>)"
  by (simp add: sio_wf_def)

lemma wf_put: "wf st \<Longrightarrow> filed k c \<Longrightarrow> wf (cache_put k c st)"
  by (simp add: sio_wf_def)

lemma wf_drop: "wf st \<Longrightarrow> wf (st\<lparr>convo_cache := tdel k (convo_cache st)\<rparr>)"
  by (simp add: sio_wf_def)

lemma persist_wf:
  assumes "sio_storage M = Some S" and "wf st" and "filed k c"
  shows "wf (st\<lparr>sio_world := snd (persist_conversation M c (sio_world st))\<rparr>)"
proof -
  obtain b w where p: "persist_conversation M c (sio_world st) = (b, w)" by (rule prod.exhaust)
  have "ready (sio_world st)" "store_wf S (sio_world st)" using assms(2) by (auto simp: sio_wf_def)
  from persist_ok [OF assms(1) this assms(3) p] show ?thesis
    using assms(2) p by (simp add: wf_world)
qed

lemma store_anyway_wf:
  "sio_storage M = Some S \<Longrightarrow> wf st \<Longrightarrow> filed k c \<Longrightarrow> wf (store_anyway M k c st)"
  using persist_wf [of M st k c] by (auto simp: store_anyway_def sio_wf_def split: prod.splits)

lemma store_ok_wf:
  "sio_storage M = Some S \<Longrightarrow> wf st \<Longrightarrow> filed k c \<Longrightarrow> wf (snd (store M k c st))"
  using persist_wf [of M st k c] by (auto simp: store_def sio_wf_def split: prod.splits bool.splits)

end

end
