(* ===== verification/Llm_Request.thy ===== *)
theory Llm_Request
  imports Adapter_Streams Config_Utils Session_IO
begin

text \<open>
  The way of a request through the scheduler (\<^verbatim>\<open>llm/scheduler.cpp\<close>): the configuration of the model, the request
  to the adapter, one call with or without streaming, and the reply with what it stores. The tool
  schemas, the clocks, the identifiers and the adapter's surroundings are arguments.
\<close>

section \<open>Configuration\<close>

record model_config =
  mc_model_name :: string
  mc_model_type :: string
  mc_active_adapter :: string
  mc_context_length :: nat
  mc_max_simultaneous :: int
  mc_enabled :: bool

record scheduler_config =
  sc_active_adapter :: string
  sc_adapter_cfg :: adapter_config
  sc_model_info :: model_config
  sc_auto_compact_threshold :: rat
  sc_max_llm_keys :: int
  sc_max_client_threads :: int
  sc_wait_timeout_ms :: int
  sc_executioner_port :: int
  sc_supervisor_port :: int

text \<open>The first file that opens decides, also when it cannot be parsed.\<close>

definition load_json_with_fallback :: "(string \<Rightarrow> json res) \<Rightarrow> files \<Rightarrow> string list \<Rightarrow> json option" where
  "load_json_with_fallback parse fs paths =
     (case open_first fs paths of
        None \<Rightarrow> None
      | Some t \<Rightarrow> (case parse t of Inr j \<Rightarrow> Some j | Inl _ \<Rightarrow> None))"

definition load_text_with_fallback :: "files \<Rightarrow> string list \<Rightarrow> string" where
  "load_text_with_fallback fs paths = (case open_first fs paths of None \<Rightarrow> [] | Some t \<Rightarrow> t)"

definition string_items :: "json list \<Rightarrow> string list" where
  "string_items js = concat (map (\<lambda>j. case j of JString s \<Rightarrow> [s] | _ \<Rightarrow> []) js)"

text \<open>An explicit key, the variable the configuration names, then two well-known variables.\<close>

definition resolve_api_key :: "(string \<Rightarrow> string option) \<Rightarrow> (string, string) table \<Rightarrow> string \<Rightarrow> string \<Rightarrow> string" where
  "resolve_api_key env dot_env api_key env_var_name =
     (let k1 = (if api_key = [] \<and> env_var_name \<noteq> [] then get_env_value env env_var_name dot_env else api_key);
          k2 = (if k1 = [] then get_env_value env ''OPENAI_API_KEY'' dot_env else k1)
      in if k2 = [] then get_env_value env ''OLLAMA_API_KEY'' dot_env else k2)"

definition load_adapter_config ::
    "(string \<Rightarrow> string option) \<Rightarrow> files \<Rightarrow> string \<Rightarrow> json \<Rightarrow> adapter_config res" where
  "load_adapter_config env fs active adapter =
     rbind (jvalue as_string adapter ''base_url'' ''http://127.0.0.1:8033/v1'') (\<lambda>base_url.
     rbind (jvalue as_string adapter ''model'' []) (\<lambda>model.
     rbind (jvalue as_string adapter ''api_key'' []) (\<lambda>api_key.
     rbind (jvalue as_string adapter ''api_key_env'' []) (\<lambda>env_var_name.
     rbind (jvalue as_string adapter ''host'' []) (\<lambda>host.
     rbind (jvalue as_int adapter ''port'' 8033) (\<lambda>port.
     rbind (jvalue as_bool adapter ''use_https'' False) (\<lambda>use_https.
     rbind (jvalue as_string adapter ''base_path'' []) (\<lambda>base_path.
     rbind (jvalue as_string adapter ''chat_completions_path'' ''/chat/completions'') (\<lambda>endpoint.
     rbind (jvalue as_bool adapter ''enable_tools'' True) (\<lambda>enable_tools.
     rbind (jvalue as_bool adapter ''enable_streaming'' True) (\<lambda>enable_streaming.
       Inr \<lparr>ac_active_adapter = active, ac_base_url = base_url,
            ac_api_key = resolve_api_key env (load_dotenv (fs ''.env'')) api_key env_var_name,
            ac_host = host, ac_base_path = base_path, ac_chat_endpoint = endpoint, ac_model = model,
            ac_port = port, ac_use_https = use_https, ac_timeout_ms = 60000,
            ac_stop_tokens = (case jget adapter ''stop_tokens'' of Some (JArray ts) \<Rightarrow> string_items ts | _ \<Rightarrow> []),
            ac_enable_tools = enable_tools, ac_enable_streaming = enable_streaming,
            ac_stream_idle_timeout_ms = 0\<rparr>)))))))))))"

definition load_model_config :: "string \<Rightarrow> json \<Rightarrow> json \<Rightarrow> model_config res" where
  "load_model_config active model_json adapter =
     rbind (jvalue as_string model_json ''model_name'' ''unknown'') (\<lambda>outer_name.
     rbind (jvalue as_string adapter ''model'' outer_name) (\<lambda>name.
     rbind (jvalue as_string model_json ''model_type'' ''unknown'') (\<lambda>outer_type.
     rbind (jvalue as_string adapter ''api_style'' outer_type) (\<lambda>type.
     rbind (jvalue as_bool model_json ''enabled'' True) (\<lambda>outer_enabled.
     rbind (jvalue as_bool adapter ''enabled'' outer_enabled) (\<lambda>enabled.
     rbind (jvalue as_int model_json ''max_simultaneous_llm_requests'' 5) (\<lambda>simultaneous.
     rbind (jvalue as_uint64 model_json ''max_context_tokens'' 0) (\<lambda>context.
       Inr \<lparr>mc_model_name = name, mc_model_type = type, mc_active_adapter = active, mc_context_length = unat context,
            mc_max_simultaneous = simultaneous, mc_enabled = enabled\<rparr>))))))))"

definition load_compact_threshold :: "(string \<Rightarrow> json res) \<Rightarrow> files \<Rightarrow> rat" where
  "load_compact_threshold parse fs =
     (case load_json_with_fallback parse fs (config_paths ''compacter.json'') of
        Some j \<Rightarrow> (case jget j ''auto_compact_threshold'' of Some (JInt i) \<Rightarrow> of_int i | Some (JFloat r) \<Rightarrow> r | _ \<Rightarrow> 7 / 10)
      | None \<Rightarrow> 7 / 10)"

definition load_scheduler_config ::
    "(string \<Rightarrow> json res) \<Rightarrow> (string \<Rightarrow> string option) \<Rightarrow> files \<Rightarrow> int \<Rightarrow> int \<Rightarrow> scheduler_config res" where
  "load_scheduler_config parse env fs executioner_port supervisor_port =
     (case load_json_with_fallback parse fs (config_paths ''model.json'') of
        None \<Rightarrow> Inl (Runtime_Error ''Missing config/model.json'')
      | Some model_json \<Rightarrow>
          rbind (jvalue as_string model_json ''active_adapter'' ''llama.cpp'') (\<lambda>active.
          rbind (jvalue as_json model_json ''adapters'' (JObject [])) (\<lambda>adapters.
            case jget adapters active of
              Some (JObject a) \<Rightarrow>
                rbind (load_adapter_config env fs active (JObject a)) (\<lambda>adapter_cfg.
                rbind (jvalue as_int model_json ''request_timeout_ms'' 60000) (\<lambda>timeout_ms.
                rbind (load_model_config active model_json (JObject a)) (\<lambda>model_info.
                rbind (jvalue as_int model_json ''max_client_threads'' 64) (\<lambda>threads.
                  Inr \<lparr>sc_active_adapter = active, sc_adapter_cfg = adapter_cfg\<lparr>ac_timeout_ms := timeout_ms\<rparr>, sc_model_info = model_info,
                       sc_auto_compact_threshold = load_compact_threshold parse fs,
                       sc_max_llm_keys = (if mc_max_simultaneous model_info \<le> 0 then 1 else mc_max_simultaneous model_info),
                       sc_max_client_threads = threads, sc_wait_timeout_ms = timeout_ms + 5000,
                       sc_executioner_port = executioner_port, sc_supervisor_port = supervisor_port\<rparr>))))
            | _ \<Rightarrow> Inl (Runtime_Error ''Invalid active_adapter in config/model.json''))))"

section \<open>The request to the adapter\<close>

text \<open>Arguments of a tool call as text.\<close>

definition stringify_call :: "(json \<Rightarrow> string) \<Rightarrow> json \<Rightarrow> json" where
  "stringify_call dump tc =
     (case tc of
        JObject m \<Rightarrow>
          (case oget m ''function'' of
             Some (JObject fn) \<Rightarrow>
               (case oget fn ''arguments'' of
                  Some a \<Rightarrow> if is_object a \<or> is_array a
                            then JObject (oput ''function'' (JObject (oput ''arguments'' (JString (dump a)) fn)) m) else tc
                | None \<Rightarrow> tc)
           | _ \<Rightarrow> tc)
      | _ \<Rightarrow> tc)"

definition stringify_message :: "(json \<Rightarrow> string) \<Rightarrow> json \<Rightarrow> json" where
  "stringify_message dump msg =
     (case msg of
        JObject m \<Rightarrow>
          if string_member msg ''role'' = ''assistant''
          then (case oget m ''tool_calls'' of
                  Some (JArray tcs) \<Rightarrow> JObject (oput ''tool_calls'' (JArray (map (stringify_call dump) tcs)) m)
                | _ \<Rightarrow> msg)
          else msg
      | _ \<Rightarrow> msg)"

definition provider_messages :: "(json \<Rightarrow> string) \<Rightarrow> json \<Rightarrow> json res" where
  "provider_messages dump messages =
     (case messages of
        JArray ms \<Rightarrow> rbind (order_messages ms) (\<lambda>ordered. Inr (JArray (map (stringify_message dump) ordered)))
      | _ \<Rightarrow> Inr messages)"

definition stream_allowed :: "scheduler_config \<Rightarrow> pending_request \<Rightarrow> string \<Rightarrow> bool" where
  "stream_allowed cfg req mode \<longleftrightarrow>
     mode = ''user_conversation'' \<and> q_tree_id req = ''TREE_HANDLER'' \<and>
     string_member (q_payload req) ''user_id'' \<noteq> [] \<and> ac_enable_streaming (sc_adapter_cfg cfg)"

definition build_chat_request ::
    "(json \<Rightarrow> string) \<Rightarrow> json \<Rightarrow> pending_request \<Rightarrow> scheduler_config \<Rightarrow> json \<Rightarrow> chat_request res" where
  "build_chat_request dump tool_schemas req cfg messages =
     (let payload = q_payload req; acfg = sc_adapter_cfg cfg in
      rbind (provider_messages dump messages) (\<lambda>msgs.
      rbind (jvalue as_json payload ''sampling_params'' (JObject [])) (\<lambda>sampling.
      rbind (jvalue as_int sampling ''max_tokens'' 0) (\<lambda>inner_max.
      rbind (jvalue as_int payload ''max_tokens'' inner_max) (\<lambda>max_tokens.
      rbind (jvalue as_string payload ''mode'' ''simple'') (\<lambda>mode.
      rbind (jvalue as_bool payload ''stream'' False) (\<lambda>stream.
      rbind (jvalue as_json payload ''extra_body'' (JObject [])) (\<lambda>extra_body.
        let tools = (case jget payload ''tools'' of
                       Some (JArray ts) \<Rightarrow> JArray ts
                     | _ \<Rightarrow> if ac_enable_tools acfg then tool_schemas else JArray [])
        in Inr \<lparr>cr_model = ac_model acfg, cr_messages = msgs, cr_tools = tools,
                cr_tool_choice = (case jget payload ''tool_choice'' of
                                    Some c \<Rightarrow> c
                                  | None \<Rightarrow> if nonempty_array tools then JString ''auto'' else JNull),
                cr_sampling = sampling, cr_stream = stream \<and> stream_allowed cfg req mode, cr_max_tokens = max_tokens,
                cr_stop = (case jget payload ''stop'' of Some (JArray ts) \<Rightarrow> string_items ts | _ \<Rightarrow> ac_stop_tokens acfg),
                cr_extra_body = extra_body\<rparr>))))))))"

section \<open>One call\<close>

definition new_aggregate :: chat_aggregate where
  "new_aggregate = \<lparr>agg_content = [], agg_finish_reason = [], agg_partials = [], agg_tokens = []\<rparr>"

text \<open>The callback given to the adapter; the text reaches the client before the tool call is read.\<close>

definition stream_callback :: "stream_chunk \<Rightarrow> (chat_aggregate, unit) act" where
  "stream_callback c agg =
     (case on_stream_chunk agg c of
        Inr a \<Rightarrow> (Inr (), a)
      | Inl e \<Rightarrow> (Inl e, agg\<lparr>agg_content := agg_content agg @ delta_text c,
                            agg_tokens := agg_tokens agg @ (if delta_text c \<noteq> [] then [delta_text c] else [])\<rparr>))"

text \<open>The response and the tokens passed to the client.\<close>

definition run_chat_once ::
    "adapter_kind \<Rightarrow> llm_env \<Rightarrow> adapter_config \<Rightarrow> chat_request \<Rightarrow> chat_response res \<times> string list" where
  "run_chat_once kind E acfg req =
     (if \<not> cr_stream req then (call_chat kind E acfg req, [])
      else case call_chat_stream kind E acfg req stream_callback new_aggregate of
             (Inl e, agg) \<Rightarrow> (Inl e, agg_tokens agg)
           | (Inr _, agg) \<Rightarrow>
               (Inr (new_response\<lparr>cp_content := agg_content agg, cp_finish_reason := agg_finish_reason agg,
                                  cp_tool_calls := JArray (finish_stream agg)\<rparr>), agg_tokens agg))"

section \<open>The reply\<close>

definition context_exceeded :: "nat \<Rightarrow> nat \<Rightarrow> exn" where
  "context_exceeded input_tokens context_length =
     Runtime_Error (''Context length exceeded ('' @ to_string_int (int input_tokens) @ '' > '' @ to_string_int (int context_length)
       @ '' tokens). Please use /undo to remove recent large outputs or /new to start a new session.'')"

text \<open>The limit on generated tokens is written into the payload when it is lower than the one asked for.\<close>

definition limit_payload :: "int \<Rightarrow> json \<Rightarrow> json" where
  "limit_payload available payload =
     (case payload of
        JObject m \<Rightarrow>
          let m1 = oput ''max_tokens'' (JInt available) m
          in JObject (case oget m1 ''sampling_params'' of
                        Some (JObject sp) \<Rightarrow> oput ''sampling_params'' (JObject (oput ''max_tokens'' (JInt available) sp)) m1
                      | _ \<Rightarrow> m1)
      | _ \<Rightarrow> payload)"

definition budgeted_payload :: "nat \<Rightarrow> json \<Rightarrow> json res" where
  "budgeted_payload context_length payload =
     (case jget payload ''messages'' of
        Some (JArray ms) \<Rightarrow>
          rbind (estimate_request_tokens (JArray ms)) (\<lambda>input_tokens.
          rbind (jvalue as_json payload ''sampling_params'' (JObject [])) (\<lambda>sampling.
          rbind (jvalue as_int sampling ''max_tokens'' 8192) (\<lambda>inner_max.
          rbind (jvalue as_int payload ''max_tokens'' inner_max) (\<lambda>current_max.
            case token_budget context_length input_tokens current_max of
              None \<Rightarrow> Inl (context_exceeded input_tokens context_length)
            | Some limit \<Rightarrow> Inr (if limit < current_max then limit_payload limit payload else payload)))))
      | _ \<Rightarrow> Inl (Runtime_Error ''LLM_REQUEST missing messages[]''))"

fun normalize_calls ::
    "(string \<Rightarrow> json res) \<Rightarrow> (json \<Rightarrow> string) \<Rightarrow> (int \<Rightarrow> string) \<Rightarrow> int \<Rightarrow> json list \<Rightarrow> json list res" where
  "normalize_calls parse dump uuid i [] = Inr []"
| "normalize_calls parse dump uuid i (tc # tcs) =
     rbind (normalize_tool_call parse dump (uuid i) tc i) (\<lambda>c.
     rbind (normalize_calls parse dump uuid (i + 1) tcs) (\<lambda>cs. Inr (c # cs)))"

definition tokens_used :: "(json \<Rightarrow> string) \<Rightarrow> chat_response \<Rightarrow> json list \<Rightarrow> u64 res" where
  "tokens_used dump r calls =
     rbind (jvalue as_uint64 (cp_usage r) ''completion_tokens'' 0) (\<lambda>completion.
       Inr (if completion > 0 then completion
            else of_nat (max 1 (length (if cp_content r \<noteq> [] then cp_content r else dump (JArray calls)) div 3))))"

definition is_conversation :: "string \<Rightarrow> bool" where
  "is_conversation mode \<longleftrightarrow> mode = ''conversation'' \<or> mode = ''user_conversation''"

text \<open>A failure to store is only logged; an exception is not caught here.\<close>

definition persist_reply ::
    "'d session_io \<Rightarrow> int \<Rightarrow> json \<Rightarrow> string \<Rightarrow> string \<Rightarrow> json list \<Rightarrow> u64 \<Rightarrow> 'd sio \<Rightarrow> unit res \<times> 'd sio" where
  "persist_reply M now_ms payload mode content calls used st =
     (if is_conversation mode \<and> calls \<noteq> []
      then case persist_assistant_tool_call M now_ms payload content (JArray calls) used st of
             (Inl e, st') \<Rightarrow> (Inl e, st') | (Inr _, st') \<Rightarrow> (Inr (), st')
      else if is_conversation mode \<and> content \<noteq> [] \<and> calls = []
      then case persist_assistant_response M now_ms payload content used st of
             (Inl e, st') \<Rightarrow> (Inl e, st') | (Inr _, st') \<Rightarrow> (Inr (), st')
      else (Inr (), st))"

definition conversation_fields :: "json \<Rightarrow> string \<Rightarrow> (string \<times> json) list res" where
  "conversation_fields payload mode =
     (if \<not> is_conversation mode then Inr []
      else rbind (jvalue as_string payload ''convo_id'' []) (\<lambda>convo_id.
           rbind (jvalue as_bool payload ''auto_compacted'' False) (\<lambda>auto.
           rbind (jvalue as_string payload ''compact_skip_reason'' []) (\<lambda>reason.
           rbind (jvalue as_bool payload ''session_compacted'' False) (\<lambda>compacted.
           rbind (if compacted
                  then rbind (jvalue as_int payload ''tokens_before'' 0) (\<lambda>before.
                       rbind (jvalue as_int payload ''tokens_after'' 0) (\<lambda>after.
                         Inr [(''session_compacted'', JBool True), (''tokens_before'', JInt before), (''tokens_after'', JInt after)]))
                  else Inr []) (\<lambda>more.
             Inr ([(''convo_id'', JString convo_id), (''auto_compacted'', JBool auto), (''compact_skip_reason'', JString reason)] @ more)))))))"

definition llm_response ::
    "pending_request \<Rightarrow> string \<Rightarrow> int \<Rightarrow> chat_response \<Rightarrow> json list \<Rightarrow> (string \<times> json) list \<Rightarrow> json" where
  "llm_response req mode latency r calls extra =
     jobj ([(''message_type'', JString ''LLM_RESPONSE''), (''status'', JString ''ok''), (''request_id'', JString (q_request_id req)),
            (''tree_id'', JString (q_tree_id req)), (''mode'', JString mode), (''latency_ms'', JInt latency)] @ extra @
           [(''response'', JString (cp_content r)),
            (''assistant_message'', jobj ([(''role'', JString ''assistant''), (''tool_calls'', JArray calls)] @
               (if cp_content r \<noteq> [] then [(''content'', JString (cp_content r))] else []))),
            (''tool_calls'', JArray calls), (''finish_reason'', JString (cp_finish_reason r)), (''usage'', cp_usage r),
            (''raw_provider_response'', cp_raw r)])"

text \<open>What the request needs beside the adapter: the tool schemas, identifiers, the clock, the timer.\<close>

record request_env =
  re_llm :: llm_env
  re_schemas :: json
  re_uuid :: "int \<Rightarrow> string"
  re_now_ms :: int
  re_latency :: int

definition process_llm_request_stateless ::
    "request_env \<Rightarrow> 'd session_io \<Rightarrow> scheduler_config \<Rightarrow> bool \<Rightarrow> pending_request \<Rightarrow> 'd sio \<Rightarrow> json res \<times> string list \<times> 'd sio" where
  "process_llm_request_stateless X M cfg attempt_current req0 st =
     (let E = re_llm X; acfg = sc_adapter_cfg cfg in
      case rbind (budgeted_payload (mc_context_length (sc_model_info cfg)) (q_payload req0)) (\<lambda>payload.
           rbind (jvalue as_string payload ''mode'' ''simple'') (\<lambda>mode.
           rbind (build_chat_request (le_dump E) (re_schemas X) (req0\<lparr>q_payload := payload\<rparr>) cfg (the (jget payload ''messages''))) (\<lambda>chat.
             Inr (payload, mode, chat)))) of
        Inl e \<Rightarrow> (Inl e, [], st)
      | Inr (payload, mode, chat) \<Rightarrow>
          (case run_chat_once (make_adapter (sc_active_adapter cfg)) E acfg chat of
             (Inl e, tokens) \<Rightarrow> (Inl e, tokens, st)
           | (Inr r, tokens) \<Rightarrow>
               if \<not> attempt_current then (Inr JNull, tokens, st)
               else
                 (case rbind (case cp_tool_calls r of
                                JArray tcs \<Rightarrow> normalize_calls (le_parse E) (le_dump E) (re_uuid X) 0 tcs | _ \<Rightarrow> Inr []) (\<lambda>calls.
                       rbind (tokens_used (le_dump E) r calls) (\<lambda>used. Inr (calls, used))) of
                    Inl e \<Rightarrow> (Inl e, tokens, st)
                  | Inr (calls, used) \<Rightarrow>
                      (case persist_reply M (re_now_ms X) payload mode (cp_content r) calls used st of
                         (Inl e, st') \<Rightarrow> (Inl e, tokens, st')
                       | (Inr _, st') \<Rightarrow>
                           (rbind (conversation_fields payload mode) (\<lambda>extra.
                              Inr (llm_response req0 mode (re_latency X) r calls extra)), tokens, st')))))"

end
