(* ===== verification/Conversation_Store.thy ===== *)
theory Conversation_Store
  imports Session_IO
begin

text \<open>
  The conversation store of \<^verbatim>\<open>llm/session_io.cpp\<close> as a system of concurrent operations. Every
  operation keeps the well-formedness of cache and store over any provider that keeps the laws of
  \<open>convo_store\<close>; the JSON back end keeps them. In every interleaving of the operations, with messages
  under construction between the two sections of \<open>build_conversation_messages_safely\<close> and with
  deletions between the sweep of the cache and that of the store, each conversation is filed under
  its own id and the conversation of a process under an id that names the process.
\<close>

section \<open>Every operation keeps the store well formed\<close>

context convo_store
begin

lemma wf_dirs:
  assumes "wf st"
  shows "wf (st\<lparr>sio_world := (make_dirs p (fst (sio_world st)), snd (sio_world st))\<rparr>)"
proof -
  have "ready (sio_world st)" using assms by (simp add: sio_wf_def)
  then show ?thesis using directories assms by (simp add: sio_wf_def store_wf_def)
qed

lemma file_filed:
  assumes "wf st" and "is_session_id sid"
    and "p = fst (io_user_convo_path storage_path sid (fst (sio_world st)))"
  shows "load_convo_from_path p (fst (sio_world st)) = new_convo
     \<or> filed sid (load_convo_from_path p (fst (sio_world st)))"
proof (cases "\<exists>j. tget (fs_files (fst (sio_world st))) p = Some (Some j)")
  case True
  then obtain j where j: "tget (fs_files (fst (sio_world st))) p = Some (Some j)" by blast
  have r: "ready (sio_world st)" and s: "store_wf S (sio_world st)" using assms(1) by (simp_all add: sio_wf_def)
  have "sp_get_conversation S sid (sio_world st) = Some j"
    using file_agrees [OF r assms(2)] j assms(3) by simp
  then obtain c where "j = convo_json c" "filed sid c" using store_wfD [OF s] by blast
  with j show ?thesis
    by (simp add: load_convo_from_path_def convo_of_json_convo_json filed_def fs_exists_def)
qed (auto simp: load_convo_from_path_def split: option.splits)

lemma get_or_create_ok:
  assumes M: "sio_storage M = Some S" "sio_storage_path M = storage_path" and "wf st" and "time_ok now"
    and "is_session_id sid"
  shows "\<exists>c st'. get_or_create_user_convo_unlocked M now sid st = (Inr c, st') \<and> wf st' \<and> filed sid c"
proof -
  have sid: "generate_user_convo_id sid = sid" "sid \<noteq> []"
    using assms(5) not_session_Nil by (auto simp: generate_user_convo_id_def)
  obtain p fs where pf: "io_user_convo_path storage_path sid (fst (sio_world st)) = (p, fs)"
    by (rule prod.exhaust)
  define st1 where "st1 = st\<lparr>sio_world := (fs, snd (sio_world st))\<rparr>"
  have fs: "fs = make_dirs (butlast p) (fst (sio_world st))"
    using pf by (auto simp: io_user_convo_path_def Let_def butlast_append)
  have st1: "wf st1" unfolding st1_def fs by (rule wf_dirs [OF assms(3)])
  have w1: "fst (sio_world st1) = fs" by (simp add: st1_def)
  have p: "p = fst (io_user_convo_path storage_path sid (fst (sio_world st1)))"
    using pf by (auto simp: io_user_convo_path_def Let_def)
  define on_file where "on_file = (if fs_exists fs p then load_convo_from_path p fs else new_convo)"
  have onf: "on_file = new_convo \<or> filed sid on_file"
    using file_filed [OF st1 assms(5) p] w1 by (simp add: on_file_def)
  have fresh: "filed sid (fresh_user_convo now sid)" by (rule fresh_user_filed [OF assms(5,4)])
  have created: "wf (store_anyway M sid (fresh_user_convo now sid) st1)"
    by (rule store_anyway_wf [OF M(1) st1 fresh])
  obtain c where ld: "load_conversation_from_disk_unlocked M sid (sio_world st1) = (Inr c, sio_world st1)"
    and c: "c = new_convo \<or> filed sid c"
    using load_ok [OF M(1), of "sio_world st1" sid] st1 by (auto simp: sio_wf_def)
  have eq: "get_or_create_user_convo_unlocked M now sid st =
     (case tget (convo_cache st1) sid of
        Some d \<Rightarrow> (Inr d, st1)
      | None \<Rightarrow>
          if co_convo_id on_file \<noteq> [] then (Inr on_file, cache_put sid on_file st1)
          else if co_convo_id c \<noteq> [] then (Inr c, cache_put sid c st1)
          else (Inr (fresh_user_convo now sid), store_anyway M sid (fresh_user_convo now sid) st1))"
    unfolding get_or_create_user_convo_unlocked_def Let_def sid(1) M(2) pf prod.case
      st1_def [symmetric] on_file_def [symmetric]
    by (simp add: sid(2) ld M(1) split: option.split)
  show ?thesis
  proof (cases "tget (convo_cache st1) sid")
    case None
    then show ?thesis
      using onf c fresh created wf_put [OF st1] filed_id by (auto simp: eq)
  next
    case (Some d)
    with st1 have "filed sid d" by (simp add: sio_wf_def)
    with Some st1 show ?thesis by (simp add: eq)
  qed
qed

lemma get_or_create_wf:
  assumes "sio_storage M = Some S" "sio_storage_path M = storage_path" and "wf st" and "time_ok now"
  shows "wf (snd (get_or_create_user_convo M now uid st))"
proof (cases "is_session_id uid")
  case True
  with get_or_create_ok [OF assms True] assms(3) show ?thesis by (auto simp: get_or_create_user_convo_def)
next
  case False
  with assms(3) show ?thesis
    by (simp add: get_or_create_user_convo_def get_or_create_user_convo_unlocked_def generate_user_convo_id_def)
qed

lemma create_process_wf:
  "sio_storage M = Some S \<Longrightarrow> wf st \<Longrightarrow> time_ok now \<Longrightarrow> pid \<le> INT_MAX \<Longrightarrow>
     wf (snd (create_process_convo M now r pid st))"
  by (simp add: create_process_convo_def Let_def store_anyway_wf fresh_process_filed)

lemma get_conversation_ok:
  assumes "sio_storage M = Some S" and "wf st"
  shows "\<exists>c st'. io_get_conversation M k st = (Inr c, st') \<and> wf st' \<and> (c = new_convo \<or> filed k c)"
proof (cases "tget (convo_cache st) k")
  case (Some c)
  with assms(2) show ?thesis by (simp add: io_get_conversation_def sio_wf_def)
next
  case None
  obtain c where f: "fetch M k st = (Inr c, st)" and c: "c = new_convo \<or> filed k c"
    using fetch_ok [OF assms] by blast
  have "wf (if co_convo_id c = [] then st else cache_put k c st)"
    using c wf_put [OF assms(2)] assms(2) by (auto simp: new_convo_def)
  with None f c show ?thesis by (simp add: io_get_conversation_def)
qed

lemma invalidate_wf: "wf st \<Longrightarrow> wf (invalidate_conversation_cache k st)"
  by (simp add: invalidate_conversation_cache_def wf_drop)

lemma append_message_wf:
  assumes "sio_storage M = Some S" and "wf st" and "time_ok now"
  shows "wf (snd (append_message M now k role content toks extra st))"
proof -
  obtain c where "fetch M k st = (Inr c, st)" and c: "c = new_convo \<or> filed k c"
    using fetch_ok [OF assms(1,2)] by blast
  moreover have "wf (snd (store M k c' st))"
    if "append_message_unlocked now c role content toks extra = Some c'" "co_convo_id c \<noteq> []" for c'
    using that c append_unlocked_filed [OF that(1) assms(3)] store_ok_wf [OF assms(1,2)]
    by (auto simp: new_convo_def)
  ultimately show ?thesis
    using assms(2) by (auto simp: append_message_def split: option.splits prod.splits)
qed

lemma assistant_wf:
  assumes "sio_storage M = Some S" and "wf st" and "time_ok now"
  shows "wf (snd (persist_assistant_response M now req txt toks st))"
    and "wf (snd (persist_assistant_tool_call M now req txt calls toks st))"
  using assms append_message_wf [OF assms]
  by (auto simp: persist_assistant_response_def persist_assistant_tool_call_def split: sum.splits)

lemma delete_conversation_wf:
  assumes "sio_storage M = Some S" and "wf st"
  shows "wf (snd (io_delete_conversation M k pid st))"
proof -
  obtain b w where d: "sp_delete_conversation S k pid (sio_world st) = (b, w)" by (rule prod.exhaust)
  have "ready (sio_world st)" using assms(2) by (simp add: sio_wf_def)
  note del = delete [OF this d]
  then have "store_wf S w"
    using assms(2) by (simp add: sio_wf_def store_wf_def) (metis option.distinct(1))
  with del assms show ?thesis by (auto simp: io_delete_conversation_def d sio_wf_def Let_def)
qed

lemma tget_filter_sub: "tget (filter P m) k = Some v \<Longrightarrow> v \<in> snd ` {x \<in> set m. fst x = k}"
  by (induction m) (auto split: if_splits)

lemma delete_all_wf:
  assumes "sio_storage M = Some S" and "wf st"
  shows "wf (st\<lparr>sio_world := io_delete_all_proc_convos M pid (sio_world st)\<rparr>)"
proof -
  have "ready (sio_world st)" using assms(2) by (simp add: sio_wf_def)
  note del = delete_all [OF this refl, of pid]
  then have "store_wf S (sp_delete_all_proc_convos S pid (sio_world st))"
    using assms(2) by (simp add: sio_wf_def store_wf_def) (metis option.distinct(1))
  with del assms show ?thesis by (simp add: io_delete_all_proc_convos_def wf_world)
qed

lemma close_wf:
  assumes "sio_storage M = Some S" and "wf st"
  shows "wf (snd (close_conversation M k st))"
proof (cases "tget (convo_cache st) k")
  case (Some c)
  with assms(2) have "filed k c" by (simp add: sio_wf_def)
  then have f: "filed k (c\<lparr>co_state := ''CLOSED''\<rparr>)" by (auto simp: filed_def convo_ok_def)
  from persist_wf [OF assms f] f Some show ?thesis
    by (auto simp: close_conversation_def Let_def sio_wf_def)
next
  case None
  obtain c where ld: "load_conversation_from_disk_unlocked M k (sio_world st) = (Inr c, sio_world st)"
    and c: "c = new_convo \<or> filed k c"
    using load_ok [OF assms(1), of "sio_world st" k] assms(2) by (auto simp: sio_wf_def)
  have "wf (st\<lparr>sio_world := snd (persist_conversation M (c\<lparr>co_state := ''CLOSED''\<rparr>) (sio_world st))\<rparr>)"
    if "co_convo_id c \<noteq> []"
    using that c by (intro persist_wf [OF assms, of k]) (auto simp: new_convo_def filed_def convo_ok_def)
  with None ld assms(2) show ?thesis by (simp add: close_conversation_def)
qed

lemma find_wf: "wf st \<Longrightarrow> wf (snd (find_convo_for_user M uid st))"
  using wf_dirs by (auto simp: find_convo_for_user_def io_user_convo_path_def Let_def)

lemma build_fetch_filed:
  assumes "sio_storage M = Some S" and "wf st"
  shows "snd (build_fetch M job st) = st" "fst (build_fetch M job st) = Inr c \<Longrightarrow> filed (bj_convo_id job) c"
  using fetch_ok [OF assms, of "bj_convo_id job"]
  by (auto simp: build_fetch_def new_convo_def split: if_splits)

lemma build_commit_wf:
  assumes "sio_storage M = Some S" and "wf st" and "time_ok now" and "filed (bj_convo_id job) c"
  shows "wf (snd (build_commit M now job c st))"
  using assms store_anyway_wf [OF assms(1,2)] update_convo_filed
  by (auto simp: build_commit_def split: sum.splits)

lemma resolve_process_ok:
  assumes "sio_storage M = Some S" and "wf st" and "time_ok now" and "0 < pid" and "pid \<le> INT_MAX"
  shows "wf (snd (resolve_process_convo M now r pid k st))"
    and "fst (resolve_process_convo M now r pid k st) = Inr c \<Longrightarrow>
           filed (co_convo_id c) c \<and> co_creator_pid c = pid \<and> (k = [] \<or> co_convo_id c = k)"
proof -
  obtain d st' where g: "io_get_conversation M k st = (Inr d, st')" "wf st'" "d = new_convo \<or> filed k d"
    using get_conversation_ok [OF assms(1,2)] by blast
  let ?f = "fresh_process_convo now pid r"
  have f: "filed (co_convo_id ?f) ?f" by (rule fresh_process_filed [OF assms(4,5,3)])
  have "wf (st\<lparr>sio_world := snd (persist_conversation M ?f (sio_world st))\<rparr>)"
    by (rule persist_wf [OF assms(1,2) f])
  then show "wf (snd (resolve_process_convo M now r pid k st))"
    using g by (simp add: resolve_process_convo_def Let_def)
  show "fst (resolve_process_convo M now r pid k st) = Inr c \<Longrightarrow>
      filed (co_convo_id c) c \<and> co_creator_pid c = pid \<and> (k = [] \<or> co_convo_id c = k)"
    using g f filed_id
    by (auto simp: resolve_process_convo_def Let_def fresh_process_convo_def split: if_splits)
qed

lemma normalize_conversation_ok:
  assumes "sio_storage M = Some S" and "wf st" and "time_ok now"
    and norm: "normalize_conversation M now r req st = (u, st')"
  shows "wf st' \<and> (\<forall>upds. u = Inr upds \<longrightarrow>
       (\<exists>pid k c. conversation_args req = Inr (pid, k) \<and> filed (co_convo_id c) c \<and> co_creator_pid c = pid
         \<and> upds = [(''convo_id'', JString (co_convo_id c)), (''user_id'', JString [])]
         \<and> tget (convo_cache st') (co_convo_id c) = Some c \<and> (k = [] \<or> k = co_convo_id c)))"
proof (cases "conversation_args req")
  case (Inl e)
  with norm assms(2) show ?thesis by (auto simp: normalize_conversation_def)
next
  case (Inr x)
  obtain p k where x: "x = (p, k)" by (cases x)
  then have p: "0 < p" "p \<le> INT_MAX" using Inr jvalue_int_range by (auto simp: conversation_args_Inr)
  obtain v st1 where res: "resolve_process_convo M now r p k st = (v, st1)" by (rule prod.exhaust)
  have wf1: "wf st1" using resolve_process_ok(1) [OF assms(1-3) p, of r k] res by simp
  have v: "filed (co_convo_id c) c \<and> co_creator_pid c = p \<and> (k = [] \<or> co_convo_id c = k)" if "v = Inr c" for c
    using resolve_process_ok(2) [OF assms(1-3) p, of r k c] res that by simp
  show ?thesis
  proof (cases v)
    case (Inl e)
    then show ?thesis using norm Inr x res wf1 by (auto simp: normalize_conversation_def)
  next
    case r: (Inr c)
    show ?thesis
      using norm Inr x res wf1 v [OF r] wf_put [OF wf1] r
      by (auto simp: normalize_conversation_def split: if_splits)
  qed
qed

lemma normalize_user_wf:
  assumes "sio_storage M = Some S" "sio_storage_path M = storage_path" and "wf st" and "time_ok now"
  shows "wf (snd (normalize_user_conversation M now req st))"
proof (cases "user_conversation_args req")
  case (Inl e)
  then show ?thesis using assms(3) by (simp add: normalize_user_conversation_def)
next
  case (Inr y)
  obtain a b where y: "y = (a, b)" by (cases y)
  with Inr have "is_session_id b" using user_args_session by simp
  then obtain c st' where g: "get_or_create_user_convo_unlocked M now b st = (Inr c, st')" "wf st'" "filed b c"
    using get_or_create_ok [OF assms] by blast
  from g(3) have "co_convo_id c = b" using filed_id by blast
  with g wf_put show ?thesis by (simp add: normalize_user_conversation_def Inr y)
qed

lemma normalize_wf:
  assumes "sio_storage M = Some S" "sio_storage_path M = storage_path" and "wf st" and "time_ok now"
  shows "wf (snd (normalize_llm_request M rd menu cfg now r req st))"
proof (cases "jvalue as_string req ''mode'' []")
  case (Inl e)
  then show ?thesis using assms(3) by (simp add: normalize_llm_request_def)
next
  case (Inr mode)
  obtain u v where c: "normalize_conversation M now r req st = (u, v)" by (rule prod.exhaust)
  obtain u' v' where c': "normalize_user_conversation M now req st = (u', v')" by (rule prod.exhaust)
  have "wf v" using normalize_conversation_ok [OF assms(1,3,4) c] by simp
  moreover have "wf v'" using normalize_user_wf [OF assms, of req] c' by simp
  ultimately show ?thesis
    using assms(3) Inr by (simp add: normalize_llm_request_def c c' split: sum.split)
qed

end

section \<open>The JSON back end keeps the laws\<close>

text \<open>Every file lies in a chain of directories.\<close>

definition parents_ok :: "fsys \<Rightarrow> bool" where
  "parents_ok fs \<longleftrightarrow>
     (\<forall>p c. tget (fs_files fs) p = Some c \<longrightarrow> p \<noteq> [] \<and> (\<forall>d. prefix d (butlast p) \<longrightarrow> d \<in> set (fs_dirs fs)))"

lemma tget_filter_key: "tget (filter (\<lambda>(k, _). P k) m) k = (if P k then tget m k else None)"
  by (induction m) auto

lemma parents_ok_sub:
  "parents_ok fs \<Longrightarrow> set (fs_dirs fs) \<subseteq> set (fs_dirs fs') \<Longrightarrow>
     (\<And>p c. tget (fs_files fs') p = Some c \<Longrightarrow> \<exists>c'. tget (fs_files fs) p = Some c') \<Longrightarrow> parents_ok fs'"
  unfolding parents_ok_def by blast

lemma parents_ok_dirs:
  "parents_ok fs \<Longrightarrow> fs_files fs' = fs_files fs \<Longrightarrow> set (fs_dirs fs) \<subseteq> set (fs_dirs fs') \<Longrightarrow> parents_ok fs'"
  by (rule parents_ok_sub) auto

lemma create_directories_keep:
  assumes "create_directories p fs = Inr fs'" and "parents_ok fs"
  shows "parents_ok fs' \<and> fs_files fs' = fs_files fs \<and> (\<forall>d. prefix d p \<longrightarrow> d \<in> set (fs_dirs fs'))"
  using create_directories_files [OF assms(1)] create_directories_dirs [OF assms(1)] parents_ok_dirs [OF assms(2)]
  by auto

lemma write_file_keep:
  assumes "write_file p j fs = (b, fs')" and "parents_ok fs" and "\<forall>d. prefix d (butlast p) \<longrightarrow> d \<in> set (fs_dirs fs)"
  shows "parents_ok fs' \<and> (\<not> b \<longrightarrow> fs_files fs' = fs_files fs)"
proof (cases "fs' = fs")
  case False
  with assms(1) have "b" "p \<noteq> []" "fs' = fs\<lparr>fs_files := tput p (Some j) (fs_files fs)\<rparr>"
    by (auto simp: write_file_def split: if_splits)
  with assms(2,3) show ?thesis by (simp add: parents_ok_def)
qed (use assms in simp)

lemma upsert_keep:
  assumes "upsert_conversation root_dir j fs = (b, fs')" and "parents_ok fs"
  shows "parents_ok fs' \<and> (\<not> b \<longrightarrow> fs_files fs' = fs_files fs)"
proof -
  have step: "parents_ok fs' \<and> (\<not> b \<longrightarrow> fs_files fs' = fs_files fs)"
    if "create_directories (butlast p) fs = Inr fs1" "write_file p j fs1 = (b, fs')" for p fs1
    using create_directories_keep [OF that(1) assms(2)] write_file_keep [OF that(2)] by auto
  show ?thesis
    using assms step
    by (auto simp: upsert_conversation_def Let_def rbind_Inr_conv split: sum.splits if_splits)
qed

lemma get_conversation_files:
  "fs_files fs' = fs_files fs \<Longrightarrow> get_conversation root_dir k fs' = get_conversation root_dir k fs"
  unfolding get_conversation_file by (erule ssubst) (rule refl)

lemma json_upsert_law:
  assumes "parents_ok fs" and "filed k c" and up: "upsert_conversation root_dir (convo_json c) fs = (b, fs')"
  shows "parents_ok fs'
     \<and> get_conversation root_dir k fs' = (if b then Some (convo_json c) else get_conversation root_dir k fs)
     \<and> (\<forall>k'. k' \<noteq> k \<longrightarrow> get_conversation root_dir k' fs' = get_conversation root_dir k' fs)"
proof (cases b)
  case False
  then have "parents_ok fs'" and "fs_files fs' = fs_files fs" using upsert_keep [OF up assms(1)] by auto
  with False show ?thesis using get_conversation_files [of fs' fs] by simp
next
  case True
  have c: "co_convo_id c = k" "- 2147483648 \<le> co_creator_pid c" "co_creator_pid c \<le> INT_MAX"
    and key: "keyed k (co_creator_pid c)"
    using assms(2) by (auto simp: filed_def convo_ok_def)
  have id: "jget (convo_json c) ''convo_id'' = Some (JString k)" by (simp add: jget_convo_json c)
  have pid: "jvalue as_int (convo_json c) ''creator_pid'' (-1) = Inr (co_creator_pid c)"
    using c by (simp add: jvalue_object jget_convo_json to_int32_id)
  have form: "co_creator_pid c \<le> 0 \<and> is_session_id k
       \<or> (\<exists>n r. co_creator_pid c = int n \<and> 0 < n \<and> k = process_convo_id n r)"
  proof (cases "co_creator_pid c = -1")
    case False
    with key obtain r where "0 < co_creator_pid c" "k = process_convo_id (nat (co_creator_pid c)) r"
      by (auto simp: keyed_def)
    then show ?thesis
      by (intro disjI2 exI [of _ "nat (co_creator_pid c)"] exI [of _ r]) simp
  qed (use key in \<open>auto simp: keyed_def\<close>)
  have "upsert_conversation root_dir (convo_json c) fs = (True, fs')" using up True by simp
  from upsert_then_get [OF this id pid form] upsert_keep [OF up assms(1)] True show ?thesis by simp
qed

text \<open>Removing a file, or a directory without entries, leaves every file in its chain.\<close>

lemma empty_dir_no_prefix:
  assumes "parents_ok fs" and "tget (fs_files fs) q \<noteq> None" and "dir_children fs p = []"
  shows "\<not> prefix p (butlast q)"
proof
  assume pre: "prefix p (butlast q)"
  have q: "q \<noteq> []" "\<And>d. prefix d (butlast q) \<Longrightarrow> d \<in> set (fs_dirs fs)"
    using assms(1,2) by (auto simp: parents_ok_def)
  have "\<exists>d. d \<noteq> [] \<and> butlast d = p \<and> d \<in> set (fs_dirs fs @ tkeys (fs_files fs))"
  proof (cases "p = butlast q")
    case True
    moreover have "q \<in> set (tkeys (fs_files fs))"
      unfolding set_tkeys using assms(2) by blast
    ultimately show ?thesis using q(1) by (intro exI [of _ q]) simp
  next
    case False
    with pre obtain x r where "butlast q = p @ x # r"
      by (metis append_Nil2 list.exhaust prefix_def)
    then have "prefix (p @ [x]) (butlast q)" by simp
    with q(2) show ?thesis by (intro exI [of _ "p @ [x]"]) auto
  qed
  with assms(3) show False by (auto simp: dir_children_def filter_empty_conv)
qed

lemma remove_keep:
  assumes "fs_remove p fs = Inr fs'" and "parents_ok fs"
  shows "parents_ok fs' \<and> (\<forall>q. tget (fs_files fs') q = tget (fs_files fs) q \<or> q = p \<and> tget (fs_files fs') q = None)"
proof (cases "tget (fs_files fs) p = None")
  case False
  with assms(1) have fs': "fs' = fs\<lparr>fs_files := tdel p (fs_files fs)\<rparr>" by (simp add: fs_remove_def)
  have "parents_ok fs'" by (rule parents_ok_sub [OF assms(2)]) (auto simp: fs' split: if_splits)
  then show ?thesis by (simp add: fs')
next
  case True
  show ?thesis
  proof (cases "p \<in> set (fs_dirs fs)")
    case notdir: False
    then have "removeAll p (fs_dirs fs) = fs_dirs fs" by (induction "fs_dirs fs") auto
    with True notdir assms show ?thesis by (auto simp: fs_remove_def)
  next
    case isdir: True
    with True assms(1) have e: "dir_children fs p = []" and fs': "fs' = fs\<lparr>fs_dirs := uerase p (fs_dirs fs)\<rparr>"
      by (auto simp: fs_remove_def split: if_splits)
    have "\<not> prefix p (butlast q)" if "tget (fs_files fs) q = Some c" for q c
      using empty_dir_no_prefix [OF assms(2) _ e] that by simp
    with assms(2) show ?thesis by (auto simp: fs' parents_ok_def)
  qed
qed

lemma json_delete_law:
  assumes "parents_ok fs" and del: "delete_conversation root_dir cid hint fs = (b, fs')"
  shows "parents_ok fs' \<and> (\<forall>k. get_conversation root_dir k fs' = get_conversation root_dir k fs
                               \<or> k = cid \<and> get_conversation root_dir k fs' = None)"
proof (cases "fs' = fs")
  case False
  define p where "p = infer_convo_path root_dir cid hint"
  from False del have p: "p \<noteq> []" and rem: "fs_remove p fs = Inr fs'"
    by (auto simp: delete_conversation_def p_def Let_def split: if_splits sum.splits)
  have same: "k = cid" if "infer_convo_path root_dir k (-1) = p" for k
    using infer_convo_path_last [of root_dir k "-1"] infer_convo_path_last [of root_dir cid hint] that p
    by (simp add: p_def)
  have "get_conversation root_dir k fs' = get_conversation root_dir k fs
      \<or> k = cid \<and> get_conversation root_dir k fs' = None" for k
  proof (cases "infer_convo_path root_dir k (-1) = p")
    case True
    have eq: "get_conversation root_dir k f = (case tget (fs_files f) p of None \<Rightarrow> None | Some c \<Rightarrow> c)" for f
      unfolding get_conversation_file True Let_def using p by simp
    have "tget (fs_files fs') p = tget (fs_files fs) p \<or> p = p \<and> tget (fs_files fs') p = None"
      using remove_keep [OF rem assms(1), THEN conjunct2] by (rule spec)
    then have "tget (fs_files fs') p = tget (fs_files fs) p \<or> tget (fs_files fs') p = None" by (simp only: simp_thms)
    then show ?thesis
    proof
      assume "tget (fs_files fs') p = tget (fs_files fs) p"
      then show ?thesis unfolding eq by (simp only: refl simp_thms)
    next
      assume "tget (fs_files fs') p = None"
      then show ?thesis unfolding eq using same [OF True] by simp
    qed
  next
    case False
    then have "tget (fs_files fs') (infer_convo_path root_dir k (-1)) = tget (fs_files fs) (infer_convo_path root_dir k (-1))"
      using remove_keep [OF rem assms(1)] by blast
    then show ?thesis by (simp add: get_conversation_file Let_def)
  qed
  then show ?thesis using remove_keep [OF rem assms(1)] by blast
qed (use assms in simp)

lemma to_string_int_inj: "0 < p \<Longrightarrow> to_string_int p = to_string_int q \<Longrightarrow> p = q"
  using hd_nat_digits [of "nat p"] isdigit_not_sign
  by (auto simp: to_string_int_def nat_digits_inj split: if_splits)

lemma pid_dir_prefix:
  assumes "keyed k p"
  shows "prefix (root_dir @ [''procs'', to_string_int pid]) (infer_convo_path root_dir k (-1))
     \<longleftrightarrow> p = pid \<and> 0 < pid"
proof (cases "p = -1")
  case True
  with assms have "is_session_id k" by (auto simp: keyed_def)
  then show ?thesis using True by (auto simp: infer_convo_path_def user_convo_path_def)
next
  case False
  with assms obtain r where p: "0 < p" "p \<le> INT_MAX" and k: "k = process_convo_id (nat p) r"
    by (auto simp: keyed_def)
  then have "infer_convo_path root_dir k (-1) = process_convo_path root_dir p k"
    using infer_process_convo_path [of "nat p" root_dir r] by simp
  then show ?thesis
    using p to_string_int_inj [of p pid] by (auto simp: process_convo_path_def)
qed

lemma json_delete_all_law:
  assumes "parents_ok fs" and "fs' = delete_all_proc_convos root_dir pid fs"
  shows "parents_ok fs'
     \<and> (\<forall>k. get_conversation root_dir k fs' = get_conversation root_dir k fs \<or> get_conversation root_dir k fs' = None)
     \<and> (\<forall>k p. keyed k p \<longrightarrow>
          get_conversation root_dir k fs' = (if p = pid \<and> 0 < pid then None else get_conversation root_dir k fs))"
proof -
  define d where "d = root_dir @ [''procs'', to_string_int pid]"
  have files: "tget (fs_files fs') q = (if prefix d q then None else tget (fs_files fs) q)"
    if "q \<noteq> d" for q
  proof (cases "fs_exists fs d")
    case True
    then show ?thesis
      using assms(2) by (simp add: delete_all_proc_convos_def d_def [symmetric] Let_def remove_all_def tget_filter_key)
  next
    case False
    have "tget (fs_files fs) q = None" if "prefix d q"
    proof (rule ccontr)
      assume "tget (fs_files fs) q \<noteq> None"
      moreover have "prefix d (butlast q)" using that \<open>q \<noteq> d\<close>
        by (metis append_butlast_last_id prefix_snoc butlast.simps(1))
      ultimately have "d \<in> set (fs_dirs fs)" using assms(1) by (auto simp: parents_ok_def)
      with False show False by (simp add: fs_exists_def)
    qed
    with False show ?thesis
      using assms(2) by (simp add: delete_all_proc_convos_def d_def [symmetric] Let_def)
  qed
  have nd: "infer_convo_path root_dir k (-1) \<noteq> d" for k
    by (auto simp: infer_convo_path_def user_convo_path_def process_convo_path_def d_def Let_def
        split: option.splits sum.splits)
  have get: "get_conversation root_dir k fs' =
      (if prefix d (infer_convo_path root_dir k (-1)) then None else get_conversation root_dir k fs)" for k
    using files [OF nd [of k]] by (simp add: get_conversation_file Let_def)
  have "parents_ok fs'"
    unfolding parents_ok_def
  proof (intro allI impI)
    fix q c
    assume q: "tget (fs_files fs') q = Some c"
    have old: "\<exists>c'. tget (fs_files fs) q = Some c'" and np: "fs_exists fs d \<Longrightarrow> \<not> prefix d q"
      using q assms(2) by (auto simp: delete_all_proc_convos_def d_def [symmetric] Let_def remove_all_def tget_filter_key
          split: if_splits)
    have "x \<in> set (fs_dirs fs')" if x: "prefix x (butlast q)" for x
    proof -
      have "x \<in> set (fs_dirs fs)" using old x assms(1) by (auto simp: parents_ok_def)
      moreover have "fs_exists fs d \<Longrightarrow> \<not> prefix d x"
        using np x by (meson prefix_order.trans prefixeq_butlast)
      ultimately show ?thesis
        using assms(2) by (simp add: delete_all_proc_convos_def d_def [symmetric] Let_def remove_all_def)
    qed
    with old assms(1) show "q \<noteq> [] \<and> (\<forall>x. prefix x (butlast q) \<longrightarrow> x \<in> set (fs_dirs fs'))"
      by (auto simp: parents_ok_def)
  qed
  moreover have "prefix d (infer_convo_path root_dir k (-1)) \<longleftrightarrow> p = pid \<and> 0 < pid" if "keyed k p" for k p
    using pid_dir_prefix [OF that] by (simp add: d_def)
  ultimately show ?thesis using get by simp
qed

lemma make_dirs_keep:
  "parents_ok fs \<Longrightarrow> parents_ok (make_dirs p fs) \<and> fs_files (make_dirs p fs) = fs_files fs"
  using create_directories_keep by (auto simp: make_dirs_def split: sum.splits)

interpretation json_convos: convo_store "json_provider root_dir" root_dir "\<lambda>w. parents_ok (fst w)"
proof
  fix w k c b w'
  assume "parents_ok (fst w)" "filed k c"
    "sp_upsert_conversation (json_provider root_dir) (convo_json c) w = (b, w')"
  then show "parents_ok (fst w') \<and>
      sp_get_conversation (json_provider root_dir) k w' =
        (if b then Some (convo_json c) else sp_get_conversation (json_provider root_dir) k w)
      \<and> (\<forall>k'. k' \<noteq> k \<longrightarrow> sp_get_conversation (json_provider root_dir) k' w' = sp_get_conversation (json_provider root_dir) k' w)"
    using json_upsert_law [of "fst w" k c root_dir b "fst w'"]
    by (auto simp: json_provider_def on_fs_def split: prod.splits)
next
  fix w cid hint b w'
  assume "parents_ok (fst w)" "sp_delete_conversation (json_provider root_dir) cid hint w = (b, w')"
  then show "parents_ok (fst w') \<and>
      (\<forall>k. sp_get_conversation (json_provider root_dir) k w' = sp_get_conversation (json_provider root_dir) k w
         \<or> k = cid \<and> sp_get_conversation (json_provider root_dir) k w' = None)"
    using json_delete_law [of "fst w" root_dir cid hint b "fst w'"]
    by (auto simp: json_provider_def on_fs_def split: prod.splits)
next
  fix w w' pid
  assume "parents_ok (fst w)" "w' = sp_delete_all_proc_convos (json_provider root_dir) pid w"
  then show "parents_ok (fst w') \<and>
      (\<forall>k. sp_get_conversation (json_provider root_dir) k w' = sp_get_conversation (json_provider root_dir) k w
         \<or> sp_get_conversation (json_provider root_dir) k w' = None)
      \<and> (\<forall>k p. keyed k p \<longrightarrow> sp_get_conversation (json_provider root_dir) k w' =
           (if p = pid \<and> 0 < pid then None else sp_get_conversation (json_provider root_dir) k w))"
    using json_delete_all_law [of "fst w" "fst w'" root_dir pid] by (simp add: json_provider_def)
next
  fix w p k
  assume "parents_ok (fst w)"
  then show "parents_ok (fst (make_dirs p (fst w), snd w)) \<and>
      sp_get_conversation (json_provider root_dir) k (make_dirs p (fst w), snd w) =
        sp_get_conversation (json_provider root_dir) k w"
    using make_dirs_keep [of "fst w" p] get_conversation_files [of "make_dirs p (fst w)" "fst w"]
    by (simp add: json_provider_def)
next
  fix w sid j
  assume "is_session_id sid"
    "tget (fs_files (fst w)) (fst (io_user_convo_path root_dir sid (fst w))) = Some (Some j)"
  then show "sp_get_conversation (json_provider root_dir) sid w = Some j"
    by (simp add: json_provider_def get_conversation_file io_user_convo_path_def Let_def infer_convo_path_def
        user_convo_path_def)
qed

section \<open>Interleavings\<close>

record 'd store_sys =
  sy_sio :: "'d sio"
  sy_jobs :: "(build_job \<times> convo) list"
  sy_deletes :: "int list"

text \<open>The operations that run as a whole under \<open>convo_mutex_\<close>. \<open>op_persist\<close> is the call with which
  compaction hands a conversation to the store.\<close>

inductive sio_op :: "'d session_io \<Rightarrow> 'd sio \<Rightarrow> 'd sio \<Rightarrow> bool" for M :: "'d session_io" where
  op_user: "time_ok now \<Longrightarrow> sio_op M st (snd (get_or_create_user_convo M now uid st))"
| op_process: "time_ok now \<Longrightarrow> pid \<le> INT_MAX \<Longrightarrow> sio_op M st (snd (create_process_convo M now r pid st))"
| op_get: "sio_op M st (snd (io_get_conversation M k st))"
| op_invalidate: "sio_op M st (invalidate_conversation_cache k st)"
| op_append: "time_ok now \<Longrightarrow> sio_op M st (snd (append_message M now k role content toks extra st))"
| op_response: "time_ok now \<Longrightarrow> sio_op M st (snd (persist_assistant_response M now req txt toks st))"
| op_tool_call: "time_ok now \<Longrightarrow> sio_op M st (snd (persist_assistant_tool_call M now req txt calls toks st))"
| op_persist: "filed k c \<Longrightarrow> sio_op M st (st\<lparr>sio_world := snd (persist_conversation M c (sio_world st))\<rparr>)"
| op_delete: "sio_op M st (snd (io_delete_conversation M k pid st))"
| op_close: "sio_op M st (snd (close_conversation M k st))"
| op_find: "sio_op M st (snd (find_convo_for_user M uid st))"
| op_normalize: "time_ok now \<Longrightarrow> sio_op M st (snd (normalize_llm_request M rd menu cfg now r req st))"

inductive sio_step :: "'d session_io \<Rightarrow> 'd store_sys \<Rightarrow> 'd store_sys \<Rightarrow> bool" for M :: "'d session_io" where
  step_op: "sio_op M (sy_sio s) st \<Longrightarrow> sio_step M s (s\<lparr>sy_sio := st\<rparr>)"
| step_fetch: "build_fetch M job (sy_sio s) = (Inr c, st) \<Longrightarrow>
    sio_step M s (s\<lparr>sy_sio := st, sy_jobs := (job, c) # sy_jobs s\<rparr>)"
| step_commit: "time_ok now \<Longrightarrow> (job, c) \<in> set (sy_jobs s) \<Longrightarrow>
    sio_step M s (s\<lparr>sy_sio := snd (build_commit M now job c (sy_sio s)), sy_jobs := remove1 (job, c) (sy_jobs s)\<rparr>)"
| step_evict: "sio_step M s (s\<lparr>sy_sio := evict_pid pid (sy_sio s), sy_deletes := pid # sy_deletes s\<rparr>)"
| step_sweep: "pid \<in> set (sy_deletes s) \<Longrightarrow>
    sio_step M s (s\<lparr>sy_sio := (sy_sio s)\<lparr>sio_world := io_delete_all_proc_convos M pid (sio_world (sy_sio s))\<rparr>,
                    sy_deletes := remove1 pid (sy_deletes s)\<rparr>)"

definition sys_init :: "'d istorage \<Rightarrow> ('d world \<Rightarrow> bool) \<Rightarrow> 'd store_sys \<Rightarrow> bool" where
  "sys_init S ready s \<longleftrightarrow>
     convo_cache (sy_sio s) = [] \<and> sy_jobs s = [] \<and> sy_deletes s = []
     \<and> ready (sio_world (sy_sio s)) \<and> store_wf S (sio_world (sy_sio s))"

definition sys_inv :: "'d istorage \<Rightarrow> ('d world \<Rightarrow> bool) \<Rightarrow> 'd store_sys \<Rightarrow> bool" where
  "sys_inv S ready s \<longleftrightarrow>
     sio_wf S ready (sy_sio s) \<and> table_ok (convo_cache (sy_sio s))
     \<and> (\<forall>job c. (job, c) \<in> set (sy_jobs s) \<longrightarrow> filed (bj_convo_id job) c)"

lemma store_cache_ok:
  "table_ok (convo_cache st) \<Longrightarrow> table_ok (convo_cache (snd (store M k c st)))"
  "table_ok (convo_cache st) \<Longrightarrow> table_ok (convo_cache (store_anyway M k c st))"
  by (auto simp: store_def store_anyway_def split: prod.splits bool.splits)

lemma store_result_ok: "store M k c st = (b, st') \<Longrightarrow> table_ok (convo_cache st) \<Longrightarrow> table_ok (convo_cache st')"
  using store_cache_ok(1) [of st M k c] by simp

lemma fetch_cache: "fetch M k st = (u, st') \<Longrightarrow> convo_cache st' = convo_cache st"
  by (auto simp: fetch_def split: option.splits prod.splits)

lemma append_cache_ok:
  "table_ok (convo_cache st) \<Longrightarrow> table_ok (convo_cache (snd (append_message M now k role content toks extra st)))"
  by (auto simp: append_message_def split: sum.splits option.splits prod.splits
      dest!: fetch_cache intro: store_result_ok)

lemma get_or_create_cache_ok:
  "get_or_create_user_convo_unlocked M now uid st = (u, st') \<Longrightarrow> table_ok (convo_cache st) \<Longrightarrow> table_ok (convo_cache st')"
  by (auto simp: get_or_create_user_convo_unlocked_def Let_def store_cache_ok
      split: if_splits sum.splits option.splits prod.splits)

lemma get_cache_ok:
  "io_get_conversation M k st = (u, st') \<Longrightarrow> table_ok (convo_cache st) \<Longrightarrow> table_ok (convo_cache st')"
  by (auto simp: io_get_conversation_def split: if_splits sum.splits option.splits prod.splits dest!: fetch_cache)

lemma resolve_cache_ok:
  "resolve_process_convo M now r pid k st = (u, st') \<Longrightarrow> table_ok (convo_cache st) \<Longrightarrow> table_ok (convo_cache st')"
  by (auto simp: resolve_process_convo_def Let_def split: if_splits sum.splits option.splits prod.splits
      dest!: get_cache_ok)

lemma normalize_parts_ok:
  "normalize_conversation M now r req st = (u, st') \<Longrightarrow> table_ok (convo_cache st) \<Longrightarrow> table_ok (convo_cache st')"
  "normalize_user_conversation M now req st = (u, st') \<Longrightarrow> table_ok (convo_cache st) \<Longrightarrow> table_ok (convo_cache st')"
  by (auto simp: normalize_conversation_def normalize_user_conversation_def
      split: if_splits sum.splits prod.splits dest: resolve_cache_ok get_or_create_cache_ok)

lemma normalize_cache_ok:
  "table_ok (convo_cache st) \<Longrightarrow> table_ok (convo_cache (snd (normalize_llm_request M rd menu cfg now r req st)))"
proof -
  assume ok: "table_ok (convo_cache st)"
  obtain u v where c: "normalize_conversation M now r req st = (u, v)" by (rule prod.exhaust)
  obtain u' v' where c': "normalize_user_conversation M now req st = (u', v')" by (rule prod.exhaust)
  show ?thesis
    using ok normalize_parts_ok(1) [OF c ok] normalize_parts_ok(2) [OF c' ok]
    by (simp add: normalize_llm_request_def c c' split: sum.split)
qed

lemma sio_op_cache_ok: "sio_op M st st' \<Longrightarrow> table_ok (convo_cache st) \<Longrightarrow> table_ok (convo_cache st')"
proof (induction rule: sio_op.induct)
  case (op_user now st uid)
  then show ?case
    by (simp add: get_or_create_user_convo_def get_or_create_cache_ok [OF prod.collapse [symmetric]])
next
  case (op_get st k)
  then show ?case by (rule get_cache_ok [OF prod.collapse [symmetric]])
next
  case (op_response now st req ans toks)
  then show ?case
    by (auto simp: append_cache_ok persist_assistant_response_def split: sum.splits)
next
  case (op_tool_call now st req ans calls toks)
  then show ?case
    by (auto simp: append_cache_ok persist_assistant_tool_call_def split: sum.splits)
next
  case (op_delete st k pid)
  then show ?case by (auto simp: io_delete_conversation_def Let_def split: prod.splits)
next
  case (op_close st k)
  then show ?case
    by (auto simp: close_conversation_def Let_def split: option.splits sum.splits prod.splits)
next
  case (op_find st uid)
  then show ?case by (auto simp: find_convo_for_user_def Let_def split: prod.splits)
qed (auto simp: create_process_convo_def Let_def store_cache_ok invalidate_conversation_cache_def
    append_cache_ok normalize_cache_ok)

context convo_store
begin

lemma sio_op_wf:
  assumes "sio_op M st st'" and M: "sio_storage M = Some S" "sio_storage_path M = storage_path" and "wf st"
  shows "wf st'"
  using assms(1,4)
proof (induction rule: sio_op.induct)
  case (op_get st k)
  then show ?case using get_conversation_ok [OF M(1), of st k] by auto
qed (auto simp: get_or_create_wf [OF M] create_process_wf [OF M(1)] invalidate_wf append_message_wf [OF M(1)]
    assistant_wf [OF M(1)] persist_wf [OF M(1)] delete_conversation_wf [OF M(1)] close_wf [OF M(1)] find_wf
    normalize_wf [OF M])

lemma evict_wf: "wf st \<Longrightarrow> table_ok (convo_cache st) \<Longrightarrow> wf (evict_pid pid st)"
  by (auto simp: sio_wf_def evict_pid_def tget_filter split: option.splits if_splits)

lemma sys_step_inv:
  assumes "sio_step M s t" and M: "sio_storage M = Some S" "sio_storage_path M = storage_path"
    and inv: "sys_inv S ready s"
  shows "sys_inv S ready t"
  using assms(1) inv
proof (induction rule: sio_step.induct)
  case (step_op s st)
  then show ?case using sio_op_wf [OF _ M] sio_op_cache_ok by (auto simp: sys_inv_def)
next
  case (step_fetch job s c st)
  then have w: "wf (sy_sio s)" by (simp add: sys_inv_def)
  from build_fetch_filed [OF M(1) w, of job] step_fetch show ?case by (auto simp: sys_inv_def)
next
  case (step_commit now job c s)
  then have w: "wf (sy_sio s)" and f: "filed (bj_convo_id job) c" by (auto simp: sys_inv_def)
  have "table_ok (convo_cache (snd (build_commit M now job c (sy_sio s))))"
    using step_commit.prems store_cache_ok(2) by (auto simp: sys_inv_def build_commit_def split: sum.splits)
  with build_commit_wf [OF M(1) w step_commit.hyps(1) f] step_commit.prems show ?case
    using set_remove1_subset by (fastforce simp: sys_inv_def)
next
  case (step_evict s pid)
  then have "table_ok (convo_cache (evict_pid pid (sy_sio s)))" by (simp add: sys_inv_def evict_pid_def)
  with step_evict evict_wf show ?case by (auto simp: sys_inv_def)
next
  case (step_sweep pid s)
  then show ?case using delete_all_wf [OF M(1)] by (auto simp: sys_inv_def)
qed

end

section \<open>The store over the JSON back end\<close>

text \<open>\<open>SessionIO(storage_path)\<close>: the JSON back end at the same place.\<close>

definition json_sio :: "path \<Rightarrow> 'd session_io" where
  "json_sio root_dir = \<lparr>sio_storage_path = root_dir, sio_storage = Some (json_provider root_dir)\<rparr>"

abbreviation json_ok :: "'d world \<Rightarrow> bool" where
  "json_ok w \<equiv> parents_ok (fst w)"

lemma json_sio_simps [simp]:
  "sio_storage (json_sio root_dir) = Some (json_provider root_dir)"
  "sio_storage_path (json_sio root_dir) = root_dir"
  by (simp_all add: json_sio_def)

interpretation json_sys: inductive_invariant
    "sys_init (json_provider root_dir) json_ok" "sio_step (json_sio root_dir)"
    "sys_inv (json_provider root_dir) json_ok"
proof
  show "sys_inv (json_provider root_dir) json_ok s" if "sys_init (json_provider root_dir) json_ok s" for s
    using that by (simp add: sys_init_def sys_inv_def sio_wf_def)
  show "sys_inv (json_provider root_dir) json_ok t"
    if "sys_inv (json_provider root_dir) json_ok s" "sio_step (json_sio root_dir) s t" for s t
    using json_convos.sys_step_inv [OF that(2) _ _ that(1)] by simp
qed

text \<open>C27: Conversations stay where they belong. In every state that any interleaving of the store's
  operations reaches, including messages under construction between the two sections under the lock
  and deletions whose files are not yet removed, each cached conversation, each stored one and each
  copy held by a request is well formed (it is read back from the store as it was written), is kept
  under its own id, and is a user conversation under a session id or the conversation of a process
  under an id that names its creator.\<close>

theorem conversations_stay_owned:
  assumes "reach (sys_init (json_provider root_dir) json_ok) (sio_step (json_sio root_dir)) s"
  shows "(\<forall>k c. tget (convo_cache (sy_sio s)) k = Some c \<longrightarrow>
            convo_of_json (convo_json c) = Inr c \<and> co_convo_id c = k \<and> keyed k (co_creator_pid c))
     \<and> (\<forall>k j. get_conversation root_dir k (fst (sio_world (sy_sio s))) = Some j \<longrightarrow>
            (\<exists>c. j = convo_json c \<and> convo_of_json j = Inr c \<and> co_convo_id c = k \<and> keyed k (co_creator_pid c)))
     \<and> (\<forall>job c. (job, c) \<in> set (sy_jobs s) \<longrightarrow>
            co_convo_id c = bj_convo_id job \<and> keyed (bj_convo_id job) (co_creator_pid c))"
proof -
  have inv: "sys_inv (json_provider root_dir) json_ok s" by (rule json_sys.reach_inv [OF assms])
  have f: "convo_of_json (convo_json c) = Inr c \<and> co_convo_id c = k \<and> keyed k (co_creator_pid c)" if "filed k c" for k c
    using that convo_of_json_convo_json by (simp add: filed_def)
  have get: "sp_get_conversation (json_provider root_dir) k w = get_conversation root_dir k (fst w)" for k w
    by (simp add: json_provider_def)
  have "\<exists>c. j = convo_json c \<and> convo_of_json j = Inr c \<and> co_convo_id c = k \<and> keyed k (co_creator_pid c)"
    if g: "get_conversation root_dir k (fst (sio_world (sy_sio s))) = Some j" for k j
  proof -
    obtain c where "j = convo_json c" "filed k c"
      using inv g by (auto simp: sys_inv_def sio_wf_def store_wf_def get)
    with f [of k c] show ?thesis by auto
  qed
  moreover have "filed k c" if "tget (convo_cache (sy_sio s)) k = Some c" for k c
    using inv that by (simp add: sys_inv_def sio_wf_def)
  moreover have "filed (bj_convo_id job) c" if "(job, c) \<in> set (sy_jobs s)" for job c
    using inv that by (simp add: sys_inv_def)
  ultimately show ?thesis using f by blast
qed

text \<open>An empty store, a process that starts a conversation, and a request that has fetched it.\<close>

definition demo_sys :: "unit store_sys" where
  "demo_sys = \<lparr>sy_sio = \<lparr>convo_cache = [], sio_world = (demo_fs, ())\<rparr>, sy_jobs = [], sy_deletes = []\<rparr>"

definition demo_sys_process :: "unit store_sys" where
  "demo_sys_process = demo_sys\<lparr>sy_sio := snd (create_process_convo (json_sio demo_root) 7 123456 42 (sy_sio demo_sys))\<rparr>"

lemma demo_sys_reach:
  "reach (sys_init (json_provider demo_root) json_ok) (sio_step (json_sio demo_root)) demo_sys_process"
proof (rule reach_step)
  have "sys_init (json_provider demo_root) json_ok demo_sys"
    by (simp add: sys_init_def demo_sys_def parents_ok_def store_wf_def json_provider_def get_conversation_file
        demo_fs_def Let_def)
  then show "reach (sys_init (json_provider demo_root) json_ok) (sio_step (json_sio demo_root)) demo_sys"
    by (rule reach_init)
  show "sio_step (json_sio demo_root) demo_sys demo_sys_process"
    unfolding demo_sys_process_def by (intro step_op op_process) (simp_all add: time_ok_def)
qed

lemma demo_sys_cached:
  "tget (convo_cache (sy_sio demo_sys_process)) (process_convo_id 42 123456) = Some (fresh_process_convo 7 42 123456)"
  by (simp add: demo_sys_process_def create_process_convo_def store_anyway_def fresh_process_convo_def Let_def
      split: prod.split)

lemma conversations_stay_owned_witness:
  "tget (convo_cache (sy_sio demo_sys_process)) (process_convo_id 42 123456) = Some (fresh_process_convo 7 42 123456)
   \<and> keyed (process_convo_id 42 123456) 42"
proof -
  have "co_creator_pid (fresh_process_convo 7 42 123456) = 42" by (simp add: fresh_process_convo_def)
  then show ?thesis
    using conversations_stay_owned [OF demo_sys_reach, THEN conjunct1] demo_sys_cached by metis
qed

lemma oget_fold_oput:
  "oget (fold (\<lambda>(k, v). oput k v) kvs m) k = (case map_of (rev kvs) k of None \<Rightarrow> oget m k | Some v \<Rightarrow> Some v)"
  by (induction kvs arbitrary: m) (auto simp: map_add_def split: option.splits)

lemma normalize_private:
  assumes "sio_wf (json_provider root_dir) json_ok st" and "time_ok now"
    and "jvalue as_string req ''mode'' [] = Inr ''conversation''"
    and "normalize_llm_request (json_sio root_dir) rd menu cfg now r req st = (Inr answer, st')"
  shows "\<exists>pid k k' c. jvalue as_int req ''source_pid'' (-1) = Inr pid \<and> 0 < pid
     \<and> jvalue as_string req ''convo_id'' [] = Inr k' \<and> (k' = [] \<or> k' = k)
     \<and> jget answer ''convo_id'' = Some (JString k) \<and> (\<exists>n. k = process_convo_id (nat pid) n)
     \<and> tget (convo_cache st') k = Some c \<and> co_creator_pid c = pid"
proof -
  obtain u st1 where n: "normalize_conversation (json_sio root_dir) now r req st = (u, st1)" by (rule prod.exhaust)
  with assms(3,4) obtain upds where u: "u = Inr upds" and st1: "st1 = st'"
    and ans: "answer = set_fields (upds @ [(''message_type'', JString ''LLM_REQUEST''), (''mode'', JString ''conversation'')])
        (with_defaults cfg req)"
    by (cases u) (auto simp: normalize_llm_request_def)
  obtain pid k' c where c: "conversation_args req = Inr (pid, k')" "filed (co_convo_id c) c" "co_creator_pid c = pid"
    "upds = [(''convo_id'', JString (co_convo_id c)), (''user_id'', JString [])]"
    "tget (convo_cache st') (co_convo_id c) = Some c" "k' = [] \<or> k' = co_convo_id c"
    using json_convos.normalize_conversation_ok [OF _ assms(1,2) n] u st1 by auto
  have "is_object req" using assms(3) by (cases req) auto
  then have "is_object (with_defaults cfg req)" by (cases req) (simp_all add: with_defaults_def)
  then have "jget answer ''convo_id'' = Some (JString (co_convo_id c))"
    by (cases "with_defaults cfg req") (simp_all add: ans c(4))
  moreover have "\<exists>n. co_convo_id c = process_convo_id (nat pid) n"
    using c(1-3) by (auto simp: filed_def keyed_def conversation_args_Inr)
  ultimately show ?thesis
    using c by (auto simp: conversation_args_Inr)
qed

text \<open>C28: The conversation of a process is private to it. Whatever the store went through, when it accepts a
  request in conversation mode, the request named a positive source pid, and the conversation it is
  given is one whose id names that pid and whose creator is that pid: the one asked for, or a new
  one when no id was given.\<close>

theorem process_conversation_is_private:
  assumes "reach (sys_init (json_provider root_dir) json_ok) (sio_step (json_sio root_dir)) s"
    and "time_ok now"
    and "jvalue as_string req ''mode'' [] = Inr ''conversation''"
    and "normalize_llm_request (json_sio root_dir) rd menu cfg now r req (sy_sio s) = (Inr answer, st')"
  shows "\<exists>pid k k' c. jvalue as_int req ''source_pid'' (-1) = Inr pid \<and> 0 < pid
     \<and> jvalue as_string req ''convo_id'' [] = Inr k' \<and> (k' = [] \<or> k' = k)
     \<and> jget answer ''convo_id'' = Some (JString k) \<and> (\<exists>n. k = process_convo_id (nat pid) n)
     \<and> tget (convo_cache st') k = Some c \<and> co_creator_pid c = pid"
proof -
  have "sys_inv (json_provider root_dir) json_ok s" by (rule json_sys.reach_inv [OF assms(1)])
  then have "sio_wf (json_provider root_dir) json_ok (sy_sio s)" by (simp add: sys_inv_def)
  then show ?thesis by (rule normalize_private [OF _ assms(2-4)])
qed

definition demo_private_request :: "int \<Rightarrow> json" where
  "demo_private_request pid = jobj [(''mode'', JString ''conversation''), (''source_pid'', JInt pid),
     (''convo_id'', JString (process_convo_id 42 123456)), (''user_message'', JString ''hello'')]"

lemma demo_private_accept:
  "\<exists>answer st'. normalize_llm_request (json_sio demo_root) rd menu No_File 9 1 (demo_private_request 42)
     (sy_sio demo_sys_process) = (Inr answer, st')"
  using demo_sys_cached
  by (simp add: normalize_llm_request_def normalize_conversation_def conversation_args_def
      resolve_process_convo_def io_get_conversation_def demo_private_request_def has_input_def jcontains_def
      fresh_process_convo_def to_int32_def)

lemma process_conversation_is_private_witness:
  "fst (normalize_llm_request (json_sio demo_root) (\<lambda>_. None) (Inr JNull) No_File 9 1 (demo_private_request 43)
      (sy_sio demo_sys_process)) = Inl (Runtime_Error ''process conversation is owned by a different source_pid'')
   \<and> (\<exists>pid. jvalue as_int (demo_private_request 42) ''source_pid'' (-1) = Inr pid \<and> 0 < pid)"
proof -
  have m: "jvalue as_string (demo_private_request 42) ''mode'' [] = Inr ''conversation''"
    by (simp add: demo_private_request_def)
  have t: "time_ok 9" by (simp add: time_ok_def)
  obtain answer st' where n: "normalize_llm_request (json_sio demo_root) (\<lambda>_. None) (Inr JNull) No_File 9 1
      (demo_private_request 42) (sy_sio demo_sys_process) = (Inr answer, st')"
    using demo_private_accept by blast
  have "fst (normalize_llm_request (json_sio demo_root) (\<lambda>_. None) (Inr JNull) No_File 9 1 (demo_private_request 43)
      (sy_sio demo_sys_process)) = Inl (Runtime_Error ''process conversation is owned by a different source_pid'')"
    using demo_sys_cached
    by (simp add: normalize_llm_request_def normalize_conversation_def conversation_args_def
        resolve_process_convo_def io_get_conversation_def demo_private_request_def fresh_process_convo_def
        to_int32_def)
  with process_conversation_is_private [OF demo_sys_reach t m n] show ?thesis by blast
qed

end
