(* ===== verification/Conversation_Requests.thy ===== *)
theory Conversation_Requests
  imports Conversation_Store
begin

text \<open>
  What the operations of \<^verbatim>\<open>llm/session_io.cpp\<close> do to a conversation: appending a message changes that
  conversation by exactly that message, in the cache and in the store, or nothing; the messages sent
  to a model are the system prompt, the history and the inputs of the request in order; cleanup
  removes the conversations of stale processes. The section on races shows a message that is lost
  between the two sections of \<open>build_conversation_messages_safely\<close>.
\<close>

section \<open>Appending\<close>

context convo_store
begin

lemma append_cases:
  assumes M: "sio_storage M = Some S" and "wf st" and "time_ok now"
    and app: "append_message M now k role content toks extra st = (u, st')"
  shows "(\<exists>c c'. u = Inr True \<and> fetch M k st = (Inr c, st)
            \<and> append_message_unlocked now c role content toks extra = Some c'
            \<and> convo_cache st' = tput k c' (convo_cache st)
            \<and> sp_get_conversation S k (sio_world st') = Some (convo_json c')
            \<and> (\<forall>k'. k' \<noteq> k \<longrightarrow> sp_get_conversation S k' (sio_world st') = sp_get_conversation S k' (sio_world st)))
       \<or> u = Inr False \<and> convo_cache st' = convo_cache st
            \<and> (\<forall>k'. sp_get_conversation S k' (sio_world st') = sp_get_conversation S k' (sio_world st))"
proof -
  obtain c where f: "fetch M k st = (Inr c, st)" and c: "c = new_convo \<or> filed k c"
    using fetch_ok [OF M assms(2)] by blast
  show ?thesis
  proof (cases "co_convo_id c = [] \<or> append_message_unlocked now c role content toks extra = None")
    case True
    with app f have "u = Inr False" "st' = st" by (auto simp: append_message_def split: if_splits option.splits)
    then show ?thesis by simp
  next
    case False
    with c have fc: "filed k c" by auto
    from False obtain c' where c': "append_message_unlocked now c role content toks extra = Some c'" by auto
    then have fc': "filed k c'" by (rule append_unlocked_filed [OF _ assms(3) fc])
    obtain b w where p: "persist_conversation M c' (sio_world st) = (b, w)" by (rule prod.exhaust)
    have "ready (sio_world st)" "store_wf S (sio_world st)" using assms(2) by (auto simp: sio_wf_def)
    from persist_ok [OF M this fc' p]
    have w: "sp_get_conversation S k w = (if b then Some (convo_json c') else sp_get_conversation S k (sio_world st))"
      "\<And>k'. k' \<noteq> k \<Longrightarrow> sp_get_conversation S k' w = sp_get_conversation S k' (sio_world st)" by auto
    from app f c' False p have "u = Inr b"
      "st' = (if b then cache_put k c' (st\<lparr>sio_world := w\<rparr>) else st\<lparr>sio_world := w\<rparr>)"
      by (auto simp: append_message_def store_def split: bool.splits)
    moreover have "sp_get_conversation S k' w = sp_get_conversation S k' (sio_world st)" if "\<not> b" for k'
      using w that by (cases "k' = k") simp_all
    ultimately show ?thesis using w f c' by (cases b) auto
  qed
qed

end


lemma demo_sys_wf: "sio_wf (json_provider demo_root) json_ok (sy_sio demo_sys_process)"
  using json_sys.reach_inv [OF demo_sys_reach] by (simp add: sys_inv_def)


section \<open>The messages of a request\<close>

text \<open>A message as the loops read it.\<close>

definition str_field :: "json \<Rightarrow> string \<Rightarrow> string" where
  "str_field m k = (case jget m k of Some (JString s) \<Rightarrow> s | _ \<Rightarrow> [])"

definition msg_ok :: "json \<Rightarrow> bool" where
  "msg_ok m \<longleftrightarrow> is_object m \<and> (\<forall>k\<in>{''role'', ''content''}. \<forall>v. jget m k = Some v \<longrightarrow> is_string v)"

lemma jvalue_str_field:
  "msg_ok m \<Longrightarrow> jvalue as_string m ''role'' [] = Inr (str_field m ''role'')"
  "msg_ok m \<Longrightarrow> jvalue as_string m ''content'' [] = Inr (str_field m ''content'')"
  by (auto simp: msg_ok_def jvalue_object str_field_def split: option.splits json.splits)

text \<open>What one message of the history contributes to the request.\<close>

definition render_view :: "json \<Rightarrow> json list" where
  "render_view m =
     (let role = canonicalize_role (str_field m ''role''); content = str_field m ''content''
      in if \<not> is_valid_role role \<or> content = [] \<and> tool_calls_of m = None then []
         else [jobj ([(''role'', JString role), (''content'', JString content)]
                 @ (if role = ''assistant'' then opt_field ''tool_calls'' (tool_calls_of m) else [])
                 @ (if role = ''tool'' then opt_field ''tool_call_id'' (tool_call_id_of m) else []))])"

lemma render_ok: "list_all msg_ok ms \<Longrightarrow> render_messages ms = Inr (concat (map render_view ms))"
  by (induction ms) (auto simp: jvalue_str_field render_view_def Let_def)

lemma is_system_ok: "msg_ok m \<Longrightarrow> is_system m = Inr (str_field m ''role'' = ''system'')"
  by (simp add: jvalue_str_field) (simp add: msg_ok_def)

declare is_system.simps [simp del]

lemma has_system_ok:
  "list_all msg_ok ms \<Longrightarrow> has_system ms = Inr (\<exists>m\<in>set ms. str_field m ''role'' = ''system'')"
  by (induction ms) (auto simp: is_system_ok)

lemma without_system_ok:
  "list_all msg_ok ms \<Longrightarrow> without_system ms = Inr (filter (\<lambda>m. str_field m ''role'' \<noteq> ''system'') ms)"
  by (induction ms) (auto simp: is_system_ok)

lemma convo_message_fields:
  "jget (convo_message now role content extra) ''role'' = Some (JString (canonicalize_role role))"
  "jget (convo_message now role content extra) ''content'' = Some (JString content)"
  by (auto simp: convo_message_def)

lemma convo_message_ok [simp]: "msg_ok (convo_message now role content extra)"
  by (auto simp: msg_ok_def convo_message_fields) (simp add: convo_message_def)

text \<open>The inputs of a request: they come from the user or a tool and are not empty.\<close>

definition input_ok :: "pending_input \<Rightarrow> bool" where
  "input_ok p \<longleftrightarrow> (case p of (role, content, extra) \<Rightarrow>
     (role = ''user'' \<or> role = ''tool'') \<and> content \<noteq> [] \<and> tool_calls_of extra = None)"

abbreviation input_message :: "int \<Rightarrow> pending_input \<Rightarrow> json" where
  "input_message now p \<equiv> (case p of (role, content, extra) \<Rightarrow> convo_message now role content extra)"

definition input_view :: "pending_input \<Rightarrow> json" where
  "input_view p = (case p of (role, content, extra) \<Rightarrow>
     jobj ([(''role'', JString role), (''content'', JString content)]
       @ (if role = ''tool'' then opt_field ''tool_call_id'' (tool_call_id_of extra) else [])))"

lemma call_id_no_calls: "tool_calls_of (call_id_field j) = None"
  by (auto simp: tool_calls_of_def call_id_field_def split: option.splits json.splits)

lemma tool_input_ok: "tool_input m = Inr ps \<Longrightarrow> list_all input_ok ps"
  by (auto simp: tool_input_def rbind_Inr_conv input_ok_def call_id_no_calls split: if_splits)

lemma tool_inputs_ok: "tool_inputs ms = Inr ps \<Longrightarrow> list_all input_ok ps"
  by (induction ms arbitrary: ps) (auto simp: rbind_Inr_conv dest: tool_input_ok split: if_splits)

lemma text_input_ok:
  "(if P then rbind x (\<lambda>txt. Inr (if txt = [] then [] else [(role, txt, e)])) else Inr []) = Inr ps \<Longrightarrow>
     role = ''user'' \<or> role = ''tool'' \<Longrightarrow> tool_calls_of e = None \<Longrightarrow> list_all input_ok ps"
  by (auto simp: rbind_Inr_conv input_ok_def split: if_splits)

lemma pending_inputs_ok: "pending_inputs req = Inr ps \<Longrightarrow> list_all input_ok ps"
proof -
  assume "pending_inputs req = Inr ps"
  then obtain a b c d where ps: "ps = a @ b @ c @ d"
    and a: "(if jcontains req ''user_message'' then rbind (jvalue as_string req ''user_message'' []) (\<lambda>txt.
        Inr (if txt = [] then [] else [(''user'', txt, JObject [])])) else Inr []) = Inr a"
    and b: "(case jget req ''tool_message'' of Some (JObject m) \<Rightarrow> tool_input (JObject m) | _ \<Rightarrow> Inr []) = Inr b"
    and c: "(case jget req ''tool_messages'' of Some (JArray ms) \<Rightarrow> tool_inputs ms | _ \<Rightarrow> Inr []) = Inr c"
    and d: "(if jcontains req ''tool_result'' then rbind (jvalue as_string req ''tool_result'' []) (\<lambda>txt.
        Inr (if txt = [] then [] else [(''tool'', txt, call_id_field req)])) else Inr []) = Inr d"
    unfolding pending_inputs_def rbind_Inr_conv by blast
  have "tool_calls_of (JObject []) = None" by (simp add: tool_calls_of_def)
  then have "list_all input_ok a" using text_input_ok [OF a] by simp
  moreover have "list_all input_ok b" using b tool_input_ok by (auto split: option.splits json.splits)
  moreover have "list_all input_ok c" using c tool_inputs_ok by (auto split: option.splits json.splits)
  moreover have "list_all input_ok d" using text_input_ok [OF d] call_id_no_calls by simp
  ultimately show ?thesis by (simp add: ps)
qed

lemma build_job_inputs: "build_job_of req = Inr job \<Longrightarrow> list_all input_ok (bj_inputs job)"
  by (auto simp: build_job_of_def rbind_Inr_conv split: if_splits dest: pending_inputs_ok)

lemma append_inputs_messages:
  "list_all input_ok ps \<Longrightarrow>
     \<exists>c'. append_inputs now ps c = Some c' \<and> co_messages c' = co_messages c @ map (input_message now) ps
        \<and> co_user_id c' = co_user_id c"
proof (induction now ps c rule: append_inputs.induct)
  case (2 now role content extra ps c)
  then obtain d where "append_message_unlocked now c role content 0 extra = Some d"
    and "co_messages d = co_messages c @ [convo_message now role content extra]" "co_user_id d = co_user_id c"
    by (auto simp: append_message_unlocked_def input_ok_def is_valid_role_def canonicalize_role_def Let_def)
  with 2 show ?case by fastforce
qed simp

lemma render_view_input: "input_ok p \<Longrightarrow> render_view (input_message now p) = [input_view p]"
proof -
  assume ok: "input_ok p"
  obtain role content extra where p: "p = (role, content, extra)" by (cases p)
  have tc: "tool_calls_of (convo_message now role content extra) = None"
    using ok by (auto simp: p input_ok_def tool_calls_of_def convo_message_def split: option.splits)
  have ti: "tool_call_id_of (convo_message now role content extra) = tool_call_id_of extra"
    by (auto simp: tool_call_id_of_def convo_message_def split: option.splits json.splits)
  show ?thesis
    using ok tc ti
    by (auto simp: p input_ok_def render_view_def input_view_def str_field_def convo_message_fields Let_def
        is_valid_role_def canonicalize_role_def)
qed

text \<open>The history a request starts from: without its system messages when the caller replaces the
  prompt, and with the caller's prompt when it replaces it or opens the conversation.\<close>

definition base_history :: "int \<Rightarrow> build_job \<Rightarrow> json list \<Rightarrow> json list" where
  "base_history now job ms =
     (let x = bj_explicit job
      in if x = [] then ms
         else if bj_override job
         then filter (\<lambda>m. str_field m ''role'' \<noteq> ''system'') ms @ [convo_message now ''system'' x (JObject [])]
         else if ms = [] then [convo_message now ''system'' x (JObject [])]
         else ms)"

lemma with_system_ok:
  assumes "list_all msg_ok (co_messages c)"
  shows "\<exists>c'. with_system now (bj_explicit job) (bj_override job) c = Inr c'
     \<and> co_messages c' = base_history now job (co_messages c) \<and> co_user_id c' = co_user_id c"
  using assms
  by (auto simp: with_system_def base_history_def without_system_ok append_message_unlocked_def Let_def
      is_valid_role_def canonicalize_role_def)

lemma base_history_ok: "list_all msg_ok ms \<Longrightarrow> list_all msg_ok (base_history now job ms)"
  by (auto simp: base_history_def Let_def list_all_filter)

lemma concat_input_views:
  "list_all input_ok ps \<Longrightarrow> concat (map render_view (map (input_message now) ps)) = map input_view ps"
  by (induction ps) (simp_all add: render_view_input)

lemma build_messages_result:
  assumes job: "build_job_of req = Inr job" and f: "fetch M (bj_convo_id job) st = (Inr c, st)"
    and c: "co_convo_id c \<noteq> []" "list_all msg_ok (co_messages c)"
  shows "\<exists>c' st'. co_messages c' = base_history now job (co_messages c) @ map (input_message now) (bj_inputs job)
     \<and> st' = store_anyway M (bj_convo_id job) c' st
     \<and> build_conversation_messages_safely M rd menu now req st =
         (Inr (JArray
           ((if \<exists>m\<in>set (co_messages c'). str_field m ''role'' = ''system'' then []
             else [jobj [(''role'', JString ''system''), (''content'', JString
                     (build_layered_system_prompt rd menu (bj_mode job) (bj_explicit job) (co_user_id c)))]])
            @ concat (map render_view (base_history now job (co_messages c))) @ map input_view (bj_inputs job))), st')"
proof -
  have ins: "list_all input_ok (bj_inputs job)" by (rule build_job_inputs [OF job])
  obtain c1 where c1: "with_system now (bj_explicit job) (bj_override job) c = Inr c1"
    "co_messages c1 = base_history now job (co_messages c)" "co_user_id c1 = co_user_id c"
    using with_system_ok [OF c(2)] by blast
  obtain c' where c': "append_inputs now (bj_inputs job) c1 = Some c'"
    "co_messages c' = co_messages c1 @ map (input_message now) (bj_inputs job)" "co_user_id c' = co_user_id c1"
    using append_inputs_messages [OF ins] by blast
  have up: "update_convo now (bj_explicit job) (bj_override job) (bj_inputs job) c = Inr c'"
    by (simp add: update_convo_def c1 c')
  have ok: "list_all msg_ok (co_messages c')"
    using base_history_ok [OF c(2)] by (auto simp: c' c1 list_all_iff)
  let ?st = "store_anyway M (bj_convo_id job) c' st"
  have "build_conversation_messages_safely M rd menu now req st =
      (rbind (render_request rd menu (bj_mode job) (bj_explicit job) c') (\<lambda>ms. Inr (JArray ms)), ?st)"
    by (simp add: build_conversation_messages_safely_def job build_fetch_def f c(1) build_commit_def up)
  moreover have "render_request rd menu (bj_mode job) (bj_explicit job) c' =
      Inr ((if \<exists>m\<in>set (co_messages c'). str_field m ''role'' = ''system'' then []
            else [jobj [(''role'', JString ''system''), (''content'', JString
                    (build_layered_system_prompt rd menu (bj_mode job) (bj_explicit job) (co_user_id c)))]])
           @ concat (map render_view (co_messages c')))"
    unfolding render_request_def has_system_ok [OF ok] render_ok [OF ok] rbind.simps c'(3) c1(3) by simp
  moreover have "concat (map render_view (co_messages c')) =
      concat (map render_view (base_history now job (co_messages c))) @ map input_view (bj_inputs job)"
    using concat_input_views [OF ins] by (simp add: c'(2) c1(2))
  ultimately show ?thesis
    by (intro exI [of _ c'] exI [of _ ?st]) (simp add: c'(2) c1(2))
qed

text \<open>C30: The request sent to the model carries the conversation. For a request with some input on a
  conversation whose messages have textual roles and contents, the call returns; the array is the
  layered system prompt (when no system message is in the history), then the rendered history, then
  exactly the inputs of the request in their order; and the conversation left in the cache is the
  history with one message per input appended.\<close>

theorem built_request_exact:
  assumes "build_job_of req = Inr job" and "fetch M (bj_convo_id job) st = (Inr c, st)"
    and "co_convo_id c \<noteq> []" and "list_all msg_ok (co_messages c)"
  shows "\<exists>c' st'. build_conversation_messages_safely M rd menu now req st =
         (Inr (JArray
           ((if \<exists>m\<in>set (co_messages c'). str_field m ''role'' = ''system'' then []
             else [jobj [(''role'', JString ''system''), (''content'', JString
                     (build_layered_system_prompt rd menu (bj_mode job) (bj_explicit job) (co_user_id c)))]])
            @ concat (map render_view (base_history now job (co_messages c))) @ map input_view (bj_inputs job))), st')
     \<and> co_messages c' = base_history now job (co_messages c) @ map (input_message now) (bj_inputs job)
     \<and> tget (convo_cache st') (bj_convo_id job) = Some c'"
proof -
  have "tget (convo_cache (store_anyway M k c' st)) k = Some c'" for k c'
    by (simp add: store_anyway_def split: prod.split)
  with build_messages_result [OF assms] show ?thesis by blast
qed

definition demo_ask :: json where
  "demo_ask = jobj [(''mode'', JString ''conversation''), (''convo_id'', JString (process_convo_id 42 123456)),
     (''user_message'', JString ''hi''), (''system_prompt'', JString ''Be brief.'')]"

definition demo_job :: build_job where
  "demo_job = \<lparr>bj_convo_id = process_convo_id 42 123456, bj_mode = ''conversation'', bj_explicit = ''Be brief.'',
     bj_override = False, bj_inputs = [(''user'', ''hi'', JObject [])]\<rparr>"

lemma demo_job_of: "build_job_of demo_ask = Inr demo_job"
  by (simp add: build_job_of_def demo_ask_def demo_job_def system_prompt_override_def pending_inputs_def
      explicit_system_prompt_def jcontains_def)

lemma demo_fetch:
  "fetch (json_sio demo_root) (bj_convo_id demo_job) (sy_sio demo_sys_process)
     = (Inr (fresh_process_convo 7 42 123456), sy_sio demo_sys_process)"
  using demo_sys_cached by (simp add: fetch_def demo_job_def)

text \<open>The witness is also the case of a caller's prompt on the first turn: it is stored as the only
  system message, so the layered prompt (guidelines, persona, skills) is not part of the request.\<close>

lemma built_request_exact_witness:
  "\<exists>st'. build_conversation_messages_safely (json_sio demo_root) (\<lambda>_. None) (Inr JNull) 9 demo_ask (sy_sio demo_sys_process) =
     (Inr (JArray [jobj [(''role'', JString ''system''), (''content'', JString ''Be brief.'')],
                   jobj [(''role'', JString ''user''), (''content'', JString ''hi'')]]), st')"
proof -
  have c: "co_convo_id (fresh_process_convo 7 42 123456) \<noteq> []" "co_messages (fresh_process_convo 7 42 123456) = []"
    by (simp_all add: fresh_process_convo_def new_convo_def)
  have b: "base_history 9 demo_job [] = [convo_message 9 ''system'' ''Be brief.'' (JObject [])]"
    by (simp add: base_history_def demo_job_def)
  have v: "render_view (convo_message 9 ''system'' ''Be brief.'' (JObject [])) =
      [jobj [(''role'', JString ''system''), (''content'', JString ''Be brief.'')]]"
    by (simp add: render_view_def str_field_def convo_message_fields canonicalize_role_def is_valid_role_def)
  have i: "map input_view (bj_inputs demo_job) = [jobj [(''role'', JString ''user''), (''content'', JString ''hi'')]]"
    by (simp add: demo_job_def input_view_def)
  have s: "str_field (convo_message 9 ''system'' ''Be brief.'' (JObject [])) ''role'' = ''system''"
    by (simp add: str_field_def convo_message_fields canonicalize_role_def)
  from built_request_exact [OF demo_job_of demo_fetch c(1), of "\<lambda>_. None" "Inr JNull" 9] show ?thesis
    by (auto simp: c(2) b v i s)
qed

text \<open>In general: a caller's prompt that opens a conversation replaces the layers.\<close>

lemma first_prompt_replaces_layers:
  assumes "build_job_of req = Inr job" and "fetch M (bj_convo_id job) st = (Inr c, st)"
    and "co_convo_id c \<noteq> []" and "co_messages c = []" and "bj_explicit job \<noteq> []"
  shows "\<exists>st'. build_conversation_messages_safely M rd menu now req st =
     (Inr (JArray (jobj [(''role'', JString ''system''), (''content'', JString (bj_explicit job))]
                   # map input_view (bj_inputs job))), st')"
proof -
  let ?m = "convo_message now ''system'' (bj_explicit job) (JObject [])"
  have b: "base_history now job [] = [?m]" using assms(5) by (simp add: base_history_def Let_def)
  have v: "render_view ?m = [jobj [(''role'', JString ''system''), (''content'', JString (bj_explicit job))]]"
    using assms(5) by (simp add: render_view_def str_field_def convo_message_fields canonicalize_role_def is_valid_role_def)
  have s: "str_field ?m ''role'' = ''system''"
    by (simp add: str_field_def convo_message_fields canonicalize_role_def)
  from build_messages_result [OF assms(1-3), of now rd menu] show ?thesis
    by (auto simp: assms(4) b v s)
qed

section \<open>Races\<close>

text \<open>A message appended between the two sections under the lock is lost: the commit writes back the
  copy that was fetched before it.\<close>

lemma racing_append_is_lost:
  assumes "build_commit M now job c st = (Inr c', st')" and "list_all msg_ok (co_messages c)"
    and "list_all input_ok (bj_inputs job)"
  shows "tget (convo_cache st') (bj_convo_id job) = Some c'
     \<and> co_messages c' = base_history now job (co_messages c) @ map (input_message now) (bj_inputs job)"
proof -
  obtain c1 where c1: "with_system now (bj_explicit job) (bj_override job) c = Inr c1"
    "co_messages c1 = base_history now job (co_messages c)"
    using with_system_ok [OF assms(2)] by blast
  obtain c2 where c2: "append_inputs now (bj_inputs job) c1 = Some c2"
    "co_messages c2 = co_messages c1 @ map (input_message now) (bj_inputs job)"
    using append_inputs_messages [OF assms(3)] by blast
  from assms(1) have "c' = c2" "st' = store_anyway M (bj_convo_id job) c' st"
    by (auto simp: build_commit_def update_convo_def c1 c2)
  then show ?thesis by (simp add: c2 c1 store_anyway_def split: prod.split)
qed

text \<open>A random number drawn twice for the same process gives the id of an existing conversation,
  which is replaced by an empty one.\<close>

lemma id_collision_erases:
  "0 < pid \<Longrightarrow>
     tget (convo_cache (snd (create_process_convo M now r pid st))) (process_convo_id (nat pid) r)
       = Some (fresh_process_convo now pid r)
   \<and> co_messages (fresh_process_convo now pid r) = []"
  by (simp add: create_process_convo_def store_anyway_def fresh_process_convo_def new_convo_def Let_def
      split: prod.split)

end
