(* ===== verification/Llm_Reply.thy ===== *)
theory Llm_Reply
  imports Llm_Request Conversation_Requests
begin

text \<open>
  What the scheduler promises about a request to a model (\<^verbatim>\<open>llm/scheduler.cpp\<close>): a streamed answer of an OpenAI compatible
  service becomes the response with its text, its tool calls and the tokens sent to the client; the
  assistant message stored is the one in the reply, and an attempt that was superseded stores nothing;
  the limit on generated tokens fits the context. The last section shows what the context check leaves
  out.
\<close>

section \<open>A streamed answer\<close>

text \<open>The slot that an empty delta is merged into.\<close>

definition opened :: "json list \<Rightarrow> json list" where
  "opened ps = (if ps = [] then [JObject []] else ps)"

lemma merge_empty [simp]: "merge_object target (JObject []) = target"
  by (cases target) (simp_all add: merge_object.simps)

lemma on_stream_empty_delta:
  assumes "delta_tool_call c = JObject []"
  shows "stream_callback c agg =
    (Inr (), agg\<lparr>agg_content := agg_content agg @ delta_text c,
                 agg_tokens := agg_tokens agg @ (if delta_text c \<noteq> [] then [delta_text c] else []),
                 agg_partials := opened (agg_partials agg),
                 agg_finish_reason := (if chunk_finished c \<and> agg_finish_reason agg = [] then ''stop'' else agg_finish_reason agg)\<rparr>)"
  by (cases "agg_partials agg")
    (auto simp: stream_callback_def on_stream_chunk_def assms find_slot_for_delta_def ensure_slot_def opened_def Let_def)

lemma merge_tool_call [simp]: "merge_object (JObject []) (tool_call_json x) = tool_call_json x"
  by (simp add: tool_call_json_def jobj_def merge_object.simps)

lemma stream_texts:
  "aeach stream_callback (map text_chunk ts) agg =
    (Inr (), agg\<lparr>agg_content := agg_content agg @ concat ts, agg_tokens := agg_tokens agg @ filter (\<lambda>t. t \<noteq> []) ts,
       agg_partials := (if ts = [] then agg_partials agg else opened (agg_partials agg))\<rparr>)"
proof (induction ts arbitrary: agg)
  case (Cons t ts)
  then show ?case
    by (simp add: abind_def on_stream_empty_delta text_chunk_def) (auto simp: opened_def)
qed (simp add: aret_def)

text \<open>The calls so far, before the next one.\<close>

definition calls_so_far :: "json list \<Rightarrow> json list \<Rightarrow> bool" where
  "calls_so_far ps done \<longleftrightarrow> ps = done \<or> done = [] \<and> ps = [JObject []]"

lemma stream_tool:
  assumes "calls_so_far (agg_partials agg) done" "to_int32 (int (length done)) = int (length done)"
  shows "stream_callback (tool_chunk (tool_call_json (int (length done), x))) agg =
    (Inr (), agg\<lparr>agg_partials := done @ [tool_call_json (int (length done), x)]\<rparr>)"
proof -
  let ?tc = "tool_call_json (int (length done), x)"
  have slot: "find_slot_for_delta ps ?tc = Inr (length done)" for ps
    using assms(2) by (simp add: find_slot_for_delta_def tool_call_json_def)
  have obj: "is_object ?tc" by (simp add: tool_call_json_def)
  show ?thesis
    using assms(1) slot obj
    by (auto simp: calls_so_far_def stream_callback_def on_stream_chunk_def tool_chunk_def ensure_slot_def Let_def nth_append)
qed

lemma stream_tools:
  assumes "calls_so_far (agg_partials agg) done"
    and "map fst cs = map int [length done ..< length done + length cs]" "list_all (\<lambda>c. to_int32 (fst c) = fst c) cs" "cs \<noteq> []"
  shows "aeach stream_callback (map (\<lambda>c. tool_chunk (tool_call_json c)) cs) agg =
    (Inr (), agg\<lparr>agg_partials := done @ map tool_call_json cs\<rparr>)"
  using assms
proof (induction cs arbitrary: agg "done")
  case (Cons c cs)
  have "[length done ..< length done + length (c # cs)] = length done # [Suc (length done) ..< Suc (length done) + length cs]"
    by (simp add: upt_conv_Cons del: upt_Suc)
  then have fc: "fst c = int (length done)" and tl: "map fst cs = map int [Suc (length done) ..< Suc (length done) + length cs]"
    using Cons.prems(2) by (simp_all del: upt_Suc)
  then have c: "c = (int (length done), snd c)" "map fst cs = map int [Suc (length done) ..< Suc (length done) + length cs]"
    by (simp_all add: prod_eq_iff del: upt_Suc)
  have rng: "to_int32 (int (length done)) = int (length done)"
    using Cons.prems(3) fc by simp
  have step: "stream_callback (tool_chunk (tool_call_json c)) agg = (Inr (), agg\<lparr>agg_partials := done @ [tool_call_json c]\<rparr>)"
    using stream_tool [OF Cons.prems(1) rng, of "snd c"] by (simp only: c(1) [symmetric])
  show ?case
  proof (cases "cs = []")
    case True
    then show ?thesis using step by (simp add: abind_def aret_def)
  next
    case False
    then show ?thesis
      using step Cons.IH [of "agg\<lparr>agg_partials := done @ [tool_call_json c]\<rparr>" "done @ [tool_call_json c]"] c(2) Cons.prems(3)
      by (simp add: abind_def calls_so_far_def)
  qed
qed simp


lemma iput_keys: "fst ` set (iput k v m) = insert k (fst ` set m)"
  by (induction k v m rule: iput.induct) (simp_all add: insert_commute)

lemma fold_delta_keys:
  assumes "\<forall>i\<in>fst ` set m. P i" "list_all (case_delta (\<lambda>t. True) (\<lambda>i c n. P i) (\<lambda>i a. P i)) ds"
  shows "\<forall>i\<in>fst ` set (fold apply_delta ds m). P i"
  using assms
proof (induction ds arbitrary: m)
  case (Cons d ds)
  have "\<forall>i\<in>fst ` set (apply_delta d m). P i"
    using Cons.prems by (cases d) (auto simp only: iput_keys apply_delta.simps list.pred_inject delta.case)
  then have "\<forall>i\<in>fst ` set (fold apply_delta ds (apply_delta d m)). P i"
    using Cons.prems(2) by (intro Cons.IH) simp_all
  then show ?case by simp
qed simp

lemma delta_calls_keys:
  assumes "list_all delta_ok ds"
  shows "list_all (\<lambda>c. to_int32 (fst c) = fst c) (delta_calls ds)"
proof -
  have "delta_ok = case_delta (\<lambda>t. True) (\<lambda>i c n. to_int32 i = i) (\<lambda>i a. to_int32 i = i)"
    by (rule ext, case_tac x) simp_all
  then have "list_all (case_delta (\<lambda>t. True) (\<lambda>i c n. to_int32 i = i) (\<lambda>i a. to_int32 i = i)) ds"
    using assms by (simp only:)
  then have "\<forall>i\<in>fst ` set (fold apply_delta ds []). to_int32 i = i"
    by (rule fold_delta_keys [rotated]) simp
  then show ?thesis
    unfolding delta_calls_def list_all_iff by blast
qed

text \<open>A tool call as the scheduler returns it.\<close>

definition final_call :: "int \<times> tool_call_state \<Rightarrow> json" where
  "final_call c =
     jobj [(''id'', JString (tc_id (snd c))), (''type'', JString ''function''),
           (''function'', jobj [(''name'', JString (tc_name (snd c))), (''arguments'', JString (tc_arguments (snd c)))])]"

lemma finish_tool_call_json: "finish_tool_call (tool_call_json c) = [final_call c]"
  by (simp add: finish_tool_call_def tool_call_json_def final_call_def jobj_def nonempty_string_field_def)

lemma stream_collected:
  assumes "map fst (delta_calls ds) = map int [0 ..< length (delta_calls ds)]" "list_all delta_ok ds"
  shows "\<exists>agg. aeach stream_callback (stream_chunks ds) new_aggregate = (Inr (), agg) \<and>
    agg_content agg = concat (delta_texts ds) \<and> agg_tokens agg = filter (\<lambda>t. t \<noteq> []) (delta_texts ds) \<and>
    agg_finish_reason agg = ''stop'' \<and> finish_stream agg = map final_call (delta_calls ds)"
proof -
  let ?cs = "delta_calls ds"
  define a1 where "a1 = new_aggregate\<lparr>agg_content := concat (delta_texts ds), agg_tokens := filter (\<lambda>t. t \<noteq> []) (delta_texts ds),
    agg_partials := (if delta_texts ds = [] then [] else [JObject []])\<rparr>"
  define a2 where "a2 = (if ?cs = [] then a1 else a1\<lparr>agg_partials := map tool_call_json ?cs\<rparr>)"
  have 1: "aeach stream_callback (map text_chunk (delta_texts ds)) new_aggregate = (Inr (), a1)"
    by (simp add: stream_texts a1_def new_aggregate_def opened_def)
  have "calls_so_far (agg_partials a1) []"
    by (simp add: calls_so_far_def a1_def)
  then have 2: "aeach stream_callback (map (\<lambda>x. tool_chunk (tool_call_json x)) ?cs) a1 = (Inr (), a2)"
    using stream_tools [of a1 "[]" ?cs] assms(1) delta_calls_keys [OF assms(2)] by (auto simp: a2_def aret_def)
  define a3 where "a3 = a2\<lparr>agg_partials := opened (agg_partials a2), agg_finish_reason := ''stop''\<rparr>"
  have reason: "agg_finish_reason a2 = []"
    by (simp add: a2_def a1_def new_aggregate_def)
  then have 3: "aeach stream_callback [finished_chunk] a2 = (Inr (), a3)"
    by (simp add: abind_def aret_def on_stream_empty_delta finished_chunk_def a3_def)
  have "concat (map finish_tool_call (opened (agg_partials a2))) = map final_call ?cs"
  proof (cases "?cs = []")
    case True
    then show ?thesis
      by (simp add: opened_def a2_def a1_def finish_tool_call_def)
  next
    case False
    then show ?thesis
      by (simp add: opened_def a2_def finish_tool_call_json comp_def)
  qed
  then have fin: "finish_stream a3 = map final_call ?cs"
    by (simp add: finish_stream_def a3_def)
  have run: "aeach stream_callback (stream_chunks ds) new_aggregate = (Inr (), a3)"
    using 1 2 3 by (simp only: stream_chunks_def aeach_append abind_def prod.case sum.case)
  show ?thesis
    by (intro exI [of _ a3] conjI run fin) (simp_all add: a3_def a2_def a1_def)
qed


section \<open>What a reply stores\<close>

lemma limit_payload_other:
  "k \<noteq> ''max_tokens'' \<Longrightarrow> k \<noteq> ''sampling_params'' \<Longrightarrow> jget (limit_payload n p) k = jget p k"
  "is_object (limit_payload n p) = is_object p"
  by (cases p; simp add: limit_payload_def Let_def split: option.splits json.splits)+

lemma budgeted_payload_other:
  assumes "budgeted_payload ctx p = Inr q"
  shows "k \<noteq> ''max_tokens'' \<Longrightarrow> k \<noteq> ''sampling_params'' \<Longrightarrow> jvalue conv q k d = jvalue conv p k d"
proof -
  assume k: "k \<noteq> ''max_tokens''" "k \<noteq> ''sampling_params''"
  obtain n where n: "q = p \<or> q = limit_payload n p" "is_object p"
    using assms by (cases p) (auto simp: budgeted_payload_def rbind_Inr_conv split: option.splits json.splits if_splits)
  then show ?thesis
    using limit_payload_other(1) [OF k, of n p] limit_payload_other(2) [of n p] by (auto simp: jvalue_object)
qed

theorem stale_attempt_writes_nothing:
  assumes "process_llm_request_stateless X M cfg False req st = (r, tokens, st')"
  shows "st' = st \<and> (\<forall>j. r = Inr j \<longrightarrow> j = JNull)"
  using assms by (auto simp: process_llm_request_stateless_def Let_def split: sum.splits prod.splits)

lemma persist_reply_cases:
  assumes "persist_reply M now p mode content calls used st = (Inr (), st')"
    and "jvalue as_string p ''mode'' ''simple'' = Inr mode" "jvalue as_string p ''convo_id'' [] = Inr cid"
  shows "st' = (if is_conversation mode \<and> (content \<noteq> [] \<or> calls \<noteq> []) \<and> cid \<noteq> []
    then snd (append_message M now cid ''assistant'' content used
                (if calls = [] then JObject [] else jobj [(''tool_calls'', JArray calls)]) st)
    else st)"
  using assms
  by (auto simp: persist_reply_def persist_assistant_tool_call_def persist_assistant_response_def is_conversation_def
      split: if_splits sum.splits prod.splits)

lemma llm_response_fields:
  "jget (llm_response req mode l r calls extra) ''response'' = Some (JString (cp_content r)) \<or>
   jget (llm_response req mode l r calls extra) ''response'' = map_of extra ''response''"
  by (simp add: llm_response_def map_add_def split: option.splits)

lemma conversation_fields_keys:
  "conversation_fields p mode = Inr extra \<Longrightarrow> map_of extra ''response'' = None \<and> map_of extra ''tool_calls'' = None"
  by (auto simp: conversation_fields_def rbind_Inr_conv split: if_splits)

text \<open>C18: when a current attempt is answered, the conversation store is changed by appending the one assistant message with the text and the tool calls of the reply, and not at all outside a conversation or for an empty answer.\<close>

theorem reply_is_stored:
  assumes run: "process_llm_request_stateless X M cfg True req st = (Inr j, tokens, st')"
    and mode: "jvalue as_string (q_payload req) ''mode'' ''simple'' = Inr mode"
    and cid: "jvalue as_string (q_payload req) ''convo_id'' [] = Inr cid"
  shows "\<exists>content calls used. jget j ''response'' = Some (JString content) \<and> jget j ''tool_calls'' = Some (JArray calls) \<and>
    st' = (if is_conversation mode \<and> (content \<noteq> [] \<or> calls \<noteq> []) \<and> cid \<noteq> []
           then snd (append_message M (re_now_ms X) cid ''assistant'' content used
                       (if calls = [] then JObject [] else jobj [(''tool_calls'', JArray calls)]) st)
           else st)"
proof -
  obtain p r calls used extra where p: "budgeted_payload (mc_context_length (sc_model_info cfg)) (q_payload req) = Inr p"
    and stored: "persist_reply M (re_now_ms X) p mode (cp_content r) calls used st = (Inr (), st')"
    and extra: "conversation_fields p mode = Inr extra"
    and j: "j = llm_response req mode (re_latency X) r calls extra"
    using run mode budgeted_payload_other [where k = "''mode''" and conv = as_string and d = "''simple''"]
    by (auto simp: process_llm_request_stateless_def Let_def rbind_Inr_conv split: sum.splits prod.splits if_splits)
  have "jvalue as_string p ''mode'' ''simple'' = Inr mode" "jvalue as_string p ''convo_id'' [] = Inr cid"
    using budgeted_payload_other [OF p, of "''mode''" as_string "''simple''"]
      budgeted_payload_other [OF p, of "''convo_id''" as_string "[]"] mode cid by simp_all
  from persist_reply_cases [OF stored this] show ?thesis
    using conversation_fields_keys [OF extra]
    by (intro exI [of _ "cp_content r"] exI [of _ calls] exI [of _ used])
      (simp add: j llm_response_def map_add_def)
qed

text \<open>Streaming is for the handler's own conversation with a user.\<close>

lemma streams_only_to_handler:
  assumes "build_chat_request dump schemas req cfg msgs = Inr chat" "cr_stream chat"
  shows "q_tree_id req = ''TREE_HANDLER'' \<and> jvalue as_string (q_payload req) ''mode'' ''simple'' = Inr ''user_conversation'' \<and>
    string_member (q_payload req) ''user_id'' \<noteq> [] \<and> ac_enable_streaming (sc_adapter_cfg cfg)"
  using assms by (auto simp: build_chat_request_def Let_def rbind_Inr_conv stream_allowed_def)

section \<open>The context check\<close>

lemma history_not_counted:
  assumes "is_object a" "jvalue as_string a ''role'' [] = Inr ''assistant''"
  shows "estimate_request_tokens (JArray (old @ a # new)) = estimate_request_tokens (JArray (a # new))"
proof -
  have "request_tokens_from (xs @ a # rev old) n = request_tokens_from (xs @ [a]) n" for xs n
    using assms by (induction xs arbitrary: n) (simp_all cong: if_cong option.case_cong json.case_cong)
  then show ?thesis by (simp add: estimate_request_tokens_def)
qed

lemma token_budget_bound:
  assumes "token_budget ctx n m = Some l" "0 < ctx" "int ctx \<le> INT_MAX"
  shows "(100 < ctx \<longrightarrow> n + 100 < ctx) \<and> l \<le> max 10 (int ctx - int n - 100) \<and> l \<le> m \<and> (l < m \<longrightarrow> 10 \<le> l)"
proof -
  have n: "n < (if ctx > 100 then ctx - 100 else 0)"
    using assms(1,2) by (auto simp: token_budget_def Let_def split: if_splits)
  then have "to_int32 (int ctx) = int ctx" "to_int32 (int n) = int n"
    using assms(3) by (auto intro!: to_int32_id split: if_splits)
  then show ?thesis
    using assms n by (auto simp: token_budget_def Let_def split: if_splits)
qed


section \<open>Examples\<close>


definition sample_scheduler :: "nat \<Rightarrow> scheduler_config" where
  "sample_scheduler context =
     \<lparr>sc_active_adapter = ''llama'', sc_adapter_cfg = sample_config,
      sc_model_info = \<lparr>mc_model_name = ''m'', mc_model_type = ''chat'', mc_active_adapter = ''llama'', mc_context_length = context,
                       mc_max_simultaneous = 5, mc_enabled = True\<rparr>,
      sc_auto_compact_threshold = 7 / 10, sc_max_llm_keys = 5, sc_max_client_threads = 64, sc_wait_timeout_ms = 65000,
      sc_executioner_port = 5172, sc_supervisor_port = 5173\<rparr>"

definition sample_pending :: pending_request where
  "sample_pending =
     \<lparr>q_request_id = ''r1'', q_trace_id = [], q_tree_id = ''t1'', q_queue_key = ''t1'', q_source_pid = 42, q_base_priority = 1,
      q_payload = jobj [(''mode'', JString ''conversation''), (''convo_id'', JString (process_convo_id 42 123456)),
        (''messages'', JArray [jobj [(''role'', JString ''user''), (''content'', JString ''x'')]]), (''max_tokens'', JInt 9000)],
      q_enqueued_at = 0\<rparr>"

definition sample_request_env :: request_env where
  "sample_request_env = \<lparr>re_llm = sample_env [], re_schemas = JArray [], re_uuid = (\<lambda>i. ''u''), re_now_ms = 8, re_latency = 1\<rparr>"


lemma sample_run:
  "\<exists>j st'. process_llm_request_stateless sample_request_env (json_sio demo_root) (sample_scheduler 0) True sample_pending
     (sy_sio demo_sys_process) = (Inr j, [], st')"
proof -
  let ?p = "q_payload sample_pending"
  have pay: "budgeted_payload 0 ?p = Inr ?p"
    by (simp add: sample_pending_def budgeted_payload_def estimate_request_tokens_def token_budget_def to_int32_def)
  have mode: "jvalue as_string ?p ''mode'' ''simple'' = Inr ''conversation''"
    by (simp add: sample_pending_def)
  have ms: "the (jget ?p ''messages'') = cr_messages sample_chat"
    by (simp add: sample_pending_def sample_chat_def)
  have chat: "build_chat_request sample_dump (JArray []) sample_pending (sample_scheduler 0) (cr_messages sample_chat) =
      Inr (sample_chat\<lparr>cr_model := ''m'', cr_stream := False, cr_max_tokens := 9000\<rparr>)"
    by (simp add: build_chat_request_def provider_messages_def order_messages_def sample_pending_def sample_chat_def sample_scheduler_def
        sample_config_def stringify_message_def string_member_def stream_allowed_def role_of_def Let_def to_int32_def jobj_def
        nonempty_array_def)
  define r where "r = new_response\<lparr>cp_content := ''hi'', cp_raw :=
      jobj [(''choices'', JArray [jobj [(''message'', jobj [(''content'', JString ''hi'')])]])]\<rparr>"
  have call: "run_chat_once (make_adapter ''llama'') (sample_env []) sample_config
      (sample_chat\<lparr>cr_model := ''m'', cr_stream := False, cr_max_tokens := 9000\<rparr>) = (Inr r, [])"
  proof -
    have kind: "make_adapter ''llama'' = LlamaCppAdapter"
      by (simp add: make_adapter_def normalize_adapter_key_def tolower_def)
    obtain pl where pl: "openai_payload sample_config (sample_chat\<lparr>cr_model := ''m'', cr_stream := False, cr_max_tokens := 9000\<rparr>) = Inr pl"
      by (simp add: openai_payload_def normalize_messages_for_provider_def normalize_message_def sample_chat_def Let_def)
    have "post_payload (sample_env []) sample_config (ac_chat_endpoint sample_config) pl [] =
        Inr (jobj [(''choices'', JArray [jobj [(''message'', jobj [(''content'', JString ''hi'')])]])])"
      by (simp add: post_payload_def post_json_def resolve_endpoint_def sample_config_def sample_env_def sample_parse_def)
    then show ?thesis
      by (simp add: run_chat_once_def kind openai_call_chat_def pl) (simp add: openai_response_def sample_chat_def r_def new_response_def string_member_def)
  qed
  have wf: "sio_wf (json_provider demo_root) json_ok (sy_sio demo_sys_process)" by (rule demo_sys_wf)
  have t: "time_ok 8" by (simp add: time_ok_def)
  obtain u st' where a: "append_message (json_sio demo_root) 8 (process_convo_id 42 123456) ''assistant'' ''hi'' 1 (JObject [])
      (sy_sio demo_sys_process) = (u, st')" by (rule prod.exhaust)
  have u: "u = Inr True \<or> u = Inr False"
    using json_convos.append_cases [OF json_sio_simps(1) wf t a] by blast
  have cid: "jvalue as_string ?p ''convo_id'' [] = Inr (process_convo_id 42 123456)" "process_convo_id 42 123456 \<noteq> []"
    by (simp_all add: sample_pending_def process_convo_id_def)
  have stored: "persist_reply (json_sio demo_root) 8 ?p ''conversation'' ''hi'' [] 1 (sy_sio demo_sys_process) = (Inr (), st')"
    using u a cid mode by (auto simp: persist_reply_def persist_assistant_response_def is_conversation_def)
  have fields: "\<exists>extra. conversation_fields ?p ''conversation'' = Inr extra"
    by (simp add: conversation_fields_def is_conversation_def sample_pending_def)
  have used: "tokens_used sample_dump r [] = Inr 1" "cp_tool_calls r = JArray []" "cp_content r = ''hi''"
    by (simp_all add: tokens_used_def r_def new_response_def)
  have sel: "le_dump (sample_env []) = sample_dump" "le_parse (sample_env []) = sample_parse"
    "sc_adapter_cfg (sample_scheduler 0) = sample_config" "sc_active_adapter (sample_scheduler 0) = ''llama''"
    "mc_context_length (sc_model_info (sample_scheduler 0)) = 0"
    by (simp_all add: sample_env_def sample_scheduler_def)
  have same: "sample_pending\<lparr>q_payload := ?p\<rparr> = sample_pending" by simp
  show ?thesis
    using fields
    by (auto simp: process_llm_request_stateless_def Let_def sample_request_env_def pay mode ms chat call used stored
        sel same)
qed

theorem reply_is_stored_witness:
  "\<exists>j st' content calls used.
     process_llm_request_stateless sample_request_env (json_sio demo_root) (sample_scheduler 0) True sample_pending
       (sy_sio demo_sys_process) = (Inr j, [], st') \<and>
     jget j ''response'' = Some (JString content) \<and> jget j ''tool_calls'' = Some (JArray calls) \<and>
     st' = (if is_conversation ''conversation'' \<and> (content \<noteq> [] \<or> calls \<noteq> []) \<and> process_convo_id 42 123456 \<noteq> []
            then snd (append_message (json_sio demo_root) 8 (process_convo_id 42 123456) ''assistant'' content used
                        (if calls = [] then JObject [] else jobj [(''tool_calls'', JArray calls)]) (sy_sio demo_sys_process))
            else sy_sio demo_sys_process)"
proof -
  obtain j st' where run: "process_llm_request_stateless sample_request_env (json_sio demo_root) (sample_scheduler 0) True sample_pending
      (sy_sio demo_sys_process) = (Inr j, [], st')"
    using sample_run by blast
  have "jvalue as_string (q_payload sample_pending) ''mode'' ''simple'' = Inr ''conversation''"
    "jvalue as_string (q_payload sample_pending) ''convo_id'' [] = Inr (process_convo_id 42 123456)" "re_now_ms sample_request_env = 8"
    by (simp_all add: sample_pending_def sample_request_env_def)
  with run reply_is_stored [OF run] show ?thesis by metis
qed

theorem stale_attempt_writes_nothing_witness:
  "\<exists>r tokens st'. process_llm_request_stateless sample_request_env (json_sio demo_root) (sample_scheduler 0) False sample_pending
       (sy_sio demo_sys_process) = (r, tokens, st') \<and> st' = sy_sio demo_sys_process \<and> (\<forall>j. r = Inr j \<longrightarrow> j = JNull)"
proof -
  obtain r tokens st' where run: "process_llm_request_stateless sample_request_env (json_sio demo_root) (sample_scheduler 0) False
      sample_pending (sy_sio demo_sys_process) = (r, tokens, st')" by (metis prod.exhaust)
  then show ?thesis using stale_attempt_writes_nothing [OF run] by blast
qed

end
