(* ===== verification/Spec2Isabelle.thy ===== *)
theory Spec2Isabelle
  imports Supervisor_Watchdog Bus Compaction File_Tools Application_Manager Thread_Pool Skill_Registry Prepare_Coalescer Llm_Reply
begin

text \<open>
  A verification library of the Velix kernel, the C++ services that run language model agents as
  processes: a supervisor with its process registry and watchdog, a message bus, a scheduler for model
  requests with sessions and compaction, terminal sessions behind an application manager, an executioner
  that prepares and starts packages, and the file tools of the agents. Names of definitions are the names of the code where they are free in HOL; a
  prefix or suffix is added where two components use the same one.

  \<^bold>\<open>How the parts interact.\<close> Processes register with the supervisor and send heartbeats to it, directly
  or over the bus; the supervisor keeps them in the registry, and its watchdog kills the late ones and
  the trees over their limits through the termination engine, which tells the bus. Requests for a model
  go to the scheduler, which queues them by process tree or conversation, and on completion stores
  conversations through the session manager, whose storage is a provider; long conversations are
  queued for the compacter. Terminal requests go to the application manager, which keeps shells in the
  terminal registry; each shell is a driver whose output is parsed by the sentinel parser into the
  records of the job store. Requests to start a tool go to the executioner, which checks the
  package, prepares it once per content and spawns it; its clients are handled by a thread pool. All services speak length-prefixed JSON over sockets.

  \<^bold>\<open>Theories and sources.\<close>
  \<^item> \<open>Prelude\<close>: exceptions as a sum type, integers of 32 and 64 bits, hash maps as tables with distinct
    keys, reachability, and the interfaces \<open>keyed_store\<close> and \<open>inductive_invariant\<close>.
  \<^item> \<open>Cxx_Strings\<close>: \<^verbatim>\<open>utils/string_utils.hpp\<close> and the standard string functions, with reference
    definitions of searching, trimming and replacing. \<open>Json\<close>: JSON values and their conversions.
  \<^item> \<open>Process_Registry\<close>, \<open>Registry_Machine\<close>: \<^verbatim>\<open>core/process_registry.cpp\<close>; the state record \<open>registry\<close>,
    each operation, its invariant, and the refinement of an abstract map of live processes.
  \<^item> \<open>Termination_Engine\<close>: \<^verbatim>\<open>core/termination_engine.cpp\<close>; \<open>Supervisor\<close>: the message handlers and
    configuration of \<^verbatim>\<open>core/supervisor.cpp\<close>; \<open>Supervisor_Watchdog\<close>: its watchdog, handler restart,
    conversation expiry, start and stop.
  \<^item> \<open>Framing\<close>: \<^verbatim>\<open>communication/\<close>; sockets are schedules of partial transfers and failures.
    \<open>Bus\<close>: \<^verbatim>\<open>core/bus.cpp\<close>; sessions, strands as task lists, relay, and closing.
  \<^item> \<open>Scheduler\<close>, \<open>Scheduler_Requests\<close>: \<^verbatim>\<open>llm/scheduler.cpp\<close>; queues and candidates of the worker pool as
    a step relation, and parsing, budgets, streaming, undo and attempts of requests.
  \<^item> \<open>Session_Ids\<close>, \<open>Json_Storage\<close>, \<open>Session_Manager\<close>: \<^verbatim>\<open>llm/session_manager.cpp\<close> and
    \<^verbatim>\<open>llm/storage/json_storage_provider.cpp\<close> over a file system of JSON values. The manager is proved
    against the interface \<open>session_store\<close>, which is interpreted on the JSON provider.
    \<open>Compaction\<close>: \<^verbatim>\<open>llm/compacter.cpp\<close> and the compaction worker, whose queue is a step relation.
  \<^item> \<open>File_Text\<close>, \<open>File_Tools\<close>: \<^verbatim>\<open>utils/file_tools.cpp\<close> and \<^verbatim>\<open>utils/file_lock.hpp\<close> over a file system in which
    names lead to inodes.
  \<^item> \<open>Sentinel\<close>, \<open>Terminal_Driver\<close>, \<open>Driver_Factory\<close>, \<open>Terminal_Registry\<close>, \<open>Application_Manager\<close>:
    \<^verbatim>\<open>core/persistant_applications/\<close>; the stream parser, the threads of a shell driver as a step relation,
    the driver factory and sandbox check, the session table, and the service in front of it.
  \<^item> \<open>Prompt_Safety\<close>, \<open>Session_IO\<close>, \<open>Conversation_Store\<close>, \<open>Conversation_Requests\<close>:
    \<^verbatim>\<open>llm/session_io.cpp\<close>; the guarded system prompt, the cache of conversations over a provider, its
    operations in every interleaving, and the requests built from it. The store is proved against the
    interface \<open>convo_store\<close>, which is interpreted on the JSON provider.
  \<^item> \<open>Thread_Pool\<close>: \<^verbatim>\<open>utils/thread_pool.hpp\<close> as a step relation of callers, workers and destructor.
    \<open>Skill_Registry\<close>: \<^verbatim>\<open>llm/skills/skill_registry.cpp\<close>; front matter, caches, truncation, suggestions.
  \<^item> \<open>Sha256\<close>, \<open>Runtime_Adapters\<close>, \<open>Executioner\<close>, \<open>Prepare_Coalescer\<close>: \<^verbatim>\<open>execution/\<close>; the digest against the
    standard, command lines and preparation steps of packages, content keys and caches, the handler of a
    request, and the coalescer of concurrent preparations as a step relation.
  \<^item> \<open>Sse_Stream\<close>, \<open>Model_Adapters\<close>, \<open>Adapter_Streams\<close>: \<^verbatim>\<open>llm/adapters/\<close>; HTTP requests and the parser of server-sent
    events, the three adapters and their factory, and what a caller of a stream can rely on.
    \<open>Llm_Request\<close>, \<open>Llm_Reply\<close>: the configuration of the scheduler and the way of a request through it to
    an adapter and into the store. \<open>Config_Utils\<close>: \<^verbatim>\<open>utils/config_utils.hpp\<close>.

  \<^bold>\<open>What is shown.\<close> Invariants over all interleavings: well-formed registry, at most one request in
  work for a queue key, order of queued requests and of bus writes, exact compaction queue, session
  limits and drivers closed exactly once, final job records, conversations under the ids of their owners. Refinement: the registry implements a map
  of live processes; the services act on their tables only through the operations. Exactness: what a
  watchdog pass kills or evicts, what a compaction keeps, what a patch replaces, what an error leaves
  unchanged, what a streamed answer becomes in the reply and in the store. Round trips: frames, events of a stream, \<^verbatim>\<open>.env\<close> files, conversations, pages of a file, the output of a command from the
  shell to the client. Equivalence with references: edit distance, string replacement, the parser fed
  in pieces, streams cut in pieces, the constant-time comparison, the threat scan, SHA-256. Several theorems state what the code really does where that
  is not what it means to do: a killed process is never removed, a killed handler blocks its restart, an Anthropic stream always ends in an error,
  closing a driver with a dead shell never returns.

  \<^bold>\<open>Parameters and bounds.\<close> What the operating system, the clock, sockets, the HTTP library, the JSON text parser
  and the model services answer are arguments of the definitions, so the theorems hold for every answer;
  the hypotheses on them stand in the statements. Loops of the code are structural recursions or have
  termination proofs; where a thread may wait for ever the result type has \<open>None\<close> for it (joining a
  thread, signed overflow, a poll loop that is still polling). Reading a file by pages is given fuel, and
  the number of lines is enough. 64 bit times are words, and the wrap-around of their differences is
  part of the statements. Floating point numbers are rational.

  \<^bold>\<open>Not modelled.\<close> Sockets, threads and processes themselves, the Windows branches, logging; the
  process SDK, the chat handler and the tools, which are
  clients of the modelled services; the SQLite provider, whose statements are run by a library; the
  tool registry.
\<close>

section \<open>Sessions, compaction and storage together\<close>

lemma save_snapshot_json:
  assumes "storage_provider M = Some (json_provider json_root)"
  shows "save_snapshot M now_ms sid history w
     = (snd (append_snapshot json_root sid (jobj [(''session_id'', JString sid),
          (''snapshot_n'', JInt (int (Suc (snapshot_count json_root sid (fst w))))),
          (''snapshot_ms'', JInt now_ms), (''messages'', history)]) (fst w)), snd w)"
  using assms
  by (simp add: save_snapshot_def next_snapshot_index_def json_provider_def on_fs_def case_prod_unfold)

text \<open>Whether a snapshot can be appended does not depend on what it holds.\<close>

lemma append_snapshot_writable:
  "fst (append_snapshot root_dir sid snap fs) = fst (append_snapshot root_dir sid snap' fs)"
  by (simp add: append_snapshot_def Let_def write_file_def split: sum.splits)

text \<open>C36: Compaction preserves the history. Compacting a session through the JSON back end, with a
  well formed history and a writable snapshot directory: when the compacter summarises, the whole
  history is stored in the next snapshot file, which did not exist before, no other file changes,
  and the conversation that replaces it is the summary exchange followed by exactly the recent turns
  (without a pending user message when the compaction is automatic); when the compacter declines,
  nothing at all changes and a reason is reported.\<close>

theorem compaction_preserves_history:
  fixes M :: "'d session_manager"
  assumes "M = json_manager root_dir json_root"
    and "list_all turn_ok turns" and "turns \<noteq> []" and "length turns < 2 ^ 64"
    and "config_ok cfg" and "cc_enabled cfg"
    and "fst (append_snapshot json_root sid JNull (fst w))"
    and "cr = compact_history_if_needed cfg now request (JArray turns)"
    and "compact M (compact_history_if_needed cfg now request) now_ms sid turns is_auto w = (r, w')"
    and "p = snapshot_path json_root sid (Suc (snapshot_count json_root sid (fst w)))"
  shows "(co_compacted cr \<longrightarrow> (\<exists>cres snap. r = Inr cres
        \<and> jget (scr_compacted_conversation cres) ''messages'' = Some (JArray (seed_messages (co_summary cr)
            @ kept_tail is_auto (drop (length turns - cc_keep_recent_turns cfg) turns)))
        \<and> \<not> fs_exists (fst w) p
        \<and> tget (fs_files (fst w')) p = Some (Some snap) \<and> jget snap ''messages'' = Some (JArray turns)
        \<and> (\<forall>q. q \<noteq> p \<longrightarrow> tget (fs_files (fst w')) q = tget (fs_files (fst w)) q)))
     \<and> (\<not> co_compacted cr \<longrightarrow> (\<exists>cres. r = Inr cres \<and> w' = w \<and> \<not> scr_compacted cres
        \<and> scr_compact_reason cres \<noteq> []))"
proof -
  have prov: "storage_provider M = Some (json_provider json_root)" using assms(1) by simp
  define snap where "snap = jobj [(''session_id'', JString sid),
          (''snapshot_n'', JInt (int (Suc (snapshot_count json_root sid (fst w))))),
          (''snapshot_ms'', JInt now_ms), (''messages'', JArray turns)]"
  have "fst (append_snapshot json_root sid snap (fst w))"
    using assms(7) append_snapshot_writable [of json_root sid snap "fst w" JNull] by simp
  then obtain fs' where ap: "append_snapshot json_root sid snap (fst w) = (True, fs')"
    by (cases "append_snapshot json_root sid snap (fst w)") simp
  have stored: "save_snapshot M now_ms sid (JArray turns) w = (fs', snd w)"
    using save_snapshot_json [OF prov, of now_ms sid "JArray turns" w, folded snap_def] ap by simp
  note stored_file = append_snapshot_file [OF ap refl, folded assms(10)]
  note outcome = compact_loses_nothing [OF assms(2,5,6,4,3,8) refl, of M now_ms sid is_auto w, unfolded assms(9)]
  have "jget snap ''messages'' = Some (JArray turns)" by (simp add: snap_def)
  then show ?thesis using outcome stored_file stored by auto
qed

lemma compaction_preserves_history_witness:
  "\<exists>cres snap. fst (compact (json_manager [''memory''] demo_root)
       (compact_history_if_needed demo_config ''now'' demo_request) 7 ''ana_s1'' demo_history True (demo_fs, ()))
     = Inr cres
   \<and> tget (fs_files (fst (snd (compact (json_manager [''memory''] demo_root)
       (compact_history_if_needed demo_config ''now'' demo_request) 7 ''ana_s1'' demo_history True (demo_fs, ())))))
       (snapshot_path demo_root ''ana_s1'' (Suc (snapshot_count demo_root ''ana_s1'' demo_fs)))
     = Some (Some snap) \<and> jget snap ''messages'' = Some (JArray demo_history)"
proof -
  have ok: "list_all turn_ok demo_history" "demo_history \<noteq> []"
    and ap: "fst (append_snapshot demo_root ''ana_s1'' JNull (fst (demo_fs, ())))" by code_simp+
  show ?thesis
    using compaction_preserves_history [OF refl ok demo_config_ok(3,1,2) ap refl prod.collapse [symmetric] refl,
        of "''now''" demo_request "[''memory'']" 7 True] demo_compacted
    by simp blast
qed

end
